(* ===== verification/Pb_Prelude.thy ===== *)
theory Pb_Prelude
  imports Main "HOL-Library.Word" "HOL-Library.Monad_Syntax"
begin

text \<open>
  Shared vocabulary of the development: the C integer types of the target (a 64-bit
  little-endian machine, as every current iOS device is), the byte-addressed memory of a C
  program, little-endian loads and stores with their algebra, and the base-128 digits that
  both protocol buffers and LevelDB use for variable-length integers.
\<close>

unbundle bit_operations_syntax

named_theorems mem_simps \<open>loads after stores\<close>
named_theorems le_simps \<open>little-endian byte sequences\<close>
named_theorems varint_simps \<open>base-128 digit sequences\<close>

type_synonym byte = "8 word"
type_synonym u16 = "16 word"
type_synonym u32 = "32 word"
type_synonym u64 = "64 word"

text \<open>
  Addresses are integers: C pointer arithmetic inside objects never wraps, so the model
  needs no modulus. \<open>0\<close> is the null pointer.
\<close>

type_synonym addr = int
type_synonym memory = "addr \<Rightarrow> byte"

lemma unat_lt2p: "unat (w :: 'a::len word) < 2 ^ LENGTH('a)"
  by (rule unsigned_less)

lemma unat_eqI: "unat a = unat b \<Longrightarrow> a = (b :: 'a::len word)"
  by (rule unsigned_word_eqI)

lemma unat_drop_bit: "unat (drop_bit n w) = unat (w :: 'a::len word) div 2 ^ n"
  by (subst unat_drop_bit_eq) (rule drop_bit_eq_div)

lemma drop_bit_7_less: "v \<noteq> 0 \<Longrightarrow> unat (drop_bit 7 v) < unat (v :: 'a::len word)"
  by (simp add: unat_drop_bit unat_gt_0)

lemma byte_eqI: "(\<And>n. n \<in> {0,1,2,3,4,5,6,7} \<Longrightarrow> bit x n = bit y n) \<Longrightarrow> x = (y :: byte)"
proof (rule bit_word_eqI)
  fix n
  assume all: "\<And>n. n \<in> {0,1,2,3,4,5,6,7} \<Longrightarrow> bit x n = bit y n" and "n < LENGTH(8)"
  then have "n < 8" by simp
  then have "n \<in> {0,1,2,3,4,5,6,7}" by (simp, linarith)
  then show "bit x n = bit y n" by (rule all)
qed

section \<open>Byte ranges of memory\<close>

definition load_bytes :: "memory \<Rightarrow> addr \<Rightarrow> nat \<Rightarrow> byte list" where
  "load_bytes m p n = map (\<lambda>i. m (p + int i)) [0..<n]"

definition store_bytes :: "memory \<Rightarrow> addr \<Rightarrow> byte list \<Rightarrow> memory" where
  "store_bytes m p bs =
     (\<lambda>a. if p \<le> a \<and> a < p + int (length bs) then bs ! nat (a - p) else m a)"

lemma length_load_bytes [simp]: "length (load_bytes m p n) = n"
  by (simp add: load_bytes_def)

lemma nth_load_bytes [simp]: "i < n \<Longrightarrow> load_bytes m p n ! i = m (p + int i)"
  by (simp add: load_bytes_def)

lemma load_bytes_0 [simp]: "load_bytes m p 0 = []"
  by (simp add: load_bytes_def)

lemma load_bytes_Suc: "load_bytes m p (Suc n) = m p # load_bytes m (p + 1) n"
proof -
  have "map (\<lambda>i. m (p + int i)) [0..<Suc n] = m p # map (\<lambda>i. m (p + int i)) [1..<Suc n]"
    by (simp add: upt_conv_Cons del: upt_Suc)
  also have "map (\<lambda>i. m (p + int i)) [1..<Suc n] = map (\<lambda>i. m (p + 1 + int i)) [0..<n]"
    by (simp add: map_Suc_upt [symmetric] o_def algebra_simps del: upt_Suc)
  finally show ?thesis by (simp add: load_bytes_def)
qed

lemma load_bytes_add:
  "load_bytes m p (a + b) = load_bytes m p a @ load_bytes m (p + int a) b"
  by (rule nth_equalityI) (auto simp: nth_append algebra_simps)

lemma store_bytes_Nil [simp]: "store_bytes m p [] = m"
  by (rule ext) (auto simp: store_bytes_def)

lemma store_bytes_outside [mem_simps]:
  "a < p \<or> p + int (length bs) \<le> a \<Longrightarrow> store_bytes m p bs a = m a"
  by (auto simp: store_bytes_def)

lemma load_store_same [simp]: "load_bytes (store_bytes m p bs) p (length bs) = bs"
  by (rule nth_equalityI) (auto simp: store_bytes_def)

lemma load_store_other [mem_simps]:
  assumes "q + int n \<le> p \<or> p + int (length bs) \<le> q"
  shows "load_bytes (store_bytes m p bs) q n = load_bytes m q n"
  using assms by (intro nth_equalityI) (auto simp: store_bytes_def)

lemma load_bytes_cong:
  "(\<And>a. p \<le> a \<Longrightarrow> a < p + int n \<Longrightarrow> m a = m' a) \<Longrightarrow> load_bytes m p n = load_bytes m' p n"
  by (rule nth_equalityI) auto

lemma store_bytes_append:
  "store_bytes m p (xs @ ys) = store_bytes (store_bytes m p xs) (p + int (length xs)) ys"
proof
  fix a
  have "nat (a - p) - length xs = nat (a - (p + int (length xs)))" by simp
  then show "store_bytes m p (xs @ ys) a
      = store_bytes (store_bytes m p xs) (p + int (length xs)) ys a"
    by (auto simp: store_bytes_def nth_append)
qed

section \<open>Little-endian integers\<close>

fun le_val :: "byte list \<Rightarrow> nat" where
  "le_val [] = 0"
| "le_val (b # bs) = unat b + 256 * le_val bs"

fun le_bytes :: "nat \<Rightarrow> nat \<Rightarrow> byte list" where
  "le_bytes 0 v = []"
| "le_bytes (Suc n) v = word_of_nat v # le_bytes n (v div 256)"

lemma length_le_bytes [simp]: "length (le_bytes n v) = n"
  by (induction n arbitrary: v) auto

lemma le_val_bound [le_simps]: "le_val bs < 256 ^ length bs"
proof (induction bs)
  case Nil
  then show ?case by simp
next
  case (Cons b bs)
  have "unat b < 256" using unat_lt2p [of b] by simp
  with Cons show ?case by simp
qed

lemma unat_byte_of_nat: "unat (word_of_nat v :: byte) = v mod 256"
  by (simp add: unat_of_nat)

lemma le_val_le_bytes [le_simps]: "le_val (le_bytes n v) = v mod 256 ^ n"
proof (induction n arbitrary: v)
  case 0
  then show ?case by simp
next
  case (Suc n)
  have "v mod (256 * 256 ^ n) = 256 * (v div 256 mod 256 ^ n) + v mod 256"
    by (rule mod_mult2_eq)
  with Suc show ?case by (simp add: unat_byte_of_nat)
qed

lemma le_bytes_le_val [le_simps]: "length bs = n \<Longrightarrow> le_bytes n (le_val bs) = bs"
proof (induction bs arbitrary: n)
  case Nil
  then show ?case by simp
next
  case (Cons b bs)
  have lt: "unat b < 256" using unat_lt2p [of b] by simp
  have "(word_of_nat (unat b + 256 * le_val bs) :: byte) = b"
  proof (rule unat_eqI)
    show "unat (word_of_nat (unat b + 256 * le_val bs) :: byte) = unat b"
      using lt by (simp add: unat_byte_of_nat del: of_nat_add of_nat_mult)
  qed
  moreover have "(unat b + 256 * le_val bs) div 256 = le_val bs"
    using lt by simp
  ultimately show ?case using Cons by (cases n) auto
qed

lemma nat_and_255: "(n :: nat) AND 255 = n mod 256"
  using take_bit_eq_mask [of 8 n] by (simp add: take_bit_eq_mod mask_eq_exp_minus_1)

lemma le_bytes_numeral:
  "le_bytes (numeral k) v = word_of_nat v # le_bytes (pred_numeral k) (v div 256)"
  by (subst numeral_eq_Suc [of k]) (rule le_bytes.simps)

lemma le_val_append: "le_val (xs @ ys) = le_val xs + 256 ^ length xs * le_val ys"
  by (induction xs) (auto simp: algebra_simps)

text \<open>Typed loads and stores, one pair per width the code uses.\<close>

definition load8 :: "memory \<Rightarrow> addr \<Rightarrow> byte" where
  "load8 m p = m p"

definition load16 :: "memory \<Rightarrow> addr \<Rightarrow> u16" where
  "load16 m p = word_of_nat (le_val (load_bytes m p 2))"

definition load32 :: "memory \<Rightarrow> addr \<Rightarrow> u32" where
  "load32 m p = word_of_nat (le_val (load_bytes m p 4))"

definition load64 :: "memory \<Rightarrow> addr \<Rightarrow> u64" where
  "load64 m p = word_of_nat (le_val (load_bytes m p 8))"

definition store8 :: "memory \<Rightarrow> addr \<Rightarrow> byte \<Rightarrow> memory" where
  "store8 m p v = m(p := v)"

definition store16 :: "memory \<Rightarrow> addr \<Rightarrow> u16 \<Rightarrow> memory" where
  "store16 m p v = store_bytes m p (le_bytes 2 (unat v))"

definition store32 :: "memory \<Rightarrow> addr \<Rightarrow> u32 \<Rightarrow> memory" where
  "store32 m p v = store_bytes m p (le_bytes 4 (unat v))"

definition store64 :: "memory \<Rightarrow> addr \<Rightarrow> u64 \<Rightarrow> memory" where
  "store64 m p v = store_bytes m p (le_bytes 8 (unat v))"

text \<open>A pointer occupies eight bytes.\<close>

definition load_ptr :: "memory \<Rightarrow> addr \<Rightarrow> addr" where
  "load_ptr m p = uint (load64 m p)"

definition store_ptr :: "memory \<Rightarrow> addr \<Rightarrow> addr \<Rightarrow> memory" where
  "store_ptr m p v = store64 m p (word_of_int v)"

lemma load_le_bytes [mem_simps]:
  "load_bytes (store_bytes m p (le_bytes n v)) p n = le_bytes n v"
  using load_store_same [of m p "le_bytes n v"] by simp

lemma load16_store16 [simp, mem_simps]: "load16 (store16 m p v) p = v"
  using unat_lt2p [of v]
  by (simp add: load16_def store16_def load_le_bytes le_val_le_bytes)

lemma load32_store32 [simp, mem_simps]: "load32 (store32 m p v) p = v"
  using unat_lt2p [of v]
  by (simp add: load32_def store32_def load_le_bytes le_val_le_bytes)

lemma load64_store64 [simp, mem_simps]: "load64 (store64 m p v) p = v"
  using unat_lt2p [of v]
  by (simp add: load64_def store64_def load_le_bytes le_val_le_bytes)

lemma load_ptr_store_ptr [mem_simps]:
  "0 \<le> v \<Longrightarrow> v < 2 ^ 64 \<Longrightarrow> load_ptr (store_ptr m p v) p = v"
  by (simp add: load_ptr_def store_ptr_def uint_word_of_int)

end
