(* ===== verification/Pb_Core.thy ===== *)
theory Pb_Core
  imports Pb_Prelude
begin

text \<open>
  The types and constants of \<^verbatim>\<open>nanopb/pb.h\<close>, \<^verbatim>\<open>pb_encode.h\<close>, \<^verbatim>\<open>pb_decode.h\<close> and
  \<^verbatim>\<open>pb_common.h\<close> in the configuration the Pods are built with
  (\<^verbatim>\<open>PB_FIELD_32BIT=1 PB_NO_PACKED_STRUCTS=1 PB_ENABLE_MALLOC=1\<close>): field type codes and
  their masks, the field descriptor, the field iterator, the two stream structures, and the
  state of the C program the library runs in. Code the library only calls through function
  pointers (stream callbacks, field callbacks, extension handlers, the allocator's choice of
  an address) is the parameter \<open>cenv\<close>.
\<close>

section \<open>Field types\<close>

type_synonym pb_type_t = byte
type_synonym pb_size_t = u32

definition PB_SIZE_MAX :: pb_size_t where
  "PB_SIZE_MAX = 0xFFFFFFFF"

definition PB_MAX_REQUIRED_FIELDS :: nat where
  "PB_MAX_REQUIRED_FIELDS = 64"

definition PB_LTYPE_VARINT :: pb_type_t where "PB_LTYPE_VARINT = 0x00"
definition PB_LTYPE_UVARINT :: pb_type_t where "PB_LTYPE_UVARINT = 0x01"
definition PB_LTYPE_SVARINT :: pb_type_t where "PB_LTYPE_SVARINT = 0x02"
definition PB_LTYPE_FIXED32 :: pb_type_t where "PB_LTYPE_FIXED32 = 0x03"
definition PB_LTYPE_FIXED64 :: pb_type_t where "PB_LTYPE_FIXED64 = 0x04"
definition PB_LTYPE_LAST_PACKABLE :: pb_type_t where "PB_LTYPE_LAST_PACKABLE = 0x04"
definition PB_LTYPE_BYTES :: pb_type_t where "PB_LTYPE_BYTES = 0x05"
definition PB_LTYPE_STRING :: pb_type_t where "PB_LTYPE_STRING = 0x06"
definition PB_LTYPE_SUBMESSAGE :: pb_type_t where "PB_LTYPE_SUBMESSAGE = 0x07"
definition PB_LTYPE_EXTENSION :: pb_type_t where "PB_LTYPE_EXTENSION = 0x08"
definition PB_LTYPE_FIXED_LENGTH_BYTES :: pb_type_t where "PB_LTYPE_FIXED_LENGTH_BYTES = 0x09"
definition PB_LTYPE_MASK :: pb_type_t where "PB_LTYPE_MASK = 0x0F"

definition PB_HTYPE_REQUIRED :: pb_type_t where "PB_HTYPE_REQUIRED = 0x00"
definition PB_HTYPE_OPTIONAL :: pb_type_t where "PB_HTYPE_OPTIONAL = 0x10"
definition PB_HTYPE_REPEATED :: pb_type_t where "PB_HTYPE_REPEATED = 0x20"
definition PB_HTYPE_ONEOF :: pb_type_t where "PB_HTYPE_ONEOF = 0x30"
definition PB_HTYPE_MASK :: pb_type_t where "PB_HTYPE_MASK = 0x30"

definition PB_ATYPE_STATIC :: pb_type_t where "PB_ATYPE_STATIC = 0x00"
definition PB_ATYPE_POINTER :: pb_type_t where "PB_ATYPE_POINTER = 0x80"
definition PB_ATYPE_CALLBACK :: pb_type_t where "PB_ATYPE_CALLBACK = 0x40"
definition PB_ATYPE_MASK :: pb_type_t where "PB_ATYPE_MASK = 0xC0"

definition PB_ATYPE :: "pb_type_t \<Rightarrow> pb_type_t" where
  "PB_ATYPE x = x AND PB_ATYPE_MASK"

definition PB_HTYPE :: "pb_type_t \<Rightarrow> pb_type_t" where
  "PB_HTYPE x = x AND PB_HTYPE_MASK"

definition PB_LTYPE :: "pb_type_t \<Rightarrow> pb_type_t" where
  "PB_LTYPE x = x AND PB_LTYPE_MASK"

lemmas pb_ltype_defs =
  PB_LTYPE_VARINT_def PB_LTYPE_UVARINT_def PB_LTYPE_SVARINT_def PB_LTYPE_FIXED32_def
  PB_LTYPE_FIXED64_def PB_LTYPE_LAST_PACKABLE_def PB_LTYPE_BYTES_def PB_LTYPE_STRING_def
  PB_LTYPE_SUBMESSAGE_def PB_LTYPE_EXTENSION_def PB_LTYPE_FIXED_LENGTH_BYTES_def
  PB_LTYPE_MASK_def

lemmas pb_htype_defs =
  PB_HTYPE_REQUIRED_def PB_HTYPE_OPTIONAL_def PB_HTYPE_REPEATED_def PB_HTYPE_ONEOF_def
  PB_HTYPE_MASK_def

lemmas pb_atype_defs =
  PB_ATYPE_STATIC_def PB_ATYPE_POINTER_def PB_ATYPE_CALLBACK_def PB_ATYPE_MASK_def

lemmas pb_type_defs = pb_ltype_defs pb_htype_defs pb_atype_defs
  PB_ATYPE_def PB_HTYPE_def PB_LTYPE_def

section \<open>Descriptors\<close>

text \<open>
  \<^verbatim>\<open>struct pb_field_s\<close>. \<open>f_size_offset\<close> is read as a signed number; \<open>f_ptr\<close> is the
  address of a descriptor array for submessages and of a default value otherwise.
\<close>

record pb_field =
  f_tag :: pb_size_t
  f_type :: pb_type_t
  f_data_offset :: pb_size_t
  f_size_offset :: u32
  f_data_size :: pb_size_t
  f_array_size :: pb_size_t
  f_ptr :: addr

definition PB_LAST_FIELD :: pb_field where
  "PB_LAST_FIELD = \<lparr>f_tag = 0, f_type = 0, f_data_offset = 0, f_size_offset = 0,
     f_data_size = 0, f_array_size = 0, f_ptr = 0\<rparr>"

text \<open>
  A descriptor array is the list of its entries, the terminator included. The code never
  looks past the terminator (proved for the iterator); the model reads the terminator there.
\<close>

definition field_at :: "pb_field list \<Rightarrow> nat \<Rightarrow> pb_field" where
  "field_at fs i = (if i < length fs then fs ! i else PB_LAST_FIELD)"

lemma field_at_tag_nz: "f_tag (field_at fs i) \<noteq> 0 \<Longrightarrow> i < length fs"
  by (auto simp: field_at_def PB_LAST_FIELD_def split: if_splits)

text \<open>\<^verbatim>\<open>PB_BYTES_ARRAY_T_ALLOCSIZE(n)\<close>: the four-byte size member precedes the bytes.\<close>

definition PB_BYTES_ARRAY_T_ALLOCSIZE :: "u32 \<Rightarrow> u64" where
  "PB_BYTES_ARRAY_T_ALLOCSIZE n = ucast n + 4"

text \<open>Wire types; a value read from the wire may be none of the four.\<close>

type_synonym pb_wire_type_t = u32

definition PB_WT_VARINT :: pb_wire_type_t where "PB_WT_VARINT = 0"
definition PB_WT_64BIT :: pb_wire_type_t where "PB_WT_64BIT = 1"
definition PB_WT_STRING :: pb_wire_type_t where "PB_WT_STRING = 2"
definition PB_WT_32BIT :: pb_wire_type_t where "PB_WT_32BIT = 5"

lemmas pb_wt_defs = PB_WT_VARINT_def PB_WT_64BIT_def PB_WT_STRING_def PB_WT_32BIT_def

section \<open>Program state, streams and the environment\<close>

text \<open>
  \<open>mem\<close> holds the message structures, the heap blocks they own, default values and
  extension nodes. The output buffer of a memory stream is an object of its own, \<open>obuf\<close>:
  the source structure of an encoding and its destination buffer do not overlap.
  \<open>heap\<close> lists the live blocks; \<open>heap_ok\<close> is lost when a pointer that is neither null
  nor a live block is freed or reallocated. \<open>world\<close> is whatever the user's callbacks
  act on, coded as a number.
\<close>

record cstate =
  mem :: memory
  obuf :: memory
  heap :: "(addr \<times> u64) list"
  heap_ok :: bool
  world :: nat

datatype ocallback = buf_write_cb | user_write_cb nat

record pb_ostream =
  os_callback :: "ocallback option"
  os_state :: addr
  max_size :: u64
  bytes_written :: u64
  os_errmsg :: "string option"

definition PB_OSTREAM_SIZING :: pb_ostream where
  "PB_OSTREAM_SIZING = \<lparr>os_callback = None, os_state = 0, max_size = 0, bytes_written = 0,
     os_errmsg = None\<rparr>"

text \<open>
  The state of a memory input stream is the pointer to its next byte, that is, the bytes
  from there to the end of the (constant) buffer. A custom stream keeps what it likes there.
\<close>

datatype icallback = buf_read_cb | user_read_cb nat

record pb_istream =
  is_callback :: icallback
  is_state :: "byte list"
  bytes_left :: u64
  is_errmsg :: "string option"

text \<open>\<^verbatim>\<open>PB_SET_ERROR\<close> keeps the first message.\<close>

definition os_set_error :: "string \<Rightarrow> pb_ostream \<Rightarrow> pb_ostream" where
  "os_set_error msg os =
     os\<lparr>os_errmsg := (case os_errmsg os of Some e \<Rightarrow> Some e | None \<Rightarrow> Some msg)\<rparr>"

definition is_set_error :: "string \<Rightarrow> pb_istream \<Rightarrow> pb_istream" where
  "is_set_error msg s =
     s\<lparr>is_errmsg := (case is_errmsg s of Some e \<Rightarrow> Some e | None \<Rightarrow> Some msg)\<rparr>"

definition os_get_error :: "pb_ostream \<Rightarrow> string" where
  "os_get_error os = (case os_errmsg os of Some e \<Rightarrow> e | None \<Rightarrow> ''(none)'')"

definition is_get_error :: "pb_istream \<Rightarrow> string" where
  "is_get_error s = (case is_errmsg s of Some e \<Rightarrow> e | None \<Rightarrow> ''(none)'')"

lemma os_set_error_sel [simp]:
  "os_callback (os_set_error m os) = os_callback os"
  "os_state (os_set_error m os) = os_state os"
  "max_size (os_set_error m os) = max_size os"
  "bytes_written (os_set_error m os) = bytes_written os"
  by (simp_all add: os_set_error_def)

lemma is_set_error_sel [simp]:
  "is_callback (is_set_error m s) = is_callback s"
  "is_state (is_set_error m s) = is_state s"
  "bytes_left (is_set_error m s) = bytes_left s"
  by (simp_all add: is_set_error_def)

text \<open>
  Results. A function that may fail to return (recursion deeper than the budget, a call
  through a null function pointer) has an optional result; \<open>None\<close> is "does not return".
\<close>

type_synonym ores = "bool \<times> pb_ostream \<times> cstate"
type_synonym ires = "bool \<times> pb_istream \<times> cstate"

record cenv =
  e_fields :: "addr \<Rightarrow> pb_field list"
  e_write :: "nat \<Rightarrow> pb_ostream \<Rightarrow> byte list \<Rightarrow> cstate \<Rightarrow> ores"
  e_read :: "nat \<Rightarrow> pb_istream \<Rightarrow> u64 \<Rightarrow> cstate \<Rightarrow> bool \<times> byte list \<times> pb_istream \<times> cstate"
  e_encode :: "addr \<Rightarrow> pb_ostream \<Rightarrow> pb_field \<Rightarrow> addr \<Rightarrow> cstate \<Rightarrow> ores"
  e_decode :: "addr \<Rightarrow> pb_istream \<Rightarrow> pb_field \<Rightarrow> addr \<Rightarrow> cstate \<Rightarrow> ires"
  e_ext_encode :: "addr \<Rightarrow> pb_ostream \<Rightarrow> addr \<Rightarrow> cstate \<Rightarrow> ores"
  e_ext_decode :: "addr \<Rightarrow> pb_istream \<Rightarrow> addr \<Rightarrow> u32 \<Rightarrow> pb_wire_type_t \<Rightarrow> cstate \<Rightarrow> ires"
  e_alloc :: "cstate \<Rightarrow> addr \<Rightarrow> u64 \<Rightarrow> addr"

section \<open>Structures in memory\<close>

text \<open>
  \<^verbatim>\<open>pb_callback_t\<close>: the function pointer, then \<open>arg\<close>. \<^verbatim>\<open>pb_extension_t\<close>: \<open>type\<close>,
  \<open>dest\<close>, \<open>next\<close>, \<open>found\<close>. \<^verbatim>\<open>pb_extension_type_t\<close>: \<open>decode\<close>, \<open>encode\<close>,
  \<open>arg\<close>. \<^verbatim>\<open>pb_bytes_array_t\<close>: \<open>size\<close>, then the bytes.
\<close>

definition callback_func :: "memory \<Rightarrow> addr \<Rightarrow> addr" where
  "callback_func m p = load_ptr m p"

definition callback_arg :: "addr \<Rightarrow> addr" where
  "callback_arg p = p + 8"

definition ext_type :: "memory \<Rightarrow> addr \<Rightarrow> addr" where
  "ext_type m e = load_ptr m e"

definition ext_dest_addr :: "addr \<Rightarrow> addr" where
  "ext_dest_addr e = e + 8"

definition ext_dest :: "memory \<Rightarrow> addr \<Rightarrow> addr" where
  "ext_dest m e = load_ptr m (ext_dest_addr e)"

definition ext_next :: "memory \<Rightarrow> addr \<Rightarrow> addr" where
  "ext_next m e = load_ptr m (e + 16)"

definition ext_found_addr :: "addr \<Rightarrow> addr" where
  "ext_found_addr e = e + 24"

definition exttype_decode :: "memory \<Rightarrow> addr \<Rightarrow> addr" where
  "exttype_decode m t = load_ptr m t"

definition exttype_encode :: "memory \<Rightarrow> addr \<Rightarrow> addr" where
  "exttype_encode m t = load_ptr m (t + 8)"

definition exttype_arg :: "memory \<Rightarrow> addr \<Rightarrow> addr" where
  "exttype_arg m t = load_ptr m (t + 16)"

definition bytes_array_size :: "memory \<Rightarrow> addr \<Rightarrow> pb_size_t" where
  "bytes_array_size m p = load32 m p"

definition bytes_array_bytes :: "addr \<Rightarrow> addr" where
  "bytes_array_bytes p = p + 4"

text \<open>Reading a C \<^verbatim>\<open>bool\<close>.\<close>

definition load_bool :: "memory \<Rightarrow> addr \<Rightarrow> bool" where
  "load_bool m p = (m p \<noteq> 0)"

definition store_bool :: "memory \<Rightarrow> addr \<Rightarrow> bool \<Rightarrow> memory" where
  "store_bool m p b = m(p := (if b then 1 else 0))"

text \<open>\<^verbatim>\<open>memset(p, 0, n)\<close> and \<^verbatim>\<open>memcpy(p, q, n)\<close> on program memory.\<close>

definition memset0 :: "addr \<Rightarrow> nat \<Rightarrow> cstate \<Rightarrow> cstate" where
  "memset0 p n st = st\<lparr>mem := store_bytes (mem st) p (replicate n 0)\<rparr>"

definition memcpy :: "addr \<Rightarrow> addr \<Rightarrow> nat \<Rightarrow> cstate \<Rightarrow> cstate" where
  "memcpy p q n st = st\<lparr>mem := store_bytes (mem st) p (load_bytes (mem st) q n)\<rparr>"

section \<open>Allocation\<close>

text \<open>
  \<^verbatim>\<open>realloc\<close> and \<^verbatim>\<open>free\<close> of the C library. Where the new block lies, or whether there
  is one, is the environment's choice \<open>e_alloc\<close>; a null choice is a failed allocation and
  leaves the old block alone.
\<close>

definition heap_remove :: "addr \<Rightarrow> (addr \<times> u64) list \<Rightarrow> (addr \<times> u64) list" where
  "heap_remove p h = filter (\<lambda>(q, _). q \<noteq> p) h"

definition pb_realloc :: "cenv \<Rightarrow> addr \<Rightarrow> u64 \<Rightarrow> cstate \<Rightarrow> addr \<times> cstate" where
  "pb_realloc env p n st =
     (let q = e_alloc env st p n;
          ok = (p = 0 \<or> map_of (heap st) p \<noteq> None);
          old = (case map_of (heap st) p of Some k \<Rightarrow> k | None \<Rightarrow> 0);
          keep = load_bytes (mem st) p (min (unat old) (unat n))
      in if q = 0 then (0, st\<lparr>heap_ok := heap_ok st \<and> ok\<rparr>)
         else (q, st\<lparr>mem := store_bytes (mem st) q keep,
                     heap := (q, n) # heap_remove p (heap st),
                     heap_ok := heap_ok st \<and> ok\<rparr>))"

definition pb_free :: "addr \<Rightarrow> cstate \<Rightarrow> cstate" where
  "pb_free p st =
     (if p = 0 then st
      else st\<lparr>heap := heap_remove p (heap st),
              heap_ok := heap_ok st \<and> map_of (heap st) p \<noteq> None\<rparr>)"

end
