(* ===== verification/Pb_Common.thy ===== *)
theory Pb_Common
  imports Pb_Core
begin

text \<open>
  \<^verbatim>\<open>nanopb/pb_common.c\<close>: the iterator over a descriptor array that the encoder and the
  decoder share. An iterator walks the array cyclically and keeps, beside its position, the
  addresses of the current field's data and of its count or presence flag, and the number of
  required fields before it.
\<close>

section \<open>The iterator\<close>

text \<open>
  \<^verbatim>\<open>pSize\<close> normally points into the message; while \<^verbatim>\<open>pb_decode_noinit\<close> handles a
  repeated field of fixed count it points to that function's local \<^verbatim>\<open>fixed_count_size\<close>,
  which the model keeps beside the iterator as \<open>it_fixed_count_size\<close>.
\<close>

datatype psize = PMem addr | PLocal

record pb_field_iter =
  it_start :: "pb_field list"
  it_pos :: nat
  it_required_field_index :: u32
  it_dest_struct :: addr
  it_pData :: addr
  it_pSize :: psize
  it_fixed_count_size :: pb_size_t

abbreviation it_field :: "pb_field_iter \<Rightarrow> pb_field" where
  "it_field it \<equiv> field_at (it_start it) (it_pos it)"

definition pb_field_iter_begin ::
    "pb_field_iter \<Rightarrow> pb_field list \<Rightarrow> addr \<Rightarrow> bool \<times> pb_field_iter" where
  "pb_field_iter_begin it fds dest =
     (let f = field_at fds 0;
          pd = dest + uint (f_data_offset f)
      in (f_tag f \<noteq> 0,
          it\<lparr>it_start := fds, it_pos := 0, it_required_field_index := 0,
             it_dest_struct := dest, it_pData := pd,
             it_pSize := PMem (pd + sint (f_size_offset f))\<rparr>))"

text \<open>An iterator variable before \<^verbatim>\<open>pb_field_iter_begin\<close> has set its members.\<close>

definition fresh_iter :: pb_field_iter where
  "fresh_iter = \<lparr>it_start = [], it_pos = 0, it_required_field_index = 0, it_dest_struct = 0,
     it_pData = 0, it_pSize = PMem 0, it_fixed_count_size = 0\<rparr>"

definition iter_prev_size :: "pb_field \<Rightarrow> u64" where
  "iter_prev_size prev =
     (if PB_ATYPE (f_type prev) = PB_ATYPE_STATIC \<and> PB_HTYPE (f_type prev) = PB_HTYPE_REPEATED
      then ucast (f_data_size prev) * ucast (f_array_size prev)
      else if PB_ATYPE (f_type prev) = PB_ATYPE_POINTER then 8
      else ucast (f_data_size prev))"

definition pb_field_iter_next :: "pb_field_iter \<Rightarrow> bool \<times> pb_field_iter" where
  "pb_field_iter_next it =
     (let prev = it_field it in
      if f_tag prev = 0 then (False, it)
      else
        let it1 = it\<lparr>it_pos := Suc (it_pos it)\<rparr>;
            cur = it_field it1
        in if f_tag cur = 0
           then (False, snd (pb_field_iter_begin it1 (it_start it1) (it_dest_struct it1)))
           else if PB_HTYPE (f_type prev) = PB_HTYPE_ONEOF
                   \<and> PB_HTYPE (f_type cur) = PB_HTYPE_ONEOF
                   \<and> f_data_offset cur = PB_SIZE_MAX
           then (True, it1)
           else
             let idx = (if PB_HTYPE (f_type prev) = PB_HTYPE_REQUIRED
                        then it_required_field_index it1 + 1 else it_required_field_index it1);
                 pd = it_pData it1 + uint (iter_prev_size prev) + uint (f_data_offset cur)
             in (True, it1\<lparr>it_required_field_index := idx, it_pData := pd,
                          it_pSize := PMem (pd + sint (f_size_offset cur))\<rparr>))"

text \<open>
  The search loops back to where it began. Its budget is one round over the array; a
  search that is still running then never stops, which \<open>None\<close> stands for.
\<close>

fun pb_field_iter_find_loop ::
    "nat \<Rightarrow> nat \<Rightarrow> u32 \<Rightarrow> pb_field_iter \<Rightarrow> (bool \<times> pb_field_iter) option" where
  "pb_field_iter_find_loop 0 start tag it = None"
| "pb_field_iter_find_loop (Suc n) start tag it =
     (if f_tag (it_field it) = tag \<and> PB_LTYPE (f_type (it_field it)) \<noteq> PB_LTYPE_EXTENSION
      then Some (True, it)
      else let it' = snd (pb_field_iter_next it)
           in if it_pos it' \<noteq> start then pb_field_iter_find_loop n start tag it'
              else Some (False, it'))"

definition pb_field_iter_find :: "pb_field_iter \<Rightarrow> u32 \<Rightarrow> (bool \<times> pb_field_iter) option" where
  "pb_field_iter_find it tag =
     pb_field_iter_find_loop (Suc (length (it_start it))) (it_pos it) tag it"

section \<open>Loops over all fields\<close>

lemma pb_field_iter_next_more:
  "pb_field_iter_next it = (True, it') \<Longrightarrow>
     it_start it' = it_start it \<and> it_pos it' = Suc (it_pos it) \<and> it_pos it' < length (it_start it)"
  using field_at_tag_nz [of "it_start it" "Suc (it_pos it)"]
  by (auto simp: pb_field_iter_next_def Let_def split: if_splits)

text \<open>
  \<^verbatim>\<open>do { body } while (pb_field_iter_next(&iter));\<close> where the body may leave the enclosing
  function: it answers whether to go on.
\<close>

function iter_do_while ::
    "(pb_field_iter \<Rightarrow> 's \<Rightarrow> (bool \<times> 's) option) \<Rightarrow> pb_field_iter \<Rightarrow> 's \<Rightarrow> (bool \<times> 's) option" where
  "iter_do_while body it s =
     (case body it s of
        None \<Rightarrow> None
      | Some (go, s') \<Rightarrow>
          if \<not> go then Some (False, s')
          else if fst (pb_field_iter_next it)
          then iter_do_while body (snd (pb_field_iter_next it)) s'
          else Some (True, s'))"
  by pat_completeness auto
termination
proof (relation "measure (\<lambda>(body, it, s). length (it_start it) - it_pos it)", goal_cases)
  case 1
  then show ?case by simp
next
  case (2 body it s a go s')
  then have "pb_field_iter_next it = (True, snd (pb_field_iter_next it))"
    by (simp add: prod_eq_iff)
  from pb_field_iter_next_more [OF this] show ?case by auto
qed

declare iter_do_while.simps [simp del]

section \<open>What an iterator is meant to be\<close>

text \<open>
  The reference: a message type has as many fields as its array has entries before the
  terminator, and the place of the \<open>i\<close>-th field is fixed by the descriptors alone.
\<close>

definition nfields :: "pb_field list \<Rightarrow> nat" where
  "nfields fs = length (takeWhile (\<lambda>f. f_tag f \<noteq> 0) fs)"

definition same_union :: "pb_field \<Rightarrow> pb_field \<Rightarrow> bool" where
  "same_union prev cur \<longleftrightarrow> PB_HTYPE (f_type prev) = PB_HTYPE_ONEOF
     \<and> PB_HTYPE (f_type cur) = PB_HTYPE_ONEOF \<and> f_data_offset cur = PB_SIZE_MAX"

fun field_data :: "pb_field list \<Rightarrow> addr \<Rightarrow> nat \<Rightarrow> addr" where
  "field_data fs dest 0 = dest + uint (f_data_offset (field_at fs 0))"
| "field_data fs dest (Suc i) =
     (if same_union (field_at fs i) (field_at fs (Suc i)) then field_data fs dest i
      else field_data fs dest i + uint (iter_prev_size (field_at fs i))
           + uint (f_data_offset (field_at fs (Suc i))))"

fun field_size :: "pb_field list \<Rightarrow> addr \<Rightarrow> nat \<Rightarrow> addr" where
  "field_size fs dest 0 = field_data fs dest 0 + sint (f_size_offset (field_at fs 0))"
| "field_size fs dest (Suc i) =
     (if same_union (field_at fs i) (field_at fs (Suc i)) then field_size fs dest i
      else field_data fs dest (Suc i) + sint (f_size_offset (field_at fs (Suc i))))"

definition is_required :: "pb_field \<Rightarrow> bool" where
  "is_required f \<longleftrightarrow> PB_HTYPE (f_type f) = PB_HTYPE_REQUIRED"

definition required_before :: "pb_field list \<Rightarrow> nat \<Rightarrow> nat" where
  "required_before fs i = length (filter is_required (take i fs))"

definition iter_inv :: "pb_field list \<Rightarrow> addr \<Rightarrow> pb_field_iter \<Rightarrow> bool" where
  "iter_inv fs dest it \<longleftrightarrow>
     it_start it = fs \<and> it_dest_struct it = dest
     \<and> (it_pos it < nfields fs \<or> nfields fs = 0 \<and> it_pos it = 0)
     \<and> it_pData it = field_data fs dest (it_pos it)
     \<and> it_pSize it = PMem (field_size fs dest (it_pos it))
     \<and> it_required_field_index it = of_nat (required_before fs (it_pos it))"

lemma nfields_le: "nfields fs \<le> length fs"
  by (simp add: nfields_def length_takeWhile_le)

lemma f_tag_before_nfields: "i < nfields fs \<Longrightarrow> f_tag (field_at fs i) \<noteq> 0"
proof -
  assume i: "i < nfields fs"
  then have "takeWhile (\<lambda>f. f_tag f \<noteq> 0) fs ! i \<in> {f. f_tag f \<noteq> 0}"
    unfolding nfields_def by (metis mem_Collect_eq nth_mem set_takeWhileD)
  moreover have "takeWhile (\<lambda>f. f_tag f \<noteq> 0) fs ! i = fs ! i"
    using i by (simp add: nfields_def takeWhile_nth)
  moreover have "i < length fs" using i nfields_le [of fs] by simp
  ultimately show ?thesis by (simp add: field_at_def)
qed

lemma f_tag_at_nfields: "f_tag (field_at fs (nfields fs)) = 0"
proof (cases "nfields fs < length fs")
  case True
  then have "\<not> f_tag (fs ! nfields fs) \<noteq> 0"
    unfolding nfields_def by (rule nth_length_takeWhile)
  with True show ?thesis by (simp add: field_at_def)
next
  case False
  then show ?thesis by (simp add: field_at_def PB_LAST_FIELD_def)
qed

lemma f_tag_zero_iff: "i \<le> nfields fs \<Longrightarrow> f_tag (field_at fs i) = 0 \<longleftrightarrow> i = nfields fs"
  using f_tag_before_nfields [of i fs] f_tag_at_nfields [of fs]
  by (cases "i = nfields fs") auto

lemma required_before_Suc:
  "i < nfields fs \<Longrightarrow> required_before fs (Suc i) =
     required_before fs i + (if is_required (field_at fs i) then 1 else 0)"
  using nfields_le [of fs]
  by (simp add: required_before_def field_at_def take_Suc_conv_app_nth)

lemma same_union_not_required: "same_union prev cur \<Longrightarrow> \<not> is_required prev"
  by (auto simp: same_union_def is_required_def pb_htype_defs)

section \<open>The iterator keeps its meaning\<close>

lemma pb_field_iter_begin_inv:
  assumes "pb_field_iter_begin it fs dest = (b, it')"
  shows "iter_inv fs dest it'" and "b \<longleftrightarrow> 0 < nfields fs" and "it_pos it' = 0"
    and "it_fixed_count_size it' = it_fixed_count_size it"
  using assms f_tag_zero_iff [of 0 fs]
  by (auto simp: pb_field_iter_begin_def iter_inv_def Let_def required_before_def)

definition next_pos :: "pb_field list \<Rightarrow> nat \<Rightarrow> nat" where
  "next_pos fs i = (if Suc i < nfields fs then Suc i else 0)"

lemma pb_field_iter_next_inv:
  assumes inv: "iter_inv fs dest it" and nxt: "pb_field_iter_next it = (b, it')"
  shows "iter_inv fs dest it'" and "it_pos it' = next_pos fs (it_pos it)"
    and "b \<longleftrightarrow> Suc (it_pos it) < nfields fs"
    and "it_fixed_count_size it' = it_fixed_count_size it"
proof -
  have "iter_inv fs dest it' \<and> it_pos it' = next_pos fs (it_pos it)
    \<and> (b \<longleftrightarrow> Suc (it_pos it) < nfields fs)
    \<and> it_fixed_count_size it' = it_fixed_count_size it"
  proof (cases "it_pos it < nfields fs")
    case False
    with inv have "nfields fs = 0" "it_pos it = 0" by (auto simp: iter_inv_def)
    with inv nxt f_tag_at_nfields [of fs] show ?thesis
      by (auto simp: pb_field_iter_next_def iter_inv_def next_pos_def Let_def)
  next
    case True
    have st: "it_start it = fs" "it_dest_struct it = dest"
      using inv by (auto simp: iter_inv_def)
    have prev: "f_tag (field_at fs (it_pos it)) \<noteq> 0"
      using True by (rule f_tag_before_nfields)
    show ?thesis
    proof (cases "Suc (it_pos it) = nfields fs")
      case True
      with prev nxt st f_tag_at_nfields [of fs]
      have it': "it' = snd (pb_field_iter_begin (it\<lparr>it_pos := nfields fs\<rparr>) fs dest)" and "\<not> b"
        by (auto simp: pb_field_iter_next_def Let_def)
      with True pb_field_iter_begin_inv [of "it\<lparr>it_pos := nfields fs\<rparr>" fs dest _ it']
      show ?thesis by (auto simp: next_pos_def prod_eq_iff)
    next
      case False
      with True have lt: "Suc (it_pos it) < nfields fs" by simp
      then have cur: "f_tag (field_at fs (Suc (it_pos it))) \<noteq> 0"
        by (rule f_tag_before_nfields)
      show ?thesis
      proof (cases "same_union (field_at fs (it_pos it)) (field_at fs (Suc (it_pos it)))")
        case True
        with prev cur nxt st have "b" "it' = it\<lparr>it_pos := Suc (it_pos it)\<rparr>"
          by (auto simp: pb_field_iter_next_def Let_def same_union_def)
        with True lt inv same_union_not_required [OF True]
          required_before_Suc [of "it_pos it" fs]
        show ?thesis by (auto simp: iter_inv_def next_pos_def)
      next
        case False
        then have un: "\<not> (PB_HTYPE (f_type (field_at fs (it_pos it))) = PB_HTYPE_ONEOF
            \<and> PB_HTYPE (f_type (field_at fs (Suc (it_pos it)))) = PB_HTYPE_ONEOF
            \<and> f_data_offset (field_at fs (Suc (it_pos it))) = PB_SIZE_MAX)"
          by (simp add: same_union_def)
        with False prev cur nxt st lt inv required_before_Suc [of "it_pos it" fs]
        show ?thesis
          by (auto simp: pb_field_iter_next_def Let_def iter_inv_def next_pos_def is_required_def)
      qed
    qed
  qed
  then show "iter_inv fs dest it'" and "it_pos it' = next_pos fs (it_pos it)"
    and "b \<longleftrightarrow> Suc (it_pos it) < nfields fs"
    and "it_fixed_count_size it' = it_fixed_count_size it" by auto
qed

section \<open>Searching for a tag\<close>

definition tag_matches :: "u32 \<Rightarrow> pb_field \<Rightarrow> bool" where
  "tag_matches tag f \<longleftrightarrow> f_tag f = tag \<and> PB_LTYPE (f_type f) \<noteq> PB_LTYPE_EXTENSION"

lemma next_pos_cycle: "p < nfields fs \<Longrightarrow> p = (s + d) mod nfields fs
    \<Longrightarrow> next_pos fs p = (s + Suc d) mod nfields fs"
  by (auto simp: next_pos_def mod_Suc)

lemma all_from_Suc:
  "(\<forall>k::nat. d \<le> k \<and> k < n \<longrightarrow> Q k)
     \<longleftrightarrow> (d < n \<longrightarrow> Q d) \<and> (\<forall>k. Suc d \<le> k \<and> k < n \<longrightarrow> Q k)"
  by (metis Suc_leD Suc_leI le_neq_implies_less order_refl)

text \<open>
  The loop after \<open>d\<close> steps from \<open>s\<close>: it stops within the rest of the round, on a match
  or back at \<open>s\<close> with no match on the way.
\<close>

lemma pb_field_iter_find_loop_spec:
  assumes "iter_inv fs dest it" and "it_pos it < nfields fs" and "s < nfields fs"
    and "it_pos it = (s + d) mod nfields fs" and "d < nfields fs" and "nfields fs \<le> n + d"
  shows "\<exists>b it'. pb_field_iter_find_loop n s tag it = Some (b, it') \<and> iter_inv fs dest it'
    \<and> it_pos it' < nfields fs \<and> it_fixed_count_size it' = it_fixed_count_size it
    \<and> (if b then tag_matches tag (it_field it')
       else it_pos it' = s \<and> (\<forall>k. d \<le> k \<and> k < nfields fs
              \<longrightarrow> \<not> tag_matches tag (field_at fs ((s + k) mod nfields fs))))"
  using assms
proof (induction n arbitrary: it d)
  case 0
  then show ?case by simp
next
  case (Suc n)
  have st: "it_start it = fs" using Suc.prems(1) by (simp add: iter_inv_def)
  show ?case
  proof (cases "tag_matches tag (it_field it)")
    case True
    with Suc.prems show ?thesis by (auto simp: tag_matches_def)
  next
    case False
    obtain b' it1 where nx: "pb_field_iter_next it = (b', it1)" by force
    note inv1 = pb_field_iter_next_inv [OF Suc.prems(1) nx]
    have pos1: "it_pos it1 = (s + Suc d) mod nfields fs"
      using inv1(2) next_pos_cycle [OF Suc.prems(2,4)] by simp
    then have lt1: "it_pos it1 < nfields fs" using Suc.prems(2) by simp
    show ?thesis
    proof (cases "it_pos it1 = s")
      case wrapped: True
      have "Suc d = nfields fs"
      proof (rule ccontr)
        assume "Suc d \<noteq> nfields fs"
        then have "Suc d < nfields fs" using Suc.prems(5) by simp
        moreover have "(s + Suc d) mod nfields fs = s mod nfields fs"
          using wrapped pos1 Suc.prems(3) by simp
        then have "nfields fs dvd Suc d"
          by (metis add_diff_cancel_left' le_add1 mod_eq_dvd_iff_nat)
        ultimately show False by (auto dest: dvd_imp_le)
      qed
      then have "\<forall>k. d \<le> k \<and> k < nfields fs
          \<longrightarrow> \<not> tag_matches tag (field_at fs ((s + k) mod nfields fs))"
        using False st Suc.prems(4) by (subst all_from_Suc) auto
      moreover have "pb_field_iter_find_loop (Suc n) s tag it = Some (False, it1)"
        using False wrapped nx by (auto simp: tag_matches_def Let_def)
      ultimately show ?thesis using wrapped inv1 lt1 by auto
    next
      case fwd: False
      have "Suc d < nfields fs"
      proof (rule ccontr)
        assume "\<not> Suc d < nfields fs"
        then have "Suc d = nfields fs" using Suc.prems(5) by simp
        with pos1 Suc.prems(3) fwd show False by simp
      qed
      moreover have "nfields fs \<le> n + Suc d" using Suc.prems(6) by simp
      ultimately obtain b it' where
        ih: "pb_field_iter_find_loop n s tag it1 = Some (b, it')" "iter_inv fs dest it'"
          "it_pos it' < nfields fs" "it_fixed_count_size it' = it_fixed_count_size it1"
          "if b then tag_matches tag (it_field it')
           else it_pos it' = s \<and> (\<forall>k. Suc d \<le> k \<and> k < nfields fs
              \<longrightarrow> \<not> tag_matches tag (field_at fs ((s + k) mod nfields fs)))"
        using Suc.IH [OF inv1(1) lt1 Suc.prems(3) pos1] by blast
      have "pb_field_iter_find_loop (Suc n) s tag it = Some (b, it')"
        using False fwd nx ih(1) by (auto simp: tag_matches_def Let_def)
      moreover have "\<not> tag_matches tag (field_at fs ((s + d) mod nfields fs))"
        using False st Suc.prems(4) by simp
      ultimately show ?thesis
        using ih(2-5) inv1(4) by (subst all_from_Suc) auto
    qed
  qed
qed

lemma all_offsets_mod:
  assumes "\<forall>k. k < (n::nat) \<longrightarrow> \<not> P ((s + k) mod n)" and "s < n" and "i < n"
  shows "\<not> P i"
proof -
  have "(s + (i + n - s) mod n) mod n = i"
    using assms(2,3) by (simp add: mod_add_right_eq)
  moreover have "(i + n - s) mod n < n" using assms(3) by simp
  ultimately show ?thesis using assms(1) by metis
qed

lemma pb_field_iter_find_cases:
  assumes "iter_inv fs dest it" and "0 < nfields fs"
  obtains (found) it' where "pb_field_iter_find it tag = Some (True, it')"
      "iter_inv fs dest it'" "it_pos it' < nfields fs" "tag_matches tag (field_at fs (it_pos it'))"
      "it_fixed_count_size it' = it_fixed_count_size it"
  | (absent) it' where "pb_field_iter_find it tag = Some (False, it')"
      "iter_inv fs dest it'" "it_pos it' = it_pos it"
      "\<forall>i < nfields fs. \<not> tag_matches tag (field_at fs i)"
      "it_fixed_count_size it' = it_fixed_count_size it"
proof -
  have pos: "it_pos it < nfields fs" and st: "it_start it = fs"
    using assms by (auto simp: iter_inv_def)
  have fuel: "nfields fs \<le> Suc (length fs) + 0" using nfields_le [of fs] by simp
  obtain b it' where r: "pb_field_iter_find_loop (Suc (length fs)) (it_pos it) tag it = Some (b, it')"
      "iter_inv fs dest it'" "it_pos it' < nfields fs"
      "it_fixed_count_size it' = it_fixed_count_size it"
      "if b then tag_matches tag (it_field it')
       else it_pos it' = it_pos it \<and> (\<forall>k. 0 \<le> k \<and> k < nfields fs
              \<longrightarrow> \<not> tag_matches tag (field_at fs ((it_pos it + k) mod nfields fs)))"
    using pb_field_iter_find_loop_spec [OF assms(1) pos pos _ assms(2) fuel, of tag] pos by auto
  have st': "it_start it' = fs" using r(2) by (simp add: iter_inv_def)
  show thesis
  proof (cases b)
    case True
    then have "tag_matches tag (field_at fs (it_pos it'))" using r(5) st' by simp
    moreover have "pb_field_iter_find it tag = Some (True, it')"
      using r(1) True st by (simp only: pb_field_iter_find_def)
    ultimately show thesis using r(2-4) by (intro found)
  next
    case False
    then have "pb_field_iter_find it tag = Some (False, it')" and "it_pos it' = it_pos it"
      using r(1,5) st by (simp_all only: pb_field_iter_find_def if_False)
    moreover have "\<not> tag_matches tag (field_at fs i)" if "i < nfields fs" for i
      using all_offsets_mod [of "nfields fs" "\<lambda>i. tag_matches tag (field_at fs i)", OF _ pos that]
        r(5) False by simp
    ultimately show thesis using r(2,4) absent [of it'] by blast
  qed
qed

end
