(* ===== verification/Pb_Stream_In.thy ===== *)
theory Pb_Stream_In
  imports Pb_Common
begin

text \<open>
  \<^verbatim>\<open>nanopb/pb_decode.c\<close>, first part: input streams, varints, tags, skipping, substreams and
  fixed-width values. The state of a memory stream is the list of bytes from its pointer to
  the end of the buffer.

  Loops that go on as long as bytes arrive have a budget of one more round than the stream
  has bytes left. A memory stream never uses it up; a stream callback that raises
  \<^verbatim>\<open>bytes_left\<close> may, and the result is then \<open>None\<close>.
\<close>

section \<open>Reading\<close>

definition buf_read :: "pb_istream \<Rightarrow> u64 \<Rightarrow> byte list \<times> pb_istream" where
  "buf_read s count =
     (take (unat count) (is_state s), s\<lparr>is_state := drop (unat count) (is_state s)\<rparr>)"

definition call_read ::
    "cenv \<Rightarrow> pb_istream \<Rightarrow> u64 \<Rightarrow> cstate \<Rightarrow> bool \<times> byte list \<times> pb_istream \<times> cstate" where
  "call_read env s count st =
     (case is_callback s of
        buf_read_cb \<Rightarrow> (case buf_read s count of (bs, s') \<Rightarrow> (True, bs, s', st))
      | user_read_cb k \<Rightarrow> e_read env k s count st)"

text \<open>\<^verbatim>\<open>pb_read\<close> into a local array, whose contents are the result.\<close>

definition pb_read_local ::
    "cenv \<Rightarrow> pb_istream \<Rightarrow> u64 \<Rightarrow> cstate \<Rightarrow> bool \<times> byte list \<times> pb_istream \<times> cstate" where
  "pb_read_local env s count st =
     (if bytes_left s < count then (False, [], is_set_error ''end-of-stream'' s, st)
      else case call_read env s count st of (ok, bs, s', st') \<Rightarrow>
        if \<not> ok then (False, bs, is_set_error ''io error'' s', st')
        else (True, bs, s'\<lparr>bytes_left := bytes_left s' - count\<rparr>, st'))"

text \<open>\<^verbatim>\<open>pb_read\<close> with a null buffer on a stream that is not a memory stream.\<close>

lemma minus_16_less: "(16 :: u64) < count \<Longrightarrow> unat (count - 16) < unat count"
  by (simp add: unat_sub word_less_nat_alt word_le_nat_alt)

function pb_read_discard :: "cenv \<Rightarrow> pb_istream \<Rightarrow> u64 \<Rightarrow> cstate \<Rightarrow> ires" where
  "pb_read_discard env s count st =
     (if count > 16
      then (case pb_read_local env s 16 st of (ok, tmp, s', st') \<Rightarrow>
              if \<not> ok then (False, s', st') else pb_read_discard env s' (count - 16) st')
      else (case pb_read_local env s count st of (ok, tmp, s', st') \<Rightarrow> (ok, s', st')))"
  by pat_completeness auto
termination
  by (relation "measure (\<lambda>(env, s, count, st). unat count)") (use minus_16_less in auto)

declare pb_read_discard.simps [simp del]

text \<open>\<^verbatim>\<open>pb_read\<close> with a buffer in program memory, or none.\<close>

definition pb_read :: "cenv \<Rightarrow> pb_istream \<Rightarrow> addr \<Rightarrow> u64 \<Rightarrow> cstate \<Rightarrow> ires" where
  "pb_read env s buf count st =
     (if buf = 0 \<and> is_callback s \<noteq> buf_read_cb then pb_read_discard env s count st
      else case pb_read_local env s count st of (ok, bs, s', st') \<Rightarrow>
        (ok, s', if buf = 0 then st'
                 else st'\<lparr>mem := store_bytes (mem st') buf (take (unat count) bs)\<rparr>))"

text \<open>
  The byte a variable holds after a successful read of one byte. A callback that succeeds
  without storing one leaves the variable undetermined, here zero.
\<close>

definition the_byte :: "byte list \<Rightarrow> byte" where
  "the_byte bs = (case bs of b # _ \<Rightarrow> b | [] \<Rightarrow> 0)"

definition pb_readbyte :: "cenv \<Rightarrow> pb_istream \<Rightarrow> cstate \<Rightarrow> byte option \<times> pb_istream \<times> cstate" where
  "pb_readbyte env s st =
     (if bytes_left s = 0 then (None, is_set_error ''end-of-stream'' s, st)
      else case call_read env s 1 st of (ok, bs, s', st') \<Rightarrow>
        if \<not> ok then (None, is_set_error ''io error'' s', st')
        else (Some (the_byte bs), s'\<lparr>bytes_left := bytes_left s' - 1\<rparr>, st'))"

definition pb_istream_from_buffer :: "byte list \<Rightarrow> u64 \<Rightarrow> pb_istream" where
  "pb_istream_from_buffer buf bufsize =
     \<lparr>is_callback = buf_read_cb, is_state = buf, bytes_left = bufsize, is_errmsg = None\<rparr>"

definition fuel_for :: "pb_istream \<Rightarrow> nat" where
  "fuel_for s = Suc (unat (bytes_left s))"

section \<open>Varints\<close>

text \<open>The loop of \<^verbatim>\<open>pb_decode_varint32_eof\<close>; \<open>bitpos\<close> is a \<^verbatim>\<open>uint_fast8_t\<close>, one byte here.\<close>

fun pb_decode_varint32_loop ::
    "nat \<Rightarrow> cenv \<Rightarrow> pb_istream \<Rightarrow> byte \<Rightarrow> u32 \<Rightarrow> cstate
     \<Rightarrow> (u32 option \<times> pb_istream \<times> cstate) option" where
  "pb_decode_varint32_loop 0 env s bitpos result st = None"
| "pb_decode_varint32_loop (Suc k) env s bitpos result st =
     (case pb_readbyte env s st of
        (None, s, st) \<Rightarrow> Some (None, s, st)
      | (Some b, s, st) \<Rightarrow>
          if bitpos \<ge> 32 \<and> b AND 0x7F \<noteq> 0
             \<and> (drop_bit 31 result = 0 \<or> b \<noteq> (if bitpos < 63 then 0xFF else 0x01))
          then Some (None, is_set_error ''varint overflow'' s, st)
          else
            let result = (if bitpos \<ge> 32 then result
                          else result OR push_bit (unat bitpos) (ucast (b AND 0x7F)));
                bitpos = bitpos + 7
            in if b AND 0x80 \<noteq> 0 then pb_decode_varint32_loop k env s bitpos result st
               else if bitpos = 35 \<and> b AND 0x70 \<noteq> 0
               then Some (None, is_set_error ''varint overflow'' s, st)
               else Some (Some result, s, st))"

text \<open>The value, and whether \<^verbatim>\<open>*eof\<close> was set.\<close>

definition pb_decode_varint32_eof ::
    "cenv \<Rightarrow> pb_istream \<Rightarrow> cstate \<Rightarrow> (u32 option \<times> bool \<times> pb_istream \<times> cstate) option" where
  "pb_decode_varint32_eof env s st =
     (case pb_readbyte env s st of
        (None, s', st') \<Rightarrow> Some (None, bytes_left s' = 0, s', st')
      | (Some b, s', st') \<Rightarrow>
          if b AND 0x80 = 0 then Some (Some (ucast b), False, s', st')
          else (case pb_decode_varint32_loop (fuel_for s') env s' 7 (ucast (b AND 0x7F)) st' of
                  None \<Rightarrow> None
                | Some (r, s'', st'') \<Rightarrow> Some (r, False, s'', st'')))"

definition pb_decode_varint32 ::
    "cenv \<Rightarrow> pb_istream \<Rightarrow> cstate \<Rightarrow> (u32 option \<times> pb_istream \<times> cstate) option" where
  "pb_decode_varint32 env s st =
     (case pb_decode_varint32_eof env s st of
        None \<Rightarrow> None | Some (r, eof, s', st') \<Rightarrow> Some (r, s', st'))"

lemma bitpos_less: "\<not> 64 \<le> (bitpos :: byte) \<Longrightarrow> 71 - unat (bitpos + 7) < 71 - unat bitpos"
  by (simp add: word_le_nat_alt unat_word_ariths)

function pb_decode_varint_loop ::
    "cenv \<Rightarrow> pb_istream \<Rightarrow> byte \<Rightarrow> u64 \<Rightarrow> cstate \<Rightarrow> u64 option \<times> pb_istream \<times> cstate" where
  "pb_decode_varint_loop env s bitpos result st =
     (if bitpos \<ge> 64 then (None, is_set_error ''varint overflow'' s, st)
      else case pb_readbyte env s st of
        (None, s', st') \<Rightarrow> (None, s', st')
      | (Some b, s', st') \<Rightarrow>
          if b AND 0x80 \<noteq> 0
          then pb_decode_varint_loop env s' (bitpos + 7)
                 (result OR push_bit (unat bitpos) (ucast (b AND 0x7F))) st'
          else (Some (result OR push_bit (unat bitpos) (ucast (b AND 0x7F))), s', st'))"
  by pat_completeness auto
termination
  by (relation "measure (\<lambda>(env, s, bitpos, result, st). 71 - unat bitpos)") (use bitpos_less in auto)

declare pb_decode_varint_loop.simps [simp del]

definition pb_decode_varint :: "cenv \<Rightarrow> pb_istream \<Rightarrow> cstate \<Rightarrow> u64 option \<times> pb_istream \<times> cstate" where
  "pb_decode_varint env s st = pb_decode_varint_loop env s 0 0 st"

fun pb_skip_varint_loop :: "nat \<Rightarrow> cenv \<Rightarrow> pb_istream \<Rightarrow> cstate \<Rightarrow> ires option" where
  "pb_skip_varint_loop 0 env s st = None"
| "pb_skip_varint_loop (Suc k) env s st =
     (case pb_read_local env s 1 st of (ok, bs, s', st') \<Rightarrow>
        if \<not> ok then Some (False, s', st')
        else if the_byte bs AND 0x80 \<noteq> 0 then pb_skip_varint_loop k env s' st'
        else Some (True, s', st'))"

definition pb_skip_varint :: "cenv \<Rightarrow> pb_istream \<Rightarrow> cstate \<Rightarrow> ires option" where
  "pb_skip_varint env s st = pb_skip_varint_loop (fuel_for s) env s st"

definition pb_skip_string :: "cenv \<Rightarrow> pb_istream \<Rightarrow> cstate \<Rightarrow> ires option" where
  "pb_skip_string env s st =
     (case pb_decode_varint32 env s st of
        None \<Rightarrow> None
      | Some (None, s', st') \<Rightarrow> Some (False, s', st')
      | Some (Some len, s', st') \<Rightarrow> Some (pb_read env s' 0 (ucast len) st'))"

section \<open>Tags and skipping\<close>

text \<open>Success, wire type, tag and \<^verbatim>\<open>*eof\<close>.\<close>

definition pb_decode_tag ::
    "cenv \<Rightarrow> pb_istream \<Rightarrow> cstate
     \<Rightarrow> (bool \<times> pb_wire_type_t \<times> u32 \<times> bool \<times> pb_istream \<times> cstate) option" where
  "pb_decode_tag env s st =
     (case pb_decode_varint32_eof env s st of
        None \<Rightarrow> None
      | Some (None, eof, s', st') \<Rightarrow> Some (False, 0, 0, eof, s', st')
      | Some (Some temp, eof, s', st') \<Rightarrow>
          if temp = 0 then Some (False, 0, 0, True, s', st')
          else Some (True, temp AND 7, drop_bit 3 temp, False, s', st'))"

definition pb_skip_field :: "cenv \<Rightarrow> pb_istream \<Rightarrow> pb_wire_type_t \<Rightarrow> cstate \<Rightarrow> ires option" where
  "pb_skip_field env s wire_type st =
     (if wire_type = PB_WT_VARINT then pb_skip_varint env s st
      else if wire_type = PB_WT_64BIT then Some (pb_read env s 0 8 st)
      else if wire_type = PB_WT_STRING then pb_skip_string env s st
      else if wire_type = PB_WT_32BIT then Some (pb_read env s 0 4 st)
      else Some (False, is_set_error ''invalid wire_type'' s, st))"

text \<open>The varint case of \<^verbatim>\<open>read_raw_value\<close> with room for \<open>k\<close> more bytes.\<close>

fun read_raw_varint ::
    "nat \<Rightarrow> cenv \<Rightarrow> pb_istream \<Rightarrow> byte list \<Rightarrow> cstate \<Rightarrow> bool \<times> byte list \<times> pb_istream \<times> cstate" where
  "read_raw_varint 0 env s buf st = (False, buf, s, st)"
| "read_raw_varint (Suc k) env s buf st =
     (case pb_read_local env s 1 st of (ok, bs, s', st') \<Rightarrow>
        if \<not> ok then (False, buf, s', st')
        else if the_byte bs AND 0x80 \<noteq> 0 then read_raw_varint k env s' (buf @ [the_byte bs]) st'
        else (True, buf @ [the_byte bs], s', st'))"

definition read_raw_value ::
    "cenv \<Rightarrow> pb_istream \<Rightarrow> pb_wire_type_t \<Rightarrow> nat \<Rightarrow> cstate
     \<Rightarrow> bool \<times> byte list \<times> pb_istream \<times> cstate" where
  "read_raw_value env s wire_type maxs st =
     (if wire_type = PB_WT_VARINT then read_raw_varint maxs env s [] st
      else if wire_type = PB_WT_64BIT then pb_read_local env s 8 st
      else if wire_type = PB_WT_32BIT then pb_read_local env s 4 st
      else (False, [], is_set_error ''invalid wire_type'' s, st))"

section \<open>Substreams\<close>

text \<open>Success, the stream and the substream.\<close>

definition pb_make_string_substream ::
    "cenv \<Rightarrow> pb_istream \<Rightarrow> cstate \<Rightarrow> (bool \<times> pb_istream \<times> pb_istream \<times> cstate) option" where
  "pb_make_string_substream env s st =
     (case pb_decode_varint32 env s st of
        None \<Rightarrow> None
      | Some (None, s', st') \<Rightarrow> Some (False, s', s', st')
      | Some (Some sz, s', st') \<Rightarrow>
          if bytes_left s' < ucast sz
          then Some (False, is_set_error ''parent stream too short'' s', s', st')
          else Some (True, s'\<lparr>bytes_left := bytes_left s' - ucast sz\<rparr>,
                     s'\<lparr>bytes_left := ucast sz\<rparr>, st'))"

definition pb_close_string_substream ::
    "cenv \<Rightarrow> pb_istream \<Rightarrow> pb_istream \<Rightarrow> cstate \<Rightarrow> ires" where
  "pb_close_string_substream env s sub st =
     (if bytes_left sub \<noteq> 0
      then (case pb_read env sub 0 (bytes_left sub) st of (ok, sub', st') \<Rightarrow>
              if \<not> ok then (False, s, st')
              else (True, s\<lparr>is_state := is_state sub', is_errmsg := is_errmsg sub'\<rparr>, st'))
      else (True, s\<lparr>is_state := is_state sub, is_errmsg := is_errmsg sub\<rparr>, st))"

section \<open>Values\<close>

definition unzigzag :: "u64 \<Rightarrow> u64" where
  "unzigzag value = (if value AND 1 \<noteq> 0 then NOT (drop_bit 1 value) else drop_bit 1 value)"

definition pb_decode_svarint :: "cenv \<Rightarrow> pb_istream \<Rightarrow> cstate \<Rightarrow> u64 option \<times> pb_istream \<times> cstate" where
  "pb_decode_svarint env s st =
     (case pb_decode_varint env s st of (r, s', st') \<Rightarrow> (map_option unzigzag r, s', st'))"

definition fixed32_of :: "byte list \<Rightarrow> u32" where
  "fixed32_of bs = push_bit 0 (ucast (bs ! 0)) OR push_bit 8 (ucast (bs ! 1))
     OR push_bit 16 (ucast (bs ! 2)) OR push_bit 24 (ucast (bs ! 3))"

definition pb_decode_fixed32 :: "cenv \<Rightarrow> pb_istream \<Rightarrow> addr \<Rightarrow> cstate \<Rightarrow> ires" where
  "pb_decode_fixed32 env s dest st =
     (case pb_read_local env s 4 st of (ok, bs, s', st') \<Rightarrow>
        if \<not> ok then (False, s', st')
        else (True, s', st'\<lparr>mem := store32 (mem st') dest (fixed32_of bs)\<rparr>))"

definition fixed64_of :: "byte list \<Rightarrow> u64" where
  "fixed64_of bs = push_bit 0 (ucast (bs ! 0)) OR push_bit 8 (ucast (bs ! 1))
     OR push_bit 16 (ucast (bs ! 2)) OR push_bit 24 (ucast (bs ! 3))
     OR push_bit 32 (ucast (bs ! 4)) OR push_bit 40 (ucast (bs ! 5))
     OR push_bit 48 (ucast (bs ! 6)) OR push_bit 56 (ucast (bs ! 7))"

definition pb_decode_fixed64 :: "cenv \<Rightarrow> pb_istream \<Rightarrow> addr \<Rightarrow> cstate \<Rightarrow> ires" where
  "pb_decode_fixed64 env s dest st =
     (case pb_read_local env s 8 st of (ok, bs, s', st') \<Rightarrow>
        if \<not> ok then (False, s', st')
        else (True, s', st'\<lparr>mem := store64 (mem st') dest (fixed64_of bs)\<rparr>))"

end
