(* ===== verification/Pb_Decode.thy ===== *)
theory Pb_Decode
  imports Pb_Stream_In
begin

text \<open>
  \<^verbatim>\<open>nanopb/pb_decode.c\<close>, second part: default values, releasing, the decoders of single
  fields and the message decoder. As in the encoder, nested messages, chains of extensions
  and callback loops take their budget from the argument \<open>n\<close>, and \<open>None\<close> is the result
  of a run that does not return within it or calls through a null function pointer.
\<close>

section \<open>Counts and flags\<close>

text \<open>What \<^verbatim>\<open>iter->pSize\<close> points to, as a \<^verbatim>\<open>pb_size_t\<close>.\<close>

definition get_size :: "pb_field_iter \<Rightarrow> cstate \<Rightarrow> pb_size_t" where
  "get_size it st =
     (case it_pSize it of PMem a \<Rightarrow> load32 (mem st) a | PLocal \<Rightarrow> it_fixed_count_size it)"

definition set_size :: "pb_field_iter \<Rightarrow> pb_size_t \<Rightarrow> cstate \<Rightarrow> pb_field_iter \<times> cstate" where
  "set_size it v st =
     (case it_pSize it of
        PMem a \<Rightarrow> (it, st\<lparr>mem := store32 (mem st) a v\<rparr>)
      | PLocal \<Rightarrow> (it\<lparr>it_fixed_count_size := v\<rparr>, st))"

text \<open>\<^verbatim>\<open>*(bool*)iter->pSize = b\<close>; the local counter is only ever used for repeated fields.\<close>

definition set_has :: "pb_field_iter \<Rightarrow> bool \<Rightarrow> cstate \<Rightarrow> cstate" where
  "set_has it b st =
     (case it_pSize it of
        PMem a \<Rightarrow> st\<lparr>mem := store_bool (mem st) a b\<rparr>
      | PLocal \<Rightarrow> st)"

section \<open>Extensions\<close>

definition iter_from_extension :: "cenv \<Rightarrow> memory \<Rightarrow> addr \<Rightarrow> pb_field_iter" where
  "iter_from_extension env m extension =
     (let fds = e_fields env (exttype_arg m (ext_type m extension));
          it = snd (pb_field_iter_begin fresh_iter fds (ext_dest m extension));
          it = it\<lparr>it_pData := ext_dest m extension, it_pSize := PMem (ext_found_addr extension)\<rparr>
      in if PB_ATYPE (f_type (field_at fds 0)) = PB_ATYPE_POINTER
         then it\<lparr>it_pData := ext_dest_addr extension\<rparr> else it)"

text \<open>\<^verbatim>\<open>while (ext != NULL) { body; ext = ext->next; }\<close>\<close>

fun ext_while :: "nat \<Rightarrow> (addr \<Rightarrow> cstate \<Rightarrow> cstate option) \<Rightarrow> addr \<Rightarrow> cstate \<Rightarrow> cstate option" where
  "ext_while 0 body ext st = (if ext = 0 then Some st else None)"
| "ext_while (Suc k) body ext st =
     (if ext = 0 then Some st
      else case body ext st of
             None \<Rightarrow> None
           | Some st' \<Rightarrow> ext_while k body (ext_next (mem st') ext) st')"

section \<open>Default values\<close>

text \<open>The walk over all fields of a message, for a body that does not fail.\<close>

definition for_all_fields ::
    "(pb_field_iter \<Rightarrow> cstate \<Rightarrow> cstate option) \<Rightarrow> pb_field list \<Rightarrow> addr \<Rightarrow> cstate \<Rightarrow> cstate option" where
  "for_all_fields body fds dest st =
     (case pb_field_iter_begin fresh_iter fds dest of
        (nonempty, iter) \<Rightarrow>
          if \<not> nonempty then Some st
          else map_option snd
                 (iter_do_while (\<lambda>it st. map_option (\<lambda>st. (True, st)) (body it st)) iter st))"

fun pb_field_set_to_default :: "nat \<Rightarrow> cenv \<Rightarrow> pb_field_iter \<Rightarrow> cstate \<Rightarrow> cstate option" where
  "pb_field_set_to_default 0 env it st = None"
| "pb_field_set_to_default (Suc n) env it st =
     (let fld = it_field it; type = f_type fld in
      if PB_LTYPE type = PB_LTYPE_EXTENSION
      then ext_while n
             (\<lambda>ext st.
                let st = st\<lparr>mem := store_bool (mem st) (ext_found_addr ext) False\<rparr>
                in pb_field_set_to_default n env (iter_from_extension env (mem st) ext) st)
             (load_ptr (mem st) (it_pData it)) st
      else if PB_ATYPE type = PB_ATYPE_STATIC
      then
        let optional_has = (PB_HTYPE type = PB_HTYPE_OPTIONAL \<and> it_pSize it \<noteq> PMem (it_pData it));
            counted = (PB_HTYPE type = PB_HTYPE_REPEATED \<or> PB_HTYPE type = PB_HTYPE_ONEOF);
            st = (if optional_has then set_has it False st
                  else if counted then snd (set_size it 0 st) else st)
        in if \<not> optional_has \<and> counted then Some st
           else if PB_LTYPE type = PB_LTYPE_SUBMESSAGE
           then for_all_fields (pb_field_set_to_default n env)
                  (e_fields env (f_ptr fld)) (it_pData it) st
           else if f_ptr fld \<noteq> 0
           then Some (memcpy (it_pData it) (f_ptr fld) (unat (f_data_size fld)) st)
           else Some (memset0 (it_pData it) (unat (f_data_size fld)) st)
      else if PB_ATYPE type = PB_ATYPE_POINTER
      then
        let st = st\<lparr>mem := store_ptr (mem st) (it_pData it) 0\<rparr>
        in if PB_HTYPE type = PB_HTYPE_REPEATED \<or> PB_HTYPE type = PB_HTYPE_ONEOF
           then Some (snd (set_size it 0 st)) else Some st
      else Some st)"

definition pb_message_set_to_defaults ::
    "nat \<Rightarrow> cenv \<Rightarrow> pb_field list \<Rightarrow> addr \<Rightarrow> cstate \<Rightarrow> cstate option" where
  "pb_message_set_to_defaults n env fds dest st =
     for_all_fields (pb_field_set_to_default n env) fds dest st"

section \<open>Releasing\<close>

text \<open>\<^verbatim>\<open>while (count--) { body(pItem); pItem += stride; }\<close>\<close>

fun items_while :: "nat \<Rightarrow> int \<Rightarrow> (addr \<Rightarrow> cstate \<Rightarrow> cstate option) \<Rightarrow> addr \<Rightarrow> cstate \<Rightarrow> cstate option" where
  "items_while 0 stride body p st = Some st"
| "items_while (Suc count) stride body p st =
     (case body p st of None \<Rightarrow> None | Some st' \<Rightarrow> items_while count stride body (p + stride) st')"

definition free_item :: "addr \<Rightarrow> cstate \<Rightarrow> cstate option" where
  "free_item p st =
     (let st = pb_free (load_ptr (mem st) p) st in Some (st\<lparr>mem := store_ptr (mem st) p 0\<rparr>))"

definition submessage_count :: "pb_field_iter \<Rightarrow> cstate \<Rightarrow> pb_size_t" where
  "submessage_count it st =
     (let fld = it_field it; type = f_type fld in
      if PB_HTYPE type = PB_HTYPE_REPEATED
      then
        let count = (if PB_ATYPE type = PB_ATYPE_STATIC \<and> it_pSize it = PMem (it_pData it)
                     then f_array_size fld else get_size it st)
        in if PB_ATYPE type = PB_ATYPE_STATIC \<and> count > f_array_size fld
           then f_array_size fld else count
      else 1)"

text \<open>The end of \<^verbatim>\<open>pb_release_single_field\<close>: the field's own allocation.\<close>

definition release_pointer :: "pb_field_iter \<Rightarrow> cstate \<Rightarrow> cstate option" where
  "release_pointer it st =
     (let type = f_type (it_field it) in
      if PB_ATYPE type \<noteq> PB_ATYPE_POINTER then Some st
      else
        case (if PB_HTYPE type = PB_HTYPE_REPEATED
                 \<and> (PB_LTYPE type = PB_LTYPE_STRING \<or> PB_LTYPE type = PB_LTYPE_BYTES)
              then items_while (unat (get_size it st)) 8 free_item (load_ptr (mem st) (it_pData it)) st
              else Some st) of
          None \<Rightarrow> None
        | Some st \<Rightarrow>
            let st = (if PB_HTYPE type = PB_HTYPE_REPEATED then snd (set_size it 0 st) else st);
                st = pb_free (load_ptr (mem st) (it_pData it)) st
            in Some (st\<lparr>mem := store_ptr (mem st) (it_pData it) 0\<rparr>))"

fun pb_release_single_field :: "nat \<Rightarrow> cenv \<Rightarrow> pb_field_iter \<Rightarrow> cstate \<Rightarrow> cstate option" where
  "pb_release_single_field 0 env it st = None"
| "pb_release_single_field (Suc n) env it st =
     (let fld = it_field it; type = f_type fld in
      if PB_HTYPE type = PB_HTYPE_ONEOF \<and> get_size it st \<noteq> f_tag fld then Some st
      else
        case (if PB_LTYPE type = PB_LTYPE_EXTENSION
              then ext_while n
                     (\<lambda>ext st. pb_release_single_field n env (iter_from_extension env (mem st) ext) st)
                     (load_ptr (mem st) (it_pData it)) st
              else if PB_LTYPE type = PB_LTYPE_SUBMESSAGE
              then
                let pItem = (if PB_ATYPE type = PB_ATYPE_POINTER
                             then load_ptr (mem st) (it_pData it) else it_pData it)
                in if pItem = 0 then Some st
                   else items_while (unat (submessage_count it st)) (uint (f_data_size fld))
                          (\<lambda>p st. if p = 0 then Some st
                                  else for_all_fields (pb_release_single_field n env)
                                         (e_fields env (f_ptr fld)) p st)
                          pItem st
              else Some st) of
          None \<Rightarrow> None
        | Some st \<Rightarrow> release_pointer it st)"

definition pb_release :: "nat \<Rightarrow> cenv \<Rightarrow> pb_field list \<Rightarrow> addr \<Rightarrow> cstate \<Rightarrow> cstate option" where
  "pb_release n env fds dest st =
     (if dest = 0 then Some st else for_all_fields (pb_release_single_field n env) fds dest st)"

type_synonym fres = "bool \<times> pb_istream \<times> pb_field_iter \<times> cstate"

definition pb_release_union_field ::
    "nat \<Rightarrow> cenv \<Rightarrow> pb_istream \<Rightarrow> pb_field_iter \<Rightarrow> cstate \<Rightarrow> fres option" where
  "pb_release_union_field n env s it st =
     (let old_tag = get_size it st; new_tag = f_tag (it_field it) in
      if old_tag = 0 then Some (True, s, it, st)
      else if old_tag = new_tag then Some (True, s, it, st)
      else case pb_field_iter_find it old_tag of
             None \<Rightarrow> None
           | Some (found, it) \<Rightarrow>
               if \<not> found then Some (False, is_set_error ''invalid union tag'' s, it, st)
               else case pb_release_single_field n env it st of
                      None \<Rightarrow> None
                    | Some st \<Rightarrow>
                        (case pb_field_iter_find it new_tag of
                           None \<Rightarrow> None
                         | Some (found, it) \<Rightarrow>
                             if \<not> found then Some (False, is_set_error ''iterator error'' s, it, st)
                             else Some (True, s, it, st)))"

section \<open>Allocation\<close>

definition allocate_field ::
    "cenv \<Rightarrow> pb_istream \<Rightarrow> addr \<Rightarrow> u64 \<Rightarrow> u64 \<Rightarrow> cstate \<Rightarrow> ires" where
  "allocate_field env s pData data_size array_size st =
     (let ptr = load_ptr (mem st) pData; check_limit = 2 ^ 32 in
      if data_size = 0 \<or> array_size = 0 then (False, is_set_error ''invalid size'' s, st)
      else if (data_size \<ge> check_limit \<or> array_size \<ge> check_limit)
              \<and> (- 1) div array_size < data_size
      then (False, is_set_error ''size too large'' s, st)
      else case pb_realloc env ptr (array_size * data_size) st of (ptr, st) \<Rightarrow>
             if ptr = 0 then (False, is_set_error ''realloc failed'' s, st)
             else (True, s, st\<lparr>mem := store_ptr (mem st) pData ptr\<rparr>))"

definition initialize_pointer_field ::
    "nat \<Rightarrow> cenv \<Rightarrow> addr \<Rightarrow> pb_field \<Rightarrow> cstate \<Rightarrow> cstate option" where
  "initialize_pointer_field n env pItem fld st =
     (if PB_LTYPE (f_type fld) = PB_LTYPE_STRING \<or> PB_LTYPE (f_type fld) = PB_LTYPE_BYTES
      then Some (st\<lparr>mem := store_ptr (mem st) pItem 0\<rparr>)
      else if PB_LTYPE (f_type fld) = PB_LTYPE_SUBMESSAGE
      then pb_message_set_to_defaults n env (e_fields env (f_ptr fld)) pItem
             (memset0 pItem (unat (f_data_size fld)) st)
      else Some st)"

section \<open>Field decoders\<close>

text \<open>
  The value is stored before the check that it fits, so a field holds the truncated value
  when the decoder reports \<^verbatim>\<open>integer too large\<close>.
\<close>

definition store_clamped ::
    "pb_istream \<Rightarrow> memory \<Rightarrow> u64 \<Rightarrow> u64 \<Rightarrow> cstate \<Rightarrow> ires" where
  "store_clamped s m clamped val st =
     (if clamped \<noteq> val then (False, is_set_error ''integer too large'' s, st\<lparr>mem := m\<rparr>)
      else (True, s, st\<lparr>mem := m\<rparr>))"

definition pb_dec_varint :: "cenv \<Rightarrow> pb_istream \<Rightarrow> pb_field \<Rightarrow> addr \<Rightarrow> cstate \<Rightarrow> ires" where
  "pb_dec_varint env s fld dest st =
     (case pb_decode_varint env s st of
        (None, s, st) \<Rightarrow> (False, s, st)
      | (Some v, s, st) \<Rightarrow>
          let svalue = (if f_data_size fld = 8 then v else scast (ucast v :: u32)) in
          if f_data_size fld = 8 then store_clamped s (store64 (mem st) dest svalue) svalue svalue st
          else if f_data_size fld = 4
          then store_clamped s (store32 (mem st) dest (ucast svalue)) (scast (ucast svalue :: u32)) svalue st
          else if f_data_size fld = 2
          then store_clamped s (store16 (mem st) dest (ucast svalue)) (scast (ucast svalue :: u16)) svalue st
          else if f_data_size fld = 1
          then store_clamped s (store8 (mem st) dest (ucast svalue)) (scast (ucast svalue :: byte)) svalue st
          else (False, is_set_error ''invalid data_size'' s, st))"

definition pb_dec_uvarint :: "cenv \<Rightarrow> pb_istream \<Rightarrow> pb_field \<Rightarrow> addr \<Rightarrow> cstate \<Rightarrow> ires" where
  "pb_dec_uvarint env s fld dest st =
     (case pb_decode_varint env s st of
        (None, s, st) \<Rightarrow> (False, s, st)
      | (Some v, s, st) \<Rightarrow>
          if f_data_size fld = 8 then store_clamped s (store64 (mem st) dest v) v v st
          else if f_data_size fld = 4
          then store_clamped s (store32 (mem st) dest (ucast v)) (ucast (ucast v :: u32)) v st
          else if f_data_size fld = 2
          then store_clamped s (store16 (mem st) dest (ucast v)) (ucast (ucast v :: u16)) v st
          else if f_data_size fld = 1
          then store_clamped s (store8 (mem st) dest (ucast v)) (ucast (ucast v :: byte)) v st
          else (False, is_set_error ''invalid data_size'' s, st))"

definition pb_dec_svarint :: "cenv \<Rightarrow> pb_istream \<Rightarrow> pb_field \<Rightarrow> addr \<Rightarrow> cstate \<Rightarrow> ires" where
  "pb_dec_svarint env s fld dest st =
     (case pb_decode_svarint env s st of
        (None, s, st) \<Rightarrow> (False, s, st)
      | (Some v, s, st) \<Rightarrow>
          if f_data_size fld = 8 then store_clamped s (store64 (mem st) dest v) v v st
          else if f_data_size fld = 4
          then store_clamped s (store32 (mem st) dest (ucast v)) (scast (ucast v :: u32)) v st
          else if f_data_size fld = 2
          then store_clamped s (store16 (mem st) dest (ucast v)) (scast (ucast v :: u16)) v st
          else if f_data_size fld = 1
          then store_clamped s (store8 (mem st) dest (ucast v)) (scast (ucast v :: byte)) v st
          else (False, is_set_error ''invalid data_size'' s, st))"

definition pb_dec_fixed32 :: "cenv \<Rightarrow> pb_istream \<Rightarrow> pb_field \<Rightarrow> addr \<Rightarrow> cstate \<Rightarrow> ires" where
  "pb_dec_fixed32 env s fld dest st = pb_decode_fixed32 env s dest st"

definition pb_dec_fixed64 :: "cenv \<Rightarrow> pb_istream \<Rightarrow> pb_field \<Rightarrow> addr \<Rightarrow> cstate \<Rightarrow> ires" where
  "pb_dec_fixed64 env s fld dest st = pb_decode_fixed64 env s dest st"

text \<open>Success and \<^verbatim>\<open>bdest\<close> or \<^verbatim>\<open>dest\<close>: a new block for a pointer field, the field itself otherwise.\<close>

definition dec_buffer ::
    "cenv \<Rightarrow> pb_istream \<Rightarrow> pb_field \<Rightarrow> addr \<Rightarrow> u64 \<Rightarrow> string \<Rightarrow> cstate
     \<Rightarrow> bool \<times> addr \<times> pb_istream \<times> cstate" where
  "dec_buffer env s fld dest alloc_size msg st =
     (if PB_ATYPE (f_type fld) = PB_ATYPE_POINTER
      then (case allocate_field env s dest alloc_size 1 st of (ok, s, st) \<Rightarrow>
              if \<not> ok then (False, 0, s, st) else (True, load_ptr (mem st) dest, s, st))
      else if alloc_size > ucast (f_data_size fld) then (False, 0, is_set_error msg s, st)
      else (True, dest, s, st))"

definition pb_dec_bytes :: "cenv \<Rightarrow> pb_istream \<Rightarrow> pb_field \<Rightarrow> addr \<Rightarrow> cstate \<Rightarrow> ires option" where
  "pb_dec_bytes env s fld dest st =
     (case pb_decode_varint32 env s st of
        None \<Rightarrow> None
      | Some (None, s, st) \<Rightarrow> Some (False, s, st)
      | Some (Some sz, s, st) \<Rightarrow>
          if sz > PB_SIZE_MAX then Some (False, is_set_error ''bytes overflow'' s, st)
          else if ucast sz > PB_BYTES_ARRAY_T_ALLOCSIZE sz
          then Some (False, is_set_error ''size too large'' s, st)
          else case dec_buffer env s fld dest (PB_BYTES_ARRAY_T_ALLOCSIZE sz) ''bytes overflow'' st of
                 (ok, bdest, s, st) \<Rightarrow>
                   if \<not> ok then Some (False, s, st)
                   else Some (pb_read env s (bytes_array_bytes bdest) (ucast sz)
                                (st\<lparr>mem := store32 (mem st) bdest sz\<rparr>)))"

definition pb_dec_string :: "cenv \<Rightarrow> pb_istream \<Rightarrow> pb_field \<Rightarrow> addr \<Rightarrow> cstate \<Rightarrow> ires option" where
  "pb_dec_string env s fld dest st =
     (case pb_decode_varint32 env s st of
        None \<Rightarrow> None
      | Some (None, s, st) \<Rightarrow> Some (False, s, st)
      | Some (Some sz, s, st) \<Rightarrow>
          let alloc_size = ucast (sz + 1) :: u64 in
          if alloc_size < ucast sz then Some (False, is_set_error ''size too large'' s, st)
          else case dec_buffer env s fld dest alloc_size ''string overflow'' st of
                 (ok, dest, s, st) \<Rightarrow>
                   if \<not> ok then Some (False, s, st)
                   else case pb_read env s dest (ucast sz) st of (status, s, st) \<Rightarrow>
                          Some (status, s, st\<lparr>mem := store8 (mem st) (dest + uint sz) 0\<rparr>))"

definition pb_dec_fixed_length_bytes ::
    "cenv \<Rightarrow> pb_istream \<Rightarrow> pb_field \<Rightarrow> addr \<Rightarrow> cstate \<Rightarrow> ires option" where
  "pb_dec_fixed_length_bytes env s fld dest st =
     (case pb_decode_varint32 env s st of
        None \<Rightarrow> None
      | Some (None, s, st) \<Rightarrow> Some (False, s, st)
      | Some (Some sz, s, st) \<Rightarrow>
          if sz > PB_SIZE_MAX then Some (False, is_set_error ''bytes overflow'' s, st)
          else if sz = 0 then Some (True, s, memset0 dest (unat (f_data_size fld)) st)
          else if sz \<noteq> f_data_size fld
          then Some (False, is_set_error ''incorrect fixed length bytes size'' s, st)
          else Some (pb_read env s dest (ucast (f_data_size fld)) st))"

type_synonym message_decoder =
  "pb_istream \<Rightarrow> pb_field list \<Rightarrow> addr \<Rightarrow> cstate \<Rightarrow> ires option"
type_synonym field_decoder = "pb_istream \<Rightarrow> pb_field \<Rightarrow> addr \<Rightarrow> cstate \<Rightarrow> ires option"

text \<open>\<^verbatim>\<open>pb_decode\<close> over a given \<^verbatim>\<open>pb_decode_noinit\<close>.\<close>

definition pb_decode_with :: "nat \<Rightarrow> message_decoder \<Rightarrow> cenv \<Rightarrow> message_decoder" where
  "pb_decode_with n noinit env s fds dest st =
     (case pb_message_set_to_defaults n env fds dest st of
        None \<Rightarrow> None
      | Some st \<Rightarrow>
          (case noinit s fds dest st of
             None \<Rightarrow> None
           | Some (status, s, st) \<Rightarrow>
               if status then Some (True, s, st)
               else map_option (\<lambda>st. (False, s, st)) (pb_release n env fds dest st)))"

text \<open>Decode through a substream: \<^verbatim>\<open>pb_decode_delimited\<close> and the like.\<close>

definition with_substream ::
    "cenv \<Rightarrow> pb_istream \<Rightarrow> (pb_istream \<Rightarrow> cstate \<Rightarrow> ires option) \<Rightarrow> cstate \<Rightarrow> ires option" where
  "with_substream env s body st =
     (case pb_make_string_substream env s st of
        None \<Rightarrow> None
      | Some (ok, s, sub, st) \<Rightarrow>
          if \<not> ok then Some (False, s, st)
          else case body sub st of
                 None \<Rightarrow> None
               | Some (status, sub, st) \<Rightarrow>
                   (case pb_close_string_substream env s sub st of (ok, s, st) \<Rightarrow>
                      Some (ok \<and> status, s, st)))"

definition pb_dec_submessage ::
    "nat \<Rightarrow> message_decoder \<Rightarrow> cenv \<Rightarrow> pb_istream \<Rightarrow> pb_field \<Rightarrow> addr \<Rightarrow> cstate \<Rightarrow> ires option" where
  "pb_dec_submessage n noinit env s fld dest st =
     (if f_ptr fld = 0
      then (case pb_make_string_substream env s st of
              None \<Rightarrow> None
            | Some (ok, s, sub, st) \<Rightarrow>
                if \<not> ok then Some (False, s, st)
                else Some (False, is_set_error ''invalid field descriptor'' s, st))
      else with_substream env s
             (\<lambda>sub st. if PB_HTYPE (f_type fld) = PB_HTYPE_REPEATED
                       then pb_decode_with n noinit env sub (e_fields env (f_ptr fld)) dest st
                       else noinit sub (e_fields env (f_ptr fld)) dest st) st)"

definition PB_DECODERS ::
    "nat \<Rightarrow> message_decoder \<Rightarrow> cenv \<Rightarrow> pb_type_t \<Rightarrow> field_decoder" where
  "PB_DECODERS n noinit env lt = (\<lambda>s fld dest st.
     if lt = PB_LTYPE_VARINT then Some (pb_dec_varint env s fld dest st)
     else if lt = PB_LTYPE_UVARINT then Some (pb_dec_uvarint env s fld dest st)
     else if lt = PB_LTYPE_SVARINT then Some (pb_dec_svarint env s fld dest st)
     else if lt = PB_LTYPE_FIXED32 then Some (pb_dec_fixed32 env s fld dest st)
     else if lt = PB_LTYPE_FIXED64 then Some (pb_dec_fixed64 env s fld dest st)
     else if lt = PB_LTYPE_BYTES then pb_dec_bytes env s fld dest st
     else if lt = PB_LTYPE_STRING then pb_dec_string env s fld dest st
     else if lt = PB_LTYPE_SUBMESSAGE then pb_dec_submessage n noinit env s fld dest st
     else if lt = PB_LTYPE_FIXED_LENGTH_BYTES then pb_dec_fixed_length_bytes env s fld dest st
     else None)"

section \<open>Fields\<close>

text \<open>
  \<^verbatim>\<open>pData + data_size * (*size)\<close>: both factors are \<^verbatim>\<open>pb_size_t\<close>, the product is taken
  in 32 bits.
\<close>

definition item_addr :: "addr \<Rightarrow> pb_field \<Rightarrow> pb_size_t \<Rightarrow> addr" where
  "item_addr base fld i = base + uint (f_data_size fld * i)"

text \<open>Results of loops over a packed array: \<^verbatim>\<open>status\<close>, the substream, the iterator and the state.\<close>

fun decode_packed_static ::
    "nat \<Rightarrow> field_decoder \<Rightarrow> pb_istream \<Rightarrow> pb_field_iter \<Rightarrow> cstate \<Rightarrow> fres option" where
  "decode_packed_static 0 func sub it st = None"
| "decode_packed_static (Suc k) func sub it st =
     (if bytes_left sub > 0 \<and> get_size it st < f_array_size (it_field it)
      then (case func sub (it_field it) (item_addr (it_pData it) (it_field it) (get_size it st)) st of
              None \<Rightarrow> None
            | Some (ok, sub, st) \<Rightarrow>
                if \<not> ok then Some (False, sub, it, st)
                else (case set_size it (get_size it st + 1) st of (it, st) \<Rightarrow>
                        decode_packed_static k func sub it st))
      else Some (True, sub, it, st))"

definition with_iter :: "pb_field_iter \<Rightarrow> ires option \<Rightarrow> fres option" where
  "with_iter it r = map_option (\<lambda>(ok, s, st). (ok, s, it, st)) r"

definition decode_static_field ::
    "nat \<Rightarrow> message_decoder \<Rightarrow> cenv \<Rightarrow> pb_istream \<Rightarrow> pb_wire_type_t \<Rightarrow> pb_field_iter \<Rightarrow> cstate
     \<Rightarrow> fres option" where
  "decode_static_field n noinit env s wire_type it st =
     (let fld = it_field it; type = f_type fld; func = PB_DECODERS n noinit env (PB_LTYPE type) in
      if PB_HTYPE type = PB_HTYPE_REQUIRED then with_iter it (func s fld (it_pData it) st)
      else if PB_HTYPE type = PB_HTYPE_OPTIONAL
      then with_iter it (func s fld (it_pData it)
             (if it_pSize it \<noteq> PMem (it_pData it) then set_has it True st else st))
      else if PB_HTYPE type = PB_HTYPE_REPEATED
      then
        if wire_type = PB_WT_STRING \<and> PB_LTYPE type \<le> PB_LTYPE_LAST_PACKABLE
        then (case pb_make_string_substream env s st of
                None \<Rightarrow> None
              | Some (ok, s, sub, st) \<Rightarrow>
                  if \<not> ok then Some (False, s, it, st)
                  else (case decode_packed_static (fuel_for sub) func sub it st of
                          None \<Rightarrow> None
                        | Some (status, sub, it, st) \<Rightarrow>
                            if bytes_left sub \<noteq> 0
                            then Some (False, is_set_error ''array overflow'' s, it, st)
                            else (case pb_close_string_substream env s sub st of (ok, s, st) \<Rightarrow>
                                    Some (ok \<and> status, s, it, st))))
        else
          let i = get_size it st in
          (case set_size it (i + 1) st of (it, st) \<Rightarrow>
             if i \<ge> f_array_size fld then Some (False, is_set_error ''array overflow'' s, it, st)
             else with_iter it (func s fld (item_addr (it_pData it) fld i) st))
      else if PB_HTYPE type = PB_HTYPE_ONEOF
      then (case set_size it (f_tag fld) st of (it, st) \<Rightarrow>
              case (if PB_LTYPE type = PB_LTYPE_SUBMESSAGE
                    then pb_message_set_to_defaults n env (e_fields env (f_ptr fld)) (it_pData it)
                           (memset0 (it_pData it) (unat (f_data_size fld)) st)
                    else Some st) of
                None \<Rightarrow> None
              | Some st \<Rightarrow> with_iter it (func s fld (it_pData it) st))
      else Some (False, is_set_error ''invalid field type'' s, it, st))"

text \<open>
  The packed loop of \<^verbatim>\<open>decode_pointer_field\<close>. Besides \<^verbatim>\<open>status\<close> it says whether the
  error text of the outer stream was set. A zero \<^verbatim>\<open>data_size\<close> is a division by zero.
\<close>

fun decode_packed_pointer ::
    "nat \<Rightarrow> nat \<Rightarrow> field_decoder \<Rightarrow> cenv \<Rightarrow> u64 \<Rightarrow> pb_istream \<Rightarrow> pb_field_iter \<Rightarrow> cstate
     \<Rightarrow> (bool \<times> bool \<times> pb_istream \<times> pb_field_iter \<times> cstate) option" where
  "decode_packed_pointer 0 n func env allocated sub it st = None"
| "decode_packed_pointer (Suc k) n func env allocated sub it st =
     (if bytes_left sub = 0 then Some (True, False, sub, it, st)
      else
        let fld = it_field it; i = get_size it st; grow = (ucast i + 1 > allocated);
            allocated = (if grow then allocated + ((bytes_left sub - 1) div ucast (f_data_size fld) + 1)
                         else allocated)
        in if grow \<and> f_data_size fld = 0 then None
           else case (if grow then allocate_field env sub (it_pData it) (ucast (f_data_size fld)) allocated st
                      else (True, sub, st)) of
             (ok, sub, st) \<Rightarrow>
               if \<not> ok then Some (False, False, sub, it, st)
               else
                 let pItem = item_addr (load_ptr (mem st) (it_pData it)) fld i in
                 (case initialize_pointer_field n env pItem fld st of
                    None \<Rightarrow> None
                  | Some st \<Rightarrow>
                      (case func sub fld pItem st of
                         None \<Rightarrow> None
                       | Some (ok, sub, st) \<Rightarrow>
                           if \<not> ok then Some (False, False, sub, it, st)
                           else if get_size it st = PB_SIZE_MAX then Some (False, True, sub, it, st)
                           else (case set_size it (get_size it st + 1) st of (it, st) \<Rightarrow>
                                   decode_packed_pointer k n func env allocated sub it st))))"

definition decode_pointer_field ::
    "nat \<Rightarrow> message_decoder \<Rightarrow> cenv \<Rightarrow> pb_istream \<Rightarrow> pb_wire_type_t \<Rightarrow> pb_field_iter \<Rightarrow> cstate
     \<Rightarrow> fres option" where
  "decode_pointer_field n noinit env s wire_type it st =
     (let fld = it_field it; type = f_type fld; func = PB_DECODERS n noinit env (PB_LTYPE type) in
      if PB_HTYPE type = PB_HTYPE_REQUIRED \<or> PB_HTYPE type = PB_HTYPE_OPTIONAL
         \<or> PB_HTYPE type = PB_HTYPE_ONEOF
      then
        (case (if PB_LTYPE type = PB_LTYPE_SUBMESSAGE \<and> load_ptr (mem st) (it_pData it) \<noteq> 0
               then pb_release_single_field n env it st else Some st) of
           None \<Rightarrow> None
         | Some st \<Rightarrow>
             (case (if PB_HTYPE type = PB_HTYPE_ONEOF then set_size it (f_tag fld) st else (it, st)) of
                (it, st) \<Rightarrow>
                  if PB_LTYPE type = PB_LTYPE_STRING \<or> PB_LTYPE type = PB_LTYPE_BYTES
                  then with_iter it (func s fld (it_pData it) st)
                  else (case allocate_field env s (it_pData it) (ucast (f_data_size fld)) 1 st of
                          (ok, s, st) \<Rightarrow>
                            if \<not> ok then Some (False, s, it, st)
                            else (case initialize_pointer_field n env
                                         (load_ptr (mem st) (it_pData it)) fld st of
                                    None \<Rightarrow> None
                                  | Some st \<Rightarrow>
                                      with_iter it (func s fld (load_ptr (mem st) (it_pData it)) st)))))
      else if PB_HTYPE type = PB_HTYPE_REPEATED
      then
        if wire_type = PB_WT_STRING \<and> PB_LTYPE type \<le> PB_LTYPE_LAST_PACKABLE
        then
          let allocated = ucast (get_size it st) in
          (case pb_make_string_substream env s st of
             None \<Rightarrow> None
           | Some (ok, s, sub, st) \<Rightarrow>
               if \<not> ok then Some (False, s, it, st)
               else (case decode_packed_pointer (fuel_for sub) n func env allocated sub it st of
                       None \<Rightarrow> None
                     | Some (status, toomany, sub, it, st) \<Rightarrow>
                         let s = (if toomany then s\<lparr>is_errmsg := Some ''too many array entries''\<rparr> else s) in
                         (case pb_close_string_substream env s sub st of (ok, s, st) \<Rightarrow>
                            Some (ok \<and> status, s, it, st))))
        else
          let i = get_size it st in
          if i = PB_SIZE_MAX then Some (False, is_set_error ''too many array entries'' s, it, st)
          else (case set_size it (i + 1) st of (it, st) \<Rightarrow>
                  case allocate_field env s (it_pData it) (ucast (f_data_size fld))
                         (ucast (get_size it st)) st of
                    (ok, s, st) \<Rightarrow>
                      if \<not> ok then Some (False, s, it, st)
                      else
                        let pItem = item_addr (load_ptr (mem st) (it_pData it)) fld (get_size it st - 1)
                        in (case initialize_pointer_field n env pItem fld st of
                              None \<Rightarrow> None
                            | Some st \<Rightarrow> with_iter it (func s fld pItem st)))
      else Some (False, is_set_error ''invalid field type'' s, it, st))"

text \<open>\<^verbatim>\<open>do { ... } while (substream.bytes_left)\<close> around the user's callback.\<close>

fun callback_while ::
    "nat \<Rightarrow> (pb_istream \<Rightarrow> cstate \<Rightarrow> ires) \<Rightarrow> pb_istream \<Rightarrow> cstate \<Rightarrow> ires option" where
  "callback_while 0 f sub st = None"
| "callback_while (Suc k) f sub st =
     (case f sub st of (ok, sub, st) \<Rightarrow>
        if \<not> ok then Some (False, sub, st)
        else if bytes_left sub \<noteq> 0 then callback_while k f sub st
        else Some (True, sub, st))"

definition decode_callback_field ::
    "nat \<Rightarrow> cenv \<Rightarrow> pb_istream \<Rightarrow> pb_wire_type_t \<Rightarrow> pb_field_iter \<Rightarrow> cstate \<Rightarrow> ires option" where
  "decode_callback_field n env s wire_type it st =
     (let pCallback = it_pData it; fld = it_field it in
      if pCallback = 0 \<or> callback_func (mem st) pCallback = 0 then pb_skip_field env s wire_type st
      else if wire_type = PB_WT_STRING
      then (case pb_make_string_substream env s st of
              None \<Rightarrow> None
            | Some (ok, s, sub, st) \<Rightarrow>
                if \<not> ok then Some (False, s, st)
                else (case callback_while n
                             (\<lambda>sub st. e_decode env (callback_func (mem st) pCallback) sub fld
                                         (callback_arg pCallback) st) sub st of
                        None \<Rightarrow> None
                      | Some (ok, sub, st) \<Rightarrow>
                          if \<not> ok then Some (False, is_set_error ''callback failed'' s, st)
                          else Some (pb_close_string_substream env s sub st)))
      else (case read_raw_value env s wire_type 10 st of (ok, buffer, s, st) \<Rightarrow>
              if \<not> ok then Some (False, s, st)
              else (case e_decode env (callback_func (mem st) pCallback)
                           (pb_istream_from_buffer buffer (word_of_nat (length buffer))) fld
                           (callback_arg pCallback) st of
                      (ok, sub, st) \<Rightarrow> Some (ok, s, st))))"

definition decode_field ::
    "nat \<Rightarrow> message_decoder \<Rightarrow> cenv \<Rightarrow> pb_istream \<Rightarrow> pb_wire_type_t \<Rightarrow> pb_field_iter \<Rightarrow> cstate
     \<Rightarrow> fres option" where
  "decode_field n noinit env s wire_type it st =
     (case (if PB_HTYPE (f_type (it_field it)) = PB_HTYPE_ONEOF
            then pb_release_union_field n env s it st else Some (True, s, it, st)) of
        None \<Rightarrow> None
      | Some (ok, s, it, st) \<Rightarrow>
          if \<not> ok then Some (False, s, it, st)
          else
            let atype = PB_ATYPE (f_type (it_field it)) in
            if atype = PB_ATYPE_STATIC then decode_static_field n noinit env s wire_type it st
            else if atype = PB_ATYPE_POINTER then decode_pointer_field n noinit env s wire_type it st
            else if atype = PB_ATYPE_CALLBACK
            then with_iter it (decode_callback_field n env s wire_type it st)
            else Some (False, is_set_error ''invalid field type'' s, it, st))"

section \<open>Extensions\<close>

definition default_extension_decoder ::
    "nat \<Rightarrow> message_decoder \<Rightarrow> cenv \<Rightarrow> pb_istream \<Rightarrow> addr \<Rightarrow> u32 \<Rightarrow> pb_wire_type_t \<Rightarrow> cstate
     \<Rightarrow> ires option" where
  "default_extension_decoder n noinit env s extension tag wire_type st =
     (let fld = field_at (e_fields env (exttype_arg (mem st) (ext_type (mem st) extension))) 0 in
      if f_tag fld \<noteq> tag then Some (True, s, st)
      else
        let it = iter_from_extension env (mem st) extension;
            st = st\<lparr>mem := store_bool (mem st) (ext_found_addr extension) True\<rparr>
        in map_option (\<lambda>(ok, s, it, st). (ok, s, st)) (decode_field n noinit env s wire_type it st))"

fun decode_extension_loop ::
    "nat \<Rightarrow> nat \<Rightarrow> message_decoder \<Rightarrow> cenv \<Rightarrow> u64 \<Rightarrow> pb_istream \<Rightarrow> addr \<Rightarrow> u32 \<Rightarrow> pb_wire_type_t
     \<Rightarrow> cstate \<Rightarrow> ires option" where
  "decode_extension_loop 0 n noinit env pos s extension tag wire_type st = None"
| "decode_extension_loop (Suc k) n noinit env pos s extension tag wire_type st =
     (if extension \<noteq> 0 \<and> pos = bytes_left s
      then (case (let decode = exttype_decode (mem st) (ext_type (mem st) extension) in
                  if decode \<noteq> 0 then Some (e_ext_decode env decode s extension tag wire_type st)
                  else default_extension_decoder n noinit env s extension tag wire_type st) of
              None \<Rightarrow> None
            | Some (status, s, st) \<Rightarrow>
                if \<not> status then Some (False, s, st)
                else decode_extension_loop k n noinit env pos s (ext_next (mem st) extension)
                       tag wire_type st)
      else Some (True, s, st))"

definition decode_extension ::
    "nat \<Rightarrow> message_decoder \<Rightarrow> cenv \<Rightarrow> pb_istream \<Rightarrow> u32 \<Rightarrow> pb_wire_type_t \<Rightarrow> pb_field_iter
     \<Rightarrow> cstate \<Rightarrow> ires option" where
  "decode_extension n noinit env s tag wire_type it st =
     decode_extension_loop (Suc n) n noinit env (bytes_left s) s (load_ptr (mem st) (it_pData it))
       tag wire_type st"

text \<open>One round over the descriptors; see \<^verbatim>\<open>pb_field_iter_find\<close> for the budget.\<close>

fun find_extension_loop :: "nat \<Rightarrow> nat \<Rightarrow> pb_field_iter \<Rightarrow> (bool \<times> pb_field_iter) option" where
  "find_extension_loop 0 start it = None"
| "find_extension_loop (Suc k) start it =
     (if PB_LTYPE (f_type (it_field it)) = PB_LTYPE_EXTENSION then Some (True, it)
      else let it = snd (pb_field_iter_next it)
           in if it_pos it \<noteq> start then find_extension_loop k start it else Some (False, it))"

definition find_extension_field :: "pb_field_iter \<Rightarrow> (bool \<times> pb_field_iter) option" where
  "find_extension_field it = find_extension_loop (Suc (length (it_start it))) (it_pos it) it"

section \<open>Messages\<close>

text \<open>The local variables of \<^verbatim>\<open>pb_decode_noinit\<close>; \<^verbatim>\<open>fixed_count_size\<close> is kept in the iterator.\<close>

record noinit_locals =
  l_iter :: pb_field_iter
  l_fields_seen :: "u32 list"
  l_extension_range_start :: u32
  l_fixed_count_field :: "nat option"

definition fixed_count_short :: "noinit_locals \<Rightarrow> bool" where
  "fixed_count_short l =
     (case l_fixed_count_field l of
        None \<Rightarrow> False
      | Some pos \<Rightarrow> it_fixed_count_size (l_iter l) \<noteq> f_array_size (field_at (it_start (l_iter l)) pos))"

text \<open>
  An unknown tag: extensions first, then skipping. The iterator stays where
  \<^verbatim>\<open>find_extension_field\<close> left it.
\<close>

definition decode_unknown ::
    "nat \<Rightarrow> message_decoder \<Rightarrow> cenv \<Rightarrow> pb_istream \<Rightarrow> u32 \<Rightarrow> pb_wire_type_t \<Rightarrow> noinit_locals \<Rightarrow> cstate
     \<Rightarrow> (bool \<times> pb_istream \<times> noinit_locals \<times> cstate) option" where
  "decode_unknown n noinit env s tag wire_type l st =
     (let skip = (\<lambda>s l st. map_option (\<lambda>(ok, s, st). (ok, s, l, st)) (pb_skip_field env s wire_type st)) in
      if tag \<ge> l_extension_range_start l
      then (case find_extension_field (l_iter l) of
              None \<Rightarrow> None
            | Some (found, it) \<Rightarrow>
                let l = l\<lparr>l_iter := it,
                          l_extension_range_start := (if found then f_tag (it_field it) else - 1)\<rparr>
                in if tag \<ge> l_extension_range_start l
                   then (case decode_extension n noinit env s tag wire_type it st of
                           None \<Rightarrow> None
                         | Some (ok, s', st) \<Rightarrow>
                             if \<not> ok then Some (False, s', l, st)
                             else if bytes_left s \<noteq> bytes_left s' then Some (True, s', l, st)
                             else skip s' l st)
                   else skip s l st)
      else skip s l st)"

text \<open>
  A known tag: the counter of fixed-count arrays and the bitmap of required fields, before
  the field itself is decoded. The first component is false when \<^verbatim>\<open>wrong size for fixed
  count field\<close> is to be reported.
\<close>

definition select_field :: "pb_field_iter \<Rightarrow> noinit_locals \<Rightarrow> bool \<times> noinit_locals" where
  "select_field it l =
     (let l = l\<lparr>l_iter := it\<rparr> in
      if PB_HTYPE (f_type (it_field it)) = PB_HTYPE_REPEATED \<and> it_pSize it = PMem (it_pData it)
      then
        if l_fixed_count_field l \<noteq> Some (it_pos it)
        then (if fixed_count_short l then (False, l)
              else (True, l\<lparr>l_fixed_count_field := Some (it_pos it),
                            l_iter := it\<lparr>it_fixed_count_size := 0, it_pSize := PLocal\<rparr>\<rparr>))
        else (True, l\<lparr>l_iter := it\<lparr>it_pSize := PLocal\<rparr>\<rparr>)
      else (True, l))"

definition mark_seen :: "noinit_locals \<Rightarrow> noinit_locals" where
  "mark_seen l =
     (let i = it_required_field_index (l_iter l); w = unat (drop_bit 5 i) in
      if PB_HTYPE (f_type (it_field (l_iter l))) = PB_HTYPE_REQUIRED \<and> unat i < PB_MAX_REQUIRED_FIELDS
      then l\<lparr>l_fields_seen :=
               (l_fields_seen l)[w := (l_fields_seen l ! w) OR push_bit (unat (i AND 31)) 1]\<rparr>
      else l)"

fun noinit_loop ::
    "nat \<Rightarrow> nat \<Rightarrow> message_decoder \<Rightarrow> cenv \<Rightarrow> pb_istream \<Rightarrow> noinit_locals \<Rightarrow> cstate
     \<Rightarrow> (bool \<times> pb_istream \<times> noinit_locals \<times> cstate) option" where
  "noinit_loop 0 n noinit env s l st = None"
| "noinit_loop (Suc k) n noinit env s l st =
     (if bytes_left s = 0 then Some (True, s, l, st)
      else case pb_decode_tag env s st of
        None \<Rightarrow> None
      | Some (ok, wire_type, tag, eof, s, st) \<Rightarrow>
          if \<not> ok then Some (eof, s, l, st)
          else (case pb_field_iter_find (l_iter l) tag of
                  None \<Rightarrow> None
                | Some (found, it) \<Rightarrow>
                    if \<not> found
                    then (case decode_unknown n noinit env s tag wire_type (l\<lparr>l_iter := it\<rparr>) st of
                            None \<Rightarrow> None
                          | Some (ok, s, l, st) \<Rightarrow>
                              if \<not> ok then Some (False, s, l, st)
                              else noinit_loop k n noinit env s l st)
                    else (case select_field it l of (ok, l) \<Rightarrow>
                            if \<not> ok
                            then Some (False, is_set_error ''wrong size for fixed count field'' s, l, st)
                            else
                              let l = mark_seen l in
                              (case decode_field n noinit env s wire_type (l_iter l) st of
                                 None \<Rightarrow> None
                               | Some (ok, s, it, st) \<Rightarrow>
                                   if \<not> ok then Some (False, s, l\<lparr>l_iter := it\<rparr>, st)
                                   else noinit_loop k n noinit env s (l\<lparr>l_iter := it\<rparr>) st))))"

text \<open>
  Counting the required fields by moving the iterator to the end of the array. The loop
  keeps the index and the type it saw last.
\<close>

definition count_required :: "pb_field_iter \<Rightarrow> nat" where
  "count_required it =
     (case iter_do_while
             (\<lambda>it _. Some (True, (it_required_field_index it, f_type (it_field it)))) it (0, 0) of
        Some (_, (count, last_type)) \<Rightarrow>
          unat (if PB_HTYPE last_type = PB_HTYPE_REQUIRED \<and> f_tag (field_at (it_start it) 0) \<noteq> 0
                then count + 1 else count)
      | None \<Rightarrow> 0)"

definition required_present :: "nat \<Rightarrow> u32 list \<Rightarrow> bool" where
  "required_present req fields_seen =
     (let req = min req PB_MAX_REQUIRED_FIELDS in
      req > 0 \<longrightarrow>
        list_all (\<lambda>i. fields_seen ! i = - 1) [0..<req div 32]
        \<and> (req mod 32 \<noteq> 0 \<longrightarrow> fields_seen ! (req div 32) = drop_bit (32 - req mod 32) (- 1)))"

definition noinit_start :: "pb_field list \<Rightarrow> addr \<Rightarrow> noinit_locals" where
  "noinit_start fds dest =
     \<lparr>l_iter = snd (pb_field_iter_begin fresh_iter fds dest), l_fields_seen = [0, 0],
      l_extension_range_start = 0, l_fixed_count_field = None\<rparr>"

definition noinit_finish :: "pb_istream \<Rightarrow> noinit_locals \<Rightarrow> cstate \<Rightarrow> ires" where
  "noinit_finish s l st =
     (if fixed_count_short l then (False, is_set_error ''wrong size for fixed count field'' s, st)
      else if \<not> required_present (count_required (l_iter l)) (l_fields_seen l)
      then (False, is_set_error ''missing required field'' s, st)
      else (True, s, st))"

fun pb_decode_noinit :: "nat \<Rightarrow> cenv \<Rightarrow> message_decoder" where
  "pb_decode_noinit 0 env s fds dest st = None"
| "pb_decode_noinit (Suc n) env s fds dest st =
     (case noinit_loop (fuel_for s) n (\<lambda>s fds dest st. pb_decode_noinit n env s fds dest st) env s
             (noinit_start fds dest) st of
        None \<Rightarrow> None
      | Some (ok, s, l, st) \<Rightarrow> if \<not> ok then Some (False, s, st) else Some (noinit_finish s l st))"

definition pb_decode :: "nat \<Rightarrow> cenv \<Rightarrow> message_decoder" where
  "pb_decode n env s fds dest st = pb_decode_with n (pb_decode_noinit n env) env s fds dest st"

definition pb_decode_delimited_noinit :: "nat \<Rightarrow> cenv \<Rightarrow> message_decoder" where
  "pb_decode_delimited_noinit n env s fds dest st =
     with_substream env s (\<lambda>sub st. pb_decode_noinit n env sub fds dest st) st"

definition pb_decode_delimited :: "nat \<Rightarrow> cenv \<Rightarrow> message_decoder" where
  "pb_decode_delimited n env s fds dest st =
     with_substream env s (\<lambda>sub st. pb_decode n env sub fds dest st) st"

definition pb_decode_nullterminated :: "nat \<Rightarrow> cenv \<Rightarrow> message_decoder" where
  "pb_decode_nullterminated n env s fds dest st = pb_decode n env s fds dest st"

end
