(* ===== verification/Varint.thy ===== *)
theory Varint
  imports Pb_Prelude
begin

text \<open>
  The base-128 encoding of natural numbers, least significant digit first, with the top bit
  of every byte but the last set: the reference that the encoders and decoders of nanopb and
  of LevelDB are compared with. The contract of a self-delimiting code is the locale
  \<open>prefix_codec\<close>; what follows from it (injectivity, unique parsing, sequences) is
  proved once here.
\<close>

section \<open>Self-delimiting codes\<close>

locale prefix_codec =
  fixes enc :: "'a \<Rightarrow> byte list"
    and dec :: "byte list \<Rightarrow> ('a \<times> byte list) option"
    and valid :: "'a \<Rightarrow> bool"
  assumes dec_enc: "valid x \<Longrightarrow> dec (enc x @ rest) = Some (x, rest)"
begin

lemma enc_parse_unique:
  assumes "valid x" and "valid y" and "enc x @ r = enc y @ s"
  shows "x = y \<and> r = s"
  using dec_enc [OF assms(1), of r] dec_enc [OF assms(2), of s]
  unfolding assms(3) by simp

lemma enc_inj: "valid x \<Longrightarrow> valid y \<Longrightarrow> enc x = enc y \<Longrightarrow> x = y"
  using enc_parse_unique [of x y "[]" "[]"] by simp

fun dec_list :: "nat \<Rightarrow> byte list \<Rightarrow> ('a list \<times> byte list) option" where
  "dec_list 0 bs = Some ([], bs)"
| "dec_list (Suc n) bs =
     (case dec bs of None \<Rightarrow> None
      | Some (x, r) \<Rightarrow> (case dec_list n r of None \<Rightarrow> None | Some (xs, s) \<Rightarrow> Some (x # xs, s)))"

lemma dec_list_enc:
  "list_all valid xs \<Longrightarrow> dec_list (length xs) (concat (map enc xs) @ rest) = Some (xs, rest)"
  by (induction xs) (auto simp: dec_enc)

end

section \<open>The varint code\<close>

fun varint_bytes :: "nat \<Rightarrow> byte list" where
  "varint_bytes n =
     (if n < 128 then [word_of_nat n]
      else word_of_nat (n mod 128 + 128) # varint_bytes (n div 128))"

declare varint_bytes.simps [simp del]

fun varint_read :: "byte list \<Rightarrow> (nat \<times> byte list) option" where
  "varint_read [] = None"
| "varint_read (b # bs) =
     (if unat b < 128 then Some (unat b, bs)
      else case varint_read bs of
             None \<Rightarrow> None
           | Some (v, r) \<Rightarrow> Some (unat b - 128 + 128 * v, r))"

lemma varint_bytes_small [varint_simps]: "n < 128 \<Longrightarrow> varint_bytes n = [word_of_nat n]"
  by (simp add: varint_bytes.simps)

lemma varint_bytes_large [varint_simps]:
  "128 \<le> n \<Longrightarrow> varint_bytes n = word_of_nat (n mod 128 + 128) # varint_bytes (n div 128)"
  by (subst varint_bytes.simps) simp

lemma varint_bytes_nonempty [simp]: "varint_bytes n \<noteq> []"
  by (subst varint_bytes.simps) simp

lemma unat_varint_digit [varint_simps]:
  "unat (word_of_nat (n mod 128 + 128) :: byte) = n mod 128 + 128"
  by (simp add: unat_byte_of_nat del: of_nat_add)

lemma varint_read_bytes: "varint_read (varint_bytes n @ rest) = Some (n, rest)"
proof (induction n rule: varint_bytes.induct)
  case (1 n)
  show ?case
  proof (cases "n < 128")
    case True
    then show ?thesis by (simp add: varint_bytes_small unat_byte_of_nat)
  next
    case False
    with 1 show ?thesis
      by (simp add: varint_bytes_large unat_varint_digit del: of_nat_add)
  qed
qed

interpretation varint: prefix_codec varint_bytes varint_read "\<lambda>_. True"
  by unfold_locales (rule varint_read_bytes)

lemma length_varint_bytes_le: "0 < k \<Longrightarrow> n < 128 ^ k \<Longrightarrow> length (varint_bytes n) \<le> k"
proof (induction n arbitrary: k rule: varint_bytes.induct)
  case (1 n)
  show ?case
  proof (cases "n < 128")
    case True
    with 1 show ?thesis by (simp add: varint_bytes_small)
  next
    case False
    obtain j where k: "k = Suc j" using 1(2) by (cases k) auto
    have "0 < j" using False 1(3) k by (cases j) auto
    moreover have "n div 128 < 128 ^ j" using k 1(3) by (simp add: less_mult_imp_div_less mult.commute)
    ultimately show ?thesis using 1(1) [OF False \<open>0 < j\<close>] False k by (simp add: varint_bytes_large)
  qed
qed

lemma length_varint_bytes_ge: "128 ^ k \<le> n \<Longrightarrow> k < length (varint_bytes n)"
proof (induction k arbitrary: n)
  case 0
  then show ?case by simp
next
  case (Suc k)
  then have "128 ^ k \<le> n div 128" by (simp add: less_eq_div_iff_mult_less_eq)
  moreover have "128 \<le> n" using Suc.prems order_trans [of 128 "128 ^ Suc k" n] by simp
  ultimately show ?case using Suc.IH by (simp add: varint_bytes_large)
qed

section \<open>Digits of machine words\<close>

text \<open>The digit the encoders write: seven bits of the value and the continuation bit.\<close>

lemma nat_and_127: "(n :: nat) AND 127 = n mod 128"
  using take_bit_eq_mask [of 7 n] by (simp add: take_bit_eq_mod mask_eq_exp_minus_1)

lemma nat_digit_or_128: "(n AND 127) OR 128 = n mod 128 + (128 :: nat)"
proof -
  have "take_bit 7 n + 128 = take_bit 7 n OR (128 :: nat)"
    by (rule disjunctive_add) (auto simp: bit_take_bit_iff bit_exp_iff [of 7, simplified])
  then show ?thesis by (simp add: nat_and_127 take_bit_eq_mod)
qed

lemma digit_more_64: "(ucast ((v AND 0x7F) OR 0x80) :: byte) = word_of_nat (unat (v :: u64) mod 128 + 128)"
  by (rule unat_eqI)
     (simp add: unsigned_ucast_eq unsigned_or_eq unsigned_and_eq nat_digit_or_128
        unat_varint_digit take_bit_eq_mod mod_mod_cancel del: of_nat_add)

lemma digit_more_32: "(ucast ((v AND 0x7F) OR 0x80) :: byte) = word_of_nat (unat (v :: u32) mod 128 + 128)"
  by (rule unat_eqI)
     (simp add: unsigned_ucast_eq unsigned_or_eq unsigned_and_eq nat_digit_or_128
        unat_varint_digit take_bit_eq_mod mod_mod_cancel del: of_nat_add)

lemma digit_clear: "(word_of_nat (n mod 128 + 128) :: byte) AND 0x7F = word_of_nat (n mod 128)"
  by (rule unat_eqI)
     (simp add: unsigned_and_eq nat_and_127 unat_varint_digit unat_byte_of_nat del: of_nat_add)

section \<open>Adding digits\<close>

lemma or_shift_add:
  fixes r :: "'a::len word"
  assumes "unat r < 2 ^ k"
  shows "r OR push_bit k (word_of_nat d) = word_of_nat (unat r + d * 2 ^ k)"
proof -
  have "unat (take_bit k r) = unat r"
    using assms by (simp add: unsigned_take_bit_eq take_bit_nat_eq_self)
  then have r: "take_bit k r = r" by (rule unat_eqI)
  have "r OR push_bit k (word_of_nat d) = r + push_bit k (word_of_nat d)"
    by (rule disjunctive_add [symmetric])
       (metis bit_push_bit_iff bit_take_bit_iff leD r)
  also have "\<dots> = word_of_nat (unat r + d * 2 ^ k)"
    by (simp add: push_bit_eq_mult)
  finally show ?thesis .
qed

lemma byte_more: "b AND 0x80 = 0 \<longleftrightarrow> unat (b :: byte) < 128"
proof -
  have lt: "unat b < 256" using unat_lt2p [of b] by simp
  have "b AND 0x80 = 0 \<longleftrightarrow> unat b AND 2 ^ 7 = 0"
    by (simp add: unat_eq_0 [symmetric] unsigned_and_eq)
  also have "\<dots> \<longleftrightarrow> even (unat b div 128)"
    by (simp only: and_exp_eq_0_iff_not_bit bit_iff_odd) simp
  also have "\<dots> \<longleftrightarrow> unat b < 128"
  proof (cases "unat b < 128")
    case False
    then have "unat b div 128 = 1" using lt by simp
    then show ?thesis using False by simp
  qed simp
  finally show ?thesis .
qed

lemma byte_digit: "(ucast (b AND 0x7F) :: 'a::len word) = word_of_nat (unat (b :: byte) mod 128)"
proof -
  have "unat (b AND 0x7F) = unat b mod 128"
    by (simp add: unsigned_and_eq nat_and_127)
  then show ?thesis by (metis of_nat_unat)
qed

lemma varint_step_value:
  "(r + n mod 128 * 2 ^ (7 * i)) + n div 128 * 2 ^ (7 * Suc i) = r + n * (2 :: nat) ^ (7 * i)"
proof -
  have p: "(2 :: nat) ^ (7 * Suc i) = 128 * 2 ^ (7 * i)" by (simp add: power_add)
  have "n mod 128 * 2 ^ (7 * i) + n div 128 * 2 ^ (7 * Suc i) = (n mod 128 + 128 * (n div 128)) * (2 :: nat) ^ (7 * i)"
    unfolding p add_mult_distrib by (simp only: ac_simps)
  also have "\<dots> = n * 2 ^ (7 * i)" by (simp only: mod_mult_div_eq)
  finally show ?thesis by simp
qed

lemma varint_step_bound:
  assumes "r < (2 :: nat) ^ (7 * i)"
  shows "r + n mod 128 * 2 ^ (7 * i) < 2 ^ (7 * Suc i)"
proof -
  have "r + n mod 128 * 2 ^ (7 * i) < (n mod 128 + 1) * 2 ^ (7 * i)" using assms by simp
  also have "\<dots> \<le> 128 * 2 ^ (7 * i)" by (intro mult_le_mono1) simp
  finally show ?thesis by (simp add: power_add)
qed

end
