(* ===== verification/Pb_Encode.thy ===== *)
theory Pb_Encode
  imports Pb_Common Varint
begin

text \<open>
  \<^verbatim>\<open>nanopb/pb_encode.c\<close>: output streams, the wire-format primitives, the field encoders
  and the message encoder. A source pointer is an address of program memory; the bytes a
  caller hands to \<^verbatim>\<open>pb_write\<close> are given as a list (the null pointer is the empty one).

  The encoder recurses over the nesting of the message type and over chains of extensions,
  both of which live in data the library does not control, so \<open>pb_encode\<close> takes a budget;
  \<open>None\<close> is the result of a run that does not return within it, or that calls through a
  null function pointer.
\<close>

section \<open>Output streams\<close>

text \<open>\<^verbatim>\<open>if (!f(...)) return false;\<close> followed by the rest of the function.\<close>

definition and_then :: "ores \<Rightarrow> (pb_ostream \<Rightarrow> cstate \<Rightarrow> ores) \<Rightarrow> ores" where
  "and_then r k = (case r of (ok, os, st) \<Rightarrow> if ok then k os st else (False, os, st))"

definition and_then_opt ::
    "ores option \<Rightarrow> (pb_ostream \<Rightarrow> cstate \<Rightarrow> ores option) \<Rightarrow> ores option" where
  "and_then_opt r k =
     (case r of None \<Rightarrow> None
      | Some (ok, os, st) \<Rightarrow> if ok then k os st else Some (False, os, st))"

definition buf_write :: "pb_ostream \<Rightarrow> byte list \<Rightarrow> u64 \<Rightarrow> cstate \<Rightarrow> ores" where
  "buf_write os buf count st =
     (True, os\<lparr>os_state := os_state os + uint count\<rparr>,
      st\<lparr>obuf := store_bytes (obuf st) (os_state os) (take (unat count) buf)\<rparr>)"

definition pb_ostream_from_buffer :: "addr \<Rightarrow> u64 \<Rightarrow> pb_ostream" where
  "pb_ostream_from_buffer buf bufsize =
     \<lparr>os_callback = Some buf_write_cb, os_state = buf, max_size = bufsize, bytes_written = 0,
      os_errmsg = None\<rparr>"

definition call_write ::
    "cenv \<Rightarrow> ocallback \<Rightarrow> pb_ostream \<Rightarrow> byte list \<Rightarrow> u64 \<Rightarrow> cstate \<Rightarrow> ores" where
  "call_write env cb os buf count st =
     (case cb of
        buf_write_cb \<Rightarrow> buf_write os buf count st
      | user_write_cb k \<Rightarrow> e_write env k os (take (unat count) buf) st)"

definition pb_write :: "cenv \<Rightarrow> pb_ostream \<Rightarrow> byte list \<Rightarrow> u64 \<Rightarrow> cstate \<Rightarrow> ores" where
  "pb_write env os buf count st =
     (case os_callback os of
        None \<Rightarrow> (True, os\<lparr>bytes_written := bytes_written os + count\<rparr>, st)
      | Some cb \<Rightarrow>
          if bytes_written os + count > max_size os
          then (False, os_set_error ''stream full'' os, st)
          else (case call_write env cb os buf count st of (ok, os', st') \<Rightarrow>
                  if \<not> ok then (False, os_set_error ''io error'' os', st')
                  else (True, os'\<lparr>bytes_written := bytes_written os' + count\<rparr>, st')))"

section \<open>Wire-format primitives\<close>

function pb_encode_varint_loop :: "u64 \<Rightarrow> byte list \<Rightarrow> byte list" where
  "pb_encode_varint_loop value buffer =
     (if value = 0 then buffer
      else pb_encode_varint_loop (drop_bit 7 value)
             (buffer @ [ucast ((value AND 0x7F) OR 0x80)]))"
  by pat_completeness auto
termination
  by (relation "measure (\<lambda>(v, b). unat v)") (use drop_bit_7_less in auto)

declare pb_encode_varint_loop.simps [simp del]

text \<open>\<^verbatim>\<open>buffer[i-1] &= 0x7F\<close>\<close>

definition clear_top_of_last :: "byte list \<Rightarrow> byte list" where
  "clear_top_of_last buffer =
     buffer[length buffer - 1 := (buffer ! (length buffer - 1)) AND 0x7F]"

definition pb_encode_varint :: "cenv \<Rightarrow> pb_ostream \<Rightarrow> u64 \<Rightarrow> cstate \<Rightarrow> ores" where
  "pb_encode_varint env os value st =
     (if value \<le> 0x7F then pb_write env os [ucast value] 1 st
      else let buffer = clear_top_of_last (pb_encode_varint_loop value [])
           in pb_write env os buffer (word_of_nat (length buffer)) st)"

definition zigzag :: "u64 \<Rightarrow> u64" where
  "zigzag value = (if sint value < 0 then NOT (push_bit 1 value) else push_bit 1 value)"

definition pb_encode_svarint :: "cenv \<Rightarrow> pb_ostream \<Rightarrow> u64 \<Rightarrow> cstate \<Rightarrow> ores" where
  "pb_encode_svarint env os value st = pb_encode_varint env os (zigzag value) st"

definition fixed32_bytes :: "u32 \<Rightarrow> byte list" where
  "fixed32_bytes val =
     [ucast (val AND 0xFF), ucast (drop_bit 8 val AND 0xFF),
      ucast (drop_bit 16 val AND 0xFF), ucast (drop_bit 24 val AND 0xFF)]"

definition pb_encode_fixed32 :: "cenv \<Rightarrow> pb_ostream \<Rightarrow> addr \<Rightarrow> cstate \<Rightarrow> ores" where
  "pb_encode_fixed32 env os value st =
     pb_write env os (fixed32_bytes (load32 (mem st) value)) 4 st"

definition fixed64_bytes :: "u64 \<Rightarrow> byte list" where
  "fixed64_bytes val =
     [ucast (val AND 0xFF), ucast (drop_bit 8 val AND 0xFF),
      ucast (drop_bit 16 val AND 0xFF), ucast (drop_bit 24 val AND 0xFF),
      ucast (drop_bit 32 val AND 0xFF), ucast (drop_bit 40 val AND 0xFF),
      ucast (drop_bit 48 val AND 0xFF), ucast (drop_bit 56 val AND 0xFF)]"

definition pb_encode_fixed64 :: "cenv \<Rightarrow> pb_ostream \<Rightarrow> addr \<Rightarrow> cstate \<Rightarrow> ores" where
  "pb_encode_fixed64 env os value st =
     pb_write env os (fixed64_bytes (load64 (mem st) value)) 8 st"

definition tag_word :: "pb_wire_type_t \<Rightarrow> u32 \<Rightarrow> u64" where
  "tag_word wiretype field_number = push_bit 3 (ucast field_number) OR ucast wiretype"

definition pb_encode_tag ::
    "cenv \<Rightarrow> pb_ostream \<Rightarrow> pb_wire_type_t \<Rightarrow> u32 \<Rightarrow> cstate \<Rightarrow> ores" where
  "pb_encode_tag env os wiretype field_number st =
     pb_encode_varint env os (tag_word wiretype field_number) st"

definition wire_type_of :: "pb_type_t \<Rightarrow> pb_wire_type_t option" where
  "wire_type_of lt =
     (if lt = PB_LTYPE_VARINT \<or> lt = PB_LTYPE_UVARINT \<or> lt = PB_LTYPE_SVARINT then Some PB_WT_VARINT
      else if lt = PB_LTYPE_FIXED32 then Some PB_WT_32BIT
      else if lt = PB_LTYPE_FIXED64 then Some PB_WT_64BIT
      else if lt = PB_LTYPE_BYTES \<or> lt = PB_LTYPE_STRING \<or> lt = PB_LTYPE_SUBMESSAGE
              \<or> lt = PB_LTYPE_FIXED_LENGTH_BYTES then Some PB_WT_STRING
      else None)"

definition pb_encode_tag_for_field ::
    "cenv \<Rightarrow> pb_ostream \<Rightarrow> pb_field \<Rightarrow> cstate \<Rightarrow> ores" where
  "pb_encode_tag_for_field env os fld st =
     (case wire_type_of (PB_LTYPE (f_type fld)) of
        Some wiretype \<Rightarrow> pb_encode_tag env os wiretype (f_tag fld) st
      | None \<Rightarrow> (False, os_set_error ''invalid field type'' os, st))"

definition pb_encode_string ::
    "cenv \<Rightarrow> pb_ostream \<Rightarrow> byte list \<Rightarrow> u64 \<Rightarrow> cstate \<Rightarrow> ores" where
  "pb_encode_string env os buffer sz st =
     and_then (pb_encode_varint env os sz st) (\<lambda>os st. pb_write env os buffer sz st)"

section \<open>Field encoders\<close>

definition pb_enc_varint :: "cenv \<Rightarrow> pb_ostream \<Rightarrow> pb_field \<Rightarrow> addr \<Rightarrow> cstate \<Rightarrow> ores" where
  "pb_enc_varint env os fld src st =
     (if f_data_size fld = 1 then pb_encode_varint env os (scast (load8 (mem st) src)) st
      else if f_data_size fld = 2 then pb_encode_varint env os (scast (load16 (mem st) src)) st
      else if f_data_size fld = 4 then pb_encode_varint env os (scast (load32 (mem st) src)) st
      else if f_data_size fld = 8 then pb_encode_varint env os (load64 (mem st) src) st
      else (False, os_set_error ''invalid data_size'' os, st))"

definition pb_enc_uvarint :: "cenv \<Rightarrow> pb_ostream \<Rightarrow> pb_field \<Rightarrow> addr \<Rightarrow> cstate \<Rightarrow> ores" where
  "pb_enc_uvarint env os fld src st =
     (if f_data_size fld = 1 then pb_encode_varint env os (ucast (load8 (mem st) src)) st
      else if f_data_size fld = 2 then pb_encode_varint env os (ucast (load16 (mem st) src)) st
      else if f_data_size fld = 4 then pb_encode_varint env os (ucast (load32 (mem st) src)) st
      else if f_data_size fld = 8 then pb_encode_varint env os (load64 (mem st) src) st
      else (False, os_set_error ''invalid data_size'' os, st))"

definition pb_enc_svarint :: "cenv \<Rightarrow> pb_ostream \<Rightarrow> pb_field \<Rightarrow> addr \<Rightarrow> cstate \<Rightarrow> ores" where
  "pb_enc_svarint env os fld src st =
     (if f_data_size fld = 1 then pb_encode_svarint env os (scast (load8 (mem st) src)) st
      else if f_data_size fld = 2 then pb_encode_svarint env os (scast (load16 (mem st) src)) st
      else if f_data_size fld = 4 then pb_encode_svarint env os (scast (load32 (mem st) src)) st
      else if f_data_size fld = 8 then pb_encode_svarint env os (load64 (mem st) src) st
      else (False, os_set_error ''invalid data_size'' os, st))"

definition pb_enc_fixed32 :: "cenv \<Rightarrow> pb_ostream \<Rightarrow> pb_field \<Rightarrow> addr \<Rightarrow> cstate \<Rightarrow> ores" where
  "pb_enc_fixed32 env os fld src st = pb_encode_fixed32 env os src st"

definition pb_enc_fixed64 :: "cenv \<Rightarrow> pb_ostream \<Rightarrow> pb_field \<Rightarrow> addr \<Rightarrow> cstate \<Rightarrow> ores" where
  "pb_enc_fixed64 env os fld src st = pb_encode_fixed64 env os src st"

definition pb_enc_bytes :: "cenv \<Rightarrow> pb_ostream \<Rightarrow> pb_field \<Rightarrow> addr \<Rightarrow> cstate \<Rightarrow> ores" where
  "pb_enc_bytes env os fld src st =
     (if src = 0 then pb_encode_string env os [] 0 st
      else let size = bytes_array_size (mem st) src in
        if PB_ATYPE (f_type fld) = PB_ATYPE_STATIC
           \<and> PB_BYTES_ARRAY_T_ALLOCSIZE size > ucast (f_data_size fld)
        then (False, os_set_error ''bytes size exceeded'' os, st)
        else pb_encode_string env os
               (load_bytes (mem st) (bytes_array_bytes src) (unat size)) (ucast size) st)"

text \<open>The hand-written \<^verbatim>\<open>strnlen\<close>.\<close>

fun strnlen :: "memory \<Rightarrow> addr \<Rightarrow> nat \<Rightarrow> nat" where
  "strnlen m p 0 = 0"
| "strnlen m p (Suc k) = (if m p = 0 then 0 else Suc (strnlen m (p + 1) k))"

definition pb_enc_string :: "cenv \<Rightarrow> pb_ostream \<Rightarrow> pb_field \<Rightarrow> addr \<Rightarrow> cstate \<Rightarrow> ores" where
  "pb_enc_string env os fld src st =
     (let max_size = (if PB_ATYPE (f_type fld) = PB_ATYPE_POINTER then 2 ^ 64 - 1
                      else unat (f_data_size fld));
          size = (if src = 0 then 0 else strnlen (mem st) src max_size)
      in pb_encode_string env os (load_bytes (mem st) src size) (word_of_nat size) st)"

definition pb_enc_fixed_length_bytes ::
    "cenv \<Rightarrow> pb_ostream \<Rightarrow> pb_field \<Rightarrow> addr \<Rightarrow> cstate \<Rightarrow> ores" where
  "pb_enc_fixed_length_bytes env os fld src st =
     pb_encode_string env os (load_bytes (mem st) src (unat (f_data_size fld)))
       (ucast (f_data_size fld)) st"

text \<open>
  Submessages: a first pass over a sizing stream, then the length, then the message itself
  through a substream that is limited to that length. \<open>enc\<close> is \<^verbatim>\<open>pb_encode\<close>.
\<close>

type_synonym message_encoder =
  "pb_ostream \<Rightarrow> pb_field list \<Rightarrow> addr \<Rightarrow> cstate \<Rightarrow> ores option"

definition pb_encode_submessage ::
    "message_encoder \<Rightarrow> cenv \<Rightarrow> pb_ostream \<Rightarrow> pb_field list \<Rightarrow> addr \<Rightarrow> cstate \<Rightarrow> ores option" where
  "pb_encode_submessage enc env os fds src st =
     (case enc PB_OSTREAM_SIZING fds src st of
        None \<Rightarrow> None
      | Some (ok, sub, st) \<Rightarrow>
          if \<not> ok then Some (False, os\<lparr>os_errmsg := os_errmsg sub\<rparr>, st)
          else let size = bytes_written sub in
            and_then_opt (Some (pb_encode_varint env os size st)) (\<lambda>os st.
              if os_callback os = None then Some (pb_write env os [] size st)
              else if bytes_written os + size > max_size os
              then Some (False, os_set_error ''stream full'' os, st)
              else
                (case enc (sub\<lparr>os_callback := os_callback os, os_state := os_state os,
                              max_size := size, bytes_written := 0, os_errmsg := None\<rparr>)
                        fds src st of
                   None \<Rightarrow> None
                 | Some (status, sub, st) \<Rightarrow>
                     let os = os\<lparr>bytes_written := bytes_written os + bytes_written sub,
                                 os_state := os_state sub, os_errmsg := os_errmsg sub\<rparr>
                     in if bytes_written sub \<noteq> size
                        then Some (False, os_set_error ''submsg size changed'' os, st)
                        else Some (status, os, st))))"

definition pb_enc_submessage ::
    "message_encoder \<Rightarrow> cenv \<Rightarrow> pb_ostream \<Rightarrow> pb_field \<Rightarrow> addr \<Rightarrow> cstate \<Rightarrow> ores option" where
  "pb_enc_submessage enc env os fld src st =
     (if f_ptr fld = 0 then Some (False, os_set_error ''invalid field descriptor'' os, st)
      else pb_encode_submessage enc env os (e_fields env (f_ptr fld)) src st)"

text \<open>\<^verbatim>\<open>PB_ENCODERS\<close>: no encoder for extensions, and none past the end of the table.\<close>

definition PB_ENCODERS ::
    "message_encoder \<Rightarrow> cenv \<Rightarrow> pb_type_t
     \<Rightarrow> (pb_ostream \<Rightarrow> pb_field \<Rightarrow> addr \<Rightarrow> cstate \<Rightarrow> ores option)" where
  "PB_ENCODERS enc env lt = (\<lambda>os fld src st.
     if lt = PB_LTYPE_VARINT then Some (pb_enc_varint env os fld src st)
     else if lt = PB_LTYPE_UVARINT then Some (pb_enc_uvarint env os fld src st)
     else if lt = PB_LTYPE_SVARINT then Some (pb_enc_svarint env os fld src st)
     else if lt = PB_LTYPE_FIXED32 then Some (pb_enc_fixed32 env os fld src st)
     else if lt = PB_LTYPE_FIXED64 then Some (pb_enc_fixed64 env os fld src st)
     else if lt = PB_LTYPE_BYTES then Some (pb_enc_bytes env os fld src st)
     else if lt = PB_LTYPE_STRING then Some (pb_enc_string env os fld src st)
     else if lt = PB_LTYPE_SUBMESSAGE then pb_enc_submessage enc env os fld src st
     else if lt = PB_LTYPE_FIXED_LENGTH_BYTES
     then Some (pb_enc_fixed_length_bytes env os fld src st)
     else None)"

section \<open>Arrays\<close>

type_synonym field_encoder = "pb_ostream \<Rightarrow> pb_field \<Rightarrow> addr \<Rightarrow> cstate \<Rightarrow> ores option"

text \<open>The loop over the items of a packed array, for the sizing and the writing pass.\<close>

fun encode_packed_loop ::
    "field_encoder \<Rightarrow> pb_field \<Rightarrow> nat \<Rightarrow> addr \<Rightarrow> pb_ostream \<Rightarrow> cstate \<Rightarrow> ores option" where
  "encode_packed_loop func fld 0 p os st = Some (True, os, st)"
| "encode_packed_loop func fld (Suc n) p os st =
     and_then_opt (func os fld p st)
       (\<lambda>os st. encode_packed_loop func fld n (p + uint (f_data_size fld)) os st)"

text \<open>
  The loop over the items of an array that cannot be packed; the entries of pointer-type
  string and bytes arrays are pointers themselves.
\<close>

definition array_item :: "pb_field \<Rightarrow> memory \<Rightarrow> addr \<Rightarrow> addr" where
  "array_item fld m p =
     (if PB_ATYPE (f_type fld) = PB_ATYPE_POINTER
         \<and> (PB_LTYPE (f_type fld) = PB_LTYPE_STRING \<or> PB_LTYPE (f_type fld) = PB_LTYPE_BYTES)
      then load_ptr m p else p)"

fun encode_unpacked_loop ::
    "cenv \<Rightarrow> field_encoder \<Rightarrow> pb_field \<Rightarrow> nat \<Rightarrow> addr \<Rightarrow> pb_ostream \<Rightarrow> cstate \<Rightarrow> ores option" where
  "encode_unpacked_loop env func fld 0 p os st = Some (True, os, st)"
| "encode_unpacked_loop env func fld (Suc n) p os st =
     and_then_opt (Some (pb_encode_tag_for_field env os fld st)) (\<lambda>os st.
       and_then_opt (func os fld (array_item fld (mem st) p) st)
         (\<lambda>os st. encode_unpacked_loop env func fld n (p + uint (f_data_size fld)) os st))"

definition packed_size ::
    "field_encoder \<Rightarrow> pb_field \<Rightarrow> u64 \<Rightarrow> addr \<Rightarrow> cstate \<Rightarrow> (bool \<times> u64 \<times> cstate) option" where
  "packed_size func fld count pData st =
     (if PB_LTYPE (f_type fld) = PB_LTYPE_FIXED32 then Some (True, 4 * count, st)
      else if PB_LTYPE (f_type fld) = PB_LTYPE_FIXED64 then Some (True, 8 * count, st)
      else case encode_packed_loop func fld (unat count) pData PB_OSTREAM_SIZING st of
             None \<Rightarrow> None
           | Some (ok, sizestream, st) \<Rightarrow> Some (ok, bytes_written sizestream, st))"

definition encode_array ::
    "cenv \<Rightarrow> pb_ostream \<Rightarrow> pb_field \<Rightarrow> addr \<Rightarrow> u64 \<Rightarrow> field_encoder \<Rightarrow> cstate \<Rightarrow> ores option" where
  "encode_array env os fld pData count func st =
     (if count = 0 then Some (True, os, st)
      else if PB_ATYPE (f_type fld) \<noteq> PB_ATYPE_POINTER \<and> count > ucast (f_array_size fld)
      then Some (False, os_set_error ''array max size exceeded'' os, st)
      else if PB_LTYPE (f_type fld) \<le> PB_LTYPE_LAST_PACKABLE
      then and_then_opt (Some (pb_encode_tag env os PB_WT_STRING (f_tag fld) st)) (\<lambda>os st.
             case packed_size func fld count pData st of
               None \<Rightarrow> None
             | Some (ok, sz, st) \<Rightarrow>
                 if \<not> ok then Some (False, os, st)
                 else and_then_opt (Some (pb_encode_varint env os sz st)) (\<lambda>os st.
                        if os_callback os = None then Some (pb_write env os [] sz st)
                        else encode_packed_loop func fld (unat count) pData os st))
      else encode_unpacked_loop env func fld (unat count) pData os st)"

section \<open>Presence of proto3 fields\<close>

definition all_zero :: "memory \<Rightarrow> addr \<Rightarrow> nat \<Rightarrow> bool" where
  "all_zero m p n = list_all (\<lambda>b. b = 0) (load_bytes m p n)"

fun pb_check_proto3_default_value ::
    "nat \<Rightarrow> cenv \<Rightarrow> memory \<Rightarrow> pb_field \<Rightarrow> addr \<Rightarrow> bool option" where
  "pb_check_proto3_default_value 0 env m fld pData = None"
| "pb_check_proto3_default_value (Suc n) env m fld pData =
     (let type = f_type fld; pSize = pData + sint (f_size_offset fld) in
      if PB_HTYPE type = PB_HTYPE_REQUIRED then Some False
      else if PB_HTYPE type = PB_HTYPE_REPEATED then Some (load32 m pSize = 0)
      else if PB_HTYPE type = PB_HTYPE_ONEOF then Some (load32 m pSize = 0)
      else if PB_HTYPE type = PB_HTYPE_OPTIONAL \<and> f_size_offset fld \<noteq> 0
      then Some (\<not> load_bool m pSize)
      else if PB_ATYPE type = PB_ATYPE_STATIC \<and> PB_LTYPE type = PB_LTYPE_BYTES
      then Some (bytes_array_size m pData = 0)
      else if PB_ATYPE type = PB_ATYPE_STATIC \<and> PB_LTYPE type = PB_LTYPE_STRING
      then Some (m pData = 0)
      else if PB_ATYPE type = PB_ATYPE_STATIC \<and> PB_LTYPE type = PB_LTYPE_FIXED_LENGTH_BYTES
      then Some (f_data_size fld = 0)
      else if PB_ATYPE type = PB_ATYPE_STATIC \<and> PB_LTYPE type = PB_LTYPE_SUBMESSAGE
      then (case pb_field_iter_begin fresh_iter (e_fields env (f_ptr fld)) pData of
              (nonempty, iter) \<Rightarrow>
                if \<not> nonempty then Some True
                else map_option fst
                  (iter_do_while
                    (\<lambda>it (s :: unit). map_option (\<lambda>b. (b, s))
                       (pb_check_proto3_default_value n env m (it_field it) (it_pData it)))
                    iter ()))
      else Some (all_zero m pData (unat (f_data_size fld))))"

section \<open>Fields\<close>

text \<open>
  \<^verbatim>\<open>encode_basic_field\<close>. The presence flag is read from the message when the field has a
  size offset and from the local \<^verbatim>\<open>implicit_has\<close> otherwise; the count of a oneof without a
  size offset would be read from a one-byte local, which has no meaning.
\<close>

definition encode_basic_field ::
    "nat \<Rightarrow> message_encoder \<Rightarrow> cenv \<Rightarrow> pb_ostream \<Rightarrow> pb_field \<Rightarrow> addr \<Rightarrow> cstate \<Rightarrow> ores option" where
  "encode_basic_field n enc env os fld pData0 st =
     (let func = PB_ENCODERS enc env (PB_LTYPE (f_type fld));
          pSize = pData0 + sint (f_size_offset fld);
          pointer = (PB_ATYPE (f_type fld) = PB_ATYPE_POINTER);
          pData = (if pointer then load_ptr (mem st) pData0 else pData0);
          put = (\<lambda>os st. and_then_opt (Some (pb_encode_tag_for_field env os fld st))
                           (\<lambda>os st. func os fld pData st))
      in case (if f_size_offset fld \<noteq> 0 then Some False
               else if PB_HTYPE (f_type fld) = PB_HTYPE_OPTIONAL
               then map_option Not (pb_check_proto3_default_value n env (mem st) fld pData0)
               else Some True) of
           None \<Rightarrow> None
         | Some has0 \<Rightarrow>
             let implicit_has = (if pointer then pData \<noteq> 0 else has0) in
             if PB_HTYPE (f_type fld) = PB_HTYPE_REQUIRED
             then (if pData = 0 then Some (False, os_set_error ''missing required field'' os, st)
                   else put os st)
             else if PB_HTYPE (f_type fld) = PB_HTYPE_OPTIONAL
             then (if (if f_size_offset fld \<noteq> 0 then load_bool (mem st) pSize else implicit_has)
                   then put os st else Some (True, os, st))
             else if PB_HTYPE (f_type fld) = PB_HTYPE_REPEATED
             then encode_array env os fld pData
                    (if f_size_offset fld \<noteq> 0 then ucast (load32 (mem st) pSize)
                     else ucast (f_array_size fld)) func st
             else if PB_HTYPE (f_type fld) = PB_HTYPE_ONEOF
             then (if f_size_offset fld = 0 then None
                   else if load32 (mem st) pSize = f_tag fld then put os st
                   else Some (True, os, st))
             else Some (False, os_set_error ''invalid field type'' os, st))"

definition encode_callback_field ::
    "cenv \<Rightarrow> pb_ostream \<Rightarrow> pb_field \<Rightarrow> addr \<Rightarrow> cstate \<Rightarrow> ores" where
  "encode_callback_field env os fld pData st =
     (if callback_func (mem st) pData \<noteq> 0
      then (case e_encode env (callback_func (mem st) pData) os fld (callback_arg pData) st of
              (ok, os, st) \<Rightarrow>
                if ok then (True, os, st) else (False, os_set_error ''callback error'' os, st))
      else (True, os, st))"

definition encode_field ::
    "nat \<Rightarrow> message_encoder \<Rightarrow> cenv \<Rightarrow> pb_ostream \<Rightarrow> pb_field \<Rightarrow> addr \<Rightarrow> cstate \<Rightarrow> ores option" where
  "encode_field n enc env os fld pData st =
     (if PB_ATYPE (f_type fld) = PB_ATYPE_STATIC \<or> PB_ATYPE (f_type fld) = PB_ATYPE_POINTER
      then encode_basic_field n enc env os fld pData st
      else if PB_ATYPE (f_type fld) = PB_ATYPE_CALLBACK
      then Some (encode_callback_field env os fld pData st)
      else Some (False, os_set_error ''invalid field type'' os, st))"

definition default_extension_encoder ::
    "nat \<Rightarrow> message_encoder \<Rightarrow> cenv \<Rightarrow> pb_ostream \<Rightarrow> addr \<Rightarrow> cstate \<Rightarrow> ores option" where
  "default_extension_encoder n enc env os extension st =
     (let fld = field_at (e_fields env (exttype_arg (mem st) (ext_type (mem st) extension))) 0
      in if PB_ATYPE (f_type fld) = PB_ATYPE_POINTER
         then encode_field n enc env os fld (ext_dest_addr extension) st
         else encode_field n enc env os fld (ext_dest (mem st) extension) st)"

text \<open>The walk over a chain of extensions, with a budget since a chain may be circular.\<close>

fun encode_extension_loop ::
    "nat \<Rightarrow> nat \<Rightarrow> message_encoder \<Rightarrow> cenv \<Rightarrow> pb_ostream \<Rightarrow> addr \<Rightarrow> cstate \<Rightarrow> ores option" where
  "encode_extension_loop 0 n enc env os extension st =
     (if extension = 0 then Some (True, os, st) else None)"
| "encode_extension_loop (Suc k) n enc env os extension st =
     (if extension = 0 then Some (True, os, st)
      else and_then_opt
        (let encode = exttype_encode (mem st) (ext_type (mem st) extension) in
         if encode \<noteq> 0 then Some (e_ext_encode env encode os extension st)
         else default_extension_encoder n enc env os extension st)
        (\<lambda>os st. encode_extension_loop k n enc env os (ext_next (mem st) extension) st))"

definition encode_extension_field ::
    "nat \<Rightarrow> message_encoder \<Rightarrow> cenv \<Rightarrow> pb_ostream \<Rightarrow> pb_field \<Rightarrow> addr \<Rightarrow> cstate \<Rightarrow> ores option" where
  "encode_extension_field n enc env os fld pData st =
     encode_extension_loop n n enc env os (load_ptr (mem st) pData) st"

section \<open>Messages\<close>

definition encode_one ::
    "nat \<Rightarrow> message_encoder \<Rightarrow> cenv \<Rightarrow> pb_ostream \<Rightarrow> pb_field \<Rightarrow> addr \<Rightarrow> cstate \<Rightarrow> ores option" where
  "encode_one n enc env os fld pData st =
     (if PB_LTYPE (f_type fld) = PB_LTYPE_EXTENSION
      then encode_extension_field n enc env os fld pData st
      else encode_field n enc env os fld pData st)"

definition pb_encode_fields ::
    "nat \<Rightarrow> message_encoder \<Rightarrow> cenv \<Rightarrow> pb_ostream \<Rightarrow> pb_field list \<Rightarrow> addr \<Rightarrow> cstate \<Rightarrow> ores option" where
  "pb_encode_fields n enc env os fds src st =
     (case pb_field_iter_begin fresh_iter fds src of
        (nonempty, iter) \<Rightarrow>
          if \<not> nonempty then Some (True, os, st)
          else iter_do_while
                 (\<lambda>it (os, st). encode_one n enc env os (it_field it) (it_pData it) st)
                 iter (os, st))"

fun pb_encode :: "nat \<Rightarrow> cenv \<Rightarrow> pb_ostream \<Rightarrow> pb_field list \<Rightarrow> addr \<Rightarrow> cstate \<Rightarrow> ores option" where
  "pb_encode 0 env os fds src st = None"
| "pb_encode (Suc n) env os fds src st =
     pb_encode_fields n (\<lambda>os fds src st. pb_encode n env os fds src st) env os fds src st"

definition pb_encode_delimited ::
    "nat \<Rightarrow> cenv \<Rightarrow> pb_ostream \<Rightarrow> pb_field list \<Rightarrow> addr \<Rightarrow> cstate \<Rightarrow> ores option" where
  "pb_encode_delimited n env os fds src st =
     pb_encode_submessage (pb_encode n env) env os fds src st"

definition pb_encode_nullterminated ::
    "nat \<Rightarrow> cenv \<Rightarrow> pb_ostream \<Rightarrow> pb_field list \<Rightarrow> addr \<Rightarrow> cstate \<Rightarrow> ores option" where
  "pb_encode_nullterminated n env os fds src st =
     and_then_opt (pb_encode n env os fds src st) (\<lambda>os st. Some (pb_write env os [0] 1 st))"

definition pb_get_encoded_size ::
    "nat \<Rightarrow> cenv \<Rightarrow> pb_field list \<Rightarrow> addr \<Rightarrow> cstate \<Rightarrow> (u64 option \<times> cstate) option" where
  "pb_get_encoded_size n env fds src st =
     (case pb_encode n env PB_OSTREAM_SIZING fds src st of
        None \<Rightarrow> None
      | Some (ok, stream, st) \<Rightarrow> Some (if ok then Some (bytes_written stream) else None, st))"

end
