(* ===== verification/Pb_Encode_Wire.thy ===== *)
theory Pb_Encode_Wire
  imports Pb_Encode
begin

text \<open>
  What the primitives of \<^verbatim>\<open>pb_encode.c\<close> put on the wire, as byte sequences, and that
  their local buffers are large enough.
\<close>

section \<open>Varints\<close>

definition pb_varint_bytes :: "u64 \<Rightarrow> byte list" where
  "pb_varint_bytes value =
     (if value \<le> 0x7F then [ucast value]
      else clear_top_of_last (pb_encode_varint_loop value []))"

lemma pb_encode_varint_write:
  "pb_encode_varint env os value st =
     pb_write env os (pb_varint_bytes value) (word_of_nat (length (pb_varint_bytes value))) st"
  by (simp add: pb_encode_varint_def pb_varint_bytes_def Let_def)

lemma clear_top_of_last_append [simp]: "clear_top_of_last (xs @ [b]) = xs @ [b AND 0x7F]"
  by (simp add: clear_top_of_last_def)

lemma pb_encode_varint_loop_bytes:
  "v \<noteq> 0 \<Longrightarrow> clear_top_of_last (pb_encode_varint_loop v buffer) = buffer @ varint_bytes (unat v)"
proof (induction v buffer rule: pb_encode_varint_loop.induct)
  case (1 v buffer)
  let ?b = "ucast ((v AND 0x7F) OR 0x80) :: byte"
  have step: "pb_encode_varint_loop v buffer
      = pb_encode_varint_loop (drop_bit 7 v) (buffer @ [?b])"
    using 1(2) by (subst pb_encode_varint_loop.simps) simp
  show ?case
  proof (cases "drop_bit 7 v = 0")
    case True
    then have "unat (drop_bit 7 v) = 0" by simp
    then have small: "unat v < 128" by (simp add: unat_drop_bit div_eq_0_iff)
    have "pb_encode_varint_loop v buffer = buffer @ [?b]"
      using True by (simp add: step pb_encode_varint_loop.simps [of 0])
    moreover have "?b AND 0x7F = word_of_nat (unat v mod 128)"
      by (simp only: digit_more_64 digit_clear)
    ultimately show ?thesis
      using small by (simp only: clear_top_of_last_append varint_bytes_small mod_less)
  next
    case False
    then have "unat (drop_bit 7 v) \<noteq> 0" by (simp add: unat_eq_0)
    then have large: "128 \<le> unat v" by (simp add: unat_drop_bit div_eq_0_iff)
    show ?thesis
      using 1(1) [OF 1(2) False] large
      by (simp add: step varint_bytes_large digit_more_64 unat_drop_bit del: of_nat_add)
  qed
qed

lemma pb_varint_bytes_eq: "pb_varint_bytes v = varint_bytes (unat v)"
proof (cases "v \<le> 0x7F")
  case True
  then have small: "unat v < 128" by (simp add: word_le_nat_alt)
  have "(ucast v :: byte) = word_of_nat (unat v)"
    by (rule unat_eqI) (simp add: unsigned_ucast_eq unat_byte_of_nat take_bit_eq_mod)
  with True small show ?thesis by (simp add: pb_varint_bytes_def varint_bytes_small)
next
  case False
  then have "v \<noteq> 0" by auto
  then show ?thesis using False
    by (simp add: pb_varint_bytes_def pb_encode_varint_loop_bytes)
qed

text \<open>The local buffer has ten bytes.\<close>

lemma length_pb_varint_bytes: "length (pb_varint_bytes v) \<le> 10"
  unfolding pb_varint_bytes_eq
  by (rule length_varint_bytes_le) (use unat_lt2p [of v] in simp_all)

end
