(* ===== verification/Pb_Decode_Wire.thy ===== *)
theory Pb_Decode_Wire
  imports Pb_Decode Pb_Encode_Wire
begin

text \<open>
  The primitives of \<^verbatim>\<open>pb_decode.c\<close> on memory streams: they read back what the encoder's
  primitives write, they consume exactly that, and whatever the input they stay inside it.
\<close>

section \<open>Memory streams\<close>

definition mem_stream :: "pb_istream \<Rightarrow> bool" where
  "mem_stream s \<longleftrightarrow> is_callback s = buf_read_cb \<and> unat (bytes_left s) \<le> length (is_state s)"

text \<open>The stream begins with these bytes, all of them before its end.\<close>

definition has_input :: "pb_istream \<Rightarrow> byte list \<Rightarrow> bool" where
  "has_input s bs \<longleftrightarrow> mem_stream s \<and> length bs \<le> unat (bytes_left s)
     \<and> take (length bs) (is_state s) = bs"

definition adv_in :: "pb_istream \<Rightarrow> nat \<Rightarrow> pb_istream" where
  "adv_in s k = s\<lparr>is_state := drop k (is_state s), bytes_left := bytes_left s - word_of_nat k\<rparr>"

lemma adv_in_sel [simp]:
  "is_callback (adv_in s k) = is_callback s" "is_errmsg (adv_in s k) = is_errmsg s"
  "is_state (adv_in s k) = drop k (is_state s)"
  "bytes_left (adv_in s k) = bytes_left s - word_of_nat k"
  by (simp_all add: adv_in_def)

lemma adv_in_0 [simp]: "adv_in s 0 = s"
  by (simp add: adv_in_def)

lemma adv_in_add: "adv_in (adv_in s j) k = adv_in s (j + k)"
  by (simp add: adv_in_def add.commute algebra_simps)

lemma unat_minus_nat: "k \<le> unat (w :: u64) \<Longrightarrow> unat (w - word_of_nat k) = unat w - k"
  using unat_lt2p [of w] by (subst unat_sub) (auto simp: word_le_nat_alt unat_of_nat)

lemma unat_left_adv: "k \<le> unat (bytes_left s) \<Longrightarrow> unat (bytes_left (adv_in s k)) = unat (bytes_left s) - k"
  by (simp add: unat_minus_nat)

lemma mem_stream_adv: "mem_stream s \<Longrightarrow> k \<le> unat (bytes_left s) \<Longrightarrow> mem_stream (adv_in s k)"
  by (auto simp: mem_stream_def unat_minus_nat)

lemma has_input_adv:
  assumes "has_input s (xs @ ys)"
  shows "has_input s xs" and "has_input (adv_in s (length xs)) ys"
proof -
  have t: "take (length xs + length ys) (is_state s) = xs @ ys" and m: "mem_stream s"
    and l: "length xs + length ys \<le> unat (bytes_left s)" using assms by (auto simp: has_input_def)
  have "take (length xs) (take (length xs + length ys) (is_state s)) = xs" by (simp only: t) simp
  then show "has_input s xs" using m l by (simp add: has_input_def)
  have "take (length ys) (drop (length xs) (is_state s)) = drop (length xs) (take (length xs + length ys) (is_state s))"
    by (simp add: drop_take)
  then show "has_input (adv_in s (length xs)) ys"
    using m l t by (simp add: has_input_def mem_stream_adv unat_minus_nat)
qed

lemma has_input_Cons:
  "has_input s (b # bs) \<Longrightarrow> has_input s [b] \<and> has_input (adv_in s 1) bs"
  using has_input_adv [of s "[b]" bs] by simp

lemma from_buffer_input:
  "length bs \<le> unat n \<Longrightarrow> unat n \<le> length (bs @ rest) \<Longrightarrow> has_input (pb_istream_from_buffer (bs @ rest) n) bs"
  by (simp add: has_input_def mem_stream_def pb_istream_from_buffer_def)

section \<open>Reading\<close>

lemma pb_read_local_mem:
  assumes "mem_stream s"
  shows "pb_read_local env s count st =
    (if bytes_left s < count then (False, [], is_set_error ''end-of-stream'' s, st)
     else (True, take (unat count) (is_state s), adv_in s (unat count), st))"
  using assms by (simp add: mem_stream_def pb_read_local_def call_read_def buf_read_def adv_in_def)

lemma pb_read_mem:
  assumes "mem_stream s"
  shows "pb_read env s buf count st =
    (if bytes_left s < count then (False, is_set_error ''end-of-stream'' s, st)
     else (True, adv_in s (unat count),
           if buf = 0 then st
           else st\<lparr>mem := store_bytes (mem st) buf (take (unat count) (is_state s))\<rparr>))"
  using assms pb_read_local_mem [OF assms, of env count st]
  by (simp add: pb_read_def mem_stream_def)

lemma pb_readbyte_end:
  "bytes_left s = 0 \<Longrightarrow> pb_readbyte env s st = (None, is_set_error ''end-of-stream'' s, st)"
  by (simp add: pb_readbyte_def)

lemma pb_readbyte_mem:
  assumes "mem_stream s" and "bytes_left s \<noteq> 0"
  shows "pb_readbyte env s st = (Some (hd (is_state s)), adv_in s 1, st)"
proof -
  have "0 < unat (bytes_left s)" using assms(2) by (simp add: unat_gt_0)
  then obtain b r where "is_state s = b # r" using assms(1) by (cases "is_state s") (auto simp: mem_stream_def)
  with assms show ?thesis
    by (simp add: pb_readbyte_def mem_stream_def call_read_def buf_read_def the_byte_def adv_in_def)
qed

lemma pb_readbyte_input:
  assumes "has_input s (b # bs)"
  shows "pb_readbyte env s st = (Some b, adv_in s 1, st)"
proof -
  have "bytes_left s \<noteq> 0" "mem_stream s" "hd (is_state s) = b"
    using assms by (auto simp: has_input_def take_Suc_conv_app_nth unat_gt_0 [symmetric] dest!: arg_cong [of _ _ hd])
  then show ?thesis by (simp add: pb_readbyte_mem)
qed

section \<open>Varints\<close>

lemma word_of_nat_small_byte: "n < 256 \<Longrightarrow> unat (word_of_nat n :: byte) = n"
  by (simp add: unat_byte_of_nat)

lemma word_of_nat_unat_add: "unat (word_of_nat (unat r + d) :: 'a::len word) \<le> unat (r :: 'a word) + d"
  by (simp only: unat_of_nat mod_less_eq_dividend)

lemma pb_decode_varint_loop_bytes:
  assumes "has_input s (varint_bytes n)" and "i \<le> 9" and "unat r < 2 ^ (7 * i)" and "n < 2 ^ (64 - 7 * i)"
  shows "pb_decode_varint_loop env s (word_of_nat (7 * i)) r st
    = (Some (word_of_nat (unat r + n * 2 ^ (7 * i))), adv_in s (length (varint_bytes n)), st)"
  using assms
proof (induction n arbitrary: s i r rule: varint_bytes.induct)
  case (1 n)
  have bp: "unat (word_of_nat (7 * i) :: byte) = 7 * i"
    using 1(3) by (simp add: unat_byte_of_nat del: of_nat_mult)
  then have lt: "\<not> (64 :: byte) \<le> word_of_nat (7 * i)" using 1(3) by (simp add: word_le_nat_alt)
  show ?case
  proof (cases "n < 128")
    case True
    then have b: "varint_bytes n = [word_of_nat n]" by (rule varint_bytes_small)
    have u: "unat (word_of_nat n :: byte) = n" using True by (simp add: unat_byte_of_nat)
    show ?thesis
      using pb_readbyte_input [of s "word_of_nat n" "[]" env st] 1(2) True lt bp u or_shift_add [OF 1(4), of n]
      by (subst pb_decode_varint_loop.simps) (simp add: b byte_more byte_digit)
  next
    case False
    let ?b = "word_of_nat (n mod 128 + 128) :: byte"
    let ?r = "word_of_nat (unat r + n mod 128 * 2 ^ (7 * i)) :: u64"
    have b: "varint_bytes n = ?b # varint_bytes (n div 128)" using False by (intro varint_bytes_large) simp
    have i8: "Suc i \<le> 9"
    proof (rule ccontr)
      assume "\<not> Suc i \<le> 9"
      then have "i = 9" using 1(3) by simp
      with 1(5) False show False by simp
    qed
    have n': "n div 128 < 2 ^ (64 - 7 * Suc i)"
    proof -
      have "(2 :: nat) ^ (64 - 7 * i) = 2 ^ (64 - 7 * Suc i) * 128"
        using i8 power_add [of "2 :: nat" "64 - 7 * Suc i" 7] by simp
      with 1(5) show ?thesis by (simp add: less_mult_imp_div_less)
    qed
    note in' = has_input_Cons [OF 1(2) [unfolded b]]
    have bound: "unat r + n mod 128 * 2 ^ (7 * i) < 2 ^ (7 * Suc i)"
      by (rule varint_step_bound [OF 1(4)])
    also have "\<dots> \<le> 2 ^ 63" using i8 by (intro power_increasing) auto
    finally have r': "unat ?r = unat r + n mod 128 * 2 ^ (7 * i)"
      by (simp add: unat_of_nat del: of_nat_add of_nat_mult)
    have d: "unat ?b mod 128 = n mod 128" "\<not> unat ?b < 128"
      by (simp_all add: unat_varint_digit del: of_nat_add)
    have bp': "word_of_nat (7 * i) + 7 = (word_of_nat (7 * Suc i) :: byte)" by simp
    have step: "pb_decode_varint_loop env s (word_of_nat (7 * i)) r st
        = pb_decode_varint_loop env (adv_in s 1) (word_of_nat (7 * Suc i)) ?r st"
      using lt by (subst pb_decode_varint_loop.simps)
        (simp only: pb_readbyte_input [OF 1(2) [unfolded b]] prod.case option.case byte_more byte_digit d bp'
          bp or_shift_add [OF 1(4)] if_False if_True not_False_eq_True)
    have "pb_decode_varint_loop env (adv_in s 1) (word_of_nat (7 * Suc i)) ?r st
        = (Some (word_of_nat (unat ?r + n div 128 * 2 ^ (7 * Suc i))),
           adv_in (adv_in s 1) (length (varint_bytes (n div 128))), st)"
      by (rule 1(1) [OF False _ i8 _ n']) (use in' bound r' in simp_all)
    then show ?thesis
      unfolding step r' varint_step_value by (simp add: b adv_in_add del: of_nat_add of_nat_mult)
  qed
qed

lemma pb_decode_varint_bytes:
  assumes "has_input s (varint_bytes (unat v))"
  shows "pb_decode_varint env s st = (Some v, adv_in s (length (varint_bytes (unat v))), st)"
  using pb_decode_varint_loop_bytes [OF assms, of 0 0 env st] unat_lt2p [of v]
  by (simp add: pb_decode_varint_def)

lemma nibble_and_112: "n < 16 \<Longrightarrow> n AND 112 = (0 :: nat)"
proof -
  assume "n < 16"
  then have "n \<in> set [0..<16]" by simp
  moreover have "list_all (\<lambda>n. n AND 112 = (0 :: nat)) [0..<16]" by code_simp
  ultimately show ?thesis by (simp add: list_all_iff)
qed

lemma pb_decode_varint32_loop_bytes:
  assumes "has_input s (varint_bytes n)" and "1 \<le> i" and "i \<le> 4" and "unat r < 2 ^ (7 * i)"
    and "n < 2 ^ (32 - 7 * i)" and "length (varint_bytes n) \<le> k"
  shows "pb_decode_varint32_loop k env s (word_of_nat (7 * i)) r st
    = Some (Some (word_of_nat (unat r + n * 2 ^ (7 * i))), adv_in s (length (varint_bytes n)), st)"
  using assms
proof (induction n arbitrary: s i r k rule: varint_bytes.induct)
  case (1 n)
  obtain k' where k: "k = Suc k'" using 1(7) by (cases k) (auto simp: le_Suc_eq)
  have bp: "unat (word_of_nat (7 * i) :: byte) = 7 * i"
    using 1(4) by (simp add: unat_byte_of_nat del: of_nat_mult)
  then have lt: "\<not> (32 :: byte) \<le> word_of_nat (7 * i)" using 1(4) by (simp add: word_le_nat_alt)
  have bp': "word_of_nat (7 * i) + 7 = (word_of_nat (7 * Suc i) :: byte)" by simp
  show ?case
  proof (cases "n < 128")
    case True
    let ?b = "word_of_nat n :: byte"
    have b: "varint_bytes n = [?b]" using True by (rule varint_bytes_small)
    have u: "unat ?b = n" using True by (simp add: unat_byte_of_nat)
    have top: "\<not> ((word_of_nat (7 * Suc i) :: byte) = 35 \<and> ?b AND 0x70 \<noteq> 0)"
    proof
      assume *: "(word_of_nat (7 * Suc i) :: byte) = 35 \<and> ?b AND 0x70 \<noteq> 0"
      have "unat (word_of_nat (7 * Suc i) :: byte) = 7 * Suc i"
        unfolding unat_byte_of_nat using 1(4) by (intro mod_less) simp
      with * have "i = 4" by simp
      then have "unat (?b AND 0x70) = 0"
        using 1(6) nibble_and_112 [of n] by (simp add: unsigned_and_eq u)
      then show False using * by (simp add: unat_eq_0)
    qed
    have bm: "unat ?b < 128" "unat ?b mod 128 = n" using u True by auto
    show ?thesis
      using lt top bm 1(2) unfolding k b
      by (simp only: pb_decode_varint32_loop.simps pb_readbyte_input [OF 1(2) [unfolded b]] prod.case option.case
          byte_more byte_digit bp' bp or_shift_add [OF 1(5)] Let_def if_False if_True simp_thms) simp
  next
    case False
    let ?b = "word_of_nat (n mod 128 + 128) :: byte"
    let ?r = "word_of_nat (unat r + n mod 128 * 2 ^ (7 * i)) :: u32"
    have b: "varint_bytes n = ?b # varint_bytes (n div 128)" using False by (intro varint_bytes_large) simp
    have i4: "Suc i \<le> 4"
    proof (rule ccontr)
      assume "\<not> Suc i \<le> 4"
      then have "i = 4" using 1(4) by simp
      with 1(6) False show False by simp
    qed
    have n': "n div 128 < 2 ^ (32 - 7 * Suc i)"
    proof -
      have "(2 :: nat) ^ (32 - 7 * i) = 2 ^ (32 - 7 * Suc i) * 128"
        using i4 power_add [of "2 :: nat" "32 - 7 * Suc i" 7] by simp
      with 1(6) show ?thesis by (simp add: less_mult_imp_div_less)
    qed
    note in' = has_input_Cons [OF 1(2) [unfolded b]]
    have bound: "unat r + n mod 128 * 2 ^ (7 * i) < 2 ^ (7 * Suc i)"
      by (rule varint_step_bound [OF 1(5)])
    also have "\<dots> \<le> 2 ^ 28" using i4 by (intro power_increasing) auto
    finally have r': "unat ?r = unat r + n mod 128 * 2 ^ (7 * i)"
      by (simp add: unat_of_nat del: of_nat_add of_nat_mult)
    have d: "unat ?b mod 128 = n mod 128" "\<not> unat ?b < 128"
      by (simp_all add: unat_varint_digit del: of_nat_add)
    have step: "pb_decode_varint32_loop k env s (word_of_nat (7 * i)) r st
        = pb_decode_varint32_loop k' env (adv_in s 1) (word_of_nat (7 * Suc i)) ?r st"
      using lt unfolding k
      by (simp only: pb_decode_varint32_loop.simps pb_readbyte_input [OF 1(2) [unfolded b]] prod.case option.case
          byte_more byte_digit d bp' bp or_shift_add [OF 1(5)] Let_def if_False if_True simp_thms)
    have "pb_decode_varint32_loop k' env (adv_in s 1) (word_of_nat (7 * Suc i)) ?r st
        = Some (Some (word_of_nat (unat ?r + n div 128 * 2 ^ (7 * Suc i))),
           adv_in (adv_in s 1) (length (varint_bytes (n div 128))), st)"
      by (rule 1(1) [OF False _ _ i4 _ n']) (use in' bound r' 1(7) b k in simp_all)
    then show ?thesis
      unfolding step r' varint_step_value by (simp add: b adv_in_add del: of_nat_add of_nat_mult)
  qed
qed

lemma unat_ucast_byte_32: "unat (ucast (b :: byte) :: u32) = unat b"
  using unat_lt2p [of b] by (simp add: unsigned_ucast_eq take_bit_nat_eq_self)

lemma pb_decode_varint32_eof_bytes:
  assumes "has_input s (varint_bytes (unat v))"
  shows "pb_decode_varint32_eof env s st
    = Some (Some v, False, adv_in s (length (varint_bytes (unat v))), st)"
proof (cases "unat v < 128")
  case True
  let ?b = "word_of_nat (unat v) :: byte"
  have b: "varint_bytes (unat v) = [?b]" using True by (rule varint_bytes_small)
  have u: "unat ?b = unat v" unfolding unat_byte_of_nat using True by simp
  have "(ucast ?b :: u32) = v" by (rule unat_eqI) (simp only: unat_ucast_byte_32 u)
  with assms True u show ?thesis
    by (simp add: pb_decode_varint32_eof_def b byte_more pb_readbyte_input)
next
  case False
  let ?n = "unat v"
  let ?b = "word_of_nat (?n mod 128 + 128) :: byte"
  have b: "varint_bytes ?n = ?b # varint_bytes (?n div 128)" using False by (intro varint_bytes_large) simp
  note in' = has_input_Cons [OF assms [unfolded b]]
  have d: "unat ?b mod 128 = ?n mod 128" "\<not> unat ?b < 128"
    by (simp_all add: unat_varint_digit del: of_nat_add)
  have n': "?n div 128 < 2 ^ (32 - 7 * 1)" using unat_lt2p [of v] by simp
  have r: "unat (word_of_nat (?n mod 128) :: u32) = ?n mod 128" by (simp add: unat_of_nat)
  have f: "length (varint_bytes (?n div 128)) \<le> fuel_for (adv_in s 1)"
    using in' by (auto simp: has_input_def fuel_for_def)
  have "pb_decode_varint32_loop (fuel_for (adv_in s 1)) env (adv_in s 1) (word_of_nat (7 * 1)) (word_of_nat (?n mod 128)) st
      = Some (Some (word_of_nat (unat (word_of_nat (?n mod 128) :: u32) + ?n div 128 * 2 ^ (7 * 1))),
           adv_in (adv_in s 1) (length (varint_bytes (?n div 128))), st)"
    by (rule pb_decode_varint32_loop_bytes) (use in' n' r f in simp_all)
  moreover have "word_of_nat (?n mod 128 + ?n div 128 * 2 ^ (7 * 1)) = v"
    using varint_step_value [of 0 ?n 0] by simp
  ultimately have loop: "pb_decode_varint32_loop (fuel_for (adv_in s 1)) env (adv_in s 1) 7 (word_of_nat (?n mod 128)) st
      = Some (Some v, adv_in s (length (varint_bytes ?n)), st)"
    unfolding r b by (simp add: adv_in_add)
  show ?thesis
    using loop d by (simp only: pb_decode_varint32_eof_def pb_readbyte_input [OF assms [unfolded b]] prod.case
       option.case byte_more byte_digit if_False if_True)
qed

lemma pb_decode_varint32_bytes:
  assumes "has_input s (varint_bytes (unat v))"
  shows "pb_decode_varint32 env s st = Some (Some v, adv_in s (length (varint_bytes (unat v))), st)"
  by (simp add: pb_decode_varint32_def pb_decode_varint32_eof_bytes [OF assms])

section \<open>Zigzag\<close>

lemma unzigzag_zigzag: "unzigzag (zigzag v) = v"
proof (cases "sint v < 0")
  case True
  then have top: "bit v 63" using bit_last_iff [of v] by simp
  have odd: "NOT (push_bit 1 v) AND 1 \<noteq> 0"
  proof -
    have "bit (NOT (push_bit 1 v)) 0" by (simp only: bit_not_iff bit_push_bit_iff) simp
    then show ?thesis using and_exp_eq_0_iff_not_bit [of "NOT (push_bit 1 v)" 0] by simp
  qed
  have "NOT (drop_bit 1 (NOT (push_bit 1 v))) = v"
  proof (rule bit_word_eqI)
    fix n assume n: "n < LENGTH(64)"
    show "bit (NOT (drop_bit 1 (NOT (push_bit 1 v)))) n = bit v n"
      using n top by (cases "n = 63")
        (simp_all only: bit_not_iff bit_drop_bit_eq o_apply bit_push_bit_iff possible_bit_word, auto)
  qed
  with True odd show ?thesis by (simp add: unzigzag_def zigzag_def)
next
  case False
  then have top: "\<not> bit v 63" using bit_last_iff [of v] by simp
  have even: "push_bit 1 v AND 1 = 0"
  proof -
    have "\<not> bit (push_bit 1 v) 0" by (simp only: bit_push_bit_iff) simp
    then show ?thesis using and_exp_eq_0_iff_not_bit [of "push_bit 1 v" 0] by simp
  qed
  have "drop_bit 1 (push_bit 1 v) = v"
  proof (rule bit_word_eqI)
    fix n assume n: "n < LENGTH(64)"
    show "bit (drop_bit 1 (push_bit 1 v)) n = bit v n"
      using n top by (cases "n = 63")
        (simp_all only: bit_drop_bit_eq o_apply bit_push_bit_iff possible_bit_word, auto)
  qed
  with False even show ?thesis by (simp add: unzigzag_def zigzag_def)
qed

section \<open>Fixed width\<close>

lemma low_byte: "(ucast (w AND 0xFF) :: byte) = word_of_nat (unat (w :: u32))"
  "(ucast (x AND 0xFF) :: byte) = word_of_nat (unat (x :: u64))"
  by (rule unat_eqI, simp add: unsigned_ucast_eq unsigned_and_eq nat_and_255 unat_byte_of_nat take_bit_eq_mod)+

lemma fixed32_bytes_le: "fixed32_bytes v = le_bytes 4 (unat v)"
  by (simp add: fixed32_bytes_def low_byte unat_drop_bit le_bytes_numeral div_mult2_eq [symmetric])

lemma fixed64_bytes_le: "fixed64_bytes v = le_bytes 8 (unat v)"
  by (simp add: fixed64_bytes_def low_byte unat_drop_bit le_bytes_numeral div_mult2_eq [symmetric])

lemma le_val_or:
  assumes "8 * length bs < LENGTH('a::len)"
  shows "(word_of_nat (le_val bs) :: 'a word) OR push_bit (8 * length bs) (ucast (b :: byte))
    = word_of_nat (le_val (bs @ [b]))"
proof -
  have p: "(256 :: nat) ^ length bs = 2 ^ (8 * length bs)" by (simp add: power_mult)
  have "le_val bs < 2 ^ (8 * length bs)" using le_val_bound [of bs] by (simp add: p)
  also have "\<dots> \<le> 2 ^ LENGTH('a)" using assms by (intro power_increasing) auto
  finally have u: "unat (word_of_nat (le_val bs) :: 'a word) = le_val bs"
    unfolding unat_of_nat by (rule mod_less)
  have "(word_of_nat (le_val bs) :: 'a word) OR push_bit (8 * length bs) (word_of_nat (unat b))
      = word_of_nat (le_val bs + unat b * 2 ^ (8 * length bs))"
    using or_shift_add [of "word_of_nat (le_val bs) :: 'a word" "8 * length bs" "unat b", unfolded u]
      le_val_bound [of bs] by (simp add: p)
  then show ?thesis by (simp add: le_val_append p mult.commute)
qed

lemma fixed32_of_le: "length bs = 4 \<Longrightarrow> fixed32_of bs = word_of_nat (le_val bs)"
proof -
  assume "length bs = 4"
  then obtain a b c d where bs: "bs = [a, b, c, d]" by (auto simp: length_Suc_conv numeral_eq_Suc)
  show ?thesis
    using le_val_or [of "[a]" b, where 'a = 32] le_val_or [of "[a, b]" c, where 'a = 32]
      le_val_or [of "[a, b, c]" d, where 'a = 32]
    by (simp add: fixed32_of_def bs or.assoc [symmetric] del: of_nat_add le_val.simps) simp
qed

lemma fixed64_of_le: "length bs = 8 \<Longrightarrow> fixed64_of bs = word_of_nat (le_val bs)"
proof -
  assume "length bs = 8"
  then obtain a b c d e f g h where bs: "bs = [a, b, c, d, e, f, g, h]"
    by (auto simp: length_Suc_conv numeral_eq_Suc)
  show ?thesis
    using le_val_or [of "[a]" b, where 'a = 64] le_val_or [of "[a, b]" c, where 'a = 64]
      le_val_or [of "[a, b, c]" d, where 'a = 64] le_val_or [of "[a, b, c, d]" e, where 'a = 64]
      le_val_or [of "[a, b, c, d, e]" f, where 'a = 64] le_val_or [of "[a, b, c, d, e, f]" g, where 'a = 64]
      le_val_or [of "[a, b, c, d, e, f, g]" h, where 'a = 64]
    by (simp add: fixed64_of_def bs or.assoc [symmetric] del: of_nat_add le_val.simps) simp
qed

section \<open>Tags\<close>

lemma tag_word_bits:
  assumes "unat tag < 2 ^ 29" and "unat (wt :: pb_wire_type_t) < 8"
  shows "unat (tag_word wt tag) = unat tag * 8 + unat wt"
    and "unat (ucast (tag_word wt tag) :: u32) = unat tag * 8 + unat wt"
proof -
  have "unat (ucast wt :: u64) = unat wt" "(ucast tag :: u64) = word_of_nat (unat tag)"
    using assms(2) by (simp_all add: unsigned_ucast_eq take_bit_nat_eq_self)
  then have "tag_word wt tag = word_of_nat (unat wt + unat tag * 2 ^ 3)"
    using or_shift_add [of "ucast wt :: u64" 3 "unat tag"] assms(2)
    by (simp add: tag_word_def or.commute)
  then show "unat (tag_word wt tag) = unat tag * 8 + unat wt"
    using assms by (simp add: unat_of_nat del: of_nat_add of_nat_mult of_nat_unat)
  then show "unat (ucast (tag_word wt tag) :: u32) = unat tag * 8 + unat wt"
    using assms by (simp add: unsigned_ucast_eq take_bit_eq_mod)
qed

lemma pb_decode_tag_bytes:
  assumes inp: "has_input s (pb_varint_bytes (tag_word wt tag))"
    and tag: "unat tag < 2 ^ 29" "tag \<noteq> 0" and wt: "unat wt < 8"
  shows "pb_decode_tag env s st
    = Some (True, wt, tag, False, adv_in s (length (pb_varint_bytes (tag_word wt tag))), st)"
proof -
  let ?w = "ucast (tag_word wt tag) :: u32"
  note bits = tag_word_bits [OF tag(1) wt]
  have same: "unat ?w = unat (tag_word wt tag)" using bits by simp
  have "has_input s (varint_bytes (unat ?w))" using inp by (simp only: same pb_varint_bytes_eq)
  note dec = pb_decode_varint32_eof_bytes [OF this, of env st]
  have nz: "?w \<noteq> 0" using bits(2) tag(2) by (metis add_is_0 mult_is_0 unat_0 unat_eq_0 zero_neq_numeral)
  have "unat (?w AND 7) = unat wt"
    using bits(2) wt take_bit_eq_mask [of 3 "unat ?w"]
    by (simp add: unsigned_and_eq take_bit_eq_mod mask_eq_exp_minus_1)
  then have t: "?w AND 7 = wt" by (rule unat_eqI)
  have "unat (drop_bit 3 ?w) = unat tag" using bits(2) wt by (simp add: unat_drop_bit)
  then have d: "drop_bit 3 ?w = tag" by (rule unat_eqI)
  show ?thesis
    using nz unfolding pb_decode_tag_def dec t d pb_varint_bytes_eq same by (simp add: t d)
qed


end
