(* ===== verification/Pb_Decode_Safe.thy ===== *)
theory Pb_Decode_Safe
  imports Pb_Decode_Wire
begin

text \<open>
  The decoder stays inside its input. Every function of \<^verbatim>\<open>pb_decode.c\<close> that is given a memory
  stream leaves it a memory stream over a later part of the same buffer, never past its end,
  and a function that succeeds accounts for exactly the bytes it has read.
\<close>

section \<open>Steps of a stream\<close>

definition stream_step :: "bool \<Rightarrow> pb_istream \<Rightarrow> pb_istream \<Rightarrow> bool" where
  "stream_step ok s s' \<longleftrightarrow> mem_stream s' \<and>
     (\<exists>k \<le> unat (bytes_left s). is_state s' = drop k (is_state s)
        \<and> (if ok then unat (bytes_left s') = unat (bytes_left s) - k
           else unat (bytes_left s') \<le> unat (bytes_left s) - k))"

lemma stream_step_mem: "stream_step ok s s' \<Longrightarrow> mem_stream s'"
  by (simp add: stream_step_def)

lemma stream_step_refl: "mem_stream s \<Longrightarrow> stream_step ok s s"
  unfolding stream_step_def by (intro conjI exI [of _ 0]) auto

lemma stream_step_adv:
  "mem_stream s \<Longrightarrow> k \<le> unat (bytes_left s) \<Longrightarrow> stream_step ok s (adv_in s k)"
  unfolding stream_step_def
  by (intro conjI exI [of _ k]) (auto simp: mem_stream_adv unat_minus_nat)

lemma stream_step_error: "stream_step ok s s' \<Longrightarrow> stream_step False s (is_set_error m s')"
  unfolding stream_step_def by (cases ok) (auto simp: mem_stream_def)

lemma stream_step_False: "stream_step ok s s' \<Longrightarrow> stream_step False s s'"
  unfolding stream_step_def by (cases ok) auto

lemma stream_step_errmsg [simp]: "stream_step ok s (s'\<lparr>is_errmsg := m\<rparr>) = stream_step ok s s'"
  by (simp add: stream_step_def mem_stream_def)

lemma stream_step_trans:
  assumes "stream_step True s s1" and "stream_step ok s1 s2"
  shows "stream_step ok s s2"
proof -
  obtain j where j: "j \<le> unat (bytes_left s)" "is_state s1 = drop j (is_state s)"
      "unat (bytes_left s1) = unat (bytes_left s) - j"
    using assms(1) by (auto simp: stream_step_def)
  obtain k where k: "k \<le> unat (bytes_left s1)" "is_state s2 = drop k (is_state s1)"
      "if ok then unat (bytes_left s2) = unat (bytes_left s1) - k
       else unat (bytes_left s2) \<le> unat (bytes_left s1) - k"
    using assms(2) by (auto simp: stream_step_def)
  show ?thesis
    unfolding stream_step_def
    by (intro conjI exI [of _ "k + j"]) (use j k assms(2) in \<open>auto simp: stream_step_def\<close>)
qed

definition istep :: "pb_istream \<Rightarrow> ires option \<Rightarrow> bool" where
  "istep s r \<longleftrightarrow> (\<forall>ok s' st'. r = Some (ok, s', st') \<longrightarrow> stream_step ok s s')"

definition fstep :: "pb_istream \<Rightarrow> fres option \<Rightarrow> bool" where
  "fstep s r \<longleftrightarrow> (\<forall>ok s' it' st'. r = Some (ok, s', it', st') \<longrightarrow> stream_step ok s s')"

lemma istepD: "istep s (Some (ok, s', st')) \<Longrightarrow> stream_step ok s s'"
  by (simp add: istep_def)

lemma istep_None [simp]: "istep s None"
  by (simp add: istep_def)

lemma istep_Some [simp]: "istep s (Some (ok, s', st')) \<longleftrightarrow> stream_step ok s s'"
  by (simp add: istep_def)

lemma fstep_None [simp]: "fstep s None"
  by (simp add: fstep_def)

lemma fstep_Some [simp]: "fstep s (Some (ok, s', it, st')) \<longleftrightarrow> stream_step ok s s'"
  by (simp add: fstep_def)

lemma fstep_with_iter [simp]: "fstep s (with_iter it r) = istep s r"
  by (cases r) (auto simp: with_iter_def)

lemma fstep_case_option:
  "(\<And>x. r = Some x \<Longrightarrow> fstep s (F x)) \<Longrightarrow> fstep s (case r of None \<Rightarrow> None | Some x \<Rightarrow> F x)"
  by (cases r) auto

lemma fstep_case_prod: "(\<And>a b. r = (a, b) \<Longrightarrow> fstep s (F a b)) \<Longrightarrow> fstep s (case r of (a, b) \<Rightarrow> F a b)"
  by (cases r) auto

lemma fstep_if: "(b \<Longrightarrow> fstep s x) \<Longrightarrow> (\<not> b \<Longrightarrow> fstep s y) \<Longrightarrow> fstep s (if b then x else y)"
  by simp

lemma istep_trans: "stream_step True s s1 \<Longrightarrow> istep s1 r \<Longrightarrow> istep s r"
  unfolding istep_def using stream_step_trans by blast

lemma fstep_trans: "stream_step True s s1 \<Longrightarrow> fstep s1 r \<Longrightarrow> fstep s r"
  unfolding fstep_def using stream_step_trans by blast

section \<open>Primitives\<close>

lemma pb_readbyte_step:
  assumes "mem_stream s" and "pb_readbyte env s st = (r, s', st')"
  shows "stream_step (r \<noteq> None) s s'"
proof (cases "bytes_left s = 0")
  case True
  with assms show ?thesis
    by (auto simp: pb_readbyte_end intro!: stream_step_error [OF stream_step_refl])
next
  case False
  then have "1 \<le> unat (bytes_left s)" by (simp add: unat_gt_0 Suc_le_eq)
  with False assms show ?thesis by (auto simp: pb_readbyte_mem intro: stream_step_adv)
qed

lemma pb_read_local_step:
  assumes "mem_stream s" and "pb_read_local env s count st = (ok, bs, s', st')"
  shows "stream_step ok s s'" and "ok \<Longrightarrow> length bs = unat count"
proof -
  have "ok \<longleftrightarrow> \<not> bytes_left s < count" using assms by (auto simp: pb_read_local_mem split: if_splits)
  moreover have "unat count \<le> unat (bytes_left s)" if "\<not> bytes_left s < count"
    using that by (simp add: word_le_nat_alt linorder_not_less)
  ultimately show "stream_step ok s s'" and "ok \<Longrightarrow> length bs = unat count"
    using assms by (auto simp: pb_read_local_mem mem_stream_def split: if_splits
        intro!: stream_step_error [OF stream_step_refl] stream_step_adv)
qed

lemma pb_read_step:
  assumes "mem_stream s" and "pb_read env s buf count st = (ok, s', st')"
  shows "stream_step ok s s'"
proof -
  obtain bs s1 st1 where r: "pb_read_local env s count st = (ok, bs, s1, st1)" "s' = s1"
    using assms by (auto simp: pb_read_def mem_stream_def split: prod.splits)
  from pb_read_local_step(1) [OF assms(1) r(1)] r(2) show ?thesis by simp
qed

lemma istep_pb_read [simp]: "mem_stream s \<Longrightarrow> istep s (Some (pb_read env s buf count st))"
  by (cases "pb_read env s buf count st") (auto dest: pb_read_step)

lemma pb_decode_varint32_loop_step:
  assumes "mem_stream s" and "pb_decode_varint32_loop k env s bitpos result st = Some (r, s', st')"
  shows "stream_step (r \<noteq> None) s s'"
  using assms
proof (induction k arbitrary: s bitpos result st)
  case (Suc k)
  obtain b s1 st1 where rb: "pb_readbyte env s st = (b, s1, st1)" by (cases "pb_readbyte env s st") auto
  note step = pb_readbyte_step [OF Suc.prems(1) rb]
  show ?case
  proof (cases b)
    case None
    with step rb Suc.prems(2) show ?thesis by auto
  next
    case (Some x)
    then have one: "stream_step True s s1" using step by simp
    note ih = Suc.IH [OF stream_step_mem [OF one]] and tr = stream_step_trans [OF one]
    show ?thesis
      using Suc.prems(2) rb Some one stream_step_error [OF one] tr ih
      by (fastforce simp: Let_def split: if_splits)
  qed
qed simp

lemma pb_decode_varint32_eof_step:
  assumes "mem_stream s" and "pb_decode_varint32_eof env s st = Some (r, eof, s', st')"
  shows "stream_step (r \<noteq> None) s s'"
proof -
  obtain b s1 st1 where rb: "pb_readbyte env s st = (b, s1, st1)" by (cases "pb_readbyte env s st") auto
  note step = pb_readbyte_step [OF assms(1) rb]
  show ?thesis
  proof (cases b)
    case None
    with step rb assms(2) show ?thesis by (auto simp: pb_decode_varint32_eof_def)
  next
    case (Some x)
    then have one: "stream_step True s s1" using step by simp
    show ?thesis
      using assms(2) rb Some one stream_step_trans [OF one]
        pb_decode_varint32_loop_step [OF stream_step_mem [OF one]]
      by (fastforce simp: pb_decode_varint32_eof_def split: if_splits option.splits)
  qed
qed

lemma pb_decode_varint32_step:
  assumes "mem_stream s" and "pb_decode_varint32 env s st = Some (r, s', st')"
  shows "stream_step (r \<noteq> None) s s'"
  using assms by (auto simp: pb_decode_varint32_def split: option.splits dest!: pb_decode_varint32_eof_step)

lemma pb_decode_varint_loop_step:
  "mem_stream s \<Longrightarrow> pb_decode_varint_loop env s bitpos result st = (r, s', st') \<Longrightarrow> stream_step (r \<noteq> None) s s'"
proof (induction env s bitpos result st rule: pb_decode_varint_loop.induct)
  case (1 env s bitpos result st)
  obtain b s1 st1 where rb: "pb_readbyte env s st = (b, s1, st1)" by (cases "pb_readbyte env s st") auto
  note step = pb_readbyte_step [OF 1(2) rb]
  show ?case
  proof (cases "64 \<le> bitpos")
    case True
    then show ?thesis using 1(2,3) stream_step_error [OF stream_step_refl]
      by (subst (asm) pb_decode_varint_loop.simps) auto
  next
    case False
    show ?thesis
    proof (cases b)
      case None
      with 1(3) False rb step show ?thesis by (subst (asm) pb_decode_varint_loop.simps) auto
    next
      case (Some x)
      then have one: "stream_step True s s1" using step by simp
      show ?thesis
      proof (cases "x AND 0x80 \<noteq> 0")
        case True
        have "pb_decode_varint_loop env s1 (bitpos + 7)
            (result OR push_bit (unat bitpos) (ucast (x AND 0x7F))) st1 = (r, s', st')"
          using 1(3) False rb Some True by (subst (asm) pb_decode_varint_loop.simps) auto
        with 1(1) [OF False rb [symmetric] Some refl True stream_step_mem [OF one]]
        show ?thesis using stream_step_trans [OF one] by blast
      next
        case more: False
        with 1(3) False rb Some one show ?thesis by (subst (asm) pb_decode_varint_loop.simps) auto
      qed
    qed
  qed
qed

lemma pb_decode_varint_step:
  "mem_stream s \<Longrightarrow> pb_decode_varint env s st = (r, s', st') \<Longrightarrow> stream_step (r \<noteq> None) s s'"
  unfolding pb_decode_varint_def by (rule pb_decode_varint_loop_step)

lemma istep_pb_skip_varint_loop: "mem_stream s \<Longrightarrow> istep s (pb_skip_varint_loop k env s st)"
proof (induction k arbitrary: s st)
  case (Suc k)
  obtain ok bs s1 st1 where r: "pb_read_local env s 1 st = (ok, bs, s1, st1)"
    by (cases "pb_read_local env s 1 st") auto
  note step = pb_read_local_step(1) [OF Suc.prems r]
  show ?case
    using step r Suc.IH [of s1 st1] istep_trans [of s s1] stream_step_mem [OF step] by auto
qed simp

lemma istep_pb_skip_string: "mem_stream s \<Longrightarrow> istep s (pb_skip_string env s st)"
  unfolding pb_skip_string_def
  by (auto split: option.splits dest!: pb_decode_varint32_step
      intro: istep_trans [OF _ istep_pb_read] stream_step_mem)

lemma istep_pb_skip_field: "mem_stream s \<Longrightarrow> istep s (pb_skip_field env s wt st)"
  unfolding pb_skip_field_def pb_skip_varint_def
  by (auto simp: istep_pb_skip_varint_loop istep_pb_skip_string
      intro!: stream_step_error [OF stream_step_refl])

lemma read_raw_value_step:
  assumes "mem_stream s" and "read_raw_value env s wt m st = (ok, bs, s', st')"
  shows "stream_step ok s s'"
proof -
  have loop: "stream_step ok s s'" if "mem_stream s" "read_raw_varint k env s buf st = (ok, bs, s', st')"
    for k s buf st
    using that
  proof (induction k arbitrary: s buf st)
    case 0
    then show ?case by (auto intro: stream_step_refl)
  next
    case (Suc k)
    obtain ok1 bs1 s1 st1 where r: "pb_read_local env s 1 st = (ok1, bs1, s1, st1)"
      by (cases "pb_read_local env s 1 st") auto
    note step = pb_read_local_step(1) [OF Suc.prems(1) r]
    show ?case
      using Suc.prems(2) r step Suc.IH [of s1] stream_step_trans [of s s1] stream_step_mem [OF step]
      by (auto split: if_splits)
  qed
  show ?thesis
    using assms loop [of s] pb_read_local_step(1) [of s env _ st] stream_step_error [OF stream_step_refl]
    by (auto simp: read_raw_value_def split: if_splits)
qed

section \<open>Substreams\<close>

text \<open>A substream of \<open>sz\<close> bytes at the start of \<open>s0\<close>, and what is left of \<open>s0\<close> behind it.\<close>

definition substream_of :: "pb_istream \<Rightarrow> pb_istream \<Rightarrow> pb_istream \<Rightarrow> bool" where
  "substream_of s0 s1 sub \<longleftrightarrow> mem_stream s0 \<and> unat (bytes_left sub) \<le> unat (bytes_left s0)
     \<and> is_callback s1 = buf_read_cb \<and> is_callback sub = buf_read_cb
     \<and> is_state s1 = is_state s0 \<and> is_state sub = is_state s0
     \<and> unat (bytes_left s1) = unat (bytes_left s0) - unat (bytes_left sub)"

lemma substream_of_mem: "substream_of s0 s1 sub \<Longrightarrow> mem_stream s1 \<and> mem_stream sub"
  by (auto simp: substream_of_def mem_stream_def)

lemma substream_of_step: "substream_of s0 s1 sub \<Longrightarrow> stream_step False s0 s1"
  unfolding stream_step_def
  by (intro conjI exI [of _ 0]) (auto simp: substream_of_def mem_stream_def)

lemma pb_make_string_substream_step:
  assumes "mem_stream s" and "pb_make_string_substream env s st = Some (ok, s1, sub, st')"
  shows "if ok then \<exists>s0. stream_step True s s0 \<and> substream_of s0 s1 sub else stream_step False s s1"
proof -
  obtain r s0 st0 where r: "pb_decode_varint32 env s st = Some (r, s0, st0)"
    using assms(2) by (auto simp: pb_make_string_substream_def split: option.splits)
  note step = pb_decode_varint32_step [OF assms(1) r]
  show ?thesis
  proof (cases r)
    case None
    with assms(2) r step show ?thesis by (auto simp: pb_make_string_substream_def)
  next
    case (Some sz)
    then have one: "stream_step True s s0" using step by simp
    have "unat (bytes_left s0 - ucast sz) = unat (bytes_left s0) - unat (ucast sz :: u64)"
      if "\<not> bytes_left s0 < ucast sz"
      using that by (intro unat_sub) (simp add: linorder_not_less)
    then show ?thesis
      using assms(2) r Some one stream_step_mem [OF one] stream_step_error [OF one]
      by (auto simp: pb_make_string_substream_def substream_of_def mem_stream_def linorder_not_less
          word_le_nat_alt split: if_splits)
  qed
qed

lemma pb_close_string_substream_step:
  assumes sub: "substream_of s0 s1 sub" and step: "stream_step status sub sub'"
    and close: "pb_close_string_substream env s1 sub' st = (ok, s2, st')"
  shows "stream_step (ok \<and> status) s0 s2"
proof -
  have m': "mem_stream sub'" by (rule stream_step_mem [OF step])
  have "ok" and s2: "is_callback s2 = buf_read_cb" "bytes_left s2 = bytes_left s1"
    "is_state s2 = drop (unat (bytes_left sub')) (is_state sub')"
    using close m' sub
    by (auto simp: pb_close_string_substream_def pb_read_mem substream_of_def split: if_splits)
  obtain k where k: "k \<le> unat (bytes_left sub)" "is_state sub' = drop k (is_state sub)"
    "if status then unat (bytes_left sub') = unat (bytes_left sub) - k
     else unat (bytes_left sub') \<le> unat (bytes_left sub) - k"
    using step by (auto simp: stream_step_def)
  let ?k = "unat (bytes_left sub') + k"
  have le: "?k \<le> unat (bytes_left sub)" using k by (cases status) auto
  have st: "is_state s2 = drop ?k (is_state s0)" using s2(3) k(2) sub by (simp add: substream_of_def)
  have "mem_stream s2"
    using s2(1,2) st le sub by (auto simp: mem_stream_def substream_of_def)
  moreover have "if status then unat (bytes_left s2) = unat (bytes_left s0) - ?k
      else unat (bytes_left s2) \<le> unat (bytes_left s0) - ?k"
    using s2(2) k(1,3) le sub by (auto simp: substream_of_def split: if_splits)
  ultimately show ?thesis
    unfolding stream_step_def using st le sub \<open>ok\<close>
    by (intro conjI exI [of _ ?k]) (auto simp: substream_of_def split: if_splits)
qed

lemma istep_with_substream:
  assumes "mem_stream s" and body: "\<And>sub st. mem_stream sub \<Longrightarrow> istep sub (body sub st)"
  shows "istep s (with_substream env s body st)"
proof (cases "pb_make_string_substream env s st")
  case None
  then show ?thesis by (simp add: with_substream_def)
next
  case (Some r)
  obtain ok s1 sub st1 where r: "r = (ok, s1, sub, st1)" by (cases r) auto
  note mk = pb_make_string_substream_step [OF assms(1) Some [unfolded r]]
  show ?thesis
  proof (cases ok)
    case False
    with mk Some r show ?thesis by (simp add: with_substream_def)
  next
    case True
    then obtain s0 where s0: "stream_step True s s0" "substream_of s0 s1 sub" using mk by auto
    note b = body [OF substream_of_mem [OF s0(2), THEN conjunct2], of st1]
    show ?thesis
      using Some r True s0(1) b pb_close_string_substream_step [OF s0(2)]
      by (auto simp: with_substream_def split: option.splits prod.splits
          intro: stream_step_trans [OF s0(1)])
  qed
qed

section \<open>Field decoders\<close>

text \<open>
  What is needed of the user's code: a field callback and an extension handler that are given a memory
  stream leave it a memory stream in the same sense.
\<close>

definition dec_callbacks_ok :: "cenv \<Rightarrow> bool" where
  "dec_callbacks_ok env \<longleftrightarrow>
     (\<forall>fn s fld arg st. mem_stream s \<longrightarrow> istep s (Some (e_decode env fn s fld arg st)))
   \<and> (\<forall>fn s ext tag wt st. mem_stream s \<longrightarrow> istep s (Some (e_ext_decode env fn s ext tag wt st)))"

definition msg_step :: "message_decoder \<Rightarrow> bool" where
  "msg_step dec \<longleftrightarrow> (\<forall>s fds dest st. mem_stream s \<longrightarrow> istep s (dec s fds dest st))"

definition dec_step :: "field_decoder \<Rightarrow> bool" where
  "dec_step dec \<longleftrightarrow> (\<forall>s fld dest st. mem_stream s \<longrightarrow> istep s (dec s fld dest st))"

lemma allocate_field_stream:
  "allocate_field env s p a b st = (ok, s', st') \<Longrightarrow> s' = s \<or> (\<not> ok \<and> (\<exists>m. s' = is_set_error m s))"
  by (auto simp: allocate_field_def Let_def split: if_splits prod.splits)

lemma allocate_field_step:
  assumes "mem_stream s" and "allocate_field env s p a b st = (ok, s', st')"
  shows "stream_step ok s s'"
  using allocate_field_stream [OF assms(2)] assms(1)
  by (auto intro: stream_step_refl stream_step_error [OF stream_step_refl])

lemma dec_buffer_step:
  assumes "mem_stream s" and "dec_buffer env s fld dest a m st = (ok, q, s', st')"
  shows "stream_step ok s s'"
  using assms allocate_field_step [OF assms(1)]
  by (auto simp: dec_buffer_def split: if_splits prod.splits
      intro: stream_step_refl stream_step_error [OF stream_step_refl])

lemma store_clamped_step: "stream_step True s s1 \<Longrightarrow> istep s (Some (store_clamped s1 m c v st))"
  by (auto simp: store_clamped_def intro: stream_step_error)

lemma istep_pb_dec_varint: "mem_stream s \<Longrightarrow> istep s (Some (pb_dec_varint env s fld dest st))"
  unfolding pb_dec_varint_def Let_def
  by (auto split: prod.splits option.splits dest!: pb_decode_varint_step
      intro: store_clamped_step stream_step_error)

lemma istep_pb_dec_uvarint: "mem_stream s \<Longrightarrow> istep s (Some (pb_dec_uvarint env s fld dest st))"
  unfolding pb_dec_uvarint_def
  by (auto split: prod.splits option.splits dest!: pb_decode_varint_step
      intro: store_clamped_step stream_step_error)

lemma istep_pb_dec_svarint: "mem_stream s \<Longrightarrow> istep s (Some (pb_dec_svarint env s fld dest st))"
  unfolding pb_dec_svarint_def pb_decode_svarint_def
  by (auto split: prod.splits option.splits dest!: pb_decode_varint_step
      intro: store_clamped_step stream_step_error)

lemma istep_pb_decode_fixed:
  assumes "mem_stream s"
  shows "istep s (Some (pb_decode_fixed32 env s dest st))" "istep s (Some (pb_decode_fixed64 env s dest st))"
  unfolding pb_decode_fixed32_def pb_decode_fixed64_def
  by (auto split: prod.splits dest!: pb_read_local_step(1) [OF assms])

lemma istep_pb_dec_bytes:
  assumes m: "mem_stream s"
  shows "istep s (pb_dec_bytes env s fld dest st)"
proof -
  have buf: "istep s (case dec_buffer env s1 fld dest a msg st1 of (ok, q, s2, st2) \<Rightarrow>
      if \<not> ok then Some (False, s2, st2) else Some (pb_read env s2 (f q) c (g q st2)))"
    if "stream_step True s s1" for s1 st1 a msg c f g
  proof -
    obtain ok q s2 st2 where r: "dec_buffer env s1 fld dest a msg st1 = (ok, q, s2, st2)"
      by (cases "dec_buffer env s1 fld dest a msg st1") auto
    note step = dec_buffer_step [OF stream_step_mem [OF that] r]
    have "istep s2 (Some (pb_read env s2 (f q) c (g q st2)))"
      by (rule istep_pb_read [OF stream_step_mem [OF step]])
    with step stream_step_trans [OF that step] r show ?thesis by (cases ok) (auto intro: istep_trans)
  qed
  show ?thesis
    unfolding pb_dec_bytes_def
    by (auto split: option.splits dest!: pb_decode_varint32_step [OF m] intro: stream_step_error
        intro!: buf [where g = "\<lambda>q st. st\<lparr>mem := store32 (mem st) q _\<rparr>"])
qed

lemma istep_pb_dec_string:
  assumes m: "mem_stream s"
  shows "istep s (pb_dec_string env s fld dest st)"
proof -
  have buf: "istep s (case dec_buffer env s1 fld dest a msg st1 of (ok, q, s2, st2) \<Rightarrow>
      if \<not> ok then Some (False, s2, st2)
      else case pb_read env s2 q c st2 of (status, s, st) \<Rightarrow> Some (status, s, h q st))"
    if "stream_step True s s1" for s1 st1 a msg c h
  proof -
    obtain ok q s2 st2 where r: "dec_buffer env s1 fld dest a msg st1 = (ok, q, s2, st2)"
      by (cases "dec_buffer env s1 fld dest a msg st1") auto
    obtain status s3 st3 where r3: "pb_read env s2 q c st2 = (status, s3, st3)"
      by (cases "pb_read env s2 q c st2") auto
    note step = dec_buffer_step [OF stream_step_mem [OF that] r]
    note step3 = pb_read_step [OF stream_step_mem [OF step] r3]
    from stream_step_trans [OF that step] step3 r r3 show ?thesis
      by (cases ok) (auto intro: stream_step_trans)
  qed
  show ?thesis
    unfolding pb_dec_string_def Let_def
    by (auto split: option.splits dest!: pb_decode_varint32_step [OF m] intro: stream_step_error
        intro!: buf [where h = "\<lambda>q st. st\<lparr>mem := store8 (mem st) (q + _) 0\<rparr>"])
qed

lemma istep_pb_dec_fixed_length_bytes:
  assumes m: "mem_stream s"
  shows "istep s (pb_dec_fixed_length_bytes env s fld dest st)"
  unfolding pb_dec_fixed_length_bytes_def
  by (auto split: option.splits dest!: pb_decode_varint32_step [OF m]
      intro: stream_step_error istep_trans [OF _ istep_pb_read] stream_step_mem)

lemma istep_pb_decode_with:
  assumes "msg_step noinit" and "mem_stream s"
  shows "istep s (pb_decode_with n noinit env s fds dest st)"
proof -
  have "istep s (noinit s fds dest st1)" for st1 using assms by (simp add: msg_step_def)
  then show ?thesis
    unfolding pb_decode_with_def istep_def by (auto split: option.splits if_splits)
qed

lemma istep_pb_dec_submessage:
  assumes "msg_step noinit" and m: "mem_stream s"
  shows "istep s (pb_dec_submessage n noinit env s fld dest st)"
proof (cases "f_ptr fld = 0")
  case True
  show ?thesis
    using True unfolding pb_dec_submessage_def
    by (auto split: option.splits dest!: pb_make_string_substream_step [OF m]
        intro: stream_step_error [OF stream_step_trans [OF _ substream_of_step]] split: if_splits)
next
  case False
  have "istep sub (noinit sub fds dest st)" if "mem_stream sub" for sub fds st
    using assms(1) that by (simp add: msg_step_def)
  then show ?thesis
    using False unfolding pb_dec_submessage_def
    by (auto intro!: istep_with_substream [OF m] istep_pb_decode_with [OF assms(1)])
qed

lemma dec_step_PB_DECODERS:
  assumes "msg_step noinit"
  shows "dec_step (PB_DECODERS n noinit env lt)"
  unfolding dec_step_def PB_DECODERS_def pb_dec_fixed32_def pb_dec_fixed64_def
  by (simp add: istep_pb_dec_varint istep_pb_dec_uvarint istep_pb_dec_svarint istep_pb_decode_fixed
      istep_pb_dec_bytes istep_pb_dec_string istep_pb_dec_submessage [OF assms]
      istep_pb_dec_fixed_length_bytes)

section \<open>Fields\<close>

lemma fstep_decode_packed_static:
  assumes "dec_step func"
  shows "mem_stream sub \<Longrightarrow> fstep sub (decode_packed_static k func sub it st)"
proof (induction k arbitrary: sub it st)
  case (Suc k)
  have f: "stream_step ok sub s'" if "func sub fld p st = Some (ok, s', st')" for fld p ok s' st'
    using assms Suc.prems that unfolding dec_step_def istep_def by blast
  have g: "fstep sub (decode_packed_static k func s' it' st'')"
    if "func sub fld p st = Some (True, s', st')" for fld p s' st' it' st''
    using f [OF that] fstep_trans Suc.IH stream_step_mem by blast
  show ?case
    using Suc.prems by (auto simp: stream_step_refl split: option.splits prod.splits intro: f g)
qed simp

text \<open>Closing a substream after a loop that ran on it.\<close>

lemma packed_close:
  assumes "mem_stream s" and mk: "pb_make_string_substream env s st = Some (True, s1, sub, st1)"
    and loop: "fstep sub (Some (status, sub', it, st2))"
    and close: "pb_close_string_substream env (s1\<lparr>is_errmsg := m\<rparr>) sub' st2 = (ok, s2, st3)"
  shows "stream_step (ok \<and> status) s s2"
proof -
  obtain s0 where s0: "stream_step True s s0" "substream_of s0 s1 sub"
    using pb_make_string_substream_step [OF assms(1) mk] by auto
  from s0(2) have "substream_of s0 (s1\<lparr>is_errmsg := m\<rparr>) sub" by (simp add: substream_of_def)
  from pb_close_string_substream_step [OF this _ close] loop
  show ?thesis using stream_step_trans [OF s0(1)] by simp
qed

lemma make_substream_left:
  assumes "mem_stream s" and "pb_make_string_substream env s st = Some (ok, s1, sub, st1)"
  shows "stream_step False s s1" and "ok \<Longrightarrow> mem_stream sub"
proof -
  note mk = pb_make_string_substream_step [OF assms]
  show "stream_step False s s1"
  proof (cases ok)
    case True
    with mk obtain s0 where "stream_step True s s0" "substream_of s0 s1 sub" by auto
    then show ?thesis by (metis stream_step_trans substream_of_step)
  next
    case False
    with mk show ?thesis by simp
  qed
  show "mem_stream sub" if ok using mk that by (auto dest: substream_of_mem)
qed

lemma fstep_packed_static_field:
  assumes "dec_step func" and m: "mem_stream s"
  shows "fstep s (case pb_make_string_substream env s st of
                None \<Rightarrow> None
              | Some (ok, s, sub, st) \<Rightarrow>
                  if \<not> ok then Some (False, s, it, st)
                  else (case decode_packed_static (fuel_for sub) func sub it st of
                          None \<Rightarrow> None
                        | Some (status, sub, it, st) \<Rightarrow>
                            if bytes_left sub \<noteq> 0
                            then Some (False, is_set_error msg s, it, st)
                            else (case pb_close_string_substream env s sub st of (ok, s, st) \<Rightarrow>
                                    Some (ok \<and> status, s, it, st))))"
proof (cases "pb_make_string_substream env s st")
  case (Some r)
  obtain ok s1 sub st1 where r: "r = (ok, s1, sub, st1)" by (cases r) auto
  note left = make_substream_left [OF m Some [unfolded r]]
  show ?thesis
  proof (cases ok)
    case True
    have mk: "pb_make_string_substream env s st = Some (True, s1, sub, st1)" using Some r True by simp
    show ?thesis
    proof (cases "decode_packed_static (fuel_for sub) func sub it st1")
      case (Some q)
      obtain status sub' it' st2 where q: "q = (status, sub', it', st2)" by (cases q) auto
      have loop: "fstep sub (Some (status, sub', it', st2))"
        using fstep_decode_packed_static [OF assms(1), of sub "fuel_for sub" it st1] left(2) True Some q by simp
      show ?thesis
        using mk Some q left(1) packed_close [OF m mk loop, of "is_errmsg s1"]
        by (auto split: prod.splits intro: stream_step_error)
    qed (simp add: mk)
  qed (use Some r left in simp)
qed simp

lemma fstep_decode_static_field:
  assumes noinit: "msg_step noinit" and m: "mem_stream s"
  shows "fstep s (decode_static_field n noinit env s wt it st)"
proof -
  note func = dec_step_PB_DECODERS [OF noinit, of n env "PB_LTYPE (f_type (it_field it))"]
  have f: "istep s (PB_DECODERS n noinit env lt s fld p st)" for lt fld p st
    using dec_step_PB_DECODERS [OF noinit, of n env lt] m by (simp add: dec_step_def)
  note err = stream_step_error [OF stream_step_refl [OF m]]
  show ?thesis
    unfolding decode_static_field_def Let_def
    using fstep_packed_static_field [OF func m, where env = env and st = st and it = it and msg = "''array overflow''"]
    by (auto simp: f err split: option.splits prod.splits)
qed

lemma fstep_decode_packed_pointer:
  assumes "dec_step func" and "mem_stream sub"
    and "decode_packed_pointer k n func env allocated sub it st = Some (status, toomany, sub', it', st')"
  shows "stream_step status sub sub'"
  using assms(2,3)
proof (induction k arbitrary: allocated sub it st)
  case (Suc k)
  let ?fld = "it_field it" and ?i = "get_size it st"
  let ?grow = "ucast ?i + 1 > allocated"
  let ?al = "if ?grow then allocated + ((bytes_left sub - 1) div ucast (f_data_size ?fld) + 1) else allocated"
  show ?case
  proof (cases "bytes_left sub = 0")
    case True
    with Suc.prems show ?thesis by (auto intro: stream_step_refl)
  next
    case False
    obtain ok sub1 st1 where al: "(if ?grow then allocate_field env sub (it_pData it) (ucast (f_data_size ?fld)) ?al st
        else (True, sub, st)) = (ok, sub1, st1)" by (cases "if ?grow then allocate_field env sub (it_pData it) (ucast (f_data_size ?fld)) ?al st
        else (True, sub, st)") auto
    have one: "stream_step ok sub sub1"
      using al allocate_field_step [OF Suc.prems(1)] stream_step_refl [OF Suc.prems(1)] by (auto split: if_splits)
    have run: "(if ?grow \<and> f_data_size ?fld = 0 then None
        else if \<not> ok then Some (False, False, sub1, it, st1)
        else
          let pItem = item_addr (load_ptr (mem st1) (it_pData it)) ?fld ?i in
          (case initialize_pointer_field n env pItem ?fld st1 of
             None \<Rightarrow> None
           | Some st \<Rightarrow>
               (case func sub1 ?fld pItem st of
                  None \<Rightarrow> None
                | Some (ok, sub, st) \<Rightarrow>
                    if \<not> ok then Some (False, False, sub, it, st)
                    else if get_size it st = PB_SIZE_MAX then Some (False, True, sub, it, st)
                    else (case set_size it (get_size it st + 1) st of (it, st) \<Rightarrow>
                            decode_packed_pointer k n func env ?al sub it st))))
        = Some (status, toomany, sub', it', st')"
      using Suc.prems(2) False unfolding decode_packed_pointer.simps Let_def al prod.case by simp
    show ?thesis
    proof (cases ok)
      case False
      with run one show ?thesis by (auto split: if_splits)
    next
      case True
      have one': "stream_step True sub sub1" using one True by simp
      have f: "istep sub1 (func sub1 ?fld p st)" for p st
        using assms(1) stream_step_mem [OF one'] by (simp add: dec_step_def)
      from run True obtain p st2 ok3 sub3 st3 where fn: "func sub1 ?fld p st2 = Some (ok3, sub3, st3)"
        and rest: "(if \<not> ok3 then Some (False, False, sub3, it, st3)
            else if get_size it st3 = PB_SIZE_MAX then Some (False, True, sub3, it, st3)
            else (case set_size it (get_size it st3 + 1) st3 of (it, st) \<Rightarrow>
                    decode_packed_pointer k n func env ?al sub3 it st)) = Some (status, toomany, sub', it', st')"
        by (auto simp: Let_def split: if_splits option.splits)
      have two: "stream_step ok3 sub sub3"
        using f [of p st2] fn stream_step_trans [OF one'] by auto
      show ?thesis
        using rest two Suc.IH [of sub3] stream_step_trans [of sub sub3] stream_step_False [OF two]
        by (auto split: if_splits prod.splits dest: stream_step_mem)
    qed
  qed
qed simp

lemma fstep_packed_pointer_field:
  assumes "dec_step func" and m: "mem_stream s"
  shows "fstep s (case pb_make_string_substream env s st of
             None \<Rightarrow> None
           | Some (ok, s, sub, st) \<Rightarrow>
               if \<not> ok then Some (False, s, it, st)
               else (case decode_packed_pointer (fuel_for sub) n func env allocated sub it st of
                       None \<Rightarrow> None
                     | Some (status, toomany, sub, it, st) \<Rightarrow>
                         (case pb_close_string_substream env
                                 (if toomany then s\<lparr>is_errmsg := Some msg\<rparr> else s) sub st of
                            (ok, s, st) \<Rightarrow> Some (ok \<and> status, s, it, st))))"
proof (cases "pb_make_string_substream env s st")
  case (Some r)
  obtain ok s1 sub st1 where r: "r = (ok, s1, sub, st1)" by (cases r) auto
  note left = make_substream_left [OF m Some [unfolded r]]
  show ?thesis
  proof (cases ok)
    case True
    have mk: "pb_make_string_substream env s st = Some (True, s1, sub, st1)" using Some r True by simp
    show ?thesis
    proof (cases "decode_packed_pointer (fuel_for sub) n func env allocated sub it st1")
      case (Some q)
      obtain status toomany sub' it' st2 where q: "q = (status, toomany, sub', it', st2)" by (cases q) auto
      have loop: "fstep sub (Some (status, sub', it', st2))"
        using fstep_decode_packed_pointer [OF assms(1) left(2) [OF True] Some [unfolded q]] by simp
      show ?thesis
        using mk Some q packed_close [OF m mk loop, of "is_errmsg s1"] packed_close [OF m mk loop, of "Some msg"]
        by (cases toomany) (auto split: prod.splits)
    qed (simp add: mk)
  qed (use Some r left in simp)
qed simp

lemma fstep_decode_pointer_field:
  assumes noinit: "msg_step noinit" and m: "mem_stream s"
  shows "fstep s (decode_pointer_field n noinit env s wt it st)"
proof -
  let ?lt = "PB_LTYPE (f_type (it_field it))"
  note func = dec_step_PB_DECODERS [OF noinit, of n env ?lt]
  have f: "istep s' (PB_DECODERS n noinit env lt s' fld p st)" if "mem_stream s'" for lt s' fld p st
    using dec_step_PB_DECODERS [OF noinit, of n env lt] that by (simp add: dec_step_def)
  note err = stream_step_error [OF stream_step_refl [OF m]]
  have al: "fstep s (case allocate_field env s p a b st1 of (ok, s1, st2) \<Rightarrow>
      if \<not> ok then Some (False, s1, it1, st2)
      else (case I st2 of None \<Rightarrow> None
            | Some st3 \<Rightarrow> with_iter it2 (PB_DECODERS n noinit env lt s1 fld (P st2 st3) st3)))"
    for p a b st1 it1 it2 lt fld I P
  proof (cases "allocate_field env s p a b st1")
    case (fields ok s1 st2)
    note step = allocate_field_step [OF m fields]
    show ?thesis
      using step f [OF stream_step_mem [OF step]]
      by (cases ok) (auto simp: fields split: option.splits intro: istep_trans)
  qed
  consider (single) "PB_HTYPE (f_type (it_field it)) = PB_HTYPE_REQUIRED \<or> PB_HTYPE (f_type (it_field it)) = PB_HTYPE_OPTIONAL
         \<or> PB_HTYPE (f_type (it_field it)) = PB_HTYPE_ONEOF"
    | (rep) "\<not> (PB_HTYPE (f_type (it_field it)) = PB_HTYPE_REQUIRED \<or> PB_HTYPE (f_type (it_field it)) = PB_HTYPE_OPTIONAL
         \<or> PB_HTYPE (f_type (it_field it)) = PB_HTYPE_ONEOF)" "PB_HTYPE (f_type (it_field it)) = PB_HTYPE_REPEATED"
    | (bad) "\<not> (PB_HTYPE (f_type (it_field it)) = PB_HTYPE_REQUIRED \<or> PB_HTYPE (f_type (it_field it)) = PB_HTYPE_OPTIONAL
         \<or> PB_HTYPE (f_type (it_field it)) = PB_HTYPE_ONEOF)" "PB_HTYPE (f_type (it_field it)) \<noteq> PB_HTYPE_REPEATED"
    by blast
  then show ?thesis
  proof cases
    case single
    show ?thesis
      unfolding decode_pointer_field_def Let_def if_P [OF single]
      by (rule fstep_case_option, rule fstep_case_prod, rule fstep_if, simp add: f [OF m],
          rule al [where P = "\<lambda>st2 st3. load_ptr (mem st3) (it_pData _)"])
  next
    case rep
    show ?thesis
    proof (cases "wt = PB_WT_STRING \<and> ?lt \<le> PB_LTYPE_LAST_PACKABLE")
      case True
      show ?thesis
        unfolding decode_pointer_field_def Let_def if_not_P [OF rep(1)] if_P [OF rep(2)] if_P [OF True]
        by (rule fstep_packed_pointer_field [OF func m])
    next
      case False
      show ?thesis
        unfolding decode_pointer_field_def Let_def if_not_P [OF rep(1)] if_P [OF rep(2)] if_not_P [OF False]
        by (rule fstep_if, simp add: err, rule fstep_case_prod,
            rule al [where P = "\<lambda>st2 st3. item_addr (load_ptr (mem st2) (it_pData _)) _ (get_size _ st2 - 1)"])
    qed
  next
    case bad
    then show ?thesis by (simp add: decode_pointer_field_def Let_def err)
  qed
qed

lemma istep_callback_while:
  assumes f: "\<And>sub st. mem_stream sub \<Longrightarrow> istep sub (Some (f sub st))"
  shows "mem_stream sub \<Longrightarrow> istep sub (callback_while k f sub st)"
proof (induction k arbitrary: sub st)
  case (Suc k)
  obtain ok sub1 st1 where r: "f sub st = (ok, sub1, st1)" by (cases "f sub st") auto
  have step: "stream_step ok sub sub1" using f [OF Suc.prems, of st] r by simp
  show ?case
    using step r Suc.IH [OF stream_step_mem [OF step]] by (auto intro: istep_trans)
qed simp

lemma istep_decode_callback_field:
  assumes cb: "dec_callbacks_ok env" and m: "mem_stream s"
  shows "istep s (decode_callback_field n env s wt it st)"
proof -
  let ?f = "\<lambda>sub st. e_decode env (callback_func (mem st) (it_pData it)) sub (it_field it) (callback_arg (it_pData it)) st"
  have f: "istep sub (Some (?f sub st))" if "mem_stream sub" for sub st
    using cb that by (simp add: dec_callbacks_ok_def)
  have str: "istep s (case pb_make_string_substream env s st of
              None \<Rightarrow> None
            | Some (ok, s, sub, st) \<Rightarrow>
                if \<not> ok then Some (False, s, st)
                else (case callback_while n ?f sub st of
                        None \<Rightarrow> None
                      | Some (ok, sub, st) \<Rightarrow>
                          if \<not> ok then Some (False, is_set_error ''callback failed'' s, st)
                          else Some (pb_close_string_substream env s sub st)))"
  proof (cases "pb_make_string_substream env s st")
    case (Some r)
    obtain ok s1 sub st1 where r: "r = (ok, s1, sub, st1)" by (cases r) auto
    note left = make_substream_left [OF m Some [unfolded r]]
    show ?thesis
    proof (cases ok)
      case True
      have mk: "pb_make_string_substream env s st = Some (True, s1, sub, st1)" using Some r True by simp
      show ?thesis
      proof (cases "callback_while n ?f sub st1")
        case (Some q)
        obtain ok2 sub' st2 where q: "q = (ok2, sub', st2)" by (cases q) auto
        have loop: "fstep sub (Some (ok2, sub', it, st2))"
          using istep_callback_while [of ?f, OF f left(2) [OF True], of n st1] Some q by simp
        show ?thesis
          using mk Some q stream_step_error [OF left(1)] packed_close [OF m mk loop, of "is_errmsg s1"]
          by (cases "pb_close_string_substream env s1 sub' st2") auto
      qed (simp add: mk)
    qed (use Some r left in simp)
  qed simp
  have val: "istep s (case read_raw_value env s wt 10 st of (ok, buffer, s, st) \<Rightarrow>
      if \<not> ok then Some (False, s, st)
      else (case G buffer st of (ok, sub, st) \<Rightarrow> Some (ok, s, st)))" for G :: "byte list \<Rightarrow> cstate \<Rightarrow> ires"
    using read_raw_value_step [OF m, of env wt 10 st]
    by (auto split: prod.splits) (metis (full_types) stream_step_False)
  show ?thesis
    unfolding decode_callback_field_def Let_def
    using str val istep_pb_skip_field [OF m] by simp
qed

lemma fstep_pb_release_union_field:
  assumes m: "mem_stream s"
  shows "fstep s (pb_release_union_field n env s it st)"
  unfolding pb_release_union_field_def Let_def
  by (auto split: option.splits intro: stream_step_refl [OF m] stream_step_error [OF stream_step_refl [OF m]])

lemma fstep_decode_field:
  assumes "dec_callbacks_ok env" and "msg_step noinit" and m: "mem_stream s"
  shows "fstep s (decode_field n noinit env s wt it st)"
proof -
  let ?u = "if PB_HTYPE (f_type (it_field it)) = PB_HTYPE_ONEOF
            then pb_release_union_field n env s it st else Some (True, s, it, st)"
  have u: "fstep s ?u" using fstep_pb_release_union_field [OF m] stream_step_refl [OF m] by simp
  show ?thesis
  proof (cases ?u)
    case (Some r)
    obtain ok s1 it1 st1 where r: "r = (ok, s1, it1, st1)" by (cases r) auto
    have one: "stream_step ok s s1" using u Some r by simp
    note m1 = stream_step_mem [OF one]
    show ?thesis
      unfolding decode_field_def Some r option.case prod.case Let_def
      using one m1 assms(1,2) stream_step_error [OF one]
      by (auto intro: fstep_trans fstep_decode_static_field fstep_decode_pointer_field
          istep_trans istep_decode_callback_field)
  qed (simp add: decode_field_def)
qed

section \<open>Messages\<close>

lemma istep_decode_extension_loop:
  assumes cb: "dec_callbacks_ok env" and noinit: "msg_step noinit"
  shows "mem_stream s \<Longrightarrow> istep s (decode_extension_loop k n noinit env pos s ext tag wt st)"
proof (induction k arbitrary: s ext st)
  case (Suc k)
  let ?h = "let decode = exttype_decode (mem st) (ext_type (mem st) ext) in
            if decode \<noteq> 0 then Some (e_ext_decode env decode s ext tag wt st)
            else default_extension_decoder n noinit env s ext tag wt st"
  have "istep s (map_option (\<lambda>(ok, s, it, st). (ok, s, st)) (decode_field n noinit env s wt it st))" for it st
    using fstep_decode_field [OF assms Suc.prems, of n wt it st]
    by (cases "decode_field n noinit env s wt it st") auto
  then have h: "istep s ?h"
    using cb Suc.prems by (simp add: dec_callbacks_ok_def default_extension_decoder_def Let_def stream_step_refl)
  show ?case
  proof (cases ?h)
    case None
    with Suc.prems show ?thesis unfolding decode_extension_loop.simps None by (simp add: stream_step_refl)
  next
    case (Some r)
    obtain ok s1 st1 where r: "r = (ok, s1, st1)" by (cases r) auto
    have one: "stream_step ok s s1" using h unfolding Some r by simp
    show ?thesis
      using Suc.prems one Suc.IH [OF stream_step_mem [OF one]]
      unfolding decode_extension_loop.simps Some r by (auto intro: stream_step_refl istep_trans)
  qed
qed simp

definition lstep :: "pb_istream \<Rightarrow> (bool \<times> pb_istream \<times> noinit_locals \<times> cstate) option \<Rightarrow> bool" where
  "lstep s r \<longleftrightarrow> (\<forall>ok s' l st'. r = Some (ok, s', l, st') \<longrightarrow> stream_step ok s s')"

lemma lstep_simps [simp]:
  "lstep s None" "lstep s (Some (ok, s', l, st')) \<longleftrightarrow> stream_step ok s s'"
  by (simp_all add: lstep_def)

lemma lstep_trans: "stream_step True s s1 \<Longrightarrow> lstep s1 r \<Longrightarrow> lstep s r"
  unfolding lstep_def using stream_step_trans by blast

lemma lstep_decode_unknown:
  assumes "dec_callbacks_ok env" and "msg_step noinit" and m: "mem_stream s"
  shows "lstep s (decode_unknown n noinit env s tag wt l st)"
proof -
  have skip: "lstep s' (map_option (\<lambda>(ok, s, st). (ok, s, l, st)) (pb_skip_field env s' wt st))"
    if "mem_stream s'" for s' l st
    using istep_pb_skip_field [OF that, of env wt st] by (cases "pb_skip_field env s' wt st") auto
  have ext: "istep s (decode_extension n noinit env s tag wt it st)" for it st
    unfolding decode_extension_def by (rule istep_decode_extension_loop [OF assms])
  have after: "lstep s (case decode_extension n noinit env s tag wt it st of
      None \<Rightarrow> None
    | Some (ok, s', st) \<Rightarrow>
        if \<not> ok then Some (False, s', l, st)
        else if bytes_left s \<noteq> bytes_left s' then Some (True, s', l, st)
        else map_option (\<lambda>(ok, s, st). (ok, s, l, st)) (pb_skip_field env s' wt st))" for it l
    using ext [of it st]
    by (auto split: option.splits intro: lstep_trans [OF _ skip [OF stream_step_mem]])
  show ?thesis
    unfolding decode_unknown_def Let_def using skip [OF m] after
    by (auto split: option.splits)
qed

lemma pb_decode_tag_step:
  assumes m: "mem_stream s" and nz: "bytes_left s \<noteq> 0"
    and tag: "pb_decode_tag env s st = Some (ok, wt, tg, eof, s', st')"
  shows "stream_step (ok \<or> eof) s s'"
proof -
  obtain r e s1 st1 where r: "pb_decode_varint32_eof env s st = Some (r, e, s1, st1)"
    using tag by (auto simp: pb_decode_tag_def split: option.splits)
  have "\<not> e" using r nz m
    by (auto simp: pb_decode_varint32_eof_def pb_readbyte_mem split: if_splits option.splits)
  with tag r pb_decode_varint32_eof_step [OF m r] show ?thesis
    by (auto simp: pb_decode_tag_def split: option.splits if_splits)
qed

lemma lstep_noinit_loop:
  assumes cb: "dec_callbacks_ok env" and noinit: "msg_step noinit"
  shows "mem_stream s \<Longrightarrow> lstep s (noinit_loop k n noinit env s l st)"
proof (induction k arbitrary: s l st)
  case (Suc k)
  show ?case
  proof (cases "bytes_left s = 0 \<or> pb_decode_tag env s st = None")
    case True
    then show ?thesis using Suc.prems by (auto intro: stream_step_refl)
  next
    case False
    then obtain ok wt tag eof s1 st1 where tag: "pb_decode_tag env s st = Some (ok, wt, tag, eof, s1, st1)"
      by (cases "pb_decode_tag env s st") auto
    have nz: "bytes_left s \<noteq> 0" using False by simp
    note one = pb_decode_tag_step [OF Suc.prems nz tag]
    note m1 = stream_step_mem [OF one]
    have unknown: "lstep s1 (case decode_unknown n noinit env s1 tag wt l' st1 of
        None \<Rightarrow> None
      | Some (ok, s, l, st) \<Rightarrow> if \<not> ok then Some (False, s, l, st) else noinit_loop k n noinit env s l st)" for l'
      using lstep_decode_unknown [OF assms m1, of n tag wt l' st1]
      by (auto split: option.splits intro: lstep_trans [OF _ Suc.IH [OF stream_step_mem]])
    have known: "lstep s1 (case decode_field n noinit env s1 wt it st1 of
        None \<Rightarrow> None
      | Some (ok, s, it, st) \<Rightarrow>
          if \<not> ok then Some (False, s, l'\<lparr>l_iter := it\<rparr>, st)
          else noinit_loop k n noinit env s (l'\<lparr>l_iter := it\<rparr>) st)" for it l'
      using fstep_decode_field [OF assms m1, of n wt it st1]
      by (auto split: option.splits intro: lstep_trans [OF _ Suc.IH [OF stream_step_mem]])
    show ?thesis
    proof (cases ok)
      case True
      then have go: "stream_step True s s1" using one by simp
      show ?thesis
      proof (cases "pb_field_iter_find (l_iter l) tag")
        case None
        with nz tag True show ?thesis by simp
      next
        case (Some r)
        obtain found it where r: "r = (found, it)" by (cases r) auto
        obtain ok2 l2 where sel: "select_field it l = (ok2, l2)" by (cases "select_field it l") auto
        show ?thesis
          using nz tag True Some r sel stream_step_error [OF go]
            lstep_trans [OF go unknown [of "l\<lparr>l_iter := it\<rparr>"]]
            lstep_trans [OF go known [where it = "l_iter (mark_seen l2)" and l' = "mark_seen l2"]]
          by (cases found; cases ok2) (simp_all add: Let_def)
      qed
    next
      case False
      with one nz tag show ?thesis by simp
    qed
  qed
qed simp

lemma msg_step_pb_decode_noinit:
  assumes "dec_callbacks_ok env"
  shows "msg_step (pb_decode_noinit n env)"
proof (induction n)
  case 0
  then show ?case by (simp add: msg_step_def)
next
  case (Suc n)
  then have ih: "msg_step (\<lambda>s fds dest st. pb_decode_noinit n env s fds dest st)" .
  have fin: "istep s (Some (noinit_finish s' l st))" if "stream_step True s s'" for s s' l st
    using that by (simp add: noinit_finish_def stream_step_error)
  show ?case
    unfolding msg_step_def
  proof (intro allI impI)
    fix s fds dest st assume m: "mem_stream s"
    show "istep s (pb_decode_noinit (Suc n) env s fds dest st)"
      using lstep_noinit_loop [OF assms ih m, of "fuel_for s" n "noinit_start fds dest" st] fin
      by (auto split: option.splits)
  qed
qed

end
