(* ===== verification/Pb_Encode_Refine.thy ===== *)
theory Pb_Encode_Refine
  imports Pb_Encode_Wire
begin

text \<open>
  The encoder refines an abstract writer. A writer is described by what it puts out
  (\<open>wout\<close>): a byte sequence, or a failure or a run that does not return, each after some
  bytes. Whatever the encoder does on a sizing stream it does on a buffer stream as well: the
  same bytes, as long as they fit, and \<^verbatim>\<open>stream full\<close> with nothing written outside the
  buffer when they do not. The relation \<open>wbeh\<close> is closed under the ways the encoder
  composes its parts, which gives the theorem for whole messages by induction on the nesting.
\<close>

section \<open>Writers\<close>

datatype wout = Emits "byte list" | Fails "byte list" | Stuck "byte list"

primrec wbytes :: "wout \<Rightarrow> byte list" where
  "wbytes (Emits bs) = bs"
| "wbytes (Fails bs) = bs"
| "wbytes (Stuck bs) = bs"

type_synonym writer = "pb_ostream \<Rightarrow> cstate \<Rightarrow> ores option"

definition room :: "pb_ostream \<Rightarrow> nat" where
  "room os = unat (max_size os) - unat (bytes_written os)"

definition sizing :: "pb_ostream \<Rightarrow> bool" where
  "sizing os \<longleftrightarrow> os_callback os = None \<and> os_errmsg os = None"

definition buffered :: "pb_ostream \<Rightarrow> bool" where
  "buffered os \<longleftrightarrow> os_callback os = Some buf_write_cb \<and> os_errmsg os = None
     \<and> unat (bytes_written os) \<le> unat (max_size os)"

definition count_stream :: "pb_ostream \<Rightarrow> byte list \<Rightarrow> pb_ostream" where
  "count_stream os bs = os\<lparr>bytes_written := bytes_written os + word_of_nat (length bs)\<rparr>"

definition adv_stream :: "pb_ostream \<Rightarrow> byte list \<Rightarrow> pb_ostream" where
  "adv_stream os bs = os\<lparr>os_state := os_state os + int (length bs),
     bytes_written := bytes_written os + word_of_nat (length bs)\<rparr>"

definition put_obuf :: "pb_ostream \<Rightarrow> byte list \<Rightarrow> cstate \<Rightarrow> cstate" where
  "put_obuf os bs st = st\<lparr>obuf := store_bytes (obuf st) (os_state os) bs\<rparr>"

text \<open>Only the part of the output buffer that is left to the stream has changed.\<close>

definition in_window :: "pb_ostream \<Rightarrow> cstate \<Rightarrow> cstate \<Rightarrow> bool" where
  "in_window os st st' \<longleftrightarrow> (\<exists>ob. st' = st\<lparr>obuf := ob\<rparr>
     \<and> (\<forall>a. a < os_state os \<or> os_state os + int (room os) \<le> a \<longrightarrow> ob a = obuf st a))"

definition gives_up :: "ores option \<Rightarrow> pb_ostream \<Rightarrow> cstate \<Rightarrow> bool" where
  "gives_up r os st \<longleftrightarrow> (\<exists>os' st'. r = Some (False, os', st') \<and> in_window os st st')"

definition runs_full :: "ores option \<Rightarrow> pb_ostream \<Rightarrow> cstate \<Rightarrow> bool" where
  "runs_full r os st \<longleftrightarrow> (\<exists>os' st'. r = Some (False, os', st')
     \<and> os_errmsg os' = Some ''stream full'' \<and> in_window os st st')"

definition wsize :: "wout \<Rightarrow> ores option \<Rightarrow> pb_ostream \<Rightarrow> cstate \<Rightarrow> bool" where
  "wsize w r os st =
     (case w of
        Emits bs \<Rightarrow> r = Some (True, count_stream os bs, st)
      | Fails _ \<Rightarrow> (\<exists>os'. r = Some (False, os', st))
      | Stuck _ \<Rightarrow> r = None)"

definition wbuf :: "wout \<Rightarrow> ores option \<Rightarrow> pb_ostream \<Rightarrow> cstate \<Rightarrow> bool" where
  "wbuf w r os st =
     (case w of
        Emits bs \<Rightarrow> if length bs \<le> room os then r = Some (True, adv_stream os bs, put_obuf os bs st)
                    else runs_full r os st
      | Fails _ \<Rightarrow> gives_up r os st
      | Stuck _ \<Rightarrow> r = None \<or> gives_up r os st)"

definition wbeh :: "writer \<Rightarrow> memory \<Rightarrow> wout \<Rightarrow> bool" where
  "wbeh F m w \<longleftrightarrow>
     (\<forall>os st. mem st = m \<longrightarrow> sizing os \<longrightarrow> wsize w (F os st) os st)
   \<and> (\<forall>os st. mem st = m \<longrightarrow> buffered os
        \<longrightarrow> unat (bytes_written os) + length (wbytes w) < 2 ^ 64 \<longrightarrow> wbuf w (F os st) os st)"

lemma wbehI:
  assumes "\<And>os st. mem st = m \<Longrightarrow> sizing os \<Longrightarrow> wsize w (F os st) os st"
    and "\<And>os st. mem st = m \<Longrightarrow> buffered os
      \<Longrightarrow> unat (bytes_written os) + length (wbytes w) < 2 ^ 64 \<Longrightarrow> wbuf w (F os st) os st"
  shows "wbeh F m w"
  using assms by (simp add: wbeh_def)

lemma wbeh_sizing: "wbeh F m w \<Longrightarrow> mem st = m \<Longrightarrow> sizing os \<Longrightarrow> wsize w (F os st) os st"
  by (simp add: wbeh_def)

lemma wbeh_buffered: "wbeh F m w \<Longrightarrow> mem st = m \<Longrightarrow> buffered os
    \<Longrightarrow> unat (bytes_written os) + length (wbytes w) < 2 ^ 64 \<Longrightarrow> wbuf w (F os st) os st"
  by (simp add: wbeh_def)

lemma wbeh_cong:
  assumes "\<And>os st. mem st = m \<Longrightarrow> F os st = G os st"
  shows "wbeh F m w \<longleftrightarrow> wbeh G m w"
  using assms by (simp add: wbeh_def)

section \<open>Windows\<close>

lemma in_window_refl [simp, intro]: "in_window os st st"
  unfolding in_window_def by (rule exI [of _ "obuf st"]) simp

lemma in_window_mem: "in_window os st st' \<Longrightarrow> mem st' = mem st"
  by (auto simp: in_window_def)

lemma in_window_put: "length bs \<le> room os \<Longrightarrow> in_window os st (put_obuf os bs st)"
  by (auto simp: in_window_def put_obuf_def store_bytes_outside
      intro!: exI [of _ "store_bytes (obuf st) (os_state os) bs"])

lemma in_window_sub:
  assumes "in_window os' st st'" and "os_state os \<le> os_state os'"
    and "os_state os' + int (room os') \<le> os_state os + int (room os)"
  shows "in_window os st st'"
  using assms by (force simp: in_window_def)

lemma in_window_trans:
  assumes "in_window os st st'" and "in_window os st' st''"
  shows "in_window os st st''"
  using assms by (auto simp: in_window_def)

lemma adv_stream_sel [simp]:
  "os_callback (adv_stream os bs) = os_callback os"
  "os_errmsg (adv_stream os bs) = os_errmsg os"
  "max_size (adv_stream os bs) = max_size os"
  "os_state (adv_stream os bs) = os_state os + int (length bs)"
  "bytes_written (adv_stream os bs) = bytes_written os + word_of_nat (length bs)"
  by (simp_all add: adv_stream_def)

lemma count_stream_sel [simp]:
  "os_callback (count_stream os bs) = os_callback os"
  "os_errmsg (count_stream os bs) = os_errmsg os"
  "bytes_written (count_stream os bs) = bytes_written os + word_of_nat (length bs)"
  by (simp_all add: count_stream_def)

lemma put_obuf_mem [simp]: "mem (put_obuf os bs st) = mem st"
  by (simp add: put_obuf_def)

lemma unat_add_len:
  "unat (w :: u64) + n < 2 ^ 64 \<Longrightarrow> unat (w + word_of_nat n) = unat w + n"
  by (simp add: unat_word_ariths unat_of_nat)

lemma buffered_adv:
  assumes "buffered os" and "length bs \<le> room os"
  shows "buffered (adv_stream os bs)" and "room (adv_stream os bs) = room os - length bs"
    and "unat (bytes_written (adv_stream os bs)) = unat (bytes_written os) + length bs"
proof -
  have le: "unat (bytes_written os) + length bs \<le> unat (max_size os)"
    using assms by (auto simp: buffered_def room_def)
  then have lt: "unat (bytes_written os) + length bs < 2 ^ 64"
    using unat_lt2p [of "max_size os"] by simp
  note e = unat_add_len [OF lt]
  show "unat (bytes_written (adv_stream os bs)) = unat (bytes_written os) + length bs"
    using e by simp
  show "buffered (adv_stream os bs)" using assms le e by (simp add: buffered_def)
  show "room (adv_stream os bs) = room os - length bs" using e by (simp add: room_def)
qed

lemma in_window_adv:
  assumes "buffered os" and "length bs \<le> room os"
    and "in_window (adv_stream os bs) (put_obuf os bs st) st'"
  shows "in_window os st st'"
proof -
  have "in_window os (put_obuf os bs st) st'"
    by (rule in_window_sub [OF assms(3)]) (use buffered_adv [OF assms(1,2)] assms(2) in auto)
  with in_window_put [OF assms(2)] show ?thesis by (rule in_window_trans)
qed

lemma adv_stream_append: "adv_stream (adv_stream os xs) ys = adv_stream os (xs @ ys)"
  by (simp add: adv_stream_def algebra_simps)

lemma count_stream_append: "count_stream (count_stream os xs) ys = count_stream os (xs @ ys)"
  by (simp add: count_stream_def algebra_simps)

lemma put_obuf_append: "put_obuf (adv_stream os xs) ys (put_obuf os xs st) = put_obuf os (xs @ ys) st"
  by (simp add: put_obuf_def adv_stream_def store_bytes_append)

section \<open>Closure\<close>

fun wseq :: "wout \<Rightarrow> wout \<Rightarrow> wout" where
  "wseq (Emits a) (Emits b) = Emits (a @ b)"
| "wseq (Emits a) (Fails b) = Fails (a @ b)"
| "wseq (Emits a) (Stuck b) = Stuck (a @ b)"
| "wseq (Fails a) w = Fails a"
| "wseq (Stuck a) w = Stuck a"

lemma wseq_assoc: "wseq u (wseq v w) = wseq (wseq u v) w"
  by (cases u; cases v; cases w) simp_all

lemma wbytes_wseq: "length (wbytes w) \<le> length (wbytes (wseq w w'))"
  by (cases "(w, w')" rule: wseq.cases) auto

lemma wbeh_ok: "wbeh (\<lambda>os st. Some (True, os, st)) m (Emits [])"
  by (rule wbehI) (simp_all add: wsize_def wbuf_def count_stream_def adv_stream_def put_obuf_def)

lemma wbeh_error: "wbeh (\<lambda>os st. Some (False, os_set_error msg os, st)) m (Fails [])"
  by (rule wbehI) (auto simp: wsize_def wbuf_def gives_up_def)

lemma wbeh_stuck: "wbeh (\<lambda>os st. None) m (Stuck [])"
  by (rule wbehI) (auto simp: wsize_def wbuf_def)

lemma wseq_sizing:
  assumes "wsize w r os st" and "wsize w' (G (count_stream os (wbytes w)) st) (count_stream os (wbytes w)) st"
  shows "wsize (wseq w w') (and_then_opt r G) os st"
  using assms by (cases "(w, w')" rule: wseq.cases)
    (auto simp: wsize_def and_then_opt_def count_stream_append)

lemma wseq_buffered:
  assumes b: "buffered os"
    and F: "wbuf w r os st"
    and G: "\<And>bs. w = Emits bs \<Longrightarrow> length bs \<le> room os
      \<Longrightarrow> wbuf w' (G (adv_stream os bs) (put_obuf os bs st)) (adv_stream os bs) (put_obuf os bs st)"
  shows "wbuf (wseq w w') (and_then_opt r G) os st"
proof (cases w)
  case (Emits a)
  show ?thesis
  proof (cases "length a \<le> room os")
    case True
    with F Emits have r: "r = Some (True, adv_stream os a, put_obuf os a st)"
      by (simp add: wbuf_def)
    note g = G [OF Emits True] and rm = buffered_adv(2) [OF b True]
    show ?thesis
    proof (cases w')
      case W: (Emits c)
      show ?thesis
      proof (cases "length c \<le> room (adv_stream os a)")
        case True
        with W Emits r g rm \<open>length a \<le> room os\<close> show ?thesis
          by (auto simp: wbuf_def and_then_opt_def adv_stream_append put_obuf_append)
      next
        case False
        with W Emits r g rm \<open>length a \<le> room os\<close> in_window_adv [OF b \<open>length a \<le> room os\<close>]
        show ?thesis by (auto simp: wbuf_def and_then_opt_def runs_full_def)
      qed
    next
      case (Fails c)
      with Emits r g in_window_adv [OF b True] show ?thesis
        by (auto simp: wbuf_def and_then_opt_def gives_up_def)
    next
      case (Stuck c)
      with Emits r g in_window_adv [OF b True] show ?thesis
        by (auto simp: wbuf_def and_then_opt_def gives_up_def)
    qed
  next
    case False
    with F Emits show ?thesis
      by (cases w') (auto simp: wbuf_def and_then_opt_def runs_full_def gives_up_def)
  qed
next
  case (Fails a)
  with F show ?thesis by (auto simp: wbuf_def and_then_opt_def gives_up_def)
next
  case (Stuck a)
  with F show ?thesis by (auto simp: wbuf_def and_then_opt_def gives_up_def)
qed

lemma wbeh_seq:
  assumes F: "wbeh F m w" and G: "wbeh G m w'"
  shows "wbeh (\<lambda>os st. and_then_opt (F os st) G) m (wseq w w')"
proof (rule wbehI)
  fix os :: pb_ostream and st :: cstate
  assume st: "mem st = m" and s: "sizing os"
  have "sizing (count_stream os (wbytes w))" using s by (simp add: sizing_def)
  then show "wsize (wseq w w') (and_then_opt (F os st) G) os st"
    using wbeh_sizing [OF F st s] wbeh_sizing [OF G st] by (intro wseq_sizing) auto
next
  fix os :: pb_ostream and st :: cstate
  assume st: "mem st = m" and b: "buffered os"
    and len: "unat (bytes_written os) + length (wbytes (wseq w w')) < 2 ^ 64"
  have "unat (bytes_written os) + length (wbytes w) < 2 ^ 64"
    using len wbytes_wseq [of w w'] by linarith
  then have "wbuf w (F os st) os st" by (rule wbeh_buffered [OF F st b])
  with b show "wbuf (wseq w w') (and_then_opt (F os st) G) os st"
  proof (rule wseq_buffered)
    fix bs assume w: "w = Emits bs" and fits: "length bs \<le> room os"
    have "length (wbytes (wseq w w')) = length bs + length (wbytes w')"
      using w by (cases w') auto
    then show "wbuf w' (G (adv_stream os bs) (put_obuf os bs st)) (adv_stream os bs) (put_obuf os bs st)"
      using len st buffered_adv [OF b fits] by (intro wbeh_buffered [OF G]) auto
  qed
qed

lemma wbeh_if:
  "(b \<Longrightarrow> wbeh F m v) \<Longrightarrow> (\<not> b \<Longrightarrow> wbeh G m w)
     \<Longrightarrow> wbeh (\<lambda>os st. if b then F os st else G os st) m (if b then v else w)"
  by (cases b) simp_all

lemma wbeh_from_mem:
  assumes "wbeh G m w" and "\<And>os st. mem st = m \<Longrightarrow> F os st = G os st"
  shows "wbeh F m w"
  using assms wbeh_cong [of m F G w] by simp

lemma Some_and_then: "Some (and_then r k) = and_then_opt (Some r) (\<lambda>os st. Some (k os st))"
  by (cases r) (simp add: and_then_def and_then_opt_def)

section \<open>Primitives\<close>

lemma full_iff:
  assumes "unat (bw :: u64) + n < 2 ^ 64" and "unat bw \<le> unat (mx :: u64)"
  shows "bw + word_of_nat n > mx \<longleftrightarrow> \<not> n \<le> unat mx - unat bw"
  using assms by (auto simp: word_less_nat_alt unat_add_len)

lemma wbeh_write: "wbeh (\<lambda>os st. Some (pb_write env os bs (word_of_nat (length bs)) st)) m (Emits bs)"
proof (rule wbehI)
  fix os :: pb_ostream and st :: cstate
  assume "sizing os"
  then show "wsize (Emits bs) (Some (pb_write env os bs (word_of_nat (length bs)) st)) os st"
    by (simp add: wsize_def pb_write_def sizing_def count_stream_def)
next
  fix os :: pb_ostream and st :: cstate
  assume b: "buffered os" and len: "unat (bytes_written os) + length (wbytes (Emits bs)) < 2 ^ 64"
  have cb: "os_callback os = Some buf_write_cb" "os_errmsg os = None" using b by (auto simp: buffered_def)
  have u: "unat (word_of_nat (length bs) :: u64) = length bs"
    using len by (simp add: unat_of_nat)
  then have ui: "uint (word_of_nat (length bs) :: u64) = int (length bs)"
    by (metis uint_nat)
  have fl: "bytes_written os + word_of_nat (length bs) > max_size os \<longleftrightarrow> \<not> length bs \<le> room os"
    using full_iff [of "bytes_written os" "length bs" "max_size os"] len b
    by (simp add: room_def buffered_def)
  show "wbuf (Emits bs) (Some (pb_write env os bs (word_of_nat (length bs)) st)) os st"
  proof (cases "length bs \<le> room os")
    case True
    then show ?thesis using fl cb u ui
      by (simp add: wbuf_def pb_write_def call_write_def buf_write_def adv_stream_def put_obuf_def)
  next
    case False
    then show ?thesis using fl cb
      by (auto simp: wbuf_def pb_write_def runs_full_def os_set_error_def)
  qed
qed

lemma wbeh_varint: "wbeh (\<lambda>os st. Some (pb_encode_varint env os v st)) m (Emits (pb_varint_bytes v))"
  unfolding pb_encode_varint_write by (rule wbeh_write)

lemma wbeh_tag:
  "wbeh (\<lambda>os st. Some (pb_encode_tag env os wt n st)) m (Emits (pb_varint_bytes (tag_word wt n)))"
  unfolding pb_encode_tag_def by (rule wbeh_varint)

definition tag_out :: "pb_field \<Rightarrow> wout" where
  "tag_out fld = (case wire_type_of (PB_LTYPE (f_type fld)) of
     None \<Rightarrow> Fails [] | Some wt \<Rightarrow> Emits (pb_varint_bytes (tag_word wt (f_tag fld))))"

lemma wbeh_tag_for_field:
  "wbeh (\<lambda>os st. Some (pb_encode_tag_for_field env os fld st)) m (tag_out fld)"
  by (cases "wire_type_of (PB_LTYPE (f_type fld))")
     (auto simp: pb_encode_tag_for_field_def tag_out_def intro: wbeh_tag wbeh_error)

definition string_out :: "byte list \<Rightarrow> wout" where
  "string_out bs = Emits (pb_varint_bytes (word_of_nat (length bs)) @ bs)"

lemma wbeh_string:
  "wbeh (\<lambda>os st. Some (pb_encode_string env os bs (word_of_nat (length bs)) st)) m (string_out bs)"
proof -
  have "wbeh (\<lambda>os st. and_then_opt (Some (pb_encode_varint env os (word_of_nat (length bs)) st))
      (\<lambda>os st. Some (pb_write env os bs (word_of_nat (length bs)) st))) m
      (wseq (Emits (pb_varint_bytes (word_of_nat (length bs)))) (Emits bs))"
    by (rule wbeh_seq [OF wbeh_varint wbeh_write])
  then show ?thesis by (simp add: pb_encode_string_def Some_and_then string_out_def)
qed

lemma wbeh_svarint:
  "wbeh (\<lambda>os st. Some (pb_encode_svarint env os v st)) m (Emits (pb_varint_bytes (zigzag v)))"
  unfolding pb_encode_svarint_def by (rule wbeh_varint)

section \<open>Field encoders\<close>

definition varint_out :: "pb_field \<Rightarrow> addr \<Rightarrow> memory \<Rightarrow> wout" where
  "varint_out fld src m =
     (if f_data_size fld = 1 then Emits (pb_varint_bytes (scast (load8 m src)))
      else if f_data_size fld = 2 then Emits (pb_varint_bytes (scast (load16 m src)))
      else if f_data_size fld = 4 then Emits (pb_varint_bytes (scast (load32 m src)))
      else if f_data_size fld = 8 then Emits (pb_varint_bytes (load64 m src))
      else Fails [])"

lemma wbeh_pb_enc_varint:
  "wbeh (\<lambda>os st. Some (pb_enc_varint env os fld src st)) m (varint_out fld src m)"
  unfolding varint_out_def
  by (rule wbeh_from_mem, (rule wbeh_if wbeh_varint [of env] wbeh_error [of "''invalid data_size''"])+)
     (simp add: pb_enc_varint_def)

definition uvarint_out :: "pb_field \<Rightarrow> addr \<Rightarrow> memory \<Rightarrow> wout" where
  "uvarint_out fld src m =
     (if f_data_size fld = 1 then Emits (pb_varint_bytes (ucast (load8 m src)))
      else if f_data_size fld = 2 then Emits (pb_varint_bytes (ucast (load16 m src)))
      else if f_data_size fld = 4 then Emits (pb_varint_bytes (ucast (load32 m src)))
      else if f_data_size fld = 8 then Emits (pb_varint_bytes (load64 m src))
      else Fails [])"

lemma wbeh_pb_enc_uvarint:
  "wbeh (\<lambda>os st. Some (pb_enc_uvarint env os fld src st)) m (uvarint_out fld src m)"
  unfolding uvarint_out_def
  by (rule wbeh_from_mem, (rule wbeh_if wbeh_varint [of env] wbeh_error [of "''invalid data_size''"])+)
     (simp add: pb_enc_uvarint_def)

definition svarint_out :: "pb_field \<Rightarrow> addr \<Rightarrow> memory \<Rightarrow> wout" where
  "svarint_out fld src m =
     (if f_data_size fld = 1 then Emits (pb_varint_bytes (zigzag (scast (load8 m src))))
      else if f_data_size fld = 2 then Emits (pb_varint_bytes (zigzag (scast (load16 m src))))
      else if f_data_size fld = 4 then Emits (pb_varint_bytes (zigzag (scast (load32 m src))))
      else if f_data_size fld = 8 then Emits (pb_varint_bytes (zigzag (load64 m src)))
      else Fails [])"

lemma wbeh_pb_enc_svarint:
  "wbeh (\<lambda>os st. Some (pb_enc_svarint env os fld src st)) m (svarint_out fld src m)"
  unfolding svarint_out_def
  by (rule wbeh_from_mem, (rule wbeh_if wbeh_svarint [of env] wbeh_error [of "''invalid data_size''"])+)
     (simp add: pb_enc_svarint_def)

lemma wbeh_pb_enc_fixed32:
  "wbeh (\<lambda>os st. Some (pb_enc_fixed32 env os fld src st)) m (Emits (fixed32_bytes (load32 m src)))"
  by (rule wbeh_from_mem [OF wbeh_write [of env "fixed32_bytes (load32 m src)"]])
     (simp add: pb_enc_fixed32_def pb_encode_fixed32_def fixed32_bytes_def)

lemma wbeh_pb_enc_fixed64:
  "wbeh (\<lambda>os st. Some (pb_enc_fixed64 env os fld src st)) m (Emits (fixed64_bytes (load64 m src)))"
  by (rule wbeh_from_mem [OF wbeh_write [of env "fixed64_bytes (load64 m src)"]])
     (simp add: pb_enc_fixed64_def pb_encode_fixed64_def fixed64_bytes_def)

lemma wbeh_string_ucast:
  "length bs = unat (n :: u32) \<Longrightarrow>
     wbeh (\<lambda>os st. Some (pb_encode_string env os bs (ucast n) st)) m (string_out bs)"
  using wbeh_string [of env bs m] by simp

definition bytes_out :: "pb_field \<Rightarrow> addr \<Rightarrow> memory \<Rightarrow> wout" where
  "bytes_out fld src m =
     (if src = 0 then string_out []
      else if PB_ATYPE (f_type fld) = PB_ATYPE_STATIC
           \<and> PB_BYTES_ARRAY_T_ALLOCSIZE (bytes_array_size m src) > ucast (f_data_size fld)
      then Fails []
      else string_out (load_bytes m (bytes_array_bytes src) (unat (bytes_array_size m src))))"

lemma wbeh_pb_enc_bytes:
  "wbeh (\<lambda>os st. Some (pb_enc_bytes env os fld src st)) m (bytes_out fld src m)"
proof -
  let ?n = "bytes_array_size m src"
  have null: "wbeh (\<lambda>os st. Some (pb_encode_string env os [] 0 st)) m (string_out [])"
    using wbeh_string_ucast [of "[]" 0 env m] by simp
  have data: "wbeh (\<lambda>os st. Some (pb_encode_string env os
      (load_bytes m (bytes_array_bytes src) (unat ?n)) (ucast ?n) st)) m
      (string_out (load_bytes m (bytes_array_bytes src) (unat ?n)))"
    by (rule wbeh_string_ucast) simp
  show ?thesis
    unfolding bytes_out_def
    by (rule wbeh_from_mem, (rule wbeh_if null wbeh_error [of "''bytes size exceeded''"] data)+)
       (simp add: pb_enc_bytes_def Let_def)
qed

definition cstring_out :: "pb_field \<Rightarrow> addr \<Rightarrow> memory \<Rightarrow> wout" where
  "cstring_out fld src m = string_out (load_bytes m src (if src = 0 then 0 else strnlen m src
     (if PB_ATYPE (f_type fld) = PB_ATYPE_POINTER then 2 ^ 64 - 1 else unat (f_data_size fld))))"

lemma wbeh_pb_enc_string:
  "wbeh (\<lambda>os st. Some (pb_enc_string env os fld src st)) m (cstring_out fld src m)"
  unfolding cstring_out_def
  by (rule wbeh_from_mem [OF wbeh_string [of env]]) (simp add: pb_enc_string_def Let_def)

definition fixed_length_bytes_out :: "pb_field \<Rightarrow> addr \<Rightarrow> memory \<Rightarrow> wout" where
  "fixed_length_bytes_out fld src m = string_out (load_bytes m src (unat (f_data_size fld)))"

lemma wbeh_pb_enc_fixed_length_bytes:
  "wbeh (\<lambda>os st. Some (pb_enc_fixed_length_bytes env os fld src st)) m (fixed_length_bytes_out fld src m)"
  unfolding fixed_length_bytes_out_def
  by (rule wbeh_from_mem [OF wbeh_string_ucast [of _ "f_data_size fld"]])
     (simp_all add: pb_enc_fixed_length_bytes_def)

section \<open>Submessages\<close>

lemma sizing_PB_OSTREAM_SIZING [simp]: "sizing PB_OSTREAM_SIZING"
  by (simp add: sizing_def PB_OSTREAM_SIZING_def)

fun sub_out :: "wout \<Rightarrow> wout" where
  "sub_out (Emits bs) = Emits (pb_varint_bytes (word_of_nat (length bs)) @ bs)"
| "sub_out (Fails bs) = Fails []"
| "sub_out (Stuck bs) = Stuck []"

text \<open>What follows the length of a submessage.\<close>

definition submessage_body ::
    "message_encoder \<Rightarrow> cenv \<Rightarrow> u64 \<Rightarrow> pb_field list \<Rightarrow> addr \<Rightarrow> writer" where
  "submessage_body enc env sz fds src os st =
     (if os_callback os = None then Some (pb_write env os [] sz st)
      else if bytes_written os + sz > max_size os
      then Some (False, os_set_error ''stream full'' os, st)
      else
        (case enc (\<lparr>os_callback = os_callback os, os_state = os_state os,
                    max_size = sz, bytes_written = 0, os_errmsg = None\<rparr>) fds src st of
           None \<Rightarrow> None
         | Some (status, sub, st) \<Rightarrow>
             let os = os\<lparr>bytes_written := bytes_written os + bytes_written sub,
                         os_state := os_state sub, os_errmsg := os_errmsg sub\<rparr>
             in if bytes_written sub \<noteq> sz
                then Some (False, os_set_error ''submsg size changed'' os, st)
                else Some (status, os, st)))"

lemma substream_reset:
  "sub\<lparr>os_callback := a, os_state := b, max_size := c, bytes_written := d, os_errmsg := e\<rparr>
     = \<lparr>os_callback = a, os_state = b, max_size = c, bytes_written = d, os_errmsg = e\<rparr>"
  for sub :: pb_ostream
  by (cases sub) simp

lemma pb_encode_submessage_alt:
  "pb_encode_submessage enc env os fds src st =
     (case enc PB_OSTREAM_SIZING fds src st of
        None \<Rightarrow> None
      | Some (ok, sub, st) \<Rightarrow>
          if \<not> ok then Some (False, os\<lparr>os_errmsg := os_errmsg sub\<rparr>, st)
          else and_then_opt (Some (pb_encode_varint env os (bytes_written sub) st))
                 (submessage_body enc env (bytes_written sub) fds src))"
  unfolding pb_encode_submessage_def Let_def submessage_body_def substream_reset
  by (intro option.case_cong prod.case_cong if_cong arg_cong2 [of _ _ _ _ and_then_opt] refl ext)

lemma wbeh_submessage_body:
  assumes e: "wbeh (\<lambda>os st. enc os fds src st) m (Emits bs)"
  shows "wbeh (submessage_body enc env (word_of_nat (length bs)) fds src) m (Emits bs)"
proof (rule wbehI)
  fix os :: pb_ostream and st :: cstate
  assume "sizing os"
  then show "wsize (Emits bs) (submessage_body enc env (word_of_nat (length bs)) fds src os st) os st"
    by (simp add: wsize_def submessage_body_def sizing_def pb_write_def count_stream_def)
next
  fix os :: pb_ostream and st :: cstate
  assume st: "mem st = m" and b: "buffered os"
    and len: "unat (bytes_written os) + length (wbytes (Emits bs)) < 2 ^ 64"
  let ?sub = "\<lparr>os_callback = os_callback os, os_state = os_state os,
    max_size = word_of_nat (length bs), bytes_written = 0, os_errmsg = None\<rparr> :: pb_ostream"
  have cb: "os_callback os = Some buf_write_cb" "os_errmsg os = None"
    using b by (auto simp: buffered_def)
  have u: "unat (word_of_nat (length bs) :: u64) = length bs" using len by (simp add: unat_of_nat)
  have fl: "bytes_written os + word_of_nat (length bs) > max_size os \<longleftrightarrow> \<not> length bs \<le> room os"
    using full_iff [of "bytes_written os" "length bs" "max_size os"] len b
    by (simp add: room_def buffered_def)
  show "wbuf (Emits bs) (submessage_body enc env (word_of_nat (length bs)) fds src os st) os st"
  proof (cases "length bs \<le> room os")
    case True
    have "wbuf (Emits bs) (enc ?sub fds src st) ?sub st"
      by (rule wbeh_buffered [OF e st]) (use cb u len in \<open>auto simp: buffered_def\<close>)
    then have "enc ?sub fds src st = Some (True, adv_stream ?sub bs, put_obuf ?sub bs st)"
      by (simp add: wbuf_def room_def u)
    then show ?thesis using True fl cb u
      by (simp add: wbuf_def submessage_body_def put_obuf_def adv_stream_def Let_def)
  next
    case False
    then show ?thesis using fl cb
      by (auto simp: wbuf_def submessage_body_def runs_full_def os_set_error_def)
  qed
qed

lemma wbeh_pb_encode_submessage:
  assumes e: "wbeh (\<lambda>os st. enc os fds src st) m w"
  shows "wbeh (\<lambda>os st. pb_encode_submessage enc env os fds src st) m (sub_out w)"
proof (cases w)
  case (Emits bs)
  have "wbeh (\<lambda>os st. and_then_opt (Some (pb_encode_varint env os (word_of_nat (length bs)) st))
        (submessage_body enc env (word_of_nat (length bs)) fds src)) m
        (wseq (Emits (pb_varint_bytes (word_of_nat (length bs)))) (Emits bs))"
    by (rule wbeh_seq [OF wbeh_varint wbeh_submessage_body]) (use e Emits in simp)
  moreover have "pb_encode_submessage enc env os fds src st
      = and_then_opt (Some (pb_encode_varint env os (word_of_nat (length bs)) st))
          (submessage_body enc env (word_of_nat (length bs)) fds src)" if "mem st = m" for os st
    using wbeh_sizing [OF e that sizing_PB_OSTREAM_SIZING] Emits
    by (simp add: pb_encode_submessage_alt wsize_def PB_OSTREAM_SIZING_def)
  ultimately show ?thesis
    using Emits by (simp add: wbeh_cong [of m "\<lambda>os st. pb_encode_submessage enc env os fds src st"])
next
  case (Fails bs)
  have "\<exists>os'. pb_encode_submessage enc env os fds src st = Some (False, os', st)"
    if "mem st = m" for os st
    using wbeh_sizing [OF e that sizing_PB_OSTREAM_SIZING] Fails
    by (auto simp: pb_encode_submessage_alt wsize_def)
  then show ?thesis using Fails
    by (intro wbehI) (fastforce simp: wsize_def wbuf_def gives_up_def)+
next
  case (Stuck bs)
  have "pb_encode_submessage enc env os fds src st = None" if "mem st = m" for os st
    using wbeh_sizing [OF e that sizing_PB_OSTREAM_SIZING] Stuck
    by (simp add: pb_encode_submessage_alt wsize_def)
  then show ?thesis using Stuck
    by (intro wbehI) (auto simp: wsize_def wbuf_def)
qed

section \<open>The abstract encoder\<close>

text \<open>
  What a message type and a memory image put on the wire. \<open>msg\<close> gives nested messages,
  \<open>co\<close> and \<open>eo\<close> what the user's field callbacks and extension handlers write.
\<close>

type_synonym msg_spec = "pb_field list \<Rightarrow> addr \<Rightarrow> wout"
type_synonym callback_spec = "addr \<Rightarrow> pb_field \<Rightarrow> addr \<Rightarrow> memory \<Rightarrow> wout"
type_synonym handler_spec = "addr \<Rightarrow> addr \<Rightarrow> memory \<Rightarrow> wout"

definition item_out :: "msg_spec \<Rightarrow> cenv \<Rightarrow> pb_field \<Rightarrow> addr \<Rightarrow> memory \<Rightarrow> wout" where
  "item_out msg env fld src m =
     (let lt = PB_LTYPE (f_type fld) in
      if lt = PB_LTYPE_VARINT then varint_out fld src m
      else if lt = PB_LTYPE_UVARINT then uvarint_out fld src m
      else if lt = PB_LTYPE_SVARINT then svarint_out fld src m
      else if lt = PB_LTYPE_FIXED32 then Emits (fixed32_bytes (load32 m src))
      else if lt = PB_LTYPE_FIXED64 then Emits (fixed64_bytes (load64 m src))
      else if lt = PB_LTYPE_BYTES then bytes_out fld src m
      else if lt = PB_LTYPE_STRING then cstring_out fld src m
      else if lt = PB_LTYPE_SUBMESSAGE
      then (if f_ptr fld = 0 then Fails [] else sub_out (msg (e_fields env (f_ptr fld)) src))
      else if lt = PB_LTYPE_FIXED_LENGTH_BYTES then fixed_length_bytes_out fld src m
      else Stuck [])"

text \<open>The items of an array, one after the other; packed arrays are preceded by their size.\<close>

fun items_out :: "(addr \<Rightarrow> wout) \<Rightarrow> int \<Rightarrow> nat \<Rightarrow> addr \<Rightarrow> wout" where
  "items_out f k 0 p = Emits []"
| "items_out f k (Suc n) p = wseq (f p) (items_out f k n (p + k))"

definition array_out :: "(addr \<Rightarrow> wout) \<Rightarrow> pb_field \<Rightarrow> addr \<Rightarrow> u64 \<Rightarrow> memory \<Rightarrow> wout" where
  "array_out f fld p count m =
     (let k = uint (f_data_size fld) in
      if count = 0 then Emits []
      else if PB_ATYPE (f_type fld) \<noteq> PB_ATYPE_POINTER \<and> count > ucast (f_array_size fld)
      then Fails []
      else if PB_LTYPE (f_type fld) \<le> PB_LTYPE_LAST_PACKABLE
      then wseq (Emits (pb_varint_bytes (tag_word PB_WT_STRING (f_tag fld))))
                (sub_out (items_out f k (unat count) p))
      else items_out (\<lambda>p. wseq (tag_out fld) (f (array_item fld m p))) k (unat count) p)"

definition basic_out ::
    "nat \<Rightarrow> msg_spec \<Rightarrow> cenv \<Rightarrow> pb_field \<Rightarrow> addr \<Rightarrow> memory \<Rightarrow> wout" where
  "basic_out n msg env fld pData0 m =
     (let pointer = (PB_ATYPE (f_type fld) = PB_ATYPE_POINTER);
          pSize = pData0 + sint (f_size_offset fld);
          pData = (if pointer then load_ptr m pData0 else pData0);
          item = item_out msg env fld;
          whole = wseq (tag_out fld) (item pData m)
      in case (if f_size_offset fld \<noteq> 0 then Some False
               else if PB_HTYPE (f_type fld) = PB_HTYPE_OPTIONAL
               then map_option Not (pb_check_proto3_default_value n env m fld pData0)
               else Some True) of
           None \<Rightarrow> Stuck []
         | Some has0 \<Rightarrow>
             if PB_HTYPE (f_type fld) = PB_HTYPE_REQUIRED
             then (if pData = 0 then Fails [] else whole)
             else if PB_HTYPE (f_type fld) = PB_HTYPE_OPTIONAL
             then (if (if f_size_offset fld \<noteq> 0 then load_bool m pSize
                       else if pointer then pData \<noteq> 0 else has0)
                   then whole else Emits [])
             else if PB_HTYPE (f_type fld) = PB_HTYPE_REPEATED
             then array_out (\<lambda>p. item p m) fld pData
                    (if f_size_offset fld \<noteq> 0 then ucast (load32 m pSize)
                     else ucast (f_array_size fld)) m
             else if PB_HTYPE (f_type fld) = PB_HTYPE_ONEOF
             then (if f_size_offset fld = 0 then Stuck []
                   else if load32 m pSize = f_tag fld then whole else Emits [])
             else Fails [])"

definition field_out ::
    "callback_spec \<Rightarrow> nat \<Rightarrow> msg_spec \<Rightarrow> cenv \<Rightarrow> pb_field \<Rightarrow> addr \<Rightarrow> memory \<Rightarrow> wout" where
  "field_out co n msg env fld pData m =
     (if PB_ATYPE (f_type fld) = PB_ATYPE_STATIC \<or> PB_ATYPE (f_type fld) = PB_ATYPE_POINTER
      then basic_out n msg env fld pData m
      else if PB_ATYPE (f_type fld) = PB_ATYPE_CALLBACK
      then (if callback_func m pData = 0 then Emits []
            else co (callback_func m pData) fld (callback_arg pData) m)
      else Fails [])"

fun extension_out ::
    "callback_spec \<Rightarrow> handler_spec \<Rightarrow> nat \<Rightarrow> nat \<Rightarrow> msg_spec \<Rightarrow> cenv \<Rightarrow> addr \<Rightarrow> memory \<Rightarrow> wout" where
  "extension_out co eo 0 n msg env ext m = (if ext = 0 then Emits [] else Stuck [])"
| "extension_out co eo (Suc k) n msg env ext m =
     (if ext = 0 then Emits []
      else let fn = exttype_encode m (ext_type m ext);
               fld = field_at (e_fields env (exttype_arg m (ext_type m ext))) 0
           in wseq
             (if fn \<noteq> 0 then eo fn ext m
              else if PB_ATYPE (f_type fld) = PB_ATYPE_POINTER
              then field_out co n msg env fld (ext_dest_addr ext) m
              else field_out co n msg env fld (ext_dest m ext) m)
             (extension_out co eo k n msg env (ext_next m ext) m))"

definition one_out ::
    "callback_spec \<Rightarrow> handler_spec \<Rightarrow> nat \<Rightarrow> msg_spec \<Rightarrow> cenv \<Rightarrow> pb_field \<Rightarrow> addr \<Rightarrow> memory \<Rightarrow> wout" where
  "one_out co eo n msg env fld pData m =
     (if PB_LTYPE (f_type fld) = PB_LTYPE_EXTENSION
      then extension_out co eo n n msg env (load_ptr m pData) m
      else field_out co n msg env fld pData m)"

text \<open>The fields of a message in the order of the descriptors, each at its place.\<close>

fun fields_out :: "(pb_field \<Rightarrow> addr \<Rightarrow> wout) \<Rightarrow> pb_field list \<Rightarrow> addr \<Rightarrow> nat list \<Rightarrow> wout" where
  "fields_out f fds src [] = Emits []"
| "fields_out f fds src (i # is) = wseq (f (field_at fds i) (field_data fds src i)) (fields_out f fds src is)"

fun message_out ::
    "callback_spec \<Rightarrow> handler_spec \<Rightarrow> nat \<Rightarrow> cenv \<Rightarrow> memory \<Rightarrow> pb_field list \<Rightarrow> addr \<Rightarrow> wout" where
  "message_out co eo 0 env m fds src = Stuck []"
| "message_out co eo (Suc n) env m fds src =
     fields_out (\<lambda>fld p. one_out co eo n (message_out co eo n env m) env fld p m)
       fds src [0..<nfields fds]"

section \<open>The encoder refines the abstract encoder\<close>

definition msg_refines :: "message_encoder \<Rightarrow> msg_spec \<Rightarrow> memory \<Rightarrow> bool" where
  "msg_refines enc msg m \<longleftrightarrow> (\<forall>fds src. wbeh (\<lambda>os st. enc os fds src st) m (msg fds src))"

lemma msg_refinesD: "msg_refines enc msg m \<Longrightarrow> wbeh (\<lambda>os st. enc os fds src st) m (msg fds src)"
  by (simp add: msg_refines_def)

text \<open>A field encoder writes its items, and the fixed-width ones write their width.\<close>

definition encoder_refines :: "field_encoder \<Rightarrow> pb_field \<Rightarrow> (addr \<Rightarrow> wout) \<Rightarrow> memory \<Rightarrow> bool" where
  "encoder_refines func fld f m \<longleftrightarrow> (\<forall>p. wbeh (\<lambda>os st. func os fld p st) m (f p))
     \<and> (PB_LTYPE (f_type fld) = PB_LTYPE_FIXED32 \<longrightarrow> (\<forall>p. \<exists>bs. f p = Emits bs \<and> length bs = 4))
     \<and> (PB_LTYPE (f_type fld) = PB_LTYPE_FIXED64 \<longrightarrow> (\<forall>p. \<exists>bs. f p = Emits bs \<and> length bs = 8))"

lemma encoder_refinesD: "encoder_refines func fld f m \<Longrightarrow> wbeh (\<lambda>os st. func os fld p st) m (f p)"
  by (simp add: encoder_refines_def)

lemma encoder_refines_PB_ENCODERS:
  assumes "msg_refines enc msg m"
  shows "encoder_refines (PB_ENCODERS enc env (PB_LTYPE (f_type fld))) fld
           (\<lambda>p. item_out msg env fld p m) m"
proof -
  have "wbeh (\<lambda>os st. PB_ENCODERS enc env (PB_LTYPE (f_type fld)) os fld p st) m (item_out msg env fld p m)" for p
    unfolding PB_ENCODERS_def item_out_def Let_def pb_enc_submessage_def
    by (rule wbeh_if wbeh_pb_enc_varint wbeh_pb_enc_uvarint wbeh_pb_enc_svarint wbeh_pb_enc_fixed32
        wbeh_pb_enc_fixed64 wbeh_pb_enc_bytes wbeh_pb_enc_string wbeh_error
        wbeh_pb_encode_submessage msg_refinesD [OF assms] wbeh_pb_enc_fixed_length_bytes wbeh_stuck)+
  then show ?thesis
    by (simp add: encoder_refines_def item_out_def pb_ltype_defs fixed32_bytes_def fixed64_bytes_def)
qed

lemma wbeh_packed_loop:
  assumes "encoder_refines func fld f m"
  shows "wbeh (\<lambda>os st. encode_packed_loop func fld n p os st) m (items_out f (uint (f_data_size fld)) n p)"
proof (induction n arbitrary: p)
  case 0
  show ?case unfolding encode_packed_loop.simps items_out.simps by (rule wbeh_ok)
next
  case (Suc n)
  show ?case unfolding encode_packed_loop.simps items_out.simps
    by (rule wbeh_seq [OF encoder_refinesD [OF assms] Suc])
qed

lemma wbeh_unpacked_loop:
  assumes "encoder_refines func fld f m"
  shows "wbeh (\<lambda>os st. encode_unpacked_loop env func fld n p os st) m
    (items_out (\<lambda>p. wseq (tag_out fld) (f (array_item fld m p))) (uint (f_data_size fld)) n p)"
proof (induction n arbitrary: p)
  case 0
  show ?case unfolding encode_unpacked_loop.simps items_out.simps by (rule wbeh_ok)
next
  case (Suc n)
  let ?next = "encode_unpacked_loop env func fld n (p + uint (f_data_size fld))"
  have "wbeh (\<lambda>os st. and_then_opt (func os fld (array_item fld (mem st) p) st) ?next) m
      (wseq (f (array_item fld m p)) (items_out (\<lambda>p. wseq (tag_out fld) (f (array_item fld m p)))
         (uint (f_data_size fld)) n (p + uint (f_data_size fld))))"
    by (rule wbeh_from_mem [OF wbeh_seq [OF encoder_refinesD [OF assms] Suc]]) simp
  from wbeh_seq [OF wbeh_tag_for_field this] show ?case
    unfolding encode_unpacked_loop.simps items_out.simps wseq_assoc .
qed

lemma items_out_const:
  assumes "\<And>p. \<exists>bs. f p = Emits bs \<and> length bs = k"
  shows "\<exists>bs. items_out f d n p = Emits bs \<and> length bs = k * n"
proof (induction n arbitrary: p)
  case 0
  then show ?case by simp
next
  case (Suc n)
  obtain a where "f p = Emits a" "length a = k" using assms by blast
  moreover obtain b where "items_out f d n (p + d) = Emits b" "length b = k * n" using Suc by blast
  ultimately show ?case by simp
qed

text \<open>The size announced for a packed array is the size of what is written.\<close>

lemma packed_size_spec:
  assumes ok: "encoder_refines func fld f m" and st: "mem st = m"
  shows "case items_out f (uint (f_data_size fld)) (unat count) p of
      Emits bs \<Rightarrow> packed_size func fld count p st = Some (True, word_of_nat (length bs), st)
    | Fails bs \<Rightarrow> (\<exists>sz. packed_size func fld count p st = Some (False, sz, st))
    | Stuck bs \<Rightarrow> packed_size func fld count p st = None"
proof -
  let ?w = "items_out f (uint (f_data_size fld)) (unat count) p"
  consider (w32) "PB_LTYPE (f_type fld) = PB_LTYPE_FIXED32"
    | (w64) "PB_LTYPE (f_type fld) = PB_LTYPE_FIXED64" "PB_LTYPE (f_type fld) \<noteq> PB_LTYPE_FIXED32"
    | (var) "PB_LTYPE (f_type fld) \<noteq> PB_LTYPE_FIXED32" "PB_LTYPE (f_type fld) \<noteq> PB_LTYPE_FIXED64"
    by blast
  then show ?thesis
  proof cases
    case w32
    then obtain bs where "?w = Emits bs" "length bs = 4 * unat count"
      using items_out_const [of f 4] ok unfolding encoder_refines_def by blast
    with w32 show ?thesis by (simp add: packed_size_def)
  next
    case w64
    then obtain bs where "?w = Emits bs" "length bs = 8 * unat count"
      using items_out_const [of f 8] ok unfolding encoder_refines_def by blast
    with w64 show ?thesis by (simp add: packed_size_def)
  next
    case var
    have "wsize ?w (encode_packed_loop func fld (unat count) p PB_OSTREAM_SIZING st) PB_OSTREAM_SIZING st"
      by (rule wbeh_sizing [OF wbeh_packed_loop [OF ok] st]) simp
    with var show ?thesis
      by (cases ?w) (auto simp: packed_size_def wsize_def PB_OSTREAM_SIZING_def)
  qed
qed

text \<open>The packed branch of \<^verbatim>\<open>encode_array\<close> after the tag.\<close>

definition packed_body :: "cenv \<Rightarrow> field_encoder \<Rightarrow> pb_field \<Rightarrow> u64 \<Rightarrow> addr \<Rightarrow> writer" where
  "packed_body env func fld count pData os st =
     (case packed_size func fld count pData st of
        None \<Rightarrow> None
      | Some (ok, sz, st) \<Rightarrow>
          if \<not> ok then Some (False, os, st)
          else and_then_opt (Some (pb_encode_varint env os sz st)) (\<lambda>os st.
                 if os_callback os = None then Some (pb_write env os [] sz st)
                 else encode_packed_loop func fld (unat count) pData os st))"

lemma wbeh_packed_data:
  assumes "wbeh (\<lambda>os st. L os st) m (Emits bs)"
  shows "wbeh (\<lambda>os st. if os_callback os = None
      then Some (pb_write env os [] (word_of_nat (length bs)) st) else L os st) m (Emits bs)"
  using assms
  by (auto simp: wbeh_def sizing_def buffered_def wsize_def pb_write_def count_stream_def)

lemma wbeh_packed_body:
  assumes ok: "encoder_refines func fld f m"
  shows "wbeh (packed_body env func fld count p) m
    (sub_out (items_out f (uint (f_data_size fld)) (unat count) p))"
proof (cases "items_out f (uint (f_data_size fld)) (unat count) p")
  case (Emits bs)
  have "wbeh (\<lambda>os st. encode_packed_loop func fld (unat count) p os st) m (Emits bs)"
    using wbeh_packed_loop [OF ok] Emits by metis
  note seq = wbeh_seq [OF wbeh_varint wbeh_packed_data [OF this], of env "word_of_nat (length bs)" env]
  show ?thesis unfolding Emits sub_out.simps
    by (rule wbeh_from_mem [OF seq [unfolded wseq.simps]])
       (use packed_size_spec [OF ok, of _ count p] Emits in \<open>simp add: packed_body_def\<close>)
next
  case (Fails bs)
  have "packed_body env func fld count p os st = Some (False, os, st)" if "mem st = m" for os st
    using packed_size_spec [OF ok that, of count p] Fails by (auto simp: packed_body_def)
  then show ?thesis unfolding Fails sub_out.simps
    by (intro wbehI) (auto simp: wsize_def wbuf_def gives_up_def)
next
  case (Stuck bs)
  show ?thesis unfolding Stuck sub_out.simps
    by (rule wbeh_from_mem [OF wbeh_stuck])
       (use packed_size_spec [OF ok, of _ count p] Stuck in \<open>simp add: packed_body_def\<close>)
qed

lemma wbeh_encode_array:
  assumes ok: "encoder_refines func fld f m"
  shows "wbeh (\<lambda>os st. encode_array env os fld p count func st) m (array_out f fld p count m)"
  unfolding encode_array_def array_out_def Let_def packed_body_def [symmetric]
  by (rule wbeh_if wbeh_ok wbeh_error wbeh_seq [OF wbeh_tag] wbeh_unpacked_loop [OF ok]
      wbeh_packed_body [OF ok])+

lemma wbeh_encode_basic_field:
  assumes enc: "msg_refines enc msg m"
  shows "wbeh (\<lambda>os st. encode_basic_field n enc env os fld p st) m (basic_out n msg env fld p m)"
proof -
  let ?func = "PB_ENCODERS enc env (PB_LTYPE (f_type fld))"
  let ?p = "if PB_ATYPE (f_type fld) = PB_ATYPE_POINTER then load_ptr m p else p"
  let ?has0 = "if f_size_offset fld \<noteq> 0 then Some False
               else if PB_HTYPE (f_type fld) = PB_HTYPE_OPTIONAL
               then map_option Not (pb_check_proto3_default_value n env m fld p)
               else Some True"
  note ok = encoder_refines_PB_ENCODERS [OF enc, of env fld]
  have put: "wbeh (\<lambda>os st. and_then_opt (Some (pb_encode_tag_for_field env os fld st))
      (\<lambda>os st. ?func os fld ?p st)) m (wseq (tag_out fld) (item_out msg env fld ?p m))"
    by (rule wbeh_seq [OF wbeh_tag_for_field encoder_refinesD [OF ok]])
  show ?thesis
  proof (cases ?has0)
    case None
    show ?thesis unfolding basic_out_def Let_def None option.case
      by (rule wbeh_from_mem [OF wbeh_stuck])
         (simp only: encode_basic_field_def Let_def None option.case)
  next
    case (Some has0)
    show ?thesis unfolding basic_out_def Let_def Some option.case
      by (rule wbeh_from_mem, rule wbeh_if, rule wbeh_if, rule wbeh_error [of "''missing required field''"],
          rule put, rule wbeh_if, rule wbeh_if, rule put, rule wbeh_ok, rule wbeh_if,
          rule wbeh_encode_array [OF ok, of env], rule wbeh_if, rule wbeh_if, rule wbeh_stuck,
          rule wbeh_if, rule put, rule wbeh_ok, rule wbeh_error [of "''invalid field type''"])
         (simp only: encode_basic_field_def Let_def Some option.case)
  qed
qed

section \<open>Callbacks and extensions\<close>

text \<open>
  What the encoder needs of the user's code: a field callback and an extension handler
  behave as writers too, that is, they only use the stream they are given and write the same
  on both passes.
\<close>

definition enc_callbacks_ok :: "cenv \<Rightarrow> callback_spec \<Rightarrow> handler_spec \<Rightarrow> bool" where
  "enc_callbacks_ok env co eo \<longleftrightarrow>
     (\<forall>fn fld arg m. wbeh (\<lambda>os st. Some (e_encode env fn os fld arg st)) m (co fn fld arg m))
   \<and> (\<forall>fn ext m. wbeh (\<lambda>os st. Some (e_ext_encode env fn os ext st)) m (eo fn ext m))"

lemma wbeh_relabel:
  assumes "wbeh F m w"
  shows "wbeh (\<lambda>os st. case F os st of None \<Rightarrow> None
      | Some (ok, os, st) \<Rightarrow> if ok then Some (True, os, st) else Some (False, os_set_error msg os, st)) m w"
proof (rule wbehI)
  fix os :: pb_ostream and st :: cstate
  assume "mem st = m" and "sizing os"
  from wbeh_sizing [OF assms this] show "wsize w (case F os st of None \<Rightarrow> None
      | Some (ok, os, st) \<Rightarrow> if ok then Some (True, os, st) else Some (False, os_set_error msg os, st)) os st"
    by (auto simp: wsize_def split: wout.splits)
next
  fix os :: pb_ostream and st :: cstate
  assume "mem st = m" and "buffered os" and "unat (bytes_written os) + length (wbytes w) < 2 ^ 64"
  from wbeh_buffered [OF assms this] show "wbuf w (case F os st of None \<Rightarrow> None
      | Some (ok, os, st) \<Rightarrow> if ok then Some (True, os, st) else Some (False, os_set_error msg os, st)) os st"
    by (auto simp: wbuf_def runs_full_def gives_up_def os_set_error_def split: wout.splits if_splits)
qed

lemma wbeh_encode_callback_field:
  assumes "enc_callbacks_ok env co eo"
  shows "wbeh (\<lambda>os st. Some (encode_callback_field env os fld p st)) m
    (if callback_func m p = 0 then Emits [] else co (callback_func m p) fld (callback_arg p) m)"
proof -
  have "wbeh (\<lambda>os st. Some (e_encode env (callback_func m p) os fld (callback_arg p) st)) m
      (co (callback_func m p) fld (callback_arg p) m)"
    using assms by (simp add: enc_callbacks_ok_def)
  note call = wbeh_relabel [OF this, of "''callback error''"]
  show ?thesis
    by (rule wbeh_from_mem, rule wbeh_if, rule wbeh_ok, rule call)
       (simp add: encode_callback_field_def split: prod.splits)
qed

lemma wbeh_encode_field:
  assumes "enc_callbacks_ok env co eo" and "msg_refines enc msg m"
  shows "wbeh (\<lambda>os st. encode_field n enc env os fld p st) m (field_out co n msg env fld p m)"
  unfolding encode_field_def field_out_def
  by (rule wbeh_if wbeh_encode_basic_field [OF assms(2)] wbeh_encode_callback_field [OF assms(1)]
      wbeh_error)+

lemma wbeh_extension_loop:
  assumes cb: "enc_callbacks_ok env co eo" and enc: "msg_refines enc msg m"
  shows "wbeh (\<lambda>os st. encode_extension_loop k n enc env os ext st) m
    (extension_out co eo k n msg env ext m)"
proof (induction k arbitrary: ext)
  case 0
  show ?case unfolding encode_extension_loop.simps extension_out.simps
    by (rule wbeh_if wbeh_ok wbeh_stuck)+
next
  case (Suc k)
  let ?fld = "field_at (e_fields env (exttype_arg m (ext_type m ext))) 0"
  let ?fn = "exttype_encode m (ext_type m ext)"
  have ext: "wbeh (\<lambda>os st. Some (e_ext_encode env ?fn os ext st)) m (eo ?fn ext m)"
    using cb by (simp add: enc_callbacks_ok_def)
  have one: "wbeh (\<lambda>os st.
      let encode = exttype_encode (mem st) (ext_type (mem st) ext) in
      if encode \<noteq> 0 then Some (e_ext_encode env encode os ext st)
      else default_extension_encoder n enc env os ext st) m
      (if ?fn \<noteq> 0 then eo ?fn ext m
       else if PB_ATYPE (f_type ?fld) = PB_ATYPE_POINTER
       then field_out co n msg env ?fld (ext_dest_addr ext) m
       else field_out co n msg env ?fld (ext_dest m ext) m)"
    by (rule wbeh_from_mem, rule wbeh_if, rule ext, rule wbeh_if, rule wbeh_encode_field [OF assms],
        rule wbeh_encode_field [OF assms]) (simp add: default_extension_encoder_def Let_def)
  have rest: "wbeh (\<lambda>os st. encode_extension_loop k n enc env os (ext_next (mem st) ext) st) m
      (extension_out co eo k n msg env (ext_next m ext) m)"
    by (rule wbeh_from_mem [OF Suc]) simp
  show ?case
    unfolding encode_extension_loop.simps extension_out.simps Let_def
    by (rule wbeh_if, rule wbeh_ok, rule wbeh_seq [OF one [unfolded Let_def] rest])
qed

lemma wbeh_encode_one:
  assumes cb: "enc_callbacks_ok env co eo" and enc: "msg_refines enc msg m"
  shows "wbeh (\<lambda>os st. encode_one n enc env os fld p st) m (one_out co eo n msg env fld p m)"
proof -
  have "wbeh (\<lambda>os st. encode_extension_field n enc env os fld p st) m
      (extension_out co eo n n msg env (load_ptr m p) m)"
    by (rule wbeh_from_mem [OF wbeh_extension_loop [OF assms]]) (simp add: encode_extension_field_def)
  then show ?thesis
    unfolding encode_one_def one_out_def by (rule wbeh_if [OF _ wbeh_encode_field [OF assms]])
qed

section \<open>Messages\<close>

lemma wbeh_fields_loop:
  assumes one: "\<And>fld p. wbeh (\<lambda>os st. E os fld p st) m (f fld p)"
    and inv: "iter_inv fds src it" "it_pos it < nfields fds"
  shows "wbeh (\<lambda>os st. iter_do_while (\<lambda>it (os, st). E os (it_field it) (it_pData it) st) it (os, st)) m
    (fields_out f fds src [it_pos it..<nfields fds])"
  using inv
proof (induction "nfields fds - it_pos it" arbitrary: it rule: less_induct)
  case less
  let ?body = "\<lambda>it (os, st). E os (it_field it) (it_pData it) st"
  obtain more it' where nx: "pb_field_iter_next it = (more, it')" by force
  note inv' = pb_field_iter_next_inv [OF less.prems(1) nx]
  have here: "it_field it = field_at fds (it_pos it)" "it_pData it = field_data fds src (it_pos it)"
    using less.prems(1) by (auto simp: iter_inv_def)
  have rest: "wbeh (\<lambda>os st. if more then iter_do_while ?body it' (os, st) else Some (True, os, st)) m
      (fields_out f fds src [Suc (it_pos it)..<nfields fds])"
  proof (cases more)
    case True
    with inv' have "it_pos it' = Suc (it_pos it)" "it_pos it' < nfields fds" by (auto simp: next_pos_def)
    with less.hyps [OF _ inv'(1)] True show ?thesis by simp
  next
    case False
    with inv'(3) show ?thesis using wbeh_ok [of m] by simp
  qed
  have "[it_pos it..<nfields fds] = it_pos it # [Suc (it_pos it)..<nfields fds]"
    using less.prems(2) by (rule upt_conv_Cons)
  then have out: "fields_out f fds src [it_pos it..<nfields fds]
      = wseq (f (it_field it) (it_pData it)) (fields_out f fds src [Suc (it_pos it)..<nfields fds])"
    using here by simp
  show ?case
    unfolding out
    by (rule wbeh_from_mem [OF wbeh_seq [OF one rest]])
       (auto simp: and_then_opt_def iter_do_while.simps [of ?body it] nx split: option.splits)
qed

lemma wbeh_pb_encode_fields:
  assumes "enc_callbacks_ok env co eo" and "msg_refines enc msg m"
  shows "wbeh (\<lambda>os st. pb_encode_fields n enc env os fds src st) m
    (fields_out (\<lambda>fld p. one_out co eo n msg env fld p m) fds src [0..<nfields fds])"
proof -
  obtain nonempty it where b: "pb_field_iter_begin fresh_iter fds src = (nonempty, it)" by force
  note inv = pb_field_iter_begin_inv [OF b]
  let ?E = "\<lambda>os fld p st. encode_one n enc env os fld p st"
  show ?thesis
  proof (cases nonempty)
    case True
    with inv have "it_pos it < nfields fds" by simp
    from wbeh_fields_loop [of ?E m "\<lambda>fld p. one_out co eo n msg env fld p m", OF wbeh_encode_one [OF assms] inv(1) this]
    show ?thesis using True inv(3) unfolding pb_encode_fields_def b prod.case by simp
  next
    case False
    with inv(2) show ?thesis using wbeh_ok [of m] unfolding pb_encode_fields_def b prod.case by simp
  qed
qed

lemma wbeh_pb_encode:
  assumes "enc_callbacks_ok env co eo"
  shows "wbeh (\<lambda>os st. pb_encode n env os fds src st) m (message_out co eo n env m fds src)"
proof (induction n arbitrary: fds src)
  case 0
  show ?case unfolding pb_encode.simps message_out.simps by (rule wbeh_stuck)
next
  case (Suc n)
  show ?case
    unfolding pb_encode.simps message_out.simps
    by (rule wbeh_pb_encode_fields [OF assms]) (simp add: msg_refines_def Suc)
qed

end
