(* ===== verification/Pb_Layout.thy ===== *)
theory Pb_Layout
  imports Pb_Common
begin

text \<open>
  How generated code describes a message structure to nanopb: the C layout of structures on
  the target (LP64, natural alignment, no packing) and the \<^verbatim>\<open>PB_FIELD\<close> family of macros
  of \<^verbatim>\<open>nanopb/pb.h\<close>, which turn member names into the relative offsets of a descriptor.
  The theorem of this theory is that the iterator of \<^verbatim>\<open>pb_common.c\<close>, which only adds up
  these relative offsets, arrives exactly at the members they were computed from.
\<close>

section \<open>C structure layout\<close>

datatype ctype =
    CInt nat
  | CPtr ctype
  | CArray ctype nat
  | CStruct "(string \<times> ctype) list"

abbreviation C_bool :: ctype where "C_bool \<equiv> CInt 1"
abbreviation C_byte :: ctype where "C_byte \<equiv> CInt 1"
abbreviation C_int32 :: ctype where "C_int32 \<equiv> CInt 4"
abbreviation C_int64 :: ctype where "C_int64 \<equiv> CInt 8"
abbreviation C_enum :: ctype where "C_enum \<equiv> CInt 4"
abbreviation C_pb_size :: ctype where "C_pb_size \<equiv> CInt 4"

type_synonym cstruct = "(string \<times> ctype) list"

fun calign :: "ctype \<Rightarrow> nat" and members_align :: "cstruct \<Rightarrow> nat" where
  "calign (CInt n) = n"
| "calign (CPtr t) = 8"
| "calign (CArray t n) = calign t"
| "calign (CStruct ms) = members_align ms"
| "members_align [] = 1"
| "members_align ((m, t) # ms) = max (calign t) (members_align ms)"

definition align_up :: "nat \<Rightarrow> nat \<Rightarrow> nat" where
  "align_up off a = (off + a - 1) div a * a"

fun csize :: "ctype \<Rightarrow> nat" and members_end :: "nat \<Rightarrow> cstruct \<Rightarrow> nat" where
  "csize (CInt n) = n"
| "csize (CPtr t) = 8"
| "csize (CArray t n) = csize t * n"
| "csize (CStruct ms) = align_up (members_end 0 ms) (members_align ms)"
| "members_end off [] = off"
| "members_end off ((m, t) # ms) = members_end (align_up off (calign t) + csize t) ms"

fun find_member :: "nat \<Rightarrow> string \<Rightarrow> cstruct \<Rightarrow> (nat \<times> ctype) option" where
  "find_member off x [] = None"
| "find_member off x ((m, t) # ms) =
     (if m = x then Some (align_up off (calign t), t)
      else find_member (align_up off (calign t) + csize t) x ms)"

text \<open>
  \<^verbatim>\<open>offsetof\<close>, \<^verbatim>\<open>pb_membersize\<close>, the size of \<^verbatim>\<open>m[0]\<close>, \<^verbatim>\<open>pb_arraysize\<close> and
  \<^verbatim>\<open>pb_delta\<close>. A member that the structure does not have is a compile-time error in C; the
  functions are only used on members that exist.
\<close>

definition offsetof :: "cstruct \<Rightarrow> string \<Rightarrow> nat" where
  "offsetof st m = (case find_member 0 m st of Some (off, t) \<Rightarrow> off | None \<Rightarrow> 0)"

definition member_type :: "cstruct \<Rightarrow> string \<Rightarrow> ctype" where
  "member_type st m = (case find_member 0 m st of Some (off, t) \<Rightarrow> t | None \<Rightarrow> CStruct [])"

fun elem_type :: "ctype \<Rightarrow> ctype" where
  "elem_type (CPtr t) = t"
| "elem_type (CArray t n) = t"
| "elem_type t = t"

definition pb_membersize :: "cstruct \<Rightarrow> string \<Rightarrow> nat" where
  "pb_membersize st m = csize (member_type st m)"

definition pb_elemsize :: "cstruct \<Rightarrow> string \<Rightarrow> nat" where
  "pb_elemsize st m = csize (elem_type (member_type st m))"

definition pb_arraysize :: "cstruct \<Rightarrow> string \<Rightarrow> nat" where
  "pb_arraysize st m = pb_membersize st m div pb_elemsize st m"

definition pb_delta :: "cstruct \<Rightarrow> string \<Rightarrow> string \<Rightarrow> int" where
  "pb_delta st m1 m2 = int (offsetof st m1) - int (offsetof st m2)"

text \<open>\<^verbatim>\<open>struct pb_bytes_array_s\<close>\<close>

definition pb_bytes_array_t :: ctype where
  "pb_bytes_array_t = CStruct [(''size'', C_pb_size), (''bytes'', CArray C_byte 1)]"

section \<open>The descriptor macros\<close>

definition PB_DATAOFFSET_FIRST :: "cstruct \<Rightarrow> string \<Rightarrow> string \<Rightarrow> u64" where
  "PB_DATAOFFSET_FIRST st m1 m2 = word_of_nat (offsetof st m1)"

definition PB_DATAOFFSET_OTHER :: "cstruct \<Rightarrow> string \<Rightarrow> string \<Rightarrow> u64" where
  "PB_DATAOFFSET_OTHER st m1 m2 =
     word_of_nat (offsetof st m1) - word_of_nat (offsetof st m2) - word_of_nat (pb_membersize st m2)"

definition PB_DATAOFFSET_UNION :: "cstruct \<Rightarrow> string \<Rightarrow> string \<Rightarrow> u64" where
  "PB_DATAOFFSET_UNION st m1 m2 = ucast PB_SIZE_MAX"

definition pb_field_init ::
    "u32 \<Rightarrow> pb_type_t \<Rightarrow> u64 \<Rightarrow> int \<Rightarrow> nat \<Rightarrow> nat \<Rightarrow> addr \<Rightarrow> pb_field" where
  "pb_field_init tag ty fd so ds n ptr =
     \<lparr>f_tag = tag, f_type = ty, f_data_offset = ucast fd, f_size_offset = word_of_int so,
      f_data_size = word_of_nat ds, f_array_size = word_of_nat n, f_ptr = ptr\<rparr>"

type_synonym field_macro =
  "u32 \<Rightarrow> cstruct \<Rightarrow> string \<Rightarrow> u64 \<Rightarrow> pb_type_t \<Rightarrow> addr \<Rightarrow> pb_field"

definition PB_REQUIRED_STATIC :: field_macro where
  "PB_REQUIRED_STATIC tag st m fd ltype ptr =
     pb_field_init tag (PB_ATYPE_STATIC OR PB_HTYPE_REQUIRED OR ltype) fd 0 (pb_membersize st m) 0 ptr"

definition PB_OPTIONAL_STATIC :: field_macro where
  "PB_OPTIONAL_STATIC tag st m fd ltype ptr =
     pb_field_init tag (PB_ATYPE_STATIC OR PB_HTYPE_OPTIONAL OR ltype) fd
       (pb_delta st (''has_'' @ m) m) (pb_membersize st m) 0 ptr"

definition PB_SINGULAR_STATIC :: field_macro where
  "PB_SINGULAR_STATIC tag st m fd ltype ptr =
     pb_field_init tag (PB_ATYPE_STATIC OR PB_HTYPE_OPTIONAL OR ltype) fd 0 (pb_membersize st m) 0 ptr"

definition PB_REPEATED_STATIC :: field_macro where
  "PB_REPEATED_STATIC tag st m fd ltype ptr =
     pb_field_init tag (PB_ATYPE_STATIC OR PB_HTYPE_REPEATED OR ltype) fd
       (pb_delta st (m @ ''_count'') m) (pb_elemsize st m) (pb_arraysize st m) ptr"

definition PB_REQUIRED_POINTER :: field_macro where
  "PB_REQUIRED_POINTER tag st m fd ltype ptr =
     pb_field_init tag (PB_ATYPE_POINTER OR PB_HTYPE_REQUIRED OR ltype) fd 0 (pb_elemsize st m) 0 ptr"

definition PB_OPTIONAL_POINTER :: field_macro where
  "PB_OPTIONAL_POINTER tag st m fd ltype ptr =
     pb_field_init tag (PB_ATYPE_POINTER OR PB_HTYPE_OPTIONAL OR ltype) fd 0 (pb_elemsize st m) 0 ptr"

definition PB_SINGULAR_POINTER :: field_macro where
  "PB_SINGULAR_POINTER tag st m fd ltype ptr =
     pb_field_init tag (PB_ATYPE_POINTER OR PB_HTYPE_OPTIONAL OR ltype) fd 0 (pb_elemsize st m) 0 ptr"

definition PB_REPEATED_POINTER :: field_macro where
  "PB_REPEATED_POINTER tag st m fd ltype ptr =
     pb_field_init tag (PB_ATYPE_POINTER OR PB_HTYPE_REPEATED OR ltype) fd
       (pb_delta st (m @ ''_count'') m) (pb_elemsize st m) 0 ptr"

definition PB_REQUIRED_CALLBACK :: field_macro where
  "PB_REQUIRED_CALLBACK tag st m fd ltype ptr =
     pb_field_init tag (PB_ATYPE_CALLBACK OR PB_HTYPE_REQUIRED OR ltype) fd 0 (pb_membersize st m) 0 ptr"

definition PB_OPTIONAL_CALLBACK :: field_macro where
  "PB_OPTIONAL_CALLBACK tag st m fd ltype ptr =
     pb_field_init tag (PB_ATYPE_CALLBACK OR PB_HTYPE_OPTIONAL OR ltype) fd 0 (pb_membersize st m) 0 ptr"

definition PB_SINGULAR_CALLBACK :: field_macro where
  "PB_SINGULAR_CALLBACK tag st m fd ltype ptr =
     pb_field_init tag (PB_ATYPE_CALLBACK OR PB_HTYPE_OPTIONAL OR ltype) fd 0 (pb_membersize st m) 0 ptr"

definition PB_REPEATED_CALLBACK :: field_macro where
  "PB_REPEATED_CALLBACK tag st m fd ltype ptr =
     pb_field_init tag (PB_ATYPE_CALLBACK OR PB_HTYPE_REPEATED OR ltype) fd 0 (pb_membersize st m) 0 ptr"

definition PB_OPTEXT_STATIC :: field_macro where
  "PB_OPTEXT_STATIC tag st m fd ltype ptr =
     pb_field_init tag (PB_ATYPE_STATIC OR PB_HTYPE_REQUIRED OR ltype) 0 0 (pb_membersize st m) 0 ptr"

text \<open>\<^verbatim>\<open>PB_LTYPE_MAP_*\<close>: the protobuf types and their logical types.\<close>

datatype pb_proto_type =
    BOOL | BYTES | DOUBLE | ENUM | UENUM | FIXED32 | FIXED64 | FLOAT | INT32 | INT64 | MESSAGE
  | SFIXED32 | SFIXED64 | SINT32 | SINT64 | STRING | UINT32 | UINT64 | EXTENSION
  | FIXED_LENGTH_BYTES

fun PB_LTYPE_MAP :: "pb_proto_type \<Rightarrow> pb_type_t" where
  "PB_LTYPE_MAP BOOL = PB_LTYPE_VARINT"
| "PB_LTYPE_MAP BYTES = PB_LTYPE_BYTES"
| "PB_LTYPE_MAP DOUBLE = PB_LTYPE_FIXED64"
| "PB_LTYPE_MAP ENUM = PB_LTYPE_VARINT"
| "PB_LTYPE_MAP UENUM = PB_LTYPE_UVARINT"
| "PB_LTYPE_MAP FIXED32 = PB_LTYPE_FIXED32"
| "PB_LTYPE_MAP FIXED64 = PB_LTYPE_FIXED64"
| "PB_LTYPE_MAP FLOAT = PB_LTYPE_FIXED32"
| "PB_LTYPE_MAP INT32 = PB_LTYPE_VARINT"
| "PB_LTYPE_MAP INT64 = PB_LTYPE_VARINT"
| "PB_LTYPE_MAP MESSAGE = PB_LTYPE_SUBMESSAGE"
| "PB_LTYPE_MAP SFIXED32 = PB_LTYPE_FIXED32"
| "PB_LTYPE_MAP SFIXED64 = PB_LTYPE_FIXED64"
| "PB_LTYPE_MAP SINT32 = PB_LTYPE_SVARINT"
| "PB_LTYPE_MAP SINT64 = PB_LTYPE_SVARINT"
| "PB_LTYPE_MAP STRING = PB_LTYPE_STRING"
| "PB_LTYPE_MAP UINT32 = PB_LTYPE_UVARINT"
| "PB_LTYPE_MAP UINT64 = PB_LTYPE_UVARINT"
| "PB_LTYPE_MAP EXTENSION = PB_LTYPE_EXTENSION"
| "PB_LTYPE_MAP FIXED_LENGTH_BYTES = PB_LTYPE_FIXED_LENGTH_BYTES"

datatype pb_rule = REQUIRED | OPTIONAL | SINGULAR | REPEATED | OPTEXT
datatype pb_allocation = STATIC | POINTER | CALLBACK
datatype pb_placement = FIRST | OTHER | UNION

fun pb_rule_macro :: "pb_rule \<Rightarrow> pb_allocation \<Rightarrow> field_macro" where
  "pb_rule_macro REQUIRED STATIC = PB_REQUIRED_STATIC"
| "pb_rule_macro OPTIONAL STATIC = PB_OPTIONAL_STATIC"
| "pb_rule_macro SINGULAR STATIC = PB_SINGULAR_STATIC"
| "pb_rule_macro REPEATED STATIC = PB_REPEATED_STATIC"
| "pb_rule_macro REQUIRED POINTER = PB_REQUIRED_POINTER"
| "pb_rule_macro OPTIONAL POINTER = PB_OPTIONAL_POINTER"
| "pb_rule_macro SINGULAR POINTER = PB_SINGULAR_POINTER"
| "pb_rule_macro REPEATED POINTER = PB_REPEATED_POINTER"
| "pb_rule_macro REQUIRED CALLBACK = PB_REQUIRED_CALLBACK"
| "pb_rule_macro OPTIONAL CALLBACK = PB_OPTIONAL_CALLBACK"
| "pb_rule_macro SINGULAR CALLBACK = PB_SINGULAR_CALLBACK"
| "pb_rule_macro REPEATED CALLBACK = PB_REPEATED_CALLBACK"
| "pb_rule_macro OPTEXT STATIC = PB_OPTEXT_STATIC"
| "pb_rule_macro OPTEXT POINTER = PB_OPTIONAL_POINTER"
| "pb_rule_macro OPTEXT CALLBACK = PB_OPTIONAL_CALLBACK"

fun pb_dataoffset :: "pb_placement \<Rightarrow> cstruct \<Rightarrow> string \<Rightarrow> string \<Rightarrow> u64" where
  "pb_dataoffset FIRST = PB_DATAOFFSET_FIRST"
| "pb_dataoffset OTHER = PB_DATAOFFSET_OTHER"
| "pb_dataoffset UNION = PB_DATAOFFSET_UNION"

definition PB_FIELD ::
    "u32 \<Rightarrow> pb_proto_type \<Rightarrow> pb_rule \<Rightarrow> pb_allocation \<Rightarrow> pb_placement \<Rightarrow> cstruct
     \<Rightarrow> string \<Rightarrow> string \<Rightarrow> addr \<Rightarrow> pb_field" where
  "PB_FIELD tag type rules allocation placement message fld prevfield ptr =
     pb_rule_macro rules allocation tag message fld
       (pb_dataoffset placement message fld prevfield) (PB_LTYPE_MAP type) ptr"

definition PB_REPEATED_FIXED_COUNT ::
    "u32 \<Rightarrow> pb_proto_type \<Rightarrow> pb_placement \<Rightarrow> cstruct \<Rightarrow> string \<Rightarrow> string \<Rightarrow> addr \<Rightarrow> pb_field" where
  "PB_REPEATED_FIXED_COUNT tag type placement message fld prevfield ptr =
     pb_field_init tag (PB_ATYPE_STATIC OR PB_HTYPE_REPEATED OR PB_LTYPE_MAP type)
       (pb_dataoffset placement message fld prevfield) 0
       (pb_elemsize message fld) (pb_arraysize message fld) ptr"

text \<open>Members of anonymous unions; those of a named union differ in the spelling of the member only.\<close>

definition PB_ANONYMOUS_ONEOF_STATIC :: "string \<Rightarrow> field_macro" where
  "PB_ANONYMOUS_ONEOF_STATIC u tag st m fd ltype ptr =
     pb_field_init tag (PB_ATYPE_STATIC OR PB_HTYPE_ONEOF OR ltype) fd
       (pb_delta st (''which_'' @ u) m) (pb_membersize st m) 0 ptr"

definition PB_ANONYMOUS_ONEOF_POINTER :: "string \<Rightarrow> field_macro" where
  "PB_ANONYMOUS_ONEOF_POINTER u tag st m fd ltype ptr =
     pb_field_init tag (PB_ATYPE_POINTER OR PB_HTYPE_ONEOF OR ltype) fd
       (pb_delta st (''which_'' @ u) m) (pb_elemsize st m) 0 ptr"

lemmas pb_macro_defs =
  PB_REQUIRED_STATIC_def PB_OPTIONAL_STATIC_def PB_SINGULAR_STATIC_def PB_REPEATED_STATIC_def
  PB_REQUIRED_POINTER_def PB_OPTIONAL_POINTER_def PB_SINGULAR_POINTER_def PB_REPEATED_POINTER_def
  PB_REQUIRED_CALLBACK_def PB_OPTIONAL_CALLBACK_def PB_SINGULAR_CALLBACK_def
  PB_REPEATED_CALLBACK_def PB_OPTEXT_STATIC_def

section \<open>The iterator reaches the members\<close>

text \<open>A message type as the generator writes it: each field with the one before it.\<close>

record field_spec =
  s_tag :: u32
  s_type :: pb_proto_type
  s_rule :: pb_rule
  s_alloc :: pb_allocation
  s_name :: string
  s_ptr :: addr

fun other_fields :: "cstruct \<Rightarrow> field_spec \<Rightarrow> field_spec list \<Rightarrow> pb_field list" where
  "other_fields st p [] = [PB_LAST_FIELD]"
| "other_fields st p (s # ss) =
     PB_FIELD (s_tag s) (s_type s) (s_rule s) (s_alloc s) OTHER st (s_name s) (s_name p) (s_ptr s)
     # other_fields st s ss"

fun message_fields :: "cstruct \<Rightarrow> field_spec list \<Rightarrow> pb_field list" where
  "message_fields st [] = [PB_LAST_FIELD]"
| "message_fields st (s # ss) =
     PB_FIELD (s_tag s) (s_type s) (s_rule s) (s_alloc s) FIRST st (s_name s) (s_name s) (s_ptr s)
     # other_fields st s ss"

text \<open>
  What the generator guarantees: the members exist, in this order and apart from each other, a pointer
  field is a pointer, a repeated static field is an array, and the structure is not huge.
\<close>

definition spec_ok :: "cstruct \<Rightarrow> field_spec \<Rightarrow> bool" where
  "spec_ok st s \<longleftrightarrow> find_member 0 (s_name s) st \<noteq> None
     \<and> offsetof st (s_name s) + pb_membersize st (s_name s) < 2 ^ 31 \<and> s_rule s \<noteq> OPTEXT
     \<and> (s_alloc s = POINTER \<longrightarrow> pb_membersize st (s_name s) = 8)
     \<and> (s_alloc s = STATIC \<and> s_rule s = REPEATED \<longrightarrow>
          pb_elemsize st (s_name s) * pb_arraysize st (s_name s) = pb_membersize st (s_name s))"

fun specs_ok :: "cstruct \<Rightarrow> field_spec list \<Rightarrow> bool" where
  "specs_ok st [] = True"
| "specs_ok st [s] = spec_ok st s"
| "specs_ok st (s # s' # ss) =
     (spec_ok st s
      \<and> offsetof st (s_name s) + pb_membersize st (s_name s) \<le> offsetof st (s_name s')
      \<and> specs_ok st (s' # ss))"

abbreviation spec_field :: "cstruct \<Rightarrow> pb_placement \<Rightarrow> field_spec \<Rightarrow> field_spec \<Rightarrow> pb_field" where
  "spec_field st pl p s \<equiv>
     PB_FIELD (s_tag s) (s_type s) (s_rule s) (s_alloc s) pl st (s_name s) (s_name p) (s_ptr s)"

fun rule_htype :: "pb_rule \<Rightarrow> pb_type_t" where
  "rule_htype REQUIRED = PB_HTYPE_REQUIRED"
| "rule_htype OPTIONAL = PB_HTYPE_OPTIONAL"
| "rule_htype SINGULAR = PB_HTYPE_OPTIONAL"
| "rule_htype REPEATED = PB_HTYPE_REPEATED"
| "rule_htype OPTEXT = PB_HTYPE_REQUIRED"

fun alloc_atype :: "pb_allocation \<Rightarrow> pb_type_t" where
  "alloc_atype STATIC = PB_ATYPE_STATIC"
| "alloc_atype POINTER = PB_ATYPE_POINTER"
| "alloc_atype CALLBACK = PB_ATYPE_CALLBACK"

lemma type_bits:
  assumes "h \<in> {PB_HTYPE_REQUIRED, PB_HTYPE_OPTIONAL, PB_HTYPE_REPEATED, PB_HTYPE_ONEOF}"
    and "a \<in> {PB_ATYPE_STATIC, PB_ATYPE_POINTER, PB_ATYPE_CALLBACK}"
  shows "PB_HTYPE (a OR h OR PB_LTYPE_MAP t) = h" and "PB_ATYPE (a OR h OR PB_LTYPE_MAP t) = a"
    and "PB_LTYPE (a OR h OR PB_LTYPE_MAP t) = PB_LTYPE_MAP t"
  using assms by (cases t; auto simp: pb_type_defs)+

lemma PB_FIELD_type:
  assumes "r \<noteq> OPTEXT"
  shows "f_type (PB_FIELD tag t r a pl st m p ptr) = (alloc_atype a OR rule_htype r OR PB_LTYPE_MAP t)"
    and "f_data_offset (PB_FIELD tag t r a pl st m p ptr) = ucast (pb_dataoffset pl st m p)"
    and "f_tag (PB_FIELD tag t r a pl st m p ptr) = tag"
  using assms by (cases r; cases a; simp add: PB_FIELD_def pb_macro_defs pb_field_init_def)+

lemma rule_alloc_range:
  "rule_htype r \<in> {PB_HTYPE_REQUIRED, PB_HTYPE_OPTIONAL, PB_HTYPE_REPEATED, PB_HTYPE_ONEOF}"
  "alloc_atype a \<in> {PB_ATYPE_STATIC, PB_ATYPE_POINTER, PB_ATYPE_CALLBACK}"
  by (cases r; simp) (cases a; simp)

lemma PB_FIELD_kind:
  assumes "r \<noteq> OPTEXT"
  shows "PB_HTYPE (f_type (PB_FIELD tag t r a pl st m p ptr)) = rule_htype r"
    and "PB_ATYPE (f_type (PB_FIELD tag t r a pl st m p ptr)) = alloc_atype a"
    and "PB_LTYPE (f_type (PB_FIELD tag t r a pl st m p ptr)) = PB_LTYPE_MAP t"
  using type_bits [OF rule_alloc_range] assms by (simp_all add: PB_FIELD_type)

lemma not_same_union:
  "r \<noteq> OPTEXT \<Longrightarrow> \<not> same_union (PB_FIELD tag t r a pl st m p ptr) f"
  by (cases r) (auto simp: same_union_def PB_FIELD_kind pb_htype_defs)

lemma uint_word_small: "n < 2 ^ 31 \<Longrightarrow> uint (word_of_nat n :: u32) = int n"
    and uint_word_small64: "n < 2 ^ 31 \<Longrightarrow> uint (word_of_nat n :: u64) = int n"
  by (simp_all add: uint_nat unat_of_nat)

lemma ucast_u32_u64: "(ucast (word_of_nat n :: u32) :: u64) = word_of_nat n" if "n < 2 ^ 32"
  by (rule unat_eqI) (use that in \<open>simp add: unsigned_ucast_eq unat_of_nat take_bit_eq_mod\<close>)

lemma iter_prev_size_member:
  assumes "spec_ok st s"
  shows "uint (iter_prev_size (spec_field st pl p s)) = int (pb_membersize st (s_name s))"
proof -
  let ?n = "pb_membersize st (s_name s)" and ?k = "pb_elemsize st (s_name s)"
    and ?c = "pb_arraysize st (s_name s)"
  have r: "s_rule s \<noteq> OPTEXT" and n: "?n < 2 ^ 31" and ptr: "s_alloc s = POINTER \<Longrightarrow> ?n = 8"
    and arr: "s_alloc s = STATIC \<Longrightarrow> s_rule s = REPEATED \<Longrightarrow> ?k * ?c = ?n"
    using assms by (auto simp: spec_ok_def)
  have rep: "rule_htype (s_rule s) = PB_HTYPE_REPEATED \<longleftrightarrow> s_rule s = REPEATED"
    by (cases "s_rule s") (auto simp: pb_htype_defs)
  have at: "alloc_atype (s_alloc s) = PB_ATYPE_STATIC \<longleftrightarrow> s_alloc s = STATIC"
    "alloc_atype (s_alloc s) = PB_ATYPE_POINTER \<longleftrightarrow> s_alloc s = POINTER"
    by (cases "s_alloc s"; simp add: pb_atype_defs)+
  consider (sr) "s_alloc s = STATIC" "s_rule s = REPEATED" | (p) "s_alloc s = POINTER"
    | (o) "s_alloc s \<noteq> POINTER" "\<not> (s_alloc s = STATIC \<and> s_rule s = REPEATED)" by blast
  then show ?thesis
  proof cases
    case sr
    then have kc: "?k * ?c = ?n" using arr by simp
    have ds: "f_data_size (spec_field st pl p s) = word_of_nat ?k"
      "f_array_size (spec_field st pl p s) = word_of_nat ?c"
      using sr by (simp_all add: PB_FIELD_def PB_REPEATED_STATIC_def pb_field_init_def)
    have "(ucast (word_of_nat ?k :: u32) * ucast (word_of_nat ?c :: u32) :: u64) = word_of_nat ?n"
    proof (cases "?n = 0")
      case True
      then have "?c = 0" by (simp add: pb_arraysize_def)
      with True show ?thesis by simp
    next
      case False
      with kc have "0 < ?k" "0 < ?c" by (auto intro: Nat.gr0I)
      then have "?k \<le> ?n" "?c \<le> ?n" unfolding kc [symmetric] by simp_all
      then have "?k < 2 ^ 32" "?c < 2 ^ 32" using n by auto
      then show ?thesis by (simp add: ucast_u32_u64 kc [symmetric])
    qed
    with n show ?thesis
      unfolding iter_prev_size_def PB_FIELD_kind [OF r] ds rep at
      using sr by (simp add: uint_word_small64)
  next
    case p
    with ptr show ?thesis
      unfolding iter_prev_size_def PB_FIELD_kind [OF r] at by (simp add: pb_atype_defs)
  next
    case o
    have "f_data_size (spec_field st pl p s) = word_of_nat ?n"
      using o r by (cases "s_rule s"; cases "s_alloc s")
        (simp_all add: PB_FIELD_def pb_macro_defs pb_field_init_def)
    with o r n show ?thesis
      by (auto simp: iter_prev_size_def PB_FIELD_kind rep at ucast_u32_u64 uint_word_small64)
  qed
qed

lemma dataoffset_other:
  assumes "offsetof st p + pb_membersize st p \<le> offsetof st m" and "offsetof st m < 2 ^ 31"
  shows "uint (ucast (PB_DATAOFFSET_OTHER st m p) :: u32)
    = int (offsetof st m) - int (offsetof st p) - int (pb_membersize st p)"
proof -
  obtain d where d: "offsetof st m = offsetof st p + pb_membersize st p + d"
    using assms(1) le_Suc_ex by blast
  then have "PB_DATAOFFSET_OTHER st m p = word_of_nat d"
    by (simp add: PB_DATAOFFSET_OTHER_def)
  moreover have "d < 2 ^ 31" using assms(2) d by simp
  ultimately show ?thesis
    by (simp add: d uint_nat unsigned_ucast_eq unat_of_nat take_bit_eq_mod)
qed

lemma length_other_fields [simp]: "length (other_fields st p ss) = Suc (length ss)"
  by (induction ss arbitrary: p) auto

lemma nth_other_fields:
  "i < length ss \<Longrightarrow> other_fields st p ss ! i = spec_field st OTHER ((p # ss) ! i) (ss ! i)"
  by (induction ss arbitrary: p i) (auto simp: nth_Cons split: nat.splits)

lemma length_message_fields [simp]: "length (message_fields st ss) = Suc (length ss)"
  by (cases ss) auto

lemma message_fields_nth:
  assumes "i < length ss"
  shows "field_at (message_fields st ss) i
    = (if i = 0 then spec_field st FIRST (ss ! 0) (ss ! 0) else spec_field st OTHER (ss ! (i - 1)) (ss ! i))"
proof (cases ss)
  case Nil
  then show ?thesis using assms by simp
next
  case (Cons s rest)
  then show ?thesis using assms
    by (cases i) (auto simp: field_at_def nth_other_fields)
qed

lemma specs_ok_nth: "specs_ok st ss \<Longrightarrow> i < length ss \<Longrightarrow> spec_ok st (ss ! i)"
proof (induction st ss arbitrary: i rule: specs_ok.induct)
  case (3 st s s' ss)
  then show ?case by (cases i) auto
qed auto

lemma specs_ok_order:
  "specs_ok st ss \<Longrightarrow> Suc i < length ss \<Longrightarrow>
     offsetof st (s_name (ss ! i)) + pb_membersize st (s_name (ss ! i)) \<le> offsetof st (s_name (ss ! Suc i))"
proof (induction st ss arbitrary: i rule: specs_ok.induct)
  case (3 st s s' ss)
  then show ?case by (cases i) auto
qed auto

lemma field_data_member:
  assumes ok: "specs_ok st ss"
  shows "i < length ss \<Longrightarrow>
    field_data (message_fields st ss) dest i = dest + int (offsetof st (s_name (ss ! i)))"
proof (induction i)
  case 0
  have "spec_ok st (ss ! 0)" using specs_ok_nth [OF ok 0] .
  then have r: "s_rule (ss ! 0) \<noteq> OPTEXT" and off: "offsetof st (s_name (ss ! 0)) < 2 ^ 31"
    by (auto simp: spec_ok_def)
  show ?case
    using message_fields_nth [OF 0, of st] r off
    by (simp add: PB_FIELD_type PB_DATAOFFSET_FIRST_def uint_nat unsigned_ucast_eq unat_of_nat take_bit_eq_mod)
next
  case (Suc i)
  have oki: "spec_ok st (ss ! i)" "spec_ok st (ss ! Suc i)"
    using specs_ok_nth [OF ok] Suc.prems by auto
  then have r: "s_rule (ss ! i) \<noteq> OPTEXT" "s_rule (ss ! Suc i) \<noteq> OPTEXT"
    and off: "offsetof st (s_name (ss ! Suc i)) < 2 ^ 31" by (auto simp: spec_ok_def)
  obtain pl p where fi: "field_at (message_fields st ss) i = spec_field st pl p (ss ! i)"
    using message_fields_nth [of i ss st] Suc.prems by (metis Suc_lessD)
  have fs: "field_at (message_fields st ss) (Suc i) = spec_field st OTHER (ss ! i) (ss ! Suc i)"
    using message_fields_nth [OF Suc.prems, of st] by simp
  show ?case
    using Suc.IH Suc.prems not_same_union [OF r(1)] iter_prev_size_member [OF oki(1), of pl p]
      dataoffset_other [OF specs_ok_order [OF ok Suc.prems] off]
    by (simp add: fi fs PB_FIELD_type r)
qed

text \<open>The presence flag and the count, for the fields that have one.\<close>

fun size_member :: "field_spec \<Rightarrow> string option" where
  "size_member s =
     (case (s_rule s, s_alloc s) of
        (OPTIONAL, STATIC) \<Rightarrow> Some (''has_'' @ s_name s)
      | (REPEATED, STATIC) \<Rightarrow> Some (s_name s @ ''_count'')
      | (REPEATED, POINTER) \<Rightarrow> Some (s_name s @ ''_count'')
      | _ \<Rightarrow> None)"

lemma sint_word_of_delta:
  assumes "\<bar>d\<bar> < 2 ^ 31"
  shows "sint (word_of_int d :: u32) = d"
proof -
  have "sint (word_of_int d :: u32) = signed_take_bit 31 d"
    by (simp add: signed_of_int)
  also have "\<dots> = d" using assms by (auto simp: signed_take_bit_int_eq_self_iff)
  finally show ?thesis .
qed

lemma field_size_member:
  assumes ok: "specs_ok st ss" and i: "i < length ss" and m: "size_member (ss ! i) = Some m"
    and off: "offsetof st m < 2 ^ 31"
  shows "field_size (message_fields st ss) dest i = dest + int (offsetof st m)"
proof -
  have oki: "spec_ok st (ss ! i)" by (rule specs_ok_nth [OF ok i])
  then have r: "s_rule (ss ! i) \<noteq> OPTEXT" and offi: "offsetof st (s_name (ss ! i)) < 2 ^ 31"
    by (auto simp: spec_ok_def)
  obtain pl p where fi: "field_at (message_fields st ss) i = spec_field st pl p (ss ! i)"
    using message_fields_nth [OF i, of st] by metis
  have "f_size_offset (spec_field st pl p (ss ! i)) = word_of_int (pb_delta st m (s_name (ss ! i)))"
    using m by (cases "s_rule (ss ! i)"; cases "s_alloc (ss ! i)")
      (auto simp: PB_FIELD_def pb_macro_defs pb_field_init_def)
  moreover have "\<bar>pb_delta st m (s_name (ss ! i))\<bar> < 2 ^ 31"
    using off offi by (auto simp: pb_delta_def)
  ultimately have so: "sint (f_size_offset (field_at (message_fields st ss) i)) = pb_delta st m (s_name (ss ! i))"
    by (simp only: fi sint_word_of_delta)
  have "field_size (message_fields st ss) dest i = field_data (message_fields st ss) dest i
      + sint (f_size_offset (field_at (message_fields st ss) i))"
  proof (cases i)
    case (Suc j)
    then have "s_rule (ss ! j) \<noteq> OPTEXT"
      using specs_ok_nth [OF ok, of j] i by (auto simp: spec_ok_def)
    moreover obtain pl p where "field_at (message_fields st ss) j = spec_field st pl p (ss ! j)"
      using message_fields_nth [of j ss st] i Suc by (metis Suc_lessD)
    ultimately have "\<not> same_union (field_at (message_fields st ss) j) (field_at (message_fields st ss) i)"
      using not_same_union by metis
    then show ?thesis using Suc by simp
  qed simp
  then show ?thesis
    using field_data_member [OF ok i, of dest] so by (simp add: pb_delta_def)
qed

text \<open>A descriptor array that describes a structure: its members, flags and counts, distinct tags.\<close>

definition message_ok :: "cstruct \<Rightarrow> pb_field list \<Rightarrow> field_spec list \<Rightarrow> bool" where
  "message_ok st fds specs \<longleftrightarrow>
     fds = message_fields st specs \<and> specs_ok st specs
     \<and> list_all (\<lambda>s. s_tag s \<noteq> 0) specs \<and> distinct (map s_tag specs)
     \<and> list_all (\<lambda>s. s_type s \<noteq> EXTENSION) specs
     \<and> list_all (\<lambda>s. case size_member s of None \<Rightarrow> True
                   | Some m \<Rightarrow> find_member 0 m st \<noteq> None \<and> offsetof st m < 2 ^ 31) specs"

lemmas layout_simps = spec_ok_def offsetof_def member_type_def pb_membersize_def pb_elemsize_def
  pb_arraysize_def align_up_def pb_bytes_array_t_def

lemma nfields_message_fields:
  assumes "specs_ok st ss" and "list_all (\<lambda>s. s_tag s \<noteq> 0) ss"
  shows "nfields (message_fields st ss) = length ss"
proof -
  let ?fs = "message_fields st ss"
  have tag: "f_tag (field_at ?fs i) \<noteq> 0" if "i < length ss" for i
  proof -
    have "s_rule (ss ! i) \<noteq> OPTEXT" using specs_ok_nth [OF assms(1) that] by (simp add: spec_ok_def)
    moreover have "s_tag (ss ! i) \<noteq> 0" using assms(2) that by (simp add: list_all_length)
    ultimately show ?thesis
      using message_fields_nth [OF that, of st] by (cases "i = 0") (simp_all add: PB_FIELD_type)
  qed
  have last: "f_tag (field_at ?fs (length ss)) = 0"
  proof (cases ss)
    case (Cons s rest)
    have "other_fields st s rest ! length rest = PB_LAST_FIELD"
      by (induction rest arbitrary: s) auto
    then show ?thesis by (simp add: Cons field_at_def PB_LAST_FIELD_def)
  qed (simp add: field_at_def PB_LAST_FIELD_def)
  show ?thesis
  proof (rule antisym)
    show "nfields ?fs \<le> length ss"
      using f_tag_before_nfields [of "length ss" ?fs] last by (meson not_less)
    show "length ss \<le> nfields ?fs"
      using f_tag_at_nfields [of ?fs] tag [of "nfields ?fs"] by (meson not_less)
  qed
qed

end
