(* ===== verification/Cct_Proto.thy ===== *)
theory Cct_Proto
  imports Pb_Layout
begin

text \<open>
  \<^verbatim>\<open>cct.nanopb.h\<close> and \<^verbatim>\<open>cct.nanopb.c\<close> of GoogleDataTransportCCTSupport: the messages
  the transport sends to the log server and the response it reads. Enumerations, structures and descriptor
  arrays as generated; every array describes its structure (\<open>message_ok\<close>).
\<close>

section \<open>Enumerations\<close>

datatype gdt_cct_NetworkConnectionInfo_NetworkType =
    gdt_cct_NetworkConnectionInfo_NetworkType_NONE
  | gdt_cct_NetworkConnectionInfo_NetworkType_MOBILE
  | gdt_cct_NetworkConnectionInfo_NetworkType_WIFI
  | gdt_cct_NetworkConnectionInfo_NetworkType_MOBILE_MMS
  | gdt_cct_NetworkConnectionInfo_NetworkType_MOBILE_SUPL
  | gdt_cct_NetworkConnectionInfo_NetworkType_MOBILE_DUN
  | gdt_cct_NetworkConnectionInfo_NetworkType_MOBILE_HIPRI
  | gdt_cct_NetworkConnectionInfo_NetworkType_WIMAX
  | gdt_cct_NetworkConnectionInfo_NetworkType_BLUETOOTH
  | gdt_cct_NetworkConnectionInfo_NetworkType_DUMMY
  | gdt_cct_NetworkConnectionInfo_NetworkType_ETHERNET
  | gdt_cct_NetworkConnectionInfo_NetworkType_MOBILE_FOTA
  | gdt_cct_NetworkConnectionInfo_NetworkType_MOBILE_IMS
  | gdt_cct_NetworkConnectionInfo_NetworkType_MOBILE_CBS
  | gdt_cct_NetworkConnectionInfo_NetworkType_WIFI_P2P
  | gdt_cct_NetworkConnectionInfo_NetworkType_MOBILE_IA
  | gdt_cct_NetworkConnectionInfo_NetworkType_MOBILE_EMERGENCY
  | gdt_cct_NetworkConnectionInfo_NetworkType_PROXY
  | gdt_cct_NetworkConnectionInfo_NetworkType_VPN

fun gdt_cct_NetworkConnectionInfo_NetworkType_value :: "gdt_cct_NetworkConnectionInfo_NetworkType \<Rightarrow> int" where
  "gdt_cct_NetworkConnectionInfo_NetworkType_value gdt_cct_NetworkConnectionInfo_NetworkType_NONE = - 1"
| "gdt_cct_NetworkConnectionInfo_NetworkType_value gdt_cct_NetworkConnectionInfo_NetworkType_MOBILE = 0"
| "gdt_cct_NetworkConnectionInfo_NetworkType_value gdt_cct_NetworkConnectionInfo_NetworkType_WIFI = 1"
| "gdt_cct_NetworkConnectionInfo_NetworkType_value gdt_cct_NetworkConnectionInfo_NetworkType_MOBILE_MMS = 2"
| "gdt_cct_NetworkConnectionInfo_NetworkType_value gdt_cct_NetworkConnectionInfo_NetworkType_MOBILE_SUPL = 3"
| "gdt_cct_NetworkConnectionInfo_NetworkType_value gdt_cct_NetworkConnectionInfo_NetworkType_MOBILE_DUN = 4"
| "gdt_cct_NetworkConnectionInfo_NetworkType_value gdt_cct_NetworkConnectionInfo_NetworkType_MOBILE_HIPRI = 5"
| "gdt_cct_NetworkConnectionInfo_NetworkType_value gdt_cct_NetworkConnectionInfo_NetworkType_WIMAX = 6"
| "gdt_cct_NetworkConnectionInfo_NetworkType_value gdt_cct_NetworkConnectionInfo_NetworkType_BLUETOOTH = 7"
| "gdt_cct_NetworkConnectionInfo_NetworkType_value gdt_cct_NetworkConnectionInfo_NetworkType_DUMMY = 8"
| "gdt_cct_NetworkConnectionInfo_NetworkType_value gdt_cct_NetworkConnectionInfo_NetworkType_ETHERNET = 9"
| "gdt_cct_NetworkConnectionInfo_NetworkType_value gdt_cct_NetworkConnectionInfo_NetworkType_MOBILE_FOTA = 10"
| "gdt_cct_NetworkConnectionInfo_NetworkType_value gdt_cct_NetworkConnectionInfo_NetworkType_MOBILE_IMS = 11"
| "gdt_cct_NetworkConnectionInfo_NetworkType_value gdt_cct_NetworkConnectionInfo_NetworkType_MOBILE_CBS = 12"
| "gdt_cct_NetworkConnectionInfo_NetworkType_value gdt_cct_NetworkConnectionInfo_NetworkType_WIFI_P2P = 13"
| "gdt_cct_NetworkConnectionInfo_NetworkType_value gdt_cct_NetworkConnectionInfo_NetworkType_MOBILE_IA = 14"
| "gdt_cct_NetworkConnectionInfo_NetworkType_value gdt_cct_NetworkConnectionInfo_NetworkType_MOBILE_EMERGENCY = 15"
| "gdt_cct_NetworkConnectionInfo_NetworkType_value gdt_cct_NetworkConnectionInfo_NetworkType_PROXY = 16"
| "gdt_cct_NetworkConnectionInfo_NetworkType_value gdt_cct_NetworkConnectionInfo_NetworkType_VPN = 17"

definition gdt_cct_NetworkConnectionInfo_NetworkType_MIN :: gdt_cct_NetworkConnectionInfo_NetworkType where
  "gdt_cct_NetworkConnectionInfo_NetworkType_MIN = gdt_cct_NetworkConnectionInfo_NetworkType_NONE"

definition gdt_cct_NetworkConnectionInfo_NetworkType_MAX :: gdt_cct_NetworkConnectionInfo_NetworkType where
  "gdt_cct_NetworkConnectionInfo_NetworkType_MAX = gdt_cct_NetworkConnectionInfo_NetworkType_VPN"

definition gdt_cct_NetworkConnectionInfo_NetworkType_ARRAYSIZE :: int where
  "gdt_cct_NetworkConnectionInfo_NetworkType_ARRAYSIZE = gdt_cct_NetworkConnectionInfo_NetworkType_value gdt_cct_NetworkConnectionInfo_NetworkType_VPN + 1"

datatype gdt_cct_NetworkConnectionInfo_MobileSubtype =
    gdt_cct_NetworkConnectionInfo_MobileSubtype_UNKNOWN_MOBILE_SUBTYPE
  | gdt_cct_NetworkConnectionInfo_MobileSubtype_GPRS
  | gdt_cct_NetworkConnectionInfo_MobileSubtype_EDGE
  | gdt_cct_NetworkConnectionInfo_MobileSubtype_UMTS
  | gdt_cct_NetworkConnectionInfo_MobileSubtype_CDMA
  | gdt_cct_NetworkConnectionInfo_MobileSubtype_EVDO_0
  | gdt_cct_NetworkConnectionInfo_MobileSubtype_EVDO_A
  | gdt_cct_NetworkConnectionInfo_MobileSubtype_RTT
  | gdt_cct_NetworkConnectionInfo_MobileSubtype_HSDPA
  | gdt_cct_NetworkConnectionInfo_MobileSubtype_HSUPA
  | gdt_cct_NetworkConnectionInfo_MobileSubtype_HSPA
  | gdt_cct_NetworkConnectionInfo_MobileSubtype_IDEN
  | gdt_cct_NetworkConnectionInfo_MobileSubtype_EVDO_B
  | gdt_cct_NetworkConnectionInfo_MobileSubtype_LTE
  | gdt_cct_NetworkConnectionInfo_MobileSubtype_EHRPD
  | gdt_cct_NetworkConnectionInfo_MobileSubtype_HSPAP
  | gdt_cct_NetworkConnectionInfo_MobileSubtype_GSM
  | gdt_cct_NetworkConnectionInfo_MobileSubtype_TD_SCDMA
  | gdt_cct_NetworkConnectionInfo_MobileSubtype_IWLAN
  | gdt_cct_NetworkConnectionInfo_MobileSubtype_LTE_CA
  | gdt_cct_NetworkConnectionInfo_MobileSubtype_COMBINED

fun gdt_cct_NetworkConnectionInfo_MobileSubtype_value :: "gdt_cct_NetworkConnectionInfo_MobileSubtype \<Rightarrow> int" where
  "gdt_cct_NetworkConnectionInfo_MobileSubtype_value gdt_cct_NetworkConnectionInfo_MobileSubtype_UNKNOWN_MOBILE_SUBTYPE = 0"
| "gdt_cct_NetworkConnectionInfo_MobileSubtype_value gdt_cct_NetworkConnectionInfo_MobileSubtype_GPRS = 1"
| "gdt_cct_NetworkConnectionInfo_MobileSubtype_value gdt_cct_NetworkConnectionInfo_MobileSubtype_EDGE = 2"
| "gdt_cct_NetworkConnectionInfo_MobileSubtype_value gdt_cct_NetworkConnectionInfo_MobileSubtype_UMTS = 3"
| "gdt_cct_NetworkConnectionInfo_MobileSubtype_value gdt_cct_NetworkConnectionInfo_MobileSubtype_CDMA = 4"
| "gdt_cct_NetworkConnectionInfo_MobileSubtype_value gdt_cct_NetworkConnectionInfo_MobileSubtype_EVDO_0 = 5"
| "gdt_cct_NetworkConnectionInfo_MobileSubtype_value gdt_cct_NetworkConnectionInfo_MobileSubtype_EVDO_A = 6"
| "gdt_cct_NetworkConnectionInfo_MobileSubtype_value gdt_cct_NetworkConnectionInfo_MobileSubtype_RTT = 7"
| "gdt_cct_NetworkConnectionInfo_MobileSubtype_value gdt_cct_NetworkConnectionInfo_MobileSubtype_HSDPA = 8"
| "gdt_cct_NetworkConnectionInfo_MobileSubtype_value gdt_cct_NetworkConnectionInfo_MobileSubtype_HSUPA = 9"
| "gdt_cct_NetworkConnectionInfo_MobileSubtype_value gdt_cct_NetworkConnectionInfo_MobileSubtype_HSPA = 10"
| "gdt_cct_NetworkConnectionInfo_MobileSubtype_value gdt_cct_NetworkConnectionInfo_MobileSubtype_IDEN = 11"
| "gdt_cct_NetworkConnectionInfo_MobileSubtype_value gdt_cct_NetworkConnectionInfo_MobileSubtype_EVDO_B = 12"
| "gdt_cct_NetworkConnectionInfo_MobileSubtype_value gdt_cct_NetworkConnectionInfo_MobileSubtype_LTE = 13"
| "gdt_cct_NetworkConnectionInfo_MobileSubtype_value gdt_cct_NetworkConnectionInfo_MobileSubtype_EHRPD = 14"
| "gdt_cct_NetworkConnectionInfo_MobileSubtype_value gdt_cct_NetworkConnectionInfo_MobileSubtype_HSPAP = 15"
| "gdt_cct_NetworkConnectionInfo_MobileSubtype_value gdt_cct_NetworkConnectionInfo_MobileSubtype_GSM = 16"
| "gdt_cct_NetworkConnectionInfo_MobileSubtype_value gdt_cct_NetworkConnectionInfo_MobileSubtype_TD_SCDMA = 17"
| "gdt_cct_NetworkConnectionInfo_MobileSubtype_value gdt_cct_NetworkConnectionInfo_MobileSubtype_IWLAN = 18"
| "gdt_cct_NetworkConnectionInfo_MobileSubtype_value gdt_cct_NetworkConnectionInfo_MobileSubtype_LTE_CA = 19"
| "gdt_cct_NetworkConnectionInfo_MobileSubtype_value gdt_cct_NetworkConnectionInfo_MobileSubtype_COMBINED = 100"

definition gdt_cct_NetworkConnectionInfo_MobileSubtype_MIN :: gdt_cct_NetworkConnectionInfo_MobileSubtype where
  "gdt_cct_NetworkConnectionInfo_MobileSubtype_MIN = gdt_cct_NetworkConnectionInfo_MobileSubtype_UNKNOWN_MOBILE_SUBTYPE"

definition gdt_cct_NetworkConnectionInfo_MobileSubtype_MAX :: gdt_cct_NetworkConnectionInfo_MobileSubtype where
  "gdt_cct_NetworkConnectionInfo_MobileSubtype_MAX = gdt_cct_NetworkConnectionInfo_MobileSubtype_COMBINED"

definition gdt_cct_NetworkConnectionInfo_MobileSubtype_ARRAYSIZE :: int where
  "gdt_cct_NetworkConnectionInfo_MobileSubtype_ARRAYSIZE = gdt_cct_NetworkConnectionInfo_MobileSubtype_value gdt_cct_NetworkConnectionInfo_MobileSubtype_COMBINED + 1"

datatype gdt_cct_ClientInfo_ClientType =
    gdt_cct_ClientInfo_ClientType_CLIENT_UNKNOWN
  | gdt_cct_ClientInfo_ClientType_IOS_FIREBASE

fun gdt_cct_ClientInfo_ClientType_value :: "gdt_cct_ClientInfo_ClientType \<Rightarrow> int" where
  "gdt_cct_ClientInfo_ClientType_value gdt_cct_ClientInfo_ClientType_CLIENT_UNKNOWN = 0"
| "gdt_cct_ClientInfo_ClientType_value gdt_cct_ClientInfo_ClientType_IOS_FIREBASE = 15"

definition gdt_cct_ClientInfo_ClientType_MIN :: gdt_cct_ClientInfo_ClientType where
  "gdt_cct_ClientInfo_ClientType_MIN = gdt_cct_ClientInfo_ClientType_CLIENT_UNKNOWN"

definition gdt_cct_ClientInfo_ClientType_MAX :: gdt_cct_ClientInfo_ClientType where
  "gdt_cct_ClientInfo_ClientType_MAX = gdt_cct_ClientInfo_ClientType_IOS_FIREBASE"

definition gdt_cct_ClientInfo_ClientType_ARRAYSIZE :: int where
  "gdt_cct_ClientInfo_ClientType_ARRAYSIZE = gdt_cct_ClientInfo_ClientType_value gdt_cct_ClientInfo_ClientType_IOS_FIREBASE + 1"

datatype gdt_cct_QosTierConfiguration_QosTier =
    gdt_cct_QosTierConfiguration_QosTier_DEFAULT
  | gdt_cct_QosTierConfiguration_QosTier_UNMETERED_ONLY
  | gdt_cct_QosTierConfiguration_QosTier_UNMETERED_OR_DAILY
  | gdt_cct_QosTierConfiguration_QosTier_FAST_IF_RADIO_AWAKE
  | gdt_cct_QosTierConfiguration_QosTier_NEVER

fun gdt_cct_QosTierConfiguration_QosTier_value :: "gdt_cct_QosTierConfiguration_QosTier \<Rightarrow> int" where
  "gdt_cct_QosTierConfiguration_QosTier_value gdt_cct_QosTierConfiguration_QosTier_DEFAULT = 0"
| "gdt_cct_QosTierConfiguration_QosTier_value gdt_cct_QosTierConfiguration_QosTier_UNMETERED_ONLY = 1"
| "gdt_cct_QosTierConfiguration_QosTier_value gdt_cct_QosTierConfiguration_QosTier_UNMETERED_OR_DAILY = 2"
| "gdt_cct_QosTierConfiguration_QosTier_value gdt_cct_QosTierConfiguration_QosTier_FAST_IF_RADIO_AWAKE = 3"
| "gdt_cct_QosTierConfiguration_QosTier_value gdt_cct_QosTierConfiguration_QosTier_NEVER = 4"

definition gdt_cct_QosTierConfiguration_QosTier_MIN :: gdt_cct_QosTierConfiguration_QosTier where
  "gdt_cct_QosTierConfiguration_QosTier_MIN = gdt_cct_QosTierConfiguration_QosTier_DEFAULT"

definition gdt_cct_QosTierConfiguration_QosTier_MAX :: gdt_cct_QosTierConfiguration_QosTier where
  "gdt_cct_QosTierConfiguration_QosTier_MAX = gdt_cct_QosTierConfiguration_QosTier_NEVER"

definition gdt_cct_QosTierConfiguration_QosTier_ARRAYSIZE :: int where
  "gdt_cct_QosTierConfiguration_QosTier_ARRAYSIZE = gdt_cct_QosTierConfiguration_QosTier_value gdt_cct_QosTierConfiguration_QosTier_NEVER + 1"

section \<open>Structures\<close>

definition gdt_cct_IosClientInfo :: cstruct where
  "gdt_cct_IosClientInfo =
     [(''os_major_version'', CPtr pb_bytes_array_t),
      (''os_full_version'', CPtr pb_bytes_array_t),
      (''application_build'', CPtr pb_bytes_array_t),
      (''country'', CPtr pb_bytes_array_t),
      (''model'', CPtr pb_bytes_array_t),
      (''language_code'', CPtr pb_bytes_array_t),
      (''application_bundle_id'', CPtr pb_bytes_array_t)]"

definition gdt_cct_ClientInfo :: cstruct where
  "gdt_cct_ClientInfo =
     [(''has_client_type'', C_bool),
      (''client_type'', C_enum),
      (''has_ios_client_info'', C_bool),
      (''ios_client_info'', CStruct gdt_cct_IosClientInfo)]"

definition gdt_cct_NetworkConnectionInfo :: cstruct where
  "gdt_cct_NetworkConnectionInfo =
     [(''has_network_type'', C_bool),
      (''network_type'', C_enum),
      (''has_mobile_subtype'', C_bool),
      (''mobile_subtype'', C_enum)]"

definition gdt_cct_QosTierConfiguration :: cstruct where
  "gdt_cct_QosTierConfiguration =
     [(''has_qos_tier'', C_bool),
      (''qos_tier'', C_enum),
      (''has_log_source'', C_bool),
      (''log_source'', C_int32)]"

definition gdt_cct_QosTiersOverride :: cstruct where
  "gdt_cct_QosTiersOverride =
     [(''qos_tier_configuration_count'', C_pb_size),
      (''qos_tier_configuration'', CPtr (CStruct gdt_cct_QosTierConfiguration)),
      (''has_qos_tier_fingerprint'', C_bool),
      (''qos_tier_fingerprint'', C_int64)]"

definition gdt_cct_LogEvent :: cstruct where
  "gdt_cct_LogEvent =
     [(''has_event_time_ms'', C_bool),
      (''event_time_ms'', C_int64),
      (''source_extension'', CPtr pb_bytes_array_t),
      (''has_event_code'', C_bool),
      (''event_code'', C_int32),
      (''has_timezone_offset_seconds'', C_bool),
      (''timezone_offset_seconds'', C_int64),
      (''has_event_uptime_ms'', C_bool),
      (''event_uptime_ms'', C_int64),
      (''has_network_connection_info'', C_bool),
      (''network_connection_info'', CStruct gdt_cct_NetworkConnectionInfo)]"

definition gdt_cct_LogRequest :: cstruct where
  "gdt_cct_LogRequest =
     [(''has_client_info'', C_bool),
      (''client_info'', CStruct gdt_cct_ClientInfo),
      (''has_log_source'', C_bool),
      (''log_source'', C_int32),
      (''log_event_count'', C_pb_size),
      (''log_event'', CPtr (CStruct gdt_cct_LogEvent)),
      (''has_request_time_ms'', C_bool),
      (''request_time_ms'', C_int64),
      (''has_request_uptime_ms'', C_bool),
      (''request_uptime_ms'', C_int64),
      (''has_qos_tier'', C_bool),
      (''qos_tier'', C_enum)]"

definition gdt_cct_BatchedLogRequest :: cstruct where
  "gdt_cct_BatchedLogRequest =
     [(''log_request_count'', C_pb_size),
      (''log_request'', CPtr (CStruct gdt_cct_LogRequest))]"

definition gdt_cct_LogResponse :: cstruct where
  "gdt_cct_LogResponse =
     [(''has_next_request_wait_millis'', C_bool),
      (''next_request_wait_millis'', C_int64),
      (''has_qos_tier'', C_bool),
      (''qos_tier'', CStruct gdt_cct_QosTiersOverride)]"

section \<open>Default values\<close>

definition gdt_cct_NetworkConnectionInfo_network_type_default :: int where
  "gdt_cct_NetworkConnectionInfo_network_type_default = gdt_cct_NetworkConnectionInfo_NetworkType_value gdt_cct_NetworkConnectionInfo_NetworkType_NONE"

definition gdt_cct_NetworkConnectionInfo_mobile_subtype_default :: int where
  "gdt_cct_NetworkConnectionInfo_mobile_subtype_default = gdt_cct_NetworkConnectionInfo_MobileSubtype_value gdt_cct_NetworkConnectionInfo_MobileSubtype_UNKNOWN_MOBILE_SUBTYPE"

definition gdt_cct_LogRequest_qos_tier_default :: int where
  "gdt_cct_LogRequest_qos_tier_default = gdt_cct_QosTierConfiguration_QosTier_value gdt_cct_QosTierConfiguration_QosTier_DEFAULT"

definition gdt_cct_QosTierConfiguration_log_source_default :: int where
  "gdt_cct_QosTierConfiguration_log_source_default = 0"

section \<open>Descriptors\<close>

text \<open>
  The arrays as they are written in the source. The addresses the linker gives to descriptor
  arrays and default values are the argument \<open>L\<close>.
\<close>

definition gdt_cct_LogEvent_fields :: "(string \<Rightarrow> addr) \<Rightarrow> pb_field list" where
  "gdt_cct_LogEvent_fields L =
     [PB_FIELD 1 INT64 OPTIONAL STATIC FIRST gdt_cct_LogEvent ''event_time_ms'' ''event_time_ms'' 0,
      PB_FIELD 6 BYTES OPTIONAL POINTER OTHER gdt_cct_LogEvent ''source_extension'' ''event_time_ms'' 0,
      PB_FIELD 11 INT32 OPTIONAL STATIC OTHER gdt_cct_LogEvent ''event_code'' ''source_extension'' 0,
      PB_FIELD 15 SINT64 OPTIONAL STATIC OTHER gdt_cct_LogEvent ''timezone_offset_seconds'' ''event_code'' 0,
      PB_FIELD 17 INT64 OPTIONAL STATIC OTHER gdt_cct_LogEvent ''event_uptime_ms'' ''timezone_offset_seconds'' 0,
      PB_FIELD 23 MESSAGE OPTIONAL STATIC OTHER gdt_cct_LogEvent ''network_connection_info'' ''event_uptime_ms'' (L ''gdt_cct_NetworkConnectionInfo_fields''),
      PB_LAST_FIELD]"

definition gdt_cct_NetworkConnectionInfo_fields :: "(string \<Rightarrow> addr) \<Rightarrow> pb_field list" where
  "gdt_cct_NetworkConnectionInfo_fields L =
     [PB_FIELD 1 ENUM OPTIONAL STATIC FIRST gdt_cct_NetworkConnectionInfo ''network_type'' ''network_type'' (L ''gdt_cct_NetworkConnectionInfo_network_type_default''),
      PB_FIELD 2 UENUM OPTIONAL STATIC OTHER gdt_cct_NetworkConnectionInfo ''mobile_subtype'' ''network_type'' (L ''gdt_cct_NetworkConnectionInfo_mobile_subtype_default''),
      PB_LAST_FIELD]"

definition gdt_cct_IosClientInfo_fields :: "(string \<Rightarrow> addr) \<Rightarrow> pb_field list" where
  "gdt_cct_IosClientInfo_fields L =
     [PB_FIELD 3 BYTES OPTIONAL POINTER FIRST gdt_cct_IosClientInfo ''os_major_version'' ''os_major_version'' 0,
      PB_FIELD 4 BYTES OPTIONAL POINTER OTHER gdt_cct_IosClientInfo ''os_full_version'' ''os_major_version'' 0,
      PB_FIELD 5 BYTES OPTIONAL POINTER OTHER gdt_cct_IosClientInfo ''application_build'' ''os_full_version'' 0,
      PB_FIELD 6 BYTES OPTIONAL POINTER OTHER gdt_cct_IosClientInfo ''country'' ''application_build'' 0,
      PB_FIELD 7 BYTES OPTIONAL POINTER OTHER gdt_cct_IosClientInfo ''model'' ''country'' 0,
      PB_FIELD 8 BYTES OPTIONAL POINTER OTHER gdt_cct_IosClientInfo ''language_code'' ''model'' 0,
      PB_FIELD 11 BYTES OPTIONAL POINTER OTHER gdt_cct_IosClientInfo ''application_bundle_id'' ''language_code'' 0,
      PB_LAST_FIELD]"

definition gdt_cct_ClientInfo_fields :: "(string \<Rightarrow> addr) \<Rightarrow> pb_field list" where
  "gdt_cct_ClientInfo_fields L =
     [PB_FIELD 1 UENUM OPTIONAL STATIC FIRST gdt_cct_ClientInfo ''client_type'' ''client_type'' 0,
      PB_FIELD 4 MESSAGE OPTIONAL STATIC OTHER gdt_cct_ClientInfo ''ios_client_info'' ''client_type'' (L ''gdt_cct_IosClientInfo_fields''),
      PB_LAST_FIELD]"

definition gdt_cct_BatchedLogRequest_fields :: "(string \<Rightarrow> addr) \<Rightarrow> pb_field list" where
  "gdt_cct_BatchedLogRequest_fields L =
     [PB_FIELD 1 MESSAGE REPEATED POINTER FIRST gdt_cct_BatchedLogRequest ''log_request'' ''log_request'' (L ''gdt_cct_LogRequest_fields''),
      PB_LAST_FIELD]"

definition gdt_cct_LogRequest_fields :: "(string \<Rightarrow> addr) \<Rightarrow> pb_field list" where
  "gdt_cct_LogRequest_fields L =
     [PB_FIELD 1 MESSAGE OPTIONAL STATIC FIRST gdt_cct_LogRequest ''client_info'' ''client_info'' (L ''gdt_cct_ClientInfo_fields''),
      PB_FIELD 2 INT32 OPTIONAL STATIC OTHER gdt_cct_LogRequest ''log_source'' ''client_info'' 0,
      PB_FIELD 3 MESSAGE REPEATED POINTER OTHER gdt_cct_LogRequest ''log_event'' ''log_source'' (L ''gdt_cct_LogEvent_fields''),
      PB_FIELD 4 INT64 OPTIONAL STATIC OTHER gdt_cct_LogRequest ''request_time_ms'' ''log_event'' 0,
      PB_FIELD 8 INT64 OPTIONAL STATIC OTHER gdt_cct_LogRequest ''request_uptime_ms'' ''request_time_ms'' 0,
      PB_FIELD 9 UENUM OPTIONAL STATIC OTHER gdt_cct_LogRequest ''qos_tier'' ''request_uptime_ms'' (L ''gdt_cct_LogRequest_qos_tier_default''),
      PB_LAST_FIELD]"

definition gdt_cct_QosTierConfiguration_fields :: "(string \<Rightarrow> addr) \<Rightarrow> pb_field list" where
  "gdt_cct_QosTierConfiguration_fields L =
     [PB_FIELD 2 UENUM OPTIONAL STATIC FIRST gdt_cct_QosTierConfiguration ''qos_tier'' ''qos_tier'' 0,
      PB_FIELD 3 INT32 OPTIONAL STATIC OTHER gdt_cct_QosTierConfiguration ''log_source'' ''qos_tier'' (L ''gdt_cct_QosTierConfiguration_log_source_default''),
      PB_LAST_FIELD]"

definition gdt_cct_QosTiersOverride_fields :: "(string \<Rightarrow> addr) \<Rightarrow> pb_field list" where
  "gdt_cct_QosTiersOverride_fields L =
     [PB_FIELD 1 MESSAGE REPEATED POINTER FIRST gdt_cct_QosTiersOverride ''qos_tier_configuration'' ''qos_tier_configuration'' (L ''gdt_cct_QosTierConfiguration_fields''),
      PB_FIELD 2 INT64 OPTIONAL STATIC OTHER gdt_cct_QosTiersOverride ''qos_tier_fingerprint'' ''qos_tier_configuration'' 0,
      PB_LAST_FIELD]"

definition gdt_cct_LogResponse_fields :: "(string \<Rightarrow> addr) \<Rightarrow> pb_field list" where
  "gdt_cct_LogResponse_fields L =
     [PB_FIELD 1 INT64 OPTIONAL STATIC FIRST gdt_cct_LogResponse ''next_request_wait_millis'' ''next_request_wait_millis'' 0,
      PB_FIELD 3 MESSAGE OPTIONAL STATIC OTHER gdt_cct_LogResponse ''qos_tier'' ''next_request_wait_millis'' (L ''gdt_cct_QosTiersOverride_fields''),
      PB_LAST_FIELD]"

section \<open>Field tags\<close>

definition gdt_cct_BatchedLogRequest_log_request_tag :: u32 where "gdt_cct_BatchedLogRequest_log_request_tag = 1"
definition gdt_cct_IosClientInfo_os_major_version_tag :: u32 where "gdt_cct_IosClientInfo_os_major_version_tag = 3"
definition gdt_cct_IosClientInfo_os_full_version_tag :: u32 where "gdt_cct_IosClientInfo_os_full_version_tag = 4"
definition gdt_cct_IosClientInfo_application_build_tag :: u32 where "gdt_cct_IosClientInfo_application_build_tag = 5"
definition gdt_cct_IosClientInfo_country_tag :: u32 where "gdt_cct_IosClientInfo_country_tag = 6"
definition gdt_cct_IosClientInfo_model_tag :: u32 where "gdt_cct_IosClientInfo_model_tag = 7"
definition gdt_cct_IosClientInfo_language_code_tag :: u32 where "gdt_cct_IosClientInfo_language_code_tag = 8"
definition gdt_cct_IosClientInfo_application_bundle_id_tag :: u32 where "gdt_cct_IosClientInfo_application_bundle_id_tag = 11"
definition gdt_cct_ClientInfo_client_type_tag :: u32 where "gdt_cct_ClientInfo_client_type_tag = 1"
definition gdt_cct_ClientInfo_ios_client_info_tag :: u32 where "gdt_cct_ClientInfo_ios_client_info_tag = 4"
definition gdt_cct_NetworkConnectionInfo_network_type_tag :: u32 where "gdt_cct_NetworkConnectionInfo_network_type_tag = 1"
definition gdt_cct_NetworkConnectionInfo_mobile_subtype_tag :: u32 where "gdt_cct_NetworkConnectionInfo_mobile_subtype_tag = 2"
definition gdt_cct_QosTierConfiguration_qos_tier_tag :: u32 where "gdt_cct_QosTierConfiguration_qos_tier_tag = 2"
definition gdt_cct_QosTierConfiguration_log_source_tag :: u32 where "gdt_cct_QosTierConfiguration_log_source_tag = 3"
definition gdt_cct_QosTiersOverride_qos_tier_configuration_tag :: u32 where "gdt_cct_QosTiersOverride_qos_tier_configuration_tag = 1"
definition gdt_cct_QosTiersOverride_qos_tier_fingerprint_tag :: u32 where "gdt_cct_QosTiersOverride_qos_tier_fingerprint_tag = 2"
definition gdt_cct_LogEvent_event_time_ms_tag :: u32 where "gdt_cct_LogEvent_event_time_ms_tag = 1"
definition gdt_cct_LogEvent_event_code_tag :: u32 where "gdt_cct_LogEvent_event_code_tag = 11"
definition gdt_cct_LogEvent_event_uptime_ms_tag :: u32 where "gdt_cct_LogEvent_event_uptime_ms_tag = 17"
definition gdt_cct_LogEvent_source_extension_tag :: u32 where "gdt_cct_LogEvent_source_extension_tag = 6"
definition gdt_cct_LogEvent_timezone_offset_seconds_tag :: u32 where "gdt_cct_LogEvent_timezone_offset_seconds_tag = 15"
definition gdt_cct_LogEvent_network_connection_info_tag :: u32 where "gdt_cct_LogEvent_network_connection_info_tag = 23"
definition gdt_cct_LogRequest_request_time_ms_tag :: u32 where "gdt_cct_LogRequest_request_time_ms_tag = 4"
definition gdt_cct_LogRequest_request_uptime_ms_tag :: u32 where "gdt_cct_LogRequest_request_uptime_ms_tag = 8"
definition gdt_cct_LogRequest_client_info_tag :: u32 where "gdt_cct_LogRequest_client_info_tag = 1"
definition gdt_cct_LogRequest_log_source_tag :: u32 where "gdt_cct_LogRequest_log_source_tag = 2"
definition gdt_cct_LogRequest_log_event_tag :: u32 where "gdt_cct_LogRequest_log_event_tag = 3"
definition gdt_cct_LogRequest_qos_tier_tag :: u32 where "gdt_cct_LogRequest_qos_tier_tag = 9"
definition gdt_cct_LogResponse_next_request_wait_millis_tag :: u32 where "gdt_cct_LogResponse_next_request_wait_millis_tag = 1"
definition gdt_cct_LogResponse_qos_tier_tag :: u32 where "gdt_cct_LogResponse_qos_tier_tag = 3"

section \<open>The message types as schemas\<close>

text \<open>Name, type and rule of every field, in the order of the descriptors.\<close>

definition gdt_cct_LogEvent_specs :: "(string \<Rightarrow> addr) \<Rightarrow> field_spec list" where
  "gdt_cct_LogEvent_specs L =
     [\<lparr>s_tag = 1, s_type = INT64, s_rule = OPTIONAL, s_alloc = STATIC, s_name = ''event_time_ms'', s_ptr = 0\<rparr>,
      \<lparr>s_tag = 6, s_type = BYTES, s_rule = OPTIONAL, s_alloc = POINTER, s_name = ''source_extension'', s_ptr = 0\<rparr>,
      \<lparr>s_tag = 11, s_type = INT32, s_rule = OPTIONAL, s_alloc = STATIC, s_name = ''event_code'', s_ptr = 0\<rparr>,
      \<lparr>s_tag = 15, s_type = SINT64, s_rule = OPTIONAL, s_alloc = STATIC, s_name = ''timezone_offset_seconds'', s_ptr = 0\<rparr>,
      \<lparr>s_tag = 17, s_type = INT64, s_rule = OPTIONAL, s_alloc = STATIC, s_name = ''event_uptime_ms'', s_ptr = 0\<rparr>,
      \<lparr>s_tag = 23, s_type = MESSAGE, s_rule = OPTIONAL, s_alloc = STATIC, s_name = ''network_connection_info'', s_ptr = L ''gdt_cct_NetworkConnectionInfo_fields''\<rparr>]"

definition gdt_cct_NetworkConnectionInfo_specs :: "(string \<Rightarrow> addr) \<Rightarrow> field_spec list" where
  "gdt_cct_NetworkConnectionInfo_specs L =
     [\<lparr>s_tag = 1, s_type = ENUM, s_rule = OPTIONAL, s_alloc = STATIC, s_name = ''network_type'', s_ptr = L ''gdt_cct_NetworkConnectionInfo_network_type_default''\<rparr>,
      \<lparr>s_tag = 2, s_type = UENUM, s_rule = OPTIONAL, s_alloc = STATIC, s_name = ''mobile_subtype'', s_ptr = L ''gdt_cct_NetworkConnectionInfo_mobile_subtype_default''\<rparr>]"

definition gdt_cct_IosClientInfo_specs :: "(string \<Rightarrow> addr) \<Rightarrow> field_spec list" where
  "gdt_cct_IosClientInfo_specs L =
     [\<lparr>s_tag = 3, s_type = BYTES, s_rule = OPTIONAL, s_alloc = POINTER, s_name = ''os_major_version'', s_ptr = 0\<rparr>,
      \<lparr>s_tag = 4, s_type = BYTES, s_rule = OPTIONAL, s_alloc = POINTER, s_name = ''os_full_version'', s_ptr = 0\<rparr>,
      \<lparr>s_tag = 5, s_type = BYTES, s_rule = OPTIONAL, s_alloc = POINTER, s_name = ''application_build'', s_ptr = 0\<rparr>,
      \<lparr>s_tag = 6, s_type = BYTES, s_rule = OPTIONAL, s_alloc = POINTER, s_name = ''country'', s_ptr = 0\<rparr>,
      \<lparr>s_tag = 7, s_type = BYTES, s_rule = OPTIONAL, s_alloc = POINTER, s_name = ''model'', s_ptr = 0\<rparr>,
      \<lparr>s_tag = 8, s_type = BYTES, s_rule = OPTIONAL, s_alloc = POINTER, s_name = ''language_code'', s_ptr = 0\<rparr>,
      \<lparr>s_tag = 11, s_type = BYTES, s_rule = OPTIONAL, s_alloc = POINTER, s_name = ''application_bundle_id'', s_ptr = 0\<rparr>]"

definition gdt_cct_ClientInfo_specs :: "(string \<Rightarrow> addr) \<Rightarrow> field_spec list" where
  "gdt_cct_ClientInfo_specs L =
     [\<lparr>s_tag = 1, s_type = UENUM, s_rule = OPTIONAL, s_alloc = STATIC, s_name = ''client_type'', s_ptr = 0\<rparr>,
      \<lparr>s_tag = 4, s_type = MESSAGE, s_rule = OPTIONAL, s_alloc = STATIC, s_name = ''ios_client_info'', s_ptr = L ''gdt_cct_IosClientInfo_fields''\<rparr>]"

definition gdt_cct_BatchedLogRequest_specs :: "(string \<Rightarrow> addr) \<Rightarrow> field_spec list" where
  "gdt_cct_BatchedLogRequest_specs L =
     [\<lparr>s_tag = 1, s_type = MESSAGE, s_rule = REPEATED, s_alloc = POINTER, s_name = ''log_request'', s_ptr = L ''gdt_cct_LogRequest_fields''\<rparr>]"

definition gdt_cct_LogRequest_specs :: "(string \<Rightarrow> addr) \<Rightarrow> field_spec list" where
  "gdt_cct_LogRequest_specs L =
     [\<lparr>s_tag = 1, s_type = MESSAGE, s_rule = OPTIONAL, s_alloc = STATIC, s_name = ''client_info'', s_ptr = L ''gdt_cct_ClientInfo_fields''\<rparr>,
      \<lparr>s_tag = 2, s_type = INT32, s_rule = OPTIONAL, s_alloc = STATIC, s_name = ''log_source'', s_ptr = 0\<rparr>,
      \<lparr>s_tag = 3, s_type = MESSAGE, s_rule = REPEATED, s_alloc = POINTER, s_name = ''log_event'', s_ptr = L ''gdt_cct_LogEvent_fields''\<rparr>,
      \<lparr>s_tag = 4, s_type = INT64, s_rule = OPTIONAL, s_alloc = STATIC, s_name = ''request_time_ms'', s_ptr = 0\<rparr>,
      \<lparr>s_tag = 8, s_type = INT64, s_rule = OPTIONAL, s_alloc = STATIC, s_name = ''request_uptime_ms'', s_ptr = 0\<rparr>,
      \<lparr>s_tag = 9, s_type = UENUM, s_rule = OPTIONAL, s_alloc = STATIC, s_name = ''qos_tier'', s_ptr = L ''gdt_cct_LogRequest_qos_tier_default''\<rparr>]"

definition gdt_cct_QosTierConfiguration_specs :: "(string \<Rightarrow> addr) \<Rightarrow> field_spec list" where
  "gdt_cct_QosTierConfiguration_specs L =
     [\<lparr>s_tag = 2, s_type = UENUM, s_rule = OPTIONAL, s_alloc = STATIC, s_name = ''qos_tier'', s_ptr = 0\<rparr>,
      \<lparr>s_tag = 3, s_type = INT32, s_rule = OPTIONAL, s_alloc = STATIC, s_name = ''log_source'', s_ptr = L ''gdt_cct_QosTierConfiguration_log_source_default''\<rparr>]"

definition gdt_cct_QosTiersOverride_specs :: "(string \<Rightarrow> addr) \<Rightarrow> field_spec list" where
  "gdt_cct_QosTiersOverride_specs L =
     [\<lparr>s_tag = 1, s_type = MESSAGE, s_rule = REPEATED, s_alloc = POINTER, s_name = ''qos_tier_configuration'', s_ptr = L ''gdt_cct_QosTierConfiguration_fields''\<rparr>,
      \<lparr>s_tag = 2, s_type = INT64, s_rule = OPTIONAL, s_alloc = STATIC, s_name = ''qos_tier_fingerprint'', s_ptr = 0\<rparr>]"

definition gdt_cct_LogResponse_specs :: "(string \<Rightarrow> addr) \<Rightarrow> field_spec list" where
  "gdt_cct_LogResponse_specs L =
     [\<lparr>s_tag = 1, s_type = INT64, s_rule = OPTIONAL, s_alloc = STATIC, s_name = ''next_request_wait_millis'', s_ptr = 0\<rparr>,
      \<lparr>s_tag = 3, s_type = MESSAGE, s_rule = OPTIONAL, s_alloc = STATIC, s_name = ''qos_tier'', s_ptr = L ''gdt_cct_QosTiersOverride_fields''\<rparr>]"

definition cct_messages :: "(string \<Rightarrow> addr) \<Rightarrow> (cstruct \<times> pb_field list \<times> field_spec list) list" where
  "cct_messages L =
     [(gdt_cct_LogEvent, gdt_cct_LogEvent_fields L, gdt_cct_LogEvent_specs L),
      (gdt_cct_NetworkConnectionInfo, gdt_cct_NetworkConnectionInfo_fields L, gdt_cct_NetworkConnectionInfo_specs L),
      (gdt_cct_IosClientInfo, gdt_cct_IosClientInfo_fields L, gdt_cct_IosClientInfo_specs L),
      (gdt_cct_ClientInfo, gdt_cct_ClientInfo_fields L, gdt_cct_ClientInfo_specs L),
      (gdt_cct_BatchedLogRequest, gdt_cct_BatchedLogRequest_fields L, gdt_cct_BatchedLogRequest_specs L),
      (gdt_cct_LogRequest, gdt_cct_LogRequest_fields L, gdt_cct_LogRequest_specs L),
      (gdt_cct_QosTierConfiguration, gdt_cct_QosTierConfiguration_fields L, gdt_cct_QosTierConfiguration_specs L),
      (gdt_cct_QosTiersOverride, gdt_cct_QosTiersOverride_fields L, gdt_cct_QosTiersOverride_specs L),
      (gdt_cct_LogResponse, gdt_cct_LogResponse_fields L, gdt_cct_LogResponse_specs L)]"

lemmas cct_struct_defs =
  gdt_cct_LogEvent_def
  gdt_cct_NetworkConnectionInfo_def
  gdt_cct_IosClientInfo_def
  gdt_cct_ClientInfo_def
  gdt_cct_BatchedLogRequest_def
  gdt_cct_LogRequest_def
  gdt_cct_QosTierConfiguration_def
  gdt_cct_QosTiersOverride_def
  gdt_cct_LogResponse_def

lemmas cct_fields_defs =
  gdt_cct_LogEvent_fields_def gdt_cct_LogEvent_specs_def
  gdt_cct_NetworkConnectionInfo_fields_def gdt_cct_NetworkConnectionInfo_specs_def
  gdt_cct_IosClientInfo_fields_def gdt_cct_IosClientInfo_specs_def
  gdt_cct_ClientInfo_fields_def gdt_cct_ClientInfo_specs_def
  gdt_cct_BatchedLogRequest_fields_def gdt_cct_BatchedLogRequest_specs_def
  gdt_cct_LogRequest_fields_def gdt_cct_LogRequest_specs_def
  gdt_cct_QosTierConfiguration_fields_def gdt_cct_QosTierConfiguration_specs_def
  gdt_cct_QosTiersOverride_fields_def gdt_cct_QosTiersOverride_specs_def
  gdt_cct_LogResponse_fields_def gdt_cct_LogResponse_specs_def

text \<open>Where the members lie, and how large the nested structures are.\<close>

lemma cct_sizes:
  "csize (CStruct gdt_cct_LogEvent) = 88" "members_end 0 gdt_cct_LogEvent = 84" "members_align gdt_cct_LogEvent = 8"
  "csize (CStruct gdt_cct_NetworkConnectionInfo) = 16" "members_end 0 gdt_cct_NetworkConnectionInfo = 16" "members_align gdt_cct_NetworkConnectionInfo = 4"
  "csize (CStruct gdt_cct_IosClientInfo) = 56" "members_end 0 gdt_cct_IosClientInfo = 56" "members_align gdt_cct_IosClientInfo = 8"
  "csize (CStruct gdt_cct_ClientInfo) = 72" "members_end 0 gdt_cct_ClientInfo = 72" "members_align gdt_cct_ClientInfo = 8"
  "csize (CStruct gdt_cct_BatchedLogRequest) = 16" "members_end 0 gdt_cct_BatchedLogRequest = 16" "members_align gdt_cct_BatchedLogRequest = 8"
  "csize (CStruct gdt_cct_LogRequest) = 144" "members_end 0 gdt_cct_LogRequest = 144" "members_align gdt_cct_LogRequest = 8"
  "csize (CStruct gdt_cct_QosTierConfiguration) = 16" "members_end 0 gdt_cct_QosTierConfiguration = 16" "members_align gdt_cct_QosTierConfiguration = 4"
  "csize (CStruct gdt_cct_QosTiersOverride) = 32" "members_end 0 gdt_cct_QosTiersOverride = 32" "members_align gdt_cct_QosTiersOverride = 8"
  "csize (CStruct gdt_cct_LogResponse) = 56" "members_end 0 gdt_cct_LogResponse = 56" "members_align gdt_cct_LogResponse = 8"
  by (simp_all add: cct_struct_defs layout_simps)

lemma gdt_cct_LogEvent_members:
  "find_member 0 ''has_event_time_ms'' gdt_cct_LogEvent = Some (0, C_bool)"
  "find_member 0 ''event_time_ms'' gdt_cct_LogEvent = Some (8, C_int64)"
  "find_member 0 ''source_extension'' gdt_cct_LogEvent = Some (16, CPtr pb_bytes_array_t)"
  "find_member 0 ''has_event_code'' gdt_cct_LogEvent = Some (24, C_bool)"
  "find_member 0 ''event_code'' gdt_cct_LogEvent = Some (28, C_int32)"
  "find_member 0 ''has_timezone_offset_seconds'' gdt_cct_LogEvent = Some (32, C_bool)"
  "find_member 0 ''timezone_offset_seconds'' gdt_cct_LogEvent = Some (40, C_int64)"
  "find_member 0 ''has_event_uptime_ms'' gdt_cct_LogEvent = Some (48, C_bool)"
  "find_member 0 ''event_uptime_ms'' gdt_cct_LogEvent = Some (56, C_int64)"
  "find_member 0 ''has_network_connection_info'' gdt_cct_LogEvent = Some (64, C_bool)"
  "find_member 0 ''network_connection_info'' gdt_cct_LogEvent = Some (68, CStruct gdt_cct_NetworkConnectionInfo)"
  by (simp_all add: gdt_cct_LogEvent_def layout_simps cct_sizes)

lemma gdt_cct_NetworkConnectionInfo_members:
  "find_member 0 ''has_network_type'' gdt_cct_NetworkConnectionInfo = Some (0, C_bool)"
  "find_member 0 ''network_type'' gdt_cct_NetworkConnectionInfo = Some (4, C_enum)"
  "find_member 0 ''has_mobile_subtype'' gdt_cct_NetworkConnectionInfo = Some (8, C_bool)"
  "find_member 0 ''mobile_subtype'' gdt_cct_NetworkConnectionInfo = Some (12, C_enum)"
  by (simp_all add: gdt_cct_NetworkConnectionInfo_def layout_simps cct_sizes)

lemma gdt_cct_IosClientInfo_members:
  "find_member 0 ''os_major_version'' gdt_cct_IosClientInfo = Some (0, CPtr pb_bytes_array_t)"
  "find_member 0 ''os_full_version'' gdt_cct_IosClientInfo = Some (8, CPtr pb_bytes_array_t)"
  "find_member 0 ''application_build'' gdt_cct_IosClientInfo = Some (16, CPtr pb_bytes_array_t)"
  "find_member 0 ''country'' gdt_cct_IosClientInfo = Some (24, CPtr pb_bytes_array_t)"
  "find_member 0 ''model'' gdt_cct_IosClientInfo = Some (32, CPtr pb_bytes_array_t)"
  "find_member 0 ''language_code'' gdt_cct_IosClientInfo = Some (40, CPtr pb_bytes_array_t)"
  "find_member 0 ''application_bundle_id'' gdt_cct_IosClientInfo = Some (48, CPtr pb_bytes_array_t)"
  by (simp_all add: gdt_cct_IosClientInfo_def layout_simps cct_sizes)

lemma gdt_cct_ClientInfo_members:
  "find_member 0 ''has_client_type'' gdt_cct_ClientInfo = Some (0, C_bool)"
  "find_member 0 ''client_type'' gdt_cct_ClientInfo = Some (4, C_enum)"
  "find_member 0 ''has_ios_client_info'' gdt_cct_ClientInfo = Some (8, C_bool)"
  "find_member 0 ''ios_client_info'' gdt_cct_ClientInfo = Some (16, CStruct gdt_cct_IosClientInfo)"
  by (simp_all add: gdt_cct_ClientInfo_def layout_simps cct_sizes)

lemma gdt_cct_BatchedLogRequest_members:
  "find_member 0 ''log_request_count'' gdt_cct_BatchedLogRequest = Some (0, C_pb_size)"
  "find_member 0 ''log_request'' gdt_cct_BatchedLogRequest = Some (8, CPtr (CStruct gdt_cct_LogRequest))"
  by (simp_all add: gdt_cct_BatchedLogRequest_def layout_simps cct_sizes)

lemma gdt_cct_LogRequest_members:
  "find_member 0 ''has_client_info'' gdt_cct_LogRequest = Some (0, C_bool)"
  "find_member 0 ''client_info'' gdt_cct_LogRequest = Some (8, CStruct gdt_cct_ClientInfo)"
  "find_member 0 ''has_log_source'' gdt_cct_LogRequest = Some (80, C_bool)"
  "find_member 0 ''log_source'' gdt_cct_LogRequest = Some (84, C_int32)"
  "find_member 0 ''log_event_count'' gdt_cct_LogRequest = Some (88, C_pb_size)"
  "find_member 0 ''log_event'' gdt_cct_LogRequest = Some (96, CPtr (CStruct gdt_cct_LogEvent))"
  "find_member 0 ''has_request_time_ms'' gdt_cct_LogRequest = Some (104, C_bool)"
  "find_member 0 ''request_time_ms'' gdt_cct_LogRequest = Some (112, C_int64)"
  "find_member 0 ''has_request_uptime_ms'' gdt_cct_LogRequest = Some (120, C_bool)"
  "find_member 0 ''request_uptime_ms'' gdt_cct_LogRequest = Some (128, C_int64)"
  "find_member 0 ''has_qos_tier'' gdt_cct_LogRequest = Some (136, C_bool)"
  "find_member 0 ''qos_tier'' gdt_cct_LogRequest = Some (140, C_enum)"
  by (simp_all add: gdt_cct_LogRequest_def layout_simps cct_sizes)

lemma gdt_cct_QosTierConfiguration_members:
  "find_member 0 ''has_qos_tier'' gdt_cct_QosTierConfiguration = Some (0, C_bool)"
  "find_member 0 ''qos_tier'' gdt_cct_QosTierConfiguration = Some (4, C_enum)"
  "find_member 0 ''has_log_source'' gdt_cct_QosTierConfiguration = Some (8, C_bool)"
  "find_member 0 ''log_source'' gdt_cct_QosTierConfiguration = Some (12, C_int32)"
  by (simp_all add: gdt_cct_QosTierConfiguration_def layout_simps cct_sizes)

lemma gdt_cct_QosTiersOverride_members:
  "find_member 0 ''qos_tier_configuration_count'' gdt_cct_QosTiersOverride = Some (0, C_pb_size)"
  "find_member 0 ''qos_tier_configuration'' gdt_cct_QosTiersOverride = Some (8, CPtr (CStruct gdt_cct_QosTierConfiguration))"
  "find_member 0 ''has_qos_tier_fingerprint'' gdt_cct_QosTiersOverride = Some (16, C_bool)"
  "find_member 0 ''qos_tier_fingerprint'' gdt_cct_QosTiersOverride = Some (24, C_int64)"
  by (simp_all add: gdt_cct_QosTiersOverride_def layout_simps cct_sizes)

lemma gdt_cct_LogResponse_members:
  "find_member 0 ''has_next_request_wait_millis'' gdt_cct_LogResponse = Some (0, C_bool)"
  "find_member 0 ''next_request_wait_millis'' gdt_cct_LogResponse = Some (8, C_int64)"
  "find_member 0 ''has_qos_tier'' gdt_cct_LogResponse = Some (16, C_bool)"
  "find_member 0 ''qos_tier'' gdt_cct_LogResponse = Some (24, CStruct gdt_cct_QosTiersOverride)"
  by (simp_all add: gdt_cct_LogResponse_def layout_simps cct_sizes)

lemma gdt_cct_LogEvent_schema: "message_ok gdt_cct_LogEvent (gdt_cct_LogEvent_fields L) (gdt_cct_LogEvent_specs L)"
  unfolding message_ok_def
  by (intro conjI) (simp_all add: gdt_cct_LogEvent_fields_def gdt_cct_LogEvent_specs_def layout_simps gdt_cct_LogEvent_members cct_sizes)

lemma gdt_cct_NetworkConnectionInfo_schema: "message_ok gdt_cct_NetworkConnectionInfo (gdt_cct_NetworkConnectionInfo_fields L) (gdt_cct_NetworkConnectionInfo_specs L)"
  unfolding message_ok_def
  by (intro conjI) (simp_all add: gdt_cct_NetworkConnectionInfo_fields_def gdt_cct_NetworkConnectionInfo_specs_def layout_simps gdt_cct_NetworkConnectionInfo_members cct_sizes)

lemma gdt_cct_IosClientInfo_schema: "message_ok gdt_cct_IosClientInfo (gdt_cct_IosClientInfo_fields L) (gdt_cct_IosClientInfo_specs L)"
  unfolding message_ok_def
  by (intro conjI) (simp_all add: gdt_cct_IosClientInfo_fields_def gdt_cct_IosClientInfo_specs_def layout_simps gdt_cct_IosClientInfo_members cct_sizes)

lemma gdt_cct_ClientInfo_schema: "message_ok gdt_cct_ClientInfo (gdt_cct_ClientInfo_fields L) (gdt_cct_ClientInfo_specs L)"
  unfolding message_ok_def
  by (intro conjI) (simp_all add: gdt_cct_ClientInfo_fields_def gdt_cct_ClientInfo_specs_def layout_simps gdt_cct_ClientInfo_members cct_sizes)

lemma gdt_cct_BatchedLogRequest_schema: "message_ok gdt_cct_BatchedLogRequest (gdt_cct_BatchedLogRequest_fields L) (gdt_cct_BatchedLogRequest_specs L)"
  unfolding message_ok_def
  by (intro conjI) (simp_all add: gdt_cct_BatchedLogRequest_fields_def gdt_cct_BatchedLogRequest_specs_def layout_simps gdt_cct_BatchedLogRequest_members cct_sizes)

lemma gdt_cct_LogRequest_schema: "message_ok gdt_cct_LogRequest (gdt_cct_LogRequest_fields L) (gdt_cct_LogRequest_specs L)"
  unfolding message_ok_def
  by (intro conjI) (simp_all add: gdt_cct_LogRequest_fields_def gdt_cct_LogRequest_specs_def layout_simps gdt_cct_LogRequest_members cct_sizes)

lemma gdt_cct_QosTierConfiguration_schema: "message_ok gdt_cct_QosTierConfiguration (gdt_cct_QosTierConfiguration_fields L) (gdt_cct_QosTierConfiguration_specs L)"
  unfolding message_ok_def
  by (intro conjI) (simp_all add: gdt_cct_QosTierConfiguration_fields_def gdt_cct_QosTierConfiguration_specs_def layout_simps gdt_cct_QosTierConfiguration_members cct_sizes)

lemma gdt_cct_QosTiersOverride_schema: "message_ok gdt_cct_QosTiersOverride (gdt_cct_QosTiersOverride_fields L) (gdt_cct_QosTiersOverride_specs L)"
  unfolding message_ok_def
  by (intro conjI) (simp_all add: gdt_cct_QosTiersOverride_fields_def gdt_cct_QosTiersOverride_specs_def layout_simps gdt_cct_QosTiersOverride_members cct_sizes)

lemma gdt_cct_LogResponse_schema: "message_ok gdt_cct_LogResponse (gdt_cct_LogResponse_fields L) (gdt_cct_LogResponse_specs L)"
  unfolding message_ok_def
  by (intro conjI) (simp_all add: gdt_cct_LogResponse_fields_def gdt_cct_LogResponse_specs_def layout_simps gdt_cct_LogResponse_members cct_sizes)

lemma cct_messages_ok: "(st, fds, specs) \<in> set (cct_messages L) \<Longrightarrow> message_ok st fds specs"
  by (auto simp: cct_messages_def gdt_cct_LogEvent_schema gdt_cct_NetworkConnectionInfo_schema gdt_cct_IosClientInfo_schema gdt_cct_ClientInfo_schema gdt_cct_BatchedLogRequest_schema gdt_cct_LogRequest_schema gdt_cct_QosTierConfiguration_schema gdt_cct_QosTiersOverride_schema gdt_cct_LogResponse_schema)

end
