(* ===== verification/Pb_Encode_Props.thy ===== *)
theory Pb_Encode_Props
  imports Pb_Encode_Refine Cct_Proto
begin

text \<open>
  What a caller of \<^verbatim>\<open>pb_encode.c\<close> relies on: the encoded size is exact, a buffer of that
  size is enough, a smaller one is reported and never overrun, and the delimited and
  null-terminated forms frame the same bytes. The concrete message of the witnesses is a
  \<^verbatim>\<open>gdt_cct_NetworkConnectionInfo\<close>.
\<close>

section \<open>Buffer streams\<close>

lemma buffered_from_buffer [simp]: "buffered (pb_ostream_from_buffer buf n)"
  and room_from_buffer [simp]: "room (pb_ostream_from_buffer buf n) = unat n"
  by (simp_all add: buffered_def room_def pb_ostream_from_buffer_def)

lemma from_buffer_sel [simp]:
  "os_state (pb_ostream_from_buffer buf n) = buf"
  "bytes_written (pb_ostream_from_buffer buf n) = 0"
  "os_errmsg (pb_ostream_from_buffer buf n) = None"
  by (simp_all add: pb_ostream_from_buffer_def)

lemma wbuf_from_buffer:
  assumes "wbeh F m w" and "mem st = m" and "length (wbytes w) < 2 ^ 64"
  shows "wbuf w (F (pb_ostream_from_buffer buf n) st) (pb_ostream_from_buffer buf n) st"
  by (rule wbeh_buffered [OF assms(1,2)]) (use assms(3) in auto)

lemma adv_from_buffer:
  "adv_stream (pb_ostream_from_buffer buf n) bs = (pb_ostream_from_buffer buf n)
     \<lparr>os_state := buf + int (length bs), bytes_written := word_of_nat (length bs)\<rparr>"
  by (simp add: adv_stream_def)

lemma le_unat_less: "n \<le> unat (w :: u64) \<Longrightarrow> n < 2 ^ 64"
  using unat_lt2p [of w] by simp

lemma wbeh_delimited:
  "enc_callbacks_ok env co eo \<Longrightarrow>
     wbeh (\<lambda>os st. pb_encode_delimited n env os fds src st) m (sub_out (message_out co eo n env m fds src))"
  unfolding pb_encode_delimited_def by (rule wbeh_pb_encode_submessage [OF wbeh_pb_encode])

lemma wbeh_nullterminated:
  assumes "enc_callbacks_ok env co eo"
  shows "wbeh (\<lambda>os st. pb_encode_nullterminated n env os fds src st) m
    (wseq (message_out co eo n env m fds src) (Emits [0]))"
proof -
  have "wbeh (\<lambda>os st. Some (pb_write env os [0] 1 st)) m (Emits [0])"
    using wbeh_write [of env "[0]" m] by simp
  from wbeh_seq [OF wbeh_pb_encode [OF assms] this] show ?thesis
    unfolding pb_encode_nullterminated_def .
qed

section \<open>A concrete message\<close>

text \<open>A program without callbacks and extension handlers, and with the descriptors of the transport.\<close>

definition cct_link :: "string \<Rightarrow> addr" where
  "cct_link s = (if s = ''gdt_cct_NetworkConnectionInfo_fields'' then 50000 else 60000)"

definition plain_env :: cenv where
  "plain_env = \<lparr>
     e_fields = (\<lambda>a. if a = 50000 then gdt_cct_NetworkConnectionInfo_fields cct_link
                     else [PB_LAST_FIELD]),
     e_write = (\<lambda>k os bs st. (True, os, st)),
     e_read = (\<lambda>k is n st. (True, [], is, st)),
     e_encode = (\<lambda>fn os fld arg st. (True, os, st)),
     e_decode = (\<lambda>fn is fld arg st. (True, is, st)),
     e_ext_encode = (\<lambda>fn os ext st. (True, os, st)),
     e_ext_decode = (\<lambda>fn is ext tag wt st. (True, is, st)),
     e_alloc = (\<lambda>st p n. 0)\<rparr>"

definition no_output :: callback_spec where
  "no_output fn fld arg m = Emits []"

definition no_ext_output :: handler_spec where
  "no_ext_output fn ext m = Emits []"

lemma plain_env_ok: "enc_callbacks_ok plain_env no_output no_ext_output"
  by (simp add: enc_callbacks_ok_def plain_env_def no_output_def no_ext_output_def wbeh_ok)

text \<open>\<^verbatim>\<open>has_network_type = true, network_type = WIFI, has_mobile_subtype = true, mobile_subtype = LTE\<close>\<close>

definition wifi_lte :: memory where
  "wifi_lte = store_bytes (\<lambda>_. 0) 1000 [1, 0, 0, 0, 1, 0, 0, 0, 1, 0, 0, 0, 13, 0, 0, 0]"

definition wifi_state :: cstate where
  "wifi_state = \<lparr>mem = wifi_lte, obuf = (\<lambda>_. 0), heap = [], heap_ok = True, world = 0\<rparr>"

lemmas wifi_simps = gdt_cct_NetworkConnectionInfo_fields_def PB_FIELD_def pb_macro_defs
  pb_field_init_def layout_simps gdt_cct_NetworkConnectionInfo_members pb_delta_def
  PB_DATAOFFSET_FIRST_def PB_DATAOFFSET_OTHER_def PB_LAST_FIELD_def

lemma wifi_fields:
  "gdt_cct_NetworkConnectionInfo_fields cct_link =
     [\<lparr>f_tag = 1, f_type = 0x10, f_data_offset = 4, f_size_offset = 0xFFFFFFFC, f_data_size = 4,
       f_array_size = 0, f_ptr = 60000\<rparr>,
      \<lparr>f_tag = 2, f_type = 0x11, f_data_offset = 4, f_size_offset = 0xFFFFFFFC, f_data_size = 4,
       f_array_size = 0, f_ptr = 60000\<rparr>,
      PB_LAST_FIELD]"
  by (simp add: wifi_simps pb_type_defs cct_link_def)

lemma wifi_field_data:
  "field_data (gdt_cct_NetworkConnectionInfo_fields cct_link) 1000 0 = 1004"
  "field_data (gdt_cct_NetworkConnectionInfo_fields cct_link) 1000 (Suc 0) = 1012"
  by (simp_all add: wifi_fields field_at_def same_union_def iter_prev_size_def pb_type_defs)

lemma wifi_field_at:
  "nfields (gdt_cct_NetworkConnectionInfo_fields cct_link) = 2"
  "field_at (gdt_cct_NetworkConnectionInfo_fields cct_link) 0 =
     \<lparr>f_tag = 1, f_type = 0x10, f_data_offset = 4, f_size_offset = 0xFFFFFFFC, f_data_size = 4,
      f_array_size = 0, f_ptr = 60000\<rparr>"
  "field_at (gdt_cct_NetworkConnectionInfo_fields cct_link) (Suc 0) =
     \<lparr>f_tag = 2, f_type = 0x11, f_data_offset = 4, f_size_offset = 0xFFFFFFFC, f_data_size = 4,
      f_array_size = 0, f_ptr = 60000\<rparr>"
  by (simp_all add: wifi_fields field_at_def nfields_def PB_LAST_FIELD_def)

lemma wifi_lte_at:
  "wifi_lte 1000 = 1" "wifi_lte 1008 = 1"
  "load_bytes wifi_lte 1004 4 = [1, 0, 0, 0]" "load_bytes wifi_lte 1012 4 = [13, 0, 0, 0]"
  by (simp_all add: wifi_lte_def store_bytes_def load_bytes_def upt_rec)

lemma wifi_out:
  "message_out no_output no_ext_output 1 plain_env (mem wifi_state)
     (gdt_cct_NetworkConnectionInfo_fields cct_link) 1000 = Emits [8, 1, 16, 13]"
  by (simp add: wifi_state_def wifi_field_data wifi_field_at upt_rec one_out_def field_out_def basic_out_def
      item_out_def varint_out_def uvarint_out_def tag_out_def wire_type_of_def pb_type_defs
      load_bool_def wifi_lte_at load32_def pb_varint_bytes_def tag_word_def pb_wt_defs
      del: field_data.simps)

section \<open>Messages\<close>

text \<open>
  C1. A message whose encoding fits the buffer is written there byte for byte, and nothing
  else of the program state changes.
\<close>

theorem pb_encode_fits:
  assumes "enc_callbacks_ok env co eo"
    and "message_out co eo n env (mem st) fds src = Emits bs" and "length bs \<le> unat bufsize"
  shows "pb_encode n env (pb_ostream_from_buffer buf bufsize) fds src st =
    Some (True, (pb_ostream_from_buffer buf bufsize)
            \<lparr>os_state := buf + int (length bs), bytes_written := word_of_nat (length bs)\<rparr>,
          st\<lparr>obuf := store_bytes (obuf st) buf bs\<rparr>)"
  using wbuf_from_buffer [OF wbeh_pb_encode [OF assms(1)] refl, of n st fds src buf bufsize]
    assms(2,3) le_unat_less [OF assms(3)]
  by (simp add: wbuf_def adv_from_buffer put_obuf_def)

theorem pb_encode_fits_witness:
  "pb_encode 1 plain_env (pb_ostream_from_buffer 2000 16)
     (gdt_cct_NetworkConnectionInfo_fields cct_link) 1000 wifi_state =
   Some (True, (pb_ostream_from_buffer 2000 16)\<lparr>os_state := 2004, bytes_written := 4\<rparr>,
         wifi_state\<lparr>obuf := store_bytes (obuf wifi_state) 2000 [8, 1, 16, 13]\<rparr>)"
  using pb_encode_fits [OF plain_env_ok wifi_out, of 16 2000] by simp

text \<open>
  C2. A message that does not fit is reported as \<^verbatim>\<open>stream full\<close>; no byte outside the
  buffer is written.
\<close>

theorem pb_encode_full:
  assumes "enc_callbacks_ok env co eo"
    and "message_out co eo n env (mem st) fds src = Emits bs"
    and "unat bufsize < length bs" and "length bs < 2 ^ 64"
  shows "\<exists>os' ob. pb_encode n env (pb_ostream_from_buffer buf bufsize) fds src st =
       Some (False, os', st\<lparr>obuf := ob\<rparr>)
    \<and> os_errmsg os' = Some ''stream full''
    \<and> (\<forall>a. a < buf \<or> buf + int (unat bufsize) \<le> a \<longrightarrow> ob a = obuf st a)"
  using wbuf_from_buffer [OF wbeh_pb_encode [OF assms(1)] refl, of n st fds src buf bufsize] assms
  by (auto simp: wbuf_def runs_full_def in_window_def)

theorem pb_encode_full_witness:
  "\<exists>os' ob. pb_encode 1 plain_env (pb_ostream_from_buffer 2000 3)
       (gdt_cct_NetworkConnectionInfo_fields cct_link) 1000 wifi_state =
       Some (False, os', wifi_state\<lparr>obuf := ob\<rparr>)
    \<and> os_errmsg os' = Some ''stream full''
    \<and> (\<forall>a. a < 2000 \<or> 2003 \<le> a \<longrightarrow> ob a = obuf wifi_state a)"
  using pb_encode_full [OF plain_env_ok wifi_out, of 3 2000] by simp



text \<open>
  C4. \<^verbatim>\<open>pb_get_encoded_size\<close> returns the number of bytes that encoding writes, and a buffer
  of that size takes the message.
\<close>

theorem pb_get_encoded_size_exact:
  assumes "enc_callbacks_ok env co eo"
    and "message_out co eo n env (mem st) fds src = Emits bs" and "length bs < 2 ^ 64"
  shows "\<exists>sz os'. pb_get_encoded_size n env fds src st = Some (Some sz, st)
    \<and> unat sz = length bs
    \<and> pb_encode n env (pb_ostream_from_buffer buf sz) fds src st
        = Some (True, os', st\<lparr>obuf := store_bytes (obuf st) buf bs\<rparr>)"
proof -
  let ?sz = "word_of_nat (length bs) :: u64"
  have "unat ?sz = length bs" using assms(3) by (simp add: unat_of_nat)
  moreover have "pb_get_encoded_size n env fds src st = Some (Some ?sz, st)"
    using wbeh_sizing [OF wbeh_pb_encode [OF assms(1)] refl sizing_PB_OSTREAM_SIZING, of n st fds src] assms(2)
    by (simp add: pb_get_encoded_size_def wsize_def PB_OSTREAM_SIZING_def)
  moreover have "wbuf (Emits bs) (pb_encode n env (pb_ostream_from_buffer buf ?sz) fds src st)
      (pb_ostream_from_buffer buf ?sz) st"
    using wbuf_from_buffer [OF wbeh_pb_encode [OF assms(1)] refl, of n st fds src buf ?sz] assms by simp
  ultimately show ?thesis by (simp add: wbuf_def put_obuf_def)
qed

theorem pb_get_encoded_size_exact_witness:
  "\<exists>sz os'. pb_get_encoded_size 1 plain_env (gdt_cct_NetworkConnectionInfo_fields cct_link) 1000 wifi_state
       = Some (Some sz, wifi_state)
    \<and> unat sz = length [8, 1, 16, 13 :: byte]
    \<and> pb_encode 1 plain_env (pb_ostream_from_buffer 2000 sz)
        (gdt_cct_NetworkConnectionInfo_fields cct_link) 1000 wifi_state
        = Some (True, os', wifi_state\<lparr>obuf := store_bytes (obuf wifi_state) 2000 [8, 1, 16, 13]\<rparr>)"
  using pb_get_encoded_size_exact [OF plain_env_ok wifi_out, of 2000] by simp

text \<open>
  C5. \<^verbatim>\<open>pb_encode_delimited\<close> writes the length of the message as a varint and then the
  message; \<^verbatim>\<open>pb_encode_nullterminated\<close> writes the message and then a zero byte.
\<close>

theorem pb_encode_framed:
  assumes "enc_callbacks_ok env co eo"
    and "message_out co eo n env (mem st) fds src = Emits bs" and "length bs + 10 \<le> unat bufsize"
  shows "(\<exists>os'. pb_encode_delimited n env (pb_ostream_from_buffer buf bufsize) fds src st
      = Some (True, os', st\<lparr>obuf := store_bytes (obuf st) buf (varint_bytes (length bs) @ bs)\<rparr>))
    \<and> (\<exists>os'. pb_encode_nullterminated n env (pb_ostream_from_buffer buf bufsize) fds src st
      = Some (True, os', st\<lparr>obuf := store_bytes (obuf st) buf (bs @ [0])\<rparr>))"
proof -
  have len: "length bs + 10 < 2 ^ 64" by (rule le_unat_less [OF assms(3)])
  then have u: "unat (word_of_nat (length bs) :: u64) = length bs" by (simp add: unat_of_nat)
  have vl: "length (varint_bytes (length bs)) \<le> 10"
    using length_pb_varint_bytes [of "word_of_nat (length bs)"] by (simp add: pb_varint_bytes_eq u)
  have "\<exists>os'. pb_encode_delimited n env (pb_ostream_from_buffer buf bufsize) fds src st
      = Some (True, os', st\<lparr>obuf := store_bytes (obuf st) buf (varint_bytes (length bs) @ bs)\<rparr>)"
    using wbuf_from_buffer [OF wbeh_delimited [OF assms(1)] refl, of n st fds src buf bufsize] assms(2,3) len vl
    by (simp add: wbuf_def put_obuf_def pb_varint_bytes_eq u)
  moreover have "\<exists>os'. pb_encode_nullterminated n env (pb_ostream_from_buffer buf bufsize) fds src st
      = Some (True, os', st\<lparr>obuf := store_bytes (obuf st) buf (bs @ [0])\<rparr>)"
    using wbuf_from_buffer [OF wbeh_nullterminated [OF assms(1)] refl, of n st fds src buf bufsize] assms(2,3) len
    by (simp add: wbuf_def put_obuf_def)
  ultimately show ?thesis ..
qed

theorem pb_encode_framed_witness:
  "\<exists>os'. pb_encode_delimited 1 plain_env (pb_ostream_from_buffer 2000 16)
       (gdt_cct_NetworkConnectionInfo_fields cct_link) 1000 wifi_state
     = Some (True, os', wifi_state\<lparr>obuf := store_bytes (obuf wifi_state) 2000 [4, 8, 1, 16, 13]\<rparr>)"
  using pb_encode_framed [OF plain_env_ok wifi_out, of 16 2000] by (simp add: varint_bytes_small)

text \<open>
  \<^verbatim>\<open>pb_encode_varint\<close> hands \<^verbatim>\<open>pb_write\<close> the base-128 digits of the value, and they
  fit its ten-byte local buffer.
\<close>

theorem pb_encode_varint_digits:
  "pb_encode_varint env os v st =
     pb_write env os (varint_bytes (unat v)) (word_of_nat (length (varint_bytes (unat v)))) st
   \<and> length (varint_bytes (unat v)) \<le> 10"
  using length_pb_varint_bytes [of v] by (simp add: pb_encode_varint_write pb_varint_bytes_eq)

end
