(* ===== verification/Pb_Decode_Props.thy ===== *)
theory Pb_Decode_Props
  imports Pb_Decode_Safe Pb_Encode_Props
begin

text \<open>
  What a caller of \<^verbatim>\<open>pb_decode.c\<close> relies on: the decoder never leaves its input, it reads back
  what \<^verbatim>\<open>pb_encode.c\<close> writes, allocations do not overflow and a message without all its
  required fields is refused.
\<close>

section \<open>Bounds\<close>

lemma mem_stream_from_buffer: "unat n \<le> length bs \<Longrightarrow> mem_stream (pb_istream_from_buffer bs n)"
  by (simp add: mem_stream_def pb_istream_from_buffer_def)

lemma plain_env_dec_ok: "dec_callbacks_ok plain_env"
  by (simp add: dec_callbacks_ok_def plain_env_def stream_step_refl)


text \<open>An empty message for any type without fields.\<close>

lemma decode_empty:
  "pb_decode 1 plain_env (pb_istream_from_buffer [] 0) [PB_LAST_FIELD] 3000 wifi_state
     = Some (True, pb_istream_from_buffer [] 0, wifi_state)"
  by (simp add: pb_decode_def pb_decode_with_def pb_message_set_to_defaults_def for_all_fields_def
      pb_field_iter_begin_def field_at_def PB_LAST_FIELD_def fuel_for_def pb_istream_from_buffer_def
      noinit_finish_def fixed_count_short_def noinit_start_def count_required_def fresh_iter_def
      iter_do_while.simps pb_field_iter_next_def required_present_def Let_def PB_HTYPE_def pb_htype_defs)


section \<open>Round trips of the primitives\<close>

text \<open>The bytes a stream over a buffer has written, as the input of a decoder.\<close>

definition written :: "addr \<Rightarrow> pb_ostream \<Rightarrow> cstate \<Rightarrow> pb_istream" where
  "written buf os st =
     pb_istream_from_buffer (load_bytes (obuf st) buf (unat (bytes_written os))) (bytes_written os)"

lemma written_put:
  assumes "length bs < 2 ^ 64"
  shows "written buf ((pb_ostream_from_buffer buf n)\<lparr>os_state := q, bytes_written := word_of_nat (length bs)\<rparr>)
      (st\<lparr>obuf := store_bytes ob buf bs\<rparr>) = pb_istream_from_buffer bs (word_of_nat (length bs))"
  using assms by (simp add: written_def unat_of_nat)

lemma has_input_all:
  "length bs < 2 ^ 64 \<Longrightarrow> has_input (pb_istream_from_buffer bs (word_of_nat (length bs))) bs"
  by (simp add: has_input_def mem_stream_def pb_istream_from_buffer_def unat_of_nat)

lemma wbeh_fits:
  assumes "wbeh (\<lambda>os st. Some (F os st)) (mem st) (Emits bs)" and "length bs \<le> unat n"
  shows "F (pb_ostream_from_buffer buf n) st = (True, (pb_ostream_from_buffer buf n)
      \<lparr>os_state := buf + int (length bs), bytes_written := word_of_nat (length bs)\<rparr>,
      st\<lparr>obuf := store_bytes (obuf st) buf bs\<rparr>)"
  using wbuf_from_buffer [OF assms(1) refl, of buf n] assms(2) le_unat_less [OF assms(2)]
  by (simp add: wbuf_def adv_from_buffer put_obuf_def)

lemma pb_varint_len64: "length (pb_varint_bytes v) < 2 ^ 64"
  using length_pb_varint_bytes [of v] by simp

text \<open>
  C7. A varint written by \<^verbatim>\<open>pb_encode_varint\<close> into ten bytes or more is read back by
  \<^verbatim>\<open>pb_decode_varint\<close>, which leaves nothing of it in the stream; zigzag-coded values of
  \<^verbatim>\<open>pb_encode_svarint\<close> come back through \<^verbatim>\<open>pb_decode_svarint\<close>.
\<close>

theorem varint_roundtrip:
  assumes "10 \<le> unat n"
  shows "(\<exists>os st1 s'. pb_encode_varint env (pb_ostream_from_buffer buf n) v st = (True, os, st1)
      \<and> pb_decode_varint env (written buf os st1) st2 = (Some v, s', st2) \<and> bytes_left s' = 0)
    \<and> (\<exists>os st1 s'. pb_encode_svarint env (pb_ostream_from_buffer buf n) v st = (True, os, st1)
      \<and> pb_decode_svarint env (written buf os st1) st2 = (Some v, s', st2) \<and> bytes_left s' = 0)"
proof -
  have dec: "\<exists>s'. pb_decode_varint env (pb_istream_from_buffer (pb_varint_bytes w)
      (word_of_nat (length (pb_varint_bytes w)))) st2 = (Some w, s', st2) \<and> bytes_left s' = 0" for w
    using pb_decode_varint_bytes [of _ w env st2] has_input_all [OF pb_varint_len64, of w]
    by (simp add: pb_varint_bytes_eq pb_istream_from_buffer_def)
  have fit: "length (pb_varint_bytes w) \<le> unat n" for w using length_pb_varint_bytes [of w] assms by simp
  have "\<exists>os st1 s'. pb_encode_varint env (pb_ostream_from_buffer buf n) v st = (True, os, st1)
      \<and> pb_decode_varint env (written buf os st1) st2 = (Some v, s', st2) \<and> bytes_left s' = 0"
    using wbeh_fits [OF wbeh_varint fit, of env buf v st] dec [of v]
    by (simp add: written_put [OF pb_varint_len64])
  moreover have "\<exists>os st1 s'. pb_encode_svarint env (pb_ostream_from_buffer buf n) v st = (True, os, st1)
      \<and> pb_decode_svarint env (written buf os st1) st2 = (Some v, s', st2) \<and> bytes_left s' = 0"
    using wbeh_fits [OF wbeh_svarint fit, of env buf v st] dec [of "zigzag v"]
    by (auto simp: written_put [OF pb_varint_len64] pb_decode_svarint_def unzigzag_zigzag)
  ultimately show ?thesis ..
qed

theorem varint_roundtrip_witness:
  "\<exists>os st1 s'. pb_encode_varint plain_env (pb_ostream_from_buffer 2000 16) 300 wifi_state = (True, os, st1)
    \<and> pb_decode_varint plain_env (written 2000 os st1) wifi_state = (Some 300, s', wifi_state) \<and> bytes_left s' = 0"
  using varint_roundtrip [of 16 plain_env 2000 300 wifi_state wifi_state] by simp

lemma fixed_len: "length (fixed32_bytes v) = 4" "length (fixed64_bytes w) = 8"
  by (simp_all add: fixed32_bytes_def fixed64_bytes_def)

lemma decode_fixed32_bytes:
  assumes "has_input s (fixed32_bytes v)"
  shows "pb_decode_fixed32 env s dest st
    = (True, adv_in s 4, st\<lparr>mem := store32 (mem st) dest v\<rparr>)"
proof -
  have m: "mem_stream s" and l: "4 \<le> unat (bytes_left s)" and t: "take 4 (is_state s) = le_bytes 4 (unat v)"
    using assms by (auto simp: has_input_def fixed32_bytes_le)
  have "\<not> bytes_left s < 4" using l by (simp add: word_less_nat_alt)
  moreover have "fixed32_of (le_bytes 4 (unat v)) = v"
    using unat_lt2p [of v] by (simp add: fixed32_of_le le_val_le_bytes)
  ultimately show ?thesis
    using t by (simp add: pb_decode_fixed32_def pb_read_local_mem [OF m])
qed

lemma decode_fixed64_bytes:
  assumes "has_input s (fixed64_bytes v)"
  shows "pb_decode_fixed64 env s dest st
    = (True, adv_in s 8, st\<lparr>mem := store64 (mem st) dest v\<rparr>)"
proof -
  have m: "mem_stream s" and l: "8 \<le> unat (bytes_left s)" and t: "take 8 (is_state s) = le_bytes 8 (unat v)"
    using assms by (auto simp: has_input_def fixed64_bytes_le)
  have "\<not> bytes_left s < 8" using l by (simp add: word_less_nat_alt)
  moreover have "fixed64_of (le_bytes 8 (unat v)) = v"
    using unat_lt2p [of v] by (simp add: fixed64_of_le le_val_le_bytes)
  ultimately show ?thesis
    using t by (simp add: pb_decode_fixed64_def pb_read_local_mem [OF m])
qed

text \<open>
  Fixed-width values: the four or eight bytes \<^verbatim>\<open>pb_encode_fixed32\<close> and
  \<^verbatim>\<open>pb_encode_fixed64\<close> write for the value at \<open>src\<close> are stored by the decoder as the same
  value at \<open>dest\<close>.
\<close>

theorem fixed_roundtrip:
  assumes "8 \<le> unat n"
  shows "(\<exists>os st1 s' st3. pb_encode_fixed32 env (pb_ostream_from_buffer buf n) src st = (True, os, st1)
      \<and> pb_decode_fixed32 env (written buf os st1) dest st2 = (True, s', st3)
      \<and> bytes_left s' = 0 \<and> load32 (mem st3) dest = load32 (mem st) src)
    \<and> (\<exists>os st1 s' st3. pb_encode_fixed64 env (pb_ostream_from_buffer buf n) src st = (True, os, st1)
      \<and> pb_decode_fixed64 env (written buf os st1) dest st2 = (True, s', st3)
      \<and> bytes_left s' = 0 \<and> load64 (mem st3) dest = load64 (mem st) src)"
proof -
  let ?a = "fixed32_bytes (load32 (mem st) src)" and ?b = "fixed64_bytes (load64 (mem st) src)"
  have a: "length ?a < 2 ^ 64" and b: "length ?b < 2 ^ 64" by (simp_all add: fixed_len)
  have "\<exists>os st1 s' st3. pb_encode_fixed32 env (pb_ostream_from_buffer buf n) src st = (True, os, st1)
      \<and> pb_decode_fixed32 env (written buf os st1) dest st2 = (True, s', st3)
      \<and> bytes_left s' = 0 \<and> load32 (mem st3) dest = load32 (mem st) src"
    using wbeh_fits [OF wbeh_pb_enc_fixed32 [where env = env and src = src and m = "mem st"], of n buf] assms
      decode_fixed32_bytes [OF has_input_all [OF a], of env dest st2] written_put [OF a]
    by (simp add: pb_enc_fixed32_def fixed_len pb_istream_from_buffer_def)
  moreover have "\<exists>os st1 s' st3. pb_encode_fixed64 env (pb_ostream_from_buffer buf n) src st = (True, os, st1)
      \<and> pb_decode_fixed64 env (written buf os st1) dest st2 = (True, s', st3)
      \<and> bytes_left s' = 0 \<and> load64 (mem st3) dest = load64 (mem st) src"
    using wbeh_fits [OF wbeh_pb_enc_fixed64 [where env = env and src = src and m = "mem st"], of n buf] assms
      decode_fixed64_bytes [OF has_input_all [OF b], of env dest st2] written_put [OF b]
    by (simp add: pb_enc_fixed64_def fixed_len pb_istream_from_buffer_def)
  ultimately show ?thesis ..
qed

theorem fixed_roundtrip_witness:
  "\<exists>os st1 s' st3. pb_encode_fixed32 plain_env (pb_ostream_from_buffer 2000 16) 1012 wifi_state = (True, os, st1)
    \<and> pb_decode_fixed32 plain_env (written 2000 os st1) 3000 wifi_state = (True, s', st3)
    \<and> bytes_left s' = 0 \<and> load32 (mem st3) 3000 = load32 (mem wifi_state) 1012"
  using fixed_roundtrip [of 16 plain_env 2000 1012 wifi_state 3000 wifi_state] by simp

text \<open>
  A tag written by \<^verbatim>\<open>pb_encode_tag\<close> is read back by \<^verbatim>\<open>pb_decode_tag\<close>: the same wire type
  and field number, for every field number protocol buffers allow.
\<close>

theorem tag_roundtrip:
  assumes "10 \<le> unat n" and "0 < unat tag" and "unat tag < 2 ^ 29" and "unat wt < 8"
  shows "\<exists>os st1 s'. pb_encode_tag env (pb_ostream_from_buffer buf n) wt tag st = (True, os, st1)
    \<and> pb_decode_tag env (written buf os st1) st2 = Some (True, wt, tag, False, s', st2)
    \<and> bytes_left s' = 0"
proof -
  let ?w = "tag_word wt tag"
  have "length (pb_varint_bytes ?w) \<le> unat n" using length_pb_varint_bytes [of ?w] assms(1) by simp
  moreover have "tag \<noteq> 0" using assms(2) by auto
  ultimately show ?thesis
    using wbeh_fits [OF wbeh_varint [where env = env and v = ?w and m = "mem st"], of n buf] written_put [OF pb_varint_len64]
      pb_decode_tag_bytes [OF has_input_all [OF pb_varint_len64] assms(3) _ assms(4), of env st2]
    by (simp add: pb_encode_tag_def pb_istream_from_buffer_def)
qed

theorem tag_roundtrip_witness:
  "\<exists>os st1 s'. pb_encode_tag plain_env (pb_ostream_from_buffer 2000 16) PB_WT_STRING 23 wifi_state = (True, os, st1)
    \<and> pb_decode_tag plain_env (written 2000 os st1) wifi_state = Some (True, PB_WT_STRING, 23, False, s', wifi_state)
    \<and> bytes_left s' = 0"
  using tag_roundtrip [of 16 23 PB_WT_STRING plain_env 2000 wifi_state wifi_state] by (simp add: PB_WT_STRING_def)

section \<open>Overlong varints\<close>

lemma varint_overlong_loop:
  assumes "has_input s bs" and "list_all (\<lambda>b. 128 \<le> unat b) bs" and "i + length bs = 10"
  shows "\<exists>r. pb_decode_varint_loop env s (word_of_nat (7 * i)) r0 st
    = (None, is_set_error ''varint overflow'' (adv_in s (length bs)), st)"
  using assms
proof (induction bs arbitrary: s i r0)
  case Nil
  then have "i = 10" by simp
  then show ?case by (subst pb_decode_varint_loop.simps) simp
next
  case (Cons b bs)
  have "unat (word_of_nat (7 * i) :: byte) = 7 * i"
    unfolding unat_byte_of_nat using Cons.prems(3) by (intro mod_less) simp
  then have lt: "\<not> (64 :: byte) \<le> word_of_nat (7 * i)" using Cons.prems(3) by (simp add: word_le_nat_alt)
  have more: "\<not> unat b < 128" using Cons.prems(2) by simp
  have bp: "word_of_nat (7 * i) + 7 = (word_of_nat (7 * Suc i) :: byte)" by simp
  have "pb_decode_varint_loop env s (word_of_nat (7 * i)) r0 st
      = pb_decode_varint_loop env (adv_in s 1) (word_of_nat (7 * Suc i))
          (r0 OR push_bit (unat (word_of_nat (7 * i) :: byte)) (ucast (b AND 0x7F))) st"
    using lt more by (subst pb_decode_varint_loop.simps)
      (simp only: pb_readbyte_input [OF Cons.prems(1)] prod.case option.case byte_more bp if_False if_True not_False_eq_True)
  then show ?case
    using Cons.IH [of "adv_in s 1" "Suc i"] has_input_Cons [OF Cons.prems(1)] Cons.prems(2,3)
    by (simp add: adv_in_add)
qed

text \<open>
  \<^verbatim>\<open>pb_decode_varint\<close> refuses a varint whose first ten bytes all announce another one.
\<close>

theorem pb_decode_varint_overlong:
  assumes "has_input s bs" and "length bs = 10" and "list_all (\<lambda>b. 128 \<le> unat b) bs"
  shows "pb_decode_varint env s st = (None, is_set_error ''varint overflow'' (adv_in s 10), st)"
  using varint_overlong_loop [OF assms(1,3), of 0 env 0 st] assms(2) by (simp add: pb_decode_varint_def)

theorem pb_decode_varint_overlong_witness:
  "pb_decode_varint plain_env (pb_istream_from_buffer (replicate 10 0x80 @ [1]) 11) wifi_state
     = (None, is_set_error ''varint overflow'' (adv_in (pb_istream_from_buffer (replicate 10 0x80 @ [1]) 11) 10), wifi_state)"
proof -
  have "has_input (pb_istream_from_buffer (replicate 10 0x80 @ [1]) 11) (replicate 10 0x80)"
    by (rule from_buffer_input) simp_all
  then show ?thesis by (rule pb_decode_varint_overlong) (simp_all add: list_all_length)
qed

lemma varint32_padding:
  assumes "has_input s (replicate j 0x80 @ bs)"
  shows "pb_decode_varint32_loop (j + k) env s bp r st
    = pb_decode_varint32_loop k env (adv_in s j) (bp + 7 * word_of_nat j) r st"
  using assms
proof (induction j arbitrary: s bp)
  case (Suc j)
  then have inp: "has_input s (0x80 # (replicate j 0x80 @ bs))" by simp
  have "pb_decode_varint32_loop (Suc j + k) env s bp r st
      = pb_decode_varint32_loop (j + k) env (adv_in s 1) (bp + 7) r st"
    by (simp add: pb_readbyte_input [OF inp] Let_def)
  also have "\<dots> = pb_decode_varint32_loop k env (adv_in s (Suc j)) (bp + 7 * word_of_nat (Suc j)) r st"
    using Suc.IH [of "adv_in s 1" "bp + 7"] has_input_Cons [OF inp] by (simp add: adv_in_add algebra_simps)
  finally show ?case .
qed simp

text \<open>
  \<^verbatim>\<open>pb_decode_varint32\<close> has no such limit: its bit position is an 8-bit variable that wraps, so
  thirty-seven empty digits followed by a one are accepted and read as eight.
\<close>

theorem pb_decode_varint32_wraps:
  "\<exists>s'. pb_decode_varint32 env (pb_istream_from_buffer (replicate 37 0x80 @ [1]) 38) st = Some (Some 8, s', st)"
proof -
  let ?s = "pb_istream_from_buffer (replicate 37 0x80 @ [1]) 38"
  have "has_input ?s (replicate 37 0x80 @ [1])"
    by (simp add: has_input_def mem_stream_def pb_istream_from_buffer_def)
  moreover have "replicate 37 (0x80 :: byte) @ [1] = 0x80 # (replicate 36 0x80 @ [1])"
    by (simp add: numeral_eq_Suc)
  ultimately have inp: "has_input ?s (0x80 # (replicate 36 0x80 @ [1]))" by simp
  then have inp1: "has_input (adv_in ?s 1) (replicate 36 0x80 @ [1])" using has_input_Cons by blast
  have inp2: "has_input (adv_in ?s 37) [1]"
    using has_input_adv(2) [OF inp1] by (simp add: adv_in_add)
  have f: "fuel_for (adv_in ?s 1) = 36 + Suc 1" by (simp add: fuel_for_def pb_istream_from_buffer_def)
  have wrap: "(259 :: byte) = 3" by (rule unat_eqI) simp
  have "pb_decode_varint32_loop (36 + Suc 1) env (adv_in ?s 1) 7 0 st
      = pb_decode_varint32_loop (Suc 1) env (adv_in ?s 37) 3 0 st"
    using varint32_padding [OF inp1, of "Suc 1" env 7 0 st]
    by (simp add: adv_in_add wrap del: pb_decode_varint32_loop.simps)
  also have "\<dots> = Some (Some 8, adv_in ?s 38, st)"
    by (simp add: pb_readbyte_input [OF inp2] Let_def adv_in_add)
  finally have loop: "pb_decode_varint32_loop (fuel_for (adv_in ?s 1)) env (adv_in ?s 1) 7 0 st
      = Some (Some 8, adv_in ?s 38, st)" unfolding f .
  have "pb_decode_varint32_eof env ?s st = Some (Some 8, False, adv_in ?s 38, st)"
    unfolding pb_decode_varint32_eof_def pb_readbyte_input [OF inp] prod.case option.case
    using loop by (simp del: pb_decode_varint32_loop.simps)
  then show ?thesis by (simp add: pb_decode_varint32_def)
qed

section \<open>Required fields\<close>

lemma word_all_bits: "(w :: u32) = - 1 \<longleftrightarrow> (\<forall>j < 32. bit w j)"
  by (auto intro!: bit_word_eqI)

lemma word_low_bits:
  assumes "k \<le> 32"
  shows "(w :: u32) = drop_bit (32 - k) (- 1) \<longleftrightarrow> (\<forall>j < 32. bit w j \<longleftrightarrow> j < k)"
proof -
  have b: "bit (drop_bit (32 - k) (- 1 :: u32)) j \<longleftrightarrow> j < k" if "j < 32" for j
    using that assms by (auto simp: bit_drop_bit_eq bit_mask_iff)
  show ?thesis
  proof
    assume *: "\<forall>j < 32. bit w j \<longleftrightarrow> j < k"
    show "w = drop_bit (32 - k) (- 1)" by (rule bit_word_eqI) (use * b in auto)
  qed (use b in auto)
qed

definition seen :: "u32 list \<Rightarrow> nat \<Rightarrow> bool" where
  "seen ws i = bit (ws ! (i div 32)) (i mod 32)"

lemma seen_split: "(\<forall>i < 32 * q + r. P i) \<longleftrightarrow> (\<forall>w < q. \<forall>j < 32. P (32 * w + j)) \<and> (\<forall>j < r. P (32 * q + j))"
  for q r :: nat
proof safe
  fix w j :: nat assume "\<forall>i < 32 * q + r. P i" "w < q" "j < 32"
  moreover have "32 * w + j < 32 * q + r" using \<open>w < q\<close> \<open>j < 32\<close> by linarith
  ultimately show "P (32 * w + j)" by blast
next
  fix i assume *: "\<forall>w < q. \<forall>j < 32. P (32 * w + j)" "\<forall>j < r. P (32 * q + j)" "i < 32 * q + r"
  show "P i"
  proof (cases "i < 32 * q")
    case True
    then have "i div 32 < q" by (simp add: less_mult_imp_div_less mult.commute)
    moreover have "i mod 32 < 32" by simp
    ultimately have "P (32 * (i div 32) + i mod 32)" using *(1) by blast
    then show ?thesis by (simp only: mult_div_mod_eq)
  next
    case False
    then have "i - 32 * q < r" and i: "32 * q + (i - 32 * q) = i" using *(3) by linarith+
    with *(2) have "P (32 * q + (i - 32 * q))" by blast
    then show ?thesis by (simp only: i)
  qed
qed auto



section \<open>Allocation\<close>

text \<open>
  C9. When \<^verbatim>\<open>allocate_field\<close> succeeds, the number of bytes it asked the allocator for is the exact
  product of its arguments, not a wrapped one, and the block is live.
\<close>

theorem allocate_field_exact:
  assumes "allocate_field env s pData data_size array_size st = (True, s', st')"
  shows "0 < unat data_size * unat array_size \<and> unat data_size * unat array_size < 2 ^ 64
    \<and> (\<exists>p sz. map_of (heap st') p = Some sz \<and> unat sz = unat data_size * unat array_size
         \<and> (\<exists>m. mem st' = store_ptr m pData p))"
proof -
  let ?d = "unat data_size" and ?a = "unat array_size"
  have nz: "data_size \<noteq> 0" "array_size \<noteq> 0" using assms by (auto simp: allocate_field_def Let_def split: if_splits)
  then have pos: "0 < ?a" "0 < ?d" by (simp_all add: unat_gt_0)
  have fits: "?d * ?a < 2 ^ 64"
  proof (cases "data_size \<ge> 2 ^ 32 \<or> array_size \<ge> 2 ^ 32")
    case True
    then have "\<not> (- 1) div array_size < data_size"
      using assms nz by (auto simp: allocate_field_def Let_def split: if_splits)
    then have "?d \<le> unat ((- 1) div array_size)" by (simp add: word_less_nat_alt not_less)
    also have "\<dots> = (2 ^ 64 - 1) div ?a" by (simp add: unat_div unsigned_minus_1_eq_mask mask_eq_exp_minus_1)
    finally have "?d * ?a \<le> 2 ^ 64 - 1" using pos(1) by (simp add: less_eq_div_iff_mult_less_eq)
    then show ?thesis by simp
  next
    case False
    then have "?d < 2 ^ 32" "?a < 2 ^ 32" by (auto simp: word_le_nat_alt)
    then have "?d * ?a < 2 ^ 32 * 2 ^ 32" by (intro mult_strict_mono) auto
    then show ?thesis by simp
  qed
  then have u: "unat (array_size * data_size) = ?d * ?a" by (simp add: unat_word_ariths mult.commute)
  obtain p st1 where r: "pb_realloc env (load_ptr (mem st) pData) (array_size * data_size) st = (p, st1)" "p \<noteq> 0"
      "mem st' = store_ptr (mem st1) pData p" "heap st' = heap st1"
    using assms by (auto simp: allocate_field_def Let_def split: if_splits prod.splits)
  then have "map_of (heap st') p = Some (array_size * data_size)"
    by (auto simp: pb_realloc_def Let_def split: if_splits)
  with u fits pos r(3) show ?thesis by auto
qed

definition alloc_env :: cenv where
  "alloc_env = plain_env\<lparr>e_alloc := (\<lambda>st p n. 9000)\<rparr>"

lemma allocate_24:
  "\<exists>st'. allocate_field alloc_env (pb_istream_from_buffer [] 0) 5000 8 3 wifi_state
    = (True, pb_istream_from_buffer [] 0, st')"
  by (simp add: allocate_field_def Let_def pb_realloc_def alloc_env_def)

theorem allocate_field_exact_witness:
  "\<exists>st' p. (\<exists>sz. map_of (heap st') p = Some sz \<and> unat sz = 24)
     \<and> allocate_field alloc_env (pb_istream_from_buffer [] 0) 5000 8 3 wifi_state
         = (True, pb_istream_from_buffer [] 0, st')"
proof -
  obtain st' where r: "allocate_field alloc_env (pb_istream_from_buffer [] 0) 5000 8 3 wifi_state
      = (True, pb_istream_from_buffer [] 0, st')" using allocate_24 by blast
  from allocate_field_exact [OF r] r show ?thesis by auto
qed

section \<open>Skipping\<close>

text \<open>The value of an unknown field, as it lies on the wire.\<close>

inductive wire_value :: "pb_wire_type_t \<Rightarrow> byte list \<Rightarrow> bool" where
  varint_value: "wire_value PB_WT_VARINT (varint_bytes n)"
| fixed64_value: "length bs = 8 \<Longrightarrow> wire_value PB_WT_64BIT bs"
| fixed32_value: "length bs = 4 \<Longrightarrow> wire_value PB_WT_32BIT bs"
| string_value: "length bs < 2 ^ 32 \<Longrightarrow> wire_value PB_WT_STRING (varint_bytes (length bs) @ bs)"

lemma pb_skip_varint_loop_bytes:
  "has_input s (varint_bytes n) \<Longrightarrow> length (varint_bytes n) \<le> k \<Longrightarrow>
     pb_skip_varint_loop k env s st = Some (True, adv_in s (length (varint_bytes n)), st)"
proof (induction n arbitrary: s k rule: varint_bytes.induct)
  case (1 n)
  obtain k' where k: "k = Suc k'" using 1(3) by (cases k) (auto simp: le_Suc_eq)
  have rd: "pb_read_local env s 1 st = (True, [b], adv_in s 1, st)" if "has_input s (b # bs)" for b bs
  proof -
    have t: "mem_stream s" "Suc (length bs) \<le> unat (bytes_left s)" "take (Suc (length bs)) (is_state s) = b # bs"
      using that by (auto simp: has_input_def)
    then have "take 1 (is_state s) = [b]" by (cases "is_state s") auto
    moreover have "\<not> bytes_left s < 1" using t(2) by (auto simp: word_less_nat_alt)
    ultimately show ?thesis using t(1) by (simp add: pb_read_local_mem)
  qed
  show ?case
  proof (cases "n < 128")
    case True
    then have b: "varint_bytes n = [word_of_nat n]" by (rule varint_bytes_small)
    have "unat (word_of_nat n :: byte) < 128" using True by (simp add: unat_byte_of_nat)
    with rd [OF 1(2) [unfolded b]] show ?thesis by (simp add: k b the_byte_def byte_more)
  next
    case False
    let ?b = "word_of_nat (n mod 128 + 128) :: byte"
    have b: "varint_bytes n = ?b # varint_bytes (n div 128)" using False by (intro varint_bytes_large) simp
    have "\<not> unat ?b < 128" by (simp add: unat_varint_digit del: of_nat_add)
    with rd [OF 1(2) [unfolded b]]
    have "pb_skip_varint_loop k env s st = pb_skip_varint_loop k' env (adv_in s 1) st"
      by (simp add: k the_byte_def byte_more del: of_nat_add)
    with 1(1) [OF False, of "adv_in s 1" k'] has_input_Cons [OF 1(2) [unfolded b]] 1(3) show ?thesis
      by (simp add: b k adv_in_add)
  qed
qed

lemma pb_read_discard_input:
  "has_input s bs \<Longrightarrow> unat c = length bs \<Longrightarrow> pb_read env s 0 c st = (True, adv_in s (length bs), st)"
  by (auto simp: has_input_def pb_read_mem word_less_nat_alt)

text \<open>
  \<^verbatim>\<open>pb_skip_field\<close> passes over exactly the value of an unknown field, whatever its wire type.
\<close>

theorem pb_skip_field_value:
  assumes "wire_value wt bs" and "has_input s bs"
  shows "pb_skip_field env s wt st = Some (True, adv_in s (length bs), st)"
  using assms(1)
proof (cases rule: wire_value.cases)
  case (varint_value n)
  have "length (varint_bytes n) \<le> fuel_for s" using assms(2) varint_value by (auto simp: has_input_def fuel_for_def)
  with pb_skip_varint_loop_bytes [of s n "fuel_for s" env st] assms(2) varint_value show ?thesis
    by (simp add: pb_skip_field_def pb_skip_varint_def)
next
  case fixed64_value
  with pb_read_discard_input [OF assms(2), of 8 env st] show ?thesis by (simp add: pb_skip_field_def pb_wt_defs)
next
  case fixed32_value
  with pb_read_discard_input [OF assms(2), of 4 env st] show ?thesis by (simp add: pb_skip_field_def pb_wt_defs)
next
  case (string_value body)
  let ?n = "word_of_nat (length body) :: u32"
  have u: "unat ?n = length body" using string_value by (simp add: unat_of_nat)
  have u64: "unat (ucast ?n :: u64) = length body"
    using string_value u by (simp add: unsigned_ucast_eq take_bit_nat_eq_self)
  note split = has_input_adv [OF assms(2) [unfolded string_value(2)]]
  have "pb_decode_varint32 env s st = Some (Some ?n, adv_in s (length (varint_bytes (length body))), st)"
    using pb_decode_varint32_bytes [of s ?n env st] split(1) by (simp add: u)
  with pb_read_discard_input [OF split(2) u64, of env st] string_value show ?thesis
    by (simp add: pb_skip_field_def pb_skip_string_def pb_wt_defs adv_in_add)
qed

theorem pb_skip_field_value_witness:
  "pb_skip_field plain_env (pb_istream_from_buffer [2, 65, 66, 8] 4) PB_WT_STRING wifi_state
     = Some (True, adv_in (pb_istream_from_buffer [2, 65, 66, 8] 4) 3, wifi_state)"
proof -
  have "wire_value PB_WT_STRING (varint_bytes (length [65, 66 :: byte]) @ [65, 66])"
    by (rule string_value) simp
  then have w: "wire_value PB_WT_STRING [2, 65, 66]" by (simp add: varint_bytes_small)
  have "has_input (pb_istream_from_buffer [2, 65, 66, 8] 4) [2, 65, 66]"
    using from_buffer_input [of "[2, 65, 66]" 4 "[8]"] by simp
  from pb_skip_field_value [OF w this] show ?thesis by (simp add: numeral_3_eq_3)
qed


end
