(* ===== verification/Core_Diag_Proto.thy ===== *)
theory Core_Diag_Proto
  imports Pb_Layout
begin

text \<open>
  \<^verbatim>\<open>firebasecore.nanopb.h\<close> and \<^verbatim>\<open>firebasecore.nanopb.c\<close> of FirebaseCoreDiagnostics: the
  one message of the diagnostics log, its enumerations, structure and descriptor array.
\<close>

section \<open>Enumerations\<close>

datatype logs_proto_mobilesdk_ios_ICoreConfiguration_ConfigurationType =
    logs_proto_mobilesdk_ios_ICoreConfiguration_ConfigurationType_UNKNOWN_CONFIGURATION_TYPE
  | logs_proto_mobilesdk_ios_ICoreConfiguration_ConfigurationType_CORE
  | logs_proto_mobilesdk_ios_ICoreConfiguration_ConfigurationType_SDK

fun logs_proto_mobilesdk_ios_ICoreConfiguration_ConfigurationType_value :: "logs_proto_mobilesdk_ios_ICoreConfiguration_ConfigurationType \<Rightarrow> int" where
  "logs_proto_mobilesdk_ios_ICoreConfiguration_ConfigurationType_value logs_proto_mobilesdk_ios_ICoreConfiguration_ConfigurationType_UNKNOWN_CONFIGURATION_TYPE = 0"
| "logs_proto_mobilesdk_ios_ICoreConfiguration_ConfigurationType_value logs_proto_mobilesdk_ios_ICoreConfiguration_ConfigurationType_CORE = 1"
| "logs_proto_mobilesdk_ios_ICoreConfiguration_ConfigurationType_value logs_proto_mobilesdk_ios_ICoreConfiguration_ConfigurationType_SDK = 2"

definition logs_proto_mobilesdk_ios_ICoreConfiguration_ConfigurationType_MIN :: logs_proto_mobilesdk_ios_ICoreConfiguration_ConfigurationType where
  "logs_proto_mobilesdk_ios_ICoreConfiguration_ConfigurationType_MIN = logs_proto_mobilesdk_ios_ICoreConfiguration_ConfigurationType_UNKNOWN_CONFIGURATION_TYPE"

definition logs_proto_mobilesdk_ios_ICoreConfiguration_ConfigurationType_MAX :: logs_proto_mobilesdk_ios_ICoreConfiguration_ConfigurationType where
  "logs_proto_mobilesdk_ios_ICoreConfiguration_ConfigurationType_MAX = logs_proto_mobilesdk_ios_ICoreConfiguration_ConfigurationType_SDK"

definition logs_proto_mobilesdk_ios_ICoreConfiguration_ConfigurationType_ARRAYSIZE :: int where
  "logs_proto_mobilesdk_ios_ICoreConfiguration_ConfigurationType_ARRAYSIZE = logs_proto_mobilesdk_ios_ICoreConfiguration_ConfigurationType_value logs_proto_mobilesdk_ios_ICoreConfiguration_ConfigurationType_SDK + 1"

datatype logs_proto_mobilesdk_ios_ICoreConfiguration_BuildType =
    logs_proto_mobilesdk_ios_ICoreConfiguration_BuildType_UNKNOWN_BUILD_TYPE
  | logs_proto_mobilesdk_ios_ICoreConfiguration_BuildType_INTERNAL
  | logs_proto_mobilesdk_ios_ICoreConfiguration_BuildType_EAP
  | logs_proto_mobilesdk_ios_ICoreConfiguration_BuildType_PROD

fun logs_proto_mobilesdk_ios_ICoreConfiguration_BuildType_value :: "logs_proto_mobilesdk_ios_ICoreConfiguration_BuildType \<Rightarrow> int" where
  "logs_proto_mobilesdk_ios_ICoreConfiguration_BuildType_value logs_proto_mobilesdk_ios_ICoreConfiguration_BuildType_UNKNOWN_BUILD_TYPE = 0"
| "logs_proto_mobilesdk_ios_ICoreConfiguration_BuildType_value logs_proto_mobilesdk_ios_ICoreConfiguration_BuildType_INTERNAL = 1"
| "logs_proto_mobilesdk_ios_ICoreConfiguration_BuildType_value logs_proto_mobilesdk_ios_ICoreConfiguration_BuildType_EAP = 2"
| "logs_proto_mobilesdk_ios_ICoreConfiguration_BuildType_value logs_proto_mobilesdk_ios_ICoreConfiguration_BuildType_PROD = 3"

definition logs_proto_mobilesdk_ios_ICoreConfiguration_BuildType_MIN :: logs_proto_mobilesdk_ios_ICoreConfiguration_BuildType where
  "logs_proto_mobilesdk_ios_ICoreConfiguration_BuildType_MIN = logs_proto_mobilesdk_ios_ICoreConfiguration_BuildType_UNKNOWN_BUILD_TYPE"

definition logs_proto_mobilesdk_ios_ICoreConfiguration_BuildType_MAX :: logs_proto_mobilesdk_ios_ICoreConfiguration_BuildType where
  "logs_proto_mobilesdk_ios_ICoreConfiguration_BuildType_MAX = logs_proto_mobilesdk_ios_ICoreConfiguration_BuildType_PROD"

definition logs_proto_mobilesdk_ios_ICoreConfiguration_BuildType_ARRAYSIZE :: int where
  "logs_proto_mobilesdk_ios_ICoreConfiguration_BuildType_ARRAYSIZE = logs_proto_mobilesdk_ios_ICoreConfiguration_BuildType_value logs_proto_mobilesdk_ios_ICoreConfiguration_BuildType_PROD + 1"

datatype logs_proto_mobilesdk_ios_ICoreConfiguration_ServiceType =
    logs_proto_mobilesdk_ios_ICoreConfiguration_ServiceType_UNKNOWN_SDK_SERVICE
  | logs_proto_mobilesdk_ios_ICoreConfiguration_ServiceType_ICORE
  | logs_proto_mobilesdk_ios_ICoreConfiguration_ServiceType_ADMOB
  | logs_proto_mobilesdk_ios_ICoreConfiguration_ServiceType_APP_INVITE
  | logs_proto_mobilesdk_ios_ICoreConfiguration_ServiceType_SIGN_IN
  | logs_proto_mobilesdk_ios_ICoreConfiguration_ServiceType_GCM
  | logs_proto_mobilesdk_ios_ICoreConfiguration_ServiceType_MAPS
  | logs_proto_mobilesdk_ios_ICoreConfiguration_ServiceType_SCION
  | logs_proto_mobilesdk_ios_ICoreConfiguration_ServiceType_ANALYTICS
  | logs_proto_mobilesdk_ios_ICoreConfiguration_ServiceType_APP_INDEXING
  | logs_proto_mobilesdk_ios_ICoreConfiguration_ServiceType_CONFIG
  | logs_proto_mobilesdk_ios_ICoreConfiguration_ServiceType_DURABLE_DEEP_LINKS
  | logs_proto_mobilesdk_ios_ICoreConfiguration_ServiceType_CRASH
  | logs_proto_mobilesdk_ios_ICoreConfiguration_ServiceType_AUTH
  | logs_proto_mobilesdk_ios_ICoreConfiguration_ServiceType_DATABASE
  | logs_proto_mobilesdk_ios_ICoreConfiguration_ServiceType_STORAGE
  | logs_proto_mobilesdk_ios_ICoreConfiguration_ServiceType_MESSAGING
  | logs_proto_mobilesdk_ios_ICoreConfiguration_ServiceType_MEASUREMENT
  | logs_proto_mobilesdk_ios_ICoreConfiguration_ServiceType_REMOTE_CONFIG
  | logs_proto_mobilesdk_ios_ICoreConfiguration_ServiceType_DYNAMIC_LINKS
  | logs_proto_mobilesdk_ios_ICoreConfiguration_ServiceType_INVITES
  | logs_proto_mobilesdk_ios_ICoreConfiguration_ServiceType_AUTH_UI
  | logs_proto_mobilesdk_ios_ICoreConfiguration_ServiceType_FIRESTORE
  | logs_proto_mobilesdk_ios_ICoreConfiguration_ServiceType_PERFORMANCE
  | logs_proto_mobilesdk_ios_ICoreConfiguration_ServiceType_ML_VISION_ON_DEVICE_FACE
  | logs_proto_mobilesdk_ios_ICoreConfiguration_ServiceType_ML_VISION_ON_DEVICE_BARCODE
  | logs_proto_mobilesdk_ios_ICoreConfiguration_ServiceType_ML_VISION_ON_DEVICE_TEXT
  | logs_proto_mobilesdk_ios_ICoreConfiguration_ServiceType_ML_VISION_ON_DEVICE_LABEL
  | logs_proto_mobilesdk_ios_ICoreConfiguration_ServiceType_ML_MODEL_INTERPRETER
  | logs_proto_mobilesdk_ios_ICoreConfiguration_ServiceType_IN_APP_MESSAGING
  | logs_proto_mobilesdk_ios_ICoreConfiguration_ServiceType_FUNCTIONS
  | logs_proto_mobilesdk_ios_ICoreConfiguration_ServiceType_ML_NATURAL_LANGUAGE
  | logs_proto_mobilesdk_ios_ICoreConfiguration_ServiceType_ML_VISION_ON_DEVICE_AUTOML
  | logs_proto_mobilesdk_ios_ICoreConfiguration_ServiceType_ML_VISION_ON_DEVICE_OBJECT_DETECTION

fun logs_proto_mobilesdk_ios_ICoreConfiguration_ServiceType_value :: "logs_proto_mobilesdk_ios_ICoreConfiguration_ServiceType \<Rightarrow> int" where
  "logs_proto_mobilesdk_ios_ICoreConfiguration_ServiceType_value logs_proto_mobilesdk_ios_ICoreConfiguration_ServiceType_UNKNOWN_SDK_SERVICE = 0"
| "logs_proto_mobilesdk_ios_ICoreConfiguration_ServiceType_value logs_proto_mobilesdk_ios_ICoreConfiguration_ServiceType_ICORE = 1"
| "logs_proto_mobilesdk_ios_ICoreConfiguration_ServiceType_value logs_proto_mobilesdk_ios_ICoreConfiguration_ServiceType_ADMOB = 2"
| "logs_proto_mobilesdk_ios_ICoreConfiguration_ServiceType_value logs_proto_mobilesdk_ios_ICoreConfiguration_ServiceType_APP_INVITE = 3"
| "logs_proto_mobilesdk_ios_ICoreConfiguration_ServiceType_value logs_proto_mobilesdk_ios_ICoreConfiguration_ServiceType_SIGN_IN = 5"
| "logs_proto_mobilesdk_ios_ICoreConfiguration_ServiceType_value logs_proto_mobilesdk_ios_ICoreConfiguration_ServiceType_GCM = 6"
| "logs_proto_mobilesdk_ios_ICoreConfiguration_ServiceType_value logs_proto_mobilesdk_ios_ICoreConfiguration_ServiceType_MAPS = 7"
| "logs_proto_mobilesdk_ios_ICoreConfiguration_ServiceType_value logs_proto_mobilesdk_ios_ICoreConfiguration_ServiceType_SCION = 8"
| "logs_proto_mobilesdk_ios_ICoreConfiguration_ServiceType_value logs_proto_mobilesdk_ios_ICoreConfiguration_ServiceType_ANALYTICS = 9"
| "logs_proto_mobilesdk_ios_ICoreConfiguration_ServiceType_value logs_proto_mobilesdk_ios_ICoreConfiguration_ServiceType_APP_INDEXING = 10"
| "logs_proto_mobilesdk_ios_ICoreConfiguration_ServiceType_value logs_proto_mobilesdk_ios_ICoreConfiguration_ServiceType_CONFIG = 11"
| "logs_proto_mobilesdk_ios_ICoreConfiguration_ServiceType_value logs_proto_mobilesdk_ios_ICoreConfiguration_ServiceType_DURABLE_DEEP_LINKS = 12"
| "logs_proto_mobilesdk_ios_ICoreConfiguration_ServiceType_value logs_proto_mobilesdk_ios_ICoreConfiguration_ServiceType_CRASH = 13"
| "logs_proto_mobilesdk_ios_ICoreConfiguration_ServiceType_value logs_proto_mobilesdk_ios_ICoreConfiguration_ServiceType_AUTH = 14"
| "logs_proto_mobilesdk_ios_ICoreConfiguration_ServiceType_value logs_proto_mobilesdk_ios_ICoreConfiguration_ServiceType_DATABASE = 15"
| "logs_proto_mobilesdk_ios_ICoreConfiguration_ServiceType_value logs_proto_mobilesdk_ios_ICoreConfiguration_ServiceType_STORAGE = 16"
| "logs_proto_mobilesdk_ios_ICoreConfiguration_ServiceType_value logs_proto_mobilesdk_ios_ICoreConfiguration_ServiceType_MESSAGING = 17"
| "logs_proto_mobilesdk_ios_ICoreConfiguration_ServiceType_value logs_proto_mobilesdk_ios_ICoreConfiguration_ServiceType_MEASUREMENT = 18"
| "logs_proto_mobilesdk_ios_ICoreConfiguration_ServiceType_value logs_proto_mobilesdk_ios_ICoreConfiguration_ServiceType_REMOTE_CONFIG = 19"
| "logs_proto_mobilesdk_ios_ICoreConfiguration_ServiceType_value logs_proto_mobilesdk_ios_ICoreConfiguration_ServiceType_DYNAMIC_LINKS = 20"
| "logs_proto_mobilesdk_ios_ICoreConfiguration_ServiceType_value logs_proto_mobilesdk_ios_ICoreConfiguration_ServiceType_INVITES = 21"
| "logs_proto_mobilesdk_ios_ICoreConfiguration_ServiceType_value logs_proto_mobilesdk_ios_ICoreConfiguration_ServiceType_AUTH_UI = 22"
| "logs_proto_mobilesdk_ios_ICoreConfiguration_ServiceType_value logs_proto_mobilesdk_ios_ICoreConfiguration_ServiceType_FIRESTORE = 23"
| "logs_proto_mobilesdk_ios_ICoreConfiguration_ServiceType_value logs_proto_mobilesdk_ios_ICoreConfiguration_ServiceType_PERFORMANCE = 24"
| "logs_proto_mobilesdk_ios_ICoreConfiguration_ServiceType_value logs_proto_mobilesdk_ios_ICoreConfiguration_ServiceType_ML_VISION_ON_DEVICE_FACE = 26"
| "logs_proto_mobilesdk_ios_ICoreConfiguration_ServiceType_value logs_proto_mobilesdk_ios_ICoreConfiguration_ServiceType_ML_VISION_ON_DEVICE_BARCODE = 27"
| "logs_proto_mobilesdk_ios_ICoreConfiguration_ServiceType_value logs_proto_mobilesdk_ios_ICoreConfiguration_ServiceType_ML_VISION_ON_DEVICE_TEXT = 28"
| "logs_proto_mobilesdk_ios_ICoreConfiguration_ServiceType_value logs_proto_mobilesdk_ios_ICoreConfiguration_ServiceType_ML_VISION_ON_DEVICE_LABEL = 29"
| "logs_proto_mobilesdk_ios_ICoreConfiguration_ServiceType_value logs_proto_mobilesdk_ios_ICoreConfiguration_ServiceType_ML_MODEL_INTERPRETER = 30"
| "logs_proto_mobilesdk_ios_ICoreConfiguration_ServiceType_value logs_proto_mobilesdk_ios_ICoreConfiguration_ServiceType_IN_APP_MESSAGING = 31"
| "logs_proto_mobilesdk_ios_ICoreConfiguration_ServiceType_value logs_proto_mobilesdk_ios_ICoreConfiguration_ServiceType_FUNCTIONS = 32"
| "logs_proto_mobilesdk_ios_ICoreConfiguration_ServiceType_value logs_proto_mobilesdk_ios_ICoreConfiguration_ServiceType_ML_NATURAL_LANGUAGE = 33"
| "logs_proto_mobilesdk_ios_ICoreConfiguration_ServiceType_value logs_proto_mobilesdk_ios_ICoreConfiguration_ServiceType_ML_VISION_ON_DEVICE_AUTOML = 34"
| "logs_proto_mobilesdk_ios_ICoreConfiguration_ServiceType_value logs_proto_mobilesdk_ios_ICoreConfiguration_ServiceType_ML_VISION_ON_DEVICE_OBJECT_DETECTION = 35"

definition logs_proto_mobilesdk_ios_ICoreConfiguration_ServiceType_MIN :: logs_proto_mobilesdk_ios_ICoreConfiguration_ServiceType where
  "logs_proto_mobilesdk_ios_ICoreConfiguration_ServiceType_MIN = logs_proto_mobilesdk_ios_ICoreConfiguration_ServiceType_UNKNOWN_SDK_SERVICE"

definition logs_proto_mobilesdk_ios_ICoreConfiguration_ServiceType_MAX :: logs_proto_mobilesdk_ios_ICoreConfiguration_ServiceType where
  "logs_proto_mobilesdk_ios_ICoreConfiguration_ServiceType_MAX = logs_proto_mobilesdk_ios_ICoreConfiguration_ServiceType_ML_VISION_ON_DEVICE_OBJECT_DETECTION"

definition logs_proto_mobilesdk_ios_ICoreConfiguration_ServiceType_ARRAYSIZE :: int where
  "logs_proto_mobilesdk_ios_ICoreConfiguration_ServiceType_ARRAYSIZE = logs_proto_mobilesdk_ios_ICoreConfiguration_ServiceType_value logs_proto_mobilesdk_ios_ICoreConfiguration_ServiceType_ML_VISION_ON_DEVICE_OBJECT_DETECTION + 1"

datatype logs_proto_mobilesdk_ios_ICoreConfiguration_PodName =
    logs_proto_mobilesdk_ios_ICoreConfiguration_PodName_UNKNOWN_POD_NAME
  | logs_proto_mobilesdk_ios_ICoreConfiguration_PodName_GOOGLE
  | logs_proto_mobilesdk_ios_ICoreConfiguration_PodName_FIREBASE

fun logs_proto_mobilesdk_ios_ICoreConfiguration_PodName_value :: "logs_proto_mobilesdk_ios_ICoreConfiguration_PodName \<Rightarrow> int" where
  "logs_proto_mobilesdk_ios_ICoreConfiguration_PodName_value logs_proto_mobilesdk_ios_ICoreConfiguration_PodName_UNKNOWN_POD_NAME = 0"
| "logs_proto_mobilesdk_ios_ICoreConfiguration_PodName_value logs_proto_mobilesdk_ios_ICoreConfiguration_PodName_GOOGLE = 1"
| "logs_proto_mobilesdk_ios_ICoreConfiguration_PodName_value logs_proto_mobilesdk_ios_ICoreConfiguration_PodName_FIREBASE = 2"

definition logs_proto_mobilesdk_ios_ICoreConfiguration_PodName_MIN :: logs_proto_mobilesdk_ios_ICoreConfiguration_PodName where
  "logs_proto_mobilesdk_ios_ICoreConfiguration_PodName_MIN = logs_proto_mobilesdk_ios_ICoreConfiguration_PodName_UNKNOWN_POD_NAME"

definition logs_proto_mobilesdk_ios_ICoreConfiguration_PodName_MAX :: logs_proto_mobilesdk_ios_ICoreConfiguration_PodName where
  "logs_proto_mobilesdk_ios_ICoreConfiguration_PodName_MAX = logs_proto_mobilesdk_ios_ICoreConfiguration_PodName_FIREBASE"

definition logs_proto_mobilesdk_ios_ICoreConfiguration_PodName_ARRAYSIZE :: int where
  "logs_proto_mobilesdk_ios_ICoreConfiguration_PodName_ARRAYSIZE = logs_proto_mobilesdk_ios_ICoreConfiguration_PodName_value logs_proto_mobilesdk_ios_ICoreConfiguration_PodName_FIREBASE + 1"

datatype logs_proto_mobilesdk_ios_ICoreConfiguration_DeploymentType =
    logs_proto_mobilesdk_ios_ICoreConfiguration_DeploymentType_UNKNOWN
  | logs_proto_mobilesdk_ios_ICoreConfiguration_DeploymentType_COCOAPODS
  | logs_proto_mobilesdk_ios_ICoreConfiguration_DeploymentType_ZIP_FILE
  | logs_proto_mobilesdk_ios_ICoreConfiguration_DeploymentType_CARTHAGE
  | logs_proto_mobilesdk_ios_ICoreConfiguration_DeploymentType_SPM

fun logs_proto_mobilesdk_ios_ICoreConfiguration_DeploymentType_value :: "logs_proto_mobilesdk_ios_ICoreConfiguration_DeploymentType \<Rightarrow> int" where
  "logs_proto_mobilesdk_ios_ICoreConfiguration_DeploymentType_value logs_proto_mobilesdk_ios_ICoreConfiguration_DeploymentType_UNKNOWN = 0"
| "logs_proto_mobilesdk_ios_ICoreConfiguration_DeploymentType_value logs_proto_mobilesdk_ios_ICoreConfiguration_DeploymentType_COCOAPODS = 1"
| "logs_proto_mobilesdk_ios_ICoreConfiguration_DeploymentType_value logs_proto_mobilesdk_ios_ICoreConfiguration_DeploymentType_ZIP_FILE = 2"
| "logs_proto_mobilesdk_ios_ICoreConfiguration_DeploymentType_value logs_proto_mobilesdk_ios_ICoreConfiguration_DeploymentType_CARTHAGE = 3"
| "logs_proto_mobilesdk_ios_ICoreConfiguration_DeploymentType_value logs_proto_mobilesdk_ios_ICoreConfiguration_DeploymentType_SPM = 4"

definition logs_proto_mobilesdk_ios_ICoreConfiguration_DeploymentType_MIN :: logs_proto_mobilesdk_ios_ICoreConfiguration_DeploymentType where
  "logs_proto_mobilesdk_ios_ICoreConfiguration_DeploymentType_MIN = logs_proto_mobilesdk_ios_ICoreConfiguration_DeploymentType_UNKNOWN"

definition logs_proto_mobilesdk_ios_ICoreConfiguration_DeploymentType_MAX :: logs_proto_mobilesdk_ios_ICoreConfiguration_DeploymentType where
  "logs_proto_mobilesdk_ios_ICoreConfiguration_DeploymentType_MAX = logs_proto_mobilesdk_ios_ICoreConfiguration_DeploymentType_SPM"

definition logs_proto_mobilesdk_ios_ICoreConfiguration_DeploymentType_ARRAYSIZE :: int where
  "logs_proto_mobilesdk_ios_ICoreConfiguration_DeploymentType_ARRAYSIZE = logs_proto_mobilesdk_ios_ICoreConfiguration_DeploymentType_value logs_proto_mobilesdk_ios_ICoreConfiguration_DeploymentType_SPM + 1"

section \<open>Structures\<close>

definition logs_proto_mobilesdk_ios_ICoreConfiguration :: cstruct where
  "logs_proto_mobilesdk_ios_ICoreConfiguration =
     [(''has_configuration_type'', C_bool),
      (''configuration_type'', C_enum),
      (''sdk_service_installed_count'', C_pb_size),
      (''sdk_service_installed'', CPtr C_enum),
      (''device_model'', CPtr pb_bytes_array_t),
      (''app_id'', CPtr pb_bytes_array_t),
      (''bundle_id'', CPtr pb_bytes_array_t),
      (''has_pod_name'', C_bool),
      (''pod_name'', C_enum),
      (''icore_version'', CPtr pb_bytes_array_t),
      (''sdk_version'', CPtr pb_bytes_array_t),
      (''has_sdk_name'', C_bool),
      (''sdk_name'', C_enum),
      (''has_app_count'', C_bool),
      (''app_count'', C_int32),
      (''os_version'', CPtr pb_bytes_array_t),
      (''min_supported_ios_version'', CPtr pb_bytes_array_t),
      (''has_use_default_app'', C_bool),
      (''use_default_app'', C_bool),
      (''has_deployed_in_app_store'', C_bool),
      (''deployed_in_app_store'', C_bool),
      (''has_dynamic_framework_count'', C_bool),
      (''dynamic_framework_count'', C_int32),
      (''apple_framework_version'', CPtr pb_bytes_array_t),
      (''has_using_zip_file'', C_bool),
      (''using_zip_file'', C_bool),
      (''has_deployment_type'', C_bool),
      (''deployment_type'', C_enum),
      (''platform_info'', CPtr pb_bytes_array_t),
      (''has_swizzling_enabled'', C_bool),
      (''swizzling_enabled'', C_bool),
      (''has_using_gdt'', C_bool),
      (''using_gdt'', C_bool)]"

section \<open>Default values\<close>

section \<open>Descriptors\<close>

text \<open>
  The arrays as they are written in the source. The addresses the linker gives to descriptor
  arrays and default values are the argument \<open>L\<close>.
\<close>

definition logs_proto_mobilesdk_ios_ICoreConfiguration_fields :: "(string \<Rightarrow> addr) \<Rightarrow> pb_field list" where
  "logs_proto_mobilesdk_ios_ICoreConfiguration_fields L =
     [PB_FIELD 1 UENUM OPTIONAL STATIC FIRST logs_proto_mobilesdk_ios_ICoreConfiguration ''configuration_type'' ''configuration_type'' 0,
      PB_FIELD 7 UENUM REPEATED POINTER OTHER logs_proto_mobilesdk_ios_ICoreConfiguration ''sdk_service_installed'' ''configuration_type'' 0,
      PB_FIELD 9 BYTES OPTIONAL POINTER OTHER logs_proto_mobilesdk_ios_ICoreConfiguration ''device_model'' ''sdk_service_installed'' 0,
      PB_FIELD 10 BYTES OPTIONAL POINTER OTHER logs_proto_mobilesdk_ios_ICoreConfiguration ''app_id'' ''device_model'' 0,
      PB_FIELD 12 BYTES OPTIONAL POINTER OTHER logs_proto_mobilesdk_ios_ICoreConfiguration ''bundle_id'' ''app_id'' 0,
      PB_FIELD 16 UENUM OPTIONAL STATIC OTHER logs_proto_mobilesdk_ios_ICoreConfiguration ''pod_name'' ''bundle_id'' 0,
      PB_FIELD 18 BYTES OPTIONAL POINTER OTHER logs_proto_mobilesdk_ios_ICoreConfiguration ''icore_version'' ''pod_name'' 0,
      PB_FIELD 19 BYTES OPTIONAL POINTER OTHER logs_proto_mobilesdk_ios_ICoreConfiguration ''sdk_version'' ''icore_version'' 0,
      PB_FIELD 20 UENUM OPTIONAL STATIC OTHER logs_proto_mobilesdk_ios_ICoreConfiguration ''sdk_name'' ''sdk_version'' 0,
      PB_FIELD 21 INT32 OPTIONAL STATIC OTHER logs_proto_mobilesdk_ios_ICoreConfiguration ''app_count'' ''sdk_name'' 0,
      PB_FIELD 22 BYTES OPTIONAL POINTER OTHER logs_proto_mobilesdk_ios_ICoreConfiguration ''os_version'' ''app_count'' 0,
      PB_FIELD 24 BYTES OPTIONAL POINTER OTHER logs_proto_mobilesdk_ios_ICoreConfiguration ''min_supported_ios_version'' ''os_version'' 0,
      PB_FIELD 25 BOOL OPTIONAL STATIC OTHER logs_proto_mobilesdk_ios_ICoreConfiguration ''use_default_app'' ''min_supported_ios_version'' 0,
      PB_FIELD 26 BOOL OPTIONAL STATIC OTHER logs_proto_mobilesdk_ios_ICoreConfiguration ''deployed_in_app_store'' ''use_default_app'' 0,
      PB_FIELD 27 INT32 OPTIONAL STATIC OTHER logs_proto_mobilesdk_ios_ICoreConfiguration ''dynamic_framework_count'' ''deployed_in_app_store'' 0,
      PB_FIELD 28 BYTES OPTIONAL POINTER OTHER logs_proto_mobilesdk_ios_ICoreConfiguration ''apple_framework_version'' ''dynamic_framework_count'' 0,
      PB_FIELD 29 BOOL OPTIONAL STATIC OTHER logs_proto_mobilesdk_ios_ICoreConfiguration ''using_zip_file'' ''apple_framework_version'' 0,
      PB_FIELD 30 UENUM OPTIONAL STATIC OTHER logs_proto_mobilesdk_ios_ICoreConfiguration ''deployment_type'' ''using_zip_file'' 0,
      PB_FIELD 31 BYTES OPTIONAL POINTER OTHER logs_proto_mobilesdk_ios_ICoreConfiguration ''platform_info'' ''deployment_type'' 0,
      PB_FIELD 33 BOOL OPTIONAL STATIC OTHER logs_proto_mobilesdk_ios_ICoreConfiguration ''swizzling_enabled'' ''platform_info'' 0,
      PB_FIELD 36 BOOL OPTIONAL STATIC OTHER logs_proto_mobilesdk_ios_ICoreConfiguration ''using_gdt'' ''swizzling_enabled'' 0,
      PB_LAST_FIELD]"

section \<open>Field tags\<close>

definition logs_proto_mobilesdk_ios_ICoreConfiguration_pod_name_tag :: u32 where "logs_proto_mobilesdk_ios_ICoreConfiguration_pod_name_tag = 16"
definition logs_proto_mobilesdk_ios_ICoreConfiguration_configuration_type_tag :: u32 where "logs_proto_mobilesdk_ios_ICoreConfiguration_configuration_type_tag = 1"
definition logs_proto_mobilesdk_ios_ICoreConfiguration_icore_version_tag :: u32 where "logs_proto_mobilesdk_ios_ICoreConfiguration_icore_version_tag = 18"
definition logs_proto_mobilesdk_ios_ICoreConfiguration_sdk_version_tag :: u32 where "logs_proto_mobilesdk_ios_ICoreConfiguration_sdk_version_tag = 19"
definition logs_proto_mobilesdk_ios_ICoreConfiguration_sdk_service_installed_tag :: u32 where "logs_proto_mobilesdk_ios_ICoreConfiguration_sdk_service_installed_tag = 7"
definition logs_proto_mobilesdk_ios_ICoreConfiguration_sdk_name_tag :: u32 where "logs_proto_mobilesdk_ios_ICoreConfiguration_sdk_name_tag = 20"
definition logs_proto_mobilesdk_ios_ICoreConfiguration_device_model_tag :: u32 where "logs_proto_mobilesdk_ios_ICoreConfiguration_device_model_tag = 9"
definition logs_proto_mobilesdk_ios_ICoreConfiguration_os_version_tag :: u32 where "logs_proto_mobilesdk_ios_ICoreConfiguration_os_version_tag = 22"
definition logs_proto_mobilesdk_ios_ICoreConfiguration_app_id_tag :: u32 where "logs_proto_mobilesdk_ios_ICoreConfiguration_app_id_tag = 10"
definition logs_proto_mobilesdk_ios_ICoreConfiguration_bundle_id_tag :: u32 where "logs_proto_mobilesdk_ios_ICoreConfiguration_bundle_id_tag = 12"
definition logs_proto_mobilesdk_ios_ICoreConfiguration_min_supported_ios_version_tag :: u32 where "logs_proto_mobilesdk_ios_ICoreConfiguration_min_supported_ios_version_tag = 24"
definition logs_proto_mobilesdk_ios_ICoreConfiguration_use_default_app_tag :: u32 where "logs_proto_mobilesdk_ios_ICoreConfiguration_use_default_app_tag = 25"
definition logs_proto_mobilesdk_ios_ICoreConfiguration_app_count_tag :: u32 where "logs_proto_mobilesdk_ios_ICoreConfiguration_app_count_tag = 21"
definition logs_proto_mobilesdk_ios_ICoreConfiguration_deployed_in_app_store_tag :: u32 where "logs_proto_mobilesdk_ios_ICoreConfiguration_deployed_in_app_store_tag = 26"
definition logs_proto_mobilesdk_ios_ICoreConfiguration_dynamic_framework_count_tag :: u32 where "logs_proto_mobilesdk_ios_ICoreConfiguration_dynamic_framework_count_tag = 27"
definition logs_proto_mobilesdk_ios_ICoreConfiguration_apple_framework_version_tag :: u32 where "logs_proto_mobilesdk_ios_ICoreConfiguration_apple_framework_version_tag = 28"
definition logs_proto_mobilesdk_ios_ICoreConfiguration_using_zip_file_tag :: u32 where "logs_proto_mobilesdk_ios_ICoreConfiguration_using_zip_file_tag = 29"
definition logs_proto_mobilesdk_ios_ICoreConfiguration_deployment_type_tag :: u32 where "logs_proto_mobilesdk_ios_ICoreConfiguration_deployment_type_tag = 30"
definition logs_proto_mobilesdk_ios_ICoreConfiguration_platform_info_tag :: u32 where "logs_proto_mobilesdk_ios_ICoreConfiguration_platform_info_tag = 31"
definition logs_proto_mobilesdk_ios_ICoreConfiguration_swizzling_enabled_tag :: u32 where "logs_proto_mobilesdk_ios_ICoreConfiguration_swizzling_enabled_tag = 33"
definition logs_proto_mobilesdk_ios_ICoreConfiguration_using_gdt_tag :: u32 where "logs_proto_mobilesdk_ios_ICoreConfiguration_using_gdt_tag = 36"

section \<open>The message types as schemas\<close>

text \<open>Name, type and rule of every field, in the order of the descriptors.\<close>

definition logs_proto_mobilesdk_ios_ICoreConfiguration_specs :: "(string \<Rightarrow> addr) \<Rightarrow> field_spec list" where
  "logs_proto_mobilesdk_ios_ICoreConfiguration_specs L =
     [\<lparr>s_tag = 1, s_type = UENUM, s_rule = OPTIONAL, s_alloc = STATIC, s_name = ''configuration_type'', s_ptr = 0\<rparr>,
      \<lparr>s_tag = 7, s_type = UENUM, s_rule = REPEATED, s_alloc = POINTER, s_name = ''sdk_service_installed'', s_ptr = 0\<rparr>,
      \<lparr>s_tag = 9, s_type = BYTES, s_rule = OPTIONAL, s_alloc = POINTER, s_name = ''device_model'', s_ptr = 0\<rparr>,
      \<lparr>s_tag = 10, s_type = BYTES, s_rule = OPTIONAL, s_alloc = POINTER, s_name = ''app_id'', s_ptr = 0\<rparr>,
      \<lparr>s_tag = 12, s_type = BYTES, s_rule = OPTIONAL, s_alloc = POINTER, s_name = ''bundle_id'', s_ptr = 0\<rparr>,
      \<lparr>s_tag = 16, s_type = UENUM, s_rule = OPTIONAL, s_alloc = STATIC, s_name = ''pod_name'', s_ptr = 0\<rparr>,
      \<lparr>s_tag = 18, s_type = BYTES, s_rule = OPTIONAL, s_alloc = POINTER, s_name = ''icore_version'', s_ptr = 0\<rparr>,
      \<lparr>s_tag = 19, s_type = BYTES, s_rule = OPTIONAL, s_alloc = POINTER, s_name = ''sdk_version'', s_ptr = 0\<rparr>,
      \<lparr>s_tag = 20, s_type = UENUM, s_rule = OPTIONAL, s_alloc = STATIC, s_name = ''sdk_name'', s_ptr = 0\<rparr>,
      \<lparr>s_tag = 21, s_type = INT32, s_rule = OPTIONAL, s_alloc = STATIC, s_name = ''app_count'', s_ptr = 0\<rparr>,
      \<lparr>s_tag = 22, s_type = BYTES, s_rule = OPTIONAL, s_alloc = POINTER, s_name = ''os_version'', s_ptr = 0\<rparr>,
      \<lparr>s_tag = 24, s_type = BYTES, s_rule = OPTIONAL, s_alloc = POINTER, s_name = ''min_supported_ios_version'', s_ptr = 0\<rparr>,
      \<lparr>s_tag = 25, s_type = BOOL, s_rule = OPTIONAL, s_alloc = STATIC, s_name = ''use_default_app'', s_ptr = 0\<rparr>,
      \<lparr>s_tag = 26, s_type = BOOL, s_rule = OPTIONAL, s_alloc = STATIC, s_name = ''deployed_in_app_store'', s_ptr = 0\<rparr>,
      \<lparr>s_tag = 27, s_type = INT32, s_rule = OPTIONAL, s_alloc = STATIC, s_name = ''dynamic_framework_count'', s_ptr = 0\<rparr>,
      \<lparr>s_tag = 28, s_type = BYTES, s_rule = OPTIONAL, s_alloc = POINTER, s_name = ''apple_framework_version'', s_ptr = 0\<rparr>,
      \<lparr>s_tag = 29, s_type = BOOL, s_rule = OPTIONAL, s_alloc = STATIC, s_name = ''using_zip_file'', s_ptr = 0\<rparr>,
      \<lparr>s_tag = 30, s_type = UENUM, s_rule = OPTIONAL, s_alloc = STATIC, s_name = ''deployment_type'', s_ptr = 0\<rparr>,
      \<lparr>s_tag = 31, s_type = BYTES, s_rule = OPTIONAL, s_alloc = POINTER, s_name = ''platform_info'', s_ptr = 0\<rparr>,
      \<lparr>s_tag = 33, s_type = BOOL, s_rule = OPTIONAL, s_alloc = STATIC, s_name = ''swizzling_enabled'', s_ptr = 0\<rparr>,
      \<lparr>s_tag = 36, s_type = BOOL, s_rule = OPTIONAL, s_alloc = STATIC, s_name = ''using_gdt'', s_ptr = 0\<rparr>]"

definition core_diag_messages :: "(string \<Rightarrow> addr) \<Rightarrow> (cstruct \<times> pb_field list \<times> field_spec list) list" where
  "core_diag_messages L =
     [(logs_proto_mobilesdk_ios_ICoreConfiguration, logs_proto_mobilesdk_ios_ICoreConfiguration_fields L, logs_proto_mobilesdk_ios_ICoreConfiguration_specs L)]"

lemmas core_diag_struct_defs =
  logs_proto_mobilesdk_ios_ICoreConfiguration_def

lemmas core_diag_fields_defs =
  logs_proto_mobilesdk_ios_ICoreConfiguration_fields_def logs_proto_mobilesdk_ios_ICoreConfiguration_specs_def

text \<open>Where the members lie, and how large the nested structures are.\<close>

lemma core_diag_sizes:
  "csize (CStruct logs_proto_mobilesdk_ios_ICoreConfiguration) = 152" "members_end 0 logs_proto_mobilesdk_ios_ICoreConfiguration = 148" "members_align logs_proto_mobilesdk_ios_ICoreConfiguration = 8"
  by (simp_all add: core_diag_struct_defs layout_simps)

lemma logs_proto_mobilesdk_ios_ICoreConfiguration_members:
  "find_member 0 ''has_configuration_type'' logs_proto_mobilesdk_ios_ICoreConfiguration = Some (0, C_bool)"
  "find_member 0 ''configuration_type'' logs_proto_mobilesdk_ios_ICoreConfiguration = Some (4, C_enum)"
  "find_member 0 ''sdk_service_installed_count'' logs_proto_mobilesdk_ios_ICoreConfiguration = Some (8, C_pb_size)"
  "find_member 0 ''sdk_service_installed'' logs_proto_mobilesdk_ios_ICoreConfiguration = Some (16, CPtr C_enum)"
  "find_member 0 ''device_model'' logs_proto_mobilesdk_ios_ICoreConfiguration = Some (24, CPtr pb_bytes_array_t)"
  "find_member 0 ''app_id'' logs_proto_mobilesdk_ios_ICoreConfiguration = Some (32, CPtr pb_bytes_array_t)"
  "find_member 0 ''bundle_id'' logs_proto_mobilesdk_ios_ICoreConfiguration = Some (40, CPtr pb_bytes_array_t)"
  "find_member 0 ''has_pod_name'' logs_proto_mobilesdk_ios_ICoreConfiguration = Some (48, C_bool)"
  "find_member 0 ''pod_name'' logs_proto_mobilesdk_ios_ICoreConfiguration = Some (52, C_enum)"
  "find_member 0 ''icore_version'' logs_proto_mobilesdk_ios_ICoreConfiguration = Some (56, CPtr pb_bytes_array_t)"
  "find_member 0 ''sdk_version'' logs_proto_mobilesdk_ios_ICoreConfiguration = Some (64, CPtr pb_bytes_array_t)"
  "find_member 0 ''has_sdk_name'' logs_proto_mobilesdk_ios_ICoreConfiguration = Some (72, C_bool)"
  "find_member 0 ''sdk_name'' logs_proto_mobilesdk_ios_ICoreConfiguration = Some (76, C_enum)"
  "find_member 0 ''has_app_count'' logs_proto_mobilesdk_ios_ICoreConfiguration = Some (80, C_bool)"
  "find_member 0 ''app_count'' logs_proto_mobilesdk_ios_ICoreConfiguration = Some (84, C_int32)"
  "find_member 0 ''os_version'' logs_proto_mobilesdk_ios_ICoreConfiguration = Some (88, CPtr pb_bytes_array_t)"
  "find_member 0 ''min_supported_ios_version'' logs_proto_mobilesdk_ios_ICoreConfiguration = Some (96, CPtr pb_bytes_array_t)"
  "find_member 0 ''has_use_default_app'' logs_proto_mobilesdk_ios_ICoreConfiguration = Some (104, C_bool)"
  "find_member 0 ''use_default_app'' logs_proto_mobilesdk_ios_ICoreConfiguration = Some (105, C_bool)"
  "find_member 0 ''has_deployed_in_app_store'' logs_proto_mobilesdk_ios_ICoreConfiguration = Some (106, C_bool)"
  "find_member 0 ''deployed_in_app_store'' logs_proto_mobilesdk_ios_ICoreConfiguration = Some (107, C_bool)"
  "find_member 0 ''has_dynamic_framework_count'' logs_proto_mobilesdk_ios_ICoreConfiguration = Some (108, C_bool)"
  "find_member 0 ''dynamic_framework_count'' logs_proto_mobilesdk_ios_ICoreConfiguration = Some (112, C_int32)"
  "find_member 0 ''apple_framework_version'' logs_proto_mobilesdk_ios_ICoreConfiguration = Some (120, CPtr pb_bytes_array_t)"
  "find_member 0 ''has_using_zip_file'' logs_proto_mobilesdk_ios_ICoreConfiguration = Some (128, C_bool)"
  "find_member 0 ''using_zip_file'' logs_proto_mobilesdk_ios_ICoreConfiguration = Some (129, C_bool)"
  "find_member 0 ''has_deployment_type'' logs_proto_mobilesdk_ios_ICoreConfiguration = Some (130, C_bool)"
  "find_member 0 ''deployment_type'' logs_proto_mobilesdk_ios_ICoreConfiguration = Some (132, C_enum)"
  "find_member 0 ''platform_info'' logs_proto_mobilesdk_ios_ICoreConfiguration = Some (136, CPtr pb_bytes_array_t)"
  "find_member 0 ''has_swizzling_enabled'' logs_proto_mobilesdk_ios_ICoreConfiguration = Some (144, C_bool)"
  "find_member 0 ''swizzling_enabled'' logs_proto_mobilesdk_ios_ICoreConfiguration = Some (145, C_bool)"
  "find_member 0 ''has_using_gdt'' logs_proto_mobilesdk_ios_ICoreConfiguration = Some (146, C_bool)"
  "find_member 0 ''using_gdt'' logs_proto_mobilesdk_ios_ICoreConfiguration = Some (147, C_bool)"
  by (simp_all add: logs_proto_mobilesdk_ios_ICoreConfiguration_def layout_simps core_diag_sizes)

lemma logs_proto_mobilesdk_ios_ICoreConfiguration_schema: "message_ok logs_proto_mobilesdk_ios_ICoreConfiguration (logs_proto_mobilesdk_ios_ICoreConfiguration_fields L) (logs_proto_mobilesdk_ios_ICoreConfiguration_specs L)"
  unfolding message_ok_def
  by (intro conjI) (simp_all add: logs_proto_mobilesdk_ios_ICoreConfiguration_fields_def logs_proto_mobilesdk_ios_ICoreConfiguration_specs_def layout_simps logs_proto_mobilesdk_ios_ICoreConfiguration_members core_diag_sizes)

lemma core_diag_messages_ok: "(st, fds, specs) \<in> set (core_diag_messages L) \<Longrightarrow> message_ok st fds specs"
  by (auto simp: core_diag_messages_def logs_proto_mobilesdk_ios_ICoreConfiguration_schema)

end
