(* ===== verification/Pb_Schema.thy ===== *)
theory Pb_Schema
  imports Cct_Proto Core_Diag_Proto
begin

text \<open>
  What the generated descriptor arrays of \<^verbatim>\<open>cct.nanopb.c\<close> and \<^verbatim>\<open>firebasecore.nanopb.c\<close> mean to the
  iterator of \<^verbatim>\<open>pb_common.c\<close>. The contract between a descriptor array and the iterator is the locale
  \<open>message_schema\<close>; every message of the two files is an interpretation of it.
\<close>

section \<open>The contract of a descriptor array\<close>

locale message_schema =
  fixes st :: cstruct and fds :: "pb_field list" and specs :: "field_spec list"
  assumes schema: "message_ok st fds specs"
begin

lemma fds_eq: "fds = message_fields st specs"
  using schema by (simp add: message_ok_def)

lemma specs: "specs_ok st specs"
  using schema by (simp add: message_ok_def)

lemma nfields: "nfields fds = length specs"
  using schema nfields_message_fields [of st specs] by (simp add: message_ok_def)

lemma tags_distinct: "distinct (map s_tag specs)"
  using schema by (simp add: message_ok_def)

lemma spec_rule: "i < length specs \<Longrightarrow> s_rule (specs ! i) \<noteq> OPTEXT"
  using specs_ok_nth [OF specs] by (simp add: spec_ok_def)

lemma tag_at: "i < length specs \<Longrightarrow> f_tag (field_at fds i) = s_tag (specs ! i)"
  using message_fields_nth [of i specs st] spec_rule [of i]
  by (cases "i = 0") (simp_all add: fds_eq PB_FIELD_type)

lemma ltype_at: "i < length specs \<Longrightarrow> PB_LTYPE (f_type (field_at fds i)) = PB_LTYPE_MAP (s_type (specs ! i))"
  using message_fields_nth [of i specs st] spec_rule [of i]
  by (cases "i = 0") (simp_all add: fds_eq PB_FIELD_kind)

lemma not_extension:
  assumes "i < length specs"
  shows "PB_LTYPE (f_type (field_at fds i)) \<noteq> PB_LTYPE_EXTENSION"
proof -
  have "s_type (specs ! i) \<noteq> EXTENSION"
    using schema assms unfolding message_ok_def list_all_length by blast
  then show ?thesis
    unfolding ltype_at [OF assms] by (cases "s_type (specs ! i)") (auto simp: pb_ltype_defs)
qed

lemma matches_iff:
  "i < length specs \<Longrightarrow> j < length specs \<Longrightarrow>
   tag_matches (s_tag (specs ! i)) (field_at fds j) \<longleftrightarrow> j = i"
  using nth_eq_iff_index_eq [OF tags_distinct, of j i]
  by (auto simp: tag_matches_def tag_at not_extension)

lemma data_member: "i < length specs \<Longrightarrow> field_data fds dest i = dest + int (offsetof st (s_name (specs ! i)))"
  unfolding fds_eq by (rule field_data_member [OF specs])

lemma size_member_at:
  assumes "i < length specs" "size_member (specs ! i) = Some m"
  shows "field_size fds dest i = dest + int (offsetof st m)"
proof -
  have "offsetof st m < 2 ^ 31"
    using schema assms unfolding message_ok_def list_all_length by fastforce
  then show ?thesis unfolding fds_eq by (rule field_size_member [OF specs assms])
qed

lemma find_member_field:
  assumes "iter_inv fds dest it" "i < length specs"
  shows "\<exists>it'. pb_field_iter_find it (s_tag (specs ! i)) = Some (True, it') \<and> iter_inv fds dest it'
    \<and> it_pos it' = i \<and> it_pData it' = dest + int (offsetof st (s_name (specs ! i)))
    \<and> (\<forall>m. size_member (specs ! i) = Some m \<longrightarrow> it_pSize it' = PMem (dest + int (offsetof st m)))"
proof -
  have n: "0 < nfields fds" using assms(2) unfolding nfields by linarith
  show ?thesis
  proof (cases rule: pb_field_iter_find_cases [OF assms(1) n, of "s_tag (specs ! i)", case_names found absent])
    case (found it')
    then have "it_pos it' = i" using matches_iff assms(2) nfields by auto
    moreover have "it_pData it' = field_data fds dest (it_pos it')"
        "it_pSize it' = PMem (field_size fds dest (it_pos it'))"
      using found(2) by (simp_all add: iter_inv_def)
    ultimately show ?thesis
      using found(1,2) assms(2) data_member size_member_at by auto
  next
    case (absent it')
    with matches_iff [of i i] assms(2) nfields show ?thesis by auto
  qed
qed

lemma find_unknown:
  assumes "iter_inv fds dest it" "0 < length specs" "tag \<notin> s_tag ` set specs"
  shows "\<exists>it'. pb_field_iter_find it tag = Some (False, it') \<and> iter_inv fds dest it' \<and> it_pos it' = it_pos it"
proof -
  have n: "0 < nfields fds" using assms(2) unfolding nfields by simp
  show ?thesis
  proof (cases rule: pb_field_iter_find_cases [OF assms(1) n, of tag, case_names found absent])
    case (found it')
    then have "s_tag (specs ! it_pos it') = tag" "it_pos it' < length specs"
      using nfields tag_at by (auto simp: tag_matches_def)
    with assms(3) show ?thesis by force
  next
    case (absent it')
    then show ?thesis by blast
  qed
qed

end

section \<open>Every generated message keeps it\<close>

interpretation cct_LogEvent: message_schema gdt_cct_LogEvent "gdt_cct_LogEvent_fields L" "gdt_cct_LogEvent_specs L" for L
  by unfold_locales (rule gdt_cct_LogEvent_schema)

interpretation cct_NetworkConnectionInfo: message_schema gdt_cct_NetworkConnectionInfo "gdt_cct_NetworkConnectionInfo_fields L" "gdt_cct_NetworkConnectionInfo_specs L" for L
  by unfold_locales (rule gdt_cct_NetworkConnectionInfo_schema)

interpretation cct_IosClientInfo: message_schema gdt_cct_IosClientInfo "gdt_cct_IosClientInfo_fields L" "gdt_cct_IosClientInfo_specs L" for L
  by unfold_locales (rule gdt_cct_IosClientInfo_schema)

interpretation cct_ClientInfo: message_schema gdt_cct_ClientInfo "gdt_cct_ClientInfo_fields L" "gdt_cct_ClientInfo_specs L" for L
  by unfold_locales (rule gdt_cct_ClientInfo_schema)

interpretation cct_BatchedLogRequest: message_schema gdt_cct_BatchedLogRequest "gdt_cct_BatchedLogRequest_fields L" "gdt_cct_BatchedLogRequest_specs L" for L
  by unfold_locales (rule gdt_cct_BatchedLogRequest_schema)

interpretation cct_LogRequest: message_schema gdt_cct_LogRequest "gdt_cct_LogRequest_fields L" "gdt_cct_LogRequest_specs L" for L
  by unfold_locales (rule gdt_cct_LogRequest_schema)

interpretation cct_QosTierConfiguration: message_schema gdt_cct_QosTierConfiguration "gdt_cct_QosTierConfiguration_fields L" "gdt_cct_QosTierConfiguration_specs L" for L
  by unfold_locales (rule gdt_cct_QosTierConfiguration_schema)

interpretation cct_QosTiersOverride: message_schema gdt_cct_QosTiersOverride "gdt_cct_QosTiersOverride_fields L" "gdt_cct_QosTiersOverride_specs L" for L
  by unfold_locales (rule gdt_cct_QosTiersOverride_schema)

interpretation cct_LogResponse: message_schema gdt_cct_LogResponse "gdt_cct_LogResponse_fields L" "gdt_cct_LogResponse_specs L" for L
  by unfold_locales (rule gdt_cct_LogResponse_schema)

interpretation diag_ICoreConfiguration: message_schema logs_proto_mobilesdk_ios_ICoreConfiguration "logs_proto_mobilesdk_ios_ICoreConfiguration_fields L" "logs_proto_mobilesdk_ios_ICoreConfiguration_specs L" for L
  by unfold_locales (rule logs_proto_mobilesdk_ios_ICoreConfiguration_schema)

definition generated_messages :: "(string \<Rightarrow> addr) \<Rightarrow> (cstruct \<times> pb_field list \<times> field_spec list) list" where
  "generated_messages L = cct_messages L @ core_diag_messages L"

lemma generated_schema: "(st, fds, specs) \<in> set (generated_messages L) \<Longrightarrow> message_schema st fds specs"
  unfolding generated_messages_def message_schema_def
  using cct_messages_ok core_diag_messages_ok by auto

lemmas cct_specs_defs =
  gdt_cct_LogEvent_specs_def
  gdt_cct_NetworkConnectionInfo_specs_def
  gdt_cct_IosClientInfo_specs_def
  gdt_cct_ClientInfo_specs_def
  gdt_cct_BatchedLogRequest_specs_def
  gdt_cct_LogRequest_specs_def
  gdt_cct_QosTierConfiguration_specs_def
  gdt_cct_QosTiersOverride_specs_def
  gdt_cct_LogResponse_specs_def

lemmas generated_tag_defs =
  gdt_cct_LogEvent_event_time_ms_tag_def
  gdt_cct_LogEvent_source_extension_tag_def
  gdt_cct_LogEvent_event_code_tag_def
  gdt_cct_LogEvent_timezone_offset_seconds_tag_def
  gdt_cct_LogEvent_event_uptime_ms_tag_def
  gdt_cct_LogEvent_network_connection_info_tag_def
  gdt_cct_NetworkConnectionInfo_network_type_tag_def
  gdt_cct_NetworkConnectionInfo_mobile_subtype_tag_def
  gdt_cct_IosClientInfo_os_major_version_tag_def
  gdt_cct_IosClientInfo_os_full_version_tag_def
  gdt_cct_IosClientInfo_application_build_tag_def
  gdt_cct_IosClientInfo_country_tag_def
  gdt_cct_IosClientInfo_model_tag_def
  gdt_cct_IosClientInfo_language_code_tag_def
  gdt_cct_IosClientInfo_application_bundle_id_tag_def
  gdt_cct_ClientInfo_client_type_tag_def
  gdt_cct_ClientInfo_ios_client_info_tag_def
  gdt_cct_BatchedLogRequest_log_request_tag_def
  gdt_cct_LogRequest_client_info_tag_def
  gdt_cct_LogRequest_log_source_tag_def
  gdt_cct_LogRequest_log_event_tag_def
  gdt_cct_LogRequest_request_time_ms_tag_def
  gdt_cct_LogRequest_request_uptime_ms_tag_def
  gdt_cct_LogRequest_qos_tier_tag_def
  gdt_cct_QosTierConfiguration_qos_tier_tag_def
  gdt_cct_QosTierConfiguration_log_source_tag_def
  gdt_cct_QosTiersOverride_qos_tier_configuration_tag_def
  gdt_cct_QosTiersOverride_qos_tier_fingerprint_tag_def
  gdt_cct_LogResponse_next_request_wait_millis_tag_def
  gdt_cct_LogResponse_qos_tier_tag_def
  logs_proto_mobilesdk_ios_ICoreConfiguration_configuration_type_tag_def
  logs_proto_mobilesdk_ios_ICoreConfiguration_sdk_service_installed_tag_def
  logs_proto_mobilesdk_ios_ICoreConfiguration_device_model_tag_def
  logs_proto_mobilesdk_ios_ICoreConfiguration_app_id_tag_def
  logs_proto_mobilesdk_ios_ICoreConfiguration_bundle_id_tag_def
  logs_proto_mobilesdk_ios_ICoreConfiguration_pod_name_tag_def
  logs_proto_mobilesdk_ios_ICoreConfiguration_icore_version_tag_def
  logs_proto_mobilesdk_ios_ICoreConfiguration_sdk_version_tag_def
  logs_proto_mobilesdk_ios_ICoreConfiguration_sdk_name_tag_def
  logs_proto_mobilesdk_ios_ICoreConfiguration_app_count_tag_def
  logs_proto_mobilesdk_ios_ICoreConfiguration_os_version_tag_def
  logs_proto_mobilesdk_ios_ICoreConfiguration_min_supported_ios_version_tag_def
  logs_proto_mobilesdk_ios_ICoreConfiguration_use_default_app_tag_def
  logs_proto_mobilesdk_ios_ICoreConfiguration_deployed_in_app_store_tag_def
  logs_proto_mobilesdk_ios_ICoreConfiguration_dynamic_framework_count_tag_def
  logs_proto_mobilesdk_ios_ICoreConfiguration_apple_framework_version_tag_def
  logs_proto_mobilesdk_ios_ICoreConfiguration_using_zip_file_tag_def
  logs_proto_mobilesdk_ios_ICoreConfiguration_deployment_type_tag_def
  logs_proto_mobilesdk_ios_ICoreConfiguration_platform_info_tag_def
  logs_proto_mobilesdk_ios_ICoreConfiguration_swizzling_enabled_tag_def
  logs_proto_mobilesdk_ios_ICoreConfiguration_using_gdt_tag_def

lemmas generated_fields_defs =
  gdt_cct_LogEvent_fields_def
  gdt_cct_NetworkConnectionInfo_fields_def
  gdt_cct_IosClientInfo_fields_def
  gdt_cct_ClientInfo_fields_def
  gdt_cct_BatchedLogRequest_fields_def
  gdt_cct_LogRequest_fields_def
  gdt_cct_QosTierConfiguration_fields_def
  gdt_cct_QosTiersOverride_fields_def
  gdt_cct_LogResponse_fields_def
  logs_proto_mobilesdk_ios_ICoreConfiguration_fields_def

section \<open>Enumerations\<close>

definition enum_ok :: "('a \<Rightarrow> int) \<Rightarrow> 'a \<Rightarrow> 'a \<Rightarrow> int \<Rightarrow> bool" where
  "enum_ok val lo hi n \<longleftrightarrow>
     inj val \<and> (\<forall>x. val lo \<le> val x \<and> val x \<le> val hi) \<and> n = val hi + 1"

lemma enum_okI:
  assumes "\<And>x y. val x = val y \<Longrightarrow> x = y" "\<And>x. val lo \<le> val x \<and> val x \<le> val hi" "n = val hi + 1"
  shows "enum_ok val lo hi n"
  using assms by (auto simp: enum_ok_def inj_def)

lemma gdt_cct_NetworkConnectionInfo_NetworkType_ok:
  "enum_ok gdt_cct_NetworkConnectionInfo_NetworkType_value gdt_cct_NetworkConnectionInfo_NetworkType_MIN gdt_cct_NetworkConnectionInfo_NetworkType_MAX gdt_cct_NetworkConnectionInfo_NetworkType_ARRAYSIZE"
proof (rule enum_okI)
  show "x = y" if "gdt_cct_NetworkConnectionInfo_NetworkType_value x = gdt_cct_NetworkConnectionInfo_NetworkType_value y" for x y
    using that by (cases x; cases y; simp)
  show "gdt_cct_NetworkConnectionInfo_NetworkType_value gdt_cct_NetworkConnectionInfo_NetworkType_MIN \<le> gdt_cct_NetworkConnectionInfo_NetworkType_value x \<and> gdt_cct_NetworkConnectionInfo_NetworkType_value x \<le> gdt_cct_NetworkConnectionInfo_NetworkType_value gdt_cct_NetworkConnectionInfo_NetworkType_MAX" for x
    unfolding gdt_cct_NetworkConnectionInfo_NetworkType_MIN_def gdt_cct_NetworkConnectionInfo_NetworkType_MAX_def by (cases x; simp)
  show "gdt_cct_NetworkConnectionInfo_NetworkType_ARRAYSIZE = gdt_cct_NetworkConnectionInfo_NetworkType_value gdt_cct_NetworkConnectionInfo_NetworkType_MAX + 1"
    unfolding gdt_cct_NetworkConnectionInfo_NetworkType_ARRAYSIZE_def gdt_cct_NetworkConnectionInfo_NetworkType_MAX_def by (rule refl)
qed

lemma gdt_cct_NetworkConnectionInfo_MobileSubtype_ok:
  "enum_ok gdt_cct_NetworkConnectionInfo_MobileSubtype_value gdt_cct_NetworkConnectionInfo_MobileSubtype_MIN gdt_cct_NetworkConnectionInfo_MobileSubtype_MAX gdt_cct_NetworkConnectionInfo_MobileSubtype_ARRAYSIZE"
proof (rule enum_okI)
  show "x = y" if "gdt_cct_NetworkConnectionInfo_MobileSubtype_value x = gdt_cct_NetworkConnectionInfo_MobileSubtype_value y" for x y
    using that by (cases x; cases y; simp)
  show "gdt_cct_NetworkConnectionInfo_MobileSubtype_value gdt_cct_NetworkConnectionInfo_MobileSubtype_MIN \<le> gdt_cct_NetworkConnectionInfo_MobileSubtype_value x \<and> gdt_cct_NetworkConnectionInfo_MobileSubtype_value x \<le> gdt_cct_NetworkConnectionInfo_MobileSubtype_value gdt_cct_NetworkConnectionInfo_MobileSubtype_MAX" for x
    unfolding gdt_cct_NetworkConnectionInfo_MobileSubtype_MIN_def gdt_cct_NetworkConnectionInfo_MobileSubtype_MAX_def by (cases x; simp)
  show "gdt_cct_NetworkConnectionInfo_MobileSubtype_ARRAYSIZE = gdt_cct_NetworkConnectionInfo_MobileSubtype_value gdt_cct_NetworkConnectionInfo_MobileSubtype_MAX + 1"
    unfolding gdt_cct_NetworkConnectionInfo_MobileSubtype_ARRAYSIZE_def gdt_cct_NetworkConnectionInfo_MobileSubtype_MAX_def by (rule refl)
qed

lemma gdt_cct_ClientInfo_ClientType_ok:
  "enum_ok gdt_cct_ClientInfo_ClientType_value gdt_cct_ClientInfo_ClientType_MIN gdt_cct_ClientInfo_ClientType_MAX gdt_cct_ClientInfo_ClientType_ARRAYSIZE"
proof (rule enum_okI)
  show "x = y" if "gdt_cct_ClientInfo_ClientType_value x = gdt_cct_ClientInfo_ClientType_value y" for x y
    using that by (cases x; cases y; simp)
  show "gdt_cct_ClientInfo_ClientType_value gdt_cct_ClientInfo_ClientType_MIN \<le> gdt_cct_ClientInfo_ClientType_value x \<and> gdt_cct_ClientInfo_ClientType_value x \<le> gdt_cct_ClientInfo_ClientType_value gdt_cct_ClientInfo_ClientType_MAX" for x
    unfolding gdt_cct_ClientInfo_ClientType_MIN_def gdt_cct_ClientInfo_ClientType_MAX_def by (cases x; simp)
  show "gdt_cct_ClientInfo_ClientType_ARRAYSIZE = gdt_cct_ClientInfo_ClientType_value gdt_cct_ClientInfo_ClientType_MAX + 1"
    unfolding gdt_cct_ClientInfo_ClientType_ARRAYSIZE_def gdt_cct_ClientInfo_ClientType_MAX_def by (rule refl)
qed

lemma gdt_cct_QosTierConfiguration_QosTier_ok:
  "enum_ok gdt_cct_QosTierConfiguration_QosTier_value gdt_cct_QosTierConfiguration_QosTier_MIN gdt_cct_QosTierConfiguration_QosTier_MAX gdt_cct_QosTierConfiguration_QosTier_ARRAYSIZE"
proof (rule enum_okI)
  show "x = y" if "gdt_cct_QosTierConfiguration_QosTier_value x = gdt_cct_QosTierConfiguration_QosTier_value y" for x y
    using that by (cases x; cases y; simp)
  show "gdt_cct_QosTierConfiguration_QosTier_value gdt_cct_QosTierConfiguration_QosTier_MIN \<le> gdt_cct_QosTierConfiguration_QosTier_value x \<and> gdt_cct_QosTierConfiguration_QosTier_value x \<le> gdt_cct_QosTierConfiguration_QosTier_value gdt_cct_QosTierConfiguration_QosTier_MAX" for x
    unfolding gdt_cct_QosTierConfiguration_QosTier_MIN_def gdt_cct_QosTierConfiguration_QosTier_MAX_def by (cases x; simp)
  show "gdt_cct_QosTierConfiguration_QosTier_ARRAYSIZE = gdt_cct_QosTierConfiguration_QosTier_value gdt_cct_QosTierConfiguration_QosTier_MAX + 1"
    unfolding gdt_cct_QosTierConfiguration_QosTier_ARRAYSIZE_def gdt_cct_QosTierConfiguration_QosTier_MAX_def by (rule refl)
qed

lemma logs_proto_mobilesdk_ios_ICoreConfiguration_ConfigurationType_ok:
  "enum_ok logs_proto_mobilesdk_ios_ICoreConfiguration_ConfigurationType_value logs_proto_mobilesdk_ios_ICoreConfiguration_ConfigurationType_MIN logs_proto_mobilesdk_ios_ICoreConfiguration_ConfigurationType_MAX logs_proto_mobilesdk_ios_ICoreConfiguration_ConfigurationType_ARRAYSIZE"
proof (rule enum_okI)
  show "x = y" if "logs_proto_mobilesdk_ios_ICoreConfiguration_ConfigurationType_value x = logs_proto_mobilesdk_ios_ICoreConfiguration_ConfigurationType_value y" for x y
    using that by (cases x; cases y; simp)
  show "logs_proto_mobilesdk_ios_ICoreConfiguration_ConfigurationType_value logs_proto_mobilesdk_ios_ICoreConfiguration_ConfigurationType_MIN \<le> logs_proto_mobilesdk_ios_ICoreConfiguration_ConfigurationType_value x \<and> logs_proto_mobilesdk_ios_ICoreConfiguration_ConfigurationType_value x \<le> logs_proto_mobilesdk_ios_ICoreConfiguration_ConfigurationType_value logs_proto_mobilesdk_ios_ICoreConfiguration_ConfigurationType_MAX" for x
    unfolding logs_proto_mobilesdk_ios_ICoreConfiguration_ConfigurationType_MIN_def logs_proto_mobilesdk_ios_ICoreConfiguration_ConfigurationType_MAX_def by (cases x; simp)
  show "logs_proto_mobilesdk_ios_ICoreConfiguration_ConfigurationType_ARRAYSIZE = logs_proto_mobilesdk_ios_ICoreConfiguration_ConfigurationType_value logs_proto_mobilesdk_ios_ICoreConfiguration_ConfigurationType_MAX + 1"
    unfolding logs_proto_mobilesdk_ios_ICoreConfiguration_ConfigurationType_ARRAYSIZE_def logs_proto_mobilesdk_ios_ICoreConfiguration_ConfigurationType_MAX_def by (rule refl)
qed

lemma logs_proto_mobilesdk_ios_ICoreConfiguration_BuildType_ok:
  "enum_ok logs_proto_mobilesdk_ios_ICoreConfiguration_BuildType_value logs_proto_mobilesdk_ios_ICoreConfiguration_BuildType_MIN logs_proto_mobilesdk_ios_ICoreConfiguration_BuildType_MAX logs_proto_mobilesdk_ios_ICoreConfiguration_BuildType_ARRAYSIZE"
proof (rule enum_okI)
  show "x = y" if "logs_proto_mobilesdk_ios_ICoreConfiguration_BuildType_value x = logs_proto_mobilesdk_ios_ICoreConfiguration_BuildType_value y" for x y
    using that by (cases x; cases y; simp)
  show "logs_proto_mobilesdk_ios_ICoreConfiguration_BuildType_value logs_proto_mobilesdk_ios_ICoreConfiguration_BuildType_MIN \<le> logs_proto_mobilesdk_ios_ICoreConfiguration_BuildType_value x \<and> logs_proto_mobilesdk_ios_ICoreConfiguration_BuildType_value x \<le> logs_proto_mobilesdk_ios_ICoreConfiguration_BuildType_value logs_proto_mobilesdk_ios_ICoreConfiguration_BuildType_MAX" for x
    unfolding logs_proto_mobilesdk_ios_ICoreConfiguration_BuildType_MIN_def logs_proto_mobilesdk_ios_ICoreConfiguration_BuildType_MAX_def by (cases x; simp)
  show "logs_proto_mobilesdk_ios_ICoreConfiguration_BuildType_ARRAYSIZE = logs_proto_mobilesdk_ios_ICoreConfiguration_BuildType_value logs_proto_mobilesdk_ios_ICoreConfiguration_BuildType_MAX + 1"
    unfolding logs_proto_mobilesdk_ios_ICoreConfiguration_BuildType_ARRAYSIZE_def logs_proto_mobilesdk_ios_ICoreConfiguration_BuildType_MAX_def by (rule refl)
qed

lemma logs_proto_mobilesdk_ios_ICoreConfiguration_ServiceType_ok:
  "enum_ok logs_proto_mobilesdk_ios_ICoreConfiguration_ServiceType_value logs_proto_mobilesdk_ios_ICoreConfiguration_ServiceType_MIN logs_proto_mobilesdk_ios_ICoreConfiguration_ServiceType_MAX logs_proto_mobilesdk_ios_ICoreConfiguration_ServiceType_ARRAYSIZE"
proof (rule enum_okI)
  show "x = y" if "logs_proto_mobilesdk_ios_ICoreConfiguration_ServiceType_value x = logs_proto_mobilesdk_ios_ICoreConfiguration_ServiceType_value y" for x y
    using that by (cases x; cases y; simp)
  show "logs_proto_mobilesdk_ios_ICoreConfiguration_ServiceType_value logs_proto_mobilesdk_ios_ICoreConfiguration_ServiceType_MIN \<le> logs_proto_mobilesdk_ios_ICoreConfiguration_ServiceType_value x \<and> logs_proto_mobilesdk_ios_ICoreConfiguration_ServiceType_value x \<le> logs_proto_mobilesdk_ios_ICoreConfiguration_ServiceType_value logs_proto_mobilesdk_ios_ICoreConfiguration_ServiceType_MAX" for x
    unfolding logs_proto_mobilesdk_ios_ICoreConfiguration_ServiceType_MIN_def logs_proto_mobilesdk_ios_ICoreConfiguration_ServiceType_MAX_def by (cases x; simp)
  show "logs_proto_mobilesdk_ios_ICoreConfiguration_ServiceType_ARRAYSIZE = logs_proto_mobilesdk_ios_ICoreConfiguration_ServiceType_value logs_proto_mobilesdk_ios_ICoreConfiguration_ServiceType_MAX + 1"
    unfolding logs_proto_mobilesdk_ios_ICoreConfiguration_ServiceType_ARRAYSIZE_def logs_proto_mobilesdk_ios_ICoreConfiguration_ServiceType_MAX_def by (rule refl)
qed

lemma logs_proto_mobilesdk_ios_ICoreConfiguration_PodName_ok:
  "enum_ok logs_proto_mobilesdk_ios_ICoreConfiguration_PodName_value logs_proto_mobilesdk_ios_ICoreConfiguration_PodName_MIN logs_proto_mobilesdk_ios_ICoreConfiguration_PodName_MAX logs_proto_mobilesdk_ios_ICoreConfiguration_PodName_ARRAYSIZE"
proof (rule enum_okI)
  show "x = y" if "logs_proto_mobilesdk_ios_ICoreConfiguration_PodName_value x = logs_proto_mobilesdk_ios_ICoreConfiguration_PodName_value y" for x y
    using that by (cases x; cases y; simp)
  show "logs_proto_mobilesdk_ios_ICoreConfiguration_PodName_value logs_proto_mobilesdk_ios_ICoreConfiguration_PodName_MIN \<le> logs_proto_mobilesdk_ios_ICoreConfiguration_PodName_value x \<and> logs_proto_mobilesdk_ios_ICoreConfiguration_PodName_value x \<le> logs_proto_mobilesdk_ios_ICoreConfiguration_PodName_value logs_proto_mobilesdk_ios_ICoreConfiguration_PodName_MAX" for x
    unfolding logs_proto_mobilesdk_ios_ICoreConfiguration_PodName_MIN_def logs_proto_mobilesdk_ios_ICoreConfiguration_PodName_MAX_def by (cases x; simp)
  show "logs_proto_mobilesdk_ios_ICoreConfiguration_PodName_ARRAYSIZE = logs_proto_mobilesdk_ios_ICoreConfiguration_PodName_value logs_proto_mobilesdk_ios_ICoreConfiguration_PodName_MAX + 1"
    unfolding logs_proto_mobilesdk_ios_ICoreConfiguration_PodName_ARRAYSIZE_def logs_proto_mobilesdk_ios_ICoreConfiguration_PodName_MAX_def by (rule refl)
qed

lemma logs_proto_mobilesdk_ios_ICoreConfiguration_DeploymentType_ok:
  "enum_ok logs_proto_mobilesdk_ios_ICoreConfiguration_DeploymentType_value logs_proto_mobilesdk_ios_ICoreConfiguration_DeploymentType_MIN logs_proto_mobilesdk_ios_ICoreConfiguration_DeploymentType_MAX logs_proto_mobilesdk_ios_ICoreConfiguration_DeploymentType_ARRAYSIZE"
proof (rule enum_okI)
  show "x = y" if "logs_proto_mobilesdk_ios_ICoreConfiguration_DeploymentType_value x = logs_proto_mobilesdk_ios_ICoreConfiguration_DeploymentType_value y" for x y
    using that by (cases x; cases y; simp)
  show "logs_proto_mobilesdk_ios_ICoreConfiguration_DeploymentType_value logs_proto_mobilesdk_ios_ICoreConfiguration_DeploymentType_MIN \<le> logs_proto_mobilesdk_ios_ICoreConfiguration_DeploymentType_value x \<and> logs_proto_mobilesdk_ios_ICoreConfiguration_DeploymentType_value x \<le> logs_proto_mobilesdk_ios_ICoreConfiguration_DeploymentType_value logs_proto_mobilesdk_ios_ICoreConfiguration_DeploymentType_MAX" for x
    unfolding logs_proto_mobilesdk_ios_ICoreConfiguration_DeploymentType_MIN_def logs_proto_mobilesdk_ios_ICoreConfiguration_DeploymentType_MAX_def by (cases x; simp)
  show "logs_proto_mobilesdk_ios_ICoreConfiguration_DeploymentType_ARRAYSIZE = logs_proto_mobilesdk_ios_ICoreConfiguration_DeploymentType_value logs_proto_mobilesdk_ios_ICoreConfiguration_DeploymentType_MAX + 1"
    unfolding logs_proto_mobilesdk_ios_ICoreConfiguration_DeploymentType_ARRAYSIZE_def logs_proto_mobilesdk_ios_ICoreConfiguration_DeploymentType_MAX_def by (rule refl)
qed

section \<open>Properties\<close>

text \<open>
  C13. In every generated message, searching the tag of a field finds that field from wherever the
  iterator stands, and the iterator then points at the member of the C struct the field is declared
  for, and at its \<^verbatim>\<open>has_\<close> flag or \<^verbatim>\<open>_count\<close> when it has one.
\<close>

theorem generated_fields_located:
  assumes "(st, fds, specs) \<in> set (generated_messages L)" "iter_inv fds dest it" "i < length specs"
  shows "\<exists>it'. pb_field_iter_find it (s_tag (specs ! i)) = Some (True, it') \<and> iter_inv fds dest it'
    \<and> it_pos it' = i \<and> it_pData it' = dest + int (offsetof st (s_name (specs ! i)))
    \<and> (\<forall>m. size_member (specs ! i) = Some m \<longrightarrow> it_pSize it' = PMem (dest + int (offsetof st m)))"
  using message_schema.find_member_field [OF generated_schema [OF assms(1)] assms(2,3)] .

theorem generated_fields_located_witness:
  "\<exists>it'. pb_field_iter_find (snd (pb_field_iter_begin fresh_iter (gdt_cct_NetworkConnectionInfo_fields (\<lambda>_. 0)) 4096)) 2
     = Some (True, it') \<and> it_pData it' = 4108 \<and> it_pSize it' = PMem 4104"
proof -
  let ?f = "gdt_cct_NetworkConnectionInfo_fields (\<lambda>_. 0)" and ?s = "gdt_cct_NetworkConnectionInfo_specs (\<lambda>_. 0)"
  have mem: "(gdt_cct_NetworkConnectionInfo, ?f, ?s) \<in> set (generated_messages (\<lambda>_. 0))"
    by (simp add: generated_messages_def cct_messages_def)
  have inv: "iter_inv ?f 4096 (snd (pb_field_iter_begin fresh_iter ?f 4096))"
    using pb_field_iter_begin_inv(1) by (metis prod.collapse)
  have "1 < length ?s" by (simp add: gdt_cct_NetworkConnectionInfo_specs_def)
  from generated_fields_located [OF mem inv this] show ?thesis
    by (simp add: gdt_cct_NetworkConnectionInfo_specs_def layout_simps gdt_cct_NetworkConnectionInfo_members) blast
qed

text \<open>
  A tag that is not one of a generated message's fields is reported as not found, with the
  iterator where it was.
\<close>

theorem generated_fields_unknown:
  assumes "(st, fds, specs) \<in> set (generated_messages L)" "iter_inv fds dest it"
    and "tag \<notin> s_tag ` set specs"
  shows "\<exists>it'. pb_field_iter_find it tag = Some (False, it') \<and> iter_inv fds dest it' \<and> it_pos it' = it_pos it"
proof -
  have "0 < length specs"
    using assms(1) by (auto simp: generated_messages_def cct_messages_def core_diag_messages_def
      cct_specs_defs logs_proto_mobilesdk_ios_ICoreConfiguration_specs_def)
  with message_schema.find_unknown [OF generated_schema [OF assms(1)] assms(2)] assms(3) show ?thesis by blast
qed

theorem generated_fields_unknown_witness:
  "\<exists>it'. pb_field_iter_find (snd (pb_field_iter_begin fresh_iter (gdt_cct_NetworkConnectionInfo_fields (\<lambda>_. 0)) 4096)) 9
     = Some (False, it')"
proof -
  let ?f = "gdt_cct_NetworkConnectionInfo_fields (\<lambda>_. 0)" and ?s = "gdt_cct_NetworkConnectionInfo_specs (\<lambda>_. 0)"
  have mem: "(gdt_cct_NetworkConnectionInfo, ?f, ?s) \<in> set (generated_messages (\<lambda>_. 0))"
    by (simp add: generated_messages_def cct_messages_def)
  have inv: "iter_inv ?f 4096 (snd (pb_field_iter_begin fresh_iter ?f 4096))"
    using pb_field_iter_begin_inv(1) by (metis prod.collapse)
  have "9 \<notin> s_tag ` set ?s" by (simp add: gdt_cct_NetworkConnectionInfo_specs_def)
  from generated_fields_unknown [OF mem inv this] show ?thesis by blast
qed


text \<open>
  In every generated enumeration the constants have different values, all between the
  \<^verbatim>\<open>_MIN\<close> and \<^verbatim>\<open>_MAX\<close> constants, and \<^verbatim>\<open>_ARRAYSIZE\<close> is one more than the largest.
\<close>

theorem generated_enums:
  "enum_ok gdt_cct_NetworkConnectionInfo_NetworkType_value gdt_cct_NetworkConnectionInfo_NetworkType_MIN gdt_cct_NetworkConnectionInfo_NetworkType_MAX gdt_cct_NetworkConnectionInfo_NetworkType_ARRAYSIZE
   \<and> enum_ok gdt_cct_NetworkConnectionInfo_MobileSubtype_value gdt_cct_NetworkConnectionInfo_MobileSubtype_MIN gdt_cct_NetworkConnectionInfo_MobileSubtype_MAX gdt_cct_NetworkConnectionInfo_MobileSubtype_ARRAYSIZE
   \<and> enum_ok gdt_cct_ClientInfo_ClientType_value gdt_cct_ClientInfo_ClientType_MIN gdt_cct_ClientInfo_ClientType_MAX gdt_cct_ClientInfo_ClientType_ARRAYSIZE
   \<and> enum_ok gdt_cct_QosTierConfiguration_QosTier_value gdt_cct_QosTierConfiguration_QosTier_MIN gdt_cct_QosTierConfiguration_QosTier_MAX gdt_cct_QosTierConfiguration_QosTier_ARRAYSIZE
   \<and> enum_ok logs_proto_mobilesdk_ios_ICoreConfiguration_ConfigurationType_value logs_proto_mobilesdk_ios_ICoreConfiguration_ConfigurationType_MIN logs_proto_mobilesdk_ios_ICoreConfiguration_ConfigurationType_MAX logs_proto_mobilesdk_ios_ICoreConfiguration_ConfigurationType_ARRAYSIZE
   \<and> enum_ok logs_proto_mobilesdk_ios_ICoreConfiguration_BuildType_value logs_proto_mobilesdk_ios_ICoreConfiguration_BuildType_MIN logs_proto_mobilesdk_ios_ICoreConfiguration_BuildType_MAX logs_proto_mobilesdk_ios_ICoreConfiguration_BuildType_ARRAYSIZE
   \<and> enum_ok logs_proto_mobilesdk_ios_ICoreConfiguration_ServiceType_value logs_proto_mobilesdk_ios_ICoreConfiguration_ServiceType_MIN logs_proto_mobilesdk_ios_ICoreConfiguration_ServiceType_MAX logs_proto_mobilesdk_ios_ICoreConfiguration_ServiceType_ARRAYSIZE
   \<and> enum_ok logs_proto_mobilesdk_ios_ICoreConfiguration_PodName_value logs_proto_mobilesdk_ios_ICoreConfiguration_PodName_MIN logs_proto_mobilesdk_ios_ICoreConfiguration_PodName_MAX logs_proto_mobilesdk_ios_ICoreConfiguration_PodName_ARRAYSIZE
   \<and> enum_ok logs_proto_mobilesdk_ios_ICoreConfiguration_DeploymentType_value logs_proto_mobilesdk_ios_ICoreConfiguration_DeploymentType_MIN logs_proto_mobilesdk_ios_ICoreConfiguration_DeploymentType_MAX logs_proto_mobilesdk_ios_ICoreConfiguration_DeploymentType_ARRAYSIZE"
  by (intro conjI) (rule gdt_cct_NetworkConnectionInfo_NetworkType_ok gdt_cct_NetworkConnectionInfo_MobileSubtype_ok gdt_cct_ClientInfo_ClientType_ok gdt_cct_QosTierConfiguration_QosTier_ok logs_proto_mobilesdk_ios_ICoreConfiguration_ConfigurationType_ok logs_proto_mobilesdk_ios_ICoreConfiguration_BuildType_ok logs_proto_mobilesdk_ios_ICoreConfiguration_ServiceType_ok logs_proto_mobilesdk_ios_ICoreConfiguration_PodName_ok logs_proto_mobilesdk_ios_ICoreConfiguration_DeploymentType_ok)+

end
