(* ===== verification/FBase64.thy ===== *)
theory FBase64
  imports Pb_Prelude
begin

text \<open>
  \<^verbatim>\<open>FirebaseDatabase/.../SocketRocket/fbase64.c\<close>: the base64 coder of the web socket
  handshake. Strings are byte lists up to their terminator; the target is a region of memory,
  its address zero for a null pointer. A result of \<open>- 1\<close> is the error return.
\<close>

section \<open>The alphabet\<close>

definition Base64 :: "byte list" where
  "Base64 = map (\<lambda>c. word_of_nat (of_char c))
     ''ABCDEFGHIJKLMNOPQRSTUVWXYZabcdefghijklmnopqrstuvwxyz0123456789+/''"

definition Pad64 :: byte where
  "Pad64 = 61"

text \<open>\<^verbatim>\<open>strchr(Base64, ch) - Base64\<close> for a character that is not the terminator.\<close>

fun index_from :: "byte \<Rightarrow> byte list \<Rightarrow> byte \<Rightarrow> byte option" where
  "index_from i [] ch = None"
| "index_from i (c # cs) ch = (if c = ch then Some i else index_from (i + 1) cs ch)"

definition b64_index :: "byte \<Rightarrow> byte option" where
  "b64_index ch = index_from 0 Base64 ch"

text \<open>\<^verbatim>\<open>isspace\<close> in the C locale.\<close>

definition isspace :: "byte \<Rightarrow> bool" where
  "isspace ch \<longleftrightarrow> 9 \<le> ch \<and> ch \<le> 13 \<or> ch = 32"

section \<open>Encoding\<close>

definition out0 :: "byte \<Rightarrow> byte" where "out0 a = drop_bit 2 a"
definition out1 :: "byte \<Rightarrow> byte \<Rightarrow> byte" where "out1 a b = push_bit 4 (a AND 0x03) + drop_bit 4 b"
definition out2 :: "byte \<Rightarrow> byte \<Rightarrow> byte" where "out2 b c = push_bit 2 (b AND 0x0f) + drop_bit 6 c"
definition out3 :: "byte \<Rightarrow> byte" where "out3 c = c AND 0x3f"

definition b64_char :: "byte \<Rightarrow> byte" where
  "b64_char i = Base64 ! unat i"

text \<open>The groups of three; the position, the rest of the input and the memory after the loop.\<close>

fun ntop_loop :: "addr \<Rightarrow> u64 \<Rightarrow> byte list \<Rightarrow> u64 \<Rightarrow> memory \<Rightarrow> u64 option \<times> byte list \<times> memory" where
  "ntop_loop target targsize (a # b # c # src) datalength m =
     (if datalength + 4 > targsize then (None, src, m)
      else ntop_loop target targsize src (datalength + 4)
             (store_bytes m (target + uint datalength)
                [b64_char (out0 a), b64_char (out1 a b), b64_char (out2 b c), b64_char (out3 c)]))"
| "ntop_loop target targsize src datalength m = (Some datalength, src, m)"

definition ntop_finish :: "addr \<Rightarrow> u64 \<Rightarrow> u64 \<Rightarrow> memory \<Rightarrow> int \<times> memory" where
  "ntop_finish target targsize datalength m =
     (if datalength \<ge> targsize then (- 1, m)
      else (sint (ucast datalength :: u32), m(target + uint datalength := 0)))"

text \<open>What follows the groups of three: the padded last group, and the terminator.\<close>

definition ntop_pad :: "addr \<Rightarrow> u64 \<Rightarrow> u64 option \<times> byte list \<times> memory \<Rightarrow> int \<times> memory" where
  "ntop_pad target targsize r =
     (case r of
        (None, rest, m) \<Rightarrow> (- 1, m)
      | (Some datalength, [], m) \<Rightarrow> ntop_finish target targsize datalength m
      | (Some datalength, a # rest, m) \<Rightarrow>
          let b = (case rest of x # _ \<Rightarrow> x | [] \<Rightarrow> 0) in
          if datalength + 4 > targsize then (- 1, m)
          else ntop_finish target targsize (datalength + 4)
                 (store_bytes m (target + uint datalength)
                    [b64_char (out0 a), b64_char (out1 a b),
                     if rest = [] then Pad64 else b64_char (out2 b 0), Pad64]))"

definition f_b64_ntop :: "byte list \<Rightarrow> addr \<Rightarrow> u64 \<Rightarrow> memory \<Rightarrow> int \<times> memory" where
  "f_b64_ntop src target targsize m =
     ntop_pad target targsize (ntop_loop target targsize src 0 m)"

section \<open>Decoding\<close>

text \<open>
  The four states of the decoding loop for a digit of value \<open>v\<close>; the result is the next
  state, the next index and the memory.
\<close>

definition pton_step ::
    "addr \<Rightarrow> u64 \<Rightarrow> nat \<Rightarrow> u32 \<Rightarrow> byte \<Rightarrow> memory \<Rightarrow> (nat \<times> u32 \<times> memory) option" where
  "pton_step target targsize state tarindex v m =
     (let here = target + uint tarindex; next = target + uint (tarindex + 1) in
      if state = 0
      then (if target = 0 then Some (1, tarindex, m)
            else if ucast tarindex \<ge> targsize then None
            else Some (1, tarindex, m(here := push_bit 2 v)))
      else if state = 1
      then (if target = 0 then Some (2, tarindex + 1, m)
            else if ucast (tarindex + 1) \<ge> targsize then None
            else let m = m(here := m here OR drop_bit 4 v)
                 in Some (2, tarindex + 1, m(next := push_bit 4 (v AND 0x0f))))
      else if state = 2
      then (if target = 0 then Some (3, tarindex + 1, m)
            else if ucast (tarindex + 1) \<ge> targsize then None
            else let m = m(here := m here OR drop_bit 2 v)
                 in Some (3, tarindex + 1, m(next := push_bit 6 (v AND 0x03))))
      else (if target = 0 then Some (0, tarindex + 1, m)
            else if ucast tarindex \<ge> targsize then None
            else Some (0, tarindex + 1, m(here := m here OR v))))"

text \<open>
  The loop: it stops at the end of the string or behind a pad character (first component), or
  returns an error (\<open>None\<close>).
\<close>

fun pton_loop ::
    "addr \<Rightarrow> u64 \<Rightarrow> byte list \<Rightarrow> nat \<Rightarrow> u32 \<Rightarrow> memory
     \<Rightarrow> (bool \<times> byte list \<times> nat \<times> u32) option \<times> memory" where
  "pton_loop target targsize [] state tarindex m = (Some (False, [], state, tarindex), m)"
| "pton_loop target targsize (ch # src) state tarindex m =
     (if isspace ch then pton_loop target targsize src state tarindex m
      else if ch = Pad64 then (Some (True, src, state, tarindex), m)
      else case b64_index ch of
             None \<Rightarrow> (None, m)
           | Some v \<Rightarrow>
               (case pton_step target targsize state tarindex v m of
                  None \<Rightarrow> (None, m)
                | Some (state', tarindex', m') \<Rightarrow> pton_loop target targsize src state' tarindex' m'))"

definition pton_after_pad :: "addr \<Rightarrow> byte list \<Rightarrow> nat \<Rightarrow> u32 \<Rightarrow> memory \<Rightarrow> int" where
  "pton_after_pad target src state tarindex m =
     (if state = 0 \<or> state = 1 then - 1
      else
        case (if state = 2
              then (case dropWhile isspace src of
                      ch # src \<Rightarrow> if ch = Pad64 then Some src else None
                    | [] \<Rightarrow> None)
              else Some src) of
          None \<Rightarrow> - 1
        | Some src \<Rightarrow>
            if \<not> list_all isspace src then - 1
            else if target \<noteq> 0 \<and> m (target + uint tarindex) \<noteq> 0 then - 1
            else sint tarindex)"

definition pton_finish ::
    "addr \<Rightarrow> (bool \<times> byte list \<times> nat \<times> u32) option \<times> memory \<Rightarrow> int \<times> memory" where
  "pton_finish target r =
     (case r of
        (None, m) \<Rightarrow> (- 1, m)
      | (Some (True, rest, state, tarindex), m) \<Rightarrow> (pton_after_pad target rest state tarindex m, m)
      | (Some (False, rest, state, tarindex), m) \<Rightarrow> (if state \<noteq> 0 then - 1 else sint tarindex, m))"

definition f_b64_pton :: "byte list \<Rightarrow> addr \<Rightarrow> u64 \<Rightarrow> memory \<Rightarrow> int \<times> memory" where
  "f_b64_pton src target targsize m =
     pton_finish target (pton_loop target targsize (takeWhile (\<lambda>c. c \<noteq> 0) src) 0 0 m)"

end
