(* ===== verification/FBase64_Spec.thy ===== *)
theory FBase64_Spec
  imports FBase64
begin

text \<open>
  The RFC 1521 encoding as a function on byte lists, stated with the 24-bit groups of the comment in
  \<^verbatim>\<open>fbase64.c\<close>, and the lemmas that relate both loops of the file to it: the encoder stores the
  encoding, the decoder keeps an invariant between the characters read and the bytes stored.
\<close>

section \<open>Bit fields of a group\<close>

lemmas b64_bits = bit_or_iff bit_and_iff bit_push_bit_iff bit_drop_bit_eq

lemma out1_or: "out1 a b = push_bit 4 (a AND 0x03) OR drop_bit 4 b"
  unfolding out1_def
  by (rule disjunctive_add) (auto simp: b64_bits dest: bit_imp_le_length)

lemma out2_or: "out2 b c = push_bit 2 (b AND 0x0f) OR drop_bit 6 c"
  unfolding out2_def
  by (rule disjunctive_add) (auto simp: b64_bits dest: bit_imp_le_length)

lemma dec0: "push_bit 2 (out0 a) OR drop_bit 4 (out1 a b) = a"
  unfolding out1_or out0_def
  by (rule byte_eqI) (auto simp: b64_bits numeral_2_eq_2[symmetric] numeral_3_eq_3[symmetric] simp del: One_nat_def dest: bit_imp_le_length, simp_all)

lemma dec1: "push_bit 4 (out1 a b AND 0x0f) OR drop_bit 2 (out2 b c) = b"
  unfolding out1_or out2_or
  by (rule byte_eqI) (auto simp: b64_bits dest: bit_imp_le_length)

lemma dec2: "push_bit 6 (out2 b c AND 0x03) OR out3 c = c"
  unfolding out3_def out2_or
  by (rule byte_eqI) (auto simp: b64_bits dest: bit_imp_le_length)

section \<open>The 24-bit groups of RFC 1521\<close>

definition quantum :: "byte \<Rightarrow> byte \<Rightarrow> byte \<Rightarrow> nat" where
  "quantum a b c = unat a * 65536 + unat b * 256 + unat c"

definition digit64 :: "nat \<Rightarrow> nat \<Rightarrow> byte" where
  "digit64 q i = Base64 ! (q div 64 ^ i mod 64)"

fun b64_encode :: "byte list \<Rightarrow> byte list" where
  "b64_encode [] = []"
| "b64_encode [a] = [digit64 (quantum a 0 0) 3, digit64 (quantum a 0 0) 2, Pad64, Pad64]"
| "b64_encode [a, b] =
     [digit64 (quantum a b 0) 3, digit64 (quantum a b 0) 2, digit64 (quantum a b 0) 1, Pad64]"
| "b64_encode (a # b # c # src) =
     [digit64 (quantum a b c) 3, digit64 (quantum a b c) 2, digit64 (quantum a b c) 1,
      digit64 (quantum a b c) 0] @ b64_encode src"

lemma unat_out0: "unat (out0 a) = unat a div 4"
  by (simp add: out0_def unat_drop_bit)

lemma unat_mask2: "unat (a AND 0x03 :: byte) = unat a mod 4"
proof -
  have "a AND 0x03 = take_bit 2 a" by (simp add: take_bit_eq_mask mask_eq_decr_exp)
  then show ?thesis by (simp add: take_bit_eq_mod unat_mod)
qed

lemma unat_mask4: "unat (a AND 0x0f :: byte) = unat a mod 16"
proof -
  have "a AND 0x0f = take_bit 4 a" by (simp add: take_bit_eq_mask mask_eq_decr_exp)
  then show ?thesis by (simp add: take_bit_eq_mod unat_mod)
qed

lemma unat_mask6: "unat (a AND 0x3f :: byte) = unat a mod 64"
proof -
  have "a AND 0x3f = take_bit 6 a" by (simp add: take_bit_eq_mask mask_eq_decr_exp)
  then show ?thesis by (simp add: take_bit_eq_mod unat_mod)
qed

lemma unat_byte_less: "unat (a :: byte) < 256"
  using unat_lt2p [of a] by simp

lemma unat_out1: "unat (out1 a b) = unat a mod 4 * 16 + unat b div 16"
proof -
  have "unat (push_bit 4 (a AND 0x03)) = unat a mod 4 * 16"
    by (simp add: push_bit_eq_mult unat_word_ariths unat_mask2 mult.commute)
  then show ?thesis using unat_byte_less [of b]
    by (simp add: out1_def unat_word_ariths unat_drop_bit)
qed

lemma unat_out2: "unat (out2 b c) = unat b mod 16 * 4 + unat c div 64"
proof -
  have "unat (push_bit 2 (b AND 0x0f)) = unat b mod 16 * 4"
    by (simp add: push_bit_eq_mult unat_word_ariths unat_mask4 mult.commute)
  then show ?thesis using unat_byte_less [of c]
    by (simp add: out2_def unat_word_ariths unat_drop_bit)
qed

lemma quantum_digits:
  fixes x y z :: nat
  assumes "x < 256" "y < 256" "z < 256"
  shows "(x * 65536 + y * 256 + z) div 262144 mod 64 = x div 4"
    and "(x * 65536 + y * 256 + z) div 4096 mod 64 = x mod 4 * 16 + y div 16"
    and "(x * 65536 + y * 256 + z) div 64 mod 64 = y mod 16 * 4 + z div 64"
    and "(x * 65536 + y * 256 + z) mod 64 = z mod 64"
proof -
  have "(x * 65536 + y * 256 + z) div 262144 = x div 4" using assms by linarith
  then show "(x * 65536 + y * 256 + z) div 262144 mod 64 = x div 4" using assms by simp
  have "(x * 65536 + y * 256 + z) div 4096 = x * 16 + y div 16" using assms by linarith
  moreover have "(x * 16 + w) mod 64 = x mod 4 * 16 + w" if "w < 16" for w :: nat
    using that mod_mult2_eq [of "x * 16 + w" 16 4] by simp
  moreover have "y div 16 < 16" using assms by linarith
  ultimately show "(x * 65536 + y * 256 + z) div 4096 mod 64 = x mod 4 * 16 + y div 16" by simp
  have "(x * 65536 + y * 256 + z) div 64 = x * 1024 + y * 4 + z div 64" using assms by linarith
  moreover have "(x * 1024 + y * 4 + w) mod 64 = y mod 16 * 4 + w" if "w < 4" for w :: nat
  proof -
    have "(x * 1024 + y * 4 + w) mod 64 = 4 * ((x * 1024 + y * 4 + w) div 4 mod 16) + (x * 1024 + y * 4 + w) mod 4"
      using mod_mult2_eq [of "x * 1024 + y * 4 + w" 4 16] by simp
    moreover have "(x * 1024 + y * 4 + w) div 4 = y + 16 * (16 * x)" using that by linarith
    moreover have "(w + 4 * (256 * x + y)) mod 4 = w" using that by (subst mod_mult_self2) simp
    moreover have "(y + 16 * (16 * x)) mod 16 = y mod 16" by (rule mod_mult_self2)
    ultimately show ?thesis by (simp add: algebra_simps)
  qed
  moreover have "z div 64 < 4" using assms by linarith
  ultimately show "(x * 65536 + y * 256 + z) div 64 mod 64 = y mod 16 * 4 + z div 64" by simp
  have "(z + 64 * (x * 1024 + y * 4)) mod 64 = z mod 64" by (rule mod_mult_self2)
  then show "(x * 65536 + y * 256 + z) mod 64 = z mod 64" by (simp add: algebra_simps)
qed

lemmas quantum_bytes = quantum_digits [OF unat_byte_less unat_byte_less unat_byte_less]

lemma digit_group:
  "digit64 (quantum a b c) 3 = b64_char (out0 a)"
  "digit64 (quantum a b c) 2 = b64_char (out1 a b)"
  "digit64 (quantum a b c) 1 = b64_char (out2 b c)"
  "digit64 (quantum a b c) 0 = b64_char (out3 c)"
proof -
  have pows: "(64::nat) ^ 3 = 262144" "(64::nat) ^ 2 = 4096" by simp_all
  show "digit64 (quantum a b c) 3 = b64_char (out0 a)"
    unfolding digit64_def quantum_def b64_char_def unat_out0 pows quantum_bytes by (rule refl)
  show "digit64 (quantum a b c) 2 = b64_char (out1 a b)"
    unfolding digit64_def quantum_def b64_char_def unat_out1 pows quantum_bytes by (rule refl)
  show "digit64 (quantum a b c) 1 = b64_char (out2 b c)"
    unfolding digit64_def quantum_def b64_char_def unat_out2 power_one_right quantum_bytes by (rule refl)
  show "digit64 (quantum a b c) 0 = b64_char (out3 c)"
    unfolding digit64_def quantum_def b64_char_def out3_def unat_mask6 power_0 div_by_1 quantum_bytes by (rule refl)
qed

section \<open>Encoding\<close>

lemma b64_encode_Cons3 [simp]:
  "b64_encode (a # b # c # src) =
     [b64_char (out0 a), b64_char (out1 a b), b64_char (out2 b c), b64_char (out3 c)] @ b64_encode src"
  by (simp only: b64_encode.simps digit_group)

lemma b64_encode_1 [simp]:
  "b64_encode [a] = [b64_char (out0 a), b64_char (out1 a 0), Pad64, Pad64]"
  by (simp only: b64_encode.simps digit_group)

lemma b64_encode_2 [simp]:
  "b64_encode [a, b] = [b64_char (out0 a), b64_char (out1 a b), b64_char (out2 b 0), Pad64]"
  by (simp only: b64_encode.simps digit_group)

declare b64_encode.simps(2-4) [simp del]

lemma length_b64_encode: "length (b64_encode src) = 4 * ((length src + 2) div 3)"
  by (induction src rule: b64_encode.induct) (simp_all, presburger)

text \<open>The check before a group never wraps: the buffer ends at least four bytes below \<open>2\<^sup>64\<close>.\<close>

lemma room_iff:
  fixes d n :: u64
  assumes "unat d \<le> unat n" "unat n + 4 < 2 ^ 64"
  shows "d + 4 > n \<longleftrightarrow> unat n < unat d + 4" "unat (d + 4) = unat d + 4"
proof -
  show "unat (d + 4) = unat d + 4"
    using assms by (simp add: unat_word_ariths)
  then show "d + 4 > n \<longleftrightarrow> unat n < unat d + 4" by (simp add: word_less_nat_alt)
qed

lemma ntop_finish_ok:
  "unat d < unat n \<Longrightarrow>
   ntop_finish t n d m = (sint (ucast d :: u32), store_bytes m (t + uint d) [0])"
  by (auto simp: ntop_finish_def word_le_nat_alt store_bytes_def fun_eq_iff)

lemma store_then:
  fixes d :: u64
  assumes "unat (d + 4) = unat d + 4" "length xs = 4"
  shows "store_bytes (store_bytes m (t + uint d) xs) (t + uint (d + 4)) ys
         = store_bytes m (t + uint d) (xs @ ys)"
proof -
  have "t + uint (d + 4 :: u64) = t + uint d + int (length xs)"
    using assms by (simp only: uint_nat of_nat_add of_nat_numeral add.assoc)
  then show ?thesis by (simp only: store_bytes_append)
qed

lemma ntop_ok:
  assumes "unat d + length (b64_encode src) < unat n" "unat n + 4 < 2 ^ 64"
  shows "ntop_pad t n (ntop_loop t n src d m)
         = (sint (ucast (d + word_of_nat (length (b64_encode src))) :: u32),
            store_bytes m (t + uint d) (b64_encode src @ [0]))"
  using assms
proof (induction src arbitrary: d m rule: b64_encode.induct)
  case 1
  then show ?case by (simp add: ntop_pad_def ntop_finish_ok)
next
  case (2 a)
  note r = room_iff [of d n]
  from 2 have "unat d \<le> unat n" "\<not> unat n < unat d + 4" "unat (d + 4) < unat n"
    using r(2) by auto
  with 2 r show ?case
    by (simp add: ntop_pad_def ntop_finish_ok store_then)
next
  case (3 a b)
  note r = room_iff [of d n]
  from 3 have "unat d \<le> unat n" "\<not> unat n < unat d + 4" "unat (d + 4) < unat n"
    using r(2) by auto
  with 3 r show ?case
    by (simp add: ntop_pad_def ntop_finish_ok store_then)
next
  case (4 a b c src)
  note r = room_iff [of d n]
  from 4(2,3) have d: "unat d \<le> unat n" "\<not> unat n < unat d + 4" by auto
  with 4(3) r have "unat (d + 4) = unat d + 4" by simp
  with 4 d r show ?case
    by (simp add: store_then add.assoc)
qed

lemma ntop_short:
  assumes "unat d \<le> unat n" "unat n \<le> unat d + length (b64_encode src)" "unat n + 4 < 2 ^ 64"
  shows "fst (ntop_pad t n (ntop_loop t n src d m)) = - 1"
  using assms
proof (induction src arbitrary: d m rule: b64_encode.induct)
  case 1
  then show ?case by (simp add: ntop_pad_def ntop_finish_def word_le_nat_alt)
next
  case (2 a)
  with room_iff [of d n] show ?case
    by (auto simp: ntop_pad_def ntop_finish_def word_le_nat_alt)
next
  case (3 a b)
  with room_iff [of d n] show ?case
    by (auto simp: ntop_pad_def ntop_finish_def word_le_nat_alt)
next
  case (4 a b c src)
  then show ?case
    using room_iff [of d n] by (auto simp: ntop_pad_def)
qed

lemma store_outside4:
  fixes n :: u64
  assumes "x < t \<or> t + uint n \<le> x" "\<not> unat n < unat d + 4" "length bs = 4"
  shows "store_bytes m (t + uint (d :: u64)) bs x = m x"
proof -
  have "uint d + 4 \<le> uint (n :: u64)" "0 \<le> uint d"
    using assms(2) unfolding uint_nat by linarith+
  with assms(1,3) have "x < t + uint d \<or> t + uint d + int (length bs) \<le> x" by linarith
  then show ?thesis by (rule store_bytes_outside)
qed

lemma ntop_frame:
  assumes "unat d \<le> unat n" "unat n + 4 < 2 ^ 64" "x < t \<or> t + uint n \<le> x"
  shows "snd (ntop_pad t n (ntop_loop t n src d m)) x = m x"
proof -
  have fin: "snd (ntop_finish t n d m) x = m x" for d m
    using assms(3) uint_ge_0 [of d] by (auto simp: ntop_finish_def word_le_def not_le)
  show ?thesis
    using assms
  proof (induction src arbitrary: d m rule: b64_encode.induct)
    case 1
    then show ?case by (simp add: ntop_pad_def fin)
  next
    case (2 a)
    with room_iff [of d n] show ?case by (auto simp: ntop_pad_def fin store_outside4)
  next
    case (3 a b)
    with room_iff [of d n] show ?case by (auto simp: ntop_pad_def fin store_outside4)
  next
    case (4 a b c src)
    with room_iff [of d n] show ?case by (auto simp: ntop_pad_def store_outside4)
  qed
qed

lemma sint_word_of_nat:
  assumes "k < 2 ^ 31"
  shows "sint (word_of_nat k :: u32) = int k"
proof -
  have "signed_take_bit 31 (int k) = int k"
    using assms by (intro signed_take_bit_int_eq_self) auto
  then show ?thesis by (simp add: signed_of_nat)
qed

lemma sint_ucast_nat:
  assumes "k < 2 ^ 31"
  shows "sint (ucast (word_of_nat k :: u64) :: u32) = int k"
proof -
  have "take_bit 64 k = k" using assms by (simp add: take_bit_nat_eq_self)
  then show ?thesis using sint_word_of_nat [OF assms] by (simp add: unsigned_of_nat)
qed

lemma ntop_encodes:
  assumes "length (b64_encode src) < unat n" "length (b64_encode src) < 2 ^ 31" "unat n + 4 < 2 ^ 64"
  shows "f_b64_ntop src t n m = (int (length (b64_encode src)), store_bytes m t (b64_encode src @ [0]))"
proof -
  have "sint (ucast (word_of_nat (length (b64_encode src)) :: u64) :: u32) = int (length (b64_encode src))"
    using assms(2) by (intro sint_ucast_nat)
  then show ?thesis using ntop_ok [of 0 src n t m] assms(1,3) by (simp add: f_b64_ntop_def)
qed

section \<open>Decoding: digits and bytes\<close>

lemma index_from_Some:
  "index_from i cs ch = Some v \<Longrightarrow> \<exists>k < length cs. v = i + word_of_nat k \<and> cs ! k = ch"
proof (induction cs arbitrary: i)
  case Nil
  then show ?case by simp
next
  case (Cons c cs)
  show ?case
  proof (cases "c = ch")
    case True
    with Cons show ?thesis by auto
  next
    case False
    with Cons obtain k where "k < length cs" "v = i + 1 + word_of_nat k" "cs ! k = ch" by auto
    then show ?thesis by (intro exI [of _ "Suc k"]) simp
  qed
qed

lemma length_Base64 [simp]: "length Base64 = 64"
  by (simp add: Base64_def)

lemma index_from_nth:
  "distinct cs \<Longrightarrow> k < length cs \<Longrightarrow> index_from i cs (cs ! k) = Some (i + word_of_nat k)"
proof (induction cs arbitrary: i k)
  case Nil
  then show ?case by simp
next
  case (Cons c cs)
  then show ?case by (cases k) (auto simp: nth_mem)
qed

lemma Base64_bytes:
  "Base64 = [65, 66, 67, 68, 69, 70, 71, 72, 73, 74, 75, 76, 77, 78, 79, 80,
    81, 82, 83, 84, 85, 86, 87, 88, 89, 90, 97, 98, 99, 100, 101, 102,
    103, 104, 105, 106, 107, 108, 109, 110, 111, 112, 113, 114, 115, 116, 117, 118,
    119, 120, 121, 122, 48, 49, 50, 51, 52, 53, 54, 55, 56, 57, 43, 47]"
  by (simp add: Base64_def)

lemma distinct_Base64: "distinct Base64"
  unfolding Base64_bytes by simp

lemma Base64_plain: "list_all (\<lambda>c. \<not> isspace c \<and> c \<noteq> Pad64 \<and> c \<noteq> 0) Base64"
  unfolding Base64_bytes by (simp add: isspace_def Pad64_def)

lemma b64_char_digit:
  assumes "unat v < 64"
  shows "b64_index (b64_char v) = Some v" "\<not> isspace (b64_char v)" "b64_char v \<noteq> Pad64" "b64_char v \<noteq> 0"
proof -
  show "b64_index (b64_char v) = Some v"
    using index_from_nth [OF distinct_Base64, of "unat v" 0] assms
    by (simp add: b64_index_def b64_char_def)
  have "Base64 ! unat v \<in> set Base64" using assms by simp
  with Base64_plain show "\<not> isspace (b64_char v)" "b64_char v \<noteq> Pad64" "b64_char v \<noteq> 0"
    by (auto simp: list_all_iff b64_char_def)
qed

lemma b64_index_Some:
  assumes "b64_index ch = Some v"
  shows "unat v < 64" "b64_char v = ch"
proof -
  from assms obtain k where k: "k < 64" "v = word_of_nat k" "Base64 ! k = ch"
    using index_from_Some [of 0 Base64 ch v] by (auto simp: b64_index_def)
  then have "unat v = k" by (simp add: unat_of_nat)
  with k show "unat v < 64" "b64_char v = ch" by (auto simp: b64_char_def)
qed

lemma small_bits: "unat (v :: byte) < 64 \<Longrightarrow> \<not> bit v 6 \<and> \<not> bit v 7"
proof -
  assume "unat v < 64"
  then have "take_bit 6 v = v"
    by (intro unat_eqI) (simp add: unsigned_take_bit_eq take_bit_nat_eq_self)
  then have "bit v n \<longleftrightarrow> n < 6 \<and> bit v n" for n by (metis bit_take_bit_iff)
  from this [of 6] this [of 7] show ?thesis by simp
qed

lemma no_bit_8: "8 \<le> n \<Longrightarrow> \<not> bit (v :: byte) n"
  by (auto dest: bit_imp_le_length)

text \<open>The bytes held in the target for the first digits of a group.\<close>

fun part :: "byte list \<Rightarrow> byte list" where
  "part [] = []"
| "part [v0] = [push_bit 2 v0]"
| "part [v0, v1] = [push_bit 2 v0 OR drop_bit 4 v1, push_bit 4 (v1 AND 0x0f)]"
| "part (v0 # v1 # v2 # vs) =
     [push_bit 2 v0 OR drop_bit 4 v1, push_bit 4 (v1 AND 0x0f) OR drop_bit 2 v2, push_bit 6 (v2 AND 0x03)]"

lemma enc_part:
  assumes "unat v0 < 64" "unat v1 < 64" "unat v2 < 64" "unat v3 < 64"
  shows "out0 (push_bit 2 v0 OR drop_bit 4 v1) = v0"
    and "out1 (push_bit 2 v0 OR drop_bit 4 v1) (push_bit 4 (v1 AND 0x0f) OR drop_bit 2 v2) = v1"
    and "out2 (push_bit 4 (v1 AND 0x0f) OR drop_bit 2 v2) (push_bit 6 (v2 AND 0x03) OR v3) = v2"
    and "out3 (push_bit 6 (v2 AND 0x03) OR v3) = v3"
  subgoal using assms [THEN small_bits] unfolding out0_def
    by (intro byte_eqI, elim insertE emptyE; simp add: b64_bits no_bit_8)
  subgoal using assms [THEN small_bits] unfolding out1_or
    by (intro byte_eqI, elim insertE emptyE; simp add: b64_bits no_bit_8)
  subgoal using assms [THEN small_bits] unfolding out2_or
    by (intro byte_eqI, elim insertE emptyE; simp add: b64_bits no_bit_8)
  subgoal using assms [THEN small_bits] unfolding out3_def
    by (intro byte_eqI, elim insertE emptyE; simp add: b64_bits no_bit_8)
  done


section \<open>Decoding: what the loop has stored\<close>

abbreviation nospace :: "byte list \<Rightarrow> byte list" where
  "nospace \<equiv> filter (\<lambda>c. \<not> isspace c)"

definition pton_inv :: "addr \<Rightarrow> byte list \<Rightarrow> byte list \<Rightarrow> u32 \<Rightarrow> memory \<Rightarrow> bool" where
  "pton_inv t done vs ti m \<longleftrightarrow>
     length done mod 3 = 0 \<and> length vs < 4 \<and> (\<forall>v \<in> set vs. unat v < 64)
     \<and> unat ti = length done + (length vs - 1)
     \<and> load_bytes m t (length done + length (part vs)) = done @ part vs"

lemma load_snoc: "load_bytes m p (Suc k) = load_bytes m p k @ [m (p + int k)]"
  using load_bytes_add [of m p k 1] by (simp add: load_bytes_Suc)

lemma load_upd_after: "p + int k \<le> q \<Longrightarrow> load_bytes (m(q := x)) p k = load_bytes m p k"
  by (rule load_bytes_cong) auto

lemma length_part: "length vs < 4 \<Longrightarrow> length (part vs) = length vs"
  by (cases vs rule: part.cases) auto

lemma b64_encode_append:
  "length xs mod 3 = 0 \<Longrightarrow> b64_encode (xs @ ys) = b64_encode xs @ b64_encode ys"
  by (induction xs rule: b64_encode.induct) auto

lemma len_cases4:
  fixes vs :: "byte list"
  assumes "length vs < 4"
  obtains "vs = []" | v0 where "vs = [v0]" | v0 v1 where "vs = [v0, v1]"
    | v0 v1 v2 where "vs = [v0, v1, v2]"
proof (cases vs rule: part.cases)
  case (4 v0 v1 v2 ws)
  with assms that(4) show ?thesis by simp
qed (use that in auto)

lemma pton_step_inv:
  assumes inv: "pton_inv t done vs ti m" and v: "unat v < 64" and t: "t \<noteq> 0"
    and small: "length done + 4 < 2 ^ 32"
    and step: "pton_step t n (length vs) ti v m = Some (st, ti', m')"
  shows "\<exists>done' vs'. pton_inv t done' vs' ti' m' \<and> st = length vs'
     \<and> length done' + length vs' \<le> Suc (length done + length vs)
     \<and> b64_encode done' @ map b64_char vs' = b64_encode done @ map b64_char (vs @ [v])"
proof -
  have vs: "length vs < 4" "\<forall>v \<in> set vs. unat v < 64" and d3: "length done mod 3 = 0"
    and ti: "unat ti = length done + (length vs - 1)"
    and ld: "load_bytes m t (length done + length (part vs)) = done @ part vs"
    using inv by (auto simp: pton_inv_def)
  have here: "uint ti = int (length done + (length vs - 1))" using ti by (simp add: uint_nat)
  have next_n: "unat (ti + 1) = Suc (unat ti)" if "length vs < 4"
    using small ti that by (simp add: unat_word_ariths)
  then have nxt: "uint (ti + 1) = int (Suc (length done + (length vs - 1)))"
    using vs(1) ti by (simp only: uint_nat)
  from vs(1) show ?thesis
  proof (cases rule: len_cases4)
    case 1
    then have "m' = m(t + int (length done) := push_bit 2 v)" "st = 1" "ti' = ti"
      using step t here by (auto simp: pton_step_def split: if_splits)
    with 1 v d3 ti ld show ?thesis
      by (intro exI [of _ "done"] exI [of _ "[v]"]) (simp add: pton_inv_def load_snoc load_upd_after)
  next
    case (2 v0)
    have "load_bytes m t (length done) = done" "m (t + int (length done)) = push_bit 2 v0"
      using ld 2 by (simp_all add: load_snoc)
    with 2 v vs d3 ti ld step t here nxt next_n show ?thesis
      by (intro exI [of _ "done"] exI [of _ "[v0, v]"])
         (auto simp: pton_inv_def load_snoc load_upd_after pton_step_def Let_def simp del: push_bit_and split: if_splits)
  next
    case (3 v0 v1)
    have "load_bytes m t (length done) = done"
        "m (t + int (length done)) = push_bit 2 v0 OR drop_bit 4 v1"
        "m (t + int (Suc (length done))) = push_bit 4 (v1 AND 0x0f)"
      using ld 3 by (simp_all add: load_snoc)
    with 3 v vs d3 ti ld step t here nxt next_n show ?thesis
      by (intro exI [of _ "done"] exI [of _ "[v0, v1, v]"])
         (auto simp: pton_inv_def load_snoc load_upd_after pton_step_def Let_def simp del: push_bit_and split: if_splits)
  next
    case (4 v0 v1 v2)
    let ?bs = "[push_bit 2 v0 OR drop_bit 4 v1, push_bit 4 (v1 AND 0x0f) OR drop_bit 2 v2,
                push_bit 6 (v2 AND 0x03) OR v]"
    have mem: "load_bytes m t (length done) = done"
        "m (t + int (length done)) = push_bit 2 v0 OR drop_bit 4 v1"
        "m (t + int (Suc (length done))) = push_bit 4 (v1 AND 0x0f) OR drop_bit 2 v2"
        "m (t + int (Suc (Suc (length done)))) = push_bit 6 (v2 AND 0x03)"
      using ld 4 by (simp_all add: load_snoc)
    have "b64_encode (done @ ?bs) = b64_encode done @ map b64_char [v0, v1, v2, v]"
      using vs 4 v d3 by (simp add: b64_encode_append enc_part del: push_bit_and)
    with 4 v vs d3 ti step t here nxt next_n mem show ?thesis
      by (intro exI [of _ "done @ ?bs"] exI [of _ "[]"])
         (auto simp: pton_inv_def load_snoc load_upd_after pton_step_def Let_def simp del: push_bit_and split: if_splits)
  qed
qed


lemma pton_loop_inv:
  assumes "pton_inv t done vs ti m" "t \<noteq> 0" "length done + length vs + length src < 2 ^ 31"
    and "pton_loop t n src (length vs) ti m = (Some (pad, rest, st, ti'), m')"
  shows "\<exists>done' vs'. pton_inv t done' vs' ti' m' \<and> st = length vs'
     \<and> length done' + length vs' \<le> length done + length vs + length src
     \<and> b64_encode done' @ map b64_char vs' @ (if pad then Pad64 # nospace rest else [])
         = b64_encode done @ map b64_char vs @ nospace src"
  using assms
proof (induction src arbitrary: "done" vs ti m)
  case Nil
  then show ?case by fastforce
next
  case (Cons ch src)
  show ?case
  proof (cases "isspace ch \<or> ch = Pad64")
    case True
    moreover have "\<not> isspace Pad64" by (simp add: isspace_def Pad64_def)
    ultimately show ?thesis
    proof (cases "isspace ch")
      case True
      with Cons.prems Cons.IH [of "done" vs ti m] show ?thesis by fastforce
    next
      case False
      with True Cons.prems have "ch = Pad64" "pad" "rest = src" "st = length vs" "ti' = ti" "m' = m"
        using \<open>isspace ch \<or> ch = Pad64\<close> by auto
      with Cons.prems(1) False show ?thesis
        by (intro exI [of _ "done"] exI [of _ vs]) simp
    qed
  next
    case False
    with Cons.prems(4) obtain v st1 ti1 m1 where v: "b64_index ch = Some v"
      and step: "pton_step t n (length vs) ti v m = Some (st1, ti1, m1)"
      and loop: "pton_loop t n src st1 ti1 m1 = (Some (pad, rest, st, ti'), m')"
      by (auto split: option.splits)
    note d = b64_index_Some [OF v]
    have "length done + 4 < 2 ^ 32" using Cons.prems(3) by simp
    from pton_step_inv [OF Cons.prems(1) d(1) Cons.prems(2) this step]
    obtain done1 vs1 where 1: "pton_inv t done1 vs1 ti1 m1" "st1 = length vs1"
      "length done1 + length vs1 \<le> Suc (length done + length vs)"
      "b64_encode done1 @ map b64_char vs1 = b64_encode done @ map b64_char (vs @ [v])" by blast
    have "length done1 + length vs1 + length src < 2 ^ 31" using 1(3) Cons.prems(3) by simp
    from Cons.IH [OF 1(1) Cons.prems(2) this] loop 1(2)
    obtain done2 vs2 where 2: "pton_inv t done2 vs2 ti' m'" "st = length vs2"
      "length done2 + length vs2 \<le> length done1 + length vs1 + length src"
      "b64_encode done2 @ map b64_char vs2 @ (if pad then Pad64 # nospace rest else [])
         = b64_encode done1 @ map b64_char vs1 @ nospace src" by blast
    have "b64_encode done1 @ map b64_char vs1 @ nospace src
        = b64_encode done @ map b64_char vs @ nospace (ch # src)"
      using 1(4) d(2) False by (metis append.assoc append_Cons append_Nil filter.simps(2) list.simps(8) list.simps(9) map_append)
    with 2 1(3) show ?thesis by (intro exI [of _ done2] exI [of _ vs2]) auto
  qed
qed

lemma nospace_dropWhile: "nospace (dropWhile isspace xs) = nospace xs"
  by (induction xs) auto

lemma nospace_all: "list_all isspace xs \<Longrightarrow> nospace xs = []"
  by (induction xs) auto

text \<open>What a successful call has found behind the first pad character.\<close>

lemma pton_after_pad_ok:
  assumes ok: "pton_after_pad t src (length vs) ti m = k" "k \<noteq> - 1" and t: "t \<noteq> 0"
    and inv: "pton_inv t done vs ti m" and small: "length done + length vs < 2 ^ 31"
  shows "k = sint ti
    \<and> b64_encode done @ map b64_char vs @ Pad64 # nospace src = b64_encode (load_bytes m t (unat ti))"
proof -
  have vs: "length vs < 4" "\<forall>v \<in> set vs. unat v < 64" and d3: "length done mod 3 = 0"
    and ti: "unat ti = length done + (length vs - 1)"
    and ld: "load_bytes m t (length done + length (part vs)) = done @ part vs"
    using inv by (auto simp: pton_inv_def)
  have here: "uint ti = int (length done + (length vs - 1))" using ti by (simp add: uint_nat)
  have np: "\<not> isspace Pad64" by (simp add: isspace_def Pad64_def)
  from vs(1) show ?thesis
  proof (cases rule: len_cases4)
    case 1
    with ok show ?thesis by (simp add: pton_after_pad_def)
  next
    case (2 v0)
    with ok show ?thesis by (simp add: pton_after_pad_def)
  next
    case (3 v0 v1)
    with ok t obtain src' where src: "dropWhile isspace src = Pad64 # src'" "list_all isspace src'"
      and k: "k = sint ti" and z: "m (t + uint ti) = 0"
      by (auto simp: pton_after_pad_def split: list.splits if_splits)
    have "nospace src = [Pad64]"
      using nospace_dropWhile [of src] np by (simp add: src nospace_all)
    moreover have "load_bytes m t (unat ti) = done @ [push_bit 2 v0 OR drop_bit 4 v1]"
      using ld ti 3 by (simp add: load_snoc)
    moreover have "push_bit 4 (v1 AND 0x0f) = (0 :: byte)"
      using ld ti 3 z here by (simp add: load_snoc del: push_bit_and)
    ultimately show ?thesis
      using k 3 vs d3 enc_part(1) [of v0 v1 0 0] enc_part(2) [of v0 v1 0 0]
      by (simp add: b64_encode_append del: push_bit_and)
  next
    case (4 v0 v1 v2)
    with ok t have src: "list_all isspace src" and k: "k = sint ti" and z: "m (t + uint ti) = 0"
      by (auto simp: pton_after_pad_def split: if_splits)
    moreover have "load_bytes m t (unat ti)
        = done @ [push_bit 2 v0 OR drop_bit 4 v1, push_bit 4 (v1 AND 0x0f) OR drop_bit 2 v2]"
      using ld ti 4 by (simp add: load_snoc del: push_bit_and)
    moreover have "push_bit 6 (v2 AND 0x03) = (0 :: byte)"
      using ld ti 4 z here by (simp add: load_snoc del: push_bit_and)
    ultimately show ?thesis
      using k 4 vs d3 nospace_all [OF src] enc_part(1) [of v0 v1 v2 0] enc_part(2) [of v0 v1 v2 0] enc_part(3) [of v0 v1 v2 0]
      by (simp add: b64_encode_append del: push_bit_and)
  qed
qed


lemma sint_small: "unat (w :: u32) < 2 ^ 31 \<Longrightarrow> sint w = int (unat w)"
  using sint_word_of_nat [of "unat w"] by simp

lemma pton_inv_init: "pton_inv t [] [] 0 m"
  by (simp add: pton_inv_def)

lemma pton_canonical:
  assumes call: "f_b64_pton s t n m = (k, m')" and ok: "k \<noteq> - 1" and t: "t \<noteq> 0"
    and len: "length s < 2 ^ 31"
  shows "0 \<le> k \<and> nospace (takeWhile (\<lambda>c. c \<noteq> 0) s) = b64_encode (load_bytes m' t (nat k))"
proof -
  let ?s = "takeWhile (\<lambda>c. c \<noteq> 0) s"
  obtain r m1 where loop: "pton_loop t n ?s 0 0 m = (r, m1)" by fastforce
  with call ok obtain pad rest st ti where r: "r = Some (pad, rest, st, ti)"
    by (cases r) (auto simp: f_b64_pton_def pton_finish_def)
  have "length ?s < 2 ^ 31" using len length_takeWhile_le [of "\<lambda>c. c \<noteq> 0" s] by linarith
  with pton_loop_inv [OF pton_inv_init t, where src = ?s and n = n and m = m] loop r
  obtain don vs where 1: "pton_inv t don vs ti m1" "st = length vs" "length don + length vs < 2 ^ 31"
    "b64_encode don @ map b64_char vs @ (if pad then Pad64 # nospace rest else []) = nospace ?s" by auto
  have "unat ti < 2 ^ 31" using 1(1,3) by (auto simp: pton_inv_def)
  note s = sint_small [OF this]
  show ?thesis
  proof (cases pad)
    case True
    with call loop r 1(2) have "pton_after_pad t rest (length vs) ti m1 = k" "m' = m1"
      by (auto simp: f_b64_pton_def pton_finish_def)
    with pton_after_pad_ok [OF this(1) ok t 1(1) 1(3)] 1(4) True s show ?thesis by simp
  next
    case False
    with call loop r 1(2) ok have "k = sint ti" "vs = []" "m' = m1"
      by (auto simp: f_b64_pton_def pton_finish_def split: if_splits)
    with 1(1,4) False s show ?thesis by (auto simp: pton_inv_def)
  qed
qed

section \<open>Decoding what was encoded\<close>

lemma char_step:
  "unat v < 64 \<Longrightarrow> pton_loop t n (b64_char v # src) state ti m =
     (case pton_step t n state ti v m of
        None \<Rightarrow> (None, m)
      | Some (state', ti', m') \<Rightarrow> pton_loop t n src state' ti' m')"
  by (simp add: b64_char_digit)

lemma out_small: "unat (out0 a) < 64" "unat (out1 a b) < 64" "unat (out2 b c) < 64" "unat (out3 c) < 64"
  using unat_byte_less [of a] unat_byte_less [of b] unat_byte_less [of c]
  by (auto simp: unat_out0 unat_out1 unat_out2 out3_def unat_mask6)

lemma pad_step: "pton_loop t n (Pad64 # src) state ti m = (Some (True, src, state, ti), m)"
  by (simp add: isspace_def Pad64_def)

lemma unat_ucast_32_64: "unat (ucast (w :: u32) :: u64) = unat w"
  using unat_lt2p [of w] by (simp add: unsigned_ucast_eq take_bit_nat_eq_self)

lemma index_arith:
  fixes ti :: u32
  assumes "unat ti + j < 2 ^ 32"
  shows "unat (ti + word_of_nat j) = unat ti + j"
    and "unat ti + j < unat n \<Longrightarrow> \<not> (n :: u64) \<le> ucast (ti + word_of_nat j)"
    and "uint (ti + word_of_nat j) = uint ti + int j"
proof -
  show 1: "unat (ti + word_of_nat j) = unat ti + j"
    using assms by (simp add: unat_word_ariths unat_of_nat)
  then show "uint (ti + word_of_nat j) = uint ti + int j"
    by (simp only: uint_nat of_nat_add)
  show "\<not> (n :: u64) \<le> ucast (ti + word_of_nat j)" if "unat ti + j < unat n"
    using that by (simp only: word_le_nat_alt unat_ucast_32_64 1 not_le)
qed


lemma store_bytes_Cons: "store_bytes m p (b # bs) = store_bytes (m(p := b)) (p + 1) bs"
proof -
  have "store_bytes m p [b] = m(p := b)" by (auto simp: store_bytes_def fun_eq_iff)
  then show ?thesis using store_bytes_append [of m p "[b]" bs] by simp
qed

lemma pton_first:
  assumes "t \<noteq> 0" "unat ti + 1 < 2 ^ 32" "unat ti + 1 < unat n"
  shows "pton_loop t n (b64_char (out0 a) # b64_char (out1 a b) # src) 0 ti m =
     pton_loop t n src 2 (ti + 1) (m(t + uint ti := a, t + uint ti + 1 := push_bit 4 (out1 a b AND 0x0f)))"
proof -
  have i: "\<not> n \<le> ucast ti" "\<not> n \<le> ucast (ti + 1)" "uint (ti + 1) = uint ti + 1"
    using index_arith(2) [of ti 0 n] index_arith(1,3) [of ti 0] index_arith(2) [of ti 1 n] index_arith(1,3) [of ti 1] assms(2,3) by auto
  show ?thesis
    unfolding char_step [OF out_small(1)] char_step [OF out_small(2)]
    using assms(1) i dec0 [of a b]
    by (simp add: pton_step_def char_step out_small Let_def algebra_simps del: push_bit_and pton_loop.simps)
qed

lemma pton_third:
  assumes "t \<noteq> 0" "unat ti + 1 < 2 ^ 32" "unat ti + 1 < unat n"
    and "m (t + uint ti) = push_bit 4 (out1 a b AND 0x0f)"
  shows "pton_loop t n (b64_char (out2 b c) # src) 2 ti m =
     pton_loop t n src 3 (ti + 1) (m(t + uint ti := b, t + uint ti + 1 := push_bit 6 (out2 b c AND 0x03)))"
proof -
  have i: "\<not> n \<le> ucast (ti + 1)" "uint (ti + 1) = uint ti + 1"
    using index_arith(2) [of ti 1 n] index_arith(1,3) [of ti 1] assms(2,3) by auto
  show ?thesis
    unfolding char_step [OF out_small(3)]
    using assms(1,4) i dec1 [of a b c]
    by (simp add: pton_step_def Let_def algebra_simps del: push_bit_and pton_loop.simps)
qed

lemma pton_fourth:
  assumes "t \<noteq> 0" "unat ti < unat n" "m (t + uint ti) = push_bit 6 (out2 b c AND 0x03)"
  shows "pton_loop t n (b64_char (out3 c) # src) 3 ti m =
     pton_loop t n src 0 (ti + 1) (m(t + uint ti := c))"
proof -
  have i: "\<not> n \<le> ucast ti"
    using index_arith(2) [of ti 0 n] index_arith(1,3) [of ti 0] assms(2) unat_lt2p [of ti] by auto
  show ?thesis
    unfolding char_step [OF out_small(4)]
    using assms(1,3) i dec2 [of b c]
    by (simp add: pton_step_def del: push_bit_and pton_loop.simps)
qed

lemma pton_group:
  assumes "t \<noteq> 0" "unat ti + 3 < 2 ^ 32" "unat ti + 2 < unat n"
  shows "pton_loop t n (b64_char (out0 a) # b64_char (out1 a b) # b64_char (out2 b c) # b64_char (out3 c) # src) 0 ti m =
     pton_loop t n src 0 (ti + 3) (store_bytes m (t + uint ti) [a, b, c])"
proof -
  have i: "unat (ti + 1) = unat ti + 1" "unat (ti + 2) = unat ti + 2"
      "uint (ti + 1) = uint ti + 1" "uint (ti + 2) = uint ti + 2"
    using index_arith(2) [of ti 1 n] index_arith(1,3) [of ti 1] index_arith(2) [of ti 2 n] index_arith(1,3) [of ti 2] assms(2) by auto
  have "pton_loop t n (b64_char (out0 a) # b64_char (out1 a b) # b64_char (out2 b c) # b64_char (out3 c) # src) 0 ti m
      = pton_loop t n (b64_char (out2 b c) # b64_char (out3 c) # src) 2 (ti + 1)
          (m(t + uint ti := a, t + uint ti + 1 := push_bit 4 (out1 a b AND 0x0f)))"
    using assms by (intro pton_first) auto
  also have "\<dots> = pton_loop t n (b64_char (out3 c) # src) 3 (ti + 1 + 1)
      (m(t + uint ti := a, t + uint ti + 1 := b, t + uint ti + 2 := push_bit 6 (out2 b c AND 0x03)))"
    using assms i by (subst pton_third [where a = a]) (auto simp: algebra_simps simp del: push_bit_and pton_loop.simps)
  also have "\<dots> = pton_loop t n src 0 (ti + 1 + 1 + 1) (m(t + uint ti := a, t + uint ti + 1 := b, t + uint ti + 2 := c))"
    using assms i by (subst pton_fourth [where b = b]) (auto simp: algebra_simps simp del: push_bit_and pton_loop.simps)
  finally show ?thesis by (simp add: store_bytes_Cons algebra_simps del: pton_loop.simps)
qed


lemma spare_bits:
  "push_bit 4 (out1 a 0 AND 0x0f) = 0" "push_bit 6 (out2 b 0 AND 0x03) = 0"
proof -
  have "push_bit 4 (out1 a 0 AND 0x0f) OR drop_bit 2 (out2 0 0) = 0" by (rule dec1)
  then show "push_bit 4 (out1 a 0 AND 0x0f) = 0" by (simp only: or_eq_0_iff)
  have "push_bit 6 (out2 b 0 AND 0x03) OR out3 0 = 0" by (rule dec2)
  then show "push_bit 6 (out2 b 0 AND 0x03) = 0" by (simp only: or_eq_0_iff)
qed

lemma pton_decodes:
  assumes "t \<noteq> 0" "unat ti + length src + 3 < 2 ^ 31"
    and "unat ti + length src + (if length src mod 3 = 0 then 0 else 1) \<le> unat n"
  shows "fst (pton_finish t (pton_loop t n (b64_encode src) 0 ti m)) = int (unat ti + length src)
    \<and> load_bytes (snd (pton_finish t (pton_loop t n (b64_encode src) 0 ti m))) (t + uint ti) (length src) = src
    \<and> (\<forall>x < t + uint ti. snd (pton_finish t (pton_loop t n (b64_encode src) 0 ti m)) x = m x)"
  using assms(2,3)
proof (induction src arbitrary: ti m rule: b64_encode.induct)
  case 1
  then show ?case by (simp add: pton_finish_def sint_small)
next
  case (2 a)
  then have i: "unat (ti + 1) = unat ti + 1" "uint (ti + 1) = uint ti + 1" "sint (ti + 1) = int (unat ti + 1)"
    using index_arith(1,3) [of ti 1] sint_small [of "ti + 1"] by auto
  from 2 show ?case
    using assms(1) i
    by (simp add: pton_first pad_step pton_finish_def pton_after_pad_def isspace_def [of Pad64] spare_bits
        load_bytes_Suc del: pton_loop.simps push_bit_and) (simp add: Pad64_def add.assoc)
next
  case (3 a b)
  then have i: "unat (ti + 1) = unat ti + 1" "uint (ti + 1) = uint ti + 1"
      "unat (ti + 1 + 1) = unat ti + 2" "uint (ti + 1 + 1) = uint ti + 2"
      "sint (ti + 1 + 1) = int (unat ti + 2)"
    using index_arith(1,3) [of ti 1] index_arith(1,3) [of ti 2] sint_small [of "ti + 2"]
    by (auto simp: add.assoc)
  from 3 assms(1) i have "pton_loop t n (b64_encode [a, b]) 0 ti m = (Some (True, [], 3, ti + 1 + 1),
      m(t + uint ti := a, t + uint ti + 1 := b, t + uint ti + 2 := 0))"
    by (simp only: b64_encode_2) 
       (subst pton_first, simp_all add: spare_bits del: pton_loop.simps push_bit_and,
        subst pton_third [where a = a], simp_all add: pad_step spare_bits add.assoc del: pton_loop.simps push_bit_and)
  with i show ?case
    by (simp add: pton_finish_def pton_after_pad_def load_bytes_Suc add.assoc)
next
  case (4 a b c src)
  have i: "unat (ti + 3) = unat ti + 3" "uint (ti + 3) = uint ti + 3"
    using index_arith(1,3) [of ti 3] 4(2) by auto
  have len: "Suc (Suc (Suc (length src))) mod 3 = length src mod 3" by presburger
  define m1 where "m1 = store_bytes m (t + uint ti) [a, b, c]"
  define r where "r = pton_finish t (pton_loop t n (b64_encode src) 0 (ti + 3) m1)"
  have room: "unat ti + 3 < 2 ^ 32" "unat ti + 2 < unat n" using 4(2,3) by auto
  have r: "pton_finish t (pton_loop t n (b64_encode (a # b # c # src)) 0 ti m) = r"
    by (simp add: r_def m1_def pton_group [OF assms(1) room] del: pton_loop.simps)
  have bounds: "unat (ti + 3) + length src + 3 < 2 ^ 31"
      "unat (ti + 3) + length src + (if length src mod 3 = 0 then 0 else 1) \<le> unat n"
    using 4(2,3) len i by auto
  have IH: "fst r = int (unat (ti + 3) + length src)" "load_bytes (snd r) (t + uint (ti + 3)) (length src) = src"
      "\<forall>x < t + uint (ti + 3). snd r x = m1 x"
    using 4(1) [OF bounds, of m1] unfolding r_def by blast+
  have "load_bytes (snd r) (t + uint ti) 3 = load_bytes m1 (t + uint ti) 3"
    using IH(3) i by (intro load_bytes_cong) auto
  then have "load_bytes (snd r) (t + uint ti) 3 = [a, b, c]"
    using load_store_same [of m "t + uint ti" "[a, b, c]"] by (simp add: m1_def numeral_3_eq_3)
  then have "load_bytes (snd r) (t + uint ti) (3 + length src) = a # b # c # src"
    using IH(2) i load_bytes_add [of "snd r" "t + uint ti" 3 "length src"] by (simp add: add.assoc)
  moreover have "snd r x = m x" if "x < t + uint ti" for x
    using that IH(3) i by (simp add: m1_def store_bytes_def)
  ultimately show ?case unfolding r using IH(1) i by (simp add: numeral_3_eq_3)
qed


section \<open>Writes and lengths for any input\<close>

lemma pton_step_null:
  "pton_step 0 n state ti v m =
     Some (if state = 0 then 1 else if state = 1 then 2 else if state = 2 then 3 else 0,
           if state = 0 then ti else ti + 1, m)"
  by (simp add: pton_step_def Let_def)

definition in_group :: "u64 \<Rightarrow> nat \<Rightarrow> u32 \<Rightarrow> bool" where
  "in_group n state ti \<longleftrightarrow> state = 0 \<or> state < 4 \<and> unat ti < unat n"

lemma pton_step_frame:
  assumes "in_group n state ti" "pton_step t n state ti v m = Some (state', ti', m')"
    and out: "x < t \<or> t + uint n \<le> x"
    and t: "t \<noteq> 0"
  shows "in_group n state' ti' \<and> m' x = m x"
proof -
  have le: "n \<le> ucast i \<longleftrightarrow> unat n \<le> unat (i :: u32)" for i
    by (simp add: word_le_nat_alt unat_ucast_32_64)
  have ne: "x \<noteq> t + uint i" if "unat (i :: u32) < unat n" for i
    using that out unfolding uint_nat by linarith
  from t assms(1,2) show ?thesis
    by (auto simp: in_group_def pton_step_def Let_def le not_le dest: ne split: if_splits)
qed

lemma pton_loop_frame:
  assumes "in_group n state ti" "t \<noteq> 0" "x < t \<or> t + uint n \<le> x"
  shows "snd (pton_loop t n src state ti m) x = m x"
  using assms
proof (induction src arbitrary: state ti m)
  case Nil
  then show ?case by simp
next
  case (Cons ch src)
  then show ?case
    using pton_step_frame [of n state ti t _ m _ _ _ x]
    by (fastforce split: option.splits)
qed

lemma pton_loop_null:
  "pton_loop 0 n src state ti m = (fst (pton_loop 0 n' src state ti m'), m)"
proof (induction src arbitrary: state ti)
  case Nil
  then show ?case by simp
next
  case (Cons ch src)
  then show ?case by (auto simp: pton_step_null split: option.splits)
qed

lemma pton_loop_sim:
  "pton_loop t n src state ti m = (Some r, m') \<Longrightarrow> fst (pton_loop 0 n' src state ti m0) = Some r"
proof (induction src arbitrary: state ti m)
  case Nil
  then show ?case by simp
next
  case (Cons ch src)
  then show ?case
    by (auto simp: pton_step_null pton_step_def [of t] Let_def split: option.splits if_splits)
qed


lemma b64_encode_nonzero: "0 \<notin> set (b64_encode src)"
proof (induction src rule: b64_encode.induct)
  case 1
  then show ?case by simp
qed (use b64_char_digit(4) out_small in \<open>auto simp: Pad64_def dest: sym\<close>)
end
