(* ===== verification/FBase64_Props.thy ===== *)
theory FBase64_Props
  imports FBase64_Spec
begin

text \<open>What \<^verbatim>\<open>f_b64_ntop\<close> and \<^verbatim>\<open>f_b64_pton\<close> promise their callers.\<close>

section \<open>Properties\<close>

text \<open>
  C10. When the encoding and its terminator fit, \<^verbatim>\<open>f_b64_ntop\<close> writes the RFC 1521 encoding of the
  source followed by a zero byte, changes nothing else and returns the length of the encoding.
\<close>

theorem f_b64_ntop_encodes:
  assumes "length (b64_encode src) < unat n" "length (b64_encode src) < 2 ^ 31" "unat n + 4 < 2 ^ 64"
  shows "f_b64_ntop src t n m = (int (length (b64_encode src)), store_bytes m t (b64_encode src @ [0]))"
  using assms by (rule ntop_encodes)

lemma b64_example: "b64_encode [77, 97] = [84, 87, 69, 61]"
  by (simp add: b64_char_def out0_def out1_def out2_def Pad64_def Base64_bytes)

theorem f_b64_ntop_encodes_witness:
  "f_b64_ntop [77, 97] 100 8 (\<lambda>_. 0) = (4, store_bytes (\<lambda>_. 0) 100 [84, 87, 69, 61, 0])"
  using f_b64_ntop_encodes [of "[77, 97]" 8 100 "\<lambda>_. 0"] unfolding b64_example by simp

text \<open>
  When they do not fit, \<^verbatim>\<open>f_b64_ntop\<close> returns \<open>- 1\<close>; in no case is a byte outside the target
  buffer changed.
\<close>

theorem f_b64_ntop_short:
  assumes "unat n + 4 < 2 ^ 64"
  shows "(unat n \<le> length (b64_encode src) \<longrightarrow> fst (f_b64_ntop src t n m) = - 1)
    \<and> (\<forall>x. x < t \<or> t + uint n \<le> x \<longrightarrow> snd (f_b64_ntop src t n m) x = m x)"
  using ntop_short [of 0 n src t m] ntop_frame [of 0 n _ t src m] assms by (simp add: f_b64_ntop_def)

theorem f_b64_ntop_short_witness:
  "fst (f_b64_ntop [77, 97] 100 4 (\<lambda>_. 0)) = - 1 \<and> snd (f_b64_ntop [77, 97] 100 4 (\<lambda>_. 0)) 104 = 0"
proof -
  have "unat (4 :: u64) + 4 < 2 ^ 64" by simp
  from f_b64_ntop_short [OF this, of "[77, 97]" 100 "\<lambda>_. 0"] show ?thesis
    unfolding b64_example by simp
qed

text \<open>
  C11. \<^verbatim>\<open>f_b64_pton\<close> accepts nothing but encodings: when it succeeds, the string without its white
  space is the encoding of exactly the bytes it stored. In particular pads, trailing garbage and the
  spare bits of the last digit are all checked.
\<close>

theorem f_b64_pton_canonical:
  assumes "f_b64_pton s t n m = (k, m')" "k \<noteq> - 1" "t \<noteq> 0" "length s < 2 ^ 31"
  shows "0 \<le> k \<and> filter (\<lambda>c. \<not> isspace c) (takeWhile (\<lambda>c. c \<noteq> 0) s) = b64_encode (load_bytes m' t (nat k))"
  using assms by (rule pton_canonical)

lemma pton_example:
  "f_b64_pton [84, 32, 87, 69, 61] 100 3 (\<lambda>_. 7) = (2, ((\<lambda>_. 7)(100 := 77, 101 := 97, 102 := 0)))"
  by (simp add: f_b64_pton_def pton_finish_def pton_after_pad_def pton_step_def isspace_def Pad64_def
      b64_index_def Base64_bytes Let_def fun_upd_twist word_le_nat_alt)

theorem f_b64_pton_canonical_witness:
  "filter (\<lambda>c. \<not> isspace c) (takeWhile (\<lambda>c. c \<noteq> 0) [84, 32, 87, 69, 61])
   = b64_encode (load_bytes ((\<lambda>_. 7)(100 := 77, 101 := 97, 102 := 0)) 100 (nat 2))"
  using f_b64_pton_canonical [OF pton_example] by simp

text \<open>
  C12. Decoding a string that \<^verbatim>\<open>f_b64_ntop\<close> wrote gives the source back, in a target that has room
  for it and, unless the length is a multiple of three, one scratch byte.
\<close>

theorem f_b64_roundtrip:
  assumes enc: "f_b64_ntop src t1 n1 m = (k, m1)" "k \<noteq> - 1" "unat n1 + 4 < 2 ^ 64"
    and len: "length (b64_encode src) < 2 ^ 31" "length src + 3 < 2 ^ 31"
    and room: "length src + (if length src mod 3 = 0 then 0 else 1) \<le> unat n" and t: "t \<noteq> 0"
  shows "fst (f_b64_pton (load_bytes m1 t1 (Suc (nat k))) t n m1) = int (length src)
    \<and> load_bytes (snd (f_b64_pton (load_bytes m1 t1 (Suc (nat k))) t n m1)) t (length src) = src"
proof -
  have fit: "length (b64_encode src) < unat n1"
    using ntop_short [of 0 n1 src t1 m] enc by (fastforce simp: f_b64_ntop_def)
  have k: "k = int (length (b64_encode src))" and m1: "m1 = store_bytes m t1 (b64_encode src @ [0])"
    using ntop_encodes [OF fit len(1) enc(3), of t1 m] enc(1) by simp_all
  have "load_bytes m1 t1 (Suc (nat k)) = b64_encode src @ [0]"
    using load_store_same [of m t1 "b64_encode src @ [0]"] by (simp add: k m1)
  moreover have "takeWhile (\<lambda>c. c \<noteq> 0) (b64_encode src @ [0]) = b64_encode src"
    using b64_encode_nonzero [of src] by (subst takeWhile_append2) auto
  ultimately show ?thesis
    using pton_decodes [of t 0 src n m1] t len(2) room by (simp add: f_b64_pton_def)
qed

theorem f_b64_roundtrip_witness:
  "fst (f_b64_pton (load_bytes (store_bytes (\<lambda>_. 0) 100 [84, 87, 69, 61, 0]) 100 (Suc (nat 4))) 200 3
        (store_bytes (\<lambda>_. 0) 100 [84, 87, 69, 61, 0])) = int (length [77 :: byte, 97])"
proof -
  have "f_b64_ntop [77, 97] 100 8 (\<lambda>_. 0) = (4, store_bytes (\<lambda>_. 0) 100 [84, 87, 69, 61, 0])"
    using ntop_encodes [of "[77, 97]" 8 100 "\<lambda>_. 0"] unfolding b64_example by simp
  from f_b64_roundtrip [OF this, of 3 200] show ?thesis unfolding b64_example by simp
qed

text \<open>
  Whatever the string, \<^verbatim>\<open>f_b64_pton\<close> changes no byte outside its target buffer, and none at all
  when the target is null.
\<close>

theorem f_b64_pton_safe:
  assumes "t = 0 \<or> x < t \<or> t + uint n \<le> x"
  shows "snd (f_b64_pton s t n m) x = m x"
proof -
  have "snd (pton_finish t r) = snd r" for r
    by (auto simp: pton_finish_def split: prod.splits option.splits bool.splits)
  moreover have "snd (pton_loop t n src 0 0 m) x = m x" for src
  proof (cases "t = 0")
    case True
    then show ?thesis using pton_loop_null [of n src 0 0 m n m] by (metis snd_conv)
  next
    case False
    with assms show ?thesis by (intro pton_loop_frame) (auto simp: in_group_def)
  qed
  ultimately show ?thesis by (simp add: f_b64_pton_def)
qed

theorem f_b64_pton_safe_witness:
  "snd (f_b64_pton [84, 87, 69, 61] 100 3 (\<lambda>_. 7)) 103 = 7"
  using f_b64_pton_safe [of 100 103 3 "[84, 87, 69, 61]" "\<lambda>_. 7"] by simp

text \<open>
  A call with a null target is a dry run: it returns the length that any successful call on the
  same string returns, except that the spare bits of a padded group are not checked.
\<close>

theorem f_b64_pton_dry_run:
  assumes "f_b64_pton s t n m = (k, m')" "k \<noteq> - 1"
  shows "f_b64_pton s 0 n' m0 = (k, m0)"
proof -
  let ?s = "takeWhile (\<lambda>c. c \<noteq> 0) s"
  obtain r m1 where loop: "pton_loop t n ?s 0 0 m = (r, m1)" by fastforce
  with assms obtain pad rest st ti where r: "r = Some (pad, rest, st, ti)"
    by (cases r) (auto simp: f_b64_pton_def pton_finish_def)
  have "pton_loop 0 n' ?s 0 0 m0 = (r, m0)"
    using pton_loop_sim [of t n ?s 0 0 m] loop r pton_loop_null [of n' ?s 0 0 m0 n' m0] by auto
  moreover have "pton_after_pad 0 rest st ti m0 = k" if pad
    using that assms loop r
    by (auto simp: f_b64_pton_def pton_finish_def pton_after_pad_def split: if_splits option.splits list.splits)
  ultimately show ?thesis
    using assms loop r by (cases pad) (auto simp: f_b64_pton_def pton_finish_def split: if_splits)
qed

theorem f_b64_pton_dry_run_witness:
  "f_b64_pton [84, 32, 87, 69, 61] 0 0 (\<lambda>_. 1) = (2, \<lambda>_. 1)"
  using f_b64_pton_dry_run [OF pton_example] by simp

end
