(* ===== verification/Ldb_Coding.thy ===== *)
theory Ldb_Coding
  imports Varint
begin

text \<open>
  \<^verbatim>\<open>leveldb/slice.h\<close>, \<^verbatim>\<open>util/coding.h\<close> and \<^verbatim>\<open>util/coding.cc\<close>: the integer and slice encodings every
  on-disk structure of LevelDB is made of. A \<^verbatim>\<open>Slice\<close> and a \<^verbatim>\<open>std::string\<close> are the bytes they hold. A
  pair of pointers \<^verbatim>\<open>[p, limit)\<close> is the list of the bytes between them, and the pointer a parser returns
  is the list that is left; \<open>None\<close> is a null pointer or a \<^verbatim>\<open>false\<close> result. The target is
  little-endian, so the fixed-width routines are plain copies.
\<close>

type_synonym slice = "byte list"

section \<open>Slices\<close>

text \<open>\<^verbatim>\<open>memcmp\<close> compares bytes as unsigned values.\<close>

fun memcmp :: "byte list \<Rightarrow> byte list \<Rightarrow> int" where
  "memcmp (a # as) (b # bs) = (if a < b then - 1 else if b < a then 1 else memcmp as bs)"
| "memcmp _ _ = 0"

definition Slice_compare :: "slice \<Rightarrow> slice \<Rightarrow> int" where
  "Slice_compare a b =
     (let min_len = (if length a < length b then length a else length b);
          r = memcmp (take min_len a) (take min_len b)
      in if r = 0 then (if length a < length b then - 1 else if length a > length b then 1 else r)
         else r)"

definition Slice_starts_with :: "slice \<Rightarrow> slice \<Rightarrow> bool" where
  "Slice_starts_with s x \<longleftrightarrow> length s \<ge> length x \<and> memcmp (take (length x) s) x = 0"

definition Slice_eq :: "slice \<Rightarrow> slice \<Rightarrow> bool" where
  "Slice_eq x y \<longleftrightarrow> length x = length y \<and> memcmp x y = 0"

definition remove_prefix :: "slice \<Rightarrow> nat \<Rightarrow> slice" where
  "remove_prefix s n = drop n s"

section \<open>Encoding\<close>

definition EncodeFixed32 :: "u32 \<Rightarrow> byte list" where
  "EncodeFixed32 v = le_bytes 4 (unat v)"

definition EncodeFixed64 :: "u64 \<Rightarrow> byte list" where
  "EncodeFixed64 v = le_bytes 8 (unat v)"

definition PutFixed32 :: "byte list \<Rightarrow> u32 \<Rightarrow> byte list" where
  "PutFixed32 dst v = dst @ EncodeFixed32 v"

definition PutFixed64 :: "byte list \<Rightarrow> u64 \<Rightarrow> byte list" where
  "PutFixed64 dst v = dst @ EncodeFixed64 v"

definition EncodeVarint32 :: "u32 \<Rightarrow> byte list" where
  "EncodeVarint32 v =
     (let B = 128 in
      if v < push_bit 7 1 then [ucast v]
      else if v < push_bit 14 1 then [ucast (v OR B), ucast (drop_bit 7 v)]
      else if v < push_bit 21 1
      then [ucast (v OR B), ucast (drop_bit 7 v OR B), ucast (drop_bit 14 v)]
      else if v < push_bit 28 1
      then [ucast (v OR B), ucast (drop_bit 7 v OR B), ucast (drop_bit 14 v OR B), ucast (drop_bit 21 v)]
      else [ucast (v OR B), ucast (drop_bit 7 v OR B), ucast (drop_bit 14 v OR B), ucast (drop_bit 21 v OR B),
            ucast (drop_bit 28 v)])"

definition PutVarint32 :: "byte list \<Rightarrow> u32 \<Rightarrow> byte list" where
  "PutVarint32 dst v = dst @ EncodeVarint32 v"

function EncodeVarint64 :: "u64 \<Rightarrow> byte list" where
  "EncodeVarint64 v = (if v \<ge> 128 then ucast (v OR 128) # EncodeVarint64 (drop_bit 7 v) else [ucast v])"
  by pat_completeness auto
termination
proof (relation "measure unat", goal_cases)
  case (2 v)
  then have "v \<noteq> 0" by auto
  then show ?case by (simp add: drop_bit_7_less)
qed simp

declare EncodeVarint64.simps [simp del]

definition PutVarint64 :: "byte list \<Rightarrow> u64 \<Rightarrow> byte list" where
  "PutVarint64 dst v = dst @ EncodeVarint64 v"

text \<open>The \<^verbatim>\<open>size_t\<close> length is passed as a 32-bit value.\<close>

definition PutLengthPrefixedSlice :: "byte list \<Rightarrow> slice \<Rightarrow> byte list" where
  "PutLengthPrefixedSlice dst value = PutVarint32 dst (word_of_nat (length value)) @ value"

function VarintLength_loop :: "u64 \<Rightarrow> int \<Rightarrow> int" where
  "VarintLength_loop v len = (if v \<ge> 128 then VarintLength_loop (drop_bit 7 v) (len + 1) else len)"
  by pat_completeness auto
termination
proof (relation "measure (unat \<circ> fst)", goal_cases)
  case (2 v len)
  then have "v \<noteq> 0" by auto
  then show ?case by (simp add: drop_bit_7_less)
qed simp

declare VarintLength_loop.simps [simp del]

definition VarintLength :: "u64 \<Rightarrow> int" where
  "VarintLength v = VarintLength_loop v 1"

section \<open>Decoding\<close>

definition DecodeFixed32 :: "byte list \<Rightarrow> u32" where
  "DecodeFixed32 p = word_of_nat (le_val (take 4 p))"

definition DecodeFixed64 :: "byte list \<Rightarrow> u64" where
  "DecodeFixed64 p = word_of_nat (le_val (take 8 p))"

fun GetVarint32PtrFallback_loop :: "byte list \<Rightarrow> nat \<Rightarrow> u32 \<Rightarrow> (u32 \<times> byte list) option" where
  "GetVarint32PtrFallback_loop [] shift result = None"
| "GetVarint32PtrFallback_loop (b # p) shift result =
     (if shift \<le> 28
      then let byte = ucast b in
           if b AND 128 \<noteq> 0
           then GetVarint32PtrFallback_loop p (shift + 7) (result OR push_bit shift (byte AND 127))
           else Some (result OR push_bit shift byte, p)
      else None)"

definition GetVarint32PtrFallback :: "byte list \<Rightarrow> (u32 \<times> byte list) option" where
  "GetVarint32PtrFallback p = GetVarint32PtrFallback_loop p 0 0"

definition GetVarint32Ptr :: "byte list \<Rightarrow> (u32 \<times> byte list) option" where
  "GetVarint32Ptr p =
     (case p of
        b # rest \<Rightarrow> (let result = ucast b in
                    if result AND 128 = 0 then Some (result, rest) else GetVarint32PtrFallback p)
      | [] \<Rightarrow> GetVarint32PtrFallback p)"

definition GetVarint32 :: "slice \<Rightarrow> (u32 \<times> slice) option" where
  "GetVarint32 input = GetVarint32Ptr input"

fun GetVarint64Ptr_loop :: "byte list \<Rightarrow> nat \<Rightarrow> u64 \<Rightarrow> (u64 \<times> byte list) option" where
  "GetVarint64Ptr_loop [] shift result = None"
| "GetVarint64Ptr_loop (b # p) shift result =
     (if shift \<le> 63
      then let byte = ucast b in
           if b AND 128 \<noteq> 0
           then GetVarint64Ptr_loop p (shift + 7) (result OR push_bit shift (byte AND 127))
           else Some (result OR push_bit shift byte, p)
      else None)"

definition GetVarint64Ptr :: "byte list \<Rightarrow> (u64 \<times> byte list) option" where
  "GetVarint64Ptr p = GetVarint64Ptr_loop p 0 0"

definition GetVarint64 :: "slice \<Rightarrow> (u64 \<times> slice) option" where
  "GetVarint64 input = GetVarint64Ptr input"

definition GetLengthPrefixedSlicePtr :: "byte list \<Rightarrow> (slice \<times> byte list) option" where
  "GetLengthPrefixedSlicePtr p =
     (case GetVarint32Ptr p of
        None \<Rightarrow> None
      | Some (len, p) \<Rightarrow> if unat len > length p then None else Some (take (unat len) p, drop (unat len) p))"

definition GetLengthPrefixedSlice :: "slice \<Rightarrow> (slice \<times> slice) option" where
  "GetLengthPrefixedSlice input =
     (case GetVarint32 input of
        None \<Rightarrow> None
      | Some (len, input) \<Rightarrow>
          if length input \<ge> unat len then Some (take (unat len) input, remove_prefix input (unat len)) else None)"

section \<open>The varints are the base-128 code\<close>

lemma wide_byte: "(ucast (b :: byte) :: 'a::len word) = word_of_nat (unat b)"
  by simp

lemma wide_digit:
  "(ucast (b :: byte) AND 127 :: u32) = word_of_nat (unat b mod 128)"
  "(ucast (b :: byte) AND 127 :: u64) = word_of_nat (unat b mod 128)"
  using unat_lt2p [of b]
  by (auto intro!: unat_eqI simp: unsigned_and_eq unsigned_ucast_eq take_bit_nat_eq_self nat_and_127 unat_of_nat)

lemma byte_ucast_or32: "(ucast (v OR 128) :: byte) = ucast ((v :: u32) AND 0x7F OR 0x80)"
  and byte_ucast_or64: "(ucast (w OR 128) :: byte) = ucast ((w :: u64) AND 0x7F OR 0x80)"
  by (rule byte_eqI, elim insertE emptyE; simp add: bit_ucast_iff bit_or_iff bit_and_iff)+

lemma more_digit:
  "(ucast (v OR 128) :: byte) = word_of_nat (unat (v :: u32) mod 128 + 128)"
  "(ucast (w OR 128) :: byte) = word_of_nat (unat (w :: u64) mod 128 + 128)"
proof -
  have "(ucast (v OR 128) :: byte) = ucast ((v AND 0x7F) OR 0x80)"
    by (rule byte_ucast_or32)
  then show "(ucast (v OR 128) :: byte) = word_of_nat (unat v mod 128 + 128)" by (simp only: digit_more_32)
  have "(ucast (w OR 128) :: byte) = ucast ((w AND 0x7F) OR 0x80)"
    by (rule byte_ucast_or64)
  then show "(ucast (w OR 128) :: byte) = word_of_nat (unat w mod 128 + 128)" by (simp only: digit_more_64)
qed

lemma GetVarint32PtrFallback_loop_bytes:
  assumes "i \<le> 4" "unat r < 2 ^ (7 * i)" "n < 2 ^ (32 - 7 * i)"
  shows "GetVarint32PtrFallback_loop (varint_bytes n @ rest) (7 * i) r = Some (word_of_nat (unat r + n * 2 ^ (7 * i)), rest)"
  using assms
proof (induction n arbitrary: i r rule: varint_bytes.induct)
  case (1 n)
  show ?case
  proof (cases "n < 128")
    case True
    then have u: "unat (word_of_nat n :: byte) = n" by (simp add: unat_byte_of_nat)
    with True 1(2) show ?thesis
      by (simp add: varint_bytes_small byte_more wide_byte or_shift_add [OF 1(3)] del: of_nat_add of_nat_mult)
  next
    case False
    let ?b = "word_of_nat (n mod 128 + 128) :: byte"
    let ?r = "word_of_nat (unat r + n mod 128 * 2 ^ (7 * i)) :: u32"
    have b: "varint_bytes n = ?b # varint_bytes (n div 128)" using False by (intro varint_bytes_large) simp
    have d: "unat ?b mod 128 = n mod 128" "\<not> unat ?b < 128"
      by (simp_all add: unat_varint_digit del: of_nat_add)
    have i: "Suc i \<le> 4"
    proof (rule ccontr)
      assume "\<not> Suc i \<le> 4"
      then have "i = 4" using 1(2) by simp
      with 1(4) False show False by simp
    qed
    have "(2 :: nat) ^ (32 - 7 * i) = 2 ^ (32 - 7 * Suc i) * 128"
      using i power_add [of "2 :: nat" "32 - 7 * Suc i" 7] by simp
    with 1(4) have n': "n div 128 < 2 ^ (32 - 7 * Suc i)" by (simp add: less_mult_imp_div_less)
    have bound: "unat r + n mod 128 * 2 ^ (7 * i) < 2 ^ (7 * Suc i)" by (rule varint_step_bound [OF 1(3)])
    also have "\<dots> \<le> 2 ^ 28" using i by (intro power_increasing) auto
    finally have r': "unat ?r = unat r + n mod 128 * 2 ^ (7 * i)"
      by (simp add: unat_of_nat del: of_nat_add of_nat_mult)
    have s: "7 * i \<le> 28" "7 * i + 7 = 7 * Suc i" using 1(2) by simp_all
    have "GetVarint32PtrFallback_loop (varint_bytes n @ rest) (7 * i) r = GetVarint32PtrFallback_loop (varint_bytes (n div 128) @ rest) (7 * Suc i) ?r"
      unfolding b by (simp only: append_Cons GetVarint32PtrFallback_loop.simps Let_def s byte_more d wide_digit or_shift_add [OF 1(3)] if_True not_False_eq_True)
    also have "\<dots> = Some (word_of_nat (unat ?r + n div 128 * 2 ^ (7 * Suc i)), rest)"
      by (rule 1(1) [OF False i _ n']) (use bound r' in simp)
    finally show ?thesis unfolding r' varint_step_value .
  qed
qed

lemma GetVarint64Ptr_loop_bytes:
  assumes "i \<le> 9" "unat r < 2 ^ (7 * i)" "n < 2 ^ (64 - 7 * i)"
  shows "GetVarint64Ptr_loop (varint_bytes n @ rest) (7 * i) r = Some (word_of_nat (unat r + n * 2 ^ (7 * i)), rest)"
  using assms
proof (induction n arbitrary: i r rule: varint_bytes.induct)
  case (1 n)
  show ?case
  proof (cases "n < 128")
    case True
    then have u: "unat (word_of_nat n :: byte) = n" by (simp add: unat_byte_of_nat)
    with True 1(2) show ?thesis
      by (simp add: varint_bytes_small byte_more wide_byte or_shift_add [OF 1(3)] del: of_nat_add of_nat_mult)
  next
    case False
    let ?b = "word_of_nat (n mod 128 + 128) :: byte"
    let ?r = "word_of_nat (unat r + n mod 128 * 2 ^ (7 * i)) :: u64"
    have b: "varint_bytes n = ?b # varint_bytes (n div 128)" using False by (intro varint_bytes_large) simp
    have d: "unat ?b mod 128 = n mod 128" "\<not> unat ?b < 128"
      by (simp_all add: unat_varint_digit del: of_nat_add)
    have i: "Suc i \<le> 9"
    proof (rule ccontr)
      assume "\<not> Suc i \<le> 9"
      then have "i = 9" using 1(2) by simp
      with 1(4) False show False by simp
    qed
    have "(2 :: nat) ^ (64 - 7 * i) = 2 ^ (64 - 7 * Suc i) * 128"
      using i power_add [of "2 :: nat" "64 - 7 * Suc i" 7] by simp
    with 1(4) have n': "n div 128 < 2 ^ (64 - 7 * Suc i)" by (simp add: less_mult_imp_div_less)
    have bound: "unat r + n mod 128 * 2 ^ (7 * i) < 2 ^ (7 * Suc i)" by (rule varint_step_bound [OF 1(3)])
    also have "\<dots> \<le> 2 ^ 63" using i by (intro power_increasing) auto
    finally have r': "unat ?r = unat r + n mod 128 * 2 ^ (7 * i)"
      by (simp add: unat_of_nat del: of_nat_add of_nat_mult)
    have s: "7 * i \<le> 63" "7 * i + 7 = 7 * Suc i" using 1(2) by simp_all
    have "GetVarint64Ptr_loop (varint_bytes n @ rest) (7 * i) r = GetVarint64Ptr_loop (varint_bytes (n div 128) @ rest) (7 * Suc i) ?r"
      unfolding b by (simp only: append_Cons GetVarint64Ptr_loop.simps Let_def s byte_more d wide_digit or_shift_add [OF 1(3)] if_True not_False_eq_True)
    also have "\<dots> = Some (word_of_nat (unat ?r + n div 128 * 2 ^ (7 * Suc i)), rest)"
      by (rule 1(1) [OF False i _ n']) (use bound r' in simp)
    finally show ?thesis unfolding r' varint_step_value .
  qed
qed



lemma narrow_drop: "(ucast (drop_bit k (v :: 'a::len word)) :: byte) = word_of_nat (unat v div 2 ^ k)"
  by (simp flip: unat_drop_bit)

lemma EncodeVarint32_bytes: "EncodeVarint32 v = varint_bytes (unat v)"
proof -
  let ?n = "unat v"
  have lt: "v < 128 \<longleftrightarrow> ?n < 128" "v < 16384 \<longleftrightarrow> ?n < 16384" "v < 2097152 \<longleftrightarrow> ?n < 2097152"
      "v < 268435456 \<longleftrightarrow> ?n < 268435456"
    by (simp_all add: word_less_nat_alt)
  have n: "?n < 4294967296" using unat_lt2p [of v] by simp
  have dd: "?n div 128 div 128 = ?n div 16384" "?n div 16384 div 128 = ?n div 2097152"
    "?n div 2097152 div 128 = ?n div 268435456" by (simp_all add: div_mult2_eq [symmetric])
  consider "?n < 128" | "128 \<le> ?n" "?n < 16384" | "16384 \<le> ?n" "?n < 2097152"
    | "2097152 \<le> ?n" "?n < 268435456" | "268435456 \<le> ?n" by linarith
  then show ?thesis
  proof cases
    case 1
    then show ?thesis using lt
      by (simp add: EncodeVarint32_def Let_def varint_bytes_small)
  next
    case 2
    then have "?n div 128 < 128" by linarith
    with 2 show ?thesis using lt
      by (simp add: EncodeVarint32_def Let_def more_digit narrow_drop unat_drop_bit varint_bytes_large varint_bytes_small del: of_nat_add)
  next
    case 3
    then have "?n div 16384 < 128" "128 \<le> ?n div 128" by linarith+
    with 3 show ?thesis using lt
      by (simp add: EncodeVarint32_def Let_def more_digit narrow_drop unat_drop_bit varint_bytes_large varint_bytes_small dd del: of_nat_add)
  next
    case 4
    then have "?n div 2097152 < 128" "128 \<le> ?n div 128" "128 \<le> ?n div 16384" by linarith+
    with 4 show ?thesis using lt
      by (simp add: EncodeVarint32_def Let_def more_digit narrow_drop unat_drop_bit varint_bytes_large varint_bytes_small dd del: of_nat_add)
  next
    case 5
    then have "?n div 268435456 < 128" "128 \<le> ?n div 128" "128 \<le> ?n div 16384" "128 \<le> ?n div 2097152"
      using n by linarith+
    with 5 show ?thesis using lt
      by (simp add: EncodeVarint32_def Let_def more_digit narrow_drop unat_drop_bit varint_bytes_large varint_bytes_small dd del: of_nat_add)
  qed
qed

lemma EncodeVarint64_bytes: "EncodeVarint64 v = varint_bytes (unat v)"
proof (induction v rule: EncodeVarint64.induct)
  case (1 v)
  show ?case
  proof (cases "v \<ge> 128")
    case True
    then have "128 \<le> unat v" by (simp add: word_le_nat_alt)
    then have "varint_bytes (unat v) = ucast (v OR 128) # EncodeVarint64 (drop_bit 7 v)"
      unfolding 1(1) [OF True] unat_drop_bit more_digit by (simp only: varint_bytes_large) simp
    moreover have "EncodeVarint64 v = ucast (v OR 128) # EncodeVarint64 (drop_bit 7 v)"
      using True by (subst EncodeVarint64.simps) simp
    ultimately show ?thesis by simp
  next
    case False
    then have "unat v < 128" by (simp add: word_le_nat_alt)
    with False show ?thesis
      by (subst EncodeVarint64.simps) (simp add: varint_bytes_small)
  qed
qed

lemma VarintLength_loop_eq: "VarintLength_loop v len = len - 1 + int (length (EncodeVarint64 v))"
proof (induction v len rule: VarintLength_loop.induct)
  case (1 v len)
  then show ?case
    by (subst VarintLength_loop.simps, subst EncodeVarint64.simps) simp
qed

lemma GetVarint32Ptr_bytes: "GetVarint32Ptr (varint_bytes (unat v) @ rest) = Some (v, rest)"
proof -
  have "GetVarint32PtrFallback (varint_bytes (unat v) @ rest) = Some (v, rest)"
    using GetVarint32PtrFallback_loop_bytes [of 0 0 "unat v" rest] unat_lt2p [of v]
    by (simp add: GetVarint32PtrFallback_def)
  moreover have "GetVarint32Ptr p = GetVarint32PtrFallback p" for p
  proof (cases p)
    case (Cons b q)
    have "(ucast b :: u32) AND 128 = 0 \<longleftrightarrow> b AND 128 = 0"
      by (auto simp: and_exp_eq_0_iff_not_bit [of _ 7, simplified] bit_ucast_iff)
    with Cons show ?thesis by (simp add: GetVarint32Ptr_def GetVarint32PtrFallback_def Let_def)
  qed (simp add: GetVarint32Ptr_def)
  ultimately show ?thesis by simp
qed

lemma GetVarint64Ptr_bytes: "GetVarint64Ptr (varint_bytes (unat v) @ rest) = Some (v, rest)"
  using GetVarint64Ptr_loop_bytes [of 0 0 "unat v" rest] unat_lt2p [of v]
  by (simp add: GetVarint64Ptr_def)

lemma DecodeFixed32_bytes: "DecodeFixed32 (EncodeFixed32 v @ rest) = v"
  using unat_lt2p [of v] by (simp add: DecodeFixed32_def EncodeFixed32_def le_val_le_bytes)

lemma DecodeFixed64_bytes: "DecodeFixed64 (EncodeFixed64 v @ rest) = v"
  using unat_lt2p [of v] by (simp add: DecodeFixed64_def EncodeFixed64_def le_val_le_bytes)

interpretation fixed32: prefix_codec EncodeFixed32 "\<lambda>bs. Some (DecodeFixed32 bs, drop 4 bs)" "\<lambda>_. True"
  by unfold_locales (simp add: DecodeFixed32_bytes, simp add: EncodeFixed32_def)

interpretation fixed64: prefix_codec EncodeFixed64 "\<lambda>bs. Some (DecodeFixed64 bs, drop 8 bs)" "\<lambda>_. True"
  by unfold_locales (simp add: DecodeFixed64_bytes, simp add: EncodeFixed64_def)

interpretation varint32: prefix_codec EncodeVarint32 GetVarint32 "\<lambda>_. True"
  by unfold_locales (simp add: GetVarint32_def EncodeVarint32_bytes GetVarint32Ptr_bytes)

interpretation varint64: prefix_codec EncodeVarint64 GetVarint64 "\<lambda>_. True"
  by unfold_locales (simp add: GetVarint64_def EncodeVarint64_bytes GetVarint64Ptr_bytes)

interpretation lpslice: prefix_codec "PutLengthPrefixedSlice []" GetLengthPrefixedSlice "\<lambda>s. length s < 2 ^ 32"
proof
  fix x rest :: slice
  assume "length x < 2 ^ 32"
  then have "unat (word_of_nat (length x) :: u32) = length x" by (simp add: unat_of_nat)
  then show "GetLengthPrefixedSlice (PutLengthPrefixedSlice [] x @ rest) = Some (x, rest)"
    using varint32.dec_enc [of "word_of_nat (length x)" "x @ rest"]
    by (simp add: GetLengthPrefixedSlice_def PutLengthPrefixedSlice_def PutVarint32_def remove_prefix_def)
qed

lemma GetLengthPrefixedSlicePtr_eq: "GetLengthPrefixedSlicePtr p = GetLengthPrefixedSlice p"
  by (auto simp: GetLengthPrefixedSlicePtr_def GetLengthPrefixedSlice_def GetVarint32_def remove_prefix_def
      split: option.splits)


section \<open>Arrays of fixed-width values\<close>

lemma concat_drop:
  assumes "\<And>x. length (f x) = c" "j < length xs"
  shows "drop (j * c) (concat (map f xs)) = f (xs ! j) @ concat (map f (drop (Suc j) xs))"
  using assms(2)
proof (induction xs arbitrary: j)
  case (Cons x xs)
  then show ?case by (cases j) (simp_all add: assms(1))
qed simp

lemma fixed32_array:
  assumes "j < length ws"
  shows "DecodeFixed32 (drop (j * 4) (concat (map EncodeFixed32 ws) @ rest)) = ws ! j"
proof -
  have len: "length (EncodeFixed32 w) = 4" for w by (simp add: EncodeFixed32_def)
  have "length (concat (map EncodeFixed32 ws)) = 4 * length ws" by (induction ws) (simp_all add: len)
  then have "drop (j * 4) (concat (map EncodeFixed32 ws) @ rest) = EncodeFixed32 (ws ! j) @ concat (map EncodeFixed32 (drop (Suc j) ws)) @ rest"
    using concat_drop [of EncodeFixed32 4 j ws, OF len assms] assms by simp
  then show ?thesis by (simp add: DecodeFixed32_bytes)
qed

section \<open>Parsers stay in their input\<close>

lemma GetVarint32PtrFallback_loop_prefix:
  "GetVarint32PtrFallback_loop p shift r = Some (v, q) \<Longrightarrow>
   \<exists>used. p = used @ q \<and> used \<noteq> [] \<and> 7 * length used \<le> 35 - shift"
proof (induction p shift r rule: GetVarint32PtrFallback_loop.induct)
  case (2 b p shift r)
  show ?case
  proof (cases "b AND 128 \<noteq> 0")
    case True
    with 2 obtain used where "p = used @ q" "used \<noteq> []" "7 * length used \<le> 35 - (shift + 7)" "shift \<le> 28"
      by (auto simp: Let_def split: if_splits)
    then show ?thesis by (intro exI [of _ "b # used"]) auto
  next
    case False
    with 2(2) show ?thesis by (intro exI [of _ "[b]"]) (auto simp: Let_def split: if_splits)
  qed
qed simp

lemma GetVarint64Ptr_loop_prefix:
  "GetVarint64Ptr_loop p shift r = Some (v, q) \<Longrightarrow>
   \<exists>used. p = used @ q \<and> used \<noteq> [] \<and> 7 * length used \<le> 70 - shift"
proof (induction p shift r rule: GetVarint64Ptr_loop.induct)
  case (2 b p shift r)
  show ?case
  proof (cases "b AND 128 \<noteq> 0")
    case True
    with 2 obtain used where "p = used @ q" "used \<noteq> []" "7 * length used \<le> 70 - (shift + 7)" "shift \<le> 63"
      by (auto simp: Let_def split: if_splits)
    then show ?thesis by (intro exI [of _ "b # used"]) auto
  next
    case False
    with 2(2) show ?thesis by (intro exI [of _ "[b]"]) (auto simp: Let_def split: if_splits)
  qed
qed simp

lemma GetVarint32_prefix:
  "GetVarint32 p = Some (v, q) \<Longrightarrow> \<exists>used. p = used @ q \<and> used \<noteq> [] \<and> length used \<le> 5"
  using GetVarint32PtrFallback_loop_prefix [of p 0 0 v q]
  by (auto simp: GetVarint32_def GetVarint32Ptr_def GetVarint32PtrFallback_def Let_def
      split: list.splits if_splits intro: exI [of _ "[hd p]"])

lemma GetVarint64_prefix:
  "GetVarint64 p = Some (v, q) \<Longrightarrow> \<exists>used. p = used @ q \<and> used \<noteq> [] \<and> length used \<le> 10"
  using GetVarint64Ptr_loop_prefix [of p 0 0 v q] by (auto simp: GetVarint64_def GetVarint64Ptr_def)

lemma GetLengthPrefixedSlice_prefix:
  assumes "GetLengthPrefixedSlice p = Some (s, q)"
  shows "\<exists>used. p = used @ s @ q \<and> used \<noteq> [] \<and> length used \<le> 5"
proof -
  from assms obtain len p' where 1: "GetVarint32 p = Some (len, p')" "s @ q = p'"
    by (auto simp: GetLengthPrefixedSlice_def remove_prefix_def split: option.splits if_splits)
  with GetVarint32_prefix [OF 1(1)] show ?thesis by blast
qed

lemma GetLengthPrefixedSlice_shorter: "GetLengthPrefixedSlice p = Some (s, q) \<Longrightarrow> length q < length p"
  using GetLengthPrefixedSlice_prefix [of p s q] by auto

lemma PutLengthPrefixedSlice_append: "PutLengthPrefixedSlice dst s = dst @ PutLengthPrefixedSlice [] s"
  by (simp add: PutLengthPrefixedSlice_def PutVarint32_def)

section \<open>Properties\<close>

text \<open>
  Every encoding is read back by its parser, which leaves the rest of the input; the varint
  encoders, the unrolled 32-bit one included, write the base-128 digits of the value, at most five
  or ten of them, and \<^verbatim>\<open>VarintLength\<close> is their number.
\<close>

theorem coding_roundtrip:
  "GetVarint32 (PutVarint32 [] v @ rest) = Some (v, rest)
   \<and> GetVarint64 (PutVarint64 [] w @ rest) = Some (w, rest)
   \<and> DecodeFixed32 (PutFixed32 [] v @ rest) = v \<and> DecodeFixed64 (PutFixed64 [] w @ rest) = w
   \<and> (length s < 2 ^ 32 \<longrightarrow> GetLengthPrefixedSlice (PutLengthPrefixedSlice [] s @ rest) = Some (s, rest))
   \<and> EncodeVarint32 v = varint_bytes (unat v) \<and> length (EncodeVarint32 v) \<le> 5
   \<and> EncodeVarint64 w = varint_bytes (unat w) \<and> length (EncodeVarint64 w) \<le> 10
   \<and> VarintLength w = int (length (EncodeVarint64 w))"
proof (intro conjI impI)
  show "length (EncodeVarint32 v) \<le> 5" unfolding EncodeVarint32_bytes
    by (rule length_varint_bytes_le) (use unat_lt2p [of v] in simp_all)
  show "length (EncodeVarint64 w) \<le> 10" unfolding EncodeVarint64_bytes
    by (rule length_varint_bytes_le) (use unat_lt2p [of w] in simp_all)
  show "VarintLength w = int (length (EncodeVarint64 w))"
    by (simp add: VarintLength_def VarintLength_loop_eq)
qed (simp_all add: PutVarint32_def PutVarint64_def PutFixed32_def PutFixed64_def varint32.dec_enc varint64.dec_enc
      lpslice.dec_enc DecodeFixed32_bytes DecodeFixed64_bytes, simp_all add: EncodeVarint32_bytes EncodeVarint64_bytes)

theorem coding_roundtrip_witness:
  "GetLengthPrefixedSlice (PutLengthPrefixedSlice [] [1, 2, 3] @ [9]) = Some ([1, 2, 3], [9])"
  using coding_roundtrip [of 0 "[9]" 0 "[1, 2, 3]"] by simp

text \<open>
  On any input the parsers only look at bytes they consume, and a result leaves a proper suffix of
  the input: a varint takes one to five or ten bytes, and a slice lies behind its length.
\<close>

theorem coding_parsers_bounded:
  "(GetVarint32 p = Some (v, q) \<longrightarrow> (\<exists>used. p = used @ q \<and> used \<noteq> [] \<and> length used \<le> 5))
   \<and> (GetVarint64 p = Some (w, q) \<longrightarrow> (\<exists>used. p = used @ q \<and> used \<noteq> [] \<and> length used \<le> 10))
   \<and> (GetLengthPrefixedSlice p = Some (s, q) \<longrightarrow> (\<exists>used. p = used @ s @ q \<and> used \<noteq> [] \<and> length used \<le> 5))"
  using GetVarint32_prefix GetVarint64_prefix GetLengthPrefixedSlice_prefix by blast

theorem coding_parsers_bounded_witness:
  "\<exists>used. [0x96, 0x01, 0x07] = used @ [0x07 :: byte] \<and> used \<noteq> [] \<and> length used \<le> 5"
proof -
  have "GetVarint32 [0x96, 0x01, 0x07] = Some (150, [0x07])"
    by (simp add: GetVarint32_def GetVarint32Ptr_def GetVarint32PtrFallback_def)
  then show ?thesis using coding_parsers_bounded [of "[0x96, 0x01, 0x07]" 150 "[0x07]" 0 "[]"] by blast
qed

end
