(* ===== verification/Ldb_Format.thy ===== *)
theory Ldb_Format
  imports Ldb_Coding "HOL-Library.List_Lexorder"
begin

text \<open>
  \<^verbatim>\<open>util/comparator.cc\<close>, \<^verbatim>\<open>db/dbformat.h\<close> and \<^verbatim>\<open>db/dbformat.cc\<close>: the order of user keys and of the
  internal keys the database stores, and the short keys that index blocks are made of. What the rest
  of LevelDB relies on (\<^verbatim>\<open>leveldb/comparator.h\<close>) is the locale \<open>comparator\<close>; the internal key comparator
  is proved to keep it for any user comparator that does. Assertions are preconditions: they are
  compiled out of release builds.
\<close>

section \<open>The bytewise comparator\<close>

definition Bytewise_Compare :: "slice \<Rightarrow> slice \<Rightarrow> int" where
  "Bytewise_Compare a b = Slice_compare a b"

function diff_index_loop :: "byte list \<Rightarrow> slice \<Rightarrow> nat \<Rightarrow> nat \<Rightarrow> nat" where
  "diff_index_loop start limit min_length diff_index =
     (if diff_index < min_length \<and> start ! diff_index = limit ! diff_index
      then diff_index_loop start limit min_length (diff_index + 1) else diff_index)"
  by pat_completeness auto
termination by (relation "measure (\<lambda>(start, limit, n, i). n - i)") auto

declare diff_index_loop.simps [simp del]

definition Bytewise_FindShortestSeparator :: "byte list \<Rightarrow> slice \<Rightarrow> byte list" where
  "Bytewise_FindShortestSeparator start limit =
     (let min_length = min (length start) (length limit);
          diff_index = diff_index_loop start limit min_length 0
      in if diff_index \<ge> min_length then start
         else let diff_byte = start ! diff_index in
              if diff_byte < 0xff \<and> unat diff_byte + 1 < unat (limit ! diff_index)
              then take (diff_index + 1) (start[diff_index := start ! diff_index + 1])
              else start)"

function ShortSuccessor_loop :: "byte list \<Rightarrow> nat \<Rightarrow> byte list" where
  "ShortSuccessor_loop key i =
     (if i < length key
      then let byte = key ! i in
           if byte \<noteq> 0xff then take (i + 1) (key[i := byte + 1]) else ShortSuccessor_loop key (i + 1)
      else key)"
  by pat_completeness auto
termination by (relation "measure (\<lambda>(key, i). length key - i)") auto

declare ShortSuccessor_loop.simps [simp del]

definition Bytewise_FindShortSuccessor :: "byte list \<Rightarrow> byte list" where
  "Bytewise_FindShortSuccessor key = ShortSuccessor_loop key 0"

section \<open>Internal keys\<close>

datatype ValueType = kTypeDeletion | kTypeValue

fun ValueType_value :: "ValueType \<Rightarrow> u64" where
  "ValueType_value kTypeDeletion = 0x0"
| "ValueType_value kTypeValue = 0x1"

definition kValueTypeForSeek :: ValueType where
  "kValueTypeForSeek = kTypeValue"

type_synonym SequenceNumber = u64

definition kMaxSequenceNumber :: SequenceNumber where
  "kMaxSequenceNumber = push_bit 56 0x1 - 1"

record ParsedInternalKey =
  user_key :: slice
  sequence :: SequenceNumber
  key_type :: ValueType

definition InternalKeyEncodingLength :: "ParsedInternalKey \<Rightarrow> nat" where
  "InternalKeyEncodingLength key = length (user_key key) + 8"

definition PackSequenceAndType :: "u64 \<Rightarrow> ValueType \<Rightarrow> u64" where
  "PackSequenceAndType seq t = push_bit 8 seq OR ValueType_value t"

definition AppendInternalKey :: "byte list \<Rightarrow> ParsedInternalKey \<Rightarrow> byte list" where
  "AppendInternalKey result key =
     PutFixed64 (result @ user_key key) (PackSequenceAndType (sequence key) (key_type key))"

definition ExtractUserKey :: "slice \<Rightarrow> slice" where
  "ExtractUserKey internal_key = take (length internal_key - 8) internal_key"

definition ParseInternalKey :: "slice \<Rightarrow> ParsedInternalKey option" where
  "ParseInternalKey internal_key =
     (let n = length internal_key in
      if n < 8 then None
      else let num = DecodeFixed64 (drop (n - 8) internal_key);
               c = num AND 0xff
           in if c \<le> ValueType_value kTypeValue
              then Some \<lparr>user_key = take (n - 8) internal_key, sequence = drop_bit 8 num,
                         key_type = (if c = 0 then kTypeDeletion else kTypeValue)\<rparr>
              else None)"

definition InternalKey_Compare :: "(slice \<Rightarrow> slice \<Rightarrow> int) \<Rightarrow> slice \<Rightarrow> slice \<Rightarrow> int" where
  "InternalKey_Compare user_compare akey bkey =
     (let r = user_compare (ExtractUserKey akey) (ExtractUserKey bkey) in
      if r = 0
      then let anum = DecodeFixed64 (drop (length akey - 8) akey);
               bnum = DecodeFixed64 (drop (length bkey - 8) bkey)
           in if anum > bnum then - 1 else if anum < bnum then 1 else r
      else r)"

definition InternalKey_FindShortestSeparator ::
    "(slice \<Rightarrow> slice \<Rightarrow> int) \<Rightarrow> (byte list \<Rightarrow> slice \<Rightarrow> byte list) \<Rightarrow> byte list \<Rightarrow> slice \<Rightarrow> byte list" where
  "InternalKey_FindShortestSeparator user_compare user_sep start limit =
     (let user_start = ExtractUserKey start;
          user_limit = ExtractUserKey limit;
          tmp = user_sep user_start user_limit
      in if length tmp < length user_start \<and> user_compare user_start tmp < 0
         then PutFixed64 tmp (PackSequenceAndType kMaxSequenceNumber kValueTypeForSeek)
         else start)"

definition InternalKey_FindShortSuccessor ::
    "(slice \<Rightarrow> slice \<Rightarrow> int) \<Rightarrow> (byte list \<Rightarrow> byte list) \<Rightarrow> byte list \<Rightarrow> byte list" where
  "InternalKey_FindShortSuccessor user_compare user_succ key =
     (let ukey = ExtractUserKey key;
          tmp = user_succ ukey
      in if length tmp < length ukey \<and> user_compare ukey tmp < 0
         then PutFixed64 tmp (PackSequenceAndType kMaxSequenceNumber kValueTypeForSeek)
         else key)"

definition InternalFilter_CreateFilter :: "(slice list \<Rightarrow> byte list \<Rightarrow> byte list) \<Rightarrow> slice list \<Rightarrow> byte list \<Rightarrow> byte list" where
  "InternalFilter_CreateFilter user_create keys dst = user_create (map ExtractUserKey keys) dst"

definition InternalFilter_KeyMayMatch :: "(slice \<Rightarrow> slice \<Rightarrow> bool) \<Rightarrow> slice \<Rightarrow> slice \<Rightarrow> bool" where
  "InternalFilter_KeyMayMatch user_match key f = user_match (ExtractUserKey key) f"

text \<open>
  \<^verbatim>\<open>LookupKey\<close>: the array it builds, with the position of \<^verbatim>\<open>kstart_\<close> in it. The array lies in
  \<^verbatim>\<open>space_\<close> or on the heap; its contents do not depend on which. The length is passed to
  \<^verbatim>\<open>EncodeVarint32\<close> as a 32-bit value.
\<close>

record LookupKey =
  lk_bytes :: "byte list"
  lk_kstart :: nat

definition LookupKey_init :: "slice \<Rightarrow> SequenceNumber \<Rightarrow> LookupKey" where
  "LookupKey_init ukey s =
     (let len = EncodeVarint32 (word_of_nat (length ukey + 8)) in
      \<lparr>lk_bytes = len @ ukey @ EncodeFixed64 (PackSequenceAndType s kValueTypeForSeek),
       lk_kstart = length len\<rparr>)"

definition memtable_key :: "LookupKey \<Rightarrow> slice" where
  "memtable_key k = lk_bytes k"

definition internal_key :: "LookupKey \<Rightarrow> slice" where
  "internal_key k = drop (lk_kstart k) (lk_bytes k)"

definition lookup_user_key :: "LookupKey \<Rightarrow> slice" where
  "lookup_user_key k =
     (let ik = drop (lk_kstart k) (lk_bytes k) in take (length ik - 8) ik)"

section \<open>Orders of keys\<close>

text \<open>
  A weak order on the valid keys (entries of a memtable with the same internal key compare equal). It is
  all that sorted containers need; a comparator is one.
\<close>

locale key_order =
  fixes cmp :: "'k \<Rightarrow> 'k \<Rightarrow> int"
    and valid :: "'k \<Rightarrow> bool"
  assumes flip: "valid a \<Longrightarrow> valid b \<Longrightarrow> 0 < cmp b a \<longleftrightarrow> cmp a b < 0"
    and less_trans: "valid a \<Longrightarrow> valid b \<Longrightarrow> valid c \<Longrightarrow> cmp a b < 0 \<Longrightarrow> cmp b c < 0 \<Longrightarrow> cmp a c < 0"
    and not_less_trans: "valid a \<Longrightarrow> valid b \<Longrightarrow> valid c \<Longrightarrow> \<not> cmp a b < 0 \<Longrightarrow> \<not> cmp b c < 0 \<Longrightarrow> \<not> cmp a c < 0"
begin

lemma irrefl: "valid a \<Longrightarrow> \<not> cmp a a < 0"
  using flip [of a a] by linarith

lemma less_not_less: "valid a \<Longrightarrow> valid b \<Longrightarrow> valid c \<Longrightarrow> cmp a b < 0 \<Longrightarrow> \<not> cmp c b < 0 \<Longrightarrow> cmp a c < 0"
  using not_less_trans [of a c b] by blast

end

section \<open>The contract of a comparator\<close>

locale comparator =
  fixes Compare :: "slice \<Rightarrow> slice \<Rightarrow> int"
    and Separator :: "byte list \<Rightarrow> slice \<Rightarrow> byte list"
    and Successor :: "byte list \<Rightarrow> byte list"
    and valid :: "slice \<Rightarrow> bool"
  assumes Compare_eq: "valid a \<Longrightarrow> valid b \<Longrightarrow> Compare a b = 0 \<longleftrightarrow> a = b"
    and Compare_flip: "valid a \<Longrightarrow> valid b \<Longrightarrow> 0 < Compare b a \<longleftrightarrow> Compare a b < 0"
    and Compare_trans: "valid a \<Longrightarrow> valid b \<Longrightarrow> valid c \<Longrightarrow> Compare a b < 0 \<Longrightarrow> Compare b c < 0 \<Longrightarrow> Compare a c < 0"
    and Separator_valid: "valid a \<Longrightarrow> valid b \<Longrightarrow> valid (Separator a b)"
    and Separator_between: "valid a \<Longrightarrow> valid b \<Longrightarrow> Compare a b < 0 \<Longrightarrow>
          Compare a (Separator a b) \<le> 0 \<and> Compare (Separator a b) b < 0"
    and Separator_same: "valid a \<Longrightarrow> Separator a a = a"
    and Successor_valid: "valid a \<Longrightarrow> valid (Successor a)"
    and Successor_above: "valid a \<Longrightarrow> Compare a (Successor a) \<le> 0"
begin

lemma Compare_refl: "valid a \<Longrightarrow> Compare a a = 0"
  by (simp add: Compare_eq)

lemma Compare_le_trans:
  assumes "valid a" "valid b" "valid c" "Compare a b \<le> 0" "Compare b c \<le> 0"
  shows "Compare a c \<le> 0"
proof (cases "a = b \<or> b = c")
  case False
  then have "Compare a b < 0" "Compare b c < 0"
    using assms Compare_eq [of a b] Compare_eq [of b c] by auto
  then show ?thesis using Compare_trans [OF assms(1-3)] by simp
qed (use assms in auto)

lemma Compare_total: "valid a \<Longrightarrow> valid b \<Longrightarrow> Compare a b < 0 \<or> a = b \<or> Compare b a < 0"
  using Compare_eq [of a b] Compare_flip [of b a] by fastforce

lemma Compare_less_le_trans:
  assumes "valid a" "valid b" "valid c" "Compare a b < 0" "Compare b c \<le> 0"
  shows "Compare a c < 0"
  using assms Compare_trans [OF assms(1-3)] Compare_eq [of b c] by fastforce

end

sublocale comparator \<subseteq> key_order Compare valid
proof
  fix a b c
  assume a: "valid a" and b: "valid b"
  show "0 < Compare b a \<longleftrightarrow> Compare a b < 0" by (rule Compare_flip [OF a b])
  assume c: "valid c"
  show "Compare a b < 0 \<Longrightarrow> Compare b c < 0 \<Longrightarrow> Compare a c < 0" by (rule Compare_trans [OF a b c])
  assume "\<not> Compare a b < 0" "\<not> Compare b c < 0"
  then have "Compare b a \<le> 0" "Compare c b \<le> 0" using Compare_flip [OF a b] Compare_flip [OF b c] by auto
  then show "\<not> Compare a c < 0" using Compare_le_trans [OF c b a] Compare_flip [OF a c] by auto
qed

section \<open>Bytewise order is lexicographic order\<close>

lemma Slice_compare_lex:
  "Slice_compare a b = (if a < b then - 1 else if a = b then 0 else 1)"
proof -
  have "(let r = memcmp (take (min (length a) (length b)) a) (take (min (length a) (length b)) b)
         in if r = 0 then (if length a < length b then - 1 else if length a > length b then 1 else r) else r)
      = (if a < b then - 1 else if a = b then 0 else 1)"
  proof (induction a b rule: list_induct2')
    case (4 x xs y ys)
    then show ?case by (auto simp: Let_def split: if_splits)
  qed (simp_all add: Let_def)
  moreover have "(if length a < length b then length a else length b) = min (length a) (length b)" by simp
  ultimately show ?thesis by (simp add: Slice_compare_def)
qed

lemma Bytewise_Compare_lex: "Bytewise_Compare a b = (if a < b then - 1 else if a = b then 0 else 1)"
  unfolding Bytewise_Compare_def by (rule Slice_compare_lex)

lemma append_less_append [simp]: "p @ xs < p @ (ys :: byte list) \<longleftrightarrow> xs < ys"
  by (induction p) auto

lemma diff_index_loop_spec:
  assumes "diff_index_loop a b n i = d" "i \<le> n"
  shows "i \<le> d \<and> d \<le> n \<and> (\<forall>j. i \<le> j \<and> j < d \<longrightarrow> a ! j = b ! j) \<and> (d < n \<longrightarrow> a ! d \<noteq> b ! d)"
  using assms
proof (induction a b n i rule: diff_index_loop.induct)
  case (1 a b n i)
  show ?case
  proof (cases "i < n \<and> a ! i = b ! i")
    case True
    then have "diff_index_loop a b n (i + 1) = d"
      using 1(2) by (subst (asm) diff_index_loop.simps) simp
    note IH = 1(1) [OF True this]
    have "a ! j = b ! j" if "i \<le> j" "j < d" for j
      using that IH True by (cases "j = i") auto
    with IH True show ?thesis by auto
  next
    case False
    then have "d = i" using 1(2) by (subst (asm) diff_index_loop.simps) auto
    with False 1(3) show ?thesis by auto
  qed
qed

lemma split_at: "i < length xs \<Longrightarrow> xs = take i xs @ xs ! i # drop (Suc i) xs"
  by (rule id_take_nth_drop)

lemma Bytewise_Separator_cases:
  obtains "Bytewise_FindShortestSeparator a b = a"
  | p x u y v where "a = p @ x # u" "b = p @ y # v" "unat x + 1 < unat y"
      "Bytewise_FindShortestSeparator a b = p @ [x + 1]"
proof -
  let ?n = "min (length a) (length b)"
  define d where "d = diff_index_loop a b ?n 0"
  from diff_index_loop_spec [of a b ?n 0 d] have d: "d \<le> ?n" "\<forall>j < d. a ! j = b ! j" by (auto simp: d_def)
  show thesis
  proof (cases "d < ?n \<and> a ! d < 0xff \<and> unat (a ! d) + 1 < unat (b ! d)")
    case True
    have "take d a = take d b" using d True by (intro nth_equalityI) auto
    moreover have "\<not> ?n \<le> d" using True by auto
    then have "Bytewise_FindShortestSeparator a b = take d a @ [a ! d + 1]"
      using True by (auto simp: Bytewise_FindShortestSeparator_def Let_def d_def [symmetric] take_Suc_conv_app_nth)
    ultimately show thesis
      using that(2) [of "take d a" "a ! d" "drop (Suc d) a" "b ! d" "drop (Suc d) b"] True
        split_at [of d a] split_at [of d b] by simp
  next
    case False
    then have "Bytewise_FindShortestSeparator a b = a"
      by (auto simp: Bytewise_FindShortestSeparator_def Let_def d_def [symmetric])
    then show thesis by (rule that(1))
  qed
qed

lemma byte_inc: "unat x + 1 < unat (y :: byte) \<Longrightarrow> x < x + 1 \<and> x + 1 < y"
  using unat_lt2p [of y] by (auto simp: word_less_nat_alt unat_word_ariths)

lemma ShortSuccessor_above: "key \<le> ShortSuccessor_loop key i"
proof (induction key i rule: ShortSuccessor_loop.induct)
  case (1 key i)
  show ?case
  proof (cases "i < length key \<and> key ! i \<noteq> 0xff")
    case True
    have "unat (key ! i) \<noteq> 255"
    proof
      assume "unat (key ! i) = 255"
      then have "key ! i = 0xff" by (intro unat_eqI) simp
      with True show False by simp
    qed
    then have "unat (key ! i) < 255" using unat_lt2p [of "key ! i"] by simp
    then have "key ! i < key ! i + 1" by (simp add: word_less_nat_alt unat_word_ariths)
    moreover have "ShortSuccessor_loop key i = take i key @ [key ! i + 1]"
      using True by (subst ShortSuccessor_loop.simps) (simp add: Let_def take_Suc_conv_app_nth)
    ultimately have "key < ShortSuccessor_loop key i"
      using split_at [of i key] True by (metis append_less_append Cons_less_Cons)
    then show ?thesis by simp
  next
    case False
    then show ?thesis
      using 1 [of "key ! i"] by (subst ShortSuccessor_loop.simps) (auto simp: Let_def)
  qed
qed

interpretation bytewise: comparator Bytewise_Compare Bytewise_FindShortestSeparator
    Bytewise_FindShortSuccessor "\<lambda>_. True"
proof
  fix a b :: slice
  assume less: "Bytewise_Compare a b < 0"
  show "Bytewise_Compare a (Bytewise_FindShortestSeparator a b) \<le> 0
      \<and> Bytewise_Compare (Bytewise_FindShortestSeparator a b) b < 0"
  proof (cases rule: Bytewise_Separator_cases [of a b])
    case 1
    with less show ?thesis by (simp add: Bytewise_Compare_lex)
  next
    case (2 p x u y v)
    then show ?thesis using byte_inc [OF 2(3)] by (simp add: Bytewise_Compare_lex)
  qed
next
  fix a :: slice
  show "Bytewise_FindShortestSeparator a a = a"
    by (cases rule: Bytewise_Separator_cases [of a a]) auto
  show "Bytewise_Compare a (Bytewise_FindShortSuccessor a) \<le> 0"
    using ShortSuccessor_above [of a 0] by (auto simp: Bytewise_Compare_lex Bytewise_FindShortSuccessor_def)
qed (auto simp: Bytewise_Compare_lex split: if_splits)



section \<open>The internal key comparator\<close>

definition key_tag :: "slice \<Rightarrow> u64" where
  "key_tag k = DecodeFixed64 (drop (length k - 8) k)"

lemma DecodeFixed64_inj:
  assumes "length a = 8" "length b = 8" "DecodeFixed64 a = DecodeFixed64 b"
  shows "a = b"
proof -
  have "le_val a < 2 ^ 64" "le_val b < 2 ^ 64" using le_val_bound [of a] le_val_bound [of b] assms by simp_all
  then have "unat (DecodeFixed64 a) = le_val a" "unat (DecodeFixed64 b) = le_val b"
    using assms(1,2) by (simp_all add: DecodeFixed64_def unat_of_nat)
  then have "le_val a = le_val b" using assms(3) by simp
  then show ?thesis using le_bytes_le_val [OF assms(1)] le_bytes_le_val [OF assms(2)] by metis
qed

lemma internal_key_eqI:
  assumes "8 \<le> length a" "8 \<le> length b" "ExtractUserKey a = ExtractUserKey b" "key_tag a = key_tag b"
  shows "a = b"
proof -
  have "drop (length a - 8) a = drop (length b - 8) b"
    by (rule DecodeFixed64_inj) (use assms in \<open>simp_all add: key_tag_def\<close>)
  then show ?thesis
    using assms(3) append_take_drop_id [of "length a - 8" a] append_take_drop_id [of "length b - 8" b]
    unfolding ExtractUserKey_def by metis
qed

lemma PutFixed64_key [simp]:
  "ExtractUserKey (PutFixed64 u n) = u" "key_tag (PutFixed64 u n) = n" "length (PutFixed64 u n) = length u + 8"
proof -
  have l: "length (EncodeFixed64 n) = 8" by (simp add: EncodeFixed64_def)
  then show "ExtractUserKey (PutFixed64 u n) = u" "length (PutFixed64 u n) = length u + 8"
    by (simp_all add: ExtractUserKey_def PutFixed64_def)
  show "key_tag (PutFixed64 u n) = n"
    using l DecodeFixed64_bytes [of n "[]"] by (simp add: key_tag_def PutFixed64_def)
qed

lemma InternalKey_Compare_alt:
  "InternalKey_Compare cmp a b =
     (let r = cmp (ExtractUserKey a) (ExtractUserKey b) in
      if r = 0 then (if key_tag a > key_tag b then - 1 else if key_tag a < key_tag b then 1 else 0) else r)"
  by (simp add: InternalKey_Compare_def key_tag_def Let_def)

definition internal_valid :: "(slice \<Rightarrow> bool) \<Rightarrow> slice \<Rightarrow> bool" where
  "internal_valid valid k \<longleftrightarrow> 8 \<le> length k \<and> valid (ExtractUserKey k)"

context comparator
begin

lemma internal_comparator:
  "comparator (InternalKey_Compare Compare) (InternalKey_FindShortestSeparator Compare Separator)
     (InternalKey_FindShortSuccessor Compare Successor) (internal_valid valid)"
proof (unfold_locales, goal_cases)
  case (1 a b)
  have v: "valid (ExtractUserKey a)" "valid (ExtractUserKey b)" "8 \<le> length a" "8 \<le> length b"
    using 1 by (auto simp: internal_valid_def)
  have "InternalKey_Compare Compare a b = 0 \<longleftrightarrow> ExtractUserKey a = ExtractUserKey b \<and> key_tag a = key_tag b"
    unfolding InternalKey_Compare_alt Let_def using Compare_eq [OF v(1,2)] by (auto split: if_splits)
  then show ?case using internal_key_eqI [OF v(3,4)] by blast
next
  case (2 a b)
  then have v: "valid (ExtractUserKey a)" "valid (ExtractUserKey b)" by (auto simp: internal_valid_def)
  have "Compare (ExtractUserKey b) (ExtractUserKey a) = 0 \<longleftrightarrow> Compare (ExtractUserKey a) (ExtractUserKey b) = 0"
    using Compare_eq [OF v] Compare_eq [OF v(2,1)] by auto
  then show ?case
    using Compare_flip [OF v] by (auto simp: InternalKey_Compare_alt Let_def split: if_splits)
next
  case (3 a b c)
  let ?a = "ExtractUserKey a" and ?b = "ExtractUserKey b" and ?c = "ExtractUserKey c"
  have v: "valid ?a" "valid ?b" "valid ?c" using 3 by (auto simp: internal_valid_def)
  show ?case
    using 3(4,5) Compare_trans [OF v] Compare_eq [OF v(1,2)] Compare_eq [OF v(2,3)] Compare_eq [OF v(1,3)] Compare_refl [OF v(1)]
    by (auto simp: InternalKey_Compare_alt Let_def split: if_splits)
next
  case (4 a b)
  then show ?case
    using Separator_valid [of "ExtractUserKey a" "ExtractUserKey b"]
    by (auto simp: InternalKey_FindShortestSeparator_def internal_valid_def Let_def)
next
  case (5 a b)
  let ?a = "ExtractUserKey a" and ?b = "ExtractUserKey b"
  have v: "valid ?a" "valid ?b" using 5 by (auto simp: internal_valid_def)
  have refl: "InternalKey_Compare Compare a a = 0"
    using Compare_refl [OF v(1)] by (simp add: InternalKey_Compare_alt)
  show ?case
  proof (cases "length (Separator ?a ?b) < length ?a \<and> Compare ?a (Separator ?a ?b) < 0")
    case True
    have "?a \<noteq> ?b" using True Separator_same [OF v(1)] by auto
    then have "Compare ?a ?b < 0"
      using 5(3) Compare_eq [OF v] by (auto simp: InternalKey_Compare_alt Let_def split: if_splits)
    from Separator_between [OF v this] True show ?thesis
      by (simp add: InternalKey_FindShortestSeparator_def InternalKey_Compare_alt Let_def)
  next
    case False
    then have "InternalKey_FindShortestSeparator Compare Separator a b = a"
      by (auto simp: InternalKey_FindShortestSeparator_def Let_def)
    with refl 5(3) show ?thesis by simp
  qed
next
  case (6 a)
  then show ?case
    using Separator_same [of "ExtractUserKey a"]
    by (simp add: InternalKey_FindShortestSeparator_def internal_valid_def Let_def)
next
  case (7 a)
  then show ?case
    using Successor_valid [of "ExtractUserKey a"]
    by (auto simp: InternalKey_FindShortSuccessor_def internal_valid_def Let_def)
next
  case (8 a)
  then show ?case
    using Compare_refl [of "ExtractUserKey a"]
    by (auto simp: InternalKey_FindShortSuccessor_def InternalKey_Compare_alt internal_valid_def Let_def)
qed

end

interpretation internal_bytewise: comparator "InternalKey_Compare Bytewise_Compare"
    "InternalKey_FindShortestSeparator Bytewise_Compare Bytewise_FindShortestSeparator"
    "InternalKey_FindShortSuccessor Bytewise_Compare Bytewise_FindShortSuccessor" "internal_valid (\<lambda>_. True)"
  by (rule bytewise.internal_comparator)

section \<open>Packed sequence numbers\<close>

lemma PackSequenceAndType_unat:
  assumes "seq \<le> kMaxSequenceNumber"
  shows "unat (PackSequenceAndType seq t) = unat seq * 256 + unat (ValueType_value t)"
proof -
  have s: "unat seq < 2 ^ 56" using assms by (simp add: kMaxSequenceNumber_def word_le_nat_alt)
  have "push_bit 8 seq OR ValueType_value t = push_bit 8 seq + ValueType_value t"
    by (rule disjunctive_add [symmetric]) (cases t; auto simp: bit_push_bit_iff bit_1_iff)
  then have "PackSequenceAndType seq t = word_of_nat (unat seq * 256 + unat (ValueType_value t))"
    by (simp add: PackSequenceAndType_def push_bit_eq_mult)
  moreover have "unat seq * 256 + unat (ValueType_value t) < 2 ^ 64"
    using s by (cases t) auto
  ultimately show ?thesis by (simp add: unat_of_nat del: of_nat_add of_nat_mult)
qed

lemma Unpack:
  assumes "seq \<le> kMaxSequenceNumber"
  shows "drop_bit 8 (PackSequenceAndType seq t) = seq" "PackSequenceAndType seq t AND 0xff = ValueType_value t"
proof -
  show "drop_bit 8 (PackSequenceAndType seq t) = seq"
    by (rule unat_eqI) (cases t; simp add: unat_drop_bit PackSequenceAndType_unat [OF assms])
  show "PackSequenceAndType seq t AND 0xff = ValueType_value t"
  proof (rule unat_eqI)
    have "(unat seq * 256 + unat (ValueType_value t)) mod 256 = unat (ValueType_value t) mod 256"
      by (rule mod_mult_self3)
    also have "\<dots> = unat (ValueType_value t)" by (cases t) simp_all
    finally show "unat (PackSequenceAndType seq t AND 0xff) = unat (ValueType_value t)"
      by (simp add: unsigned_and_eq nat_and_255 PackSequenceAndType_unat [OF assms])
  qed
qed

lemma Pack_less_iff:
  assumes "s1 \<le> kMaxSequenceNumber" "s2 \<le> kMaxSequenceNumber"
  shows "PackSequenceAndType s1 t1 < PackSequenceAndType s2 t2 \<longleftrightarrow>
     s1 < s2 \<or> s1 = s2 \<and> t1 = kTypeDeletion \<and> t2 = kTypeValue"
proof -
  have "s1 = s2 \<longleftrightarrow> unat s1 = unat s2" using unat_eqI [of s1 s2] by auto
  then show ?thesis
    unfolding word_less_nat_alt PackSequenceAndType_unat [OF assms(1)] PackSequenceAndType_unat [OF assms(2)]
    by (cases t1; cases t2; simp; linarith)
qed

lemma AppendInternalKey_tag:
  "AppendInternalKey [] k = PutFixed64 (user_key k) (PackSequenceAndType (sequence k) (key_type k))"
  by (simp add: AppendInternalKey_def)

lemma LookupKey_internal:
  "internal_key (LookupKey_init u s) = PutFixed64 u (PackSequenceAndType s kValueTypeForSeek)"
  by (simp add: internal_key_def LookupKey_init_def Let_def PutFixed64_def)

section \<open>Properties\<close>

text \<open>
  C15. Internal keys are ordered by increasing user key (bytewise), then by decreasing sequence
  number, then by decreasing type.
\<close>

theorem internal_key_order:
  assumes "sequence a \<le> kMaxSequenceNumber" "sequence b \<le> kMaxSequenceNumber"
  shows "InternalKey_Compare Bytewise_Compare (AppendInternalKey [] a) (AppendInternalKey [] b) < 0 \<longleftrightarrow>
     user_key a < user_key b
     \<or> user_key a = user_key b \<and> (sequence a > sequence b
         \<or> sequence a = sequence b \<and> key_type a = kTypeValue \<and> key_type b = kTypeDeletion)"
  unfolding InternalKey_Compare_alt AppendInternalKey_tag
  using Pack_less_iff [OF assms] Pack_less_iff [OF assms(2,1)]
  by (auto simp: Bytewise_Compare_lex Let_def)

theorem internal_key_order_witness:
  "InternalKey_Compare Bytewise_Compare
     (AppendInternalKey [] \<lparr>user_key = [107], sequence = 9, key_type = kTypeValue\<rparr>)
     (AppendInternalKey [] \<lparr>user_key = [107], sequence = 7, key_type = kTypeValue\<rparr>) < 0"
  using internal_key_order [of "\<lparr>user_key = [107], sequence = 9, key_type = kTypeValue\<rparr>"
      "\<lparr>user_key = [107], sequence = 7, key_type = kTypeValue\<rparr>"]
  by (simp add: kMaxSequenceNumber_def word_le_nat_alt word_less_nat_alt)

text \<open>
  C16. The short keys of index blocks: the separator of two internal keys in order lies between them,
  the lower end included, and the short successor of a key is not below it.
\<close>

theorem internal_short_keys:
  assumes "8 \<le> length start" "8 \<le> length limit" "InternalKey_Compare Bytewise_Compare start limit < 0"
  shows "let sep = InternalKey_FindShortestSeparator Bytewise_Compare Bytewise_FindShortestSeparator start limit;
             succ = InternalKey_FindShortSuccessor Bytewise_Compare Bytewise_FindShortSuccessor start
         in InternalKey_Compare Bytewise_Compare start sep \<le> 0 \<and> InternalKey_Compare Bytewise_Compare sep limit < 0
            \<and> InternalKey_Compare Bytewise_Compare start succ \<le> 0"
  using internal_bytewise.Separator_between [of start limit] internal_bytewise.Successor_above [of start] assms
  by (simp add: Let_def internal_valid_def)

theorem internal_short_keys_witness:
  "let start = AppendInternalKey [] \<lparr>user_key = [97, 98], sequence = 9, key_type = kTypeValue\<rparr>;
       limit = AppendInternalKey [] \<lparr>user_key = [122], sequence = 7, key_type = kTypeValue\<rparr>;
       sep = InternalKey_FindShortestSeparator Bytewise_Compare Bytewise_FindShortestSeparator start limit
   in InternalKey_Compare Bytewise_Compare start sep \<le> 0 \<and> InternalKey_Compare Bytewise_Compare sep limit < 0"
proof -
  let ?a = "AppendInternalKey [] \<lparr>user_key = [97, 98], sequence = 9, key_type = kTypeValue\<rparr>"
  let ?b = "AppendInternalKey [] \<lparr>user_key = [122], sequence = 7, key_type = kTypeValue\<rparr>"
  have "InternalKey_Compare Bytewise_Compare ?a ?b < 0"
    by (simp add: InternalKey_Compare_alt AppendInternalKey_tag Bytewise_Compare_lex)
  then show ?thesis
    using internal_short_keys [of ?a ?b] by (simp add: Let_def AppendInternalKey_tag)
qed

text \<open>
  C17. Internal keys and their parsed form determine each other, and the key a lookup at snapshot \<open>s\<close>
  seeks for comes before exactly the entries of its user key that are visible at \<open>s\<close>: those with a
  sequence number of at most \<open>s\<close>. The memtable key of the lookup is its internal key behind its length.
\<close>

theorem lookup_key_seek:
  assumes "sequence k \<le> kMaxSequenceNumber" "s \<le> kMaxSequenceNumber" "length (user_key k) + 8 < 2 ^ 32"
  shows "ParseInternalKey (AppendInternalKey [] k) = Some k
    \<and> (InternalKey_Compare Bytewise_Compare (internal_key (LookupKey_init (user_key k) s)) (AppendInternalKey [] k) \<le> 0
         \<longleftrightarrow> sequence k \<le> s)
    \<and> GetLengthPrefixedSlicePtr (memtable_key (LookupKey_init (user_key k) s))
         = Some (internal_key (LookupKey_init (user_key k) s), [])
    \<and> lookup_user_key (LookupKey_init (user_key k) s) = user_key k"
proof (intro conjI)
  show "ParseInternalKey (AppendInternalKey [] k) = Some k"
  proof -
    have "DecodeFixed64 (drop (length (user_key k)) (AppendInternalKey [] k)) = PackSequenceAndType (sequence k) (key_type k)"
      using PutFixed64_key(2) [of "user_key k"] by (simp add: key_tag_def AppendInternalKey_tag)
    then show ?thesis
      using Unpack [OF assms(1)] PutFixed64_key(1) [of "user_key k" "PackSequenceAndType (sequence k) (key_type k)"]
      by (cases "key_type k") (auto simp: ParseInternalKey_def Let_def AppendInternalKey_tag ExtractUserKey_def)
  qed
  have "\<not> PackSequenceAndType s kTypeValue < PackSequenceAndType (sequence k) (key_type k) \<longleftrightarrow> sequence k \<le> s"
    using Pack_less_iff [OF assms(2,1)] by auto
  then show "InternalKey_Compare Bytewise_Compare (internal_key (LookupKey_init (user_key k) s)) (AppendInternalKey [] k) \<le> 0
       \<longleftrightarrow> sequence k \<le> s"
    by (auto simp: InternalKey_Compare_alt LookupKey_internal AppendInternalKey_tag Bytewise_Compare_lex kValueTypeForSeek_def Let_def)
  let ?ik = "PutFixed64 (user_key k) (PackSequenceAndType s kValueTypeForSeek)"
  have "memtable_key (LookupKey_init (user_key k) s) = PutLengthPrefixedSlice [] ?ik"
    by (simp add: memtable_key_def LookupKey_init_def PutLengthPrefixedSlice_def PutVarint32_def Let_def)
       (simp add: PutFixed64_def)
  then show "GetLengthPrefixedSlicePtr (memtable_key (LookupKey_init (user_key k) s))
      = Some (internal_key (LookupKey_init (user_key k) s), [])"
    using lpslice.dec_enc [of ?ik "[]"] assms(3) by (simp add: GetLengthPrefixedSlicePtr_eq LookupKey_internal)
  show "lookup_user_key (LookupKey_init (user_key k) s) = user_key k"
    using LookupKey_internal [of "user_key k" s] PutFixed64_key(1)
    by (simp add: lookup_user_key_def internal_key_def Let_def ExtractUserKey_def)
qed

theorem lookup_key_seek_witness:
  "InternalKey_Compare Bytewise_Compare (internal_key (LookupKey_init [107] 8))
     (AppendInternalKey [] \<lparr>user_key = [107], sequence = 7, key_type = kTypeDeletion\<rparr>) \<le> 0"
  using lookup_key_seek [of "\<lparr>user_key = [107], sequence = 7, key_type = kTypeDeletion\<rparr>" 8]
  by (simp add: kMaxSequenceNumber_def word_le_nat_alt)

end
