(* ===== verification/Ldb_Bloom.thy ===== *)
theory Ldb_Bloom
  imports Ldb_Format
begin

text \<open>
  \<^verbatim>\<open>util/hash.cc\<close> and \<^verbatim>\<open>util/bloom.cc\<close>: the hash function and the bloom filter policy. What the table
  reader relies on (\<^verbatim>\<open>leveldb/filter_policy.h\<close>) is the locale \<open>filter_policy\<close>: a filter is appended to
  the string, and a key the filter was made of always matches. The filter of internal keys
  (\<^verbatim>\<open>db/dbformat.cc\<close>) keeps the contract of the user's policy.
\<close>

section \<open>The hash function\<close>

fun Hash_words :: "byte list \<Rightarrow> u32 \<Rightarrow> u32 \<times> byte list" where
  "Hash_words (a # b # c # d # data) h =
     (let w = DecodeFixed32 [a, b, c, d];
          h = h + w;
          h = h * 0xc6a4a793;
          h = h XOR drop_bit 16 h
      in Hash_words data h)"
| "Hash_words data h = (h, data)"

definition Hash_last :: "u32 \<Rightarrow> byte \<Rightarrow> u32" where
  "Hash_last h a =
     (let h = h + ucast a;
          h = h * 0xc6a4a793
      in h XOR drop_bit 24 h)"

definition Hash :: "byte list \<Rightarrow> u32 \<Rightarrow> u32" where
  "Hash data seed =
     (case Hash_words data (seed XOR (word_of_nat (length data) * 0xc6a4a793)) of
        (h, [a, b, c]) \<Rightarrow> Hash_last (h + push_bit 16 (ucast c) + push_bit 8 (ucast b)) a
      | (h, [a, b]) \<Rightarrow> Hash_last (h + push_bit 8 (ucast b)) a
      | (h, [a]) \<Rightarrow> Hash_last h a
      | (h, _) \<Rightarrow> h)"

definition BloomHash :: "slice \<Rightarrow> u32" where
  "BloomHash key = Hash key 0xbc9f1d34"

section \<open>The bloom filter\<close>

record BloomFilterPolicy =
  bp_bits_per_key :: u64
  bp_k :: u64

text \<open>
  The number of probes is computed in floating point, \<^verbatim>\<open>bits_per_key * 0.69\<close> rounded towards zero and
  then limited to 1..30. Below the limit the product is at least 0.01 away from any integer other
  than 0, so the integer quotient is the same number; above it both are limited to 30. A negative
  \<^verbatim>\<open>bits_per_key\<close> is outside the domain of the C conversion.
\<close>

definition NewBloomFilterPolicy :: "nat \<Rightarrow> BloomFilterPolicy" where
  "NewBloomFilterPolicy bits_per_key =
     (let k = bits_per_key * 69 div 100;
          k = (if k < 1 then 1 else k);
          k = (if k > 30 then 30 else k)
      in \<lparr>bp_bits_per_key = word_of_nat bits_per_key, bp_k = word_of_nat k\<rparr>)"

definition bloom_delta :: "u32 \<Rightarrow> u32" where
  "bloom_delta h = drop_bit 17 h OR push_bit 15 h"

definition bloom_bitpos :: "u32 \<Rightarrow> u64 \<Rightarrow> u32" where
  "bloom_bitpos h bits = ucast (ucast h mod bits)"

fun bloom_set :: "nat \<Rightarrow> u64 \<Rightarrow> u32 \<Rightarrow> u32 \<Rightarrow> byte list \<Rightarrow> byte list" where
  "bloom_set 0 bits h delta array = array"
| "bloom_set (Suc j) bits h delta array =
     (let bitpos = bloom_bitpos h bits;
          i = unat (bitpos div 8)
      in bloom_set j bits (h + delta) delta (array[i := array ! i OR push_bit (unat (bitpos mod 8)) 1]))"

fun bloom_add_keys :: "BloomFilterPolicy \<Rightarrow> u64 \<Rightarrow> slice list \<Rightarrow> byte list \<Rightarrow> byte list" where
  "bloom_add_keys p bits [] array = array"
| "bloom_add_keys p bits (key # keys) array =
     (let h = BloomHash key
      in bloom_add_keys p bits keys (bloom_set (unat (bp_k p)) bits h (bloom_delta h) array))"

definition bloom_bytes :: "BloomFilterPolicy \<Rightarrow> slice list \<Rightarrow> u64" where
  "bloom_bytes p keys =
     (let bits = word_of_nat (length keys) * bp_bits_per_key p;
          bits = (if bits < 64 then 64 else bits)
      in (bits + 7) div 8)"

definition Bloom_CreateFilter :: "BloomFilterPolicy \<Rightarrow> slice list \<Rightarrow> byte list \<Rightarrow> byte list" where
  "Bloom_CreateFilter p keys dst =
     (let bytes = bloom_bytes p keys;
          bits = bytes * 8;
          array = bloom_add_keys p bits keys (replicate (unat bytes) 0)
      in dst @ array @ [ucast (bp_k p)])"

fun bloom_probe :: "nat \<Rightarrow> u64 \<Rightarrow> u32 \<Rightarrow> u32 \<Rightarrow> byte list \<Rightarrow> bool" where
  "bloom_probe 0 bits h delta array = True"
| "bloom_probe (Suc j) bits h delta array =
     (let bitpos = bloom_bitpos h bits in
      if array ! unat (bitpos div 8) AND push_bit (unat (bitpos mod 8)) 1 = 0 then False
      else bloom_probe j bits (h + delta) delta array)"

text \<open>The stored number of probes is a \<^verbatim>\<open>char\<close>: a byte from 128 on converts to a huge \<^verbatim>\<open>size_t\<close>.\<close>

definition Bloom_KeyMayMatch :: "slice \<Rightarrow> slice \<Rightarrow> bool" where
  "Bloom_KeyMayMatch key bloom_filter =
     (let len = length bloom_filter in
      if len < 2 then False
      else let bits = word_of_nat (len - 1) * 8 :: u64;
               k = scast (bloom_filter ! (len - 1)) :: u64
           in if k > 30 then True
              else let h = BloomHash key
                   in bloom_probe (unat k) bits h (bloom_delta h) bloom_filter)"

section \<open>The contract of a filter policy\<close>

locale filter_policy =
  fixes CreateFilter :: "slice list \<Rightarrow> byte list \<Rightarrow> byte list"
    and KeyMayMatch :: "slice \<Rightarrow> slice \<Rightarrow> bool"
    and valid :: "slice list \<Rightarrow> bool"
  assumes append_only: "take (length dst) (CreateFilter keys dst) = dst"
    and no_false_negative:
      "valid keys \<Longrightarrow> key \<in> set keys \<Longrightarrow> KeyMayMatch key (drop (length dst) (CreateFilter keys dst))"
begin

lemma internal_filter_policy:
  "filter_policy (InternalFilter_CreateFilter CreateFilter) (InternalFilter_KeyMayMatch KeyMayMatch)
     (\<lambda>keys. valid (map ExtractUserKey keys))"
  by unfold_locales
     (auto simp: InternalFilter_CreateFilter_def InternalFilter_KeyMayMatch_def append_only no_false_negative)

end

section \<open>No false negatives\<close>

lemma bloom_test: "x AND push_bit n 1 = 0 \<longleftrightarrow> \<not> bit (x :: byte) n"
  using and_exp_eq_0_iff_not_bit [of x n] by (simp add: push_bit_eq_mult)

lemma bloom_probe_bits:
  "bloom_probe (Suc j) bits h d array \<longleftrightarrow>
     bit (array ! unat (bloom_bitpos h bits div 8)) (unat (bloom_bitpos h bits mod 8))
     \<and> bloom_probe j bits (h + d) d array"
  unfolding bloom_probe.simps Let_def bloom_test by simp

declare bloom_probe.simps(2) [simp del]

definition bits_subset :: "byte list \<Rightarrow> byte list \<Rightarrow> bool" where
  "bits_subset a b \<longleftrightarrow> length a = length b \<and> (\<forall>i < length a. \<forall>n. bit (a ! i) n \<longrightarrow> bit (b ! i) n)"

lemma length_bloom_set [simp]: "length (bloom_set j bits h d array) = length array"
  by (induction j arbitrary: h array) (simp_all add: Let_def)

lemma length_bloom_add_keys [simp]: "length (bloom_add_keys p bits keys array) = length array"
  by (induction keys arbitrary: array) (simp_all add: Let_def)

lemma bits_subset_refl [simp]: "bits_subset a a"
  by (simp add: bits_subset_def)

lemma bits_subset_trans: "bits_subset a b \<Longrightarrow> bits_subset b c \<Longrightarrow> bits_subset a c"
  by (simp add: bits_subset_def)

lemma bits_subset_update: "bits_subset array (array[i := array ! i OR w])"
  unfolding bits_subset_def by (cases "i < length array") (auto simp: nth_list_update bit_or_iff)

lemma bits_subset_set: "bits_subset array (bloom_set j bits h d array)"
proof (induction j arbitrary: h array)
  case (Suc j)
  show ?case
    unfolding bloom_set.simps Let_def by (rule bits_subset_trans [OF bits_subset_update Suc])
qed simp

lemma bits_subset_add: "bits_subset array (bloom_add_keys p bits keys array)"
proof (induction keys arbitrary: array)
  case (Cons key keys)
  show ?case
    unfolding bloom_add_keys.simps Let_def by (rule bits_subset_trans [OF bits_subset_set Cons])
qed simp

lemma bloom_probe_mono:
  assumes "bits_subset a b" "\<And>h. unat (bloom_bitpos h bits div 8) < length a"
  shows "bloom_probe j bits h d a \<Longrightarrow> bloom_probe j bits h d b"
proof (induction j arbitrary: h)
  case (Suc j)
  then show ?case using assms unfolding bloom_probe_bits bits_subset_def by blast
qed simp

lemma bloom_probe_set:
  assumes "\<And>h. unat (bloom_bitpos h bits div 8) < length array"
  shows "bloom_probe j bits h d (bloom_set j bits h d array)"
  using assms
proof (induction j arbitrary: h array)
  case (Suc j)
  let ?p = "bloom_bitpos h bits"
  let ?i = "unat (?p div 8)" and ?n = "unat (?p mod 8)"
  let ?a = "array[?i := array ! ?i OR push_bit ?n 1]"
  have n: "?n < 8" by (simp add: unat_mod)
  have i: "?i < length array" by (rule Suc.prems)
  have "bit (push_bit ?n (1 :: byte)) ?n" using n by (simp only: bit_push_bit_iff) simp
  then have "bit (?a ! ?i) ?n" unfolding nth_list_update_eq [OF i] bit_or_iff by blast
  moreover have "bits_subset ?a (bloom_set j bits (h + d) d ?a)" by (rule bits_subset_set)
  ultimately have "bit (bloom_set j bits (h + d) d ?a ! ?i) ?n"
    using i unfolding bits_subset_def by simp
  moreover have "bloom_probe j bits (h + d) d (bloom_set j bits (h + d) d ?a)"
    using Suc.prems by (intro Suc.IH) simp
  ultimately show ?case unfolding bloom_probe_bits bloom_set.simps Let_def by blast
qed simp

lemma bloom_add_keys_member:
  assumes "\<And>h. unat (bloom_bitpos h bits div 8) < length array" "key \<in> set keys"
  shows "bloom_probe (unat (bp_k p)) bits (BloomHash key) (bloom_delta (BloomHash key))
           (bloom_add_keys p bits keys array)"
  using assms
proof (induction keys arbitrary: array)
  case (Cons key' keys)
  let ?array = "bloom_set (unat (bp_k p)) bits (BloomHash key') (bloom_delta (BloomHash key')) array"
  show ?case
  proof (cases "key = key'")
    case True
    have "bloom_probe (unat (bp_k p)) bits (BloomHash key) (bloom_delta (BloomHash key)) ?array"
      unfolding True by (rule bloom_probe_set [OF Cons.prems(1)])
    then show ?thesis
      using bloom_probe_mono [OF bits_subset_add, of bits ?array] Cons.prems(1) by (simp add: Let_def)
  next
    case False
    with Cons show ?thesis by (simp add: Let_def)
  qed
qed simp

lemma bloom_probe_append:
  assumes "\<And>h. unat (bloom_bitpos h bits div 8) < length array"
  shows "bloom_probe j bits h d (array @ xs) = bloom_probe j bits h d array"
  by (induction j arbitrary: h) (simp_all add: bloom_probe_bits assms nth_append)

text \<open>The sizes of the filter do not wrap for any number of keys and of bits per key an \<^verbatim>\<open>int\<close> holds.\<close>

definition bloom_sizes_ok :: "BloomFilterPolicy \<Rightarrow> slice list \<Rightarrow> bool" where
  "bloom_sizes_ok p keys \<longleftrightarrow> unat (bp_bits_per_key p) < 2 ^ 31 \<and> length keys < 2 ^ 31 \<and> unat (bp_k p) \<le> 30"

lemma bloom_bytes_bounds:
  assumes "bloom_sizes_ok p keys"
  shows "8 \<le> unat (bloom_bytes p keys)" "unat (bloom_bytes p keys * 8) = unat (bloom_bytes p keys) * 8"
    "unat (bloom_bytes p keys) < 2 ^ 60"
proof -
  let ?b = "word_of_nat (length keys) * bp_bits_per_key p"
  define bits where "bits = (if ?b < 64 then 64 else ?b)"
  have "length keys * unat (bp_bits_per_key p) \<le> 2 ^ 31 * 2 ^ 31"
    using assms unfolding bloom_sizes_ok_def by (intro mult_le_mono) auto
  then have "unat ?b = length keys * unat (bp_bits_per_key p)" "unat ?b \<le> 2 ^ 62"
    using assms by (simp_all add: unat_word_ariths unat_of_nat bloom_sizes_ok_def)
  then have b: "64 \<le> unat bits" "unat bits \<le> 2 ^ 62"
    by (auto simp: bits_def word_less_nat_alt)
  then have "unat (bits + 7) = unat bits + 7" by (simp add: unat_word_ariths)
  then have u: "unat (bloom_bytes p keys) = (unat bits + 7) div 8"
    by (simp add: bloom_bytes_def bits_def [symmetric] unat_div)
  have "(unat bits + 7) div 8 < 2 ^ 60" using b by simp
  then show "unat (bloom_bytes p keys) < 2 ^ 60" by (simp add: u)
  show "8 \<le> unat (bloom_bytes p keys)" using b by (simp add: u)
  show "unat (bloom_bytes p keys * 8) = unat (bloom_bytes p keys) * 8"
    using b by (simp add: u unat_word_ariths)
qed

lemma bloom_bitpos_bound:
  assumes "unat bits = 8 * n" "0 < n"
  shows "unat (bloom_bitpos h bits div 8) < n"
proof -
  have "unat (ucast h mod bits :: u64) = unat h mod unat bits"
    using unat_lt2p [of h] by (simp add: unat_mod unsigned_ucast_eq take_bit_nat_eq_self)
  moreover have "unat h mod unat bits < 2 ^ 32"
    using unat_lt2p [of h] le_less_trans [OF mod_less_eq_dividend [of "unat h" "unat bits"]] by simp
  ultimately have "unat (bloom_bitpos h bits) = unat h mod unat bits"
    by (simp add: bloom_bitpos_def unsigned_ucast_eq take_bit_nat_eq_self)
  moreover have "unat h mod unat bits < 8 * n" using assms by simp
  ultimately show ?thesis by (simp add: unat_div less_mult_imp_div_less mult.commute)
qed

lemma scast_small_byte:
  assumes "unat (k :: u64) \<le> 30"
  shows "(scast (ucast k :: byte) :: u64) = k"
proof -
  have "list_all (\<lambda>j. (scast (ucast (word_of_nat j :: u64) :: byte) :: u64) = word_of_nat j) [0..<31]"
    by code_simp
  moreover have "unat k \<in> set [0..<31]" using assms by simp
  ultimately have "(scast (ucast (word_of_nat (unat k) :: u64) :: byte) :: u64) = word_of_nat (unat k)"
    by (simp only: list_all_iff)
  then show ?thesis by (simp only: of_nat_unat unsigned_ucast_eq ucast_id)
qed

lemma Bloom_matches:
  assumes "bloom_sizes_ok p keys" "key \<in> set keys"
  shows "Bloom_KeyMayMatch key (drop (length dst) (Bloom_CreateFilter p keys dst))"
proof -
  let ?n = "unat (bloom_bytes p keys)" and ?bits = "bloom_bytes p keys * 8"
  note sz = bloom_bytes_bounds [OF assms(1)]
  let ?a = "bloom_add_keys p ?bits keys (replicate ?n 0)"
  have k: "unat (bp_k p) \<le> 30" using assms(1) by (simp add: bloom_sizes_ok_def)
  have bound: "unat (bloom_bitpos h ?bits div 8) < ?n" for h
    by (rule bloom_bitpos_bound) (use sz in auto)
  have probe: "bloom_probe (unat (bp_k p)) ?bits (BloomHash key) (bloom_delta (BloomHash key)) (?a @ [ucast (bp_k p)])"
    using bloom_add_keys_member [of ?bits "replicate ?n 0" key keys p] assms(2) bound by (simp add: bloom_probe_append)
  have kb: "(scast (ucast (bp_k p) :: byte) :: u64) = bp_k p"
    by (rule scast_small_byte [OF k])
  have "word_of_nat ?n = bloom_bytes p keys" by simp
  then show ?thesis
    using probe kb sz(1) k unfolding Bloom_KeyMayMatch_def Bloom_CreateFilter_def Let_def
    by (simp add: nth_append word_less_nat_alt)
qed

interpretation bloom: filter_policy "Bloom_CreateFilter p" Bloom_KeyMayMatch "bloom_sizes_ok p" for p
proof
  show "take (length dst) (Bloom_CreateFilter p keys dst) = dst" for keys dst
    by (simp add: Bloom_CreateFilter_def Let_def)
qed (rule Bloom_matches)

interpretation internal_bloom: filter_policy "InternalFilter_CreateFilter (Bloom_CreateFilter p)"
    "InternalFilter_KeyMayMatch Bloom_KeyMayMatch" "\<lambda>keys. bloom_sizes_ok p (map ExtractUserKey keys)" for p
  by (rule bloom.internal_filter_policy)

lemma NewBloomFilterPolicy_ok:
  assumes "bits_per_key < 2 ^ 31" "length keys < 2 ^ 31"
  shows "bloom_sizes_ok (NewBloomFilterPolicy bits_per_key) keys"
  using assms by (auto simp: bloom_sizes_ok_def NewBloomFilterPolicy_def Let_def unat_of_nat)

section \<open>Properties\<close>

text \<open>
  C18. A bloom filter is appended to what the string already holds, and it has no false negatives: a
  key it was built from always matches, for user keys and through the internal key wrapper.
\<close>

theorem bloom_no_false_negatives:
  assumes "bits_per_key < 2 ^ 31" "length keys < 2 ^ 31" "key \<in> set keys"
  shows "let p = NewBloomFilterPolicy bits_per_key;
             f = Bloom_CreateFilter p keys dst;
             g = InternalFilter_CreateFilter (Bloom_CreateFilter p) keys dst
         in take (length dst) f = dst \<and> Bloom_KeyMayMatch key (drop (length dst) f)
            \<and> InternalFilter_KeyMayMatch Bloom_KeyMayMatch key (drop (length dst) g)"
  using bloom.append_only bloom.no_false_negative [OF NewBloomFilterPolicy_ok [OF assms(1,2)] assms(3)]
    internal_bloom.no_false_negative [OF _ assms(3)] NewBloomFilterPolicy_ok [OF assms(1), of "map ExtractUserKey keys"] assms(2)
  by (simp add: Let_def)

theorem bloom_no_false_negatives_witness:
  "Bloom_KeyMayMatch [104, 105] (Bloom_CreateFilter (NewBloomFilterPolicy 10) [[97], [104, 105]] [])"
  using bloom_no_false_negatives [of 10 "[[97], [104, 105]]" "[104, 105]" "[]"] by (simp add: Let_def)

end
