(* ===== verification/Ldb_Status.thy ===== *)
theory Ldb_Status
  imports Main
begin

text \<open>
  \<^verbatim>\<open>leveldb/status.h\<close> and \<^verbatim>\<open>util/status.cc\<close>: a status is a code with a message. The counted, heap
  allocated state array is the constructor with its string; copying and freeing it has no effect on
  the value.
\<close>

datatype Status = OK | NotFound string | Corruption string | NotSupported string
  | InvalidArgument string | IOError string

text \<open>The constructor joins its two messages, the second only when it is not empty.\<close>

definition status_message :: "string \<Rightarrow> string \<Rightarrow> string" where
  "status_message msg msg2 = msg @ (if length msg2 \<noteq> 0 then '': '' @ msg2 else '''')"

definition Status_ok :: "Status \<Rightarrow> bool" where
  "Status_ok s \<longleftrightarrow> s = OK"

fun Status_ToString :: "Status \<Rightarrow> string" where
  "Status_ToString OK = ''OK''"
| "Status_ToString (NotFound m) = ''NotFound: '' @ m"
| "Status_ToString (Corruption m) = ''Corruption: '' @ m"
| "Status_ToString (NotSupported m) = ''Not implemented: '' @ m"
| "Status_ToString (InvalidArgument m) = ''Invalid argument: '' @ m"
| "Status_ToString (IOError m) = ''IO error: '' @ m"

lemma Status_ok_OK [simp]: "Status_ok OK"
  by (simp add: Status_ok_def)

end
