(* ===== verification/Ldb_Version_Edit.thy ===== *)
theory Ldb_Version_Edit
  imports Ldb_Format Ldb_Status "HOL-Library.Product_Lexorder"
begin

text \<open>
  \<^verbatim>\<open>db/version_edit.h\<close> and \<^verbatim>\<open>db/version_edit.cc\<close>: the changes of the set of table files, as they are logged in the
  manifest. An \<^verbatim>\<open>InternalKey\<close> is its bytes. The \<^verbatim>\<open>std::set\<close> of deleted files is a set that is iterated in
  increasing order of level and number.
\<close>

section \<open>Edits\<close>

definition kNumLevels :: nat where
  "kNumLevels = 7"

text \<open>The constructor leaves the number alone; whoever makes a file assigns it.\<close>

record FileMetaData =
  fm_refs :: int
  fm_allowed_seeks :: int
  fm_number :: u64
  fm_file_size :: u64
  fm_smallest :: slice
  fm_largest :: slice

definition FileMetaData_init :: "u64 \<Rightarrow> FileMetaData" where
  "FileMetaData_init number =
     \<lparr>fm_refs = 0, fm_allowed_seeks = 2 ^ 30, fm_number = number, fm_file_size = 0, fm_smallest = [], fm_largest = []\<rparr>"

record VersionEdit =
  ve_comparator :: "byte list"
  ve_log_number :: u64
  ve_prev_log_number :: u64
  ve_next_file_number :: u64
  ve_last_sequence :: SequenceNumber
  ve_has_comparator :: bool
  ve_has_log_number :: bool
  ve_has_prev_log_number :: bool
  ve_has_next_file_number :: bool
  ve_has_last_sequence :: bool
  ve_compact_pointers :: "(int \<times> slice) list"
  ve_deleted_files :: "(int \<times> u64) set"
  ve_new_files :: "(int \<times> FileMetaData) list"

text \<open>\<^verbatim>\<open>Clear\<close> leaves the compaction pointers alone.\<close>

definition VersionEdit_Clear :: "VersionEdit \<Rightarrow> VersionEdit" where
  "VersionEdit_Clear edit =
     \<lparr>ve_comparator = [], ve_log_number = 0, ve_prev_log_number = 0, ve_next_file_number = 0, ve_last_sequence = 0,
      ve_has_comparator = False, ve_has_log_number = False, ve_has_prev_log_number = False, ve_has_next_file_number = False,
      ve_has_last_sequence = False, ve_compact_pointers = ve_compact_pointers edit, ve_deleted_files = {}, ve_new_files = []\<rparr>"

definition VersionEdit_init :: VersionEdit where
  "VersionEdit_init =
     \<lparr>ve_comparator = [], ve_log_number = 0, ve_prev_log_number = 0, ve_next_file_number = 0, ve_last_sequence = 0,
      ve_has_comparator = False, ve_has_log_number = False, ve_has_prev_log_number = False, ve_has_next_file_number = False,
      ve_has_last_sequence = False, ve_compact_pointers = [], ve_deleted_files = {}, ve_new_files = []\<rparr>"

definition SetComparatorName :: "slice \<Rightarrow> VersionEdit \<Rightarrow> VersionEdit" where
  "SetComparatorName name edit = edit\<lparr>ve_has_comparator := True, ve_comparator := name\<rparr>"

definition SetLogNumber :: "u64 \<Rightarrow> VersionEdit \<Rightarrow> VersionEdit" where
  "SetLogNumber num edit = edit\<lparr>ve_has_log_number := True, ve_log_number := num\<rparr>"

definition SetPrevLogNumber :: "u64 \<Rightarrow> VersionEdit \<Rightarrow> VersionEdit" where
  "SetPrevLogNumber num edit = edit\<lparr>ve_has_prev_log_number := True, ve_prev_log_number := num\<rparr>"

definition SetNextFile :: "u64 \<Rightarrow> VersionEdit \<Rightarrow> VersionEdit" where
  "SetNextFile num edit = edit\<lparr>ve_has_next_file_number := True, ve_next_file_number := num\<rparr>"

definition SetLastSequence :: "SequenceNumber \<Rightarrow> VersionEdit \<Rightarrow> VersionEdit" where
  "SetLastSequence s edit = edit\<lparr>ve_has_last_sequence := True, ve_last_sequence := s\<rparr>"

definition SetCompactPointer :: "int \<Rightarrow> slice \<Rightarrow> VersionEdit \<Rightarrow> VersionEdit" where
  "SetCompactPointer level key edit = edit\<lparr>ve_compact_pointers := ve_compact_pointers edit @ [(level, key)]\<rparr>"

definition AddFile :: "int \<Rightarrow> u64 \<Rightarrow> u64 \<Rightarrow> slice \<Rightarrow> slice \<Rightarrow> VersionEdit \<Rightarrow> VersionEdit" where
  "AddFile level number file_size smallest largest edit =
     (let f = (FileMetaData_init number)\<lparr>fm_file_size := file_size, fm_smallest := smallest, fm_largest := largest\<rparr>
      in edit\<lparr>ve_new_files := ve_new_files edit @ [(level, f)]\<rparr>)"

definition DeleteFile :: "int \<Rightarrow> u64 \<Rightarrow> VersionEdit \<Rightarrow> VersionEdit" where
  "DeleteFile level number edit = edit\<lparr>ve_deleted_files := insert (level, number) (ve_deleted_files edit)\<rparr>"

section \<open>Encoding\<close>

definition kComparator :: u32 where "kComparator = 1"
definition kLogNumber :: u32 where "kLogNumber = 2"
definition kNextFileNumber :: u32 where "kNextFileNumber = 3"
definition kLastSequence :: u32 where "kLastSequence = 4"
definition kCompactPointer :: u32 where "kCompactPointer = 5"
definition kDeletedFile :: u32 where "kDeletedFile = 6"
definition kNewFile :: u32 where "kNewFile = 7"
definition kPrevLogNumber :: u32 where "kPrevLogNumber = 9"

lemmas tag_defs = kComparator_def kLogNumber_def kNextFileNumber_def kLastSequence_def kCompactPointer_def kDeletedFile_def
  kNewFile_def kPrevLogNumber_def

definition encode_number :: "bool \<Rightarrow> u32 \<Rightarrow> u64 \<Rightarrow> byte list \<Rightarrow> byte list" where
  "encode_number has tag n dst = (if has then PutVarint64 (PutVarint32 dst tag) n else dst)"

fun encode_compact_pointer :: "int \<times> slice \<Rightarrow> byte list \<Rightarrow> byte list" where
  "encode_compact_pointer (level, key) dst =
     PutLengthPrefixedSlice (PutVarint32 (PutVarint32 dst kCompactPointer) (word_of_int level)) key"

fun encode_deleted_file :: "int \<times> u64 \<Rightarrow> byte list \<Rightarrow> byte list" where
  "encode_deleted_file (level, number) dst = PutVarint64 (PutVarint32 (PutVarint32 dst kDeletedFile) (word_of_int level)) number"

fun encode_new_file :: "int \<times> FileMetaData \<Rightarrow> byte list \<Rightarrow> byte list" where
  "encode_new_file (level, f) dst =
     PutLengthPrefixedSlice (PutLengthPrefixedSlice (PutVarint64 (PutVarint64 (PutVarint32 (PutVarint32 dst kNewFile) (word_of_int level))
       (fm_number f)) (fm_file_size f)) (fm_smallest f)) (fm_largest f)"

definition VersionEdit_EncodeTo :: "VersionEdit \<Rightarrow> byte list \<Rightarrow> byte list" where
  "VersionEdit_EncodeTo edit dst =
     (let dst = (if ve_has_comparator edit then PutLengthPrefixedSlice (PutVarint32 dst kComparator) (ve_comparator edit) else dst);
          dst = encode_number (ve_has_log_number edit) kLogNumber (ve_log_number edit) dst;
          dst = encode_number (ve_has_prev_log_number edit) kPrevLogNumber (ve_prev_log_number edit) dst;
          dst = encode_number (ve_has_next_file_number edit) kNextFileNumber (ve_next_file_number edit) dst;
          dst = encode_number (ve_has_last_sequence edit) kLastSequence (ve_last_sequence edit) dst;
          dst = fold encode_compact_pointer (ve_compact_pointers edit) dst;
          dst = fold encode_deleted_file (sorted_list_of_set (ve_deleted_files edit)) dst
      in fold encode_new_file (ve_new_files edit) dst)"

section \<open>Decoding\<close>

definition GetInternalKey :: "slice \<Rightarrow> (slice \<times> slice) option" where
  "GetInternalKey input = GetLengthPrefixedSlice input"

definition GetLevel :: "slice \<Rightarrow> (int \<times> slice) option" where
  "GetLevel input =
     (case GetVarint32 input of
        Some (v, input) \<Rightarrow> if unat v < kNumLevels then Some (int (unat v), input) else None
      | None \<Rightarrow> None)"

text \<open>A field behind its tag: the edit with the field and the rest of the input, or the message of the error.\<close>

definition get_number :: "string \<Rightarrow> (u64 \<Rightarrow> VersionEdit \<Rightarrow> VersionEdit) \<Rightarrow> slice \<Rightarrow> VersionEdit \<Rightarrow> string + VersionEdit \<times> slice" where
  "get_number msg update_edit input edit =
     (case GetVarint64 input of Some (n, input) \<Rightarrow> Inr (update_edit n edit, input) | None \<Rightarrow> Inl msg)"

definition get_compact_pointer :: "slice \<Rightarrow> VersionEdit \<Rightarrow> string + VersionEdit \<times> slice" where
  "get_compact_pointer input edit =
     (case GetLevel input of None \<Rightarrow> Inl ''compaction pointer''
      | Some (level, input) \<Rightarrow>
          (case GetInternalKey input of None \<Rightarrow> Inl ''compaction pointer''
           | Some (key, input) \<Rightarrow> Inr (edit\<lparr>ve_compact_pointers := ve_compact_pointers edit @ [(level, key)]\<rparr>, input)))"

definition get_deleted_file :: "slice \<Rightarrow> VersionEdit \<Rightarrow> string + VersionEdit \<times> slice" where
  "get_deleted_file input edit =
     (case GetLevel input of None \<Rightarrow> Inl ''deleted file''
      | Some (level, input) \<Rightarrow>
          (case GetVarint64 input of None \<Rightarrow> Inl ''deleted file''
           | Some (number, input) \<Rightarrow> Inr (edit\<lparr>ve_deleted_files := insert (level, number) (ve_deleted_files edit)\<rparr>, input)))"

definition get_new_file :: "slice \<Rightarrow> VersionEdit \<Rightarrow> string + VersionEdit \<times> slice" where
  "get_new_file input edit =
     (case GetLevel input of None \<Rightarrow> Inl ''new-file entry''
      | Some (level, input) \<Rightarrow> (case GetVarint64 input of None \<Rightarrow> Inl ''new-file entry''
        | Some (number, input) \<Rightarrow> (case GetVarint64 input of None \<Rightarrow> Inl ''new-file entry''
          | Some (file_size, input) \<Rightarrow> (case GetInternalKey input of None \<Rightarrow> Inl ''new-file entry''
            | Some (smallest, input) \<Rightarrow> (case GetInternalKey input of None \<Rightarrow> Inl ''new-file entry''
              | Some (largest, input) \<Rightarrow>
                  let f = (FileMetaData_init number)\<lparr>fm_file_size := file_size, fm_smallest := smallest, fm_largest := largest\<rparr>
                  in Inr (edit\<lparr>ve_new_files := ve_new_files edit @ [(level, f)]\<rparr>, input))))))"

definition decode_tagged :: "u32 \<Rightarrow> slice \<Rightarrow> VersionEdit \<Rightarrow> string + VersionEdit \<times> slice" where
  "decode_tagged tag input edit =
     (if tag = kComparator
      then (case GetLengthPrefixedSlice input of
              Some (str, input) \<Rightarrow> Inr (SetComparatorName str edit, input)
            | None \<Rightarrow> Inl ''comparator name'')
      else if tag = kLogNumber then get_number ''log number'' SetLogNumber input edit
      else if tag = kPrevLogNumber then get_number ''previous log number'' SetPrevLogNumber input edit
      else if tag = kNextFileNumber then get_number ''next file number'' SetNextFile input edit
      else if tag = kLastSequence then get_number ''last sequence number'' SetLastSequence input edit
      else if tag = kCompactPointer then get_compact_pointer input edit
      else if tag = kDeletedFile then get_deleted_file input edit
      else if tag = kNewFile then get_new_file input edit
      else Inl ''unknown tag'')"

lemma GetLevel_SomeE:
  assumes "GetLevel p = Some (l, q)"
  obtains v where "GetVarint32 p = Some (v, q)" "unat v < kNumLevels" "l = int (unat v)"
proof (cases "GetVarint32 p")
  case None
  then show thesis using assms by (simp add: GetLevel_def)
next
  case (Some r)
  obtain v q' where r: "r = (v, q')" by (cases r)
  then have "(if unat v < kNumLevels then Some (int (unat v), q') else None) = Some (l, q)"
    using assms Some unfolding GetLevel_def by (simp only: option.case prod.case)
  then show thesis using that [of v] Some r by (cases "unat v < kNumLevels") (simp_all only: if_True if_False option.inject prod.inject, simp)
qed

lemma GetLevel_prefix:
  assumes "GetLevel p = Some (l, q)"
  shows "length q < length p \<and> 0 \<le> l \<and> l < int kNumLevels"
  using assms
proof (cases rule: GetLevel_SomeE)
  case (1 v)
  then show ?thesis using GetVarint32_prefix [OF 1(1)] unfolding 1(3) of_nat_less_iff by auto
qed

lemma GetVarint64_shorter: "GetVarint64 p = Some (n, q) \<Longrightarrow> length q < length p"
  using GetVarint64_prefix [of p n q] by auto

lemma get_number_shorter: "get_number msg f input edit = Inr (edit', rest) \<Longrightarrow> length rest < length input"
  by (auto simp: get_number_def dest: GetVarint64_shorter split: option.splits)

lemma get_compact_pointer_shorter: "get_compact_pointer input edit = Inr (edit', rest) \<Longrightarrow> length rest < length input"
  by (auto simp: get_compact_pointer_def GetInternalKey_def dest!: GetLengthPrefixedSlice_shorter GetLevel_prefix split: option.splits)

lemma get_deleted_file_shorter: "get_deleted_file input edit = Inr (edit', rest) \<Longrightarrow> length rest < length input"
  by (auto simp: get_deleted_file_def dest!: GetVarint64_shorter GetLevel_prefix split: option.splits)

lemma get_new_file_shorter: "get_new_file input edit = Inr (edit', rest) \<Longrightarrow> length rest < length input"
  by (auto simp: get_new_file_def GetInternalKey_def Let_def dest!: GetVarint64_shorter GetLengthPrefixedSlice_shorter GetLevel_prefix
      split: option.splits)

lemmas get_shorter = get_number_shorter get_compact_pointer_shorter get_deleted_file_shorter get_new_file_shorter

lemma decode_tagged_shorter: "decode_tagged tag input edit = Inr (edit', rest) \<Longrightarrow> length rest < length input"
  unfolding decode_tagged_def by (auto dest: get_shorter GetLengthPrefixedSlice_shorter split: option.splits if_splits)

function decode_loop :: "slice \<Rightarrow> VersionEdit \<Rightarrow> string option \<times> slice \<times> VersionEdit" where
  "decode_loop input edit =
     (case GetVarint32 input of None \<Rightarrow> (None, input, edit)
      | Some (tag, input) \<Rightarrow>
          (case decode_tagged tag input edit of Inl msg \<Rightarrow> (Some msg, input, edit)
           | Inr (edit, input) \<Rightarrow> decode_loop input edit))"
  by pat_completeness auto
termination
proof (relation "measure (length \<circ> fst)", goal_cases)
  case (2 input edit a tag input' b edit' rest)
  then have "length input' < length input" "length rest < length input'"
    using GetVarint32_prefix [of input tag input'] decode_tagged_shorter [of tag input' edit edit' rest] by auto
  then show ?case by simp
qed simp

declare decode_loop.simps [simp del]

definition VersionEdit_DecodeFrom :: "slice \<Rightarrow> VersionEdit \<Rightarrow> Status \<times> VersionEdit" where
  "VersionEdit_DecodeFrom src edit =
     (let (msg, input, edit) = decode_loop src (VersionEdit_Clear edit);
          msg = (if msg = None \<and> input \<noteq> [] then Some ''invalid tag'' else msg)
      in case msg of None \<Rightarrow> (OK, edit) | Some m \<Rightarrow> (Corruption (status_message ''VersionEdit'' m), edit))"

section \<open>The fields are read back\<close>

lemma decode_loop_tag:
  "decode_loop (EncodeVarint32 tag @ rest) edit =
     (case decode_tagged tag rest edit of Inl msg \<Rightarrow> (Some msg, rest, edit) | Inr (edit, input) \<Rightarrow> decode_loop input edit)"
  by (subst decode_loop.simps) (simp add: varint32.dec_enc)

lemma decode_loop_end: "decode_loop [] edit = (None, [], edit)"
  by (subst decode_loop.simps) (simp add: GetVarint32_def GetVarint32Ptr_def GetVarint32PtrFallback_def)

lemma GetLevel_enc:
  assumes "0 \<le> l" "l < int kNumLevels"
  shows "GetLevel (EncodeVarint32 (word_of_int l) @ rest) = Some (l, rest)"
proof -
  obtain n where n: "l = int n" "n < 7" using assms unfolding kNumLevels_def by (metis nat_0_le nat_less_iff of_nat_numeral nonneg_int_cases of_nat_less_iff)
  then have "unat (word_of_int l :: u32) = n" by (simp add: unat_of_nat)
  then show ?thesis using n by (simp add: GetLevel_def varint32.dec_enc kNumLevels_def)
qed

definition number_bytes :: "bool \<Rightarrow> u32 \<Rightarrow> u64 \<Rightarrow> byte list" where
  "number_bytes has tag n = (if has then EncodeVarint32 tag @ EncodeVarint64 n else [])"

lemma encode_number_bytes: "encode_number has tag n dst = dst @ number_bytes has tag n"
  by (simp add: encode_number_def number_bytes_def PutVarint32_def PutVarint64_def)

lemma encode_compact_pointer_append: "encode_compact_pointer x dst = dst @ encode_compact_pointer x []"
  using PutLengthPrefixedSlice_append [of "PutVarint32 (PutVarint32 dst kCompactPointer) (word_of_int (fst x))" "snd x"]
    PutLengthPrefixedSlice_append [of "PutVarint32 (PutVarint32 [] kCompactPointer) (word_of_int (fst x))" "snd x"]
  by (cases x) (simp add: PutVarint32_def)

lemma encode_deleted_file_append: "encode_deleted_file x dst = dst @ encode_deleted_file x []"
  by (cases x) (simp add: PutVarint32_def PutVarint64_def)

lemma encode_new_file_bytes:
  "encode_new_file (level, f) dst = dst @ EncodeVarint32 kNewFile @ EncodeVarint32 (word_of_int level) @ EncodeVarint64 (fm_number f)
     @ EncodeVarint64 (fm_file_size f) @ PutLengthPrefixedSlice [] (fm_smallest f) @ PutLengthPrefixedSlice [] (fm_largest f)"
proof -
  define pre where "pre = PutVarint64 (PutVarint64 (PutVarint32 (PutVarint32 dst kNewFile) (word_of_int level)) (fm_number f)) (fm_file_size f)"
  have "encode_new_file (level, f) dst = pre @ PutLengthPrefixedSlice [] (fm_smallest f) @ PutLengthPrefixedSlice [] (fm_largest f)"
    using PutLengthPrefixedSlice_append [of "PutLengthPrefixedSlice pre (fm_smallest f)" "fm_largest f"]
      PutLengthPrefixedSlice_append [of pre "fm_smallest f"] by (simp add: pre_def)
  then show ?thesis by (simp add: pre_def PutVarint32_def PutVarint64_def)
qed

lemma encode_compact_pointer_bytes:
  "encode_compact_pointer (level, key) dst = dst @ EncodeVarint32 kCompactPointer @ EncodeVarint32 (word_of_int level) @ PutLengthPrefixedSlice [] key"
  using PutLengthPrefixedSlice_append [of "PutVarint32 (PutVarint32 dst kCompactPointer) (word_of_int level)" key]
  by (simp add: PutVarint32_def)

lemma fold_encode:
  assumes "\<And>x dst. enc x dst = dst @ enc x []"
  shows "fold enc xs dst = dst @ concat (map (\<lambda>x. enc x []) xs)"
proof (induction xs arbitrary: dst)
  case (Cons x xs)
  have "fold enc (x # xs) dst = fold enc xs (dst @ enc x [])" using assms [of x dst] by simp
  then show ?case using Cons by simp
qed simp

definition level_ok :: "int \<Rightarrow> bool" where
  "level_ok l \<longleftrightarrow> 0 \<le> l \<and> l < int kNumLevels"

definition key_ok :: "slice \<Rightarrow> bool" where
  "key_ok k \<longleftrightarrow> length k < 2 ^ 32"

lemma GetInternalKey_enc: "key_ok k \<Longrightarrow> GetInternalKey (PutLengthPrefixedSlice [] k @ rest) = Some (k, rest)"
  by (simp add: GetInternalKey_def key_ok_def lpslice.dec_enc)

lemma decode_number:
  assumes "tag \<in> {kLogNumber, kPrevLogNumber, kNextFileNumber, kLastSequence}"
  defines "f \<equiv> (if tag = kLogNumber then SetLogNumber else if tag = kPrevLogNumber then SetPrevLogNumber
                else if tag = kNextFileNumber then SetNextFile else SetLastSequence)"
  shows "decode_loop (number_bytes has tag n @ rest) edit = decode_loop rest (if has then f n edit else edit)"
proof (cases has)
  case True
  have "decode_tagged tag (EncodeVarint64 n @ rest) edit = Inr (f n edit, rest)"
    using assms(1) by (auto simp: decode_tagged_def get_number_def f_def tag_defs varint64.dec_enc)
  then show ?thesis using True by (simp add: number_bytes_def decode_loop_tag)
qed (simp add: number_bytes_def)

lemma decode_compact_pointers:
  assumes "\<forall>(l, k) \<in> set ps. level_ok l \<and> key_ok k"
  shows "decode_loop (concat (map (\<lambda>x. encode_compact_pointer x []) ps) @ rest) edit =
    decode_loop rest (edit\<lparr>ve_compact_pointers := ve_compact_pointers edit @ ps\<rparr>)"
  using assms
proof (induction ps arbitrary: edit)
  case (Cons x ps)
  obtain l k where x: "x = (l, k)" "level_ok l" "key_ok k" using Cons.prems by (cases x) auto
  have "decode_tagged kCompactPointer (EncodeVarint32 (word_of_int l) @ PutLengthPrefixedSlice [] k @ r) edit
      = Inr (edit\<lparr>ve_compact_pointers := ve_compact_pointers edit @ [x]\<rparr>, r)" for r
    using x GetLevel_enc [of l] GetInternalKey_enc [of k]
    by (simp add: decode_tagged_def get_compact_pointer_def tag_defs level_ok_def)
  then show ?case using Cons x(1) by (simp add: encode_compact_pointer_bytes decode_loop_tag del: encode_compact_pointer.simps)
qed simp

lemma decode_deleted_files:
  assumes "\<forall>(l, n) \<in> set ds. level_ok l"
  shows "decode_loop (concat (map (\<lambda>x. encode_deleted_file x []) ds) @ rest) edit =
    decode_loop rest (edit\<lparr>ve_deleted_files := set ds \<union> ve_deleted_files edit\<rparr>)"
  using assms
proof (induction ds arbitrary: edit)
  case (Cons x ds)
  obtain l n where x: "x = (l, n)" "level_ok l" using Cons.prems by (cases x) auto
  have "decode_tagged kDeletedFile (EncodeVarint32 (word_of_int l) @ EncodeVarint64 n @ r) edit
      = Inr (edit\<lparr>ve_deleted_files := insert x (ve_deleted_files edit)\<rparr>, r)" for r
    using x GetLevel_enc [of l] by (simp add: decode_tagged_def get_deleted_file_def tag_defs level_ok_def varint64.dec_enc)
  then show ?case using Cons x(1) by (simp add: PutVarint32_def PutVarint64_def decode_loop_tag)
qed simp

text \<open>A file as the decoder makes it: the counters are those of the constructor.\<close>

definition file_ok :: "FileMetaData \<Rightarrow> bool" where
  "file_ok f \<longleftrightarrow> fm_refs f = 0 \<and> fm_allowed_seeks f = 2 ^ 30 \<and> key_ok (fm_smallest f) \<and> key_ok (fm_largest f)"

lemma decode_new_files:
  assumes "\<forall>(l, f) \<in> set fs. level_ok l \<and> file_ok f"
  shows "decode_loop (concat (map (\<lambda>x. encode_new_file x []) fs) @ rest) edit =
    decode_loop rest (edit\<lparr>ve_new_files := ve_new_files edit @ fs\<rparr>)"
  using assms
proof (induction fs arbitrary: edit)
  case (Cons x fs)
  obtain l f where x: "x = (l, f)" "level_ok l" "file_ok f" using Cons.prems by (cases x) auto
  have "(FileMetaData_init (fm_number f))\<lparr>fm_file_size := fm_file_size f, fm_smallest := fm_smallest f, fm_largest := fm_largest f\<rparr> = f"
    using x(3) by (simp add: FileMetaData_init_def file_ok_def)
  then have "decode_tagged kNewFile (EncodeVarint32 (word_of_int l) @ EncodeVarint64 (fm_number f) @ EncodeVarint64 (fm_file_size f)
        @ PutLengthPrefixedSlice [] (fm_smallest f) @ PutLengthPrefixedSlice [] (fm_largest f) @ r) edit
      = Inr (edit\<lparr>ve_new_files := ve_new_files edit @ [x]\<rparr>, r)" for r
    using x GetLevel_enc [of l] GetInternalKey_enc [of "fm_smallest f"] GetInternalKey_enc [of "fm_largest f"]
    by (simp add: decode_tagged_def get_new_file_def tag_defs level_ok_def file_ok_def varint64.dec_enc)
  then show ?case using Cons x(1) by (simp add: encode_new_file_bytes decode_loop_tag del: encode_new_file.simps)
qed simp

section \<open>What the setters build\<close>

definition edit_ok :: "VersionEdit \<Rightarrow> bool" where
  "edit_ok edit \<longleftrightarrow>
     key_ok (ve_comparator edit) \<and> (\<not> ve_has_comparator edit \<longrightarrow> ve_comparator edit = [])
     \<and> (\<not> ve_has_log_number edit \<longrightarrow> ve_log_number edit = 0) \<and> (\<not> ve_has_prev_log_number edit \<longrightarrow> ve_prev_log_number edit = 0)
     \<and> (\<not> ve_has_next_file_number edit \<longrightarrow> ve_next_file_number edit = 0) \<and> (\<not> ve_has_last_sequence edit \<longrightarrow> ve_last_sequence edit = 0)
     \<and> (\<forall>(l, k) \<in> set (ve_compact_pointers edit). level_ok l \<and> key_ok k)
     \<and> finite (ve_deleted_files edit) \<and> (\<forall>(l, n) \<in> ve_deleted_files edit. level_ok l)
     \<and> (\<forall>(l, f) \<in> set (ve_new_files edit). level_ok l \<and> file_ok f)"

lemma edit_ok_init: "edit_ok VersionEdit_init"
  by (simp add: edit_ok_def VersionEdit_init_def key_ok_def)

lemma edit_ok_setters:
  assumes "edit_ok edit"
  shows "key_ok name \<Longrightarrow> edit_ok (SetComparatorName name edit)"
    "edit_ok (SetLogNumber n edit)" "edit_ok (SetPrevLogNumber n edit)" "edit_ok (SetNextFile n edit)" "edit_ok (SetLastSequence n edit)"
    "level_ok l \<Longrightarrow> key_ok k \<Longrightarrow> edit_ok (SetCompactPointer l k edit)"
    "level_ok l \<Longrightarrow> key_ok k \<Longrightarrow> key_ok k' \<Longrightarrow> edit_ok (AddFile l n sz k k' edit)"
    "level_ok l \<Longrightarrow> edit_ok (DeleteFile l n edit)"
  using assms
  by (auto simp: edit_ok_def SetComparatorName_def SetLogNumber_def SetPrevLogNumber_def SetNextFile_def SetLastSequence_def
      SetCompactPointer_def AddFile_def DeleteFile_def FileMetaData_init_def file_ok_def Let_def)

lemma decode_comparator:
  assumes "key_ok name"
  shows "decode_loop (EncodeVarint32 kComparator @ PutLengthPrefixedSlice [] name @ rest) edit = decode_loop rest (SetComparatorName name edit)"
  using assms by (simp add: decode_loop_tag decode_tagged_def lpslice.dec_enc key_ok_def)

lemma EncodeTo_bytes:
  "VersionEdit_EncodeTo edit [] =
     (if ve_has_comparator edit then EncodeVarint32 kComparator @ PutLengthPrefixedSlice [] (ve_comparator edit) else [])
     @ number_bytes (ve_has_log_number edit) kLogNumber (ve_log_number edit)
     @ number_bytes (ve_has_prev_log_number edit) kPrevLogNumber (ve_prev_log_number edit)
     @ number_bytes (ve_has_next_file_number edit) kNextFileNumber (ve_next_file_number edit)
     @ number_bytes (ve_has_last_sequence edit) kLastSequence (ve_last_sequence edit)
     @ concat (map (\<lambda>x. encode_compact_pointer x []) (ve_compact_pointers edit))
     @ concat (map (\<lambda>x. encode_deleted_file x []) (sorted_list_of_set (ve_deleted_files edit)))
     @ concat (map (\<lambda>x. encode_new_file x []) (ve_new_files edit))"
proof -
  define c where "c = (if ve_has_comparator edit then EncodeVarint32 kComparator @ PutLengthPrefixedSlice [] (ve_comparator edit) else [])"
  have "(if ve_has_comparator edit then PutLengthPrefixedSlice (PutVarint32 [] kComparator) (ve_comparator edit) else []) = c"
    using PutLengthPrefixedSlice_append [of "PutVarint32 [] kComparator" "ve_comparator edit"] by (simp add: c_def PutVarint32_def)
  note c = this
  have n: "encode_new_file x dst = dst @ encode_new_file x []" for x dst by (cases x) (simp only: encode_new_file_bytes append_Nil)
  show ?thesis
    unfolding VersionEdit_EncodeTo_def Let_def c fold_encode [of encode_compact_pointer, OF encode_compact_pointer_append]
      fold_encode [of encode_deleted_file, OF encode_deleted_file_append] fold_encode [of encode_new_file, OF n] c_def [symmetric]
      encode_number_bytes append_assoc ..
qed

text \<open>
  C37. An edit built by the setters is read back from its encoding: every field, the pointers, the deleted and the new
  files. An edit that is used again to decode keeps the compaction pointers it had.
\<close>

theorem version_edit_roundtrip:
  assumes "edit_ok edit"
  shows "VersionEdit_DecodeFrom (VersionEdit_EncodeTo edit []) used =
    (OK, edit\<lparr>ve_compact_pointers := ve_compact_pointers used @ ve_compact_pointers edit\<rparr>)"
proof -
  let ?fs = "sorted_list_of_set (ve_deleted_files edit)"
  have ok: "\<forall>(l, k) \<in> set (ve_compact_pointers edit). level_ok l \<and> key_ok k" "\<forall>(l, n) \<in> set ?fs. level_ok l"
      "\<forall>(l, f) \<in> set (ve_new_files edit). level_ok l \<and> file_ok f" "key_ok (ve_comparator edit)" "set ?fs = ve_deleted_files edit"
    using assms by (auto simp: edit_ok_def)
  have c: "decode_loop ((if ve_has_comparator edit then EncodeVarint32 kComparator @ PutLengthPrefixedSlice [] (ve_comparator edit) else []) @ rest) e
      = decode_loop rest (if ve_has_comparator edit then SetComparatorName (ve_comparator edit) e else e)" for rest e
    using decode_comparator [OF ok(4)] by simp
  have end': "decode_loop (concat (map (\<lambda>x. encode_new_file x []) (ve_new_files edit))) e
      = (None, [], e\<lparr>ve_new_files := ve_new_files e @ ve_new_files edit\<rparr>)" for e
    using decode_new_files [OF ok(3), of "[]" e] by (simp add: decode_loop_end)
  have "decode_loop (VersionEdit_EncodeTo edit []) (VersionEdit_Clear used)
      = (None, [], edit\<lparr>ve_compact_pointers := ve_compact_pointers used @ ve_compact_pointers edit\<rparr>)"
    unfolding EncodeTo_bytes c
    using assms
    by (cases "ve_has_comparator edit"; cases "ve_has_log_number edit"; cases "ve_has_prev_log_number edit"; cases "ve_has_next_file_number edit";
        cases "ve_has_last_sequence edit")
       (simp_all add: decode_number decode_compact_pointers [OF ok(1)] decode_deleted_files [OF ok(2)] end' ok(5) edit_ok_def
        VersionEdit_Clear_def SetComparatorName_def SetLogNumber_def SetPrevLogNumber_def SetNextFile_def SetLastSequence_def tag_defs)
  then show ?thesis by (simp add: VersionEdit_DecodeFrom_def)
qed

theorem version_edit_roundtrip_witness:
  "VersionEdit_DecodeFrom (VersionEdit_EncodeTo (AddFile 1 7 100 [1] [2] (DeleteFile 0 5 (SetLogNumber 3 VersionEdit_init))) []) VersionEdit_init
     = (OK, AddFile 1 7 100 [1] [2] (DeleteFile 0 5 (SetLogNumber 3 VersionEdit_init)))"
proof -
  let ?e = "AddFile 1 7 100 [1] [2] (DeleteFile 0 5 (SetLogNumber 3 VersionEdit_init))"
  have "edit_ok ?e" by (intro edit_ok_setters edit_ok_init) (simp_all add: level_ok_def kNumLevels_def key_ok_def)
  from version_edit_roundtrip [OF this, of VersionEdit_init] show ?thesis by (simp add: VersionEdit_init_def)
qed

section \<open>Arbitrary input\<close>

text \<open>The levels of an edit are indices of the arrays they are used with.\<close>

definition levels_ok :: "VersionEdit \<Rightarrow> bool" where
  "levels_ok edit \<longleftrightarrow>
     fst ` set (ve_compact_pointers edit) \<union> fst ` ve_deleted_files edit \<union> fst ` set (ve_new_files edit) \<subseteq> Collect level_ok"

lemma GetLevel_ok: "GetLevel input = Some (l, rest) \<Longrightarrow> level_ok l"
  using GetLevel_prefix [of input l rest] by (simp add: level_ok_def)

lemma get_forms:
  "get_compact_pointer input edit = Inr (edit', rest) \<Longrightarrow> \<exists>l k. level_ok l \<and> edit' = edit\<lparr>ve_compact_pointers := ve_compact_pointers edit @ [(l, k)]\<rparr>"
  "get_deleted_file input edit = Inr (edit', rest) \<Longrightarrow> \<exists>l n. level_ok l \<and> edit' = edit\<lparr>ve_deleted_files := insert (l, n) (ve_deleted_files edit)\<rparr>"
  "get_new_file input edit = Inr (edit', rest) \<Longrightarrow> \<exists>l f. level_ok l \<and> edit' = edit\<lparr>ve_new_files := ve_new_files edit @ [(l, f)]\<rparr>"
  "get_number msg f input edit = Inr (edit', rest) \<Longrightarrow> \<exists>n. edit' = f n edit"
  unfolding get_compact_pointer_def get_deleted_file_def get_new_file_def get_number_def Let_def
  by (auto split: option.splits) (blast dest: GetLevel_ok)+

lemma get_levels:
  assumes "levels_ok edit"
  shows "get_compact_pointer input edit = Inr (edit', rest) \<Longrightarrow> levels_ok edit'"
    "get_deleted_file input edit = Inr (edit', rest) \<Longrightarrow> levels_ok edit'"
    "get_new_file input edit = Inr (edit', rest) \<Longrightarrow> levels_ok edit'"
  using assms by (elim get_forms [elim_format] exE conjE; simp add: levels_ok_def)+

lemma set_levels [simp]:
  "levels_ok (SetComparatorName s edit) = levels_ok edit" "levels_ok (SetLogNumber n edit) = levels_ok edit"
  "levels_ok (SetPrevLogNumber n edit) = levels_ok edit" "levels_ok (SetNextFile n edit) = levels_ok edit"
  "levels_ok (SetLastSequence n edit) = levels_ok edit"
  by (simp_all add: levels_ok_def SetComparatorName_def SetLogNumber_def SetPrevLogNumber_def SetNextFile_def SetLastSequence_def)

lemma decode_tagged_levels: "decode_tagged tag input edit = Inr (edit', rest) \<Longrightarrow> levels_ok edit \<Longrightarrow> levels_ok edit'"
  unfolding decode_tagged_def by (auto dest: get_levels get_forms(4) split: option.splits if_splits)

lemma decode_loop_levels: "decode_loop input edit = (msg, rest, edit') \<Longrightarrow> levels_ok edit \<Longrightarrow> levels_ok edit'"
proof (induction input edit rule: decode_loop.induct)
  case (1 input edit)
  show ?case
  proof (cases "GetVarint32 input")
    case None
    then show ?thesis using 1(2,3) by (simp add: decode_loop.simps [of input edit])
  next
    case (Some r)
    obtain tag input' where r: "r = (tag, input')" by (cases r)
    show ?thesis
    proof (cases "decode_tagged tag input' edit")
      case (Inl m)
      then show ?thesis using 1(2,3) Some r by (simp add: decode_loop.simps [of input edit])
    next
      case (Inr x)
      obtain edit2 rest2 where x: "x = (edit2, rest2)" by (cases x)
      have "decode_loop input edit = decode_loop rest2 edit2" using Some r Inr x by (simp add: decode_loop.simps [of input edit])
      then show ?thesis using 1(1) [OF Some r [symmetric] Inr x [symmetric]] 1(2) decode_tagged_levels [of tag input' edit edit2 rest2] Inr x 1(3) by simp
    qed
  qed
qed

text \<open>
  C38. Whatever the manifest holds, decoding a record returns, with success or as a corruption, and every level in the edit is a
  level of the database, so that applying it stays in the arrays of the levels.
\<close>

theorem version_edit_levels_safe:
  assumes "levels_ok used"
  shows "\<exists>edit. levels_ok edit \<and> (VersionEdit_DecodeFrom src used = (OK, edit) \<or> (\<exists>m. VersionEdit_DecodeFrom src used = (Corruption m, edit)))"
proof -
  obtain msg rest edit where d: "decode_loop src (VersionEdit_Clear used) = (msg, rest, edit)" by (cases "decode_loop src (VersionEdit_Clear used)")
  have "levels_ok (VersionEdit_Clear used)" using assms by (simp add: levels_ok_def VersionEdit_Clear_def)
  then have "levels_ok edit" by (rule decode_loop_levels [OF d])
  then show ?thesis by (intro exI [of _ edit]) (auto simp: VersionEdit_DecodeFrom_def d Let_def split: option.splits)
qed

theorem version_edit_levels_safe_witness:
  "levels_ok VersionEdit_init \<and> (\<exists>edit. levels_ok edit \<and> (VersionEdit_DecodeFrom [6, 7, 1] VersionEdit_init = (OK, edit)
     \<or> (\<exists>m. VersionEdit_DecodeFrom [6, 7, 1] VersionEdit_init = (Corruption m, edit))))"
proof
  show "levels_ok VersionEdit_init" by (simp add: levels_ok_def VersionEdit_init_def)
  from version_edit_levels_safe [OF this, of "[6, 7, 1]"]
  show "\<exists>edit. levels_ok edit \<and> (VersionEdit_DecodeFrom [6, 7, 1] VersionEdit_init = (OK, edit)
     \<or> (\<exists>m. VersionEdit_DecodeFrom [6, 7, 1] VersionEdit_init = (Corruption m, edit)))" .
qed

end
