(* ===== verification/Ldb_Options.thy ===== *)
theory Ldb_Options
  imports Ldb_Bloom Ldb_Format
begin

text \<open>
  \<^verbatim>\<open>include/leveldb/options.h\<close>, \<^verbatim>\<open>util/options.cc\<close> and \<^verbatim>\<open>SanitizeOptions\<close> of \<^verbatim>\<open>db/db_impl.cc\<close>: the options of a database and
  what becomes of those a user gives. A comparator and a filter policy are their virtual functions. The
  environment, the logger and the cache are arguments of the operations that use them.
\<close>

section \<open>Options\<close>

datatype CompressionType = kNoCompression | kSnappyCompression

fun CompressionType_value :: "CompressionType \<Rightarrow> byte" where
  "CompressionType_value kNoCompression = 0x0"
| "CompressionType_value kSnappyCompression = 0x1"

record FilterPolicy =
  fp_Name :: "byte list"
  fp_CreateFilter :: "slice list \<Rightarrow> byte list \<Rightarrow> byte list"
  fp_KeyMayMatch :: "slice \<Rightarrow> slice \<Rightarrow> bool"

record Options =
  op_Compare :: "slice \<Rightarrow> slice \<Rightarrow> int"
  op_FindShortestSeparator :: "byte list \<Rightarrow> slice \<Rightarrow> byte list"
  op_FindShortSuccessor :: "byte list \<Rightarrow> byte list"
  op_create_if_missing :: bool
  op_error_if_exists :: bool
  op_paranoid_checks :: bool
  op_write_buffer_size :: u64
  op_max_open_files :: int
  op_block_size :: u64
  op_block_restart_interval :: nat
  op_max_file_size :: u64
  op_compression :: CompressionType
  op_reuse_logs :: bool
  op_filter_policy :: "FilterPolicy option"

definition Options_init :: Options where
  "Options_init =
     \<lparr>op_Compare = Bytewise_Compare, op_FindShortestSeparator = Bytewise_FindShortestSeparator,
      op_FindShortSuccessor = Bytewise_FindShortSuccessor, op_create_if_missing = False, op_error_if_exists = False,
      op_paranoid_checks = False, op_write_buffer_size = 4 * 1024 * 1024, op_max_open_files = 1000, op_block_size = 4 * 1024,
      op_block_restart_interval = 16, op_max_file_size = 2 * 1024 * 1024, op_compression = kSnappyCompression,
      op_reuse_logs = False, op_filter_policy = None\<rparr>"

record ReadOptions =
  ro_verify_checksums :: bool
  ro_fill_cache :: bool

definition ReadOptions_init :: ReadOptions where
  "ReadOptions_init = \<lparr>ro_verify_checksums = False, ro_fill_cache = True\<rparr>"

section \<open>Filter policies\<close>

text \<open>''leveldb.BuiltinBloomFilter2''\<close>

definition Bloom_Name :: "byte list" where
  "Bloom_Name = [0x6c, 0x65, 0x76, 0x65, 0x6c, 0x64, 0x62, 0x2e, 0x42, 0x75, 0x69, 0x6c, 0x74, 0x69, 0x6e, 0x42, 0x6c, 0x6f, 0x6f, 0x6d,
     0x46, 0x69, 0x6c, 0x74, 0x65, 0x72, 0x32]"

definition bloom_policy :: "nat \<Rightarrow> FilterPolicy" where
  "bloom_policy bits_per_key =
     \<lparr>fp_Name = Bloom_Name, fp_CreateFilter = Bloom_CreateFilter (NewBloomFilterPolicy bits_per_key), fp_KeyMayMatch = Bloom_KeyMayMatch\<rparr>"

definition InternalFilterPolicy :: "FilterPolicy \<Rightarrow> FilterPolicy" where
  "InternalFilterPolicy user_policy =
     \<lparr>fp_Name = fp_Name user_policy, fp_CreateFilter = InternalFilter_CreateFilter (fp_CreateFilter user_policy),
      fp_KeyMayMatch = InternalFilter_KeyMayMatch (fp_KeyMayMatch user_policy)\<rparr>"

section \<open>Fixing the options of a user\<close>

text \<open>
  \<^verbatim>\<open>ClipToRange\<close> at its two instances: a \<^verbatim>\<open>size_t\<close> is converted to the type of the bounds, \<^verbatim>\<open>int\<close>, when it is compared.
\<close>

definition ClipToRange_size :: "u64 \<Rightarrow> int \<Rightarrow> int \<Rightarrow> u64" where
  "ClipToRange_size v minvalue maxvalue =
     (let v = (if sint (ucast v :: 32 word) > maxvalue then word_of_int maxvalue else v)
      in if sint (ucast v :: 32 word) < minvalue then word_of_int minvalue else v)"

definition ClipToRange_int :: "int \<Rightarrow> int \<Rightarrow> int \<Rightarrow> int" where
  "ClipToRange_int v minvalue maxvalue =
     (let v = (if v > maxvalue then maxvalue else v) in if v < minvalue then minvalue else v)"

definition kNumNonTableCacheFiles :: int where
  "kNumNonTableCacheFiles = 10"

definition SanitizeOptions :: "Options \<Rightarrow> Options" where
  "SanitizeOptions src =
     src\<lparr>op_Compare := InternalKey_Compare (op_Compare src),
         op_FindShortestSeparator := InternalKey_FindShortestSeparator (op_Compare src) (op_FindShortestSeparator src),
         op_FindShortSuccessor := InternalKey_FindShortSuccessor (op_Compare src) (op_FindShortSuccessor src),
         op_filter_policy := map_option InternalFilterPolicy (op_filter_policy src),
         op_max_open_files := ClipToRange_int (op_max_open_files src) (64 + kNumNonTableCacheFiles) 50000,
         op_write_buffer_size := ClipToRange_size (op_write_buffer_size src) (64 * 2 ^ 10) (2 ^ 30),
         op_max_file_size := ClipToRange_size (op_max_file_size src) (2 ^ 20) (2 ^ 30),
         op_block_size := ClipToRange_size (op_block_size src) (2 ^ 10) (4 * 2 ^ 20)\<rparr>"

section \<open>Properties\<close>

lemma int_below: "int n < 2 ^ 31 \<longleftrightarrow> n < 2 ^ 31"
  by simp

lemma sint_low32:
  assumes "unat (v :: u64) < 2 ^ 31"
  shows "sint (ucast v :: 32 word) = int (unat v)"
proof -
  have u: "uint v = int (unat v)" by simp
  have r: "0 \<le> uint v" "uint v < 2 ^ 31" using assms unfolding u int_below by auto
  have st: "signed_take_bit 31 k = k" and t: "take_bit 32 k = k" if "0 \<le> k" "k < 2 ^ 31" for k :: int
  proof -
    have "- (2 ^ 31) \<le> k" using that(1) by (rule order_trans [rotated]) simp
    then show "signed_take_bit 31 k = k" using that(2) by (rule signed_take_bit_int_eq_self)
    have "k < 2 ^ 32" using that(2) by (rule less_trans) simp
    with that(1) show "take_bit 32 k = k" by (rule take_bit_int_eq_self)
  qed
  have "signed_take_bit 31 (take_bit 32 (uint v)) = uint v" unfolding t [OF r] by (rule st [OF r])
  then have "sint (ucast v :: 32 word) = uint v" by (simp add: sint_uint unsigned_ucast_eq)
  then show ?thesis by (simp only: u)
qed

lemma ClipToRange_size_unat:
  assumes "unat v < 2 ^ 31" "0 \<le> lo" "lo \<le> hi" "hi < 2 ^ 31"
  shows "int (unat (ClipToRange_size v lo hi)) = max lo (min hi (int (unat v)))"
proof -
  have w: "int (unat (word_of_int x :: u64)) = x" "unat (word_of_int x :: u64) < 2 ^ 31" if "0 \<le> x" "x < 2 ^ 31" for x
  proof -
    show "int (unat (word_of_int x :: u64)) = x" using that by (simp add: uint_word_of_int)
    then have "int (unat (word_of_int x :: u64)) < 2 ^ 31" using that by simp
    then show "unat (word_of_int x :: u64) < 2 ^ 31" unfolding int_below .
  qed
  have hi: "0 \<le> hi" using assms(2,3) by linarith
  have lo: "lo < 2 ^ 31" using assms(3,4) by linarith
  show ?thesis
    using w(1) [OF assms(2) lo] w(1) [OF hi assms(4)] assms(1-3) sint_low32 [OF assms(1)] sint_low32 [OF w(2) [OF hi assms(4)]]
    unfolding ClipToRange_size_def Let_def by (auto split: if_splits)
qed

text \<open>
  C35. The options a database runs with: for sizes an \<^verbatim>\<open>int\<close> can hold, buffers, files and blocks are as large as the user
  asked for, or as the nearest bound, and the number of open files too.
\<close>

theorem sanitize_options_range:
  assumes "unat (op_write_buffer_size src) < 2 ^ 31" "unat (op_max_file_size src) < 2 ^ 31" "unat (op_block_size src) < 2 ^ 31"
  shows "int (unat (op_write_buffer_size (SanitizeOptions src))) = max (64 * 2 ^ 10) (min (2 ^ 30) (int (unat (op_write_buffer_size src))))
    \<and> int (unat (op_max_file_size (SanitizeOptions src))) = max (2 ^ 20) (min (2 ^ 30) (int (unat (op_max_file_size src))))
    \<and> int (unat (op_block_size (SanitizeOptions src))) = max (2 ^ 10) (min (4 * 2 ^ 20) (int (unat (op_block_size src))))
    \<and> op_max_open_files (SanitizeOptions src) = max 74 (min 50000 (op_max_open_files src))"
  using ClipToRange_size_unat [OF assms(1), of "64 * 2 ^ 10" "2 ^ 30"] ClipToRange_size_unat [OF assms(2), of "2 ^ 20" "2 ^ 30"]
    ClipToRange_size_unat [OF assms(3), of "2 ^ 10" "4 * 2 ^ 20"]
  by (simp add: SanitizeOptions_def ClipToRange_int_def kNumNonTableCacheFiles_def Let_def)

theorem sanitize_options_range_witness:
  "op_max_open_files (SanitizeOptions (Options_init\<lparr>op_max_open_files := 10\<rparr>)) = 74"
  using sanitize_options_range [of "Options_init\<lparr>op_max_open_files := 10\<rparr>"] by (simp add: Options_init_def)

text \<open>
  A size that an \<^verbatim>\<open>int\<close> cannot hold is not clipped: 4 GiB and 1 MiB stays as it is, and 3 GiB
  becomes the lower bound.
\<close>

theorem sanitize_options_wrap:
  "op_write_buffer_size (SanitizeOptions (Options_init\<lparr>op_write_buffer_size := 2 ^ 32 + 2 ^ 20\<rparr>)) = 2 ^ 32 + 2 ^ 20
   \<and> op_write_buffer_size (SanitizeOptions (Options_init\<lparr>op_write_buffer_size := 3 * 2 ^ 30\<rparr>)) = 64 * 2 ^ 10"
  by (simp add: SanitizeOptions_def ClipToRange_size_def Let_def)

end
