(* ===== verification/Ldb_Version.thy ===== *)
theory Ldb_Version
  imports Ldb_Version_Edit Ldb_Options
begin

text \<open>
  \<^verbatim>\<open>Version\<close> of \<^verbatim>\<open>db/version_set.cc\<close>: the table files of a database, by level, and how they are searched. A
  \<^verbatim>\<open>FileMetaData*\<close> is an address, and the objects are given by a function from addresses. The table cache is an argument: what
  \<^verbatim>\<open>TableCache::Get\<close> returns, with the call of the handler it makes, and the new state of the cache. \<open>None\<close> stands for
  a search that does not end.
\<close>

section \<open>Ranges of files\<close>

type_synonym fptr = nat
type_synonym metas = "fptr \<Rightarrow> FileMetaData"

definition user_smallest :: "FileMetaData \<Rightarrow> slice" where
  "user_smallest f = ExtractUserKey (fm_smallest f)"

definition user_largest :: "FileMetaData \<Rightarrow> slice" where
  "user_largest f = ExtractUserKey (fm_largest f)"

partial_function (option) FindFile_loop :: "(slice \<Rightarrow> slice \<Rightarrow> int) \<Rightarrow> metas \<Rightarrow> fptr list \<Rightarrow> slice \<Rightarrow> nat \<Rightarrow> nat \<Rightarrow> nat option" where
  "FindFile_loop icmp meta files key left right =
     (if left < right
      then let mid = ((left + right) mod 2 ^ 32) div 2;
               f = meta (files ! mid)
           in if icmp (fm_largest f) key < 0 then FindFile_loop icmp meta files key (mid + 1) right
              else FindFile_loop icmp meta files key left mid
      else Some right)"

definition FindFile :: "(slice \<Rightarrow> slice \<Rightarrow> int) \<Rightarrow> metas \<Rightarrow> fptr list \<Rightarrow> slice \<Rightarrow> nat option" where
  "FindFile icmp meta files key = FindFile_loop icmp meta files key 0 (length files mod 2 ^ 32)"

definition AfterFile :: "(slice \<Rightarrow> slice \<Rightarrow> int) \<Rightarrow> slice option \<Rightarrow> FileMetaData \<Rightarrow> bool" where
  "AfterFile ucmp ukey f \<longleftrightarrow> (case ukey of None \<Rightarrow> False | Some k \<Rightarrow> ucmp k (user_largest f) > 0)"

definition BeforeFile :: "(slice \<Rightarrow> slice \<Rightarrow> int) \<Rightarrow> slice option \<Rightarrow> FileMetaData \<Rightarrow> bool" where
  "BeforeFile ucmp ukey f \<longleftrightarrow> (case ukey of None \<Rightarrow> False | Some k \<Rightarrow> ucmp k (user_smallest f) < 0)"

fun overlaps_some :: "(slice \<Rightarrow> slice \<Rightarrow> int) \<Rightarrow> metas \<Rightarrow> slice option \<Rightarrow> slice option \<Rightarrow> fptr list \<Rightarrow> bool" where
  "overlaps_some ucmp meta smallest largest [] = False"
| "overlaps_some ucmp meta smallest largest (f # files) =
     (if AfterFile ucmp smallest (meta f) \<or> BeforeFile ucmp largest (meta f) then overlaps_some ucmp meta smallest largest files
      else True)"

definition SomeFileOverlapsRange ::
    "(slice \<Rightarrow> slice \<Rightarrow> int) \<Rightarrow> bool \<Rightarrow> metas \<Rightarrow> fptr list \<Rightarrow> slice option \<Rightarrow> slice option \<Rightarrow> bool option" where
  "SomeFileOverlapsRange ucmp disjoint_sorted_files meta files smallest_user_key largest_user_key =
     (if \<not> disjoint_sorted_files then Some (overlaps_some ucmp meta smallest_user_key largest_user_key files)
      else case (case smallest_user_key of None \<Rightarrow> Some 0
                 | Some k \<Rightarrow> let small_key = AppendInternalKey [] \<lparr>user_key = k, sequence = kMaxSequenceNumber, key_type = kValueTypeForSeek\<rparr>
                            in FindFile (InternalKey_Compare ucmp) meta files small_key) of
             None \<Rightarrow> None
           | Some index \<Rightarrow> if index \<ge> length files then Some False
                          else Some (\<not> BeforeFile ucmp largest_user_key (meta (files ! index))))"

section \<open>Versions\<close>

record GetStats =
  seek_file :: "fptr option"
  seek_file_level :: int

record Version =
  v_refs :: int
  v_files :: "fptr list list"
  v_file_to_compact :: "fptr option"
  v_file_to_compact_level :: int

definition Version_init :: Version where
  "Version_init = \<lparr>v_refs = 0, v_files = replicate kNumLevels [], v_file_to_compact = None, v_file_to_compact_level = - 1\<rparr>"

text \<open>
  A file without references is one that was deleted. Giving the last reference to a version back frees it with its
  references to files: the result has no version any more. \<open>None\<close> is a failed assertion.
\<close>

definition Version_Ref :: "Version \<Rightarrow> Version" where
  "Version_Ref v = v\<lparr>v_refs := v_refs v + 1\<rparr>"

definition unref_file :: "fptr \<Rightarrow> metas \<Rightarrow> metas" where
  "unref_file f meta = meta(f := (meta f)\<lparr>fm_refs := fm_refs (meta f) - 1\<rparr>)"

definition Version_delete :: "Version \<Rightarrow> metas \<Rightarrow> metas" where
  "Version_delete v = fold (fold unref_file) (v_files v)"

definition Version_Unref :: "Version \<Rightarrow> metas \<Rightarrow> (Version option \<times> metas) option" where
  "Version_Unref v meta =
     (if v_refs v < 1 then None
      else let v = v\<lparr>v_refs := v_refs v - 1\<rparr>
           in if v_refs v = 0 then Some (None, Version_delete v meta) else Some (Some v, meta))"

definition NumFiles :: "Version \<Rightarrow> nat \<Rightarrow> nat" where
  "NumFiles v level = length (v_files v ! level)"

definition OverlapInLevel :: "(slice \<Rightarrow> slice \<Rightarrow> int) \<Rightarrow> metas \<Rightarrow> Version \<Rightarrow> nat \<Rightarrow> slice option \<Rightarrow> slice option \<Rightarrow> bool option" where
  "OverlapInLevel ucmp meta v level smallest_user_key largest_user_key =
     SomeFileOverlapsRange ucmp (level > 0) meta (v_files v ! level) smallest_user_key largest_user_key"

subsection \<open>Lookups\<close>

datatype SaverState = kNotFound | kFound | kDeleted | kCorrupt

definition SaveValue :: "(slice \<Rightarrow> slice \<Rightarrow> int) \<Rightarrow> slice \<Rightarrow> slice \<Rightarrow> slice \<Rightarrow> SaverState \<times> byte list \<Rightarrow> SaverState \<times> byte list" where
  "SaveValue ucmp ukey ikey v s =
     (case ParseInternalKey ikey of
        None \<Rightarrow> (kCorrupt, snd s)
      | Some parsed_key \<Rightarrow>
          if ucmp (user_key parsed_key) ukey = 0
          then (if key_type parsed_key = kTypeValue then (kFound, v) else (kDeleted, snd s))
          else s)"

text \<open>\<^verbatim>\<open>std::sort\<close> with \<^verbatim>\<open>NewestFirst\<close>; the files of a level have different numbers.\<close>

definition newest_first :: "metas \<Rightarrow> fptr list \<Rightarrow> fptr list" where
  "newest_first meta fs = rev (sort_key (\<lambda>f. fm_number (meta f)) fs)"

definition level0_files :: "(slice \<Rightarrow> slice \<Rightarrow> int) \<Rightarrow> metas \<Rightarrow> fptr list \<Rightarrow> slice \<Rightarrow> fptr list" where
  "level0_files ucmp meta files ukey =
     newest_first meta (filter (\<lambda>f. ucmp ukey (user_smallest (meta f)) \<ge> 0 \<and> ucmp ukey (user_largest (meta f)) \<le> 0) files)"

text \<open>The files of a level a lookup has to search, in order.\<close>

definition files_to_search :: "(slice \<Rightarrow> slice \<Rightarrow> int) \<Rightarrow> metas \<Rightarrow> nat \<Rightarrow> fptr list \<Rightarrow> slice \<Rightarrow> slice \<Rightarrow> fptr list option" where
  "files_to_search ucmp meta level files ukey ikey =
     (if files = [] then Some []
      else if level = 0 then Some (level0_files ucmp meta files ukey)
      else case FindFile (InternalKey_Compare ucmp) meta files ikey of
             None \<Rightarrow> None
           | Some index \<Rightarrow>
               if index \<ge> length files then Some []
               else if ucmp ukey (user_smallest (meta (files ! index))) < 0 then Some []
               else Some [files ! index])"

fun visit_files :: "('a \<Rightarrow> nat \<Rightarrow> fptr \<Rightarrow> bool \<times> 'a) \<Rightarrow> nat \<Rightarrow> fptr list \<Rightarrow> 'a \<Rightarrow> bool \<times> 'a" where
  "visit_files func level [] arg = (True, arg)"
| "visit_files func level (f # fs) arg =
     (case func arg level f of (go_on, arg) \<Rightarrow> if go_on then visit_files func level fs arg else (False, arg))"

fun visit_levels ::
    "(slice \<Rightarrow> slice \<Rightarrow> int) \<Rightarrow> metas \<Rightarrow> slice \<Rightarrow> slice \<Rightarrow> ('a \<Rightarrow> nat \<Rightarrow> fptr \<Rightarrow> bool \<times> 'a) \<Rightarrow> nat \<Rightarrow> fptr list list \<Rightarrow> 'a \<Rightarrow> 'a option" where
  "visit_levels ucmp meta ukey ikey func level [] arg = Some arg"
| "visit_levels ucmp meta ukey ikey func level (files # levels) arg =
     (case files_to_search ucmp meta level files ukey ikey of
        None \<Rightarrow> None
      | Some fs \<Rightarrow> (case visit_files func level fs arg of
                    (go_on, arg) \<Rightarrow> if go_on then visit_levels ucmp meta ukey ikey func (level + 1) levels arg else Some arg))"

definition ForEachOverlapping ::
    "(slice \<Rightarrow> slice \<Rightarrow> int) \<Rightarrow> metas \<Rightarrow> Version \<Rightarrow> slice \<Rightarrow> slice \<Rightarrow> 'a \<Rightarrow> ('a \<Rightarrow> nat \<Rightarrow> fptr \<Rightarrow> bool \<times> 'a) \<Rightarrow> 'a option" where
  "ForEachOverlapping ucmp meta v ukey ikey arg func = visit_levels ucmp meta ukey ikey func 0 (v_files v) arg"

text \<open>The state of a lookup: the statistics, the file read last, the value and the table cache.\<close>

record 's get_state =
  gs_stats :: GetStats
  gs_last :: "(fptr \<times> nat) option"
  gs_value :: "byte list"
  gs_cache :: 's

type_synonym 's table_get = "'s \<Rightarrow> ReadOptions \<Rightarrow> u64 \<Rightarrow> u64 \<Rightarrow> slice \<Rightarrow> (Status \<times> (slice \<times> slice) option \<times> 's) option"

definition charge_seek :: "'s get_state \<Rightarrow> 's get_state" where
  "charge_seek g =
     (case gs_last g of
        Some (f, level) \<Rightarrow>
          if seek_file (gs_stats g) = None then g\<lparr>gs_stats := \<lparr>seek_file = Some f, seek_file_level = int level\<rparr>\<rparr> else g
      | None \<Rightarrow> g)"

definition bytes_string :: "byte list \<Rightarrow> string" where
  "bytes_string s = map (\<lambda>b. char_of (unat b)) s"

fun search_files ::
    "'s table_get \<Rightarrow> (slice \<Rightarrow> slice \<Rightarrow> int) \<Rightarrow> metas \<Rightarrow> ReadOptions \<Rightarrow> slice \<Rightarrow> slice \<Rightarrow> nat \<Rightarrow> fptr list \<Rightarrow> 's get_state
       \<Rightarrow> (Status option \<times> 's get_state) option" where
  "search_files get ucmp meta options ukey ikey level [] g = Some (None, g)"
| "search_files get ucmp meta options ukey ikey level (f # fs) g =
     (let g = (charge_seek g)\<lparr>gs_last := Some (f, level)\<rparr>
      in case get (gs_cache g) options (fm_number (meta f)) (fm_file_size (meta f)) ikey of
           None \<Rightarrow> None
         | Some (s, call, c) \<Rightarrow>
             let (state, value) = (case call of None \<Rightarrow> (kNotFound, gs_value g) | Some (k, v) \<Rightarrow> SaveValue ucmp ukey k v (kNotFound, gs_value g));
                 g = g\<lparr>gs_value := value, gs_cache := c\<rparr>
             in if \<not> Status_ok s then Some (Some s, g)
                else (case state of
                        kNotFound \<Rightarrow> search_files get ucmp meta options ukey ikey level fs g
                      | kFound \<Rightarrow> Some (Some s, g)
                      | kDeleted \<Rightarrow> Some (Some (NotFound (status_message '''' '''')), g)
                      | kCorrupt \<Rightarrow> Some (Some (Corruption (status_message ''corrupted key for '' (bytes_string ukey))), g)))"

fun search_levels ::
    "'s table_get \<Rightarrow> (slice \<Rightarrow> slice \<Rightarrow> int) \<Rightarrow> metas \<Rightarrow> ReadOptions \<Rightarrow> slice \<Rightarrow> slice \<Rightarrow> nat \<Rightarrow> fptr list list \<Rightarrow> 's get_state
       \<Rightarrow> (Status \<times> 's get_state) option" where
  "search_levels get ucmp meta options ukey ikey level [] g = Some (NotFound (status_message '''' ''''), g)"
| "search_levels get ucmp meta options ukey ikey level (files # levels) g =
     (case files_to_search ucmp meta level files ukey ikey of
        None \<Rightarrow> None
      | Some fs \<Rightarrow>
          (case search_files get ucmp meta options ukey ikey level fs g of
             None \<Rightarrow> None
           | Some (Some s, g) \<Rightarrow> Some (s, g)
           | Some (None, g) \<Rightarrow> search_levels get ucmp meta options ukey ikey (level + 1) levels g))"

definition Version_Get ::
    "'s table_get \<Rightarrow> (slice \<Rightarrow> slice \<Rightarrow> int) \<Rightarrow> metas \<Rightarrow> Version \<Rightarrow> ReadOptions \<Rightarrow> LookupKey \<Rightarrow> byte list \<Rightarrow> 's
       \<Rightarrow> (Status \<times> byte list \<times> GetStats \<times> 's) option" where
  "Version_Get get ucmp meta v options k value c =
     (case search_levels get ucmp meta options (lookup_user_key k) (internal_key k) 0 (v_files v)
             \<lparr>gs_stats = \<lparr>seek_file = None, seek_file_level = - 1\<rparr>, gs_last = None, gs_value = value, gs_cache = c\<rparr> of
        None \<Rightarrow> None
      | Some (s, g) \<Rightarrow> Some (s, gs_value g, gs_stats g, gs_cache g))"

subsection \<open>Seeks are charged to files\<close>

definition UpdateStats :: "GetStats \<Rightarrow> Version \<times> metas \<Rightarrow> bool \<times> Version \<times> metas" where
  "UpdateStats stats vm =
     (case vm of (v, meta) \<Rightarrow>
       case seek_file stats of
         None \<Rightarrow> (False, v, meta)
       | Some f \<Rightarrow>
           let meta = meta(f := (meta f)\<lparr>fm_allowed_seeks := fm_allowed_seeks (meta f) - 1\<rparr>)
           in if fm_allowed_seeks (meta f) \<le> 0 \<and> v_file_to_compact v = None
              then (True, v\<lparr>v_file_to_compact := Some f, v_file_to_compact_level := seek_file_level stats\<rparr>, meta)
              else (False, v, meta))"

definition Match :: "nat \<times> GetStats \<Rightarrow> nat \<Rightarrow> fptr \<Rightarrow> bool \<times> nat \<times> GetStats" where
  "Match state level f =
     (case state of (matches, stats) \<Rightarrow>
       let matches = matches + 1;
           stats = (if matches = 1 then \<lparr>seek_file = Some f, seek_file_level = int level\<rparr> else stats)
       in (matches < 2, matches, stats))"

definition RecordReadSample :: "(slice \<Rightarrow> slice \<Rightarrow> int) \<Rightarrow> slice \<Rightarrow> GetStats \<Rightarrow> Version \<times> metas \<Rightarrow> (bool \<times> Version \<times> metas) option" where
  "RecordReadSample ucmp ikey stats vm =
     (case ParseInternalKey ikey of
        None \<Rightarrow> Some (False, vm)
      | Some parsed \<Rightarrow>
          (case ForEachOverlapping ucmp (snd vm) (fst vm) (user_key parsed) ikey (0, stats) Match of
             None \<Rightarrow> None
           | Some (matches, stats) \<Rightarrow> Some (if matches \<ge> 2 then UpdateStats stats vm else (False, vm))))"

subsection \<open>Overlapping files\<close>

definition TargetFileSize :: "Options \<Rightarrow> u64" where
  "TargetFileSize options = op_max_file_size options"

definition MaxGrandParentOverlapBytes :: "Options \<Rightarrow> int" where
  "MaxGrandParentOverlapBytes options = sint (10 * TargetFileSize options)"

definition ExpandedCompactionByteSizeLimit :: "Options \<Rightarrow> int" where
  "ExpandedCompactionByteSizeLimit options = sint (25 * TargetFileSize options)"

definition MaxFileSizeForLevel :: "Options \<Rightarrow> int \<Rightarrow> u64" where
  "MaxFileSizeForLevel options level = TargetFileSize options"

definition TotalFileSize :: "metas \<Rightarrow> fptr list \<Rightarrow> int" where
  "TotalFileSize meta files = sint (fold (\<lambda>f sum. sum + fm_file_size (meta f)) files 0)"

definition outside_range :: "(slice \<Rightarrow> slice \<Rightarrow> int) \<Rightarrow> FileMetaData \<Rightarrow> slice option \<Rightarrow> slice option \<Rightarrow> bool" where
  "outside_range ucmp f user_begin user_end \<longleftrightarrow>
     (case user_begin of None \<Rightarrow> False | Some b \<Rightarrow> ucmp (user_largest f) b < 0)
     \<or> (case user_end of None \<Rightarrow> False | Some e \<Rightarrow> ucmp (user_smallest f) e > 0)"

definition extends_begin :: "(slice \<Rightarrow> slice \<Rightarrow> int) \<Rightarrow> FileMetaData \<Rightarrow> slice option \<Rightarrow> bool" where
  "extends_begin ucmp f user_begin \<longleftrightarrow> (case user_begin of None \<Rightarrow> False | Some b \<Rightarrow> ucmp (user_smallest f) b < 0)"

definition extends_end :: "(slice \<Rightarrow> slice \<Rightarrow> int) \<Rightarrow> FileMetaData \<Rightarrow> slice option \<Rightarrow> bool" where
  "extends_end ucmp f user_end \<longleftrightarrow> (case user_end of None \<Rightarrow> False | Some e \<Rightarrow> ucmp (user_largest f) e > 0)"

partial_function (option) overlapping_loop ::
    "(slice \<Rightarrow> slice \<Rightarrow> int) \<Rightarrow> metas \<Rightarrow> bool \<Rightarrow> fptr list \<Rightarrow> nat \<Rightarrow> slice option \<Rightarrow> slice option \<Rightarrow> fptr list \<Rightarrow> fptr list option" where
  "overlapping_loop ucmp meta level0 files i user_begin user_end inputs =
     (if i < length files
      then let f = files ! i
           in if outside_range ucmp (meta f) user_begin user_end
              then overlapping_loop ucmp meta level0 files (i + 1) user_begin user_end inputs
              else if level0 \<and> extends_begin ucmp (meta f) user_begin
              then overlapping_loop ucmp meta level0 files 0 (Some (user_smallest (meta f))) user_end []
              else if level0 \<and> extends_end ucmp (meta f) user_end
              then overlapping_loop ucmp meta level0 files 0 user_begin (Some (user_largest (meta f))) []
              else overlapping_loop ucmp meta level0 files (i + 1) user_begin user_end (inputs @ [f])
      else Some inputs)"

definition GetOverlappingInputs :: "(slice \<Rightarrow> slice \<Rightarrow> int) \<Rightarrow> metas \<Rightarrow> Version \<Rightarrow> nat \<Rightarrow> slice option \<Rightarrow> slice option \<Rightarrow> fptr list option" where
  "GetOverlappingInputs ucmp meta v level begin_key end_key =
     overlapping_loop ucmp meta (level = 0) (v_files v ! level) 0 (map_option ExtractUserKey begin_key) (map_option ExtractUserKey end_key) []"

definition kMaxMemCompactLevel :: nat where
  "kMaxMemCompactLevel = 2"

function pick_level :: "(slice \<Rightarrow> slice \<Rightarrow> int) \<Rightarrow> Options \<Rightarrow> metas \<Rightarrow> Version \<Rightarrow> slice \<Rightarrow> slice \<Rightarrow> nat \<Rightarrow> nat option" where
  "pick_level ucmp options meta v smallest_user_key largest_user_key level =
     (if level < kMaxMemCompactLevel
      then case OverlapInLevel ucmp meta v (level + 1) (Some smallest_user_key) (Some largest_user_key) of
             None \<Rightarrow> None
           | Some overlap \<Rightarrow>
               if overlap then Some level
               else if level + 2 < kNumLevels
               then let start = AppendInternalKey [] \<lparr>user_key = smallest_user_key, sequence = kMaxSequenceNumber, key_type = kValueTypeForSeek\<rparr>;
                        limit = AppendInternalKey [] \<lparr>user_key = largest_user_key, sequence = 0, key_type = kTypeDeletion\<rparr>
                    in case GetOverlappingInputs ucmp meta v (level + 2) (Some start) (Some limit) of
                         None \<Rightarrow> None
                       | Some overlaps \<Rightarrow>
                           if TotalFileSize meta overlaps > MaxGrandParentOverlapBytes options then Some level
                           else pick_level ucmp options meta v smallest_user_key largest_user_key (level + 1)
               else pick_level ucmp options meta v smallest_user_key largest_user_key (level + 1)
      else Some level)"
  by pat_completeness auto
termination by (relation "measure (\<lambda>(_, _, _, _, _, _, level). kMaxMemCompactLevel - level)") auto

declare pick_level.simps [simp del]

definition PickLevelForMemTableOutput :: "(slice \<Rightarrow> slice \<Rightarrow> int) \<Rightarrow> Options \<Rightarrow> metas \<Rightarrow> Version \<Rightarrow> slice \<Rightarrow> slice \<Rightarrow> nat option" where
  "PickLevelForMemTableOutput ucmp options meta v smallest_user_key largest_user_key =
     (case OverlapInLevel ucmp meta v 0 (Some smallest_user_key) (Some largest_user_key) of
        None \<Rightarrow> None
      | Some overlap \<Rightarrow> if overlap then Some 0 else pick_level ucmp options meta v smallest_user_key largest_user_key 0)"

end
