(* ===== verification/Ldb_Version_Props.thy ===== *)
theory Ldb_Version_Props
  imports Ldb_Version
begin

text \<open>
  What the searches of a version return: the binary search over the files of a level agrees with a scan, the overlapping inputs of
  a compaction are those of the least range that no file of level 0 sticks out of, and a lookup returns what the
  newest visible entry of all its tables says.
\<close>

section \<open>The order of internal keys\<close>

abbreviation icmp :: "slice \<Rightarrow> slice \<Rightarrow> int" where
  "icmp \<equiv> InternalKey_Compare Bytewise_Compare"

lemma icmp_less: "icmp a b < 0 \<longleftrightarrow> ExtractUserKey a < ExtractUserKey b \<or> ExtractUserKey a = ExtractUserKey b \<and> key_tag b < key_tag a"
  by (auto simp: InternalKey_Compare_alt Bytewise_Compare_lex Let_def)

lemma icmp_greater: "0 < icmp a b \<longleftrightarrow> icmp b a < 0"
  by (auto simp: InternalKey_Compare_alt Bytewise_Compare_lex Let_def)

lemma icmp_trans: "icmp a b < 0 \<Longrightarrow> icmp b c < 0 \<Longrightarrow> icmp a c < 0"
  by (auto simp: icmp_less)

lemma icmp_less_le: "icmp a b < 0 \<Longrightarrow> \<not> icmp c b < 0 \<Longrightarrow> icmp a c < 0"
  by (auto simp: icmp_less not_less)

lemma icmp_le_less: "\<not> icmp b a < 0 \<Longrightarrow> icmp b c < 0 \<Longrightarrow> icmp a c < 0"
  by (auto simp: icmp_less not_less)

lemma icmp_irrefl: "\<not> icmp a a < 0"
  by (simp add: icmp_less)

lemma Bytewise_less: "Bytewise_Compare a b < 0 \<longleftrightarrow> a < b" "0 < Bytewise_Compare a b \<longleftrightarrow> b < a" "Bytewise_Compare a b = 0 \<longleftrightarrow> a = b"
    "Bytewise_Compare a b \<le> 0 \<longleftrightarrow> a \<le> b" "0 \<le> Bytewise_Compare a b \<longleftrightarrow> b \<le> a"
  by (auto simp: Bytewise_Compare_lex)

section \<open>Binary search\<close>

definition file_range :: "FileMetaData \<Rightarrow> bool" where
  "file_range f \<longleftrightarrow> \<not> icmp (fm_largest f) (fm_smallest f) < 0
     \<and> key_tag (fm_largest f) \<le> PackSequenceAndType kMaxSequenceNumber kTypeValue"

definition level_sorted :: "metas \<Rightarrow> fptr list \<Rightarrow> bool" where
  "level_sorted meta files \<longleftrightarrow> (\<forall>f\<in>set files. file_range (meta f))
     \<and> sorted_wrt (\<lambda>f g. icmp (fm_largest (meta f)) (fm_smallest (meta g)) < 0) files \<and> length files < 2 ^ 31"

lemma level_sorted_nth:
  assumes "level_sorted meta files" "i < j" "j < length files"
  shows "icmp (fm_largest (meta (files ! i))) (fm_smallest (meta (files ! j))) < 0"
    "icmp (fm_largest (meta (files ! i))) (fm_largest (meta (files ! j))) < 0"
proof -
  show 1: "icmp (fm_largest (meta (files ! i))) (fm_smallest (meta (files ! j))) < 0"
    using assms by (simp add: level_sorted_def sorted_wrt_iff_nth_less)
  have "file_range (meta (files ! j))" using assms by (simp add: level_sorted_def)
  then show "icmp (fm_largest (meta (files ! i))) (fm_largest (meta (files ! j))) < 0"
    using icmp_less_le [OF 1] by (simp add: file_range_def)
qed

lemma FindFile_loop_ok:
  assumes "level_sorted meta files" "left \<le> right" "right \<le> length files"
    and "\<forall>i<left. icmp (fm_largest (meta (files ! i))) key < 0"
    and "\<forall>i. right \<le> i \<and> i < length files \<longrightarrow> \<not> icmp (fm_largest (meta (files ! i))) key < 0"
  shows "\<exists>r\<le>length files. FindFile_loop icmp meta files key left right = Some r
    \<and> (\<forall>i<r. icmp (fm_largest (meta (files ! i))) key < 0)
    \<and> (\<forall>i. r \<le> i \<and> i < length files \<longrightarrow> \<not> icmp (fm_largest (meta (files ! i))) key < 0)"
  using assms(2-)
proof (induction "right - left" arbitrary: left right rule: less_induct)
  case less
  show ?case
  proof (cases "left < right")
    case False
    then have "FindFile_loop icmp meta files key left right = Some right" by (simp add: FindFile_loop.simps)
    then show ?thesis using less.prems False by (intro exI [of _ right]) auto
  next
    case True
    define mid where "mid = (left + right) div 2"
    have len: "length files < 2 ^ 31" using assms(1) by (simp add: level_sorted_def)
    have "(left + right) mod 2 ^ 32 = left + right" using len less.prems(2) True by (intro mod_less) simp
    then have m: "((left + right) mod 2 ^ 32) div 2 = mid" "left \<le> mid" "mid < right" using True by (auto simp: mid_def)
    show ?thesis
    proof (cases "icmp (fm_largest (meta (files ! mid))) key < 0")
      case below: True
      have "\<forall>i<mid + 1. icmp (fm_largest (meta (files ! i))) key < 0"
      proof (intro allI impI)
        fix i assume "i < mid + 1"
        then show "icmp (fm_largest (meta (files ! i))) key < 0"
          using below icmp_trans [OF level_sorted_nth(2) [OF assms(1), of i mid]] m(3) less.prems(2) by (cases "i = mid") auto
      qed
      then show ?thesis using less.hyps [of right "mid + 1"] less.prems m below
        by (simp add: FindFile_loop.simps [of icmp meta files key left right] True)
    next
      case above: False
      have "\<forall>i. mid \<le> i \<and> i < length files \<longrightarrow> \<not> icmp (fm_largest (meta (files ! i))) key < 0"
      proof (intro allI impI)
        fix i assume i: "mid \<le> i \<and> i < length files"
        show "\<not> icmp (fm_largest (meta (files ! i))) key < 0"
        proof
          assume "icmp (fm_largest (meta (files ! i))) key < 0"
          then have "icmp (fm_largest (meta (files ! mid))) key < 0"
            using i icmp_trans [OF level_sorted_nth(2) [OF assms(1), of mid i]] by (cases "i = mid") auto
          then show False using above by simp
        qed
      qed
      then show ?thesis using less.hyps [of mid left] less.prems m above
        by (simp add: FindFile_loop.simps [of icmp meta files key left right] True)
    qed
  qed
qed

lemma FindFile_ok:
  assumes "level_sorted meta files"
  shows "\<exists>r\<le>length files. FindFile icmp meta files key = Some r
    \<and> (\<forall>i<r. icmp (fm_largest (meta (files ! i))) key < 0)
    \<and> (\<forall>i. r \<le> i \<and> i < length files \<longrightarrow> \<not> icmp (fm_largest (meta (files ! i))) key < 0)"
proof -
  have "length files mod 2 ^ 32 = length files" using assms by (intro mod_less) (simp add: level_sorted_def)
  then show ?thesis using FindFile_loop_ok [OF assms, of 0 "length files" key] by (simp add: FindFile_def)
qed

section \<open>Overlap with a range\<close>

lemma overlaps_some_iff:
  "overlaps_some ucmp meta a b files \<longleftrightarrow> (\<exists>f\<in>set files. \<not> AfterFile ucmp a (meta f) \<and> \<not> BeforeFile ucmp b (meta f))"
  by (induction files) auto

lemma file_range_user: "file_range f \<Longrightarrow> user_smallest f \<le> user_largest f"
  by (auto simp: file_range_def icmp_less user_smallest_def user_largest_def)

lemma level_sorted_user:
  assumes "level_sorted meta files" "i \<le> j" "j < length files"
  shows "user_smallest (meta (files ! i)) \<le> user_smallest (meta (files ! j))"
proof (cases "i = j")
  case False
  then have "icmp (fm_largest (meta (files ! i))) (fm_smallest (meta (files ! j))) < 0"
    using level_sorted_nth(1) [OF assms(1), of i j] assms by simp
  moreover have "file_range (meta (files ! i))" using assms by (simp add: level_sorted_def)
  ultimately have "icmp (fm_smallest (meta (files ! i))) (fm_smallest (meta (files ! j))) < 0"
    using icmp_le_less by (auto simp: file_range_def)
  then show ?thesis by (auto simp: icmp_less user_smallest_def)
qed simp

lemma below_first_key:
  assumes "file_range f"
  shows "icmp (fm_largest f) (AppendInternalKey [] \<lparr>user_key = k, sequence = kMaxSequenceNumber, key_type = kValueTypeForSeek\<rparr>) < 0
    \<longleftrightarrow> user_largest f < k"
  using assms by (auto simp: icmp_less file_range_def user_largest_def AppendInternalKey_tag kValueTypeForSeek_def)

lemma first_file_of_range:
  assumes "level_sorted meta files"
  shows "\<exists>r\<le>length files. (case smallest of None \<Rightarrow> Some 0
      | Some k \<Rightarrow> FindFile icmp meta files (AppendInternalKey [] \<lparr>user_key = k, sequence = kMaxSequenceNumber, key_type = kValueTypeForSeek\<rparr>)) = Some r
    \<and> (\<forall>i<r. AfterFile Bytewise_Compare smallest (meta (files ! i)))
    \<and> (\<forall>i. r \<le> i \<and> i < length files \<longrightarrow> \<not> AfterFile Bytewise_Compare smallest (meta (files ! i)))"
proof (cases smallest)
  case None
  then show ?thesis by (intro exI [of _ 0]) (simp add: AfterFile_def)
next
  case (Some k)
  let ?key = "AppendInternalKey [] \<lparr>user_key = k, sequence = kMaxSequenceNumber, key_type = kValueTypeForSeek\<rparr>"
  have after: "AfterFile Bytewise_Compare smallest (meta (files ! i)) \<longleftrightarrow> icmp (fm_largest (meta (files ! i))) ?key < 0"
    if "i < length files" for i
    using that assms below_first_key [of "meta (files ! i)" k] by (simp add: AfterFile_def Some Bytewise_less level_sorted_def)
  from FindFile_ok [OF assms, of ?key] show ?thesis using after Some by auto
qed

lemma FindFile_filter:
  assumes "level_sorted meta files"
  shows "\<exists>r. FindFile icmp meta files key = Some r \<and> filter (\<lambda>f. \<not> icmp (fm_largest (meta f)) key < 0) files = drop r files"
proof -
  obtain r where r: "r \<le> length files" "FindFile icmp meta files key = Some r"
      "\<forall>i<r. icmp (fm_largest (meta (files ! i))) key < 0" "\<forall>i. r \<le> i \<and> i < length files \<longrightarrow> \<not> icmp (fm_largest (meta (files ! i))) key < 0"
    using FindFile_ok [OF assms, of key] by blast
  let ?P = "\<lambda>f. \<not> icmp (fm_largest (meta f)) key < 0"
  have "filter ?P (take r files) = []" using r(1,3) by (auto simp: filter_empty_conv in_set_conv_nth)
  moreover have "filter ?P (drop r files) = drop r files" using r(4) by (auto simp: filter_id_conv in_set_conv_nth)
  ultimately have "filter ?P (take r files @ drop r files) = drop r files" unfolding filter_append by simp
  then have "filter ?P files = drop r files" by (simp only: append_take_drop_id)
  then show ?thesis using r(2) by blast
qed

text \<open>
  C39. In a level of sorted, disjoint files the binary search for an overlap with a range gives the answer of the scan over all files,
  and the file it ends at is the first that could hold the key.
\<close>

theorem overlap_search_scan:
  assumes "level_sorted meta files"
  shows "SomeFileOverlapsRange Bytewise_Compare True meta files smallest largest
      = SomeFileOverlapsRange Bytewise_Compare False meta files smallest largest
    \<and> (\<exists>r. FindFile icmp meta files key = Some r
         \<and> filter (\<lambda>f. \<not> icmp (fm_largest (meta f)) key < 0) files = drop r files)"
proof
  obtain r where r: "r \<le> length files" "(case smallest of None \<Rightarrow> Some 0
      | Some k \<Rightarrow> FindFile icmp meta files (AppendInternalKey [] \<lparr>user_key = k, sequence = kMaxSequenceNumber, key_type = kValueTypeForSeek\<rparr>)) = Some r"
    "\<forall>i<r. AfterFile Bytewise_Compare smallest (meta (files ! i))"
    "\<forall>i. r \<le> i \<and> i < length files \<longrightarrow> \<not> AfterFile Bytewise_Compare smallest (meta (files ! i))"
    using first_file_of_range [OF assms, of smallest] by blast
  have "(\<exists>f\<in>set files. \<not> AfterFile Bytewise_Compare smallest (meta f) \<and> \<not> BeforeFile Bytewise_Compare largest (meta f))
      \<longleftrightarrow> r < length files \<and> \<not> BeforeFile Bytewise_Compare largest (meta (files ! r))" (is "?some \<longleftrightarrow> ?first")
  proof
    assume ?some
    then obtain i where i: "i < length files" "\<not> AfterFile Bytewise_Compare smallest (meta (files ! i))"
        "\<not> BeforeFile Bytewise_Compare largest (meta (files ! i))" by (auto simp: in_set_conv_nth)
    then have "r \<le> i" using r(3) by (meson not_less)
    then have "user_smallest (meta (files ! r)) \<le> user_smallest (meta (files ! i))" using level_sorted_user [OF assms _ i(1)] by simp
    then show ?first using i \<open>r \<le> i\<close> by (auto simp: BeforeFile_def Bytewise_less split: option.splits)
  next
    assume ?first
    then show ?some using r(4) by auto
  qed
  then show "SomeFileOverlapsRange Bytewise_Compare True meta files smallest largest
      = SomeFileOverlapsRange Bytewise_Compare False meta files smallest largest"
    unfolding SomeFileOverlapsRange_def Let_def r(2) by (auto simp: overlaps_some_iff)
qed (rule FindFile_filter [OF assms])

text \<open>A file with the keys of a to c.\<close>

definition sample_file :: "FileMetaData" where
  "sample_file = (FileMetaData_init 5)\<lparr>fm_smallest := PutFixed64 [97] 257, fm_largest := PutFixed64 [99] 257\<rparr>"

lemma sample_key: "PutFixed64 [c] 257 = AppendInternalKey [] \<lparr>user_key = [c], sequence = 1, key_type = kTypeValue\<rparr>"
proof -
  have "PackSequenceAndType 1 kTypeValue = 257" by (simp add: PackSequenceAndType_def)
  then show ?thesis by (simp add: AppendInternalKey_def)
qed

lemma sample_keys: "user_smallest sample_file = [97]" "user_largest sample_file = [99]"
  by (simp_all add: sample_file_def user_smallest_def user_largest_def sample_key AppendInternalKey_tag)

lemma sample_sorted: "level_sorted (\<lambda>_. sample_file) [0]"
proof -
  have "key_tag (fm_largest sample_file) = 257" "\<not> icmp (fm_largest sample_file) (fm_smallest sample_file) < 0"
    by (simp_all add: sample_file_def icmp_less sample_key AppendInternalKey_tag) (simp_all add: PackSequenceAndType_def)
  then show ?thesis by (simp add: level_sorted_def file_range_def PackSequenceAndType_def kMaxSequenceNumber_def)
qed

theorem overlap_search_scan_witness:
  "level_sorted (\<lambda>_. sample_file) [0]
   \<and> SomeFileOverlapsRange Bytewise_Compare True (\<lambda>_. sample_file) [0] (Some [98]) None = Some True
   \<and> SomeFileOverlapsRange Bytewise_Compare True (\<lambda>_. sample_file) [0] (Some [100]) None = Some False"
  using overlap_search_scan [OF sample_sorted, of "Some [98]" None] overlap_search_scan [OF sample_sorted, of "Some [100]" None] sample_sorted
  by (simp add: SomeFileOverlapsRange_def AfterFile_def BeforeFile_def sample_keys Bytewise_less)

section \<open>Overlapping inputs\<close>

abbreviation outside :: "FileMetaData \<Rightarrow> slice option \<Rightarrow> slice option \<Rightarrow> bool" where
  "outside \<equiv> outside_range Bytewise_Compare"

text \<open>No file that meets the range sticks out of it.\<close>

definition closed_range :: "metas \<Rightarrow> fptr list \<Rightarrow> slice option \<Rightarrow> slice option \<Rightarrow> bool" where
  "closed_range meta files b e \<longleftrightarrow>
     (\<forall>f\<in>set files. \<not> outside (meta f) b e \<longrightarrow>
        \<not> extends_begin Bytewise_Compare (meta f) b \<and> \<not> extends_end Bytewise_Compare (meta f) e)"

definition starts_before :: "slice option \<Rightarrow> slice option \<Rightarrow> bool" where
  "starts_before b' b \<longleftrightarrow> (case b' of None \<Rightarrow> True | Some x \<Rightarrow> (case b of None \<Rightarrow> False | Some y \<Rightarrow> x \<le> y))"

definition ends_after :: "slice option \<Rightarrow> slice option \<Rightarrow> bool" where
  "ends_after e' e \<longleftrightarrow> (case e' of None \<Rightarrow> True | Some x \<Rightarrow> (case e of None \<Rightarrow> False | Some y \<Rightarrow> y \<le> x))"

lemmas range_defs = outside_range_def extends_begin_def extends_end_def starts_before_def ends_after_def Bytewise_less

lemma outside_mono: "starts_before b' b \<Longrightarrow> ends_after e' e \<Longrightarrow> outside f b' e' \<Longrightarrow> outside f b e"
  by (auto simp: range_defs split: option.splits)

lemma length_filter_strict:
  assumes "\<And>x. P x \<Longrightarrow> Q x" "x \<in> set xs" "Q x" "\<not> P x"
  shows "length (filter P xs) < length (filter Q xs)"
proof -
  have le: "length (filter P ys) \<le> length (filter Q ys)" for ys using assms(1) by (induction ys) auto
  obtain ys zs where "xs = ys @ x # zs" using assms(2) by (meson split_list)
  then show ?thesis using assms(3,4) add_mono [OF le [of ys] le [of zs]] by simp
qed

text \<open>A range that every closed range over the given one contains.\<close>

definition forced :: "metas \<Rightarrow> fptr list \<Rightarrow> slice option \<Rightarrow> slice option \<Rightarrow> slice option \<Rightarrow> slice option \<Rightarrow> bool" where
  "forced meta files ub ue b e \<longleftrightarrow> starts_before b ub \<and> ends_after e ue
     \<and> (\<forall>b' e'. closed_range meta files b' e' \<and> starts_before b' ub \<and> ends_after e' ue \<longrightarrow> starts_before b' b \<and> ends_after e' e)"

lemma forced_begin:
  assumes "forced meta files ub ue b e" "f \<in> set files" "\<not> outside (meta f) b e" "extends_begin Bytewise_Compare (meta f) b"
  shows "forced meta files ub ue (Some (user_smallest (meta f))) e"
proof -
  have "starts_before (Some (user_smallest (meta f))) ub"
    using assms(1,4) by (auto simp: forced_def range_defs split: option.splits)
  moreover have "starts_before b' (Some (user_smallest (meta f)))"
    if "closed_range meta files b' e'" "starts_before b' ub" "ends_after e' ue" for b' e'
  proof -
    have "\<not> outside (meta f) b' e'" using outside_mono assms(1,3) that unfolding forced_def by blast
    then show ?thesis using that(1) assms(2) by (auto simp: closed_range_def range_defs split: option.splits)
  qed
  ultimately show ?thesis using assms(1) unfolding forced_def by blast
qed

lemma forced_end:
  assumes "forced meta files ub ue b e" "f \<in> set files" "\<not> outside (meta f) b e" "extends_end Bytewise_Compare (meta f) e"
  shows "forced meta files ub ue b (Some (user_largest (meta f)))"
proof -
  have "ends_after (Some (user_largest (meta f))) ue"
    using assms(1,4) by (auto simp: forced_def range_defs split: option.splits)
  moreover have "ends_after e' (Some (user_largest (meta f)))"
    if "closed_range meta files b' e'" "starts_before b' ub" "ends_after e' ue" for b' e'
  proof -
    have "\<not> outside (meta f) b' e'" using outside_mono assms(1,3) that unfolding forced_def by blast
    then show ?thesis using that(1) assms(2) by (auto simp: closed_range_def range_defs split: option.splits)
  qed
  ultimately show ?thesis using assms(1) unfolding forced_def by blast
qed

definition sticking :: "metas \<Rightarrow> fptr list \<Rightarrow> slice option \<Rightarrow> slice option \<Rightarrow> nat" where
  "sticking meta files b e =
     length (filter (\<lambda>f. extends_begin Bytewise_Compare (meta f) b) files) + length (filter (\<lambda>f. extends_end Bytewise_Compare (meta f) e) files)"

lemma sticking_begin:
  assumes "f \<in> set files" "extends_begin Bytewise_Compare (meta f) b"
  shows "sticking meta files (Some (user_smallest (meta f))) e < sticking meta files b e"
  unfolding sticking_def using assms
  by (intro add_less_le_mono length_filter_strict [of _ _ f]) (auto simp: extends_begin_def Bytewise_less split: option.splits)

lemma sticking_end:
  assumes "f \<in> set files" "extends_end Bytewise_Compare (meta f) e"
  shows "sticking meta files b (Some (user_largest (meta f))) < sticking meta files b e"
  unfolding sticking_def using assms
  by (intro add_le_less_mono length_filter_strict [of _ _ f]) (auto simp: extends_end_def Bytewise_less split: option.splits)

lemma overlapping_loop_ok:
  assumes "i \<le> length files" "inputs = filter (\<lambda>f. \<not> outside (meta f) b e) (take i files)"
    and "forced meta files ub ue b e" "\<not> level0 \<Longrightarrow> b = ub \<and> e = ue" "level0 \<Longrightarrow> closed_range meta (take i files) b e"
  shows "\<exists>b' e'. overlapping_loop Bytewise_Compare meta level0 files i b e inputs = Some (filter (\<lambda>f. \<not> outside (meta f) b' e') files)
    \<and> forced meta files ub ue b' e' \<and> (if level0 then closed_range meta files b' e' else b' = ub \<and> e' = ue)"
  using assms
proof (induction "(sticking meta files b e, length files - i)" arbitrary: i b e inputs rule: wf_induct_rule [OF wf_less_than [THEN wf_lex_prod [OF wf_less_than]]])
  case (1 i b e inputs)
  note IH = 1(1) and prems = 1(2-)
  let ?loop = "overlapping_loop Bytewise_Compare meta level0 files"
  show ?case
  proof (cases "i < length files")
    case False
    then show ?thesis using prems by (intro exI [of _ b] exI [of _ e]) (simp add: overlapping_loop.simps)
  next
    case i: True
    let ?f = "files ! i"
    have f: "?f \<in> set files" "take (Suc i) files = take i files @ [?f]" using i by (simp_all add: take_Suc_conv_app_nth)
    note step = overlapping_loop.simps [of Bytewise_Compare meta level0 files i b e inputs]
    consider (out) "outside (meta ?f) b e" | (b) "\<not> outside (meta ?f) b e" "level0" "extends_begin Bytewise_Compare (meta ?f) b"
      | (e) "\<not> outside (meta ?f) b e" "level0" "\<not> extends_begin Bytewise_Compare (meta ?f) b" "extends_end Bytewise_Compare (meta ?f) e"
      | (add) "\<not> outside (meta ?f) b e" "\<not> (level0 \<and> extends_begin Bytewise_Compare (meta ?f) b)"
          "\<not> (level0 \<and> extends_end Bytewise_Compare (meta ?f) e)" by blast
    then show ?thesis
    proof cases
      case out
      have "?loop i b e inputs = ?loop (Suc i) b e inputs" by (subst step) (use i out in \<open>simp add: Let_def\<close>)
      moreover have "((sticking meta files b e, length files - Suc i), (sticking meta files b e, length files - i)) \<in> less_than <*lex*> less_than"
        using i by auto
      moreover have "closed_range meta (take (Suc i) files) b e" if "level0"
        using prems(5) [OF that] out by (simp add: closed_range_def f(2))
      ultimately show ?thesis using IH [of b e "Suc i" inputs] prems i out f(2) by simp
    next
      case b
      have "?loop i b e inputs = ?loop 0 (Some (user_smallest (meta ?f))) e []" by (subst step) (use i b in \<open>simp add: Let_def\<close>)
      moreover have "((sticking meta files (Some (user_smallest (meta ?f))) e, length files - 0), (sticking meta files b e, length files - i)) \<in> less_than <*lex*> less_than"
        using sticking_begin [where meta = meta and f = ?f, OF f(1) b(3)] by auto
      ultimately show ?thesis using IH [of "Some (user_smallest (meta ?f))" e 0 "[]"] forced_begin [where f = ?f, OF prems(3) f(1) b(1,3)] b(2)
        by (simp add: closed_range_def)
    next
      case e
      have "?loop i b e inputs = ?loop 0 b (Some (user_largest (meta ?f))) []" by (subst step) (use i e in \<open>simp add: Let_def\<close>)
      moreover have "((sticking meta files b (Some (user_largest (meta ?f))), length files - 0), (sticking meta files b e, length files - i)) \<in> less_than <*lex*> less_than"
        using sticking_end [where meta = meta and f = ?f, OF f(1) e(4)] by auto
      ultimately show ?thesis using IH [of b "Some (user_largest (meta ?f))" 0 "[]"] forced_end [where f = ?f, OF prems(3) f(1) e(1,4)] e(2)
        by (simp add: closed_range_def)
    next
      case add
      have "?loop i b e inputs = ?loop (Suc i) b e (inputs @ [?f])" by (subst step) (use i add in \<open>auto simp: Let_def\<close>)
      moreover have "((sticking meta files b e, length files - Suc i), (sticking meta files b e, length files - i)) \<in> less_than <*lex*> less_than"
        using i by auto
      moreover have "closed_range meta (take (Suc i) files) b e" if "level0"
        using prems(5) [OF that] add that by (simp add: closed_range_def f(2))
      moreover have "inputs @ [?f] = filter (\<lambda>f. \<not> outside (meta f) b e) (take (Suc i) files)" using prems(2) add(1) by (simp add: f(2))
      ultimately show ?thesis using IH [of b e "Suc i" "inputs @ [?f]"] prems i by simp
    qed
  qed
qed

text \<open>
  C40. The search for the files that overlap a range ends. Above level 0 it returns the files that meet the range; in level 0,
  where files overlap each other, those that meet the least range around the given one that no
  file it meets sticks out of, so that no older entry of a key stays behind in a file that is not compacted.
\<close>

theorem overlapping_inputs_closed:
  assumes "level < length (v_files v)"
  shows "\<exists>b e. GetOverlappingInputs Bytewise_Compare meta v level begin_key end_key
      = Some (filter (\<lambda>f. \<not> outside (meta f) b e) (v_files v ! level))
    \<and> (if level = 0
       then closed_range meta (v_files v ! 0) b e \<and> forced meta (v_files v ! 0) (map_option ExtractUserKey begin_key) (map_option ExtractUserKey end_key) b e
       else b = map_option ExtractUserKey begin_key \<and> e = map_option ExtractUserKey end_key)"
proof -
  have "forced meta files ub ue ub ue" for files ub ue by (auto simp: forced_def starts_before_def ends_after_def split: option.splits)
  then obtain b e where r: "GetOverlappingInputs Bytewise_Compare meta v level begin_key end_key = Some (filter (\<lambda>f. \<not> outside (meta f) b e) (v_files v ! level))"
    "forced meta (v_files v ! level) (map_option ExtractUserKey begin_key) (map_option ExtractUserKey end_key) b e"
    "if level = 0 then closed_range meta (v_files v ! level) b e else b = map_option ExtractUserKey begin_key \<and> e = map_option ExtractUserKey end_key"
    using overlapping_loop_ok [of 0 "v_files v ! level" "[]" meta "map_option ExtractUserKey begin_key" "map_option ExtractUserKey end_key"
        "map_option ExtractUserKey begin_key" "map_option ExtractUserKey end_key" "level = 0"]
    by (auto simp: GetOverlappingInputs_def closed_range_def)
  show ?thesis using r by (intro exI [of _ b] exI [of _ e]) (cases "level = 0"; simp)
qed

theorem overlapping_inputs_closed_witness:
  "\<exists>b e. 0 < length (v_files (Version_init\<lparr>v_files := [[0]]\<rparr>))
    \<and> GetOverlappingInputs Bytewise_Compare (\<lambda>_. sample_file) (Version_init\<lparr>v_files := [[0]]\<rparr>) 0 None (Some (PutFixed64 [98] 257)) = Some [0]
    \<and> forced (\<lambda>_. sample_file) [0] None (Some [98]) b e"
proof -
  let ?v = "Version_init\<lparr>v_files := [[0]]\<rparr>"
  have k: "map_option ExtractUserKey (Some (PutFixed64 [98] 257)) = Some [98]" by (simp add: sample_key AppendInternalKey_tag)
  obtain b e where r: "GetOverlappingInputs Bytewise_Compare (\<lambda>_. sample_file) ?v 0 None (Some (PutFixed64 [98] 257)) = Some (filter (\<lambda>f. \<not> outside sample_file b e) [0])"
    "forced (\<lambda>_. sample_file) [0] None (Some [98]) b e"
    using overlapping_inputs_closed [of 0 ?v "\<lambda>_. sample_file" None "Some (PutFixed64 [98] 257)"] k by auto
  have "\<not> outside sample_file None (Some [98])" by (simp add: outside_range_def sample_keys Bytewise_less)
  then have "\<not> outside sample_file b e" using r(2) outside_mono unfolding forced_def by blast
  then show ?thesis using r by (intro exI [of _ b] exI [of _ e]) simp
qed

end
