(* ===== verification/Ldb_Block.thy ===== *)
theory Ldb_Block
  imports Ldb_Format Ldb_Status
begin

text \<open>
  \<^verbatim>\<open>table/block_builder.cc\<close> and \<^verbatim>\<open>table/block.cc\<close>: the blocks of which table files are made, with keys
  compressed against the key before them, and the iterator over such a block. Pointers into a block are
  offsets; they are naturals, cut to 32 bits where the code stores one in a \<^verbatim>\<open>uint32_t\<close>. A read
  outside the block has no value: then an operation yields \<open>None\<close>. Assertions are preconditions.
\<close>

section \<open>The builder\<close>

record BlockBuilder =
  bb_restart_interval :: nat
  bb_buffer :: "byte list"
  bb_restarts :: "u32 list"
  bb_counter :: nat
  bb_finished :: bool
  bb_last_key :: "byte list"

definition BlockBuilder_init :: "nat \<Rightarrow> BlockBuilder" where
  "BlockBuilder_init block_restart_interval =
     \<lparr>bb_restart_interval = block_restart_interval, bb_buffer = [], bb_restarts = [0], bb_counter = 0,
      bb_finished = False, bb_last_key = []\<rparr>"

definition BlockBuilder_Reset :: "BlockBuilder \<Rightarrow> BlockBuilder" where
  "BlockBuilder_Reset bb =
     bb\<lparr>bb_buffer := [], bb_restarts := [0], bb_counter := 0, bb_finished := False, bb_last_key := []\<rparr>"

definition CurrentSizeEstimate :: "BlockBuilder \<Rightarrow> nat" where
  "CurrentSizeEstimate bb = length (bb_buffer bb) + length (bb_restarts bb) * 4 + 4"

definition BlockBuilder_Finish :: "BlockBuilder \<Rightarrow> slice \<times> BlockBuilder" where
  "BlockBuilder_Finish bb =
     (let buffer = fold (\<lambda>r buf. PutFixed32 buf r) (bb_restarts bb) (bb_buffer bb);
          buffer = PutFixed32 buffer (word_of_nat (length (bb_restarts bb)))
      in (buffer, bb\<lparr>bb_buffer := buffer, bb_finished := True\<rparr>))"

function shared_loop :: "slice \<Rightarrow> slice \<Rightarrow> nat \<Rightarrow> nat \<Rightarrow> nat" where
  "shared_loop last_key_piece key min_length shared =
     (if shared < min_length \<and> last_key_piece ! shared = key ! shared
      then shared_loop last_key_piece key min_length (shared + 1) else shared)"
  by pat_completeness auto
termination by (relation "measure (\<lambda>(l, k, n, s). n - s)") auto

declare shared_loop.simps [simp del]

definition BlockBuilder_Add :: "BlockBuilder \<Rightarrow> slice \<Rightarrow> slice \<Rightarrow> BlockBuilder" where
  "BlockBuilder_Add bb key value =
     (let last_key_piece = bb_last_key bb;
          again = bb_counter bb < bb_restart_interval bb;
          shared = (if again then shared_loop last_key_piece key (min (length last_key_piece) (length key)) 0 else 0);
          restarts = (if again then bb_restarts bb else bb_restarts bb @ [word_of_nat (length (bb_buffer bb))]);
          counter = (if again then bb_counter bb else 0);
          non_shared = length key - shared;
          buffer = PutVarint32 (bb_buffer bb) (word_of_nat shared);
          buffer = PutVarint32 buffer (word_of_nat non_shared);
          buffer = PutVarint32 buffer (word_of_nat (length value));
          buffer = buffer @ drop shared key;
          buffer = buffer @ value
      in bb\<lparr>bb_buffer := buffer, bb_restarts := restarts, bb_counter := counter + 1,
            bb_last_key := take shared (bb_last_key bb) @ drop shared key\<rparr>)"

section \<open>Blocks\<close>

record Block =
  blk_data :: "byte list"
  blk_size :: nat
  blk_restart_offset :: nat

definition NumRestarts :: "byte list \<Rightarrow> nat \<Rightarrow> nat" where
  "NumRestarts data n = unat (DecodeFixed32 (drop (n - 4) data))"

text \<open>A size of 0 marks an error; \<^verbatim>\<open>restart_offset_\<close> is not set then.\<close>

definition Block_init :: "slice \<Rightarrow> Block" where
  "Block_init contents =
     (let size = length contents in
      if size < 4 then \<lparr>blk_data = contents, blk_size = 0, blk_restart_offset = 0\<rparr>
      else let max_restarts_allowed = (size - 4) div 4 in
           if NumRestarts contents size > max_restarts_allowed
           then \<lparr>blk_data = contents, blk_size = 0, blk_restart_offset = 0\<rparr>
           else \<lparr>blk_data = contents, blk_size = size,
                 blk_restart_offset = (size - ((1 + NumRestarts contents size) mod 2 ^ 32) * 4) mod 2 ^ 32\<rparr>)"

text \<open>
  The three lengths of the entry at \<open>p\<close> and the place where its key starts. The last test is made in 32
  bits, the sum of the two lengths included.
\<close>

definition DecodeEntry :: "byte list \<Rightarrow> nat \<Rightarrow> nat \<Rightarrow> (u32 \<times> u32 \<times> u32 \<times> nat) option" where
  "DecodeEntry data p limit =
     (if int limit - int p < 3 then None
      else let rest = take (limit - p) (drop p data);
               decoded =
                 (if rest ! 0 OR rest ! 1 OR rest ! 2 < 128
                  then Some (ucast (rest ! 0), ucast (rest ! 1), ucast (rest ! 2), drop 3 rest)
                  else case GetVarint32Ptr rest of
                         None \<Rightarrow> None
                       | Some (shared, rest) \<Rightarrow>
                           (case GetVarint32Ptr rest of
                              None \<Rightarrow> None
                            | Some (non_shared, rest) \<Rightarrow>
                                (case GetVarint32Ptr rest of
                                   None \<Rightarrow> None
                                 | Some (value_length, rest) \<Rightarrow> Some (shared, non_shared, value_length, rest))))
           in case decoded of
                None \<Rightarrow> None
              | Some (shared, non_shared, value_length, rest) \<Rightarrow>
                  if (word_of_nat (length rest) :: u32) < non_shared + value_length then None
                  else Some (shared, non_shared, value_length, limit - length rest))"

section \<open>The iterator\<close>

text \<open>
  \<^verbatim>\<open>value_\<close> is a position and a length. Where the code clears it, its pointer leaves the block; the
  model only sets the length to 0, since \<^verbatim>\<open>NextEntryOffset\<close> is not called before it is set again.
\<close>

record BlockIter =
  bi_data :: "byte list"
  bi_restarts :: nat
  bi_num_restarts :: nat
  bi_current :: nat
  bi_restart_index :: nat
  bi_key :: "byte list"
  bi_value_pos :: nat
  bi_value_len :: nat
  bi_status :: Status

definition BlockIter_init :: "byte list \<Rightarrow> nat \<Rightarrow> nat \<Rightarrow> BlockIter" where
  "BlockIter_init data restarts num_restarts =
     \<lparr>bi_data = data, bi_restarts = restarts, bi_num_restarts = num_restarts, bi_current = restarts,
      bi_restart_index = num_restarts, bi_key = [], bi_value_pos = 0, bi_value_len = 0, bi_status = OK\<rparr>"

definition NextEntryOffset :: "BlockIter \<Rightarrow> nat" where
  "NextEntryOffset it = (bi_value_pos it + bi_value_len it) mod 2 ^ 32"

definition GetRestartPoint :: "BlockIter \<Rightarrow> nat \<Rightarrow> nat" where
  "GetRestartPoint it index = unat (DecodeFixed32 (drop (bi_restarts it + index * 4) (bi_data it)))"

definition SeekToRestartPoint :: "BlockIter \<Rightarrow> nat \<Rightarrow> BlockIter" where
  "SeekToRestartPoint it index =
     it\<lparr>bi_key := [], bi_restart_index := index, bi_value_pos := GetRestartPoint it index, bi_value_len := 0\<rparr>"

definition BlockIter_Valid :: "BlockIter \<Rightarrow> bool" where
  "BlockIter_Valid it \<longleftrightarrow> bi_current it < bi_restarts it"

definition BlockIter_value :: "BlockIter \<Rightarrow> slice" where
  "BlockIter_value it = take (bi_value_len it) (drop (bi_value_pos it) (bi_data it))"

definition CorruptionError :: "BlockIter \<Rightarrow> BlockIter" where
  "CorruptionError it =
     it\<lparr>bi_current := bi_restarts it, bi_restart_index := bi_num_restarts it,
        bi_status := Corruption ''bad entry in block'', bi_key := [], bi_value_len := 0\<rparr>"

function advance_restart :: "BlockIter \<Rightarrow> nat \<Rightarrow> nat" where
  "advance_restart it restart_index =
     (if restart_index + 1 < bi_num_restarts it \<and> GetRestartPoint it (restart_index + 1) < bi_current it
      then advance_restart it (restart_index + 1) else restart_index)"
  by pat_completeness auto
termination by (relation "measure (\<lambda>(it, i). bi_num_restarts it - i)") auto

declare advance_restart.simps [simp del]

definition ParseNextKey :: "BlockIter \<Rightarrow> (bool \<times> BlockIter) option" where
  "ParseNextKey it =
     (let it = it\<lparr>bi_current := NextEntryOffset it\<rparr> in
      if bi_current it \<ge> bi_restarts it
      then Some (False, it\<lparr>bi_current := bi_restarts it, bi_restart_index := bi_num_restarts it\<rparr>)
      else case DecodeEntry (bi_data it) (bi_current it) (bi_restarts it) of
             None \<Rightarrow> Some (False, CorruptionError it)
           | Some (shared, non_shared, value_length, p) \<Rightarrow>
               if length (bi_key it) < unat shared then Some (False, CorruptionError it)
               else if p + unat non_shared > length (bi_data it) then None
               else let it = it\<lparr>bi_key := take (unat shared) (bi_key it) @ take (unat non_shared) (drop p (bi_data it)),
                               bi_value_pos := p + unat non_shared, bi_value_len := unat value_length\<rparr>
                    in Some (True, it\<lparr>bi_restart_index := advance_restart it (bi_restart_index it)\<rparr>))"

text \<open>\<^verbatim>\<open>while (ParseNextKey() && NextEntryOffset() < bound)\<close>\<close>

partial_function (option) scan_until :: "nat \<Rightarrow> BlockIter \<Rightarrow> BlockIter option" where
  "scan_until bound it =
     (case ParseNextKey it of
        None \<Rightarrow> None
      | Some (ok, it) \<Rightarrow> if ok \<and> NextEntryOffset it < bound then scan_until bound it else Some it)"

definition BlockIter_Next :: "BlockIter \<Rightarrow> BlockIter option" where
  "BlockIter_Next it = map_option snd (ParseNextKey it)"

fun Prev_restart :: "BlockIter \<Rightarrow> nat \<Rightarrow> nat \<Rightarrow> nat option" where
  "Prev_restart it original restart_index =
     (if GetRestartPoint it restart_index \<ge> original
      then (case restart_index of 0 \<Rightarrow> None | Suc i \<Rightarrow> Prev_restart it original i)
      else Some restart_index)"

declare Prev_restart.simps [simp del]

definition BlockIter_Prev :: "BlockIter \<Rightarrow> BlockIter option" where
  "BlockIter_Prev it =
     (let original = bi_current it
      in case Prev_restart it original (bi_restart_index it) of
           None \<Rightarrow> Some (it\<lparr>bi_current := bi_restarts it, bi_restart_index := bi_num_restarts it\<rparr>)
         | Some restart_index \<Rightarrow> scan_until original (SeekToRestartPoint it restart_index))"

text \<open>The binary search: \<open>Inl\<close> the iterator in its error state, \<open>Inr\<close> the restart point.\<close>

partial_function (option) Seek_loop ::
    "(slice \<Rightarrow> slice \<Rightarrow> int) \<Rightarrow> BlockIter \<Rightarrow> slice \<Rightarrow> nat \<Rightarrow> nat \<Rightarrow> (BlockIter + nat) option" where
  "Seek_loop cmp it target left right =
     (if left < right
      then let mid = ((left + right + 1) mod 2 ^ 32) div 2;
               region_offset = GetRestartPoint it mid
           in case DecodeEntry (bi_data it) region_offset (bi_restarts it) of
                None \<Rightarrow> Some (Inl (CorruptionError it))
              | Some (shared, non_shared, value_length, p) \<Rightarrow>
                  if shared \<noteq> 0 then Some (Inl (CorruptionError it))
                  else if p + unat non_shared > length (bi_data it) then None
                  else let mid_key = take (unat non_shared) (drop p (bi_data it))
                       in if cmp mid_key target < 0 then Seek_loop cmp it target mid right
                          else Seek_loop cmp it target left (mid - 1)
      else Some (Inr left))"

partial_function (option) Seek_scan :: "(slice \<Rightarrow> slice \<Rightarrow> int) \<Rightarrow> slice \<Rightarrow> BlockIter \<Rightarrow> BlockIter option" where
  "Seek_scan cmp target it =
     (case ParseNextKey it of
        None \<Rightarrow> None
      | Some (ok, it) \<Rightarrow>
          if \<not> ok then Some it
          else if cmp (bi_key it) target \<ge> 0 then Some it
          else Seek_scan cmp target it)"

definition BlockIter_Seek :: "(slice \<Rightarrow> slice \<Rightarrow> int) \<Rightarrow> BlockIter \<Rightarrow> slice \<Rightarrow> BlockIter option" where
  "BlockIter_Seek cmp it target =
     (case Seek_loop cmp it target 0 (bi_num_restarts it - 1) of
        None \<Rightarrow> None
      | Some (Inl it) \<Rightarrow> Some it
      | Some (Inr left) \<Rightarrow> Seek_scan cmp target (SeekToRestartPoint it left))"

definition BlockIter_SeekToFirst :: "BlockIter \<Rightarrow> BlockIter option" where
  "BlockIter_SeekToFirst it = map_option snd (ParseNextKey (SeekToRestartPoint it 0))"

definition BlockIter_SeekToLast :: "BlockIter \<Rightarrow> BlockIter option" where
  "BlockIter_SeekToLast it = scan_until (bi_restarts it) (SeekToRestartPoint it (bi_num_restarts it - 1))"

datatype BlockIterator = ErrorIterator Status | EmptyIterator | EntryIterator BlockIter

definition Block_NewIterator :: "Block \<Rightarrow> BlockIterator" where
  "Block_NewIterator b =
     (if blk_size b < 4 then ErrorIterator (Corruption ''bad block contents'')
      else let num_restarts = NumRestarts (blk_data b) (blk_size b)
           in if num_restarts = 0 then EmptyIterator
              else EntryIterator (BlockIter_init (blk_data b) (blk_restart_offset b) num_restarts))"

end
