(* ===== verification/Ldb_Filter_Block.thy ===== *)
theory Ldb_Filter_Block
  imports Ldb_Bloom
begin

text \<open>
  \<^verbatim>\<open>table/filter_block.cc\<close>: the block that holds a filter for every 2 KiB of table data. \<open>create\<close> and \<open>may_match\<close>
  are the filter policy; what a client relies on is proved for any policy that keeps the contract of the
  locale \<open>filter_policy\<close>. Sizes and block offsets are naturals, cut to 32 bits where they are stored.
\<close>

section \<open>The builder\<close>

definition kFilterBaseLg :: nat where
  "kFilterBaseLg = 11"

definition kFilterBase :: nat where
  "kFilterBase = push_bit kFilterBaseLg 1"

text \<open>\<^verbatim>\<open>tmp_keys_\<close> is empty between the operations.\<close>

record FilterBlockBuilder =
  fb_keys :: "byte list"
  fb_start :: "nat list"
  fb_result :: "byte list"
  fb_filter_offsets :: "u32 list"

definition FilterBlockBuilder_init :: FilterBlockBuilder where
  "FilterBlockBuilder_init = \<lparr>fb_keys = [], fb_start = [], fb_result = [], fb_filter_offsets = []\<rparr>"

definition GenerateFilter :: "(slice list \<Rightarrow> byte list \<Rightarrow> byte list) \<Rightarrow> FilterBlockBuilder \<Rightarrow> FilterBlockBuilder" where
  "GenerateFilter create fb =
     (let num_keys = length (fb_start fb);
          fb' = fb\<lparr>fb_filter_offsets := fb_filter_offsets fb @ [word_of_nat (length (fb_result fb))]\<rparr>
      in if num_keys = 0 then fb'
         else let start = fb_start fb @ [length (fb_keys fb)];
                  tmp_keys = map (\<lambda>i. take (start ! (i + 1) - start ! i) (drop (start ! i) (fb_keys fb))) [0..<num_keys]
              in fb'\<lparr>fb_result := create tmp_keys (fb_result fb), fb_keys := [], fb_start := []\<rparr>)"

lemma GenerateFilter_offsets [simp]: "length (fb_filter_offsets (GenerateFilter create fb)) = Suc (length (fb_filter_offsets fb))"
  by (simp add: GenerateFilter_def Let_def)

function StartBlock_loop :: "(slice list \<Rightarrow> byte list \<Rightarrow> byte list) \<Rightarrow> nat \<Rightarrow> FilterBlockBuilder \<Rightarrow> FilterBlockBuilder" where
  "StartBlock_loop create filter_index fb =
     (if filter_index > length (fb_filter_offsets fb) then StartBlock_loop create filter_index (GenerateFilter create fb) else fb)"
  by pat_completeness auto
termination by (relation "measure (\<lambda>(c, n, fb). n - length (fb_filter_offsets fb))") auto

declare StartBlock_loop.simps [simp del]

definition StartBlock :: "(slice list \<Rightarrow> byte list \<Rightarrow> byte list) \<Rightarrow> nat \<Rightarrow> FilterBlockBuilder \<Rightarrow> FilterBlockBuilder" where
  "StartBlock create block_offset fb = StartBlock_loop create (block_offset div kFilterBase) fb"

definition FilterBlock_AddKey :: "slice \<Rightarrow> FilterBlockBuilder \<Rightarrow> FilterBlockBuilder" where
  "FilterBlock_AddKey key fb = fb\<lparr>fb_start := fb_start fb @ [length (fb_keys fb)], fb_keys := fb_keys fb @ key\<rparr>"

definition FilterBlock_Finish :: "(slice list \<Rightarrow> byte list \<Rightarrow> byte list) \<Rightarrow> FilterBlockBuilder \<Rightarrow> slice \<times> FilterBlockBuilder" where
  "FilterBlock_Finish create fb =
     (let fb = (if fb_start fb \<noteq> [] then GenerateFilter create fb else fb);
          array_offset = word_of_nat (length (fb_result fb));
          result = fold (\<lambda>o1 res. PutFixed32 res o1) (fb_filter_offsets fb) (fb_result fb);
          result = PutFixed32 result array_offset;
          result = result @ [word_of_nat kFilterBaseLg]
      in (result, fb\<lparr>fb_result := result\<rparr>))"

section \<open>The reader\<close>

text \<open>
  \<^verbatim>\<open>data_\<close> and \<^verbatim>\<open>offset_\<close> are null in a reader of bad contents, which then has no filters. The byte
  \<^verbatim>\<open>base_lg_\<close> is read from is a signed \<^verbatim>\<open>char\<close>.
\<close>

record FilterBlockReader =
  fr_data :: "byte list"
  fr_offset :: nat
  fr_num :: nat
  fr_base_lg :: u64

definition FilterBlockReader_init :: "slice \<Rightarrow> FilterBlockReader" where
  "FilterBlockReader_init contents =
     (let n = length contents;
          none = \<lparr>fr_data = [], fr_offset = 0, fr_num = 0, fr_base_lg = 0\<rparr>
      in if n < 5 then none
         else let none = none\<lparr>fr_base_lg := scast (contents ! (n - 1))\<rparr>;
                  last_word = unat (DecodeFixed32 (drop (n - 5) contents))
              in if last_word > n - 5 then none
                 else none\<lparr>fr_data := contents, fr_offset := last_word, fr_num := (n - 5 - last_word) div 4\<rparr>)"

definition FilterBlock_KeyMayMatch :: "(slice \<Rightarrow> slice \<Rightarrow> bool) \<Rightarrow> FilterBlockReader \<Rightarrow> u64 \<Rightarrow> slice \<Rightarrow> bool" where
  "FilterBlock_KeyMayMatch may_match fr block_offset key =
     (let index = unat (drop_bit (unat (fr_base_lg fr)) block_offset)
      in if index < fr_num fr
         then let start = unat (DecodeFixed32 (drop (fr_offset fr + index * 4) (fr_data fr)));
                  limit = unat (DecodeFixed32 (drop (fr_offset fr + index * 4 + 4) (fr_data fr)))
              in if start \<le> limit \<and> limit \<le> fr_offset fr
                 then may_match key (take (limit - start) (drop start (fr_data fr)))
                 else if start = limit then False
                 else True
         else True)"

section \<open>What the builder holds\<close>

text \<open>
  The filters that are generated, as lists of their keys, and the keys that wait for the next one.
\<close>

fun filters_result :: "(slice list \<Rightarrow> byte list \<Rightarrow> byte list) \<Rightarrow> slice list list \<Rightarrow> byte list \<Rightarrow> byte list" where
  "filters_result create [] res = res"
| "filters_result create (g # gs) res = filters_result create gs (if g = [] then res else create g res)"

definition fb_rep :: "(slice list \<Rightarrow> byte list \<Rightarrow> byte list) \<Rightarrow> FilterBlockBuilder \<Rightarrow> slice list list \<Rightarrow> slice list \<Rightarrow> bool" where
  "fb_rep create fb gs ps \<longleftrightarrow>
     fb_keys fb = concat ps \<and> fb_start fb = map (\<lambda>i. length (concat (take i ps))) [0..<length ps]
     \<and> fb_result fb = filters_result create gs []
     \<and> fb_filter_offsets fb = map (\<lambda>i. word_of_nat (length (filters_result create (take i gs) []))) [0..<length gs]"

lemma filters_result_snoc: "filters_result create (gs @ [g]) res = (if g = [] then filters_result create gs res else create g (filters_result create gs res))"
  by (induction gs arbitrary: res) simp_all

lemma fb_rep_init: "fb_rep create FilterBlockBuilder_init [] []"
  by (simp add: fb_rep_def FilterBlockBuilder_init_def)

lemma fb_rep_AddKey: "fb_rep create fb gs ps \<Longrightarrow> fb_rep create (FilterBlock_AddKey k fb) gs (ps @ [k])"
  by (simp add: fb_rep_def FilterBlock_AddKey_def)

lemma concat_take_Suc: "i < length ps \<Longrightarrow> concat (take (Suc i) ps) = concat (take i ps) @ ps ! i"
  by (simp add: take_Suc_conv_app_nth)

lemma fb_rep_Generate:
  assumes "fb_rep create fb gs ps"
  shows "fb_rep create (GenerateFilter create fb) (gs @ [ps]) []"
proof -
  let ?start = "fb_start fb @ [length (fb_keys fb)]"
  have start: "?start ! i = length (concat (take i ps))" if "i \<le> length ps" for i
    using assms that by (auto simp: fb_rep_def nth_append)
  have "take (?start ! (i + 1) - ?start ! i) (drop (?start ! i) (fb_keys fb)) = ps ! i" if "i < length ps" for i
  proof -
    have "fb_keys fb = concat (take i ps) @ ps ! i @ concat (drop (Suc i) ps)"
      using assms that by (metis append.assoc append_take_drop_id concat_append concat_take_Suc fb_rep_def)
    then show ?thesis using start [of i] start [of "i + 1"] that by (simp add: concat_take_Suc)
  qed
  then have "map (\<lambda>i. take (?start ! (i + 1) - ?start ! i) (drop (?start ! i) (fb_keys fb))) [0..<length ps] = ps"
    by (intro nth_equalityI) simp_all
  moreover have "length (fb_start fb) = length ps" using assms by (simp add: fb_rep_def)
  moreover have "fb_filter_offsets fb @ [word_of_nat (length (fb_result fb))]
      = map (\<lambda>i. word_of_nat (length (filters_result create (take i (gs @ [ps])) []))) [0..<length (gs @ [ps])]"
    using assms by (simp add: fb_rep_def)
  ultimately show ?thesis
    using assms unfolding fb_rep_def GenerateFilter_def Let_def by (cases "ps = []") (simp_all add: filters_result_snoc)
qed

text \<open>Before block \<open>n\<close> is started the waiting keys go into the next filter and empty ones follow.\<close>

lemma fb_rep_StartBlock:
  assumes "fb_rep create fb gs ps" "length gs \<le> block_offset div kFilterBase"
  shows "fb_rep create (StartBlock create block_offset fb)
    (if length gs < block_offset div kFilterBase then gs @ ps # replicate (block_offset div kFilterBase - length gs - 1) [] else gs)
    (if length gs < block_offset div kFilterBase then [] else ps)"
  using assms unfolding StartBlock_def
proof (induction create "block_offset div kFilterBase" fb arbitrary: gs ps rule: StartBlock_loop.induct)
  case (1 create fb)
  let ?n = "block_offset div kFilterBase"
  have len: "length (fb_filter_offsets fb) = length gs" using 1(2) by (simp add: fb_rep_def)
  show ?case
  proof (cases "length gs < ?n")
    case True
    note IH = 1(1) [OF _ fb_rep_Generate [OF 1(2)]]
    have "fb_rep create (StartBlock_loop create ?n (GenerateFilter create fb)) (gs @ ps # replicate (?n - length gs - 1) []) []"
    proof (cases "Suc (length gs) < ?n")
      case more: True
      then have "replicate (?n - length gs - 1) [] = [] # replicate (?n - length (gs @ [ps]) - 1) ([] :: slice list)"
        by (simp add: Suc_diff_Suc replicate_Suc [symmetric] del: replicate_Suc)
      then show ?thesis using IH more True len by simp
    next
      case False
      then show ?thesis using IH True len by simp
    qed
    then show ?thesis using True len by (simp add: StartBlock_loop.simps [of create ?n fb])
  next
    case False
    then show ?thesis using 1(2) len by (simp add: StartBlock_loop.simps [of create ?n fb])
  qed
qed

section \<open>No false negatives\<close>

definition filter_block_bytes :: "(slice list \<Rightarrow> byte list \<Rightarrow> byte list) \<Rightarrow> slice list list \<Rightarrow> byte list" where
  "filter_block_bytes create gs =
     filters_result create gs []
     @ concat (map EncodeFixed32 (map (\<lambda>i. word_of_nat (length (filters_result create (take i gs) []))) [0..<Suc (length gs)]))
     @ [word_of_nat kFilterBaseLg]"

lemma fb_rep_Finish:
  assumes "fb_rep create fb gs ps"
  shows "fst (FilterBlock_Finish create fb) = filter_block_bytes create (if ps = [] then gs else gs @ [ps])"
proof -
  have put: "fold (\<lambda>o1 res. PutFixed32 res o1) os res = res @ concat (map EncodeFixed32 os)" for os res
    by (induction os arbitrary: res) (simp_all add: PutFixed32_def)
  have emp: "fb_start fb = [] \<longleftrightarrow> ps = []" using assms by (simp add: fb_rep_def)
  have "fb_rep create (if fb_start fb \<noteq> [] then GenerateFilter create fb else fb) (if ps = [] then gs else gs @ [ps]) []"
    using assms fb_rep_Generate [OF assms] emp by auto
  then show ?thesis
    unfolding FilterBlock_Finish_def Let_def put fb_rep_def by (simp add: filter_block_bytes_def PutFixed32_def)
qed

lemma FilterBlockReader_bytes:
  assumes "length (filter_block_bytes create gs) < 2 ^ 32"
  shows "FilterBlockReader_init (filter_block_bytes create gs) =
    \<lparr>fr_data = filter_block_bytes create gs, fr_offset = length (filters_result create gs []), fr_num = length gs, fr_base_lg = 11\<rparr>"
proof -
  let ?B = "filter_block_bytes create gs" and ?R = "filters_result create gs []"
  let ?os = "map (\<lambda>i. word_of_nat (length (filters_result create (take i gs) []))) [0..<length gs] :: u32 list"
  have four: "length (concat (map EncodeFixed32 ws)) = 4 * length ws" for ws by (induction ws) (simp_all add: EncodeFixed32_def)
  have B: "?B = ?R @ concat (map EncodeFixed32 ?os) @ EncodeFixed32 (word_of_nat (length ?R)) @ [11]"
    by (simp add: filter_block_bytes_def kFilterBaseLg_def)
  then have len: "length ?B = length ?R + 4 * length gs + 5" by (simp add: four EncodeFixed32_def del: map_map length_concat)
  have "drop (length ?B - 5) ?B = EncodeFixed32 (word_of_nat (length ?R)) @ [11]"
    unfolding len unfolding B by (simp add: four EncodeFixed32_def del: map_map length_concat)
  then have word: "unat (DecodeFixed32 (drop (length ?B - 5) ?B)) = length ?R"
    using assms len by (simp add: DecodeFixed32_bytes unat_of_nat)
  have "?B ! (length ?B - 1) = last ?B" by (rule last_conv_nth [symmetric]) (simp add: B)
  then have "?B ! (length ?B - 1) = 11" by (simp add: B)
  then show ?thesis unfolding FilterBlockReader_init_def Let_def word using len by simp
qed

context filter_policy
begin

lemma filters_result_grows: "\<exists>more1. filters_result CreateFilter gs res = res @ more1"
proof (induction gs arbitrary: res)
  case (Cons g gs)
  have "\<exists>m. CreateFilter g res = res @ m" using append_only [of res g] by (metis append_take_drop_id)
  then obtain m where m: "(if g = [] then res else CreateFilter g res) = res @ m" by (metis append_Nil2)
  from Cons [of "res @ m"] show ?case by (auto simp: m)
qed simp

lemma filters_result_take: "\<exists>more1. filters_result CreateFilter gs [] = filters_result CreateFilter (take i gs) [] @ more1"
proof -
  have "filters_result CreateFilter (as @ bs) res = filters_result CreateFilter bs (filters_result CreateFilter as res)" for as bs res
    by (induction as arbitrary: res) simp_all
  from this [of "take i gs" "drop i gs" "[]"] filters_result_grows show ?thesis by simp
qed

lemma filter_matches:
  assumes fits: "length (filter_block_bytes CreateFilter gs) < 2 ^ 32" and i: "i < length gs" "unat off div kFilterBase = i"
    and k: "k \<in> set (gs ! i)" "valid (gs ! i)"
  shows "FilterBlock_KeyMayMatch KeyMayMatch (FilterBlockReader_init (filter_block_bytes CreateFilter gs)) off k"
proof -
  let ?B = "filter_block_bytes CreateFilter gs" and ?R = "\<lambda>i. filters_result CreateFilter (take i gs) []"
  let ?ws = "map (\<lambda>i. word_of_nat (length (?R i))) [0..<Suc (length gs)] :: u32 list"
  obtain m1 where m1: "filters_result CreateFilter gs [] = ?R (Suc i) @ m1" using filters_result_take by blast
  obtain m0 where m0: "?R (Suc i) = ?R i @ m0" using filters_result_take [of "take (Suc i) gs" i] by (auto simp: min_def)
  have bnd: "length (?R j) < 2 ^ 32" if "j \<le> length gs" for j
    using fits filters_result_take [of gs j] by (auto simp: filter_block_bytes_def)
  have word: "unat (DecodeFixed32 (drop (length (filters_result CreateFilter gs []) + j * 4) ?B)) = length (?R j)" if "j \<le> length gs" for j
  proof -
    have "DecodeFixed32 (drop (length (filters_result CreateFilter gs []) + j * 4) ?B) = ?ws ! j"
      using fixed32_array [of j ?ws "[word_of_nat kFilterBaseLg]"] that by (simp add: filter_block_bytes_def del: upt_Suc map_map)
    then show ?thesis using bnd [OF that] that by (simp add: unat_of_nat del: upt_Suc)
  qed
  have index: "unat (drop_bit 11 off) = i" using i(2) by (simp add: unat_drop_bit kFilterBase_def kFilterBaseLg_def push_bit_eq_mult)
  have g: "gs ! i \<noteq> []" using k(1) by auto
  then have "?R (Suc i) = CreateFilter (gs ! i) (?R i)" using i(1) by (simp add: take_Suc_conv_app_nth filters_result_snoc)
  then have "KeyMayMatch k (drop (length (?R i)) (?R (Suc i)))" using no_false_negative [OF k(2,1)] by simp
  moreover have "take (length (?R (Suc i)) - length (?R i)) (drop (length (?R i)) ?B) = drop (length (?R i)) (?R (Suc i))"
    unfolding filter_block_bytes_def m1 m0 by simp
  moreover have "length (?R i) \<le> length (?R (Suc i))" "length (?R (Suc i)) \<le> length (filters_result CreateFilter gs [])"
    unfolding m1 m0 by simp_all
  moreover have "unat (11 :: u64) = 11" by simp
  moreover have "length (filters_result CreateFilter gs []) + i * 4 + 4 = length (filters_result CreateFilter gs []) + Suc i * 4" by simp
  ultimately show ?thesis
    unfolding FilterBlock_KeyMayMatch_def FilterBlockReader_bytes [OF fits] Let_def FilterBlockReader.simps
    using word [of i] word [of "Suc i"] i(1) by (simp only: index less_imp_le Suc_leI if_True simp_thms)
qed

end

end
