(* ===== verification/Ldb_Env.thy ===== *)
theory Ldb_Env
  imports Ldb_Status Ldb_Coding
begin

text \<open>
  The files of \<^verbatim>\<open>util/env_posix.cc\<close>: \<^verbatim>\<open>PosixSequentialFile\<close>, \<^verbatim>\<open>PosixMmapReadableFile\<close> and
  \<^verbatim>\<open>PosixWritableFile\<close>, over the system calls they make. What the kernel answers to the call at a given
  time is a parameter (\<open>os_outcome\<close>), so that a statement holds for every pattern of interrupted, short
  and failing calls; loops that retry are partial functions in the option type, whose \<open>None\<close> is a call
  that never returns. The interfaces \<^verbatim>\<open>SequentialFile\<close> and \<^verbatim>\<open>WritableFile\<close> that the log is written
  against are the locales \<open>sequential_file\<close> and \<open>writable_file\<close>.
\<close>

section \<open>System calls\<close>

datatype outcome = Ret nat | Fail int

record posix =
  os_outcome :: "nat \<Rightarrow> outcome"
  os_strerror :: "int \<Rightarrow> string"

text \<open>
  An open file of the kernel: its bytes, the bytes handed to the device by the last successful sync,
  whether its directory was synced, the read position, and the number of calls made so far.
\<close>

record kernel =
  k_bytes :: "byte list"
  k_synced :: "byte list"
  k_dir_synced :: bool
  k_pos :: nat
  k_time :: nat

definition tick :: "kernel \<Rightarrow> kernel" where
  "tick k = k\<lparr>k_time := k_time k + 1\<rparr>"

definition sys_write :: "posix \<Rightarrow> byte list \<Rightarrow> kernel \<Rightarrow> int \<times> int \<times> kernel" where
  "sys_write os data k =
     (case os_outcome os (k_time k) of
        Ret n \<Rightarrow> let r = min n (length data) in (int r, 0, tick k\<lparr>k_bytes := k_bytes k @ take r data\<rparr>)
      | Fail e \<Rightarrow> (- 1, e, tick k))"

text \<open>Reading a regular file is short only at its end.\<close>

definition sys_read :: "posix \<Rightarrow> nat \<Rightarrow> kernel \<Rightarrow> int \<times> int \<times> slice \<times> kernel" where
  "sys_read os n k =
     (case os_outcome os (k_time k) of
        Ret _ \<Rightarrow> let data = take n (drop (k_pos k) (k_bytes k))
                 in (int (length data), 0, data, tick k\<lparr>k_pos := k_pos k + length data\<rparr>)
      | Fail e \<Rightarrow> (- 1, e, [], tick k))"

definition sys_lseek_cur :: "posix \<Rightarrow> u64 \<Rightarrow> kernel \<Rightarrow> int \<times> int \<times> kernel" where
  "sys_lseek_cur os n k =
     (case os_outcome os (k_time k) of
        Ret _ \<Rightarrow> let pos = int (k_pos k) + sint n
                 in if pos < 0 then (- 1, 22, tick k) else (pos, 0, tick k\<lparr>k_pos := nat pos\<rparr>)
      | Fail e \<Rightarrow> (- 1, e, tick k))"

text \<open>\<^verbatim>\<open>fcntl(F_FULLFSYNC)\<close> and \<^verbatim>\<open>fsync\<close>, of the file itself or of its directory.\<close>

definition sys_sync :: "posix \<Rightarrow> bool \<Rightarrow> kernel \<Rightarrow> int \<times> int \<times> kernel" where
  "sys_sync os dir k =
     (case os_outcome os (k_time k) of
        Ret _ \<Rightarrow> (0, 0, if dir then tick k\<lparr>k_dir_synced := True\<rparr> else tick k\<lparr>k_synced := k_bytes k\<rparr>)
      | Fail e \<Rightarrow> (- 1, e, tick k))"

text \<open>\<^verbatim>\<open>open\<close> of the directory and \<^verbatim>\<open>close\<close>: a descriptor or an error.\<close>

definition sys_fd :: "posix \<Rightarrow> kernel \<Rightarrow> int \<times> int \<times> kernel" where
  "sys_fd os k =
     (case os_outcome os (k_time k) of
        Ret n \<Rightarrow> (int n, 0, tick k)
      | Fail e \<Rightarrow> (- 1, e, tick k))"

definition EINTR :: int where
  "EINTR = 4"

definition ENOENT :: int where
  "ENOENT = 2"

definition EINVAL :: int where
  "EINVAL = 22"

section \<open>The files\<close>

definition kWritableFileBufferSize :: nat where
  "kWritableFileBufferSize = 65536"

definition PosixError :: "posix \<Rightarrow> string \<Rightarrow> int \<Rightarrow> Status" where
  "PosixError os context error_number =
     (if error_number = ENOENT then NotFound (status_message context (os_strerror os error_number))
      else IOError (status_message context (os_strerror os error_number)))"

record PosixSequentialFile =
  ps_filename :: string
  ps_kernel :: kernel

text \<open>\<^verbatim>\<open>*result\<close> keeps its old value when the read fails.\<close>

partial_function (option) PosixSequentialFile_Read ::
    "posix \<Rightarrow> nat \<Rightarrow> slice \<Rightarrow> PosixSequentialFile \<Rightarrow> (Status \<times> slice \<times> PosixSequentialFile) option" where
  "PosixSequentialFile_Read os n result f =
     (case sys_read os n (ps_kernel f) of (read_size, errno, data, k) \<Rightarrow>
        if read_size < 0
        then if errno = EINTR then PosixSequentialFile_Read os n result (f\<lparr>ps_kernel := k\<rparr>)
             else Some (PosixError os (ps_filename f) errno, result, f\<lparr>ps_kernel := k\<rparr>)
        else Some (OK, data, f\<lparr>ps_kernel := k\<rparr>))"

definition PosixSequentialFile_Skip :: "posix \<Rightarrow> u64 \<Rightarrow> PosixSequentialFile \<Rightarrow> Status \<times> PosixSequentialFile" where
  "PosixSequentialFile_Skip os n f =
     (case sys_lseek_cur os n (ps_kernel f) of (r, errno, k) \<Rightarrow>
        (if r = - 1 then PosixError os (ps_filename f) errno else OK, f\<lparr>ps_kernel := k\<rparr>))"

text \<open>The mapped file: the end of the range is computed in 64 bits.\<close>

definition PosixMmapReadableFile_Read :: "posix \<Rightarrow> string \<Rightarrow> byte list \<Rightarrow> u64 \<Rightarrow> u64 \<Rightarrow> Status \<times> slice" where
  "PosixMmapReadableFile_Read os filename mapped offset n =
     (if offset + n > word_of_nat (length mapped) then (PosixError os filename EINVAL, [])
      else (OK, take (unat n) (drop (unat offset) mapped)))"

text \<open>
  \<^verbatim>\<open>Read\<close> with \<^verbatim>\<open>pread\<close>: \<open>opened\<close> and \<open>answer\<close> are what the kernel does to the calls. The file is opened for every
  read if it could not keep a descriptor; \<^verbatim>\<open>off_t\<close> is signed.
\<close>

definition PosixRandomAccessFile_Read ::
    "posix \<Rightarrow> string \<Rightarrow> byte list \<Rightarrow> bool \<Rightarrow> (u64 \<Rightarrow> outcome) \<Rightarrow> (u64 \<Rightarrow> outcome) \<Rightarrow> u64 \<Rightarrow> u64 \<Rightarrow> Status \<times> slice" where
  "PosixRandomAccessFile_Read os filename bytes has_permanent_fd opened answer offset n =
     (case (if has_permanent_fd then Ret 0 else opened offset) of
        Fail e \<Rightarrow> (PosixError os filename e, [])
      | Ret _ \<Rightarrow>
          (case answer offset of
             Fail e \<Rightarrow> (PosixError os filename e, [])
           | Ret _ \<Rightarrow> if sint offset < 0 then (PosixError os filename EINVAL, [])
                      else (OK, take (unat n) (drop (unat offset) bytes))))"

section \<open>The buffered writer\<close>

text \<open>\<open>pw_buf\<close> is \<^verbatim>\<open>buf_[0, pos_ - 1]\<close>; the bytes of the array behind \<^verbatim>\<open>pos_\<close> are never read.\<close>

record PosixWritableFile =
  pw_buf :: "byte list"
  pw_fd :: int
  pw_is_manifest :: bool
  pw_filename :: string
  pw_dirname :: string
  pw_kernel :: kernel

definition rfind_separator :: "string \<Rightarrow> nat option" where
  "rfind_separator filename =
     (if CHR ''/'' \<in> set filename
      then Some (length filename - 1 - length (takeWhile (\<lambda>c. c \<noteq> CHR ''/'') (rev filename)))
      else None)"

definition Dirname :: "string \<Rightarrow> string" where
  "Dirname filename =
     (case rfind_separator filename of None \<Rightarrow> ''.'' | Some separator_pos \<Rightarrow> take separator_pos filename)"

definition Basename :: "string \<Rightarrow> string" where
  "Basename filename =
     (case rfind_separator filename of None \<Rightarrow> filename | Some separator_pos \<Rightarrow> drop (separator_pos + 1) filename)"

definition IsManifest :: "string \<Rightarrow> bool" where
  "IsManifest filename \<longleftrightarrow> take 8 (Basename filename) = ''MANIFEST''"

definition PosixWritableFile_init :: "string \<Rightarrow> int \<Rightarrow> kernel \<Rightarrow> PosixWritableFile" where
  "PosixWritableFile_init filename fd k =
     \<lparr>pw_buf = [], pw_fd = fd, pw_is_manifest = IsManifest filename, pw_filename = filename,
      pw_dirname = Dirname filename, pw_kernel = k\<rparr>"

partial_function (option) WriteUnbuffered :: "posix \<Rightarrow> string \<Rightarrow> byte list \<Rightarrow> kernel \<Rightarrow> (Status \<times> kernel) option" where
  "WriteUnbuffered os filename data k =
     (if length data > 0
      then case sys_write os data k of (write_result, errno, k) \<Rightarrow>
             if write_result < 0
             then if errno = EINTR then WriteUnbuffered os filename data k
                  else Some (PosixError os filename errno, k)
             else WriteUnbuffered os filename (drop (nat write_result) data) k
      else Some (OK, k))"

definition FlushBuffer :: "posix \<Rightarrow> PosixWritableFile \<Rightarrow> (Status \<times> PosixWritableFile) option" where
  "FlushBuffer os f =
     (case WriteUnbuffered os (pw_filename f) (pw_buf f) (pw_kernel f) of
        None \<Rightarrow> None
      | Some (status, k) \<Rightarrow> Some (status, f\<lparr>pw_buf := [], pw_kernel := k\<rparr>))"

definition PosixWritableFile_Append :: "posix \<Rightarrow> slice \<Rightarrow> PosixWritableFile \<Rightarrow> (Status \<times> PosixWritableFile) option" where
  "PosixWritableFile_Append os data f =
     (let copy_size = min (length data) (kWritableFileBufferSize - length (pw_buf f));
          f = f\<lparr>pw_buf := pw_buf f @ take copy_size data\<rparr>;
          write_data = drop copy_size data
      in if write_data = [] then Some (OK, f)
         else case FlushBuffer os f of
                None \<Rightarrow> None
              | Some (status, f) \<Rightarrow>
                  if \<not> Status_ok status then Some (status, f)
                  else if length write_data < kWritableFileBufferSize then Some (OK, f\<lparr>pw_buf := write_data\<rparr>)
                  else case WriteUnbuffered os (pw_filename f) write_data (pw_kernel f) of
                         None \<Rightarrow> None
                       | Some (status, k) \<Rightarrow> Some (status, f\<lparr>pw_kernel := k\<rparr>))"

definition PosixWritableFile_Flush :: "posix \<Rightarrow> PosixWritableFile \<Rightarrow> (Status \<times> PosixWritableFile) option" where
  "PosixWritableFile_Flush os f = FlushBuffer os f"

definition PosixWritableFile_Close :: "posix \<Rightarrow> PosixWritableFile \<Rightarrow> (Status \<times> PosixWritableFile) option" where
  "PosixWritableFile_Close os f =
     (case FlushBuffer os f of
        None \<Rightarrow> None
      | Some (status, f) \<Rightarrow>
          (case sys_fd os (pw_kernel f) of (close_result, errno, k) \<Rightarrow>
             Some (if close_result < 0 \<and> Status_ok status then PosixError os (pw_filename f) errno else status,
                   f\<lparr>pw_fd := - 1, pw_kernel := k\<rparr>)))"

text \<open>The app is built with \<^verbatim>\<open>HAVE_FULLFSYNC\<close> and without \<^verbatim>\<open>HAVE_FDATASYNC\<close>.\<close>

definition SyncFd :: "posix \<Rightarrow> bool \<Rightarrow> string \<Rightarrow> kernel \<Rightarrow> Status \<times> kernel" where
  "SyncFd os dir fd_path k =
     (case sys_sync os dir k of (r, _, k) \<Rightarrow>
        if r = 0 then (OK, k)
        else case sys_sync os dir k of (r, errno, k) \<Rightarrow>
               if r = 0 then (OK, k) else (PosixError os fd_path errno, k))"

definition SyncDirIfManifest :: "posix \<Rightarrow> PosixWritableFile \<Rightarrow> Status \<times> PosixWritableFile" where
  "SyncDirIfManifest os f =
     (if \<not> pw_is_manifest f then (OK, f)
      else case sys_fd os (pw_kernel f) of (fd, errno, k) \<Rightarrow>
             if fd < 0 then (PosixError os (pw_dirname f) errno, f\<lparr>pw_kernel := k\<rparr>)
             else case SyncFd os True (pw_dirname f) k of (status, k) \<Rightarrow>
                    (case sys_fd os k of (_, _, k) \<Rightarrow> (status, f\<lparr>pw_kernel := k\<rparr>)))"

definition PosixWritableFile_Sync :: "posix \<Rightarrow> PosixWritableFile \<Rightarrow> (Status \<times> PosixWritableFile) option" where
  "PosixWritableFile_Sync os f =
     (case SyncDirIfManifest os f of (status, f) \<Rightarrow>
        if \<not> Status_ok status then Some (status, f)
        else case FlushBuffer os f of
               None \<Rightarrow> None
             | Some (status, f) \<Rightarrow>
                 if \<not> Status_ok status then Some (status, f)
                 else case SyncFd os False (pw_filename f) (pw_kernel f) of (status, k) \<Rightarrow>
                        Some (status, f\<lparr>pw_kernel := k\<rparr>))"

section \<open>The interfaces\<close>

text \<open>
  What the log writer relies on: an append or a flush that reports success has taken all the data,
  and a flushed file takes a small append without a system call.
\<close>

locale writable_file =
  fixes append :: "slice \<Rightarrow> 'f \<Rightarrow> (Status \<times> 'f) option"
    and flush :: "'f \<Rightarrow> (Status \<times> 'f) option"
    and contents :: "'f \<Rightarrow> byte list"
    and flushed :: "'f \<Rightarrow> bool"
  assumes append_ok: "append d f = Some (OK, f') \<Longrightarrow> contents f' = contents f @ d"
    and flush_ok: "flush f = Some (OK, f') \<Longrightarrow> contents f' = contents f \<and> flushed f'"
    and append_small: "flushed f \<Longrightarrow> length d \<le> 4096 \<Longrightarrow> \<exists>f'. append d f = Some (OK, f')"

text \<open>A file on which, from a reliable state on, every operation succeeds.\<close>

locale reliable_file = writable_file +
  fixes reliable :: "'a \<Rightarrow> bool"
  assumes append_succeeds: "reliable f \<Longrightarrow> \<exists>f'. append d f = Some (OK, f') \<and> reliable f'"
    and flush_succeeds: "reliable f \<Longrightarrow> \<exists>f'. flush f = Some (OK, f') \<and> reliable f'"

text \<open>What the log reader relies on: a read returns the next bytes, fewer only at the end of the file.\<close>

locale sequential_file =
  fixes read :: "nat \<Rightarrow> slice \<Rightarrow> 'f \<Rightarrow> (Status \<times> slice \<times> 'f) option"
    and unread :: "'f \<Rightarrow> byte list"
    and good :: "'f \<Rightarrow> bool"
  assumes read_ok: "good f \<Longrightarrow> \<exists>f'. read n buf f = Some (OK, take n (unread f), f') \<and> good f' \<and> unread f' = drop n (unread f)"

section \<open>The posix files provide them\<close>

lemma PosixError_not_OK [simp]: "PosixError os context e \<noteq> OK" "\<not> Status_ok (PosixError os context e)"
  by (simp_all add: PosixError_def Status_ok_def)

lemma tick_sel [simp]:
  "k_bytes (tick k) = k_bytes k" "k_synced (tick k) = k_synced k" "k_dir_synced (tick k) = k_dir_synced k"
  "k_pos (tick k) = k_pos k" "k_time (tick k) = Suc (k_time k)"
  by (simp_all add: tick_def)

text \<open>Writing extends the file by a prefix of the data, by all of it on success, and touches nothing else.\<close>

definition extends :: "byte list \<Rightarrow> Status \<Rightarrow> kernel \<Rightarrow> kernel \<Rightarrow> bool" where
  "extends data s k k' \<longleftrightarrow>
     (\<exists>n\<le>length data. k_bytes k' = k_bytes k @ take n data \<and> (s = OK \<longrightarrow> n = length data))
     \<and> k_synced k' = k_synced k \<and> k_dir_synced k' = k_dir_synced k"

lemma extends_refl: "extends data (PosixError os context e) k (tick k)"
  by (auto simp: extends_def)

lemma extends_same: "k_bytes k1 = k_bytes k \<Longrightarrow> k_synced k1 = k_synced k \<Longrightarrow> k_dir_synced k1 = k_dir_synced k \<Longrightarrow>
    extends data s k1 k' \<Longrightarrow> extends data s k k'"
  by (simp add: extends_def)

lemma extends_step:
  assumes "extends (drop r data) s k1 k'" "r \<le> length data" "k_bytes k1 = k_bytes k @ take r data"
    "k_synced k1 = k_synced k" "k_dir_synced k1 = k_dir_synced k"
  shows "extends data s k k'"
proof -
  obtain n where "n \<le> length data - r" "k_bytes k' = k_bytes k1 @ take n (drop r data)" "s = OK \<longrightarrow> n = length data - r"
    using assms(1) by (auto simp: extends_def)
  then have "r + n \<le> length data" "k_bytes k' = k_bytes k @ take (r + n) data" "s = OK \<longrightarrow> r + n = length data"
    using assms(2,3) by (auto simp: take_add)
  then show ?thesis using assms(1,4,5) by (auto simp: extends_def)
qed

lemma WriteUnbuffered_extends:
  assumes "WriteUnbuffered os filename data k = Some r"
  shows "extends data (fst r) k (snd r)"
proof (rule WriteUnbuffered.raw_induct [where P = "\<lambda>os filename data k r. extends data (fst r) k (snd r)", OF _ assms])
  fix rec os filename data k r
  assume IH: "\<And>os filename data k r. rec os filename data k = Some r \<Longrightarrow> extends data (fst r) k (snd r)"
    and eq: "(if length data > 0
      then case sys_write os data k of (write_result, errno, k) \<Rightarrow>
             if write_result < 0
             then if errno = EINTR then rec os filename data k
                  else Some (PosixError os filename errno, k)
             else rec os filename (drop (nat write_result) data) k
      else Some (OK, k)) = Some r"
  show "extends data (fst r) k (snd r)"
  proof (cases "length data > 0")
    case False
    then show ?thesis using eq by (auto simp: extends_def)
  next
    case True
    show ?thesis
    proof (cases "os_outcome os (k_time k)")
      case (Fail e)
      then show ?thesis
        using eq True IH [of os filename data "tick k" r]
        by (auto simp: sys_write_def extends_refl split: if_splits intro: extends_same [of "tick k"])
    next
      case (Ret n)
      let ?r = "min n (length data)" and ?k = "tick k\<lparr>k_bytes := k_bytes k @ take (min n (length data)) data\<rparr>"
      have "rec os filename (drop ?r data) ?k = Some r" using eq True Ret by (simp add: sys_write_def Let_def)
      from IH [OF this] show ?thesis by (rule extends_step) simp_all
    qed
  qed
qed

definition posix_contents :: "PosixWritableFile \<Rightarrow> byte list" where
  "posix_contents f = k_bytes (pw_kernel f) @ pw_buf f"

lemma FlushBuffer_cases:
  assumes "FlushBuffer os f = Some (s, f')"
  obtains k where "f' = f\<lparr>pw_buf := [], pw_kernel := k\<rparr>" "extends (pw_buf f) s (pw_kernel f) k"
  using assms WriteUnbuffered_extends by (fastforce simp: FlushBuffer_def split: option.splits)

lemma FlushBuffer_OK:
  "FlushBuffer os f = Some (OK, f') \<Longrightarrow> pw_buf f' = [] \<and> k_bytes (pw_kernel f') = posix_contents f
     \<and> k_synced (pw_kernel f') = k_synced (pw_kernel f) \<and> k_dir_synced (pw_kernel f') = k_dir_synced (pw_kernel f)
     \<and> pw_is_manifest f' = pw_is_manifest f"
  by (erule FlushBuffer_cases) (auto simp: extends_def posix_contents_def)

lemma Append_OK:
  assumes "PosixWritableFile_Append os d f = Some (OK, f')"
  shows "posix_contents f' = posix_contents f @ d"
proof -
  define c where "c = min (length d) (kWritableFileBufferSize - length (pw_buf f))"
  let ?f = "f\<lparr>pw_buf := pw_buf f @ take c d\<rparr>"
  have contents: "posix_contents ?f @ drop c d = posix_contents f @ d" by (simp add: posix_contents_def)
  consider "drop c d = []" "f' = ?f"
    | f1 where "FlushBuffer os ?f = Some (OK, f1)" "f' = f1\<lparr>pw_buf := drop c d\<rparr>"
    | f1 k where "FlushBuffer os ?f = Some (OK, f1)" "WriteUnbuffered os (pw_filename f1) (drop c d) (pw_kernel f1) = Some (OK, k)"
        "f' = f1\<lparr>pw_kernel := k\<rparr>"
    using assms unfolding PosixWritableFile_Append_def Let_def c_def [symmetric]
    by (auto simp: Status_ok_def split: if_splits option.splits prod.splits)
  then show ?thesis
  proof cases
    case 1
    then show ?thesis using contents by simp
  next
    case 2
    then show ?thesis using FlushBuffer_OK contents by (fastforce simp: posix_contents_def)
  next
    case 3
    then show ?thesis
      using FlushBuffer_OK [OF 3(1)] WriteUnbuffered_extends [OF 3(2)] contents
      by (auto simp: posix_contents_def extends_def)
  qed
qed

interpretation posix_out: writable_file "PosixWritableFile_Append os" "PosixWritableFile_Flush os" posix_contents
    "\<lambda>f. pw_buf f = []" for os
proof unfold_locales
  show "PosixWritableFile_Append os d f = Some (OK, f') \<Longrightarrow> posix_contents f' = posix_contents f @ d" for d f f'
    by (rule Append_OK)
  show "PosixWritableFile_Flush os f = Some (OK, f') \<Longrightarrow> posix_contents f' = posix_contents f \<and> pw_buf f' = []" for f f'
    using FlushBuffer_OK [of os f f'] by (simp add: PosixWritableFile_Flush_def posix_contents_def)
  show "pw_buf f = [] \<Longrightarrow> length d \<le> 4096 \<Longrightarrow> \<exists>f'. PosixWritableFile_Append os d f = Some (OK, f')" for f :: PosixWritableFile and d
    by (simp add: PosixWritableFile_Append_def kWritableFileBufferSize_def)
qed

text \<open>A kernel that interrupts calls but fails none of them, and always answers in the end.\<close>

definition calm :: "posix \<Rightarrow> bool" where
  "calm os \<longleftrightarrow> (\<forall>t. (\<exists>n. os_outcome os t = Ret n) \<or> os_outcome os t = Fail EINTR)
     \<and> (\<forall>t. \<exists>u\<ge>t. \<exists>n>0. os_outcome os u = Ret n)"

definition posix_unread :: "PosixSequentialFile \<Rightarrow> byte list" where
  "posix_unread f = drop (k_pos (ps_kernel f)) (k_bytes (ps_kernel f))"

lemma drop_past: "drop (p + min (length xs - p) n) xs = drop n (drop p xs)"
  by (cases "n \<le> length xs - p") (simp_all add: min_def add.commute)

lemma PosixSequentialFile_Read_calm:
  assumes "calm os" "os_outcome os u = Ret m" "k_time (ps_kernel f) \<le> u"
  shows "\<exists>f'. PosixSequentialFile_Read os n buf f = Some (OK, take n (posix_unread f), f')
    \<and> posix_unread f' = drop n (posix_unread f)"
  using assms(2,3)
proof (induction "u - k_time (ps_kernel f)" arbitrary: f rule: less_induct)
  case less
  show ?case
  proof (cases "os_outcome os (k_time (ps_kernel f))")
    case (Ret r)
    then show ?thesis
      by (subst PosixSequentialFile_Read.simps) (simp add: sys_read_def Let_def posix_unread_def drop_past)
  next
    case (Fail e)
    then have e: "e = EINTR" using assms(1) by (metis calm_def outcome.distinct(1) outcome.inject(2))
    have "k_time (ps_kernel f) \<noteq> u" using less.prems Fail by auto
    then have "\<exists>f'. PosixSequentialFile_Read os n buf (f\<lparr>ps_kernel := tick (ps_kernel f)\<rparr>)
        = Some (OK, take n (posix_unread f), f') \<and> posix_unread f' = drop n (posix_unread f)"
      using less.hyps [of "f\<lparr>ps_kernel := tick (ps_kernel f)\<rparr>"] less.prems by (simp add: posix_unread_def)
    then show ?thesis using Fail e by (subst PosixSequentialFile_Read.simps) (simp add: sys_read_def)
  qed
qed

interpretation posix_in: sequential_file "PosixSequentialFile_Read os" posix_unread "\<lambda>_. calm os" for os
proof unfold_locales
  fix n buf and f :: PosixSequentialFile
  assume calm: "calm os"
  then obtain u m where u: "k_time (ps_kernel f) \<le> u" "os_outcome os u = Ret m" unfolding calm_def by blast
  show "\<exists>f'. PosixSequentialFile_Read os n buf f = Some (OK, take n (posix_unread f), f') \<and> calm os
      \<and> posix_unread f' = drop n (posix_unread f)"
    using PosixSequentialFile_Read_calm [OF calm u(2,1)] calm by blast
qed

section \<open>Progress\<close>

text \<open>A kernel that, however late, takes a byte or reports an error.\<close>

definition responsive :: "posix \<Rightarrow> bool" where
  "responsive os \<longleftrightarrow> (\<forall>t. \<exists>u\<ge>t. (\<exists>n>0. os_outcome os u = Ret n) \<or> (\<exists>e. os_outcome os u = Fail e \<and> e \<noteq> EINTR))"

lemma WriteUnbuffered_returns:
  assumes "responsive os"
  shows "WriteUnbuffered os filename data k \<noteq> None"
proof (induction "length data" arbitrary: data k rule: less_induct)
  case less
  obtain u where u: "k_time k \<le> u" "(\<exists>n>0. os_outcome os u = Ret n) \<or> (\<exists>e. os_outcome os u = Fail e \<and> e \<noteq> EINTR)"
    using assms unfolding responsive_def by blast
  then show ?case
  proof (induction "u - k_time k" arbitrary: k rule: less_induct)
    case step: less
    show ?case
    proof (cases "data = []")
      case False
      have next_try: "WriteUnbuffered os filename data k' \<noteq> None" if "k_time k' = Suc (k_time k)" "k_time k \<noteq> u" for k'
        using step.hyps [of k'] step.prems that by simp
      show ?thesis
      proof (cases "os_outcome os (k_time k)")
        case (Fail e)
        show ?thesis
        proof (cases "e = EINTR")
          case True
          then have "k_time k \<noteq> u" using Fail step.prems(2) by auto
          then show ?thesis using False Fail True next_try [of "tick k"] by (simp add: WriteUnbuffered.simps [of _ _ _ k] sys_write_def)
        qed (use False Fail in \<open>simp add: WriteUnbuffered.simps [of _ _ _ k] sys_write_def\<close>)
      next
        case (Ret n)
        show ?thesis
        proof (cases "n = 0")
          case True
          then have "k_time k \<noteq> u" using Ret step.prems(2) by auto
          then show ?thesis using False Ret True next_try by (simp add: WriteUnbuffered.simps [of _ _ _ k] sys_write_def Let_def)
        next
          case pos: False
          then show ?thesis
            using False Ret less.hyps by (simp add: WriteUnbuffered.simps [of _ _ _ k] sys_write_def Let_def)
        qed
      qed
    qed (simp add: WriteUnbuffered.simps)
  qed
qed

lemma calm_responsive: "calm os \<Longrightarrow> responsive os"
  unfolding calm_def responsive_def by blast

lemma WriteUnbuffered_calm_status:
  assumes "WriteUnbuffered os filename data k = Some r"
  shows "calm os \<longrightarrow> fst r = OK"
proof (rule WriteUnbuffered.raw_induct [where P = "\<lambda>os filename data k r. calm os \<longrightarrow> fst r = OK", OF _ assms])
  fix rec os filename data k r
  assume IH: "\<And>os filename data k r. rec os filename data k = Some r \<Longrightarrow> calm os \<longrightarrow> fst r = OK"
    and eq: "(if length data > 0
      then case sys_write os data k of (write_result, errno, k) \<Rightarrow>
             if write_result < 0
             then if errno = EINTR then rec os filename data k
                  else Some (PosixError os filename errno, k)
             else rec os filename (drop (nat write_result) data) k
      else Some (OK, k)) = Some r"
  have "os_outcome os (k_time k) = Fail e \<Longrightarrow> calm os \<Longrightarrow> e = EINTR" for e
    by (metis calm_def outcome.distinct(1) outcome.inject(2))
  then show "calm os \<longrightarrow> fst r = OK"
    using eq IH by (auto simp: sys_write_def Let_def split: if_splits outcome.splits)
qed

lemma WriteUnbuffered_calm: "calm os \<Longrightarrow> \<exists>k'. WriteUnbuffered os filename data k = Some (OK, k')"
  using WriteUnbuffered_returns [OF calm_responsive] WriteUnbuffered_calm_status
  by (metis fst_conv not_None_eq surj_pair)

lemma FlushBuffer_calm: "calm os \<Longrightarrow> \<exists>f'. FlushBuffer os f = Some (OK, f')"
  using WriteUnbuffered_calm [of os "pw_filename f" "pw_buf f" "pw_kernel f"] by (auto simp: FlushBuffer_def)

lemma Append_calm:
  assumes "calm os"
  shows "\<exists>f'. PosixWritableFile_Append os d f = Some (OK, f')"
proof -
  let ?c = "min (length d) (kWritableFileBufferSize - length (pw_buf f))"
  obtain f1 where 1: "FlushBuffer os (f\<lparr>pw_buf := pw_buf f @ take ?c d\<rparr>) = Some (OK, f1)"
    using FlushBuffer_calm [OF assms] by blast
  obtain k where 2: "WriteUnbuffered os (pw_filename f1) (drop ?c d) (pw_kernel f1) = Some (OK, k)"
    using WriteUnbuffered_calm [OF assms] by blast
  show ?thesis unfolding PosixWritableFile_Append_def Let_def 1 by (simp only: option.case prod.case 2) simp
qed

interpretation posix_reliable: reliable_file "PosixWritableFile_Append os" "PosixWritableFile_Flush os" posix_contents
    "\<lambda>f. pw_buf f = []" "\<lambda>_. calm os" for os
  by unfold_locales (use FlushBuffer_calm Append_calm in \<open>auto simp: PosixWritableFile_Flush_def\<close>)

lemma FlushBuffer_returns: "responsive os \<Longrightarrow> FlushBuffer os f \<noteq> None"
  using WriteUnbuffered_returns [of os "pw_filename f" "pw_buf f" "pw_kernel f"] by (auto simp: FlushBuffer_def)

lemma returnsI: "x \<noteq> None \<Longrightarrow> \<exists>s f'. x = Some (s, f')"
  by auto

lemma SyncFd_file:
  "SyncFd os False path k = (s, k') \<Longrightarrow> k_bytes k' = k_bytes k \<and> k_dir_synced k' = k_dir_synced k
     \<and> k_synced k' = (if s = OK then k_bytes k else k_synced k)"
  by (auto simp: SyncFd_def sys_sync_def split: outcome.splits if_splits)

lemma SyncFd_dir:
  "SyncFd os True path k = (s, k') \<Longrightarrow> k_bytes k' = k_bytes k \<and> k_synced k' = k_synced k
     \<and> k_dir_synced k' = (if s = OK then True else k_dir_synced k)"
  by (auto simp: SyncFd_def sys_sync_def split: outcome.splits if_splits)

lemma SyncDirIfManifest_OK:
  "SyncDirIfManifest os f = (s, f') \<Longrightarrow> posix_contents f' = posix_contents f \<and> pw_is_manifest f' = pw_is_manifest f
     \<and> (s = OK \<and> pw_is_manifest f \<longrightarrow> k_dir_synced (pw_kernel f'))"
  by (auto simp: SyncDirIfManifest_def sys_fd_def posix_contents_def split: if_splits prod.splits outcome.splits dest!: SyncFd_dir)

section \<open>Properties\<close>

text \<open>
  C24. A buffered file refines the byte string of everything appended to it, whatever the kernel does
  in between: a successful \<^verbatim>\<open>Append\<close> adds its data at the end, \<^verbatim>\<open>Flush\<close> and \<^verbatim>\<open>Sync\<close> keep the string, a
  \<^verbatim>\<open>Flush\<close> that fails has written a prefix of the buffer, and after a successful \<^verbatim>\<open>Sync\<close> all of it is on the device (and the
  directory too, for a manifest).
\<close>

theorem posix_file_refines:
  "(PosixWritableFile_Append os d f = Some (OK, f') \<longrightarrow> posix_contents f' = posix_contents f @ d)
   \<and> (PosixWritableFile_Flush os f = Some (OK, f') \<longrightarrow> k_bytes (pw_kernel f') = posix_contents f \<and> pw_buf f' = [])
   \<and> (PosixWritableFile_Flush os f = Some (s, f') \<longrightarrow>
        (\<exists>n\<le>length (pw_buf f). k_bytes (pw_kernel f') = k_bytes (pw_kernel f) @ take n (pw_buf f)))
   \<and> (PosixWritableFile_Sync os f = Some (OK, f') \<longrightarrow>
        k_synced (pw_kernel f') = posix_contents f \<and> posix_contents f' = posix_contents f
        \<and> (pw_is_manifest f \<longrightarrow> k_dir_synced (pw_kernel f')))"
proof (intro conjI impI)
  assume "PosixWritableFile_Sync os f = Some (OK, f')"
  then obtain f1 f2 k where 1: "SyncDirIfManifest os f = (OK, f1)" and 2: "FlushBuffer os f1 = Some (OK, f2)"
    and 3: "SyncFd os False (pw_filename f2) (pw_kernel f2) = (OK, k)" "f' = f2\<lparr>pw_kernel := k\<rparr>"
    by (auto simp: PosixWritableFile_Sync_def Status_ok_def split: prod.splits option.splits if_splits)
  then show "k_synced (pw_kernel f') = posix_contents f" "posix_contents f' = posix_contents f"
    "pw_is_manifest f \<Longrightarrow> k_dir_synced (pw_kernel f')"
    using SyncDirIfManifest_OK [OF 1] FlushBuffer_OK [OF 2] SyncFd_file [OF 3(1)] by (auto simp: posix_contents_def)
next
  assume "PosixWritableFile_Flush os f = Some (s, f')"
  then show "\<exists>n\<le>length (pw_buf f). k_bytes (pw_kernel f') = k_bytes (pw_kernel f) @ take n (pw_buf f)"
    unfolding PosixWritableFile_Flush_def by (elim FlushBuffer_cases) (auto simp: extends_def)
qed (use FlushBuffer_OK [of os f f'] in \<open>simp_all add: posix_out.append_ok PosixWritableFile_Flush_def\<close>)

definition stutter :: posix where
  "stutter = \<lparr>os_outcome = (\<lambda>t. if even t then Fail EINTR else Ret 2), os_strerror = (\<lambda>_. ''error'')\<rparr>"

definition empty_kernel :: kernel where
  "empty_kernel = \<lparr>k_bytes = [], k_synced = [], k_dir_synced = False, k_pos = 0, k_time = 0\<rparr>"

theorem posix_file_refines_witness:
  "\<exists>f'. PosixWritableFile_Flush stutter
      \<lparr>pw_buf = [1, 2, 3], pw_fd = 3, pw_is_manifest = False, pw_filename = ''f'', pw_dirname = ''.'', pw_kernel = empty_kernel\<rparr>
    = Some (OK, f') \<and> k_bytes (pw_kernel f') = [1, 2, 3]"
proof -
  let ?f = "\<lparr>pw_buf = [1, 2, 3], pw_fd = 3, pw_is_manifest = False, pw_filename = ''f'', pw_dirname = ''.'', pw_kernel = empty_kernel\<rparr>"
  have "\<exists>f'. PosixWritableFile_Flush stutter ?f = Some (OK, f')"
    by (simp add: PosixWritableFile_Flush_def FlushBuffer_def WriteUnbuffered.simps sys_write_def stutter_def empty_kernel_def EINTR_def tick_def Let_def)
  then obtain f' where f': "PosixWritableFile_Flush stutter ?f = Some (OK, f')" ..
  then have "k_bytes (pw_kernel f') = posix_contents ?f" using posix_file_refines [of stutter "[]" ?f f' OK] by blast
  then show ?thesis using f' by (auto simp: posix_contents_def empty_kernel_def)
qed

text \<open>
  C25. The retry loops end: when the kernel, however late, takes a byte or reports an error, every
  \<^verbatim>\<open>Append\<close>, \<^verbatim>\<open>Flush\<close>, \<^verbatim>\<open>Sync\<close> and \<^verbatim>\<open>Close\<close> returns; and when it fails no call, a \<^verbatim>\<open>Read\<close> returns the next
  bytes of the file.
\<close>

theorem posix_file_returns:
  assumes "responsive os"
  shows "(\<exists>s f'. PosixWritableFile_Append os d f = Some (s, f')) \<and> (\<exists>s f'. PosixWritableFile_Flush os f = Some (s, f'))
    \<and> (\<exists>s f'. PosixWritableFile_Sync os f = Some (s, f')) \<and> (\<exists>s f'. PosixWritableFile_Close os f = Some (s, f'))
    \<and> (calm os \<longrightarrow> (\<exists>g'. PosixSequentialFile_Read os n buf g = Some (OK, take n (posix_unread g), g')
          \<and> posix_unread g' = drop n (posix_unread g)))"
proof (intro conjI impI)
  note returns = FlushBuffer_returns [OF assms] WriteUnbuffered_returns [OF assms]
  show "\<exists>s f'. PosixWritableFile_Append os d f = Some (s, f')"
    by (rule returnsI) (simp add: returns PosixWritableFile_Append_def Let_def split: option.split del: not_None_eq)
  show "\<exists>s f'. PosixWritableFile_Flush os f = Some (s, f')"
    by (rule returnsI) (simp add: returns PosixWritableFile_Flush_def del: not_None_eq)
  show "\<exists>s f'. PosixWritableFile_Sync os f = Some (s, f')"
    by (rule returnsI) (simp add: returns PosixWritableFile_Sync_def split: option.split prod.split del: not_None_eq)
  show "\<exists>s f'. PosixWritableFile_Close os f = Some (s, f')"
    by (rule returnsI) (simp add: returns PosixWritableFile_Close_def split: option.split prod.split del: not_None_eq)
qed (use posix_in.read_ok in blast)

lemma stutter_progress: "\<exists>u\<ge>t. \<exists>n>0. os_outcome stutter u = Ret n"
  by (rule exI [of _ "2 * t + 1"]) (simp add: stutter_def)

lemma calm_stutter: "calm stutter"
  unfolding calm_def using stutter_progress by (auto simp: stutter_def)

theorem posix_file_returns_witness:
  "\<exists>g'. PosixSequentialFile_Read stutter 2 [] \<lparr>ps_filename = ''f'', ps_kernel = empty_kernel\<lparr>k_bytes := [7, 8, 9]\<rparr>\<rparr>
     = Some (OK, [7, 8], g') \<and> posix_unread g' = [9]"
  using posix_file_returns [OF calm_responsive [OF calm_stutter], of "[]" _ 2 "[]"
      "\<lparr>ps_filename = ''f'', ps_kernel = empty_kernel\<lparr>k_bytes := [7, 8, 9]\<rparr>\<rparr>"] calm_stutter
  by (simp add: posix_unread_def empty_kernel_def)

end
