(* ===== verification/Ldb_Log.thy ===== *)
theory Ldb_Log
  imports Ldb_Env Ldb_Crc
begin

text \<open>
  The write-ahead log: \<^verbatim>\<open>db/log_format.h\<close>, \<^verbatim>\<open>db/log_writer.cc\<close> and \<^verbatim>\<open>db/log_reader.cc\<close>. A log is a sequence of
  32 KB blocks of checksummed physical records; a record that does not fit a block is cut into
  fragments. Writer and reader use the file interfaces of \<open>Ldb_Env\<close>, here records of functions on a
  file state. The argument \<open>addr_of\<close> gives the address the bytes of a slice lie at, which the checksum
  routine aligns on. Reports of the reader are collected in \<open>rd_reports\<close>.
\<close>

section \<open>Format\<close>

datatype RecordType = kZeroType | kFullType | kFirstType | kMiddleType | kLastType

fun RecordType_value :: "RecordType \<Rightarrow> nat" where
  "RecordType_value kZeroType = 0"
| "RecordType_value kFullType = 1"
| "RecordType_value kFirstType = 2"
| "RecordType_value kMiddleType = 3"
| "RecordType_value kLastType = 4"

definition kMaxRecordType :: nat where
  "kMaxRecordType = RecordType_value kLastType"

definition kBlockSize :: nat where
  "kBlockSize = 32768"

definition kHeaderSize :: nat where
  "kHeaderSize = 4 + 2 + 1"

section \<open>Writer\<close>

record 'f WritableFile =
  wf_Append :: "slice \<Rightarrow> 'f \<Rightarrow> (Status \<times> 'f) option"
  wf_Flush :: "'f \<Rightarrow> (Status \<times> 'f) option"

definition dest_file :: "(slice \<Rightarrow> 'f \<Rightarrow> (Status \<times> 'f) option) \<Rightarrow> ('f \<Rightarrow> (Status \<times> 'f) option) \<Rightarrow> 'f WritableFile" where
  "dest_file app fl = \<lparr>wf_Append = app, wf_Flush = fl\<rparr>"

record Writer =
  block_offset :: nat
  type_crc :: "u32 list"

definition InitTypeCrc :: "(slice \<Rightarrow> nat) \<Rightarrow> u32 list" where
  "InitTypeCrc addr_of =
     map (\<lambda>i. let t = word_of_nat i :: byte in crc32c_Value (addr_of [t]) [t]) [0..<kMaxRecordType + 1]"

definition Writer_init :: "(slice \<Rightarrow> nat) \<Rightarrow> Writer" where
  "Writer_init addr_of = \<lparr>block_offset = 0, type_crc = InitTypeCrc addr_of\<rparr>"

definition Writer_init_at :: "(slice \<Rightarrow> nat) \<Rightarrow> u64 \<Rightarrow> Writer" where
  "Writer_init_at addr_of dest_length =
     \<lparr>block_offset = unat (dest_length mod word_of_nat kBlockSize), type_crc = InitTypeCrc addr_of\<rparr>"

definition physical_header :: "(slice \<Rightarrow> nat) \<Rightarrow> Writer \<Rightarrow> RecordType \<Rightarrow> slice \<Rightarrow> byte list" where
  "physical_header addr_of w t data =
     (let crc = crc32c_Mask (crc32c_Extend (addr_of data) (type_crc w ! RecordType_value t) data)
      in EncodeFixed32 crc @ [word_of_nat (length data mod 256), word_of_nat (length data div 256),
           word_of_nat (RecordType_value t)])"

definition EmitPhysicalRecord ::
    "'f WritableFile \<Rightarrow> (slice \<Rightarrow> nat) \<Rightarrow> RecordType \<Rightarrow> slice \<Rightarrow> Writer \<Rightarrow> 'f \<Rightarrow> (Status \<times> Writer \<times> 'f) option" where
  "EmitPhysicalRecord dest addr_of t data w f =
     (case wf_Append dest (physical_header addr_of w t data) f of
        None \<Rightarrow> None
      | Some (s, f) \<Rightarrow>
          (case (if Status_ok s
                 then case wf_Append dest data f of
                        None \<Rightarrow> None
                      | Some (s, f) \<Rightarrow> if Status_ok s then wf_Flush dest f else Some (s, f)
                 else Some (s, f)) of
             None \<Rightarrow> None
           | Some (s, f) \<Rightarrow> Some (s, w\<lparr>block_offset := block_offset w + kHeaderSize + length data\<rparr>, f)))"

text \<open>The status of the append that fills the trailer is ignored, as in the code.\<close>

definition switch_block :: "'f WritableFile \<Rightarrow> Writer \<Rightarrow> 'f \<Rightarrow> (Writer \<times> 'f) option" where
  "switch_block dest w f =
     (let leftover = kBlockSize - block_offset w in
      if leftover < kHeaderSize
      then (case (if leftover > 0 then wf_Append dest (replicate leftover 0) f else Some (OK, f)) of
              None \<Rightarrow> None
            | Some (_, f) \<Rightarrow> Some (w\<lparr>block_offset := 0\<rparr>, f))
      else Some (w, f))"

definition record_type :: "bool \<Rightarrow> bool \<Rightarrow> RecordType" where
  "record_type fst_frag lst_frag =
     (if fst_frag \<and> lst_frag then kFullType else if fst_frag then kFirstType else if lst_frag then kLastType else kMiddleType)"

partial_function (option) AddRecord_loop ::
    "'f WritableFile \<Rightarrow> (slice \<Rightarrow> nat) \<Rightarrow> bool \<Rightarrow> slice \<Rightarrow> Writer \<Rightarrow> 'f \<Rightarrow> (Status \<times> Writer \<times> 'f) option" where
  "AddRecord_loop dest addr_of fst_frag data w f =
     (case switch_block dest w f of
        None \<Rightarrow> None
      | Some (w, f) \<Rightarrow>
          (let avail = kBlockSize - block_offset w - kHeaderSize;
               fragment_length = (if length data < avail then length data else avail);
               lst_frag = (length data = fragment_length)
           in case EmitPhysicalRecord dest addr_of (record_type fst_frag lst_frag) (take fragment_length data) w f of
                None \<Rightarrow> None
              | Some (s, w, f) \<Rightarrow>
                  if Status_ok s \<and> length data - fragment_length > 0
                  then AddRecord_loop dest addr_of False (drop fragment_length data) w f
                  else Some (s, w, f)))"

definition AddRecord ::
    "'f WritableFile \<Rightarrow> (slice \<Rightarrow> nat) \<Rightarrow> slice \<Rightarrow> Writer \<Rightarrow> 'f \<Rightarrow> (Status \<times> Writer \<times> 'f) option" where
  "AddRecord dest addr_of slc w f = AddRecord_loop dest addr_of True slc w f"

section \<open>Reader\<close>

record 'f SequentialFile =
  sf_Read :: "nat \<Rightarrow> slice \<Rightarrow> 'f \<Rightarrow> (Status \<times> slice \<times> 'f) option"
  sf_Skip :: "u64 \<Rightarrow> 'f \<Rightarrow> Status \<times> 'f"

record Reader =
  rd_reporter :: bool
  rd_checksum :: bool
  rd_buffer :: slice
  rd_eof :: bool
  last_record_offset :: u64
  end_of_buffer_offset :: u64
  initial_offset :: u64
  resyncing :: bool
  rd_reports :: "(u64 \<times> Status) list"

definition Reader_init :: "bool \<Rightarrow> bool \<Rightarrow> u64 \<Rightarrow> Reader" where
  "Reader_init reporter checksum initial =
     \<lparr>rd_reporter = reporter, rd_checksum = checksum, rd_buffer = [], rd_eof = False, last_record_offset = 0,
      end_of_buffer_offset = 0, initial_offset = initial, resyncing = (initial > 0), rd_reports = []\<rparr>"

definition kEof :: u32 where
  "kEof = word_of_nat (kMaxRecordType + 1)"

definition kBadRecord :: u32 where
  "kBadRecord = word_of_nat (kMaxRecordType + 2)"

definition buffer_size :: "Reader \<Rightarrow> u64" where
  "buffer_size r = word_of_nat (length (rd_buffer r))"

definition ReportDrop :: "u64 \<Rightarrow> Status \<Rightarrow> Reader \<Rightarrow> Reader" where
  "ReportDrop bytes reason r =
     (if rd_reporter r \<and> end_of_buffer_offset r - buffer_size r - bytes \<ge> initial_offset r
      then r\<lparr>rd_reports := rd_reports r @ [(bytes, reason)]\<rparr> else r)"

definition ReportCorruption :: "u64 \<Rightarrow> string \<Rightarrow> Reader \<Rightarrow> Reader" where
  "ReportCorruption bytes reason r = ReportDrop bytes (Corruption reason) r"

definition SkipToInitialBlock :: "'f SequentialFile \<Rightarrow> Reader \<Rightarrow> 'f \<Rightarrow> bool \<times> Reader \<times> 'f" where
  "SkipToInitialBlock sf r f =
     (let offset_in_block = initial_offset r mod word_of_nat kBlockSize;
          block_start_location = initial_offset r - offset_in_block;
          block_start_location =
            (if offset_in_block > word_of_nat (kBlockSize - 6)
             then block_start_location + word_of_nat kBlockSize else block_start_location);
          r = r\<lparr>end_of_buffer_offset := block_start_location\<rparr>
      in if block_start_location > 0
         then (case sf_Skip sf block_start_location f of (skip_status, f) \<Rightarrow>
                 if \<not> Status_ok skip_status then (False, ReportDrop block_start_location skip_status r, f)
                 else (True, r, f))
         else (True, r, f))"

text \<open>
  The part of \<^verbatim>\<open>ReadPhysicalRecord\<close> that parses the header at the front of the buffer. \<open>fragment\<close> is
  \<^verbatim>\<open>*result\<close>, which most error paths leave as it was. The type is a \<^verbatim>\<open>char\<close>, so a byte from 128 on
  becomes a huge unsigned number.
\<close>

definition parse_physical :: "(slice \<Rightarrow> nat) \<Rightarrow> slice \<Rightarrow> Reader \<Rightarrow> u32 \<times> slice \<times> Reader" where
  "parse_physical addr_of fragment r =
     (let header = rd_buffer r;
          type = scast (header ! 6) :: u32;
          len = unat (ucast (header ! 4) OR push_bit 8 (ucast (header ! 5)) :: u32)
      in if kHeaderSize + len > length header
         then (let drop_size = buffer_size r; r = r\<lparr>rd_buffer := []\<rparr>
               in if \<not> rd_eof r then (kBadRecord, fragment, ReportCorruption drop_size ''bad record length'' r)
                  else (kEof, fragment, r))
         else if type = word_of_nat (RecordType_value kZeroType) \<and> len = 0
         then (kBadRecord, fragment, r\<lparr>rd_buffer := []\<rparr>)
         else if rd_checksum r
              \<and> crc32c_Value (addr_of (drop 6 header)) (take (1 + len) (drop 6 header)) \<noteq> crc32c_Unmask (DecodeFixed32 header)
         then (let drop_size = buffer_size r; r = r\<lparr>rd_buffer := []\<rparr>
               in (kBadRecord, fragment, ReportCorruption drop_size ''checksum mismatch'' r))
         else (let r = r\<lparr>rd_buffer := remove_prefix (rd_buffer r) (kHeaderSize + len)\<rparr>
               in if end_of_buffer_offset r - buffer_size r - word_of_nat kHeaderSize - word_of_nat len < initial_offset r
                  then (kBadRecord, [], r)
                  else (type, take len (drop kHeaderSize header), r)))"

partial_function (option) ReadPhysicalRecord ::
    "'f SequentialFile \<Rightarrow> (slice \<Rightarrow> nat) \<Rightarrow> slice \<Rightarrow> Reader \<Rightarrow> 'f \<Rightarrow> (u32 \<times> slice \<times> Reader \<times> 'f) option" where
  "ReadPhysicalRecord sf addr_of fragment r f =
     (if length (rd_buffer r) < kHeaderSize
      then if \<not> rd_eof r
           then case sf_Read sf kBlockSize [] f of
                  None \<Rightarrow> None
                | Some (status, buffer, f) \<Rightarrow>
                    (let r = r\<lparr>rd_buffer := buffer, end_of_buffer_offset := end_of_buffer_offset r + word_of_nat (length buffer)\<rparr>
                     in if \<not> Status_ok status
                        then Some (kEof, fragment,
                               (ReportDrop (word_of_nat kBlockSize) status (r\<lparr>rd_buffer := []\<rparr>))\<lparr>rd_eof := True\<rparr>, f)
                        else if length buffer < kBlockSize
                        then ReadPhysicalRecord sf addr_of fragment (r\<lparr>rd_eof := True\<rparr>) f
                        else ReadPhysicalRecord sf addr_of fragment r f)
           else Some (kEof, fragment, r\<lparr>rd_buffer := []\<rparr>, f)
      else case parse_physical addr_of fragment r of (type, fragment, r) \<Rightarrow> Some (type, fragment, r, f))"

record read_state =
  in_fragmented_record :: bool
  scratch :: slice
  prospective_record_offset :: u64
  fragment :: slice

definition resync_skips :: "u32 \<Rightarrow> Reader \<Rightarrow> bool \<times> Reader" where
  "resync_skips type r =
     (if resyncing r
      then if type = word_of_nat (RecordType_value kMiddleType) then (True, r)
           else if type = word_of_nat (RecordType_value kLastType) then (True, r\<lparr>resyncing := False\<rparr>)
           else (False, r\<lparr>resyncing := False\<rparr>)
      else (False, r))"

text \<open>
  One pass of the \<^verbatim>\<open>switch\<close>: \<open>Inl\<close> goes on with the loop, \<open>Inr\<close> returns. \<open>number\<close> prints the unknown
  type (\<^verbatim>\<open>snprintf\<close> with \<^verbatim>\<open>%u\<close>).
\<close>

definition read_switch ::
    "(u32 \<Rightarrow> string) \<Rightarrow> u32 \<Rightarrow> u64 \<Rightarrow> read_state \<Rightarrow> Reader \<Rightarrow> (read_state \<times> Reader, bool \<times> slice \<times> Reader) sum" where
  "read_switch number type offset st r =
     (let partial = (\<lambda>msg. if in_fragmented_record st \<and> scratch st \<noteq> []
                           then ReportCorruption (word_of_nat (length (scratch st))) msg r else r)
      in if type = word_of_nat (RecordType_value kFullType)
         then Inr (True, fragment st, (partial ''partial record without end(1)'')\<lparr>last_record_offset := offset\<rparr>)
         else if type = word_of_nat (RecordType_value kFirstType)
         then Inl (st\<lparr>prospective_record_offset := offset, scratch := fragment st, in_fragmented_record := True\<rparr>,
                   partial ''partial record without end(2)'')
         else if type = word_of_nat (RecordType_value kMiddleType)
         then if \<not> in_fragmented_record st
              then Inl (st, ReportCorruption (word_of_nat (length (fragment st))) ''missing start of fragmented record(1)'' r)
              else Inl (st\<lparr>scratch := scratch st @ fragment st\<rparr>, r)
         else if type = word_of_nat (RecordType_value kLastType)
         then if \<not> in_fragmented_record st
              then Inl (st, ReportCorruption (word_of_nat (length (fragment st))) ''missing start of fragmented record(2)'' r)
              else Inr (True, scratch st @ fragment st, r\<lparr>last_record_offset := prospective_record_offset st\<rparr>)
         else if type = kEof then Inr (False, [], r)
         else if type = kBadRecord
         then if in_fragmented_record st
              then Inl (st\<lparr>in_fragmented_record := False, scratch := []\<rparr>,
                        ReportCorruption (word_of_nat (length (scratch st))) ''error in middle of record'' r)
              else Inl (st, r)
         else Inl (st\<lparr>in_fragmented_record := False, scratch := []\<rparr>,
                   ReportCorruption (word_of_nat (length (fragment st) + (if in_fragmented_record st then length (scratch st) else 0)))
                     (take 39 (''unknown record type '' @ number type)) r))"

partial_function (option) ReadRecord_loop ::
    "'f SequentialFile \<Rightarrow> (slice \<Rightarrow> nat) \<Rightarrow> (u32 \<Rightarrow> string) \<Rightarrow> read_state \<Rightarrow> Reader \<Rightarrow> 'f \<Rightarrow> (bool \<times> slice \<times> Reader \<times> 'f) option" where
  "ReadRecord_loop sf addr_of number st r f =
     (case ReadPhysicalRecord sf addr_of (fragment st) r f of
        None \<Rightarrow> None
      | Some (type, frag, r, f) \<Rightarrow>
          (let offset = end_of_buffer_offset r - buffer_size r - word_of_nat kHeaderSize - word_of_nat (length frag);
               st = st\<lparr>fragment := frag\<rparr>
           in case resync_skips type r of (skip, r) \<Rightarrow>
                if skip then ReadRecord_loop sf addr_of number st r f
                else case read_switch number type offset st r of
                       Inl (st, r) \<Rightarrow> ReadRecord_loop sf addr_of number st r f
                     | Inr (ok, record, r) \<Rightarrow> Some (ok, record, r, f)))"

definition ReadRecord ::
    "'f SequentialFile \<Rightarrow> (slice \<Rightarrow> nat) \<Rightarrow> (u32 \<Rightarrow> string) \<Rightarrow> slice \<Rightarrow> Reader \<Rightarrow> 'f \<Rightarrow> (bool \<times> slice \<times> Reader \<times> 'f) option" where
  "ReadRecord sf addr_of number record r f =
     (case (if last_record_offset r < initial_offset r then SkipToInitialBlock sf r f else (True, r, f)) of
        (ok, r, f) \<Rightarrow>
          if \<not> ok then Some (False, record, r, f)
          else ReadRecord_loop sf addr_of number
                 \<lparr>in_fragmented_record = False, scratch = [], prospective_record_offset = 0, fragment = []\<rparr> r f)"

end
