(* ===== verification/Ldb_Table.thy ===== *)
theory Ldb_Table
  imports Ldb_Block Ldb_Filter_Block Ldb_Log Ldb_Options "HOL-Library.Monad_Syntax"
begin

text \<open>
  Sorted table files: \<^verbatim>\<open>table/format.cc\<close>, \<^verbatim>\<open>table/table_builder.cc\<close> and \<^verbatim>\<open>table/table.cc\<close>. The file that is written is
  the interface of \<open>Ldb_Log\<close>; an operation on it that does not return is \<open>None\<close>, and so is a read outside
  the bytes a read call returned. The file that is read is a function of offset and size. Snappy is not
  compiled in, so its routines in \<^verbatim>\<open>port/port_stdcxx.h\<close> all return false.
\<close>

section \<open>Snappy\<close>

definition Snappy_Compress :: "slice \<Rightarrow> slice option" where
  "Snappy_Compress input = None"

definition Snappy_GetUncompressedLength :: "slice \<Rightarrow> nat option" where
  "Snappy_GetUncompressedLength input = None"

definition Snappy_Uncompress :: "slice \<Rightarrow> slice option" where
  "Snappy_Uncompress input = None"

section \<open>Handles and the footer\<close>

record BlockHandle =
  bh_offset :: u64
  bh_size :: u64

definition BlockHandle_init :: BlockHandle where
  "BlockHandle_init = \<lparr>bh_offset = - 1, bh_size = - 1\<rparr>"

definition BlockHandle_EncodeTo :: "BlockHandle \<Rightarrow> byte list \<Rightarrow> byte list" where
  "BlockHandle_EncodeTo h dst = PutVarint64 (PutVarint64 dst (bh_offset h)) (bh_size h)"

definition BlockHandle_DecodeFrom :: "slice \<Rightarrow> BlockHandle \<Rightarrow> Status \<times> BlockHandle \<times> slice" where
  "BlockHandle_DecodeFrom input h =
     (case GetVarint64 input of
        None \<Rightarrow> (Corruption ''bad block handle'', h, input)
      | Some (offset, input) \<Rightarrow>
          (let h = h\<lparr>bh_offset := offset\<rparr>
           in case GetVarint64 input of
                None \<Rightarrow> (Corruption ''bad block handle'', h, input)
              | Some (sz, input) \<Rightarrow> (OK, h\<lparr>bh_size := sz\<rparr>, input)))"

definition kMaxEncodedLength :: nat where
  "kMaxEncodedLength = 10 + 10"

definition kEncodedLength :: nat where
  "kEncodedLength = 2 * kMaxEncodedLength + 8"

definition kTableMagicNumber :: u64 where
  "kTableMagicNumber = 0xdb4775248b80fb57"

definition kBlockTrailerSize :: nat where
  "kBlockTrailerSize = 5"

record Footer =
  ft_metaindex_handle :: BlockHandle
  ft_index_handle :: BlockHandle

definition Footer_init :: Footer where
  "Footer_init = \<lparr>ft_metaindex_handle = BlockHandle_init, ft_index_handle = BlockHandle_init\<rparr>"

definition resize :: "nat \<Rightarrow> byte list \<Rightarrow> byte list" where
  "resize n s = take n s @ replicate (n - length s) 0"

definition Footer_EncodeTo :: "Footer \<Rightarrow> byte list \<Rightarrow> byte list" where
  "Footer_EncodeTo ft dst =
     (let dst = BlockHandle_EncodeTo (ft_metaindex_handle ft) dst;
          dst = BlockHandle_EncodeTo (ft_index_handle ft) dst;
          dst = resize (2 * kMaxEncodedLength) dst;
          dst = PutFixed32 dst (ucast (kTableMagicNumber AND 0xffffffff))
      in PutFixed32 dst (ucast (drop_bit 32 kTableMagicNumber)))"

text \<open>\<open>None\<close>: the magic number is read from behind an input that is too short.\<close>

definition Footer_DecodeFrom :: "slice \<Rightarrow> Footer \<Rightarrow> (Status \<times> Footer) option" where
  "Footer_DecodeFrom input ft =
     (if length input < kEncodedLength then None
      else let magic_ptr = drop (kEncodedLength - 8) input;
               magic_lo = DecodeFixed32 magic_ptr;
               magic_hi = DecodeFixed32 (drop 4 magic_ptr);
               magic = push_bit 32 (ucast magic_hi) OR ucast magic_lo :: u64
           in if magic \<noteq> kTableMagicNumber then Some (Corruption ''not an sstable (bad magic number)'', ft)
              else case BlockHandle_DecodeFrom input (ft_metaindex_handle ft) of (result, h, input) \<Rightarrow>
                     let ft = ft\<lparr>ft_metaindex_handle := h\<rparr>
                     in if Status_ok result
                        then case BlockHandle_DecodeFrom input (ft_index_handle ft) of (result, h, input) \<Rightarrow>
                               Some (result, ft\<lparr>ft_index_handle := h\<rparr>)
                        else Some (result, ft))"

section \<open>Reading a block\<close>

text \<open>\<open>raf_scratch\<close> says whether the file reads into the buffer of the caller or lends its own memory.\<close>

record RandomAccessFile =
  raf_Read :: "u64 \<Rightarrow> u64 \<Rightarrow> Status \<times> slice"
  raf_scratch :: bool

record BlockContents =
  bc_data :: slice
  bc_cachable :: bool
  bc_heap_allocated :: bool

definition ReadBlock ::
    "(slice \<Rightarrow> nat) \<Rightarrow> RandomAccessFile \<Rightarrow> ReadOptions \<Rightarrow> BlockHandle \<Rightarrow> (Status \<times> BlockContents) option" where
  "ReadBlock addr_of file options handle =
     (let result = \<lparr>bc_data = [], bc_cachable = False, bc_heap_allocated = False\<rparr>;
          n = bh_size handle
      in case raf_Read file (bh_offset handle) (n + word_of_nat kBlockTrailerSize) of (s, contents) \<Rightarrow>
           if \<not> Status_ok s then Some (s, result)
           else if word_of_nat (length contents) \<noteq> n + word_of_nat kBlockTrailerSize
           then Some (Corruption ''truncated block read'', result)
           else if length contents < unat n + kBlockTrailerSize then None
           else let n = unat n;
                    crc = crc32c_Unmask (DecodeFixed32 (drop (n + 1) contents));
                    actual = crc32c_Value (addr_of contents) (take (n + 1) contents)
                in if ro_verify_checksums options \<and> actual \<noteq> crc
                   then Some (Corruption ''block checksum mismatch'', result)
                   else if contents ! n = CompressionType_value kNoCompression
                   then Some (OK, \<lparr>bc_data = take n contents, bc_cachable = raf_scratch file, bc_heap_allocated = raf_scratch file\<rparr>)
                   else if contents ! n = CompressionType_value kSnappyCompression
                   then (case Snappy_GetUncompressedLength (take n contents) of
                           None \<Rightarrow> Some (Corruption ''corrupted compressed block contents'', result)
                         | Some ulength \<Rightarrow>
                             (case Snappy_Uncompress (take n contents) of
                                None \<Rightarrow> Some (Corruption ''corrupted compressed block contents'', result)
                              | Some ubuf \<Rightarrow> Some (OK, \<lparr>bc_data = take ulength ubuf, bc_cachable = True, bc_heap_allocated = True\<rparr>)))
                   else Some (Corruption ''bad block type'', result))"

section \<open>The table builder\<close>

record 'f TableBuilder =
  tb_options :: Options
  tb_file :: 'f
  tb_offset :: u64
  tb_status :: Status
  tb_data_block :: BlockBuilder
  tb_index_block :: BlockBuilder
  tb_last_key :: "byte list"
  tb_num_entries :: int
  tb_closed :: bool
  tb_filter_block :: "(FilterPolicy \<times> FilterBlockBuilder) option"
  tb_pending_index_entry :: bool
  tb_pending_handle :: BlockHandle

text \<open>Calls on \<^verbatim>\<open>filter_block\<close>, which is null when there was no policy; it keeps the one it was made with.\<close>

definition with_filter :: "((slice list \<Rightarrow> byte list \<Rightarrow> byte list) \<Rightarrow> FilterBlockBuilder \<Rightarrow> FilterBlockBuilder) \<Rightarrow> 'f TableBuilder \<Rightarrow> 'f TableBuilder" where
  "with_filter call tb =
     (case tb_filter_block tb of
        Some (policy, fb) \<Rightarrow> tb\<lparr>tb_filter_block := Some (policy, call (fp_CreateFilter policy) fb)\<rparr>
      | None \<Rightarrow> tb)"

definition TableBuilder_init :: "Options \<Rightarrow> 'f \<Rightarrow> 'f TableBuilder" where
  "TableBuilder_init options file =
     with_filter (\<lambda>create. StartBlock create 0)
       \<lparr>tb_options = options, tb_file = file, tb_offset = 0, tb_status = OK,
        tb_data_block = BlockBuilder_init (op_block_restart_interval options), tb_index_block = BlockBuilder_init 1,
        tb_last_key = [], tb_num_entries = 0, tb_closed = False,
        tb_filter_block = map_option (\<lambda>policy. (policy, FilterBlockBuilder_init)) (op_filter_policy options),
        tb_pending_index_entry = False, tb_pending_handle = BlockHandle_init\<rparr>"

text \<open>
  The builders of the blocks point to the options, so they see the change. Comparators are compared by
  their address; \<open>same_comparator\<close> is the outcome.
\<close>

definition ChangeOptions :: "Options \<Rightarrow> bool \<Rightarrow> 'f TableBuilder \<Rightarrow> Status \<times> 'f TableBuilder" where
  "ChangeOptions options same_comparator tb =
     (if \<not> same_comparator then (InvalidArgument ''changing comparator while building table'', tb)
      else (OK, tb\<lparr>tb_options := options,
                  tb_data_block := (tb_data_block tb)\<lparr>bb_restart_interval := op_block_restart_interval options\<rparr>,
                  tb_index_block := (tb_index_block tb)\<lparr>bb_restart_interval := 1\<rparr>\<rparr>))"

definition WriteRawBlock ::
    "'f WritableFile \<Rightarrow> (slice \<Rightarrow> nat) \<Rightarrow> slice \<Rightarrow> CompressionType \<Rightarrow> 'f TableBuilder \<Rightarrow> (BlockHandle \<times> 'f TableBuilder) option" where
  "WriteRawBlock dest addr_of block_contents type tb =
     (let handle = \<lparr>bh_offset = tb_offset tb, bh_size = word_of_nat (length block_contents)\<rparr>
      in do {
        (s, file) \<leftarrow> wf_Append dest block_contents (tb_file tb);
        let tb = tb\<lparr>tb_status := s, tb_file := file\<rparr>;
        if Status_ok s
        then do {
          let type_byte = CompressionType_value type;
          let crc = crc32c_Value (addr_of block_contents) block_contents;
          let crc = crc32c_Extend (addr_of [type_byte]) crc [type_byte];
          let trailer = type_byte # EncodeFixed32 (crc32c_Mask crc);
          (s, file) \<leftarrow> wf_Append dest trailer (tb_file tb);
          let tb = tb\<lparr>tb_status := s, tb_file := file\<rparr>;
          Some (handle, if Status_ok s
                        then tb\<lparr>tb_offset := tb_offset tb + word_of_nat (length block_contents + kBlockTrailerSize)\<rparr>
                        else tb)
        }
        else Some (handle, tb)
      })"

text \<open>The finished block, as it goes to the file, with its type.\<close>

definition compress_block :: "CompressionType \<Rightarrow> slice \<Rightarrow> slice \<times> CompressionType" where
  "compress_block type raw =
     (case type of
        kNoCompression \<Rightarrow> (raw, type)
      | kSnappyCompression \<Rightarrow>
          (case Snappy_Compress raw of
             Some compressed \<Rightarrow>
               if length compressed < length raw - length raw div 8 then (compressed, type) else (raw, kNoCompression)
           | None \<Rightarrow> (raw, kNoCompression)))"

definition WriteBlock ::
    "'f WritableFile \<Rightarrow> (slice \<Rightarrow> nat) \<Rightarrow> BlockBuilder \<Rightarrow> 'f TableBuilder \<Rightarrow> (BlockHandle \<times> BlockBuilder \<times> 'f TableBuilder) option" where
  "WriteBlock dest addr_of block tb =
     (case BlockBuilder_Finish block of (raw, block) \<Rightarrow>
        case compress_block (op_compression (tb_options tb)) raw of (block_contents, type) \<Rightarrow>
          do {
            (handle, tb) \<leftarrow> WriteRawBlock dest addr_of block_contents type tb;
            Some (handle, BlockBuilder_Reset block, tb)
          })"

definition TableBuilder_Flush :: "'f WritableFile \<Rightarrow> (slice \<Rightarrow> nat) \<Rightarrow> 'f TableBuilder \<Rightarrow> 'f TableBuilder option" where
  "TableBuilder_Flush dest addr_of tb =
     (if \<not> Status_ok (tb_status tb) then Some tb
      else if bb_buffer (tb_data_block tb) = [] then Some tb
      else do {
        (handle, block, tb) \<leftarrow> WriteBlock dest addr_of (tb_data_block tb) tb;
        let tb = tb\<lparr>tb_data_block := block, tb_pending_handle := handle\<rparr>;
        tb \<leftarrow> (if Status_ok (tb_status tb)
               then do {
                 (s, file) \<leftarrow> wf_Flush dest (tb_file tb);
                 Some (tb\<lparr>tb_pending_index_entry := True, tb_status := s, tb_file := file\<rparr>)
               }
               else Some tb);
        Some (with_filter (\<lambda>create. StartBlock create (unat (tb_offset tb))) tb)
      })"

definition add_pending :: "byte list \<Rightarrow> 'f TableBuilder \<Rightarrow> 'f TableBuilder" where
  "add_pending key tb =
     tb\<lparr>tb_last_key := key, tb_index_block := BlockBuilder_Add (tb_index_block tb) key (BlockHandle_EncodeTo (tb_pending_handle tb) []),
        tb_pending_index_entry := False\<rparr>"

definition TableBuilder_Add :: "'f WritableFile \<Rightarrow> (slice \<Rightarrow> nat) \<Rightarrow> slice \<Rightarrow> slice \<Rightarrow> 'f TableBuilder \<Rightarrow> 'f TableBuilder option" where
  "TableBuilder_Add dest addr_of key value tb =
     (if \<not> Status_ok (tb_status tb) then Some tb
      else let tb = (if tb_pending_index_entry tb
                     then add_pending (op_FindShortestSeparator (tb_options tb) (tb_last_key tb) key) tb else tb);
               tb = with_filter (\<lambda>_. FilterBlock_AddKey key) tb;
               tb = tb\<lparr>tb_last_key := key, tb_num_entries := tb_num_entries tb + 1,
                       tb_data_block := BlockBuilder_Add (tb_data_block tb) key value\<rparr>
           in if CurrentSizeEstimate (tb_data_block tb) \<ge> unat (op_block_size (tb_options tb))
              then TableBuilder_Flush dest addr_of tb else Some tb)"

text \<open>''filter.''\<close>

definition filter_prefix :: "byte list" where
  "filter_prefix = [0x66, 0x69, 0x6c, 0x74, 0x65, 0x72, 0x2e]"

definition write_filter :: "'f WritableFile \<Rightarrow> (slice \<Rightarrow> nat) \<Rightarrow> 'f TableBuilder \<Rightarrow> (BlockHandle \<times> 'f TableBuilder) option" where
  "write_filter dest addr_of tb =
     (if Status_ok (tb_status tb)
      then case tb_filter_block tb of
             Some (policy, fb) \<Rightarrow>
               (case FilterBlock_Finish (fp_CreateFilter policy) fb of (contents, fb) \<Rightarrow>
                  WriteRawBlock dest addr_of contents kNoCompression (tb\<lparr>tb_filter_block := Some (policy, fb)\<rparr>))
           | None \<Rightarrow> Some (BlockHandle_init, tb)
      else Some (BlockHandle_init, tb))"

text \<open>The name is that of the policy in the options: without one the call is made on a null pointer.\<close>

definition metaindex_block :: "BlockHandle \<Rightarrow> 'f TableBuilder \<Rightarrow> BlockBuilder option" where
  "metaindex_block filter_handle tb =
     (let block = BlockBuilder_init (op_block_restart_interval (tb_options tb))
      in case tb_filter_block tb of
           None \<Rightarrow> Some block
         | Some _ \<Rightarrow>
             map_option (\<lambda>policy. BlockBuilder_Add block (filter_prefix @ fp_Name policy) (BlockHandle_EncodeTo filter_handle []))
               (op_filter_policy (tb_options tb)))"

definition write_metaindex ::
    "'f WritableFile \<Rightarrow> (slice \<Rightarrow> nat) \<Rightarrow> BlockHandle \<Rightarrow> 'f TableBuilder \<Rightarrow> (BlockHandle \<times> 'f TableBuilder) option" where
  "write_metaindex dest addr_of filter_handle tb =
     (if Status_ok (tb_status tb)
      then do {
        block \<leftarrow> metaindex_block filter_handle tb;
        (handle, _, tb) \<leftarrow> WriteBlock dest addr_of block tb;
        Some (handle, tb)
      }
      else Some (BlockHandle_init, tb))"

definition write_index :: "'f WritableFile \<Rightarrow> (slice \<Rightarrow> nat) \<Rightarrow> 'f TableBuilder \<Rightarrow> (BlockHandle \<times> 'f TableBuilder) option" where
  "write_index dest addr_of tb =
     (if Status_ok (tb_status tb)
      then let tb = (if tb_pending_index_entry tb
                     then add_pending (op_FindShortSuccessor (tb_options tb) (tb_last_key tb)) tb else tb)
           in do {
             (handle, block, tb) \<leftarrow> WriteBlock dest addr_of (tb_index_block tb) tb;
             Some (handle, tb\<lparr>tb_index_block := block\<rparr>)
           }
      else Some (BlockHandle_init, tb))"

definition write_footer :: "'f WritableFile \<Rightarrow> Footer \<Rightarrow> 'f TableBuilder \<Rightarrow> 'f TableBuilder option" where
  "write_footer dest footer tb =
     (if Status_ok (tb_status tb)
      then do {
        let footer_encoding = Footer_EncodeTo footer [];
        (s, file) \<leftarrow> wf_Append dest footer_encoding (tb_file tb);
        let tb = tb\<lparr>tb_status := s, tb_file := file\<rparr>;
        Some (if Status_ok s then tb\<lparr>tb_offset := tb_offset tb + word_of_nat (length footer_encoding)\<rparr> else tb)
      }
      else Some tb)"

definition TableBuilder_Finish :: "'f WritableFile \<Rightarrow> (slice \<Rightarrow> nat) \<Rightarrow> 'f TableBuilder \<Rightarrow> (Status \<times> 'f TableBuilder) option" where
  "TableBuilder_Finish dest addr_of tb =
     do {
       tb \<leftarrow> TableBuilder_Flush dest addr_of tb;
       let tb = tb\<lparr>tb_closed := True\<rparr>;
       (filter_block_handle, tb) \<leftarrow> write_filter dest addr_of tb;
       (metaindex_block_handle, tb) \<leftarrow> write_metaindex dest addr_of filter_block_handle tb;
       (index_block_handle, tb) \<leftarrow> write_index dest addr_of tb;
       tb \<leftarrow> write_footer dest \<lparr>ft_metaindex_handle = metaindex_block_handle, ft_index_handle = index_block_handle\<rparr> tb;
       Some (tb_status tb, tb)
     }"

definition TableBuilder_Abandon :: "'f TableBuilder \<Rightarrow> 'f TableBuilder" where
  "TableBuilder_Abandon tb = tb\<lparr>tb_closed := True\<rparr>"

end
