(* ===== verification/Ldb_Table_Read.thy ===== *)
theory Ldb_Table_Read
  imports Ldb_Table
begin

text \<open>
  \<^verbatim>\<open>table/table.cc\<close>: an open table, with the iterators of \<^verbatim>\<open>table/iterator.cc\<close> that stand for an error or for no
  entries. The block cache is an interface: a cache state with \<^verbatim>\<open>Lookup\<close>, \<^verbatim>\<open>Insert\<close> and \<^verbatim>\<open>Release\<close>; handles are
  numbers. \<^verbatim>\<open>InternalGet\<close> calls its \<^verbatim>\<open>handle_result\<close> at most once; the model returns the arguments of that call.
\<close>

section \<open>Iterators over a block\<close>

fun Iterator_Valid :: "BlockIterator \<Rightarrow> bool" where
  "Iterator_Valid (EntryIterator it) = BlockIter_Valid it"
| "Iterator_Valid _ = False"

fun Iterator_status :: "BlockIterator \<Rightarrow> Status" where
  "Iterator_status (EntryIterator it) = bi_status it"
| "Iterator_status (ErrorIterator s) = s"
| "Iterator_status EmptyIterator = OK"

fun Iterator_key :: "BlockIterator \<Rightarrow> slice" where
  "Iterator_key (EntryIterator it) = bi_key it"
| "Iterator_key _ = []"

fun Iterator_value :: "BlockIterator \<Rightarrow> slice" where
  "Iterator_value (EntryIterator it) = BlockIter_value it"
| "Iterator_value _ = []"

definition on_entries :: "(BlockIter \<Rightarrow> BlockIter option) \<Rightarrow> BlockIterator \<Rightarrow> BlockIterator option" where
  "on_entries op iter = (case iter of EntryIterator it \<Rightarrow> map_option EntryIterator (op it) | _ \<Rightarrow> Some iter)"

definition Iterator_Seek :: "(slice \<Rightarrow> slice \<Rightarrow> int) \<Rightarrow> slice \<Rightarrow> BlockIterator \<Rightarrow> BlockIterator option" where
  "Iterator_Seek cmp target = on_entries (\<lambda>it. BlockIter_Seek cmp it target)"

definition Iterator_SeekToFirst :: "BlockIterator \<Rightarrow> BlockIterator option" where
  "Iterator_SeekToFirst = on_entries BlockIter_SeekToFirst"

definition Iterator_SeekToLast :: "BlockIterator \<Rightarrow> BlockIterator option" where
  "Iterator_SeekToLast = on_entries BlockIter_SeekToLast"

definition Iterator_Next :: "BlockIterator \<Rightarrow> BlockIterator option" where
  "Iterator_Next = on_entries BlockIter_Next"

definition Iterator_Prev :: "BlockIterator \<Rightarrow> BlockIterator option" where
  "Iterator_Prev = on_entries BlockIter_Prev"

section \<open>Tables\<close>

record Table =
  tr_options :: Options
  tr_file :: RandomAccessFile
  tr_cache_id :: u64
  tr_filter :: "FilterBlockReader option"
  tr_metaindex_handle :: BlockHandle
  tr_index_block :: Block

definition meta_options :: "Options \<Rightarrow> ReadOptions" where
  "meta_options options = \<lparr>ro_verify_checksums = op_paranoid_checks options, ro_fill_cache = True\<rparr>"

definition ReadFilter :: "(slice \<Rightarrow> nat) \<Rightarrow> slice \<Rightarrow> Table \<Rightarrow> Table option" where
  "ReadFilter addr_of filter_handle_value table =
     (case BlockHandle_DecodeFrom filter_handle_value BlockHandle_init of (s, filter_handle, _) \<Rightarrow>
        if \<not> Status_ok s then Some table
        else do {
          (s, block) \<leftarrow> ReadBlock addr_of (tr_file table) (meta_options (tr_options table)) filter_handle;
          if \<not> Status_ok s then Some table
          else Some (table\<lparr>tr_filter := Some (FilterBlockReader_init (bc_data block))\<rparr>)
        })"

definition ReadMeta :: "(slice \<Rightarrow> nat) \<Rightarrow> Footer \<Rightarrow> Table \<Rightarrow> Table option" where
  "ReadMeta addr_of footer table =
     (case op_filter_policy (tr_options table) of
        None \<Rightarrow> Some table
      | Some policy \<Rightarrow> do {
          (s, contents) \<leftarrow> ReadBlock addr_of (tr_file table) (meta_options (tr_options table)) (ft_metaindex_handle footer);
          if \<not> Status_ok s then Some table
          else do {
            let key = filter_prefix @ fp_Name policy;
            iter \<leftarrow> Iterator_Seek Bytewise_Compare key (Block_NewIterator (Block_init (bc_data contents)));
            if Iterator_Valid iter \<and> Slice_eq (Iterator_key iter) key
            then ReadFilter addr_of (Iterator_value iter) table
            else Some table
          }
        })"

text \<open>\<open>cache_id\<close> is the number \<^verbatim>\<open>NewId\<close> gives, or 0 without a cache.\<close>

definition Table_Open :: "(slice \<Rightarrow> nat) \<Rightarrow> Options \<Rightarrow> RandomAccessFile \<Rightarrow> u64 \<Rightarrow> u64 \<Rightarrow> (Status \<times> Table option) option" where
  "Table_Open addr_of options file sz cache_id =
     (if sz < word_of_nat kEncodedLength then Some (Corruption ''file is too short to be an sstable'', None)
      else case raf_Read file (sz - word_of_nat kEncodedLength) (word_of_nat kEncodedLength) of (s, footer_input) \<Rightarrow>
        if \<not> Status_ok s then Some (s, None)
        else do {
          (s, footer) \<leftarrow> Footer_DecodeFrom footer_input Footer_init;
          if \<not> Status_ok s then Some (s, None)
          else do {
            (s, contents) \<leftarrow> ReadBlock addr_of file (meta_options options) (ft_index_handle footer);
            if Status_ok s
            then do {
              table \<leftarrow> ReadMeta addr_of footer
                \<lparr>tr_options = options, tr_file = file, tr_cache_id = cache_id, tr_filter = None,
                 tr_metaindex_handle = ft_metaindex_handle footer, tr_index_block = Block_init (bc_data contents)\<rparr>;
              Some (s, Some table)
            }
            else Some (s, None)
          }
        })"

section \<open>Data blocks\<close>

text \<open>\<open>None\<close>: the operation does not return, or it touches memory that is not its own.\<close>

record ('c, 'v) Cache =
  ca_Lookup :: "slice \<Rightarrow> 'c \<Rightarrow> ((nat \<times> 'v) option \<times> 'c) option"
  ca_Insert :: "slice \<Rightarrow> 'v \<Rightarrow> nat \<Rightarrow> 'c \<Rightarrow> (nat \<times> 'c) option"
  ca_Release :: "nat \<Rightarrow> 'c \<Rightarrow> 'c option"

definition block_key :: "Table \<Rightarrow> BlockHandle \<Rightarrow> slice" where
  "block_key table handle = EncodeFixed64 (tr_cache_id table) @ EncodeFixed64 (bh_offset handle)"

definition read_data_block :: "(slice \<Rightarrow> nat) \<Rightarrow> Table \<Rightarrow> ReadOptions \<Rightarrow> BlockHandle \<Rightarrow> (Status \<times> BlockContents \<times> Block option) option" where
  "read_data_block addr_of table options handle =
     do {
       (s, contents) \<leftarrow> ReadBlock addr_of (tr_file table) options handle;
       Some (s, contents, if Status_ok s then Some (Block_init (bc_data contents)) else None)
     }"

definition BlockReader ::
    "(slice \<Rightarrow> nat) \<Rightarrow> ('c, Block) Cache option \<Rightarrow> Table \<Rightarrow> ReadOptions \<Rightarrow> slice \<Rightarrow> 'c \<Rightarrow> (BlockIterator \<times> nat option \<times> 'c) option" where
  "BlockReader addr_of block_cache table options index_value c =
     (case BlockHandle_DecodeFrom index_value BlockHandle_init of (s, handle, _) \<Rightarrow>
        if Status_ok s
        then do {
          (s, block, cache_handle, c) \<leftarrow>
            (case block_cache of
               None \<Rightarrow> do { (s, _, block) \<leftarrow> read_data_block addr_of table options handle; Some (s, block, None, c) }
             | Some cache \<Rightarrow> do {
                 let key = block_key table handle;
                 (hit, c) \<leftarrow> ca_Lookup cache key c;
                 case hit of
                   Some (h, b) \<Rightarrow> Some (OK, Some b, Some h, c)
                 | None \<Rightarrow> do {
                     (s, contents, block) \<leftarrow> read_data_block addr_of table options handle;
                     case block of
                       Some b \<Rightarrow>
                         if bc_cachable contents \<and> ro_fill_cache options
                         then do { (h, c) \<leftarrow> ca_Insert cache key b (blk_size b) c; Some (s, block, Some h, c) }
                         else Some (s, block, None, c)
                     | None \<Rightarrow> Some (s, None, None, c)
                   }
               });
          Some (case block of None \<Rightarrow> ErrorIterator s | Some b \<Rightarrow> Block_NewIterator b, cache_handle, c)
        }
        else Some (ErrorIterator s, None, c))"

text \<open>The cleanup that runs when an iterator is deleted.\<close>

definition delete_iterator :: "('c, Block) Cache option \<Rightarrow> nat option \<Rightarrow> 'c \<Rightarrow> 'c option" where
  "delete_iterator block_cache cache_handle c =
     (case (block_cache, cache_handle) of (Some cache, Some h) \<Rightarrow> ca_Release cache h c | _ \<Rightarrow> Some c)"

definition filtered_out :: "Table \<Rightarrow> slice \<Rightarrow> slice \<Rightarrow> bool" where
  "filtered_out table handle_value k =
     (case (tr_filter table, op_filter_policy (tr_options table)) of
        (Some f, Some policy) \<Rightarrow>
          (case BlockHandle_DecodeFrom handle_value BlockHandle_init of (s, handle, _) \<Rightarrow>
             Status_ok s \<and> \<not> FilterBlock_KeyMayMatch (fp_KeyMayMatch policy) f (bh_offset handle) k)
      | _ \<Rightarrow> False)"

definition InternalGet ::
    "(slice \<Rightarrow> nat) \<Rightarrow> ('c, Block) Cache option \<Rightarrow> Table \<Rightarrow> ReadOptions \<Rightarrow> slice \<Rightarrow> 'c \<Rightarrow> (Status \<times> (slice \<times> slice) option \<times> 'c) option" where
  "InternalGet addr_of block_cache table options k c =
     do {
       iiter \<leftarrow> Iterator_Seek (op_Compare (tr_options table)) k (Block_NewIterator (tr_index_block table));
       (s, result, c) \<leftarrow>
         (if Iterator_Valid iiter \<and> \<not> filtered_out table (Iterator_value iiter) k
          then do {
            (block_iter, cache_handle, c) \<leftarrow> BlockReader addr_of block_cache table options (Iterator_value iiter) c;
            block_iter \<leftarrow> Iterator_Seek (op_Compare (tr_options table)) k block_iter;
            c \<leftarrow> delete_iterator block_cache cache_handle c;
            Some (Iterator_status block_iter,
                  if Iterator_Valid block_iter then Some (Iterator_key block_iter, Iterator_value block_iter) else None, c)
          }
          else Some (OK, None, c));
       Some (if Status_ok s then Iterator_status iiter else s, result, c)
     }"

definition ApproximateOffsetOf :: "Table \<Rightarrow> slice \<Rightarrow> u64 option" where
  "ApproximateOffsetOf table key =
     do {
       index_iter \<leftarrow> Iterator_Seek (op_Compare (tr_options table)) key (Block_NewIterator (tr_index_block table));
       Some (if Iterator_Valid index_iter
             then case BlockHandle_DecodeFrom (Iterator_value index_iter) BlockHandle_init of (s, handle, _) \<Rightarrow>
                    if Status_ok s then bh_offset handle else bh_offset (tr_metaindex_handle table)
             else bh_offset (tr_metaindex_handle table))
     }"

section \<open>The contract of a cache\<close>

text \<open>
  What \<^verbatim>\<open>leveldb/cache.h\<close> promises: a lookup returns a value that was inserted under its key, and a handle stays
  usable until it is released as often as it was returned (\<open>refs\<close>). Counters of an implementation are
  bounded, so an operation that takes a reference asks for \<open>room\<close>.
\<close>

locale cache =
  fixes cache :: "('c, 'v) Cache"
    and inv :: "'c \<Rightarrow> bool"
    and room :: "'c \<Rightarrow> bool"
    and holds :: "'c \<Rightarrow> slice \<Rightarrow> 'v \<Rightarrow> bool"
    and refs :: "'c \<Rightarrow> nat \<Rightarrow> nat"
  assumes Lookup: "inv c \<Longrightarrow> room c \<Longrightarrow>
      \<exists>hit c'. ca_Lookup cache key c = Some (hit, c') \<and> inv c' \<and> (\<forall>k v. holds c' k v \<longrightarrow> holds c k v)
        \<and> (case hit of None \<Rightarrow> c' = c | Some (h, v) \<Rightarrow> holds c key v \<and> refs c' = (refs c)(h := refs c h + 1))"
    and Insert: "inv c \<Longrightarrow> room c \<Longrightarrow> \<exists>h c'. ca_Insert cache key v n c = Some (h, c') \<and> inv c'
        \<and> (\<forall>k w. holds c' k w \<longrightarrow> holds c k w \<or> k = key \<and> w = v) \<and> refs c' = (refs c)(h := refs c h + 1)"
    and Release: "inv c \<Longrightarrow> 0 < refs c h \<Longrightarrow> \<exists>c'. ca_Release cache h c = Some c' \<and> inv c' \<and> (\<forall>k v. holds c' k v \<longrightarrow> holds c k v)
        \<and> refs c' = (refs c)(h := refs c h - 1)"

end
