(* ===== verification/Ldb_Table_Format.thy ===== *)
theory Ldb_Table_Format
  imports Ldb_Table_Read
begin

text \<open>
  What is written to a table file is read back from it: handles, the footer, and a block behind its
  trailer. What a table relies on when it reads is the locale \<open>random_access_file\<close>, which the mapped posix
  file provides.
\<close>

section \<open>Handles and the footer\<close>

lemma BlockHandle_roundtrip:
  "BlockHandle_DecodeFrom (BlockHandle_EncodeTo h [] @ rest) h0 = (OK, h, rest)"
  using varint64.dec_enc [of "bh_offset h" "EncodeVarint64 (bh_size h) @ rest"] varint64.dec_enc [of "bh_size h" rest]
  by (simp add: BlockHandle_DecodeFrom_def BlockHandle_EncodeTo_def PutVarint64_def)

lemma BlockHandle_EncodeTo_append: "BlockHandle_EncodeTo h dst = dst @ BlockHandle_EncodeTo h []"
  by (simp add: BlockHandle_EncodeTo_def PutVarint64_def)

lemma EncodeVarint64_length: "length (EncodeVarint64 v) \<le> 10"
proof -
  have "unat w < 128 ^ n \<Longrightarrow> 0 < n \<Longrightarrow> length (EncodeVarint64 w) \<le> n" for n and w :: u64
  proof (induction n arbitrary: w)
    case (Suc n)
    show ?case
    proof (cases "w \<ge> 128")
      case True
      then have "unat w \<ge> 128" by (simp add: word_le_nat_alt)
      then have "0 < n" using Suc.prems by (cases n) auto
      moreover have "unat (drop_bit 7 w) < 128 ^ n"
        using Suc.prems by (simp add: unat_drop_bit less_mult_imp_div_less mult.commute)
      ultimately show ?thesis using Suc.IH [of "drop_bit 7 w"] True by (subst EncodeVarint64.simps) simp
    next
      case False
      then show ?thesis by (subst EncodeVarint64.simps) simp
    qed
  qed simp
  from this [of v 10] show ?thesis using unat_lt2p [of v] by simp
qed

lemma BlockHandle_length: "length (BlockHandle_EncodeTo h []) \<le> kMaxEncodedLength"
  using EncodeVarint64_length [of "bh_offset h"] EncodeVarint64_length [of "bh_size h"]
  by (simp add: BlockHandle_EncodeTo_def PutVarint64_def kMaxEncodedLength_def)

lemma Footer_length: "length (Footer_EncodeTo ft []) = kEncodedLength"
  by (simp add: Footer_EncodeTo_def Let_def resize_def PutFixed32_def EncodeFixed32_def kEncodedLength_def)

lemma Footer_roundtrip: "Footer_DecodeFrom (Footer_EncodeTo ft []) ft0 = Some (OK, ft)"
proof -
  let ?m = "ft_metaindex_handle ft" and ?i = "ft_index_handle ft"
  let ?hs = "BlockHandle_EncodeTo ?m [] @ BlockHandle_EncodeTo ?i []"
  let ?lo = "ucast (kTableMagicNumber AND 0xffffffff) :: u32" and ?hi = "ucast (drop_bit 32 kTableMagicNumber) :: u32"
  have hs: "length ?hs \<le> 2 * kMaxEncodedLength" using BlockHandle_length [of ?m] BlockHandle_length [of ?i] by simp
  have e: "Footer_EncodeTo ft [] = ?hs @ replicate (2 * kMaxEncodedLength - length ?hs) 0 @ EncodeFixed32 ?lo @ EncodeFixed32 ?hi"
    using hs BlockHandle_EncodeTo_append [of ?i "BlockHandle_EncodeTo ?m []"]
    by (simp add: Footer_EncodeTo_def Let_def resize_def PutFixed32_def)
  have "drop (2 * kMaxEncodedLength) (Footer_EncodeTo ft []) = EncodeFixed32 ?lo @ EncodeFixed32 ?hi" unfolding e using hs by simp
  then have magic: "drop (kEncodedLength - 8) (Footer_EncodeTo ft []) = EncodeFixed32 ?lo @ EncodeFixed32 ?hi" by (simp add: kEncodedLength_def)
  have "drop 4 (EncodeFixed32 ?lo @ EncodeFixed32 ?hi) = EncodeFixed32 ?hi" by (simp add: EncodeFixed32_def)
  then have words: "DecodeFixed32 (EncodeFixed32 ?lo @ EncodeFixed32 ?hi) = ?lo" "DecodeFixed32 (drop 4 (EncodeFixed32 ?lo @ EncodeFixed32 ?hi)) = ?hi"
    using DecodeFixed32_bytes [of ?lo] DecodeFixed32_bytes [of ?hi "[]"] by simp_all
  have join: "push_bit 32 (ucast ?hi) OR ucast ?lo = kTableMagicNumber" by (simp add: kTableMagicNumber_def)
  let ?rest = "replicate (2 * kMaxEncodedLength - length ?hs) 0 @ EncodeFixed32 ?lo @ EncodeFixed32 ?hi"
  have d1: "BlockHandle_DecodeFrom (Footer_EncodeTo ft []) h0 = (OK, ?m, BlockHandle_EncodeTo ?i [] @ ?rest)" for h0
    using BlockHandle_roundtrip [of ?m "BlockHandle_EncodeTo ?i [] @ ?rest"] unfolding e by simp
  have ft: "ft0\<lparr>ft_metaindex_handle := ?m, ft_index_handle := ?i\<rparr> = ft" by (cases ft; cases ft0) simp
  show ?thesis
    unfolding Footer_DecodeFrom_def Footer_length magic words Let_def join d1
    using ft by (simp add: BlockHandle_roundtrip)
qed

section \<open>Blocks in the file\<close>

definition stored :: "slice \<Rightarrow> byte list" where
  "stored raw = raw @ 0 # EncodeFixed32 (crc32c_Mask (crc32c_ref 0 (raw @ [0])))"

lemma stored_length: "length (stored raw) = length raw + kBlockTrailerSize"
  by (simp add: stored_def EncodeFixed32_def kBlockTrailerSize_def)

text \<open>A read inside the file returns all its bytes.\<close>

locale random_access_file =
  fixes read :: "u64 \<Rightarrow> u64 \<Rightarrow> Status \<times> slice"
    and bytes :: "byte list"
  assumes read_inside: "length bytes < 2 ^ 63 \<Longrightarrow> off + n \<le> length bytes \<Longrightarrow>
      read (word_of_nat off) (word_of_nat n) = (OK, take n (drop off bytes))"
begin

lemma ReadBlock_stored:
  assumes "bytes = pre @ stored raw @ post" "length bytes < 2 ^ 63" "raf_Read file = read"
  shows "ReadBlock addr_of file options \<lparr>bh_offset = word_of_nat (length pre), bh_size = word_of_nat (length raw)\<rparr>
    = Some (OK, \<lparr>bc_data = raw, bc_cachable = raf_scratch file, bc_heap_allocated = raf_scratch file\<rparr>)"
proof -
  let ?n = "length raw" and ?S = "stored raw"
  have len: "length pre + (?n + kBlockTrailerSize) \<le> length bytes" by (simp add: assms(1) stored_length)
  have rd: "read (word_of_nat (length pre)) (word_of_nat (?n + kBlockTrailerSize)) = (OK, ?S)"
    using read_inside [OF assms(2) len] by (simp add: assms(1) stored_length)
  have n: "unat (word_of_nat ?n :: u64) = ?n" using len assms(2) by (simp add: unat_of_nat)
  have "crc32c_Unmask (DecodeFixed32 (drop (?n + 1) ?S)) = crc32c_Value (addr_of ?S) (take (?n + 1) ?S)" "?S ! ?n = 0" "take ?n ?S = raw"
    using DecodeFixed32_bytes [of "crc32c_Mask (crc32c_ref 0 (raw @ [0]))" "[]"]
    by (simp_all add: stored_def crc32c_Value_def crc32c_Extend_eq crc32c_Mask_Unmask)
  then show ?thesis
    unfolding ReadBlock_def using rd by (simp add: assms(3) n stored_length Let_def)
qed

end

interpretation posix_mapped: random_access_file "PosixMmapReadableFile_Read os filename mapped" mapped for os filename mapped
proof
  fix off n
  assume "length mapped < 2 ^ 63" "off + n \<le> length mapped"
  then have "unat (word_of_nat off :: u64) = off" "unat (word_of_nat n :: u64) = n"
    "\<not> (word_of_nat off + word_of_nat n :: u64) > word_of_nat (length mapped)"
    by (simp_all add: unat_of_nat word_less_nat_alt of_nat_add [symmetric] del: of_nat_add)
  then show "PosixMmapReadableFile_Read os filename mapped (word_of_nat off) (word_of_nat n) = (OK, take n (drop off mapped))"
    by (simp add: PosixMmapReadableFile_Read_def)
qed

interpretation posix_pread: random_access_file "PosixRandomAccessFile_Read os filename bytes permanent (\<lambda>_. Ret a) (\<lambda>_. Ret b)" bytes
  for os filename bytes permanent a b
proof
  fix off n
  assume small: "length bytes < 2 ^ 63" "off + n \<le> length bytes"
  have "0 \<le> sint (word_of_nat off :: u64)"
  proof -
    have o: "off < 2 ^ 63" using small by simp
    then have "int off < 2 ^ 63" by simp
    moreover have "- (2 ^ 63) \<le> int off" by simp
    ultimately have "signed_take_bit 63 (int off) = int off" by (intro signed_take_bit_int_eq_self)
    then show ?thesis by (simp add: signed_of_nat)
  qed
  moreover have "unat (word_of_nat off :: u64) = off" "unat (word_of_nat n :: u64) = n" using small by (simp_all add: unat_of_nat)
  ultimately show "PosixRandomAccessFile_Read os filename bytes permanent (\<lambda>_. Ret a) (\<lambda>_. Ret b) (word_of_nat off) (word_of_nat n)
      = (OK, take n (drop off bytes))"
    by (simp add: PosixRandomAccessFile_Read_def)
qed

end
