(* ===== verification/Ldb_Block_Spec.thy ===== *)
theory Ldb_Block_Spec
  imports Ldb_Block
begin

text \<open>
  The bytes of a block as a function of its entries (\<open>block_bytes\<close>), that the builder produces them, and
  how the decoder reads a single entry of them.
\<close>

section \<open>The layout\<close>

definition entry_shared :: "nat \<Rightarrow> (slice \<times> slice) list \<Rightarrow> nat \<Rightarrow> nat" where
  "entry_shared r kvs i =
     (if i mod r = 0 then 0
      else let a = fst (kvs ! (i - 1)); b = fst (kvs ! i) in shared_loop a b (min (length a) (length b)) 0)"

definition entry_head :: "nat \<Rightarrow> (slice \<times> slice) list \<Rightarrow> nat \<Rightarrow> byte list" where
  "entry_head r kvs i =
     EncodeVarint32 (word_of_nat (entry_shared r kvs i))
     @ EncodeVarint32 (word_of_nat (length (fst (kvs ! i)) - entry_shared r kvs i))
     @ EncodeVarint32 (word_of_nat (length (snd (kvs ! i))))"

definition entry_enc :: "nat \<Rightarrow> (slice \<times> slice) list \<Rightarrow> nat \<Rightarrow> byte list" where
  "entry_enc r kvs i = entry_head r kvs i @ drop (entry_shared r kvs i) (fst (kvs ! i)) @ snd (kvs ! i)"

definition entries_upto :: "nat \<Rightarrow> (slice \<times> slice) list \<Rightarrow> nat \<Rightarrow> byte list" where
  "entries_upto r kvs n = concat (map (entry_enc r kvs) [0..<n])"

definition offs :: "nat \<Rightarrow> (slice \<times> slice) list \<Rightarrow> nat \<Rightarrow> nat" where
  "offs r kvs i = length (entries_upto r kvs i)"

definition restart_count :: "nat \<Rightarrow> nat \<Rightarrow> nat" where
  "restart_count r n = (if n = 0 then 1 else (n - 1) div r + 1)"

definition restart_list :: "nat \<Rightarrow> (slice \<times> slice) list \<Rightarrow> u32 list" where
  "restart_list r kvs = map (\<lambda>j. word_of_nat (offs r kvs (j * r))) [0..<restart_count r (length kvs)]"

definition block_bytes :: "nat \<Rightarrow> (slice \<times> slice) list \<Rightarrow> byte list" where
  "block_bytes r kvs =
     entries_upto r kvs (length kvs) @ concat (map EncodeFixed32 (restart_list r kvs))
     @ EncodeFixed32 (word_of_nat (restart_count r (length kvs)))"

lemma entries_upto_Suc: "entries_upto r kvs (Suc n) = entries_upto r kvs n @ entry_enc r kvs n"
  by (simp add: entries_upto_def)

lemma offs_Suc: "offs r kvs (Suc n) = offs r kvs n + length (entry_enc r kvs n)"
  by (simp add: offs_def entries_upto_Suc)

lemma entry_enc_length: "0 < length (entry_enc r kvs i)"
  by (simp add: entry_enc_def entry_head_def EncodeVarint32_def)

lemma offs_0 [simp]: "offs r kvs 0 = 0"
  by (simp add: offs_def entries_upto_def)

lemma offs_less: "i < j \<Longrightarrow> offs r kvs i < offs r kvs j"
proof (induction j)
  case (Suc j)
  then show ?case using entry_enc_length [of r kvs j] by (cases "i = j") (auto simp: offs_Suc)
qed simp

lemma offs_less_iff: "offs r kvs i < offs r kvs j \<longleftrightarrow> i < j"
  using offs_less [of i j] offs_less [of j i] by (metis less_asym not_less_iff_gr_or_eq)

lemma offs_le_iff: "offs r kvs i \<le> offs r kvs j \<longleftrightarrow> i \<le> j"
  using offs_less_iff [of r kvs j i] by (simp add: not_less [symmetric])

lemma entries_split: "i \<le> n \<Longrightarrow> \<exists>rest. entries_upto r kvs n = entries_upto r kvs i @ rest"
proof (induction n)
  case (Suc n)
  then show ?case by (cases "i = Suc n") (auto simp: entries_upto_Suc)
qed simp

lemma entries_at: "i < n \<Longrightarrow> \<exists>rest. entries_upto r kvs n = entries_upto r kvs i @ entry_enc r kvs i @ rest"
  using entries_split [of "Suc i" n r kvs] by (auto simp: entries_upto_Suc)

section \<open>Shared prefixes\<close>

lemma shared_loop_prefix:
  assumes "n \<le> length a" "n \<le> length b" "s \<le> n" "take s a = take s b"
  shows "s \<le> shared_loop a b n s \<and> shared_loop a b n s \<le> n \<and> take (shared_loop a b n s) a = take (shared_loop a b n s) b"
  using assms
proof (induction a b n s rule: shared_loop.induct)
  case (1 a b n s)
  show ?case
  proof (cases "s < n \<and> a ! s = b ! s")
    case True
    then have "take (s + 1) a = take (s + 1) b" using 1(2-5) by (simp add: take_Suc_conv_app_nth)
    with 1(1) [OF True] 1(2-5) True show ?thesis by (subst shared_loop.simps) (auto simp: shared_loop.simps [of a b n s])
  next
    case False
    then show ?thesis using 1(2-5) by (auto simp: shared_loop.simps [of a b n s])
  qed
qed

lemma entry_shared_props:
  shows "entry_shared r kvs i \<le> length (fst (kvs ! i))"
    and "i mod r \<noteq> 0 \<Longrightarrow> entry_shared r kvs i \<le> length (fst (kvs ! (i - 1)))"
    and "i mod r \<noteq> 0 \<Longrightarrow> take (entry_shared r kvs i) (fst (kvs ! (i - 1))) = take (entry_shared r kvs i) (fst (kvs ! i))"
  using shared_loop_prefix [of "min (length (fst (kvs ! (i - 1)))) (length (fst (kvs ! i)))" "fst (kvs ! (i - 1))" "fst (kvs ! i)" 0]
  by (auto simp: entry_shared_def Let_def)

section \<open>The builder\<close>

definition bb_rep :: "nat \<Rightarrow> BlockBuilder \<Rightarrow> (slice \<times> slice) list \<Rightarrow> bool" where
  "bb_rep r bb kvs \<longleftrightarrow>
     bb_restart_interval bb = r \<and> \<not> bb_finished bb \<and> bb_buffer bb = entries_upto r kvs (length kvs)
     \<and> bb_restarts bb = restart_list r kvs
     \<and> bb_counter bb = (if kvs = [] then 0 else (length kvs - 1) mod r + 1)
     \<and> bb_last_key bb = (if kvs = [] then [] else fst (last kvs))"

lemma bb_rep_init: "bb_rep r (BlockBuilder_init r) []"
  by (simp add: bb_rep_def BlockBuilder_init_def entries_upto_def restart_list_def restart_count_def offs_def)

lemma bb_rep_Reset: "bb_restart_interval bb = r \<Longrightarrow> bb_rep r (BlockBuilder_Reset bb) []"
  by (simp add: bb_rep_def BlockBuilder_Reset_def entries_upto_def restart_list_def restart_count_def offs_def)

lemma entry_enc_append: "i < length kvs \<Longrightarrow> entry_enc r (kvs @ xs) i = entry_enc r kvs i"
  by (simp add: entry_enc_def entry_head_def entry_shared_def nth_append Let_def less_imp_diff_less)

lemma entries_upto_append: "n \<le> length kvs \<Longrightarrow> entries_upto r (kvs @ xs) n = entries_upto r kvs n"
  unfolding entries_upto_def by (intro arg_cong [where f = concat] map_cong) (auto simp: entry_enc_append)

lemma last_restart: "0 < r \<Longrightarrow> j < restart_count r n \<Longrightarrow> j * r \<le> n - 1"
proof (cases "n = 0")
  case False
  assume "0 < r" "j < restart_count r n"
  then have "j \<le> (n - 1) div r" using False by (simp add: restart_count_def)
  then have "j * r \<le> (n - 1) div r * r" by simp
  also have "\<dots> \<le> n - 1" by (simp add: div_times_less_eq_dividend)
  finally show ?thesis .
qed (simp add: restart_count_def)

lemma restart_list_snoc:
  assumes "0 < r"
  shows "restart_list r (kvs @ [x]) =
    (if kvs \<noteq> [] \<and> length kvs mod r = 0 then restart_list r kvs @ [word_of_nat (offs r kvs (length kvs))] else restart_list r kvs)"
proof -
  let ?n = "length kvs"
  have same: "offs r (kvs @ [x]) (j * r) = offs r kvs (j * r)" if "j * r \<le> ?n" for j
    using that by (simp add: offs_def entries_upto_append)
  have old: "map (\<lambda>j. word_of_nat (offs r (kvs @ [x]) (j * r))) [0..<restart_count r ?n] = (restart_list r kvs :: u32 list)"
    unfolding restart_list_def by (rule map_cong) (use last_restart [OF assms] same in \<open>force+\<close>)
  show ?thesis
  proof (cases "kvs \<noteq> [] \<and> ?n mod r = 0")
    case True
    then have n: "?n = ?n div r * r" "0 < ?n" by auto
    have "(?n - 1) div r = ?n div r - 1"
      using n assms by (metis One_nat_def Suc_pred' div_Suc mod_0_imp_dvd True less_numeral_extra(3) mod_eq_0_iff_dvd diff_Suc_1)
    moreover have "0 < ?n div r" using n by (metis mult_0 not_gr0)
    ultimately have "restart_count r (length (kvs @ [x])) = Suc (restart_count r ?n)" "restart_count r ?n = ?n div r"
      using n(2) by (auto simp: restart_count_def)
    then show ?thesis using True old same [of "?n div r"] n(1) unfolding restart_list_def [of r "kvs @ [x]"] by simp
  next
    case False
    have "restart_count r (length (kvs @ [x])) = restart_count r ?n"
    proof (cases "kvs = []")
      case nonempty: False
      then have "?n mod r \<noteq> 0" "0 < ?n" using False by auto
      then have "(?n - 1) div r = ?n div r" by (metis Suc_pred' div_Suc)
      then show ?thesis using \<open>0 < ?n\<close> by (simp add: restart_count_def)
    qed (simp add: restart_count_def)
    then show ?thesis using False old unfolding restart_list_def [of r "kvs @ [x]"] by simp
  qed
qed

lemma restart_counter:
  assumes "0 < (r :: nat)" "0 < n"
  shows "(n - 1) mod r + 1 < r \<longleftrightarrow> n mod r \<noteq> 0" "(n - 1) mod r + 1 < r \<Longrightarrow> (n - 1) mod r + 1 = n mod r" 
proof -
  have "n mod r = (if Suc ((n - 1) mod r) = r then 0 else Suc ((n - 1) mod r))" using assms(2) by (metis Suc_pred' mod_Suc)
  moreover have "(n - 1) mod r < r" using assms(1) by simp
  ultimately show "(n - 1) mod r + 1 < r \<longleftrightarrow> n mod r \<noteq> 0" "(n - 1) mod r + 1 < r \<Longrightarrow> (n - 1) mod r + 1 = n mod r" by auto
qed

lemma bb_rep_Add:
  assumes "bb_rep r bb kvs" "0 < r"
  shows "bb_rep r (BlockBuilder_Add bb k v) (kvs @ [(k, v)])"
proof -
  let ?n = "length kvs" and ?new = "kvs @ [(k, v)]"
  let ?last = "if kvs = [] then [] else fst (last kvs)"
  have again: "bb_counter bb < r \<longleftrightarrow> kvs = [] \<or> ?n mod r \<noteq> 0" and cnt: "(if bb_counter bb < r then bb_counter bb else 0) + 1 = ?n mod r + 1"
    using assms restart_counter [OF assms(2), of ?n] by (auto simp: bb_rep_def)
  have last: "kvs \<noteq> [] \<Longrightarrow> fst (?new ! (?n - 1)) = fst (last kvs)" by (simp add: nth_append last_conv_nth)
  have shared: "entry_shared r ?new ?n =
      (if bb_counter bb < r then shared_loop ?last k (min (length ?last) (length k)) 0 else 0)"
    unfolding again using last by (auto simp: entry_shared_def Let_def shared_loop.simps)
  let ?s = "entry_shared r ?new ?n"
  have key: "take ?s ?last @ drop ?s k = k"
    using entry_shared_props(3) [of ?n r ?new] last append_take_drop_id [of ?s k] again
    by (cases "kvs = [] \<or> ?n mod r = 0") (auto simp: entry_shared_def)
  have buf: "entries_upto r ?new (length ?new) = entries_upto r kvs ?n @ entry_enc r ?new ?n"
    by (simp add: entries_upto_Suc entries_upto_append)
  have rs: "restart_list r ?new = (if bb_counter bb < r then bb_restarts bb else bb_restarts bb @ [word_of_nat (length (bb_buffer bb))])"
    using again restart_list_snoc [OF assms(2)] assms(1) by (auto simp: bb_rep_def offs_def)
  have b: "bb_restart_interval bb = r" "bb_last_key bb = ?last" "bb_buffer bb = entries_upto r kvs ?n" "\<not> bb_finished bb"
    using assms(1) by (auto simp: bb_rep_def)
  show ?thesis
    unfolding bb_rep_def BlockBuilder_Add_def Let_def b shared [symmetric] rs buf
    using b(1,4) key cnt by (simp add: entry_enc_def entry_head_def PutVarint32_def b(3))
qed

lemma bb_rep_Finish: "bb_rep r bb kvs \<Longrightarrow> fst (BlockBuilder_Finish bb) = block_bytes r kvs"
proof -
  have "fold (\<lambda>r buf. PutFixed32 buf r) rs buf = buf @ concat (map EncodeFixed32 rs)" for rs buf
    by (induction rs arbitrary: buf) (simp_all add: PutFixed32_def)
  then show "bb_rep r bb kvs \<Longrightarrow> ?thesis"
    by (simp add: bb_rep_def BlockBuilder_Finish_def Let_def block_bytes_def PutFixed32_def restart_list_def)
qed

end
