(* ===== verification/Ldb_Block_Iter.thy ===== *)
theory Ldb_Block_Iter
  imports Ldb_Block_Spec
begin

text \<open>
  The iterator over a block that the builder made stands for a position in the list of its entries. The
  operations are shown on positions: \<open>before i\<close> says that the next entry to be parsed is \<open>i\<close>, and \<open>at_entry i\<close>
  that the iterator shows entry \<open>i\<close>.
\<close>

section \<open>One entry\<close>

lemma byte_below_128: "(x :: byte) < 128 \<longleftrightarrow> \<not> bit x 7"
proof -
  have "bit (unat x) 7 \<longleftrightarrow> bit x 7" by (simp add: bit_unsigned_iff)
  then have "bit x 7 \<longleftrightarrow> odd (unat x div 2 ^ 7)" using bit_iff_odd [of "unat x" 7] by simp
  moreover have "unat x div 2 ^ 7 < 2" using unat_lt2p [of x] by simp
  ultimately show ?thesis by (auto simp: word_less_nat_alt less_2_cases_iff)
qed

lemma GetVarint32Ptr_low: "x < 128 \<Longrightarrow> GetVarint32Ptr (x # rest) = Some (ucast x, rest)"
  using and_exp_eq_0_iff_not_bit [of "ucast x :: u32" 7] by (simp add: GetVarint32Ptr_def Let_def byte_below_128 bit_ucast_iff)

text \<open>The shortcut for three one-byte lengths decodes what the varint decoder does.\<close>

lemma DecodeEntry_slow:
  assumes "take (limit - p) (drop p data) = rest" "3 \<le> length rest" "p \<le> limit"
    "GetVarint32Ptr rest = Some (shared, r1)" "GetVarint32Ptr r1 = Some (non_shared, r2)" "GetVarint32Ptr r2 = Some (vlen, r3)"
  shows "DecodeEntry data p limit = (if word_of_nat (length r3) < non_shared + vlen then None
     else Some (shared, non_shared, vlen, limit - length r3))"
proof -
  obtain a b c r where rest: "rest = a # b # c # r" using assms(2) by (metis Suc_le_length_iff numeral_3_eq_3)
  have "length rest \<le> limit - p" using assms(1) by auto
  then have "\<not> int limit - int p < 3" using assms(2,3) by linarith
  moreover have "a < 128 \<and> b < 128 \<and> c < 128" if "a OR b OR c < 128" using that by (simp add: byte_below_128 bit_or_iff)
  ultimately show ?thesis
    unfolding DecodeEntry_def assms(1) using assms(4-6) GetVarint32Ptr_low [of a] GetVarint32Ptr_low [of b] GetVarint32Ptr_low [of c]
    by (auto simp: rest Let_def)
qed

definition block_fits :: "nat \<Rightarrow> (slice \<times> slice) list \<Rightarrow> bool" where
  "block_fits r kvs \<longleftrightarrow> 0 < r \<and> length (block_bytes r kvs) < 2 ^ 32 \<and> (\<forall>kv\<in>set kvs. length (fst kv) < 2 ^ 32)"

lemma DecodeEntry_entry:
  assumes "take (limit - p) (drop p data) = entry_enc r kvs i @ tl0" "p \<le> limit" "limit < 2 ^ 32" "length (fst (kvs ! i)) < 2 ^ 32"
  defines "s \<equiv> entry_shared r kvs i"
  shows "DecodeEntry data p limit = Some (word_of_nat s, word_of_nat (length (fst (kvs ! i)) - s), word_of_nat (length (snd (kvs ! i))),
      limit - (length (fst (kvs ! i)) - s + length (snd (kvs ! i)) + length tl0))"
    and "unat (word_of_nat s :: u32) = s" "unat (word_of_nat (length (fst (kvs ! i)) - s) :: u32) = length (fst (kvs ! i)) - s"
    "unat (word_of_nat (length (snd (kvs ! i))) :: u32) = length (snd (kvs ! i))"
proof -
  let ?k = "fst (kvs ! i)" and ?v = "snd (kvs ! i)"
  let ?r3 = "drop s ?k @ ?v @ tl0"
  have "length (entry_enc r kvs i @ tl0) \<le> limit - p" unfolding assms(1) [symmetric] by simp
  then have len: "length ?r3 < 2 ^ 32" using assms(3) by (simp add: entry_enc_def s_def)
  have u: "unat (word_of_nat n :: u32) = n" if "n < 2 ^ 32" for n using that by (simp add: unat_of_nat)
  show us: "unat (word_of_nat s :: u32) = s" using entry_shared_props(1) [of r kvs i] assms(4) by (intro u) (simp add: s_def)
  show uk: "unat (word_of_nat (length ?k - s) :: u32) = length ?k - s" using len by (intro u) simp
  show uv: "unat (word_of_nat (length ?v) :: u32) = length ?v" using len by (intro u) simp
  have sum: "\<not> word_of_nat (length ?r3) < (word_of_nat (length ?k - s) + word_of_nat (length ?v) :: u32)"
    using len unfolding word_less_nat_alt of_nat_add [symmetric] by (subst (1 2) u) simp_all
  have "3 \<le> length (entry_enc r kvs i @ tl0)" by (simp add: entry_enc_def entry_head_def EncodeVarint32_def)
  moreover have "entry_enc r kvs i @ tl0 = EncodeVarint32 (word_of_nat s) @ EncodeVarint32 (word_of_nat (length ?k - s))
      @ EncodeVarint32 (word_of_nat (length ?v)) @ ?r3" by (simp add: entry_enc_def entry_head_def s_def)
  moreover have "GetVarint32Ptr (EncodeVarint32 w @ tl1) = Some (w, tl1)" for w tl1
    using GetVarint32Ptr_bytes [of w tl1] by (simp add: EncodeVarint32_bytes)
  ultimately have "DecodeEntry data p limit = (if word_of_nat (length ?r3) < (word_of_nat (length ?k - s) + word_of_nat (length ?v) :: u32) then None
     else Some (word_of_nat s, word_of_nat (length ?k - s), word_of_nat (length ?v), limit - length ?r3))"
    by (intro DecodeEntry_slow [OF assms(1) _ assms(2)]) simp_all
  then show "DecodeEntry data p limit = Some (word_of_nat s, word_of_nat (length ?k - s), word_of_nat (length ?v),
      limit - (length ?k - s + length ?v + length tl0))"
    using sum by (simp only: if_False length_append length_drop add.assoc)
qed

section \<open>Positions\<close>

definition iter_base :: "nat \<Rightarrow> (slice \<times> slice) list \<Rightarrow> BlockIter \<Rightarrow> bool" where
  "iter_base r kvs it \<longleftrightarrow>
     bi_data it = block_bytes r kvs \<and> bi_restarts it = offs r kvs (length kvs)
     \<and> bi_num_restarts it = restart_count r (length kvs) \<and> bi_status it = OK"

definition before :: "nat \<Rightarrow> (slice \<times> slice) list \<Rightarrow> nat \<Rightarrow> BlockIter \<Rightarrow> bool" where
  "before r kvs i it \<longleftrightarrow>
     iter_base r kvs it \<and> i \<le> length kvs \<and> bi_value_pos it + bi_value_len it = offs r kvs i
     \<and> (i mod r = 0 \<or> bi_key it = fst (kvs ! (i - 1)))
     \<and> bi_restart_index it < bi_num_restarts it \<and> bi_restart_index it * r \<le> i"

definition at_entry :: "nat \<Rightarrow> (slice \<times> slice) list \<Rightarrow> nat \<Rightarrow> BlockIter \<Rightarrow> bool" where
  "at_entry r kvs i it \<longleftrightarrow>
     before r kvs (Suc i) it \<and> bi_current it = offs r kvs i \<and> bi_restart_index it * r \<le> i
     \<and> bi_key it = fst (kvs ! i) \<and> BlockIter_value it = snd (kvs ! i)"

definition at_end :: "nat \<Rightarrow> (slice \<times> slice) list \<Rightarrow> BlockIter \<Rightarrow> bool" where
  "at_end r kvs it \<longleftrightarrow> iter_base r kvs it \<and> bi_current it = bi_restarts it"

lemma offs_bound: "block_fits r kvs \<Longrightarrow> i \<le> length kvs \<Longrightarrow> offs r kvs i < 2 ^ 32"
  using offs_le_iff [of r kvs i "length kvs"] by (simp add: block_fits_def block_bytes_def offs_def)

lemma restart_point:
  assumes "iter_base r kvs it" "block_fits r kvs" "j < restart_count r (length kvs)"
  shows "GetRestartPoint it j = offs r kvs (j * r)" "j * r \<le> length kvs"
proof -
  have r: "0 < r" using assms(2) by (simp add: block_fits_def)
  show le: "j * r \<le> length kvs" using last_restart [OF r assms(3)] by simp
  let ?rs = "restart_list r kvs"
  have "drop (offs r kvs (length kvs) + j * 4) (block_bytes r kvs)
      = drop (j * 4) (concat (map EncodeFixed32 ?rs)) @ drop (j * 4 - length (concat (map EncodeFixed32 ?rs))) (EncodeFixed32 (word_of_nat (restart_count r (length kvs))))"
    by (simp add: block_bytes_def offs_def)
  also have "drop (j * 4) (concat (map EncodeFixed32 ?rs)) = EncodeFixed32 (?rs ! j) @ concat (map EncodeFixed32 (drop (Suc j) ?rs))"
    by (rule concat_drop) (use assms(3) in \<open>simp_all add: EncodeFixed32_def restart_list_def\<close>)
  finally have "DecodeFixed32 (drop (offs r kvs (length kvs) + j * 4) (block_bytes r kvs)) = ?rs ! j"
    by (simp add: DecodeFixed32_bytes)
  then show "GetRestartPoint it j = offs r kvs (j * r)"
    using assms(1,3) offs_bound [OF assms(2) le] by (simp add: GetRestartPoint_def iter_base_def restart_list_def unat_of_nat)
qed

lemma entry_in_block:
  assumes "block_fits r kvs" "i < length kvs"
  shows "\<exists>tl0. take (offs r kvs (length kvs) - offs r kvs i) (drop (offs r kvs i) (block_bytes r kvs)) = entry_enc r kvs i @ tl0"
proof -
  obtain tl0 where "entries_upto r kvs (length kvs) = entries_upto r kvs i @ entry_enc r kvs i @ tl0" using entries_at [OF assms(2)] by blast
  then show ?thesis by (auto simp: block_bytes_def offs_def)
qed

lemma advance_restart_le:
  assumes "iter_base r kvs it" "block_fits r kvs" "bi_current it = offs r kvs i" "j < bi_num_restarts it" "j * r \<le> i"
  shows "advance_restart it j < bi_num_restarts it \<and> advance_restart it j * r \<le> i"
  using assms
proof (induction it j rule: advance_restart.induct)
  case (1 it j)
  show ?case
  proof (cases "j + 1 < bi_num_restarts it \<and> GetRestartPoint it (j + 1) < bi_current it")
    case True
    then have "j + 1 < restart_count r (length kvs)" using 1(2) by (simp add: iter_base_def)
    then have "(j + 1) * r < i" using True restart_point(1) [OF 1(2,3)] 1(4) by (simp add: offs_less_iff del: mult_Suc add_mult_distrib)
    with 1(1) [OF True 1(2-4)] True show ?thesis by (simp add: advance_restart.simps [of it j])
  next
    case False
    then have "advance_restart it j = j" by (subst advance_restart.simps) auto
    then show ?thesis using 1(5,6) by simp
  qed
qed

lemma ParseNextKey_end:
  assumes "before r kvs (length kvs) it" "block_fits r kvs"
  shows "\<exists>it'. ParseNextKey it = Some (False, it') \<and> at_end r kvs it'"
  using assms offs_bound [OF assms(2), of "length kvs"]
  by (auto simp: ParseNextKey_def before_def iter_base_def NextEntryOffset_def at_end_def Let_def)

lemma entry_read:
  assumes fits: "block_fits r kvs" and i: "i < length kvs"
  defines "s \<equiv> entry_shared r kvs i" and "k \<equiv> fst (kvs ! i)" and "v \<equiv> snd (kvs ! i)"
  shows "\<exists>w1 w2 w3 q. DecodeEntry (block_bytes r kvs) (offs r kvs i) (offs r kvs (length kvs)) = Some (w1, w2, w3, q)
    \<and> unat w1 = s \<and> unat w2 = length k - s \<and> unat w3 = length v \<and> q + (length k - s) + length v = offs r kvs (Suc i)
    \<and> q + (length k - s) \<le> length (block_bytes r kvs)
    \<and> take (length k - s) (drop q (block_bytes r kvs)) = drop s k
    \<and> take (length v) (drop (q + (length k - s)) (block_bytes r kvs)) = v"
proof -
  let ?limit = "offs r kvs (length kvs)" and ?p = "offs r kvs i" and ?B = "block_bytes r kvs"
  have lt: "?p < ?limit" "?limit < 2 ^ 32" using i offs_less_iff offs_bound [OF fits] by auto
  obtain tl0 where seg: "take (?limit - ?p) (drop ?p ?B) = entry_enc r kvs i @ tl0" using entry_in_block [OF fits i] by blast
  have kl: "length (fst (kvs ! i)) < 2 ^ 32" using fits i by (auto simp: block_fits_def)
  note dec = DecodeEntry_entry [OF seg less_imp_le [OF lt(1)] lt(2) kl, folded s_def k_def v_def]
  let ?q = "?limit - (length k - s + length v + length tl0)"
  have le: "?limit \<le> length ?B" by (simp add: block_bytes_def offs_def)
  have "length (entry_enc r kvs i @ tl0) = ?limit - ?p" unfolding seg [symmetric] using le by simp
  then have q: "?q = ?p + length (entry_head r kvs i)" and nxt: "?q + (length k - s) + length v = offs r kvs (Suc i)"
    using lt(1) by (simp_all add: entry_enc_def offs_Suc s_def k_def v_def)
  have "drop (length (entry_head r kvs i)) (take (?limit - ?p) (drop ?p ?B)) = drop s k @ v @ tl0"
    unfolding seg by (simp add: entry_enc_def s_def k_def v_def)
  then have dr: "take (?limit - ?q) (drop ?q ?B) = drop s k @ v @ tl0" unfolding q by (simp add: drop_take add.commute)
  have bytes: "drop ?q ?B = drop s k @ v @ tl0 @ drop (?limit - ?q) (drop ?q ?B)"
    using append_take_drop_id [of "?limit - ?q" "drop ?q ?B"] unfolding dr by simp
  have nk: "take (length k - s) (drop ?q ?B) = drop s k" by (subst bytes) simp
  have "drop (length k - s) (drop ?q ?B) = v @ tl0 @ drop (?limit - ?q) (drop ?q ?B)" by (subst bytes) simp
  then have nv: "take (length v) (drop (?q + (length k - s)) ?B) = v" by (simp add: add.commute)
  have "?q + (length k - s) \<le> length ?B" using nxt offs_le_iff [of r kvs "Suc i" "length kvs"] i le by simp
  then show ?thesis using dec nxt nk nv by blast
qed

lemma ParseNextKey_entry:
  assumes bef: "before r kvs i it" and fits: "block_fits r kvs" and i: "i < length kvs"
  shows "\<exists>it'. ParseNextKey it = Some (True, it') \<and> at_entry r kvs i it'"
proof -
  let ?n = "length kvs" and ?k = "fst (kvs ! i)" and ?v = "snd (kvs ! i)" and ?s = "entry_shared r kvs i" and ?p = "offs r kvs i"
  have base: "bi_data it = block_bytes r kvs" "bi_restarts it = offs r kvs ?n" "bi_num_restarts it = restart_count r ?n" "bi_status it = OK"
    and pos: "bi_value_pos it + bi_value_len it = ?p" and key: "i mod r = 0 \<or> bi_key it = fst (kvs ! (i - 1))"
    and ri: "bi_restart_index it < bi_num_restarts it" "bi_restart_index it * r \<le> i"
    using bef by (auto simp: before_def iter_base_def)
  have lt: "?p < offs r kvs ?n" "offs r kvs ?n < 2 ^ 32" using i offs_less_iff offs_bound [OF fits] by auto
  obtain w1 w2 w3 q where dec: "DecodeEntry (block_bytes r kvs) ?p (offs r kvs ?n) = Some (w1, w2, w3, q)"
      "unat w1 = ?s" "unat w2 = length ?k - ?s" "unat w3 = length ?v"
    and q: "q + (length ?k - ?s) + length ?v = offs r kvs (Suc i)" "q + (length ?k - ?s) \<le> length (block_bytes r kvs)"
      "take (length ?k - ?s) (drop q (block_bytes r kvs)) = drop ?s ?k" "take (length ?v) (drop (q + (length ?k - ?s)) (block_bytes r kvs)) = ?v"
    using entry_read [OF fits i] by blast
  have tk: "length (bi_key it) \<ge> ?s" "take ?s (bi_key it) @ drop ?s ?k = ?k"
    using key entry_shared_props(2,3) [of i r kvs] append_take_drop_id [of ?s ?k] by (auto simp: entry_shared_def)
  have cur: "NextEntryOffset it = ?p" using pos lt by (simp add: NextEntryOffset_def)
  define it1 where "it1 = it\<lparr>bi_current := ?p, bi_key := ?k, bi_value_pos := q + (length ?k - ?s), bi_value_len := length ?v\<rparr>"
  define it2 where "it2 = it1\<lparr>bi_restart_index := advance_restart it1 (bi_restart_index it)\<rparr>"
  have parse: "ParseNextKey it = Some (True, it2)"
    unfolding ParseNextKey_def cur using lt(1) tk q dec by (simp add: base Let_def it1_def it2_def)
  have "advance_restart it1 (bi_restart_index it) < bi_num_restarts it1 \<and> advance_restart it1 (bi_restart_index it) * r \<le> i"
    by (rule advance_restart_le [OF _ fits]) (use base ri in \<open>simp_all add: it1_def iter_base_def\<close>)
  then have "at_entry r kvs i it2"
    using i q by (simp add: at_entry_def before_def iter_base_def it2_def it1_def base BlockIter_value_def)
  with parse show ?thesis by blast
qed

section \<open>The operations on positions\<close>

definition iter_pos :: "nat \<Rightarrow> (slice \<times> slice) list \<Rightarrow> nat \<Rightarrow> BlockIter \<Rightarrow> bool" where
  "iter_pos r kvs i it \<longleftrightarrow> (if i < length kvs then at_entry r kvs i it else at_end r kvs it)"

lemma ParseNextKey_pos:
  assumes "before r kvs i it" "block_fits r kvs"
  shows "\<exists>it'. ParseNextKey it = Some (i < length kvs, it') \<and> iter_pos r kvs i it'"
proof (cases "i < length kvs")
  case True
  then show ?thesis using ParseNextKey_entry [OF assms True] by (simp add: iter_pos_def)
next
  case False
  then have "i = length kvs" using assms(1) by (simp add: before_def)
  then show ?thesis using ParseNextKey_end assms by (simp add: iter_pos_def)
qed

lemma before_restart:
  assumes "iter_base r kvs it" "block_fits r kvs" "j < restart_count r (length kvs)"
  shows "before r kvs (j * r) (SeekToRestartPoint it j)"
  using assms restart_point [OF assms] by (simp add: before_def iter_base_def SeekToRestartPoint_def)

lemma at_entry_next: "at_entry r kvs i it \<Longrightarrow> block_fits r kvs \<Longrightarrow> NextEntryOffset it = offs r kvs (Suc i)"
  using offs_bound [of r kvs "Suc i"] by (simp add: at_entry_def before_def NextEntryOffset_def)

lemma at_entry_base: "at_entry r kvs i it \<Longrightarrow> iter_base r kvs it"
  by (simp add: at_entry_def before_def)

lemma scan_until_entry:
  assumes "before r kvs i it" "block_fits r kvs" "i < m" "m \<le> length kvs"
  shows "\<exists>it'. scan_until (offs r kvs m) it = Some it' \<and> at_entry r kvs (m - 1) it'"
  using assms(1,3)
proof (induction "m - i" arbitrary: i it)
  case (Suc d)
  have "i < length kvs" using Suc.prems(2) assms(4) by simp
  then obtain it' where p: "ParseNextKey it = Some (True, it')" "at_entry r kvs i it'"
    using ParseNextKey_entry [OF Suc.prems(1) assms(2)] by blast
  have n: "NextEntryOffset it' < offs r kvs m \<longleftrightarrow> Suc i < m" by (simp add: at_entry_next [OF p(2) assms(2)] offs_less_iff)
  show ?case
  proof (cases "Suc i < m")
    case True
    have "d = m - Suc i" "before r kvs (Suc i) it'" using Suc.hyps(2) p(2) by (simp_all add: at_entry_def)
    from Suc.hyps(1) [OF this True] show ?thesis using p(1) n True by (subst scan_until.simps) simp
  next
    case False
    then have "m - 1 = i" using Suc.prems(2) by simp
    then show ?thesis using p n False by (subst scan_until.simps) simp
  qed
qed simp

lemma SeekToFirst_pos:
  assumes "iter_base r kvs it" "block_fits r kvs"
  shows "\<exists>it'. BlockIter_SeekToFirst it = Some it' \<and> iter_pos r kvs 0 it'"
proof -
  have "before r kvs 0 (SeekToRestartPoint it 0)" using before_restart [OF assms, of 0] by (simp add: restart_count_def split: if_splits)
  from ParseNextKey_pos [OF this assms(2)] show ?thesis by (auto simp: BlockIter_SeekToFirst_def)
qed

lemma SeekToLast_pos:
  assumes "iter_base r kvs it" "block_fits r kvs"
  shows "\<exists>it'. BlockIter_SeekToLast it = Some it' \<and> iter_pos r kvs (length kvs - 1) it'"
proof -
  let ?j = "restart_count r (length kvs) - 1"
  have j: "?j < restart_count r (length kvs)" "bi_num_restarts it - 1 = ?j" using assms(1) by (simp_all add: restart_count_def iter_base_def)
  have bef: "before r kvs (?j * r) (SeekToRestartPoint it ?j)" by (rule before_restart [OF assms j(1)])
  show ?thesis
  proof (cases "kvs = []")
    case True
    then have "before r kvs (length kvs) (SeekToRestartPoint it ?j)" using bef by (simp add: restart_count_def)
    from ParseNextKey_end [OF this assms(2)] show ?thesis
      unfolding BlockIter_SeekToLast_def j(2) by (subst scan_until.simps) (auto simp: True iter_pos_def)
  next
    case False
    then have "?j * r < length kvs" using last_restart [OF _ j(1)] assms(2) by (cases kvs) (auto simp: block_fits_def)
    from scan_until_entry [OF bef assms(2) this] False assms(1) show ?thesis
      unfolding BlockIter_SeekToLast_def j(2) by (simp add: iter_base_def iter_pos_def)
  qed
qed

lemma Next_pos:
  assumes "at_entry r kvs i it" "block_fits r kvs"
  shows "\<exists>it'. BlockIter_Next it = Some it' \<and> iter_pos r kvs (Suc i) it'"
  using ParseNextKey_pos [of r kvs "Suc i" it] assms by (auto simp: BlockIter_Next_def at_entry_def)

lemma Prev_restart_below:
  assumes "iter_base r kvs it" "block_fits r kvs" "j < restart_count r (length kvs)"
  shows "(i = 0 \<longrightarrow> Prev_restart it (offs r kvs i) j = None)
    \<and> (0 < i \<longrightarrow> (\<exists>j'\<le>j. Prev_restart it (offs r kvs i) j = Some j' \<and> j' * r < i))"
  using assms(3)
proof (induction j)
  case 0
  then show ?case using restart_point(1) [OF assms(1,2), of 0] offs_less_iff [of r kvs 0 i]
    by (subst (1 2) Prev_restart.simps) auto
next
  case (Suc j)
  have g: "offs r kvs i \<le> GetRestartPoint it (Suc j) \<longleftrightarrow> i \<le> Suc j * r"
    by (simp add: restart_point(1) [OF assms(1,2) Suc.prems] offs_le_iff del: mult_Suc)
  show ?case
  proof (cases "i \<le> Suc j * r")
    case True
    then have "Prev_restart it (offs r kvs i) (Suc j) = Prev_restart it (offs r kvs i) j" using g by (subst Prev_restart.simps) simp
    then show ?thesis using Suc by (auto intro: le_SucI)
  next
    case False
    then have "Prev_restart it (offs r kvs i) (Suc j) = Some (Suc j)" using g by (subst Prev_restart.simps) simp
    then show ?thesis using False by (auto simp del: mult_Suc)
  qed
qed

lemma Prev_pos:
  assumes "at_entry r kvs i it" "block_fits r kvs"
  shows "\<exists>it'. BlockIter_Prev it = Some it' \<and> (if i = 0 then at_end r kvs it' else at_entry r kvs (i - 1) it')"
proof -
  have base: "iter_base r kvs it" using at_entry_base [OF assms(1)] .
  have ri: "bi_restart_index it < restart_count r (length kvs)" and cur: "bi_current it = offs r kvs i" and i: "i < length kvs"
    using assms(1) by (auto simp: at_entry_def before_def iter_base_def)
  note p = Prev_restart_below [OF base assms(2) ri, of i]
  show ?thesis
  proof (cases "i = 0")
    case True
    then show ?thesis using p base by (simp add: BlockIter_Prev_def cur Let_def at_end_def iter_base_def)
  next
    case False
    then obtain j where j: "j \<le> bi_restart_index it" "Prev_restart it (offs r kvs i) (bi_restart_index it) = Some j" "j * r < i" using p by blast
    have "before r kvs (j * r) (SeekToRestartPoint it j)" using before_restart [OF base assms(2)] j(1) ri by simp
    from scan_until_entry [OF this assms(2) j(3)] i False show ?thesis by (simp add: BlockIter_Prev_def cur Let_def j(2))
  qed
qed

end
