(* ===== verification/Ldb_Block_Props.thy ===== *)
theory Ldb_Block_Props
  imports Ldb_Block_Iter
begin

text \<open>
  Seeking in a block, for any order of keys, and the properties of blocks: an iterator over a block the
  builder made walks its entries both ways and finds the first entry at or above a key.
\<close>

section \<open>Seeking\<close>

definition sorted_entries :: "(slice \<Rightarrow> slice \<Rightarrow> int) \<Rightarrow> (slice \<Rightarrow> bool) \<Rightarrow> (slice \<times> slice) list \<Rightarrow> bool" where
  "sorted_entries cmp valid kvs \<longleftrightarrow>
     sorted_wrt (\<lambda>a b. cmp (fst a) (fst b) < 0) kvs \<and> (\<forall>kv\<in>set kvs. valid (fst kv))"

text \<open>The number of entries below a key is the index of the first entry that is not.\<close>

definition entries_below :: "(slice \<Rightarrow> slice \<Rightarrow> int) \<Rightarrow> slice \<Rightarrow> (slice \<times> slice) list \<Rightarrow> nat" where
  "entries_below cmp target kvs = length (takeWhile (\<lambda>kv. cmp (fst kv) target < 0) kvs)"

lemma entries_below_eq:
  assumes "\<And>j. j < i \<Longrightarrow> cmp (fst (kvs ! j)) target < 0" "i \<le> length kvs" "i < length kvs \<Longrightarrow> \<not> cmp (fst (kvs ! i)) target < 0"
  shows "entries_below cmp target kvs = i"
proof -
  have "takeWhile (\<lambda>kv. cmp (fst kv) target < 0) kvs = take i kvs"
  proof (cases "i < length kvs")
    case True
    then show ?thesis using assms by (intro takeWhile_eq_take_P_nth) auto
  next
    case False
    then have "cmp (fst kv) target < 0" if "kv \<in> set kvs" for kv using assms(1,2) that by (auto simp: in_set_conv_nth)
    then show ?thesis using False by (simp add: takeWhile_eq_all_conv)
  qed
  then show ?thesis using assms(2) by (simp add: entries_below_def)
qed

lemma restart_list_length: "length (concat (map EncodeFixed32 (restart_list r kvs))) = 4 * restart_count r (length kvs)"
proof -
  have "length (concat (map EncodeFixed32 rs)) = 4 * length rs" for rs by (induction rs) (simp_all add: EncodeFixed32_def)
  from this [of "restart_list r kvs"] show ?thesis by (simp only: restart_list_def length_map length_upt diff_zero)
qed

lemma block_bytes_length: "length (block_bytes r kvs) = offs r kvs (length kvs) + 4 * restart_count r (length kvs) + 4"
  by (simp add: block_bytes_def restart_list_length offs_def EncodeFixed32_def del: length_concat)

lemma entry_enc_length_le: "length (entry_enc r kvs i) \<le> 15 + length (fst (kvs ! i)) + length (snd (kvs ! i))"
proof -
  have "length (EncodeVarint32 w) \<le> 5" for w unfolding EncodeVarint32_def by simp
  from this [of "word_of_nat (entry_shared r kvs i)"] this [of "word_of_nat (length (fst (kvs ! i)) - entry_shared r kvs i)"]
    this [of "word_of_nat (length (snd (kvs ! i)))"] show ?thesis by (simp add: entry_enc_def entry_head_def)
qed

lemma restart_count_bound: "block_fits r kvs \<Longrightarrow> restart_count r (length kvs) < 2 ^ 30"
  by (simp add: block_fits_def block_bytes_length)

context comparator
begin

lemma Seek_scan_pos:
  assumes "before r kvs i it" "block_fits r kvs" "\<And>j. j < i \<Longrightarrow> Compare (fst (kvs ! j)) target < 0"
  shows "\<exists>it'. Seek_scan Compare target it = Some it' \<and> iter_pos r kvs (entries_below Compare target kvs) it'"
  using assms(1,3)
proof (induction "length kvs - i" arbitrary: i it rule: less_induct)
  case less
  obtain it' where p: "ParseNextKey it = Some (i < length kvs, it')" "iter_pos r kvs i it'" using ParseNextKey_pos [OF less.prems(1) assms(2)] by blast
  show ?case
  proof (cases "i < length kvs \<and> Compare (fst (kvs ! i)) target < 0")
    case True
    have at: "at_entry r kvs i it'" "bi_key it' = fst (kvs ! i)" "before r kvs (Suc i) it'"
      using p(2) True by (auto simp: iter_pos_def at_entry_def)
    have "\<exists>it2. Seek_scan Compare target it' = Some it2 \<and> iter_pos r kvs (entries_below Compare target kvs) it2"
      by (rule less.hyps [OF _ at(3)]) (use True less.prems(2) less_Suc_eq in auto)
    then show ?thesis using p(1) True at(2) by (subst Seek_scan.simps) simp
  next
    case False
    then have "entries_below Compare target kvs = i" using less.prems by (intro entries_below_eq) (auto simp: before_def)
    then show ?thesis using p False by (subst Seek_scan.simps) (auto simp: iter_pos_def at_entry_def)
  qed
qed

lemma restart_mid_key:
  assumes "iter_base r kvs it" "block_fits r kvs" "mid < restart_count r (length kvs)" "0 < mid"
  shows "\<exists>w2 w3 q. DecodeEntry (bi_data it) (GetRestartPoint it mid) (bi_restarts it) = Some (0, w2, w3, q)
    \<and> q + unat w2 \<le> length (bi_data it) \<and> take (unat w2) (drop q (bi_data it)) = fst (kvs ! (mid * r))" "mid * r < length kvs"
proof -
  have "0 < r" using assms(2) by (simp add: block_fits_def)
  then have "mid * r \<le> length kvs - 1" "0 < mid * r" using last_restart [OF _ assms(3)] assms(4) by simp_all
  then show lt: "mid * r < length kvs" by linarith
  have s: "entry_shared r kvs (mid * r) = 0" by (simp add: entry_shared_def)
  from entry_read [OF assms(2) lt] obtain w1 w2 w3 q where
    "DecodeEntry (block_bytes r kvs) (offs r kvs (mid * r)) (offs r kvs (length kvs)) = Some (w1, w2, w3, q)" "unat w1 = 0"
    "unat w2 = length (fst (kvs ! (mid * r)))" "q + unat w2 \<le> length (block_bytes r kvs)"
    "take (unat w2) (drop q (block_bytes r kvs)) = fst (kvs ! (mid * r))" unfolding s by auto
  moreover have "w1 = 0" using calculation(2) by (simp add: unat_eq_zero)
  ultimately show "\<exists>w2 w3 q. DecodeEntry (bi_data it) (GetRestartPoint it mid) (bi_restarts it) = Some (0, w2, w3, q)
    \<and> q + unat w2 \<le> length (bi_data it) \<and> take (unat w2) (drop q (bi_data it)) = fst (kvs ! (mid * r))"
    using assms(1) restart_point(1) [OF assms(1-3)] by (auto simp: iter_base_def)
qed

lemma Seek_loop_pos:
  assumes base: "iter_base r kvs it" and fits: "block_fits r kvs"
    and "left \<le> right" "right < restart_count r (length kvs)" "left = 0 \<or> Compare (fst (kvs ! (left * r))) target < 0"
  shows "\<exists>l. Seek_loop Compare it target left right = Some (Inr l) \<and> l < restart_count r (length kvs)
    \<and> (l = 0 \<or> Compare (fst (kvs ! (l * r))) target < 0)"
  using assms(3-)
proof (induction "right - left" arbitrary: left right rule: less_induct)
  case less
  show ?case
  proof (cases "left < right")
    case False
    then show ?thesis using less.prems by (subst Seek_loop.simps) auto
  next
    case True
    define mid where "mid = (left + right + 1) div 2"
    have m: "left < mid" "mid \<le> right" "((left + right + 1) mod 2 ^ 32) div 2 = mid"
      using True less.prems(2) restart_count_bound [OF fits] by (auto simp: mid_def)
    obtain w2 w3 q where d: "DecodeEntry (bi_data it) (GetRestartPoint it mid) (bi_restarts it) = Some (0, w2, w3, q)"
      "q + unat w2 \<le> length (bi_data it)" "take (unat w2) (drop q (bi_data it)) = fst (kvs ! (mid * r))"
      using restart_mid_key(1) [OF base fits, of mid] m less.prems(2) by auto
    have step: "Seek_loop Compare it target left right =
        (if Compare (fst (kvs ! (mid * r))) target < 0 then Seek_loop Compare it target mid right else Seek_loop Compare it target left (mid - 1))"
      using True d by (subst Seek_loop.simps) (simp add: m(3) [simplified] Let_def)
    show ?thesis
    proof (cases "Compare (fst (kvs ! (mid * r))) target < 0")
      case lower: True
      have "right - mid < right - left" using m by linarith
      from less.hyps [OF this] m less.prems lower show ?thesis unfolding step by simp
    next
      case False
      have "mid - 1 - left < right - left" using m by linarith
      from less.hyps [OF this] m less.prems False show ?thesis unfolding step by simp
    qed
  qed
qed

lemma Seek_pos:
  assumes base: "iter_base r kvs it" and fits: "block_fits r kvs" and sorted: "sorted_entries Compare valid kvs" and target: "valid target"
  shows "\<exists>it'. BlockIter_Seek Compare it target = Some it' \<and> iter_pos r kvs (entries_below Compare target kvs) it'"
proof -
  have n: "bi_num_restarts it = restart_count r (length kvs)" "0 < restart_count r (length kvs)"
    using base by (simp_all add: iter_base_def restart_count_def)
  obtain l where l: "Seek_loop Compare it target 0 (bi_num_restarts it - 1) = Some (Inr l)" "l < restart_count r (length kvs)"
      "l = 0 \<or> Compare (fst (kvs ! (l * r))) target < 0"
    using Seek_loop_pos [OF base fits, of 0 "bi_num_restarts it - 1" target] n by auto
  have "Compare (fst (kvs ! j)) target < 0" if "j < l * r" for j
  proof -
    have "0 < l" using that by (cases l) auto
    then have lt: "l * r < length kvs" "Compare (fst (kvs ! (l * r))) target < 0" using restart_mid_key(2) [OF base fits l(2)] l(3) by auto
    have "Compare (fst (kvs ! j)) (fst (kvs ! (l * r))) < 0" using sorted that lt(1) by (simp add: sorted_entries_def sorted_wrt_iff_nth_less)
    moreover have "valid (fst (kvs ! j))" "valid (fst (kvs ! (l * r)))" using sorted that lt(1) by (auto simp: sorted_entries_def)
    ultimately show ?thesis using less_trans target lt(2) by blast
  qed
  from Seek_scan_pos [OF before_restart [OF base fits l(2)] fits this] show ?thesis unfolding BlockIter_Seek_def l(1) by simp
qed

end

section \<open>From the builder to the iterator\<close>

lemma block_iterator:
  assumes "block_fits r kvs"
  shows "\<exists>it. Block_NewIterator (Block_init (block_bytes r kvs)) = EntryIterator it \<and> at_end r kvs it"
proof -
  let ?B = "block_bytes r kvs" and ?c = "restart_count r (length kvs)"
  note len = block_bytes_length [of r kvs]
  have c: "0 < ?c" "?c < 2 ^ 30" using restart_count_bound [OF assms] by (simp_all add: restart_count_def)
  have "drop (length ?B - 4) ?B = EncodeFixed32 (word_of_nat ?c)"
    unfolding len by (simp add: block_bytes_def restart_list_length offs_def EncodeFixed32_def del: length_concat)
  then have num: "NumRestarts ?B (length ?B) = ?c"
    using DecodeFixed32_bytes [of "word_of_nat ?c" "[]"] c(2) by (simp add: NumRestarts_def unat_of_nat)
  have "offs r kvs (length kvs) < 2 ^ 32" using offs_bound [OF assms] by simp
  moreover have "(1 + ?c) mod 2 ^ 32 = 1 + ?c" using c by simp
  ultimately have "Block_init ?B = \<lparr>blk_data = ?B, blk_size = length ?B, blk_restart_offset = offs r kvs (length kvs)\<rparr>"
    using len unfolding Block_init_def Let_def num by simp
  then show ?thesis
    using num c(1) len by (simp add: Block_NewIterator_def BlockIter_init_def at_end_def iter_base_def Let_def)
qed

fun build_block :: "BlockBuilder \<Rightarrow> (slice \<times> slice) list \<Rightarrow> BlockBuilder" where
  "build_block bb [] = bb"
| "build_block bb ((k, v) # kvs) = build_block (BlockBuilder_Add bb k v) kvs"

lemma build_block_rep: "bb_rep r bb kvs \<Longrightarrow> 0 < r \<Longrightarrow> bb_rep r (build_block bb kvs') (kvs @ kvs')"
proof (induction kvs' arbitrary: bb kvs)
  case (Cons kv kvs')
  obtain k v where "kv = (k, v)" by (cases kv)
  then show ?case using Cons.IH [OF bb_rep_Add [OF Cons.prems]] Cons.prems(2) by simp
qed simp

section \<open>Properties\<close>

definition goes_to :: "nat \<Rightarrow> (slice \<times> slice) list \<Rightarrow> nat \<Rightarrow> BlockIter option \<Rightarrow> bool" where
  "goes_to r kvs i result \<longleftrightarrow> (\<exists>it. result = Some it \<and> iter_pos r kvs i it)"

lemma iter_pos_shows:
  assumes "iter_pos r kvs i it"
  shows "BlockIter_Valid it \<longleftrightarrow> i < length kvs" "bi_status it = OK"
    "i < length kvs \<Longrightarrow> bi_key it = fst (kvs ! i) \<and> BlockIter_value it = snd (kvs ! i)"
  using assms offs_less_iff [of r kvs i "length kvs"]
  by (auto simp: iter_pos_def at_entry_def at_end_def before_def iter_base_def BlockIter_Valid_def split: if_splits)

lemma block_moves:
  assumes "iter_pos r kvs i it" "block_fits r kvs"
  shows "i < length kvs \<Longrightarrow> goes_to r kvs (i + 1) (BlockIter_Next it)"
    "i < length kvs \<Longrightarrow> goes_to r kvs (if i = 0 then length kvs else i - 1) (BlockIter_Prev it)"
    "goes_to r kvs 0 (BlockIter_SeekToFirst it)" "goes_to r kvs (length kvs - 1) (BlockIter_SeekToLast it)"
    "sorted_entries (InternalKey_Compare Bytewise_Compare) (internal_valid (\<lambda>_. True)) kvs \<Longrightarrow> 8 \<le> length target \<Longrightarrow>
       goes_to r kvs (entries_below (InternalKey_Compare Bytewise_Compare) target kvs) (BlockIter_Seek (InternalKey_Compare Bytewise_Compare) it target)"
proof -
  have base: "iter_base r kvs it" using assms(1) at_entry_base by (auto simp: iter_pos_def at_end_def split: if_splits)
  show "i < length kvs \<Longrightarrow> goes_to r kvs (i + 1) (BlockIter_Next it)" using Next_pos [OF _ assms(2)] assms(1) by (simp add: goes_to_def iter_pos_def)
  show "goes_to r kvs (if i = 0 then length kvs else i - 1) (BlockIter_Prev it)" if "i < length kvs"
  proof -
    have "at_entry r kvs i it" using assms(1) that by (simp add: iter_pos_def)
    from Prev_pos [OF this assms(2)] that show ?thesis by (cases "i = 0") (auto simp: goes_to_def iter_pos_def)
  qed
  show "goes_to r kvs 0 (BlockIter_SeekToFirst it)" "goes_to r kvs (length kvs - 1) (BlockIter_SeekToLast it)"
    using SeekToFirst_pos [OF base assms(2)] SeekToLast_pos [OF base assms(2)] by (simp_all add: goes_to_def)
  show "sorted_entries (InternalKey_Compare Bytewise_Compare) (internal_valid (\<lambda>_. True)) kvs \<Longrightarrow> 8 \<le> length target \<Longrightarrow>
       goes_to r kvs (entries_below (InternalKey_Compare Bytewise_Compare) target kvs) (BlockIter_Seek (InternalKey_Compare Bytewise_Compare) it target)"
    using internal_bytewise.Seek_pos [OF base assms(2)] by (simp add: goes_to_def internal_valid_def)
qed

text \<open>
  C30. A block the builder made of a sorted list of entries gives an iterator that stands for a position in
  this list: \<^verbatim>\<open>SeekToFirst\<close> and \<^verbatim>\<open>SeekToLast\<close> go to its ends, \<^verbatim>\<open>Next\<close> and \<^verbatim>\<open>Prev\<close> to the neighbours, past the end
  when there is none, and \<^verbatim>\<open>Seek\<close> to the first entry whose key is not below the target. At an entry the
  iterator shows its key and value, although keys are stored without the prefix they share.
\<close>

theorem block_iterator_refines:
  assumes "0 < r" "block = fst (BlockBuilder_Finish (build_block (BlockBuilder_init r) kvs))" "length block < 2 ^ 32"
    "\<forall>kv\<in>set kvs. length (fst kv) < 2 ^ 32"
    "sorted_entries (InternalKey_Compare Bytewise_Compare) (internal_valid (\<lambda>_. True)) kvs"
  shows "(\<exists>it. Block_NewIterator (Block_init block) = EntryIterator it \<and> iter_pos r kvs (length kvs) it)
    \<and> (\<forall>i it. iter_pos r kvs i it \<longrightarrow>
         (BlockIter_Valid it \<longleftrightarrow> i < length kvs) \<and> bi_status it = OK
         \<and> (i < length kvs \<longrightarrow> bi_key it = fst (kvs ! i) \<and> BlockIter_value it = snd (kvs ! i)
              \<and> goes_to r kvs (i + 1) (BlockIter_Next it)
              \<and> goes_to r kvs (if i = 0 then length kvs else i - 1) (BlockIter_Prev it))
         \<and> goes_to r kvs 0 (BlockIter_SeekToFirst it) \<and> goes_to r kvs (length kvs - 1) (BlockIter_SeekToLast it)
         \<and> (\<forall>target. 8 \<le> length target \<longrightarrow>
              goes_to r kvs (entries_below (InternalKey_Compare Bytewise_Compare) target kvs)
                (BlockIter_Seek (InternalKey_Compare Bytewise_Compare) it target)))"
proof -
  have "block = block_bytes r kvs"
    using bb_rep_Finish [OF build_block_rep [OF bb_rep_init assms(1)]] assms(2) by simp
  then have fits: "block_fits r kvs" and b: "block = block_bytes r kvs" using assms(1,3,4) by (simp_all add: block_fits_def)
  then show ?thesis
    using block_iterator [OF fits] block_moves [OF _ fits] iter_pos_shows assms(5) unfolding b by (simp add: iter_pos_def [of r kvs "length kvs"])
qed

theorem block_iterator_refines_witness:
  "\<exists>it. Block_NewIterator (Block_init (fst (BlockBuilder_Finish (build_block (BlockBuilder_init 16)
       [(PutFixed64 [97, 97] 257, [1]), (PutFixed64 [97, 98] 513, [2, 3])])))) = EntryIterator it
     \<and> goes_to 16 [(PutFixed64 [97, 97] 257, [1]), (PutFixed64 [97, 98] 513, [2, 3])] 0 (BlockIter_SeekToFirst it)"
proof -
  let ?kvs = "[(PutFixed64 [97, 97] 257, [1]), (PutFixed64 [97, 98] 513, [2, 3])]"
  have "fst (BlockBuilder_Finish (build_block (BlockBuilder_init 16) ?kvs)) = block_bytes 16 ?kvs"
    using bb_rep_Finish [OF build_block_rep [OF bb_rep_init [of 16], of ?kvs]] by simp
  moreover have "offs 16 ?kvs (Suc (Suc 0)) < 60"
    using entry_enc_length_le [of 16 ?kvs 0] entry_enc_length_le [of 16 ?kvs 1] by (simp add: offs_Suc)
  ultimately have "length (fst (BlockBuilder_Finish (build_block (BlockBuilder_init 16) ?kvs))) < 2 ^ 32"
    by (simp add: block_bytes_length restart_count_def)
  moreover have "sorted_entries (InternalKey_Compare Bytewise_Compare) (internal_valid (\<lambda>_. True)) ?kvs"
    by (simp add: sorted_entries_def InternalKey_Compare_alt Bytewise_Compare_lex internal_valid_def)
  ultimately show ?thesis
    using block_iterator_refines [of 16 _ ?kvs, OF _ refl] by fastforce
qed

text \<open>
  The bounds check of \<^verbatim>\<open>DecodeEntry\<close> adds the two lengths in 32 bits: a block whose only entry claims a key
  of \<open>2 ^ 32 - 1\<close> bytes and a value of 2 is accepted, and reading its first entry takes the key from
  outside the block.
\<close>

theorem block_entry_overflow:
  "\<exists>it. Block_NewIterator (Block_init [0, 255, 255, 255, 255, 15, 2, 97, 0, 0, 0, 0, 1, 0, 0, 0]) = EntryIterator it
     \<and> DecodeEntry (bi_data it) 0 (bi_restarts it) = Some (0, 4294967295, 2, 7)
     \<and> BlockIter_SeekToFirst it = None"
proof -
  let ?B = "[0, 255, 255, 255, 255, 15, 2, 97, 0, 0, 0, 0, 1, 0, 0, 0] :: byte list"
  have dec: "DecodeEntry ?B 0 8 = Some (0, 4294967295, 2, 7)" by code_simp
  have "Block_NewIterator (Block_init ?B) = EntryIterator (BlockIter_init ?B 8 1)"
    by (simp add: Block_NewIterator_def Block_init_def NumRestarts_def DecodeFixed32_def Let_def)
  moreover have "BlockIter_SeekToFirst (BlockIter_init ?B 8 1) = None"
    by (simp add: BlockIter_SeekToFirst_def BlockIter_init_def SeekToRestartPoint_def GetRestartPoint_def
        DecodeFixed32_def ParseNextKey_def NextEntryOffset_def dec)
  ultimately show ?thesis using dec by (simp add: BlockIter_init_def)
qed

end
