(* ===== verification/Ldb_Table_Build.thy ===== *)
theory Ldb_Table_Build
  imports Ldb_Table_Format Ldb_Block_Props
begin

text \<open>
  What the builder writes. The entries added so far are the data blocks \<open>bs\<close> in the file and the entries \<open>cur\<close> of
  the block that is being filled; \<open>table_inv\<close> relates them to the state of the builder, as long as no
  operation on the file has failed.
\<close>

section \<open>The layout of a table\<close>

definition data_bytes :: "nat \<Rightarrow> (slice \<times> slice) list list \<Rightarrow> byte list" where
  "data_bytes r bs = concat (map (\<lambda>b. stored (block_bytes r b)) bs)"

definition handle_of :: "nat \<Rightarrow> (slice \<times> slice) list list \<Rightarrow> nat \<Rightarrow> BlockHandle" where
  "handle_of r bs i =
     \<lparr>bh_offset = word_of_nat (length (data_bytes r (take i bs))), bh_size = word_of_nat (length (block_bytes r (bs ! i)))\<rparr>"

definition index_entry :: "nat \<Rightarrow> (slice \<times> slice) list list \<Rightarrow> nat \<Rightarrow> slice \<Rightarrow> slice \<times> slice" where
  "index_entry r bs i key = (key, BlockHandle_EncodeTo (handle_of r bs i) [])"

definition separators :: "Options \<Rightarrow> nat \<Rightarrow> (slice \<times> slice) list list \<Rightarrow> (slice \<times> slice) list" where
  "separators opts r bs =
     map (\<lambda>i. index_entry r bs i (op_FindShortestSeparator opts (fst (last (bs ! i))) (fst (hd (bs ! Suc i))))) [0..<length bs - 1]"

definition index_entries :: "Options \<Rightarrow> nat \<Rightarrow> (slice \<times> slice) list list \<Rightarrow> (slice \<times> slice) list" where
  "index_entries opts r bs =
     separators opts r bs
     @ (if bs = [] then [] else [index_entry r bs (length bs - 1) (op_FindShortSuccessor opts (fst (last (last bs))))])"

definition with_cur :: "(slice \<times> slice) list list \<Rightarrow> (slice \<times> slice) list \<Rightarrow> (slice \<times> slice) list list" where
  "with_cur bs cur = bs @ (if cur = [] then [] else [cur])"

lemma data_bytes_snoc: "data_bytes r (bs @ [b]) = data_bytes r bs @ stored (block_bytes r b)"
  by (simp add: data_bytes_def)

lemma handle_of_append: "i < length bs \<Longrightarrow> handle_of r (bs @ xs) i = handle_of r bs i"
  by (simp add: handle_of_def nth_append)

lemma separators_snoc:
  assumes "bs \<noteq> []" "b \<noteq> []"
  shows "separators opts r (bs @ [b]) =
    separators opts r bs @ [index_entry r bs (length bs - 1) (op_FindShortestSeparator opts (fst (last (last bs))) (fst (hd b)))]"
proof -
  obtain n where n: "length bs = Suc n" using assms(1) by (cases bs) auto
  have "map (\<lambda>i. index_entry r (bs @ [b]) i (op_FindShortestSeparator opts (fst (last ((bs @ [b]) ! i))) (fst (hd ((bs @ [b]) ! Suc i))))) [0..<n]
      = separators opts r bs"
    unfolding separators_def n by (rule map_cong) (auto simp: nth_append handle_of_append n index_entry_def)
  moreover have "last bs = bs ! n" using assms(1) n by (simp add: last_conv_nth)
  ultimately show ?thesis unfolding separators_def [of opts r "bs @ [b]"] by (simp add: n nth_append handle_of_append index_entry_def)
qed

lemma separators_cur:
  assumes "cur \<noteq> []"
  shows "separators opts r (bs @ [cur @ [kv]]) = separators opts r (bs @ [cur])"
  by (cases "bs = []") (use assms in \<open>simp_all add: separators_snoc, simp add: separators_def\<close>)

lemma last_concat_blocks:
  assumes "bs \<noteq> []" "\<forall>b\<in>set bs. b \<noteq> []"
  shows "concat bs \<noteq> [] \<and> last (concat bs) = last (last bs)"
proof -
  have "last bs \<noteq> []" using assms last_in_set by blast
  moreover have "concat bs = concat (butlast bs) @ last bs" using assms(1) by (metis append_butlast_last_id concat.simps concat_append append_Nil2)
  ultimately show ?thesis by simp
qed

section \<open>The filter block\<close>

definition covers :: "nat \<Rightarrow> (slice \<times> slice) list list \<Rightarrow> (slice \<times> slice) list \<Rightarrow> slice list list \<Rightarrow> slice list \<Rightarrow> bool" where
  "covers r bs cur gs ps \<longleftrightarrow>
     length gs = length (data_bytes r bs) div kFilterBase \<and> fst ` set cur \<subseteq> set ps
     \<and> concat gs @ ps = map fst (concat bs @ cur)
     \<and> (\<forall>i<length bs. fst ` set (bs ! i) \<subseteq> set ((gs @ [ps]) ! (length (data_bytes r (take i bs)) div kFilterBase)))"

definition filter_ok :: "nat \<Rightarrow> 'f TableBuilder \<Rightarrow> (slice \<times> slice) list list \<Rightarrow> (slice \<times> slice) list \<Rightarrow> bool" where
  "filter_ok r tb bs cur \<longleftrightarrow>
     (case op_filter_policy (tb_options tb) of
        None \<Rightarrow> tb_filter_block tb = None
      | Some p \<Rightarrow> length (data_bytes r bs) < 2 ^ 63 \<longrightarrow>
          (\<exists>fb gs ps. tb_filter_block tb = Some (p, fb) \<and> fb_rep (fp_CreateFilter p) fb gs ps \<and> covers r bs cur gs ps))"

lemma data_bytes_mono: "i \<le> j \<Longrightarrow> length (data_bytes r (take i bs)) \<le> length (data_bytes r (take j bs))"
proof -
  assume "i \<le> j"
  then have "take j bs = take i bs @ drop i (take j bs)" by (metis append_take_drop_id min.absorb1 take_take)
  then have "data_bytes r (take j bs) = data_bytes r (take i bs) @ data_bytes r (drop i (take j bs))" by (metis concat_append data_bytes_def map_append)
  then show ?thesis by simp
qed

lemma covers_index:
  assumes "covers r bs cur gs ps" "i \<le> length bs"
  shows "length (data_bytes r (take i bs)) div kFilterBase \<le> length gs"
  using assms(1) data_bytes_mono [OF assms(2), of r bs] by (simp add: covers_def div_le_mono)

lemma covers_AddKey:
  assumes "covers r bs cur gs ps"
  shows "covers r bs (cur @ [(k, v)]) gs (ps @ [k])"
proof -
  have "set ((gs @ [ps]) ! j) \<subseteq> set ((gs @ [ps @ [k]]) ! j)" if "j \<le> length gs" for j
    using that by (cases "j = length gs") (auto simp: nth_append)
  then have "set ((gs @ [ps]) ! (length (data_bytes r (take i bs)) div kFilterBase))
      \<subseteq> set ((gs @ [ps @ [k]]) ! (length (data_bytes r (take i bs)) div kFilterBase))" if "i < length bs" for i
    using covers_index [OF assms less_imp_le [OF that]] by blast
  then have "fst ` set (bs ! i) \<subseteq> set ((gs @ [ps @ [k]]) ! (length (data_bytes r (take i bs)) div kFilterBase))" if "i < length bs" for i
    using assms that unfolding covers_def by (meson subset_trans)
  moreover have "fst ` set (cur @ [(k, v)]) \<subseteq> set (ps @ [k])" using assms by (auto simp: covers_def)
  moreover have "concat gs @ ps @ [k] = map fst (concat bs @ cur @ [(k, v)])" using assms by (simp add: covers_def)
  ultimately show ?thesis using assms unfolding covers_def by blast
qed

lemma covers_StartBlock:
  assumes "covers r bs cur gs ps"
  defines "n \<equiv> length (data_bytes r (bs @ [cur])) div kFilterBase"
  shows "length gs \<le> n"
    "covers r (bs @ [cur]) [] (if length gs < n then gs @ ps # replicate (n - length gs - 1) [] else gs) (if length gs < n then [] else ps)"
proof -
  have "length (data_bytes r bs) \<le> length (data_bytes r (bs @ [cur]))" by (simp add: data_bytes_snoc)
  then show le: "length gs \<le> n" using assms(1) unfolding n_def covers_def by (simp add: div_le_mono)
  let ?gs = "if length gs < n then gs @ ps # replicate (n - length gs - 1) [] else gs" and ?ps = "if length gs < n then [] else ps"
  have same: "(?gs @ [?ps]) ! j = (gs @ [ps]) ! j" if "j \<le> length gs" for j
    using that by (auto simp: nth_append)
  note idx = covers_index [OF assms(1)]
  have "fst ` set ((bs @ [cur]) ! i) \<subseteq> set ((?gs @ [?ps]) ! (length (data_bytes r (take i (bs @ [cur]))) div kFilterBase))"
    if "i < length (bs @ [cur])" for i
  proof (cases "i < length bs")
    case True
    then have b: "(bs @ [cur]) ! i = bs ! i" "take i (bs @ [cur]) = take i bs" by (simp_all add: nth_append)
    show ?thesis unfolding b same [OF idx [OF less_imp_le [OF True]]] using assms(1) True by (simp only: covers_def)
  next
    case False
    then have "i = length bs" using that by simp
    then have b: "(bs @ [cur]) ! i = cur" "take i (bs @ [cur]) = bs" "length (data_bytes r bs) div kFilterBase = length gs"
      using assms(1) by (simp_all add: covers_def)
    have "(gs @ [ps]) ! length gs = ps" by simp
    then show ?thesis unfolding b same [OF order_refl] using assms(1) by (simp only: covers_def)
  qed
  moreover have "length ?gs = n" using le by auto
  moreover have "concat ?gs @ ?ps = map fst (concat (bs @ [cur]) @ [])"
    using assms(1) by (simp add: covers_def concat_replicate_trivial)
  ultimately show "covers r (bs @ [cur]) [] ?gs ?ps" unfolding covers_def n_def [symmetric] by simp
qed

section \<open>The invariant\<close>

definition table_inv :: "('f \<Rightarrow> byte list) \<Rightarrow> Options \<Rightarrow> 'f TableBuilder \<Rightarrow> (slice \<times> slice) list list \<Rightarrow> (slice \<times> slice) list \<Rightarrow> bool" where
  "table_inv contents opts tb bs cur \<longleftrightarrow>
     (let r = op_block_restart_interval opts in
      tb_options tb = opts \<and> tb_status tb = OK \<and> (\<forall>b\<in>set bs. b \<noteq> [])
      \<and> contents (tb_file tb) = data_bytes r bs \<and> tb_offset tb = word_of_nat (length (data_bytes r bs))
      \<and> bb_rep r (tb_data_block tb) cur \<and> bb_rep 1 (tb_index_block tb) (separators opts r (with_cur bs cur))
      \<and> (tb_pending_index_entry tb \<longleftrightarrow> bs \<noteq> [] \<and> cur = [])
      \<and> (bs \<noteq> [] \<and> cur = [] \<longrightarrow> tb_pending_handle tb = handle_of r bs (length bs - 1))
      \<and> (concat bs @ cur \<noteq> [] \<longrightarrow> tb_last_key tb = fst (last (concat bs @ cur)))
      \<and> filter_ok r tb bs cur)"

fun TableBuilder_adds :: "'f WritableFile \<Rightarrow> (slice \<Rightarrow> nat) \<Rightarrow> (slice \<times> slice) list \<Rightarrow> 'f TableBuilder \<Rightarrow> 'f TableBuilder option" where
  "TableBuilder_adds dest addr_of [] tb = Some tb"
| "TableBuilder_adds dest addr_of ((k, v) # kvs) tb =
     (case TableBuilder_Add dest addr_of k v tb of None \<Rightarrow> None | Some tb \<Rightarrow> TableBuilder_adds dest addr_of kvs tb)"

section \<open>The finished file\<close>

definition filters_cover :: "nat \<Rightarrow> (slice \<times> slice) list list \<Rightarrow> slice list list \<Rightarrow> bool" where
  "filters_cover r bs gs \<longleftrightarrow>
     concat gs = map fst (concat bs)
     \<and> (\<forall>i<length bs. \<forall>kv\<in>set (bs ! i). let j = length (data_bytes r (take i bs)) div kFilterBase in j < length gs \<and> fst kv \<in> set (gs ! j))"

definition block_at :: "byte list \<Rightarrow> byte list \<Rightarrow> BlockHandle" where
  "block_at pre raw = \<lparr>bh_offset = word_of_nat (length pre), bh_size = word_of_nat (length raw)\<rparr>"

definition filter_part :: "Options \<Rightarrow> (slice \<times> slice) list list \<Rightarrow> byte list \<Rightarrow> (slice \<times> slice) list \<Rightarrow> bool" where
  "filter_part opts bs flt meta \<longleftrightarrow>
     (let r = op_block_restart_interval opts in
      case op_filter_policy opts of
        None \<Rightarrow> flt = [] \<and> meta = []
      | Some p \<Rightarrow> \<exists>gs. (length (data_bytes r bs) < 2 ^ 63 \<longrightarrow> filters_cover r bs gs) \<and> flt = stored (filter_block_bytes (fp_CreateFilter p) gs)
          \<and> meta = [(filter_prefix @ fp_Name p, BlockHandle_EncodeTo (block_at (data_bytes r bs) (filter_block_bytes (fp_CreateFilter p) gs)) [])])"

definition table_layout :: "Options \<Rightarrow> (slice \<times> slice) list list \<Rightarrow> byte list \<Rightarrow> bool" where
  "table_layout opts bs bytes \<longleftrightarrow>
     (let r = op_block_restart_interval opts; D = data_bytes r bs; index = block_bytes 1 (index_entries opts r bs) in
      \<exists>flt meta. filter_part opts bs flt meta
        \<and> bytes = D @ flt @ stored (block_bytes r meta) @ stored index
            @ Footer_EncodeTo \<lparr>ft_metaindex_handle = block_at (D @ flt) (block_bytes r meta),
                              ft_index_handle = block_at (D @ flt @ stored (block_bytes r meta)) index\<rparr> [])"

lemma covers_final:
  assumes "covers r bs [] gs ps"
  shows "filters_cover r bs (if ps = [] then gs else gs @ [ps])"
  unfolding filters_cover_def Let_def
proof (intro conjI allI impI ballI)
  show "concat (if ps = [] then gs else gs @ [ps]) = map fst (concat bs)" using assms by (auto simp: covers_def)
next
  fix i kv
  assume i: "i < length bs" and kv: "kv \<in> set (bs ! i)"
  let ?j = "length (data_bytes r (take i bs)) div kFilterBase"
  have j: "?j \<le> length gs" "fst kv \<in> set ((gs @ [ps]) ! ?j)"
    using covers_index [OF assms less_imp_le [OF i]] assms i kv unfolding covers_def by auto
  then show "?j < length (if ps = [] then gs else gs @ [ps])" "fst kv \<in> set ((if ps = [] then gs else gs @ [ps]) ! ?j)"
    by (cases "?j = length gs"; auto simp: nth_append)+
qed

section \<open>Writing blocks\<close>

context writable_file
begin

lemma WriteRawBlock_OK:
  assumes "WriteRawBlock (dest_file append flush) addr_of raw kNoCompression tb = Some (h, tb')" "tb_status tb' = OK"
  shows "h = \<lparr>bh_offset = tb_offset tb, bh_size = word_of_nat (length raw)\<rparr>
    \<and> (\<exists>f. contents f = contents (tb_file tb) @ stored raw
         \<and> tb' = tb\<lparr>tb_status := OK, tb_file := f, tb_offset := tb_offset tb + word_of_nat (length (stored raw))\<rparr>)"
proof -
  obtain s1 f1 where 1: "append raw (tb_file tb) = Some (s1, f1)"
    using assms(1) by (auto simp: WriteRawBlock_def dest_file_def Let_def bind_eq_Some_conv)
  have "s1 = OK" using assms 1 by (auto simp: WriteRawBlock_def dest_file_def Let_def Status_ok_def split: if_splits)
  moreover have crc: "crc32c_Extend a (crc32c_Value a' raw) [0] = crc32c_ref 0 (raw @ [0])" for a a'
    by (simp add: crc32c_Value_def crc32c_Extend_eq crc32c_ref_append)
  ultimately obtain f2 where 2: "append (0 # EncodeFixed32 (crc32c_Mask (crc32c_ref 0 (raw @ [0])))) f1 = Some (OK, f2)"
      "h = \<lparr>bh_offset = tb_offset tb, bh_size = word_of_nat (length raw)\<rparr>"
      "tb' = tb\<lparr>tb_status := OK, tb_file := f2, tb_offset := tb_offset tb + word_of_nat (length raw + kBlockTrailerSize)\<rparr>"
    using assms 1 by (auto simp: WriteRawBlock_def dest_file_def Let_def bind_eq_Some_conv Status_ok_def split: if_splits)
  have "contents f2 = contents (tb_file tb) @ stored raw"
    using append_ok [OF 2(1)] append_ok [OF 1 [unfolded \<open>s1 = OK\<close>]] by (simp add: stored_def)
  then show ?thesis using 2 by (auto simp: stored_length)
qed

lemma WriteBlock_OK:
  assumes "WriteBlock (dest_file append flush) addr_of bb tb = Some (h, bb', tb')" "tb_status tb' = OK" "bb_rep r bb kvs"
  shows "h = \<lparr>bh_offset = tb_offset tb, bh_size = word_of_nat (length (block_bytes r kvs))\<rparr> \<and> bb_rep r bb' []
    \<and> (\<exists>f. contents f = contents (tb_file tb) @ stored (block_bytes r kvs)
         \<and> tb' = tb\<lparr>tb_status := OK, tb_file := f, tb_offset := tb_offset tb + word_of_nat (length (stored (block_bytes r kvs)))\<rparr>)"
proof -
  obtain raw bb1 where fin: "BlockBuilder_Finish bb = (raw, bb1)" by (metis surj_pair)
  then have raw: "raw = block_bytes r kvs" "bb_restart_interval bb1 = r"
    using bb_rep_Finish [OF assms(3)] assms(3) by (auto simp: BlockBuilder_Finish_def Let_def bb_rep_def)
  have "compress_block type raw = (raw, kNoCompression)" for type
    by (cases type) (simp_all add: compress_block_def Snappy_Compress_def)
  then have "WriteRawBlock (dest_file append flush) addr_of raw kNoCompression tb = Some (h, tb')" "bb' = BlockBuilder_Reset bb1"
    using assms(1) by (auto simp: WriteBlock_def fin bind_eq_Some_conv)
  from WriteRawBlock_OK [OF this(1) assms(2)] bb_rep_Reset [OF raw(2)] this(2) show ?thesis by (simp add: raw(1))
qed

section \<open>The operations\<close>

lemma table_inv_init:
  assumes "contents f = []"
  shows "table_inv contents opts (TableBuilder_init opts f) [] []"
proof -
  let ?r = "op_block_restart_interval opts"
  have "filter_ok ?r (TableBuilder_init opts f) [] []"
  proof (cases "op_filter_policy opts")
    case (Some p)
    have "fb_rep (fp_CreateFilter p) (StartBlock (fp_CreateFilter p) 0 FilterBlockBuilder_init) [] []"
      using fb_rep_StartBlock [OF fb_rep_init, of 0] by simp
    then show ?thesis
      using Some by (auto simp: filter_ok_def TableBuilder_init_def with_filter_def covers_def data_bytes_def)
  qed (simp add: filter_ok_def TableBuilder_init_def with_filter_def)
  moreover have "with_filter call tb = tb\<lparr>tb_filter_block := tb_filter_block (with_filter call tb)\<rparr>" for call and tb :: "'f TableBuilder"
    by (simp add: with_filter_def split: option.split)
  ultimately show ?thesis
    using assms bb_rep_init by (simp add: table_inv_def Let_def TableBuilder_init_def with_filter_def data_bytes_def separators_def with_cur_def split: option.splits)
qed

lemma filter_ok_flush:
  assumes "filter_ok r tb bs cur" "tb_options tb' = tb_options tb" "tb_filter_block tb' = tb_filter_block tb"
    "tb_offset tb' = word_of_nat (length (data_bytes r (bs @ [cur])))"
  shows "filter_ok r (with_filter (\<lambda>create. StartBlock create (unat (tb_offset tb'))) tb') (bs @ [cur]) []"
proof (cases "op_filter_policy (tb_options tb)")
  case None
  then show ?thesis using assms by (simp add: filter_ok_def with_filter_def split: option.split)
next
  case (Some p)
  show ?thesis
  proof (cases "length (data_bytes r (bs @ [cur])) < 2 ^ 63")
    case small: True
    let ?n = "length (data_bytes r (bs @ [cur])) div kFilterBase"
    have "length (data_bytes r bs) < 2 ^ 63" using small by (simp add: data_bytes_snoc)
    then obtain fb gs ps where fb: "tb_filter_block tb = Some (p, fb)" "fb_rep (fp_CreateFilter p) fb gs ps" "covers r bs cur gs ps"
      using assms(1) Some by (auto simp: filter_ok_def)
    have off: "unat (tb_offset tb') = length (data_bytes r (bs @ [cur]))" using small assms(4) by (simp add: unat_of_nat)
    note st = covers_StartBlock [OF fb(3)]
    show ?thesis
      using fb_rep_StartBlock [OF fb(2) st(1)] st(2) fb(1) Some assms(2,3) small
      unfolding filter_ok_def with_filter_def off by fastforce
  next
    case False
    then show ?thesis using Some assms(2) by (simp add: filter_ok_def with_filter_def split: option.split)
  qed
qed

lemma with_filter_fields [simp]:
  "tb_options (with_filter call tb) = tb_options tb" "tb_status (with_filter call tb) = tb_status tb" "tb_file (with_filter call tb) = tb_file tb"
  "tb_offset (with_filter call tb) = tb_offset tb" "tb_data_block (with_filter call tb) = tb_data_block tb"
  "tb_index_block (with_filter call tb) = tb_index_block tb" "tb_pending_index_entry (with_filter call tb) = tb_pending_index_entry tb"
  "tb_pending_handle (with_filter call tb) = tb_pending_handle tb" "tb_last_key (with_filter call tb) = tb_last_key tb"
  by (simp_all add: with_filter_def split: option.split)

lemma Flush_OK:
  assumes "TableBuilder_Flush (dest_file append flush) addr_of tb = Some tb'" "tb_status tb' = OK" "table_inv contents opts tb bs cur"
  shows "table_inv contents opts tb' (with_cur bs cur) []"
proof (cases "cur = []")
  case True
  then have "bb_buffer (tb_data_block tb) = []" using assms(3) by (simp add: table_inv_def Let_def bb_rep_def entries_upto_def)
  then show ?thesis using assms True by (auto simp: TableBuilder_Flush_def with_cur_def split: if_splits)
next
  case False
  let ?r = "op_block_restart_interval opts"
  have inv: "tb_options tb = opts" "tb_status tb = OK" "\<forall>b\<in>set bs. b \<noteq> []" "contents (tb_file tb) = data_bytes ?r bs"
    "tb_offset tb = word_of_nat (length (data_bytes ?r bs))" "bb_rep ?r (tb_data_block tb) cur"
    "bb_rep 1 (tb_index_block tb) (separators opts ?r (bs @ [cur]))" "tb_last_key tb = fst (last cur)" "filter_ok ?r tb bs cur"
    using assms(3) False by (auto simp: table_inv_def Let_def with_cur_def)
  have "bb_buffer (tb_data_block tb) \<noteq> []"
    using inv(6) False offs_less_iff [of ?r cur 0 "length cur"] by (auto simp: bb_rep_def offs_def)
  then obtain h bb tb1 s f where
    w: "WriteBlock (dest_file append flush) addr_of (tb_data_block tb) tb = Some (h, bb, tb1)" and
    t: "tb_status tb1 = OK \<Longrightarrow> flush (tb_file tb1) = Some (s, f)"
       "tb' = (let tb2 = tb1\<lparr>tb_data_block := bb, tb_pending_handle := h\<rparr>;
                   tb3 = (if tb_status tb1 = OK then tb2\<lparr>tb_pending_index_entry := True, tb_status := s, tb_file := f\<rparr> else tb2)
               in with_filter (\<lambda>create. StartBlock create (unat (tb_offset tb3))) tb3)"
    using assms(1) inv(2) unfolding TableBuilder_Flush_def
    by (auto simp: dest_file_def Status_ok_def bind_eq_Some_conv Let_def split: if_splits)
  have ok1: "tb_status tb1 = OK" using t assms(2) by (auto simp: Let_def split: if_splits)
  note w1 = WriteBlock_OK [OF w ok1 inv(6)]
  have sf: "flush (tb_file tb1) = Some (OK, f)" "s = OK" using t ok1 assms(2) by (auto simp: Let_def)
  let ?tb3 = "tb1\<lparr>tb_data_block := bb, tb_pending_handle := h, tb_pending_index_entry := True, tb_status := OK, tb_file := f\<rparr>"
  have tb': "tb' = with_filter (\<lambda>create. StartBlock create (unat (tb_offset ?tb3))) ?tb3" using t(2) ok1 sf(2) by (simp add: Let_def)
  obtain f1 where f1: "contents f1 = contents (tb_file tb) @ stored (block_bytes ?r cur)"
      "tb1 = tb\<lparr>tb_status := OK, tb_file := f1, tb_offset := tb_offset tb + word_of_nat (length (stored (block_bytes ?r cur)))\<rparr>"
    using w1 by blast
  have "contents f = data_bytes ?r (bs @ [cur])" using flush_ok [OF sf(1)] f1 inv(4) by (simp add: data_bytes_snoc)
  moreover have off: "tb_offset ?tb3 = word_of_nat (length (data_bytes ?r (bs @ [cur])))" using inv(5) f1(2) by (simp add: data_bytes_snoc)
  moreover have "filter_ok ?r tb' (bs @ [cur]) []"
    unfolding tb' by (rule filter_ok_flush [OF inv(9) _ _ off]) (simp_all add: f1(2))
  moreover have "h = handle_of ?r (bs @ [cur]) (length bs)" using w1 inv(5) by (simp add: handle_of_def)
  ultimately show ?thesis
    using inv w1 False f1(2) unfolding table_inv_def Let_def tb' by (simp add: with_cur_def)
qed

lemma filter_ok_AddKey:
  assumes "filter_ok r tb bs cur" "tb_options tb' = tb_options tb" "tb_filter_block tb' = tb_filter_block tb"
  shows "filter_ok r (with_filter (\<lambda>_. FilterBlock_AddKey k) tb') bs (cur @ [(k, v)])"
  using assms fb_rep_AddKey covers_AddKey
  by (auto simp: filter_ok_def with_filter_def split: option.splits) blast

lemma filter_ok_cong:
  assumes "filter_ok r tb bs cur" "tb_options tb' = tb_options tb" "tb_filter_block tb' = tb_filter_block tb"
  shows "filter_ok r tb' bs cur"
  using assms(1) unfolding filter_ok_def assms(2,3) .

text \<open>An entry that is not flushed yet.\<close>

lemma table_inv_add:
  fixes k v :: slice
  assumes "table_inv contents opts tb bs cur" "0 < op_block_restart_interval opts"
  defines "tb1 \<equiv> (if tb_pending_index_entry tb then add_pending (op_FindShortestSeparator opts (tb_last_key tb) k) tb else tb)"
  defines "tb2 \<equiv> with_filter (\<lambda>_. FilterBlock_AddKey k) tb1"
  shows "table_inv contents opts (tb2\<lparr>tb_last_key := k, tb_num_entries := tb_num_entries tb2 + 1,
      tb_data_block := BlockBuilder_Add (tb_data_block tb2) k v\<rparr>) bs (cur @ [(k, v)])"
proof -
  let ?r = "op_block_restart_interval opts" and ?tb = "tb2\<lparr>tb_last_key := k, tb_num_entries := tb_num_entries tb2 + 1,
      tb_data_block := BlockBuilder_Add (tb_data_block tb2) k v\<rparr>"
  have inv: "tb_options tb = opts" "tb_status tb = OK" "\<forall>b\<in>set bs. b \<noteq> []" "contents (tb_file tb) = data_bytes ?r bs"
    "tb_offset tb = word_of_nat (length (data_bytes ?r bs))" "bb_rep ?r (tb_data_block tb) cur"
    "bb_rep 1 (tb_index_block tb) (separators opts ?r (with_cur bs cur))" "filter_ok ?r tb bs cur"
    "tb_pending_index_entry tb \<longleftrightarrow> bs \<noteq> [] \<and> cur = []"
    "bs \<noteq> [] \<and> cur = [] \<longrightarrow> tb_pending_handle tb = handle_of ?r bs (length bs - 1)"
    "concat bs @ cur \<noteq> [] \<longrightarrow> tb_last_key tb = fst (last (concat bs @ cur))"
    using assms(1) unfolding table_inv_def Let_def by blast+
  have same: "tb_options tb1 = opts" "tb_status tb1 = OK" "tb_file tb1 = tb_file tb" "tb_offset tb1 = tb_offset tb"
    "tb_data_block tb1 = tb_data_block tb" "tb_filter_block tb1 = tb_filter_block tb" "\<not> tb_pending_index_entry tb1"
    using inv(1,2) by (simp_all add: tb1_def add_pending_def)
  have "bb_rep 1 (tb_index_block tb1) (separators opts ?r (bs @ [cur @ [(k, v)]]))"
  proof (cases "bs \<noteq> [] \<and> cur = []")
    case True
    then have "concat bs \<noteq> []" "last (concat bs) = last (last bs)" using last_concat_blocks inv(3) by blast+
    then have "tb_last_key tb = fst (last (last bs))" using inv(11) True by simp
    then have "separators opts ?r (bs @ [[(k, v)]]) = separators opts ?r bs
        @ [(op_FindShortestSeparator opts (tb_last_key tb) k, BlockHandle_EncodeTo (tb_pending_handle tb) [])]"
      using True inv(10) by (simp add: separators_snoc index_entry_def)
    then show ?thesis
      using bb_rep_Add [OF inv(7)] True inv(9) by (simp add: tb1_def add_pending_def with_cur_def)
  next
    case False
    then have "separators opts ?r (bs @ [cur @ [(k, v)]]) = separators opts ?r (with_cur bs cur)"
      by (cases "cur = []") (auto simp: with_cur_def separators_cur, simp add: separators_def)
    then show ?thesis using inv(7,9) False by (simp add: tb1_def)
  qed
  moreover have "filter_ok ?r ?tb bs (cur @ [(k, v)])"
  proof (rule filter_ok_cong [of ?r tb2])
    show "filter_ok ?r tb2 bs (cur @ [(k, v)])" unfolding tb2_def by (rule filter_ok_AddKey [OF inv(8)]) (simp_all add: same inv(1))
  qed simp_all
  moreover have "bb_rep ?r (BlockBuilder_Add (tb_data_block tb) k v) (cur @ [(k, v)])" by (rule bb_rep_Add [OF inv(6) assms(2)])
  moreover have f: "tb_options ?tb = opts" "tb_status ?tb = OK" "tb_file ?tb = tb_file tb" "tb_offset ?tb = tb_offset tb"
    "tb_data_block ?tb = BlockBuilder_Add (tb_data_block tb) k v" "tb_index_block ?tb = tb_index_block tb1"
    "tb_pending_index_entry ?tb \<longleftrightarrow> bs \<noteq> [] \<and> cur @ [(k, v)] = []" "tb_last_key ?tb = fst (last (concat bs @ cur @ [(k, v)]))"
    by (simp_all add: tb2_def same)
  moreover have "with_cur bs (cur @ [(k, v)]) = bs @ [cur @ [(k, v)]]" by (simp add: with_cur_def)
  ultimately show ?thesis
    using inv(3-5) unfolding table_inv_def Let_def f by (simp only: append_is_Nil_conv list.distinct simp_thms)
qed

lemma Add_OK:
  assumes "TableBuilder_Add (dest_file append flush) addr_of k v tb = Some tb'" "tb_status tb' = OK"
    "table_inv contents opts tb bs cur" "0 < op_block_restart_interval opts"
  shows "\<exists>bs' cur'. table_inv contents opts tb' bs' cur' \<and> concat bs' @ cur' = concat bs @ cur @ [(k, v)]"
proof -
  let ?tb1 = "if tb_pending_index_entry tb then add_pending (op_FindShortestSeparator opts (tb_last_key tb) k) tb else tb"
  let ?tb2 = "with_filter (\<lambda>_. FilterBlock_AddKey k) ?tb1"
  let ?tb3 = "?tb2\<lparr>tb_last_key := k, tb_num_entries := tb_num_entries ?tb2 + 1, tb_data_block := BlockBuilder_Add (tb_data_block ?tb2) k v\<rparr>"
  have o: "tb_options tb = opts" "tb_status tb = OK" using assms(3) by (simp_all add: table_inv_def Let_def)
  note inv = table_inv_add [OF assms(3,4), of k v]
  have "TableBuilder_Flush (dest_file append flush) addr_of ?tb3 = Some tb' \<or> ?tb3 = tb'"
    using assms(1) o by (auto simp: TableBuilder_Add_def Let_def split: if_splits)
  then show ?thesis
  proof
    assume "TableBuilder_Flush (dest_file append flush) addr_of ?tb3 = Some tb'"
    from Flush_OK [OF this assms(2) inv] show ?thesis
      by (intro exI [of _ "with_cur bs (cur @ [(k, v)])"] exI [of _ "[]"]) (simp add: with_cur_def)
  qed (use inv in blast)
qed

section \<open>Finishing\<close>

text \<open>The last steps of \<^verbatim>\<open>Finish\<close>, each when it leaves the status at OK.\<close>

lemma write_filter_OK:
  assumes "write_filter (dest_file append flush) addr_of tb = Some (h, tb')" "tb_status tb' = OK" "tb_options tb = opts"
    "tb_status tb = OK" "filter_ok (op_block_restart_interval opts) tb bs []" "contents (tb_file tb) = data_bytes (op_block_restart_interval opts) bs"
    "tb_offset tb = word_of_nat (length (data_bytes (op_block_restart_interval opts) bs))"
    "op_filter_policy opts = None \<or> length (data_bytes (op_block_restart_interval opts) bs) < 2 ^ 63"
  shows "\<exists>flt meta. filter_part opts bs flt meta \<and> contents (tb_file tb') = contents (tb_file tb) @ flt
    \<and> tb_offset tb' = word_of_nat (length (contents (tb_file tb'))) \<and> tb_options tb' = opts \<and> tb_index_block tb' = tb_index_block tb
    \<and> tb_pending_index_entry tb' = tb_pending_index_entry tb \<and> tb_pending_handle tb' = tb_pending_handle tb \<and> tb_last_key tb' = tb_last_key tb
    \<and> (case (tb_filter_block tb', op_filter_policy opts) of
         (Some _, Some policy) \<Rightarrow> meta = [(filter_prefix @ fp_Name policy, BlockHandle_EncodeTo h [])] | _ \<Rightarrow> meta = [])"
proof (cases "op_filter_policy opts")
  case None
  then have "tb_filter_block tb = None" using assms(3,5) by (simp add: filter_ok_def)
  then have "tb' = tb" using assms(1,4) by (simp add: write_filter_def Status_ok_def)
  then show ?thesis using None assms by (simp add: filter_part_def Let_def split: option.split)
next
  case (Some p)
  then obtain fb gs ps where fb: "tb_filter_block tb = Some (p, fb)" "fb_rep (fp_CreateFilter p) fb gs ps" "covers (op_block_restart_interval opts) bs [] gs ps"
    using assms(3,5,8) Some by (auto simp: filter_ok_def)
  let ?gs = "if ps = [] then gs else gs @ [ps]" let ?raw = "filter_block_bytes (fp_CreateFilter p) ?gs"
  obtain fb' where fin: "FilterBlock_Finish (fp_CreateFilter p) fb = (?raw, fb')" using fb_rep_Finish [OF fb(2)] by (metis prod.collapse)
  have w: "WriteRawBlock (dest_file append flush) addr_of ?raw kNoCompression (tb\<lparr>tb_filter_block := Some (p, fb')\<rparr>) = Some (h, tb')"
    using assms(1,3,4) Some fb(1) fin by (simp add: write_filter_def Status_ok_def)
  obtain f where f: "contents f = contents (tb_file tb) @ stored ?raw" "h = block_at (data_bytes (op_block_restart_interval opts) bs) ?raw"
    "tb' = (tb\<lparr>tb_filter_block := Some (p, fb')\<rparr>)\<lparr>tb_status := OK, tb_file := f, tb_offset := tb_offset tb + word_of_nat (length (stored ?raw))\<rparr>"
    using WriteRawBlock_OK [OF w assms(2)] assms(7) by (auto simp: block_at_def)
  have "filter_part opts bs (stored ?raw) [(filter_prefix @ fp_Name p, BlockHandle_EncodeTo h [])]"
    using covers_final [OF fb(3)] unfolding filter_part_def Let_def Some f(2) by auto
  then show ?thesis using f Some assms(3,6,7) by auto
qed

lemma write_metaindex_OK:
  assumes "write_metaindex (dest_file append flush) addr_of fh tb = Some (h, tb')" "tb_status tb' = OK" "tb_status tb = OK"
    "tb_options tb = opts" "0 < op_block_restart_interval opts"
    "case (tb_filter_block tb, op_filter_policy opts) of
       (Some _, Some policy) \<Rightarrow> meta = [(filter_prefix @ fp_Name policy, BlockHandle_EncodeTo fh [])] | _ \<Rightarrow> meta = []"
    "tb_offset tb = word_of_nat (length (contents (tb_file tb)))"
  shows "h = block_at (contents (tb_file tb)) (block_bytes (op_block_restart_interval opts) meta)
    \<and> (\<exists>f. contents f = contents (tb_file tb) @ stored (block_bytes (op_block_restart_interval opts) meta)
         \<and> tb' = tb\<lparr>tb_status := OK, tb_file := f, tb_offset := word_of_nat (length (contents f))\<rparr>)"
proof -
  let ?r = "op_block_restart_interval opts"
  obtain b bb' where b: "metaindex_block fh tb = Some b" "WriteBlock (dest_file append flush) addr_of b tb = Some (h, bb', tb')"
    using assms(1,3) by (auto simp: write_metaindex_def Status_ok_def bind_eq_Some_conv)
  have rep: "bb_rep ?r b meta" using b(1) assms(4,6) bb_rep_init [of ?r] bb_rep_Add [OF bb_rep_init assms(5)]
    by (auto simp: metaindex_block_def Let_def split: option.splits)
  note b(2)
  from WriteBlock_OK [OF this assms(2) rep] assms(7) show ?thesis by (auto simp: block_at_def)
qed

lemma write_index_OK:
  assumes "write_index (dest_file append flush) addr_of tb = Some (h, tb')" "tb_status tb' = OK" "tb_status tb = OK" "tb_options tb = opts"
    "bb_rep 1 (tb_index_block tb) (separators opts r bs)" "tb_pending_index_entry tb \<longleftrightarrow> bs \<noteq> []"
    "bs \<noteq> [] \<Longrightarrow> tb_pending_handle tb = handle_of r bs (length bs - 1) \<and> tb_last_key tb = fst (last (last bs))"
    "tb_offset tb = word_of_nat (length (contents (tb_file tb)))"
  shows "h = block_at (contents (tb_file tb)) (block_bytes 1 (index_entries opts r bs))
    \<and> contents (tb_file tb') = contents (tb_file tb) @ stored (block_bytes 1 (index_entries opts r bs))"
proof -
  let ?tb = "if tb_pending_index_entry tb then add_pending (op_FindShortSuccessor opts (tb_last_key tb)) tb else tb"
  have rep: "bb_rep 1 (tb_index_block ?tb) (index_entries opts r bs)"
    using assms(5-7) bb_rep_Add [OF assms(5)] by (auto simp: index_entries_def add_pending_def index_entry_def)
  obtain bb' tb1 where w: "WriteBlock (dest_file append flush) addr_of (tb_index_block ?tb) ?tb = Some (h, bb', tb1)" "tb' = tb1\<lparr>tb_index_block := bb'\<rparr>"
    using assms(1,3,4) by (auto simp: write_index_def Status_ok_def bind_eq_Some_conv Let_def)
  have "tb_status tb1 = OK" using w(2) assms(2) by simp
  from WriteBlock_OK [OF w(1) this rep] w(2) assms(8) show ?thesis by (auto simp: block_at_def add_pending_def)
qed

lemma status_sticks:
  "write_filter d addr_of tb = Some (h, tb') \<Longrightarrow> tb_status tb' = OK \<Longrightarrow> tb_status tb = OK"
  "write_metaindex d addr_of fh tb = Some (h, tb') \<Longrightarrow> tb_status tb' = OK \<Longrightarrow> tb_status tb = OK"
  "write_index d addr_of tb = Some (h, tb') \<Longrightarrow> tb_status tb' = OK \<Longrightarrow> tb_status tb = OK"
  "write_footer d ft tb = Some tb' \<Longrightarrow> tb_status tb' = OK \<Longrightarrow> tb_status tb = OK"
  "TableBuilder_Flush d addr_of tb = Some tb' \<Longrightarrow> tb_status tb' = OK \<Longrightarrow> tb_status tb = OK"
  "TableBuilder_Add d addr_of k v tb = Some tb' \<Longrightarrow> tb_status tb' = OK \<Longrightarrow> tb_status tb = OK"
  by (auto simp: write_filter_def write_metaindex_def write_index_def write_footer_def TableBuilder_Flush_def TableBuilder_Add_def
      Status_ok_def split: if_splits)

lemma writes_grow:
  "write_filter (dest_file append flush) addr_of tb = Some (h, tb') \<Longrightarrow> tb_status tb' = OK \<Longrightarrow> \<exists>x. contents (tb_file tb') = contents (tb_file tb) @ x"
  "write_metaindex (dest_file append flush) addr_of fh tb = Some (h, tb') \<Longrightarrow> tb_status tb' = OK \<Longrightarrow> \<exists>x. contents (tb_file tb') = contents (tb_file tb) @ x"
  "write_index (dest_file append flush) addr_of tb = Some (h, tb') \<Longrightarrow> tb_status tb' = OK \<Longrightarrow> \<exists>x. contents (tb_file tb') = contents (tb_file tb) @ x"
proof -
  have raw: "\<exists>x. contents (tb_file tb') = contents (tb_file tb) @ x"
    if "WriteRawBlock (dest_file append flush) addr_of raw kNoCompression tb = Some (h, tb')" "tb_status tb' = OK" for raw h and tb tb' :: "'f TableBuilder"
    using WriteRawBlock_OK [OF that] by auto
  have block: "\<exists>x. contents (tb_file tb') = contents (tb_file tb) @ x"
    if "WriteBlock (dest_file append flush) addr_of bb tb = Some (h, bb', tb')" "tb_status tb' = OK" for bb bb' h and tb tb' :: "'f TableBuilder"
  proof -
    have "compress_block type r = (r, kNoCompression)" for type r
      by (cases type) (simp_all add: compress_block_def Snappy_Compress_def)
    then show ?thesis using that raw by (auto simp: WriteBlock_def bind_eq_Some_conv split: prod.splits)
  qed
  show "write_filter (dest_file append flush) addr_of tb = Some (h, tb') \<Longrightarrow> tb_status tb' = OK \<Longrightarrow> \<exists>x. contents (tb_file tb') = contents (tb_file tb) @ x"
    by (auto simp: write_filter_def split: if_splits option.splits prod.splits dest!: raw)
  show "write_metaindex (dest_file append flush) addr_of fh tb = Some (h, tb') \<Longrightarrow> tb_status tb' = OK \<Longrightarrow> \<exists>x. contents (tb_file tb') = contents (tb_file tb) @ x"
    by (auto simp: write_metaindex_def bind_eq_Some_conv Let_def split: if_splits dest!: block)
  show "write_index (dest_file append flush) addr_of tb = Some (h, tb') \<Longrightarrow> tb_status tb' = OK \<Longrightarrow> \<exists>x. contents (tb_file tb') = contents (tb_file tb) @ x"
    by (auto simp: write_index_def bind_eq_Some_conv Let_def add_pending_def split: if_splits dest!: block)
qed

lemma write_footer_OK:
  assumes "write_footer (dest_file append flush) ft tb = Some tb'" "tb_status tb' = OK"
  shows "contents (tb_file tb') = contents (tb_file tb) @ Footer_EncodeTo ft []"
proof -
  obtain f where "append (Footer_EncodeTo ft []) (tb_file tb) = Some (OK, f)" "tb_file tb' = f"
    using assms status_sticks(4) [OF assms]
    by (auto simp: write_footer_def Status_ok_def dest_file_def bind_eq_Some_conv Let_def split: if_splits)
  then show ?thesis using append_ok by blast
qed

lemma Finish_OK:
  assumes "TableBuilder_Finish (dest_file append flush) addr_of tb = Some (OK, tb')" "table_inv contents opts tb bs cur"
    "0 < op_block_restart_interval opts" "op_filter_policy opts = None \<or> length (contents (tb_file tb')) < 2 ^ 63"
  shows "table_layout opts (with_cur bs cur) (contents (tb_file tb'))"
proof -
  let ?r = "op_block_restart_interval opts"
  define bl where "bl = with_cur bs cur"
  obtain tb1 fh tb2 mh tb3 ih tb4 where
    fl: "TableBuilder_Flush (dest_file append flush) addr_of tb = Some tb1" and
    wf: "write_filter (dest_file append flush) addr_of (tb1\<lparr>tb_closed := True\<rparr>) = Some (fh, tb2)" and
    wm: "write_metaindex (dest_file append flush) addr_of fh tb2 = Some (mh, tb3)" and
    wi: "write_index (dest_file append flush) addr_of tb3 = Some (ih, tb4)" and
    wt: "write_footer (dest_file append flush) \<lparr>ft_metaindex_handle = mh, ft_index_handle = ih\<rparr> tb4 = Some tb'" and ok: "tb_status tb' = OK"
    using assms(1) by (auto simp: TableBuilder_Finish_def bind_eq_Some_conv Let_def)
  have s4: "tb_status tb4 = OK" by (rule status_sticks(4) [OF wt ok])
  have s3: "tb_status tb3 = OK" by (rule status_sticks(3) [OF wi s4])
  have s2: "tb_status tb2 = OK" by (rule status_sticks(2) [OF wm s3])
  have s1: "tb_status tb1 = OK" using status_sticks(1) [OF wf s2] by simp
  have inv: "table_inv contents opts tb1 bl []" and wc: "with_cur bl [] = bl"
    using Flush_OK [OF fl s1 assms(2)] by (simp_all add: bl_def with_cur_def)
  have i1: "tb_options tb1 = opts" "contents (tb_file tb1) = data_bytes ?r bl" "tb_offset tb1 = word_of_nat (length (data_bytes ?r bl))"
    "bb_rep 1 (tb_index_block tb1) (separators opts ?r bl)" "tb_pending_index_entry tb1 \<longleftrightarrow> bl \<noteq> []"
    "bl \<noteq> [] \<longrightarrow> tb_pending_handle tb1 = handle_of ?r bl (length bl - 1)" "filter_ok ?r tb1 bl []"
    "concat bl \<noteq> [] \<longrightarrow> tb_last_key tb1 = fst (last (concat bl))" "\<forall>b\<in>set bl. b \<noteq> []"
    using inv unfolding table_inv_def Let_def wc append_Nil2 by blast+
  have i7: "filter_ok ?r (tb1\<lparr>tb_closed := True\<rparr>) bl []" by (rule filter_ok_cong [OF i1(7)]) simp_all
  have g: "\<exists>x. contents (tb_file tb2) = contents (tb_file tb1) @ x" "\<exists>x. contents (tb_file tb3) = contents (tb_file tb2) @ x"
    "\<exists>x. contents (tb_file tb4) = contents (tb_file tb3) @ x"
    using writes_grow(1) [OF wf s2] writes_grow(2) [OF wm s3] writes_grow(3) [OF wi s4] by simp_all
  then have small: "op_filter_policy opts = None \<or> length (data_bytes ?r bl) < 2 ^ 63" using write_footer_OK [OF wt ok] assms(4) i1(2) by auto
  from write_filter_OK [OF wf s2 _ _ i7 _ _ small] i1(1-3) s1 obtain flt meta where
    flt: "filter_part opts bl flt meta" "contents (tb_file tb2) = data_bytes ?r bl @ flt" "tb_offset tb2 = word_of_nat (length (contents (tb_file tb2)))"
      "tb_options tb2 = opts" "tb_index_block tb2 = tb_index_block tb1" "tb_pending_index_entry tb2 = tb_pending_index_entry tb1"
      "tb_pending_handle tb2 = tb_pending_handle tb1" "tb_last_key tb2 = tb_last_key tb1"
    and meta: "case (tb_filter_block tb2, op_filter_policy opts) of
         (Some _, Some policy) \<Rightarrow> meta = [(filter_prefix @ fp_Name policy, BlockHandle_EncodeTo fh [])] | _ \<Rightarrow> meta = []"
    by auto
  from write_metaindex_OK [OF wm s3 s2 flt(4) assms(3) meta flt(3)] obtain f where
    mh: "mh = block_at (data_bytes ?r bl @ flt) (block_bytes ?r meta)" and f: "contents f = data_bytes ?r bl @ flt @ stored (block_bytes ?r meta)"
    and tb3: "tb3 = tb2\<lparr>tb_status := OK, tb_file := f, tb_offset := word_of_nat (length (contents f))\<rparr>" using flt(2) by auto
  have lastk: "bl \<noteq> [] \<Longrightarrow> tb_pending_handle tb3 = handle_of ?r bl (length bl - 1) \<and> tb_last_key tb3 = fst (last (last bl))"
    using i1(6,8,9) flt(7,8) last_concat_blocks [of bl] by (simp add: tb3)
  have "ih = block_at (contents f) (block_bytes 1 (index_entries opts ?r bl))
      \<and> contents (tb_file tb4) = contents f @ stored (block_bytes 1 (index_entries opts ?r bl))"
    using write_index_OK [OF wi s4 s3 _ _ _ lastk] i1(4,5) flt(4-6) by (simp add: tb3)
  then show ?thesis
    using flt(1) write_footer_OK [OF wt ok] f mh unfolding table_layout_def Let_def bl_def [symmetric] by auto
qed

lemma adds_sticks: "TableBuilder_adds d addr_of kvs tb = Some tb' \<Longrightarrow> tb_status tb' = OK \<Longrightarrow> tb_status tb = OK"
proof (induction kvs arbitrary: tb)
  case (Cons kv kvs)
  obtain k v tb1 where "kv = (k, v)" "TableBuilder_Add d addr_of k v tb = Some tb1" "TableBuilder_adds d addr_of kvs tb1 = Some tb'"
    using Cons.prems(1) by (cases kv) (auto split: option.splits)
  then show ?case using Cons.IH Cons.prems(2) status_sticks(6) by blast
qed simp

lemma adds_OK:
  assumes "TableBuilder_adds (dest_file append flush) addr_of kvs tb = Some tb'" "tb_status tb' = OK"
    "table_inv contents opts tb bs cur" "0 < op_block_restart_interval opts"
  shows "\<exists>bs' cur'. table_inv contents opts tb' bs' cur' \<and> concat bs' @ cur' = concat bs @ cur @ kvs"
  using assms(1,3)
proof (induction kvs arbitrary: tb bs cur)
  case (Cons kv kvs)
  obtain k v tb1 where kv: "kv = (k, v)" and tb1: "TableBuilder_Add (dest_file append flush) addr_of k v tb = Some tb1"
      "TableBuilder_adds (dest_file append flush) addr_of kvs tb1 = Some tb'"
    using Cons.prems(1) by (cases kv) (auto split: option.splits)
  obtain bs1 cur1 where "table_inv contents opts tb1 bs1 cur1" "concat bs1 @ cur1 = concat bs @ cur @ [(k, v)]"
    using Add_OK [OF tb1(1) adds_sticks [OF tb1(2) assms(2)] Cons.prems(2) assms(4)] by blast
  with Cons.IH [OF tb1(2)] show ?case by (metis append.assoc append_Cons append_Nil kv)
qed auto

lemma built_table:
  assumes "contents f = []" "TableBuilder_adds (dest_file append flush) addr_of kvs (TableBuilder_init opts f) = Some tb"
    "TableBuilder_Finish (dest_file append flush) addr_of tb = Some (OK, tb')"
    "0 < op_block_restart_interval opts" "op_filter_policy opts = None \<or> length (contents (tb_file tb')) < 2 ^ 63"
  shows "\<exists>bs. concat bs = kvs \<and> (\<forall>b\<in>set bs. b \<noteq> []) \<and> table_layout opts bs (contents (tb_file tb'))"
proof -
  have "tb_status tb = OK"
    using assms(3) unfolding TableBuilder_Finish_def
    by (auto simp: bind_eq_Some_conv Let_def dest: status_sticks(4) dest!: status_sticks(3) status_sticks(2) status_sticks(1) status_sticks(5))
  from adds_OK [OF assms(2) this table_inv_init [OF assms(1)] assms(4)] obtain bs cur where
    inv: "table_inv contents opts tb bs cur" "concat bs @ cur = kvs" by auto
  have "concat (with_cur bs cur) = kvs" "\<forall>b\<in>set (with_cur bs cur). b \<noteq> []"
    using inv by (auto simp: with_cur_def table_inv_def Let_def)
  then show ?thesis using Finish_OK [OF assms(3) inv(1) assms(4,5)] by blast
qed

end

text \<open>On a file that fails no call the builder succeeds, unless its options lost the filter policy.\<close>

definition policy_kept :: "'f TableBuilder \<Rightarrow> bool" where
  "policy_kept tb \<longleftrightarrow> tb_filter_block tb = None \<or> op_filter_policy (tb_options tb) \<noteq> None"

lemma policy_kept_with_filter [simp]: "policy_kept (with_filter call tb) = policy_kept tb"
  by (auto simp: policy_kept_def with_filter_def split: option.split)

context reliable_file
begin

definition fine :: "'a TableBuilder \<Rightarrow> bool" where
  "fine tb \<longleftrightarrow> tb_status tb = OK \<and> reliable (tb_file tb) \<and> policy_kept tb"

lemma WriteRawBlock_succeeds:
  assumes "fine tb"
  shows "\<exists>h tb'. WriteRawBlock (dest_file append flush) addr_of raw type tb = Some (h, tb') \<and> fine tb'"
proof -
  obtain f1 where 1: "append raw (tb_file tb) = Some (OK, f1)" "reliable f1" using append_succeeds assms unfolding fine_def by blast
  let ?t = "CompressionType_value type # EncodeFixed32 (crc32c_Mask (crc32c_Extend (addr_of [CompressionType_value type])
      (crc32c_Value (addr_of raw) raw) [CompressionType_value type]))"
  obtain f2 where "append ?t f1 = Some (OK, f2)" "reliable f2" using append_succeeds [OF 1(2)] by blast
  then show ?thesis using 1(1) assms by (simp add: WriteRawBlock_def dest_file_def Let_def policy_kept_def fine_def)
qed

lemma WriteBlock_succeeds:
  assumes "fine tb"
  shows "\<exists>h bb' tb'. WriteBlock (dest_file append flush) addr_of bb tb = Some (h, bb', tb') \<and> fine tb'"
proof -
  obtain raw bb1 c t where r: "BlockBuilder_Finish bb = (raw, bb1)" "compress_block (op_compression (tb_options tb)) raw = (c, t)" by (metis surj_pair)
  from WriteRawBlock_succeeds [OF assms, of addr_of c t] show ?thesis by (auto simp: WriteBlock_def r)
qed

lemma Flush_succeeds:
  assumes "fine tb"
  shows "\<exists>tb'. TableBuilder_Flush (dest_file append flush) addr_of tb = Some tb' \<and> fine tb'"
proof (cases "bb_buffer (tb_data_block tb) = []")
  case False
  obtain h bb tb1 where w: "WriteBlock (dest_file append flush) addr_of (tb_data_block tb) tb = Some (h, bb, tb1)" "fine tb1"
    using WriteBlock_succeeds [OF assms] by blast
  obtain f where "flush (tb_file tb1) = Some (OK, f)" "reliable f" using flush_succeeds w(2) unfolding fine_def by blast
  moreover have "wf_Flush (dest_file append flush) = flush" by (simp add: dest_file_def)
  moreover have "policy_kept (tb1\<lparr>tb_data_block := bb, tb_pending_handle := h, tb_pending_index_entry := True, tb_status := OK, tb_file := f\<rparr>)"
    using w(2) by (simp add: fine_def policy_kept_def)
  ultimately show ?thesis using w assms False by (simp add: TableBuilder_Flush_def Status_ok_def Let_def fine_def)
qed (use assms in \<open>simp add: TableBuilder_Flush_def Status_ok_def fine_def\<close>)

lemma Add_succeeds:
  assumes "fine tb"
  shows "\<exists>tb'. TableBuilder_Add (dest_file append flush) addr_of k v tb = Some tb' \<and> fine tb'"
proof -
  define tb1 where "tb1 = with_filter (\<lambda>_. FilterBlock_AddKey k)
      (if tb_pending_index_entry tb then add_pending (op_FindShortestSeparator (tb_options tb) (tb_last_key tb) k) tb else tb)"
  define tb2 where "tb2 = tb1\<lparr>tb_last_key := k, tb_num_entries := tb_num_entries tb1 + 1, tb_data_block := BlockBuilder_Add (tb_data_block tb1) k v\<rparr>"
  have "policy_kept tb1" using assms unfolding tb1_def policy_kept_with_filter by (simp add: fine_def policy_kept_def add_pending_def)
  then have "fine tb2" using assms by (auto simp: fine_def tb2_def policy_kept_def tb1_def add_pending_def)
  with Flush_succeeds [OF this] show ?thesis
    using assms unfolding TableBuilder_Add_def Let_def tb1_def [symmetric] tb2_def [symmetric] by (simp add: fine_def Status_ok_def)
qed

lemma adds_succeed: "fine tb \<Longrightarrow> \<exists>tb'. TableBuilder_adds (dest_file append flush) addr_of kvs tb = Some tb' \<and> fine tb'"
proof (induction kvs arbitrary: tb)
  case (Cons kv kvs)
  obtain k v where kv: "kv = (k, v)" by (cases kv)
  obtain tb1 where "TableBuilder_Add (dest_file append flush) addr_of k v tb = Some tb1" "fine tb1"
    using Add_succeeds [OF Cons.prems] by blast
  with Cons.IH show ?case by (simp add: kv)
qed simp

lemma write_filter_succeeds:
  assumes "fine tb"
  shows "\<exists>h tb'. write_filter (dest_file append flush) addr_of tb = Some (h, tb') \<and> fine tb'"
proof (cases "tb_filter_block tb")
  case (Some pf)
  obtain p fb raw fb' where pf: "pf = (p, fb)" "FilterBlock_Finish (fp_CreateFilter p) fb = (raw, fb')" by (metis surj_pair)
  have "fine (tb\<lparr>tb_filter_block := Some (p, fb')\<rparr>)" using assms Some by (simp add: fine_def policy_kept_def)
  from WriteRawBlock_succeeds [OF this] show ?thesis using assms Some pf by (simp add: write_filter_def fine_def Status_ok_def)
qed (use assms in \<open>simp add: write_filter_def fine_def Status_ok_def\<close>)

lemma write_metaindex_succeeds:
  assumes "fine tb"
  shows "\<exists>h tb'. write_metaindex (dest_file append flush) addr_of fh tb = Some (h, tb') \<and> fine tb'"
proof -
  have "\<exists>bb. metaindex_block fh tb = Some bb"
    using assms by (auto simp: metaindex_block_def fine_def policy_kept_def Let_def split: option.split)
  then obtain bb where "metaindex_block fh tb = Some bb" by blast
  with WriteBlock_succeeds [OF assms, of addr_of bb] assms show ?thesis by (auto simp: write_metaindex_def fine_def Status_ok_def)
qed

lemma write_index_succeeds:
  assumes "fine tb"
  shows "\<exists>h tb'. write_index (dest_file append flush) addr_of tb = Some (h, tb') \<and> fine tb'"
proof -
  define tb1 where "tb1 = (if tb_pending_index_entry tb then add_pending (op_FindShortSuccessor (tb_options tb) (tb_last_key tb)) tb else tb)"
  have "fine tb1" using assms by (simp add: fine_def policy_kept_def add_pending_def tb1_def)
  then obtain h bb tb2 where "WriteBlock (dest_file append flush) addr_of (tb_index_block tb1) tb1 = Some (h, bb, tb2)" "fine tb2"
    using WriteBlock_succeeds by blast
  then show ?thesis using assms unfolding write_index_def Let_def tb1_def [symmetric] by (simp add: fine_def Status_ok_def policy_kept_def)
qed

lemma Finish_succeeds:
  assumes "fine tb"
  shows "\<exists>tb'. TableBuilder_Finish (dest_file append flush) addr_of tb = Some (OK, tb')"
proof -
  obtain tb1 where 1: "TableBuilder_Flush (dest_file append flush) addr_of tb = Some tb1" "fine tb1"
    using Flush_succeeds [OF assms] by blast
  have "fine (tb1\<lparr>tb_closed := True\<rparr>)" using 1(2) by (simp add: fine_def policy_kept_def)
  then obtain fh tb2 where 2: "write_filter (dest_file append flush) addr_of (tb1\<lparr>tb_closed := True\<rparr>) = Some (fh, tb2)" "fine tb2"
    using write_filter_succeeds by blast
  obtain mh tb3 where 3: "write_metaindex (dest_file append flush) addr_of fh tb2 = Some (mh, tb3)" "fine tb3"
    using write_metaindex_succeeds [OF 2(2)] by blast
  obtain ih tb4 where 4: "write_index (dest_file append flush) addr_of tb3 = Some (ih, tb4)" "fine tb4"
    using write_index_succeeds [OF 3(2)] by blast
  obtain f where "append (Footer_EncodeTo \<lparr>ft_metaindex_handle = mh, ft_index_handle = ih\<rparr> []) (tb_file tb4) = Some (OK, f)"
    using append_succeeds 4(2) unfolding fine_def by blast
  then have "\<exists>tb'. write_footer (dest_file append flush) \<lparr>ft_metaindex_handle = mh, ft_index_handle = ih\<rparr> tb4 = Some tb' \<and> tb_status tb' = OK"
    using 4(2) by (simp add: write_footer_def fine_def Status_ok_def dest_file_def Let_def)
  then show ?thesis using 1(1) 2(1) 3(1) 4(1) by (auto simp: TableBuilder_Finish_def Let_def)
qed

end

end
