(* ===== verification/Ldb_Table_Lookup.thy ===== *)
theory Ldb_Table_Lookup
  imports Ldb_Table_Build
begin

text \<open>
  Reading a table: \<^verbatim>\<open>Table::Open\<close> finds the blocks the builder wrote, and \<^verbatim>\<open>Table::InternalGet\<close> the first
  entry at or above a key, unless it belongs to another user key. What this takes of the order of keys and of the
  filter policy are the locales \<open>table_keys\<close> and \<open>table_config\<close>.
\<close>

section \<open>Blocks of a small file fit\<close>

lemma key_length_offs: "length (fst (kvs ! i)) \<le> offs r kvs (Suc i)"
proof (induction i)
  case 0
  then show ?case by (simp add: offs_Suc entry_enc_def entry_shared_def)
next
  case (Suc i)
  have "entry_shared r kvs (Suc i) \<le> offs r kvs (Suc i)"
  proof (cases "Suc i mod r = 0")
    case False
    then show ?thesis using entry_shared_props(2) [OF False, of kvs] Suc by simp
  qed (simp add: entry_shared_def)
  then show ?case unfolding offs_Suc [of r kvs "Suc i"] by (simp add: entry_enc_def)
qed

lemma entries_offs: "3 * n \<le> offs r kvs n"
proof (induction n)
  case (Suc n)
  have "1 \<le> length (EncodeVarint32 w)" for w by (simp add: EncodeVarint32_def)
  from this [of "word_of_nat (entry_shared r kvs n)"] this [of "word_of_nat (length (fst (kvs ! n)) - entry_shared r kvs n)"]
    this [of "word_of_nat (length (snd (kvs ! n)))"]
  have "3 \<le> length (entry_enc r kvs n)" by (simp add: entry_enc_def entry_head_def)
  then show ?case using Suc by (simp add: offs_Suc)
qed simp

lemma block_fitsI:
  assumes "0 < r" "length (block_bytes r kvs) < 2 ^ 32"
  shows "block_fits r kvs"
proof -
  have "length (fst (kvs ! i)) < 2 ^ 32" if "i < length kvs" for i
  proof -
    have "offs r kvs (Suc i) \<le> offs r kvs (length kvs)" using that by (simp add: offs_le_iff)
    then show ?thesis using key_length_offs [of kvs i r] assms(2) by (simp add: block_bytes_length)
  qed
  then show ?thesis using assms by (simp add: block_fits_def all_set_conv_all_nth)
qed

lemma data_bytes_at: "i < length bs \<Longrightarrow> \<exists>post. data_bytes r bs = data_bytes r (take i bs) @ stored (block_bytes r (bs ! i)) @ post"
proof -
  assume "i < length bs"
  then have "bs = take i bs @ bs ! i # drop (Suc i) bs" by (rule id_take_nth_drop)
  then have "data_bytes r bs = data_bytes r (take i bs) @ stored (block_bytes r (bs ! i)) @ data_bytes r (drop (Suc i) bs)"
    by (metis (no_types, lifting) concat.simps(2) concat_append data_bytes_def list.simps(9) map_append)
  then show ?thesis by blast
qed

lemma entry_count: "3 * length (concat bs) \<le> length (data_bytes r bs)"
proof (induction bs)
  case (Cons b bs)
  then show ?case using entries_offs [of "length b" r b] by (simp add: data_bytes_def stored_length block_bytes_length)
qed (simp add: data_bytes_def)

section \<open>The keys of a table\<close>

text \<open>
  A lookup is for keys that are \<open>same\<close> as its target, for internal keys: those of its user key. They follow
  the target without a gap, and a separator is never between them.
\<close>

locale table_keys = comparator +
  fixes same :: "slice \<Rightarrow> slice \<Rightarrow> bool"
  assumes gap: "valid a \<Longrightarrow> valid b \<Longrightarrow> valid k \<Longrightarrow> valid x \<Longrightarrow> Compare a b < 0 \<Longrightarrow> Compare a k < 0 \<Longrightarrow>
      Compare k (Separator a b) \<le> 0 \<Longrightarrow> Compare b x \<le> 0 \<Longrightarrow> \<not> same k x"
    and convex: "valid k \<Longrightarrow> valid y \<Longrightarrow> valid x \<Longrightarrow> Compare k y \<le> 0 \<Longrightarrow> Compare y x \<le> 0 \<Longrightarrow> same k x \<Longrightarrow> same k y"

interpretation bytewise_keys: table_keys Bytewise_Compare Bytewise_FindShortestSeparator Bytewise_FindShortSuccessor "\<lambda>_. True" "(=)"
proof
  show "\<not> k = x" if "Bytewise_Compare a b < 0" "Bytewise_Compare a k < 0" "Bytewise_Compare k (Bytewise_FindShortestSeparator a b) \<le> 0"
    "Bytewise_Compare b x \<le> 0" for a b k x
  proof -
    have "Bytewise_Compare (Bytewise_FindShortestSeparator a b) b < 0" using bytewise.Separator_between that(1) by simp
    then show ?thesis using that(3,4) by (auto simp: Bytewise_Compare_lex split: if_splits)
  qed
  show "k = y" if "Bytewise_Compare k y \<le> 0" "Bytewise_Compare y x \<le> 0" "k = x" for k y x
    using that by (auto simp: Bytewise_Compare_lex split: if_splits)
qed

abbreviation same_user_key :: "slice \<Rightarrow> slice \<Rightarrow> bool" where
  "same_user_key a b \<equiv> ExtractUserKey a = ExtractUserKey b"

context comparator
begin

lemma internal_le_user:
  assumes "internal_valid valid a" "internal_valid valid b" "InternalKey_Compare Compare a b \<le> 0"
  shows "Compare (ExtractUserKey a) (ExtractUserKey b) \<le> 0"
  using assms by (auto simp: InternalKey_Compare_alt Let_def split: if_splits)

lemma internal_gap:
  assumes v: "internal_valid valid a" "internal_valid valid b" "internal_valid valid k" "internal_valid valid x"
    and ab: "InternalKey_Compare Compare a b < 0" and ak: "InternalKey_Compare Compare a k < 0"
    and ks: "InternalKey_Compare Compare k (InternalKey_FindShortestSeparator Compare Separator a b) \<le> 0"
    and bx: "InternalKey_Compare Compare b x \<le> 0"
  shows "\<not> same_user_key k x"
proof -
  let ?a = "ExtractUserKey a" and ?b = "ExtractUserKey b" and ?k = "ExtractUserKey k"
  have u: "valid ?a" "valid ?b" "valid ?k" "valid (ExtractUserKey x)" using v by (auto simp: internal_valid_def)
  note ik = comparator.Compare_flip [OF internal_comparator v(1,3)]
  have short: "length (Separator ?a ?b) < length ?a \<and> Compare ?a (Separator ?a ?b) < 0"
  proof (rule ccontr)
    assume "\<not> (length (Separator ?a ?b) < length ?a \<and> Compare ?a (Separator ?a ?b) < 0)"
    then have "InternalKey_FindShortestSeparator Compare Separator a b = a"
      by (auto simp: InternalKey_FindShortestSeparator_def Let_def)
    then show False using ks ak ik by simp
  qed
  then have "InternalKey_FindShortestSeparator Compare Separator a b
      = PutFixed64 (Separator ?a ?b) (PackSequenceAndType kMaxSequenceNumber kValueTypeForSeek)"
    by (simp add: InternalKey_FindShortestSeparator_def Let_def)
  then have "Compare ?k (Separator ?a ?b) \<le> 0"
    using internal_le_user [OF v(3) _ ks] Separator_valid [OF u(1,2)] by (simp add: internal_valid_def)
  moreover have "Compare (Separator ?a ?b) ?b < 0"
  proof -
    have "?a \<noteq> ?b" using short Separator_same [OF u(1)] by auto
    then have "Compare ?a ?b < 0" using ab Compare_eq [OF u(1,2)] by (auto simp: InternalKey_Compare_alt Let_def split: if_splits)
    then show ?thesis using Separator_between [OF u(1,2)] by simp
  qed
  moreover have "Compare ?b (ExtractUserKey x) \<le> 0" by (rule internal_le_user [OF v(2,4) bx])
  ultimately have "Compare ?k (ExtractUserKey x) < 0"
    using Compare_less_le_trans [OF Separator_valid [OF u(1,2)] u(2,4)] Compare_le_trans [OF u(3) Separator_valid [OF u(1,2)] u(4)]
      Compare_eq [OF u(3) Separator_valid [OF u(1,2)]] Compare_trans [OF u(3) Separator_valid [OF u(1,2)] u(4)] by fastforce
  then show ?thesis using Compare_refl [OF u(3)] by auto
qed

lemma internal_convex:
  assumes v: "internal_valid valid k" "internal_valid valid y" "internal_valid valid x"
    and "InternalKey_Compare Compare k y \<le> 0" "InternalKey_Compare Compare y x \<le> 0" "same_user_key k x"
  shows "same_user_key k y"
proof -
  have u: "valid (ExtractUserKey k)" "valid (ExtractUserKey y)" using v by (auto simp: internal_valid_def)
  have "Compare (ExtractUserKey k) (ExtractUserKey y) \<le> 0" "Compare (ExtractUserKey y) (ExtractUserKey k) \<le> 0"
    using internal_le_user [OF v(1,2) assms(4)] internal_le_user [OF v(2,3) assms(5)] assms(6) by simp_all
  then show ?thesis using Compare_flip [OF u] Compare_flip [OF u(2,1)] Compare_eq [OF u] by linarith
qed

lemma internal_table_keys:
  "table_keys (InternalKey_Compare Compare) (InternalKey_FindShortestSeparator Compare Separator)
     (InternalKey_FindShortSuccessor Compare Successor) (internal_valid valid) same_user_key"
  by (intro table_keys.intro internal_comparator table_keys_axioms.intro; (rule internal_gap internal_convex)?) assumption+

end

interpretation internal_keys: table_keys "InternalKey_Compare Bytewise_Compare"
    "InternalKey_FindShortestSeparator Bytewise_Compare Bytewise_FindShortestSeparator"
    "InternalKey_FindShortSuccessor Bytewise_Compare Bytewise_FindShortSuccessor" "internal_valid (\<lambda>_. True)" same_user_key
  by (rule bytewise.internal_table_keys)

section \<open>Finding an entry through the index\<close>

definition sorted_blocks :: "(slice \<Rightarrow> slice \<Rightarrow> int) \<Rightarrow> (slice \<Rightarrow> bool) \<Rightarrow> (slice \<times> slice) list list \<Rightarrow> bool" where
  "sorted_blocks cmp valid bs \<longleftrightarrow> sorted_entries cmp valid (concat bs) \<and> (\<forall>b\<in>set bs. b \<noteq> [])"

text \<open>What a lookup returns: the first entry that is not below the target, or nothing if that is of no interest.\<close>

definition found :: "(slice \<Rightarrow> slice \<Rightarrow> int) \<Rightarrow> (slice \<Rightarrow> slice \<Rightarrow> bool) \<Rightarrow> (slice \<times> slice) list \<Rightarrow> slice \<Rightarrow> (slice \<times> slice) option \<Rightarrow> bool" where
  "found cmp same kvs k res \<longleftrightarrow>
     (case res of
        Some kv \<Rightarrow> List.find (\<lambda>kv. \<not> cmp (fst kv) k < 0) kvs = Some kv
      | None \<Rightarrow> \<forall>kv\<in>set kvs. \<not> cmp (fst kv) k < 0 \<longrightarrow> \<not> same k (fst kv))"

definition index_key :: "Options \<Rightarrow> (slice \<times> slice) list list \<Rightarrow> nat \<Rightarrow> slice" where
  "index_key opts bs i =
     (if Suc i < length bs then op_FindShortestSeparator opts (fst (last (bs ! i))) (fst (hd (bs ! Suc i)))
      else op_FindShortSuccessor opts (fst (last (bs ! i))))"

lemma index_entries_map: "index_entries opts r bs = map (\<lambda>i. index_entry r bs i (index_key opts bs i)) [0..<length bs]"
proof (cases "bs = []")
  case False
  then obtain n where n: "length bs = Suc n" by (cases bs) auto
  have "separators opts r bs = map (\<lambda>i. index_entry r bs i (index_key opts bs i)) [0..<n]"
    unfolding separators_def n by (rule map_cong) (auto simp: index_key_def n)
  then show ?thesis using n False by (simp add: index_entries_def index_key_def last_conv_nth)
qed (simp add: index_entries_def separators_def)

lemma find_append_below: "\<forall>x\<in>set xs. \<not> P x \<Longrightarrow> List.find P (xs @ ys) = List.find P ys"
  by (induction xs) auto

lemma find_entries_below:
  "entries_below cmp k kvs < length kvs \<Longrightarrow>
     List.find (\<lambda>kv. \<not> cmp (fst kv) k < 0) (kvs @ ys) = Some (kvs ! entries_below cmp k kvs)"
  unfolding entries_below_def by (induction kvs) auto

lemma entries_below_cases:
  "j < entries_below cmp k kvs \<Longrightarrow> cmp (fst (kvs ! j)) k < 0"
  "entries_below cmp k kvs < length kvs \<Longrightarrow> \<not> cmp (fst (kvs ! entries_below cmp k kvs)) k < 0"
  "entries_below cmp k kvs \<le> length kvs"
  unfolding entries_below_def using nth_length_takeWhile [of "\<lambda>kv. cmp (fst kv) k < 0" kvs]
  by (metis nth_mem set_takeWhileD takeWhile_nth, simp, simp add: length_takeWhile_le)

locale table_config = table_keys +
  fixes opts :: Options
  assumes options: "op_Compare opts = Compare" "op_FindShortestSeparator opts = Separator" "op_FindShortSuccessor opts = Successor"
      "0 < op_block_restart_interval opts"
    and policy: "op_filter_policy opts = Some p \<Longrightarrow> filter_policy (fp_CreateFilter p) (fp_KeyMayMatch p) (\<lambda>keys. length keys < 2 ^ 31)"
    and same_match: "op_filter_policy opts = Some p \<Longrightarrow> same k k' \<Longrightarrow> fp_KeyMayMatch p k f = fp_KeyMayMatch p k' f"
begin

lemma block_ends:
  assumes "sorted_blocks Compare valid bs" "i < length bs"
  shows "hd (bs ! i) \<in> set (bs ! i)" "last (bs ! i) \<in> set (bs ! i)"
  using assms nth_mem [OF assms(2)] by (auto simp: sorted_blocks_def)

lemma blocks_valid: "sorted_blocks Compare valid bs \<Longrightarrow> i < length bs \<Longrightarrow> x \<in> set (bs ! i) \<Longrightarrow> valid (fst x)"
  using nth_mem by (fastforce simp: sorted_blocks_def sorted_entries_def)

lemma blocks_order:
  assumes "sorted_blocks Compare valid bs" "i < j" "j < length bs" "a \<in> set (bs ! i)" "b \<in> set (bs ! j)"
  shows "Compare (fst a) (fst b) < 0"
proof -
  have "concat bs = concat (take j bs) @ concat (drop j bs)" by (metis append_take_drop_id concat_append)
  moreover have "a \<in> set (concat (take j bs))" "b \<in> set (concat (drop j bs))"
  proof -
    have "bs ! i \<in> set (take j bs)" using assms(2,3) by (metis length_take less_trans min.absorb4 nth_mem nth_take)
    then show "a \<in> set (concat (take j bs))" using assms(4) by auto
    have "bs ! j \<in> set (drop j bs)" using assms(3) by (metis Cons_nth_drop_Suc list.set_intros(1))
    then show "b \<in> set (concat (drop j bs))" using assms(5) by auto
  qed
  ultimately show ?thesis using assms(1) by (auto simp: sorted_blocks_def sorted_entries_def sorted_wrt_append)
qed

lemma block_sorted:
  assumes "sorted_blocks Compare valid bs" "i < length bs"
  shows "sorted_entries Compare valid (bs ! i)"
proof -
  have "concat bs = concat (take i bs) @ bs ! i @ concat (drop (Suc i) bs)"
    using id_take_nth_drop [OF assms(2)] by (metis concat.simps(2) concat_append)
  then show ?thesis using assms(1) by (auto simp: sorted_blocks_def sorted_entries_def sorted_wrt_append)
qed

lemma in_block_le_last:
  assumes "sorted_blocks Compare valid bs" "i < length bs" "x \<in> set (bs ! i)"
  shows "Compare (fst x) (fst (last (bs ! i))) \<le> 0"
proof -
  have v: "valid (fst x)" "valid (fst (last (bs ! i)))" using blocks_valid [OF assms(1,2)] assms(3) block_ends [OF assms(1,2)] by auto
  have ne: "bs ! i \<noteq> []" using assms(3) by auto
  then have "bs ! i = butlast (bs ! i) @ [last (bs ! i)]" by simp
  then have "x = last (bs ! i) \<or> Compare (fst x) (fst (last (bs ! i))) < 0"
    using block_sorted [OF assms(1,2)] assms(3) unfolding sorted_entries_def
    by (metis (no_types, lifting) Un_iff empty_iff insert_iff list.set(1) list.set(2) set_append sorted_wrt_append)
  then show ?thesis using Compare_refl [OF v(2)] by auto
qed

lemma in_block_ge_first:
  assumes "sorted_blocks Compare valid bs" "i < length bs" "x \<in> set (bs ! i)"
  shows "Compare (fst (hd (bs ! i))) (fst x) \<le> 0"
proof -
  obtain y ys where b: "bs ! i = y # ys" using assms(3) by (cases "bs ! i") auto
  have "x = y \<or> Compare (fst y) (fst x) < 0" using block_sorted [OF assms(1,2)] assms(3) unfolding sorted_entries_def b by auto
  then show ?thesis using Compare_refl [OF blocks_valid [OF assms(1,2) block_ends(1) [OF assms(1,2)]]] b by auto
qed

lemma index_key_valid: "sorted_blocks Compare valid bs \<Longrightarrow> i < length bs \<Longrightarrow> valid (index_key opts bs i)"
  using blocks_valid [of bs i "last (bs ! i)"] block_ends [of bs i] blocks_valid [of bs "Suc i" "hd (bs ! Suc i)"] block_ends [of bs "Suc i"]
  by (auto simp: index_key_def options intro!: Separator_valid Successor_valid)

lemma index_key_above:
  assumes "sorted_blocks Compare valid bs" "i < length bs" "x \<in> set (bs ! i)"
  shows "Compare (fst x) (index_key opts bs i) \<le> 0"
proof -
  have v: "valid (fst x)" "valid (fst (last (bs ! i)))" using blocks_valid [OF assms(1,2)] assms(3) block_ends [OF assms(1,2)] by auto
  have "Compare (fst (last (bs ! i))) (index_key opts bs i) \<le> 0"
  proof (cases "Suc i < length bs")
    case True
    have "Compare (fst (last (bs ! i))) (fst (hd (bs ! Suc i))) < 0"
      using blocks_order [OF assms(1) _ True block_ends(2) [OF assms(1,2)] block_ends(1) [OF assms(1) True]] by simp
    then show ?thesis using Separator_between [OF v(2) blocks_valid [OF assms(1) True block_ends(1) [OF assms(1) True]]] True
      by (simp add: index_key_def options)
  qed (simp add: index_key_def options Successor_above [OF v(2)])
  then show ?thesis using Compare_le_trans [OF v(1) v(2) index_key_valid [OF assms(1,2)] in_block_le_last [OF assms]] by blast
qed

lemma index_key_below:
  assumes "sorted_blocks Compare valid bs" "i < j" "j < length bs" "x \<in> set (bs ! j)"
  shows "Compare (index_key opts bs i) (fst x) < 0"
proof -
  have i: "i < length bs" and s: "Suc i < length bs" using assms(2,3) by simp_all
  let ?l = "fst (last (bs ! i))" and ?h = "fst (hd (bs ! Suc i))"
  have v: "valid ?l" "valid ?h" "valid (fst x)"
    by (rule blocks_valid [OF assms(1) i block_ends(2) [OF assms(1) i]],
        rule blocks_valid [OF assms(1) s block_ends(1) [OF assms(1) s]], rule blocks_valid [OF assms(1,3,4)])
  have "Compare ?l ?h < 0" using blocks_order [OF assms(1) _ s block_ends(2) [OF assms(1) i] block_ends(1) [OF assms(1) s]] by simp
  then have k: "Compare (index_key opts bs i) ?h < 0" using Separator_between [OF v(1,2)] s by (simp add: index_key_def options)
  have "Compare ?h (fst x) \<le> 0"
  proof (cases "j = Suc i")
    case True
    then show ?thesis using in_block_ge_first [OF assms(1,3,4)] by simp
  next
    case False
    then show ?thesis using blocks_order [OF assms(1) _ assms(3) block_ends(1) [OF assms(1) s] assms(4)] assms(2) by simp
  qed
  then show ?thesis using Compare_less_le_trans [OF index_key_valid [OF assms(1) i] v(2,3) k] by blast
qed

lemma index_sorted:
  assumes "sorted_blocks Compare valid bs"
  shows "sorted_entries Compare valid (index_entries opts r bs)"
proof -
  have "Compare (index_key opts bs i) (index_key opts bs j) < 0" if "i < j" "j < length bs" for i j
  proof -
    let ?l = "last (bs ! j)"
    have l: "?l \<in> set (bs ! j)" by (rule block_ends(2) [OF assms that(2)])
    have i: "i < length bs" using that by simp
    show ?thesis using Compare_less_le_trans [OF index_key_valid [OF assms i] blocks_valid [OF assms that(2) l] index_key_valid [OF assms that(2)]
        index_key_below [OF assms that l] index_key_above [OF assms that(2) l]] .
  qed
  then show ?thesis
    using index_key_valid [OF assms] by (auto simp: sorted_entries_def index_entries_map sorted_wrt_iff_nth_less index_entry_def)
qed

lemma before_found_block:
  assumes sb: "sorted_blocks Compare valid bs" and k: "valid k" and i: "i \<le> length bs" "\<And>j. j < i \<Longrightarrow> Compare (index_key opts bs j) k < 0"
    and x: "x \<in> set (concat (take i bs))"
  shows "Compare (fst x) k < 0"
proof -
  obtain b where b: "b \<in> set (take i bs)" "x \<in> set b" using x by auto
  then obtain j where j: "j < i" "x \<in> set (bs ! j)" using i(1) by (auto simp: in_set_conv_nth [of b])
  then have l: "j < length bs" using i(1) by simp
  have v: "valid (fst x)" "valid (index_key opts bs j)" by (rule blocks_valid [OF sb l j(2)], rule index_key_valid [OF sb l])
  show ?thesis
    using index_key_above [OF sb l j(2)] i(2) [OF j(1)] Compare_eq [OF v] Compare_trans [OF v k] by fastforce
qed

lemma table_search_end:
  assumes "sorted_blocks Compare valid bs" "valid k" "\<And>j. j < length bs \<Longrightarrow> Compare (index_key opts bs j) k < 0"
  shows "found Compare same (concat bs) k None"
  using before_found_block [OF assms(1,2) order_refl assms(3)] by (auto simp: found_def)

lemma table_search_block:
  assumes sb: "sorted_blocks Compare valid bs" and k: "valid k" and i: "i < length bs" "\<And>j. j < i \<Longrightarrow> Compare (index_key opts bs j) k < 0"
    and ik: "\<not> Compare (index_key opts bs i) k < 0"
  shows "found Compare same (concat bs) k
     (if entries_below Compare k (bs ! i) < length (bs ! i) then Some (bs ! i ! entries_below Compare k (bs ! i)) else None)"
proof -
  have split: "concat bs = concat (take i bs) @ bs ! i @ concat (drop (Suc i) bs)"
    using id_take_nth_drop [OF i(1)] by (metis concat.simps(2) concat_append)
  note low = before_found_block [OF sb k less_imp_le [OF i(1)] i(2)]
  show ?thesis
  proof (cases "entries_below Compare k (bs ! i) < length (bs ! i)")
    case True
    then show ?thesis using find_entries_below [OF True] low by (simp add: found_def split find_append_below)
  next
    case False
    then have eq: "entries_below Compare k (bs ! i) = length (bs ! i)" using entries_below_cases(3) [of Compare k "bs ! i"] by simp
    have blk: "Compare (fst x) k < 0" if "x \<in> set (bs ! i)" for x
      using that entries_below_cases(1) [of _ Compare k "bs ! i"] unfolding eq by (auto simp: in_set_conv_nth)
    have "\<not> same k (fst x)" if x: "x \<in> set (concat (drop (Suc i) bs))" for x
    proof -
      obtain b where b: "b \<in> set (drop (Suc i) bs)" "x \<in> set b" using x by auto
      then obtain j where "j < length bs - Suc i" "x \<in> set (bs ! (Suc i + j))" by (auto simp: in_set_conv_nth [of b])
      then have j: "Suc i + j < length bs" "x \<in> set (bs ! (Suc i + j))" by simp_all
      have s: "Suc i < length bs" using j(1) by simp
      let ?l = "last (bs ! i)" and ?h = "hd (bs ! Suc i)"
      have l: "?l \<in> set (bs ! i)" and h: "?h \<in> set (bs ! Suc i)" using block_ends [OF sb] i(1) s by auto
      have v: "valid (fst ?l)" "valid (fst ?h)" "valid (fst x)"
        by (rule blocks_valid [OF sb i(1) l], rule blocks_valid [OF sb s h], rule blocks_valid [OF sb j])
      have "Compare k (Separator (fst ?l) (fst ?h)) \<le> 0"
        using ik s Compare_flip [OF index_key_valid [OF sb i(1)] k] Compare_flip [OF k index_key_valid [OF sb i(1)]]
          by (auto simp: index_key_def options not_less)
      moreover have "Compare (fst ?h) (fst x) \<le> 0"
      proof (cases j)
        case 0
        then show ?thesis using in_block_ge_first [OF sb j] by simp
      next
        case (Suc n)
        then show ?thesis using blocks_order [OF sb _ j(1) h j(2)] by simp
      qed
      ultimately show ?thesis
        using gap [OF v(1,2) k v(3) _ blk [OF l]] blocks_order [OF sb _ s l h] by simp
    qed
    with low blk have "\<not> same k (fst x)" if "x \<in> set (concat bs)" "\<not> Compare (fst x) k < 0" for x
      using that unfolding split set_append by blast
    then show ?thesis using False by (simp add: found_def)
  qed
qed

text \<open>A filter that does not match the target rules out the block, and so all that a lookup is for.\<close>

lemma table_search_filtered:
  assumes sb: "sorted_blocks Compare valid bs" and k: "valid k" and i: "i < length bs" "\<And>j. j < i \<Longrightarrow> Compare (index_key opts bs j) k < 0"
    and ik: "\<not> Compare (index_key opts bs i) k < 0" and no: "\<And>x. x \<in> set (bs ! i) \<Longrightarrow> \<not> same k (fst x)"
  shows "found Compare same (concat bs) k None"
proof -
  let ?n = "entries_below Compare k (bs ! i)"
  note search = table_search_block [OF sb k i ik]
  show ?thesis
  proof (cases "?n < length (bs ! i)")
    case True
    let ?y = "bs ! i ! ?n"
    have first: "List.find (\<lambda>kv. \<not> Compare (fst kv) k < 0) (concat bs) = Some ?y" using search True by (simp add: found_def)
    have y: "?y \<in> set (bs ! i)" "\<not> Compare (fst ?y) k < 0" using True entries_below_cases(2) [OF True] by simp_all
    have "\<not> same k (fst x)" if x: "x \<in> set (concat bs)" "\<not> Compare (fst x) k < 0" for x
    proof
      assume same: "same k (fst x)"
      have v: "valid (fst ?y)" "valid (fst x)" using blocks_valid [OF sb i(1) y(1)] x(1) sb by (auto simp: sorted_blocks_def sorted_entries_def)
      obtain m where m: "m < length (concat bs)" "?y = concat bs ! m" "\<forall>j<m. Compare (fst (concat bs ! j)) k < 0"
        using first by (auto simp: find_Some_iff)
      obtain n where n: "n < length (concat bs)" "x = concat bs ! n" using x(1) by (metis in_set_conv_nth)
      have "m \<le> n" using m(3) n(2) x(2) by (metis not_less)
      moreover have "Compare (fst ?y) (fst x) < 0" if "m < n"
        using sb that n unfolding m(2) by (simp add: sorted_blocks_def sorted_entries_def sorted_wrt_iff_nth_less del: length_concat)
      ultimately have "Compare (fst ?y) (fst x) \<le> 0" using Compare_refl [OF v(1)] m(2) n(2) by (cases "m = n") auto
      moreover have "Compare k (fst ?y) \<le> 0" using y(2) Compare_flip [OF v(1) k] Compare_flip [OF k v(1)] by auto
      ultimately show False using convex [OF k v _ _ same] no [OF y(1)] by blast
    qed
    then show ?thesis by (simp add: found_def)
  next
    case False
    then show ?thesis using search by simp
  qed
qed

end

section \<open>Opening a table\<close>

definition table_opened :: "Options \<Rightarrow> RandomAccessFile \<Rightarrow> (slice \<times> slice) list list \<Rightarrow> Table \<Rightarrow> bool" where
  "table_opened opts file bs table \<longleftrightarrow>
     (let r = op_block_restart_interval opts in
      tr_options table = opts \<and> tr_file table = file \<and> tr_index_block table = Block_init (block_bytes 1 (index_entries opts r bs))
      \<and> (case op_filter_policy opts of
           None \<Rightarrow> tr_filter table = None
         | Some p \<Rightarrow> \<exists>gs. filters_cover r bs gs \<and> length (filter_block_bytes (fp_CreateFilter p) gs) < 2 ^ 32
             \<and> tr_filter table = Some (FilterBlockReader_init (filter_block_bytes (fp_CreateFilter p) gs))))"

text \<open>Seeking in a block through the iterator that \<^verbatim>\<open>Block::NewIterator\<close> returns.\<close>

context comparator
begin

lemma Iterator_Seek_block:
  assumes "0 < r" "length (block_bytes r kvs) < 2 ^ 32" "sorted_entries Compare valid kvs" "valid k"
  shows "\<exists>it. Iterator_Seek Compare k (Block_NewIterator (Block_init (block_bytes r kvs))) = Some (EntryIterator it)
    \<and> iter_pos r kvs (entries_below Compare k kvs) it"
proof -
  have fits: "block_fits r kvs" by (rule block_fitsI [OF assms(1,2)])
  obtain it where it: "Block_NewIterator (Block_init (block_bytes r kvs)) = EntryIterator it" "at_end r kvs it"
    using block_iterator [OF fits] by blast
  have "iter_base r kvs it" using it(2) by (simp add: at_end_def)
  from Seek_pos [OF this fits assms(3,4)] show ?thesis by (auto simp: Iterator_Seek_def on_entries_def it(1))
qed

end

lemma ReadMeta_layout:
  assumes raf: "random_access_file (raf_Read file) F" and F: "F = D @ flt @ stored (block_bytes r meta) @ post" "length F < 2 ^ 32"
    and t: "tr_file table = file" "tr_options table = opts" "tr_filter table = None"
    and part: "filter_part opts bs flt meta" "D = data_bytes r bs" "r = op_block_restart_interval opts" "0 < r"
    and ft: "ft_metaindex_handle footer = block_at (D @ flt) (block_bytes r meta)"
  shows "\<exists>filt. ReadMeta addr_of footer table = Some (table\<lparr>tr_filter := filt\<rparr>)
    \<and> (case op_filter_policy opts of
         None \<Rightarrow> filt = None
       | Some p \<Rightarrow> \<exists>gs. filters_cover r bs gs \<and> length (filter_block_bytes (fp_CreateFilter p) gs) < 2 ^ 32
           \<and> filt = Some (FilterBlockReader_init (filter_block_bytes (fp_CreateFilter p) gs)))"
proof (cases "op_filter_policy opts")
  case None
  then show ?thesis using t by (intro exI [of _ None]) (simp add: ReadMeta_def)
next
  case (Some p)
  have L: "length F < 2 ^ 63" using F(2) by simp
  have "length D < 2 ^ 63" using F L by simp
  then obtain gs where gs: "filters_cover r bs gs" "flt = stored (filter_block_bytes (fp_CreateFilter p) gs)"
    "meta = [(filter_prefix @ fp_Name p, BlockHandle_EncodeTo (block_at D (filter_block_bytes (fp_CreateFilter p) gs)) [])]"
    using part Some by (auto simp: filter_part_def Let_def)
  let ?B = "filter_block_bytes (fp_CreateFilter p) gs" and ?key = "filter_prefix @ fp_Name p"
  have small: "length (block_bytes r meta) < 2 ^ 32" "length ?B < 2 ^ 32" using F by (simp_all add: gs(2) stored_length)
  note rd = random_access_file.ReadBlock_stored [OF raf _ L refl]
  have m: "ReadBlock addr_of file ro (block_at (D @ flt) (block_bytes r meta))
      = Some (OK, \<lparr>bc_data = block_bytes r meta, bc_cachable = raf_scratch file, bc_heap_allocated = raf_scratch file\<rparr>)" for ro
    unfolding block_at_def by (rule rd) (simp add: F(1))
  have f: "ReadBlock addr_of file ro (block_at D ?B) = Some (OK, \<lparr>bc_data = ?B, bc_cachable = raf_scratch file, bc_heap_allocated = raf_scratch file\<rparr>)" for ro
    unfolding block_at_def by (rule rd) (simp add: F(1) gs(2))
  have one: "sorted_entries Bytewise_Compare (\<lambda>_. True) meta" by (simp add: gs(3) sorted_entries_def)
  obtain it where it: "Iterator_Seek Bytewise_Compare ?key (Block_NewIterator (Block_init (block_bytes r meta))) = Some (EntryIterator it)"
      "iter_pos r meta (entries_below Bytewise_Compare ?key meta) it"
    using bytewise.Iterator_Seek_block [OF part(4) small(1) one, of ?key] by auto
  have "entries_below Bytewise_Compare ?key meta = 0" by (simp add: entries_below_def gs(3) Bytewise_Compare_lex)
  then have at: "BlockIter_Valid it" "bi_key it = ?key" "BlockIter_value it = BlockHandle_EncodeTo (block_at D ?B) []"
    using iter_pos_shows [OF it(2)] by (simp_all add: gs(3))
  have "ReadFilter addr_of (BlockIter_value it) table = Some (table\<lparr>tr_filter := Some (FilterBlockReader_init ?B)\<rparr>)"
    using f BlockHandle_roundtrip [of "block_at D ?B" "[]"] by (simp add: ReadFilter_def at(3) t Status_ok_def)
  moreover have "Slice_eq a a" for a
  proof -
    have "memcmp a a = 0" by (induction a) simp_all
    then show ?thesis by (simp add: Slice_eq_def)
  qed
  ultimately have "ReadMeta addr_of footer table = Some (table\<lparr>tr_filter := Some (FilterBlockReader_init ?B)\<rparr>)"
    using m it(1) at(1,2) by (simp add: ReadMeta_def t Some ft Status_ok_def)
  then show ?thesis using gs(1) small(2) Some by auto
qed

lemma Table_Open_layout:
  assumes raf: "random_access_file (raf_Read file) F" and F: "length F < 2 ^ 32" "table_layout opts bs F"
    and r: "0 < op_block_restart_interval opts"
  shows "\<exists>table. Table_Open addr_of opts file (word_of_nat (length F)) cache_id = Some (OK, Some table) \<and> table_opened opts file bs table
    \<and> tr_cache_id table = cache_id"
proof -
  let ?r = "op_block_restart_interval opts"
  let ?index = "block_bytes 1 (index_entries opts ?r bs)" and ?D = "data_bytes ?r bs"
  obtain flt meta footer where lay: "filter_part opts bs flt meta" "F = ?D @ flt @ stored (block_bytes ?r meta) @ stored ?index @ Footer_EncodeTo footer []"
      "footer = \<lparr>ft_metaindex_handle = block_at (?D @ flt) (block_bytes ?r meta), ft_index_handle = block_at (?D @ flt @ stored (block_bytes ?r meta)) ?index\<rparr>"
    using F(2) unfolding table_layout_def Let_def by blast
  define n where "n = length F - kEncodedLength"
  have len: "length F = n + kEncodedLength" "n = length (?D @ flt @ stored (block_bytes ?r meta) @ stored ?index)"
    by (simp_all add: n_def lay(2) Footer_length)
  have L: "length F < 2 ^ 63" using F(1) by simp
  have "raf_Read file (word_of_nat n) (word_of_nat kEncodedLength) = (OK, take kEncodedLength (drop n F))"
    by (rule random_access_file.read_inside [OF raf L]) (simp add: len(1))
  moreover have "drop n F = Footer_EncodeTo footer []" unfolding len(2) lay(2) by simp
  ultimately have foot: "raf_Read file (word_of_nat (length F) - word_of_nat kEncodedLength) (word_of_nat kEncodedLength) = (OK, Footer_EncodeTo footer [])"
    by (simp add: len(1) Footer_length)
  have big: "\<not> (word_of_nat (length F) :: u64) < word_of_nat kEncodedLength"
  proof -
    have "unat (word_of_nat (length F) :: u64) = length F" using L by (simp add: unat_of_nat)
    then show ?thesis using len(1) unfolding word_less_nat_alt by (simp add: kEncodedLength_def kMaxEncodedLength_def)
  qed
  have index: "ReadBlock addr_of file ro (ft_index_handle footer) = Some (OK, \<lparr>bc_data = ?index, bc_cachable = raf_scratch file, bc_heap_allocated = raf_scratch file\<rparr>)" for ro
    unfolding lay(3) Footer.simps block_at_def
    by (rule random_access_file.ReadBlock_stored [OF raf _ L refl, of _ _ "Footer_EncodeTo footer []"]) (simp add: lay(2))
  let ?t = "\<lparr>tr_options = opts, tr_file = file, tr_cache_id = cache_id, tr_filter = None,
      tr_metaindex_handle = ft_metaindex_handle footer, tr_index_block = Block_init ?index\<rparr>"
  obtain filt where filt: "ReadMeta addr_of footer ?t = Some (?t\<lparr>tr_filter := filt\<rparr>)" and
    case_filt: "case op_filter_policy opts of None \<Rightarrow> filt = None
       | Some p \<Rightarrow> \<exists>gs. filters_cover ?r bs gs \<and> length (filter_block_bytes (fp_CreateFilter p) gs) < 2 ^ 32
           \<and> filt = Some (FilterBlockReader_init (filter_block_bytes (fp_CreateFilter p) gs))"
    using ReadMeta_layout [OF raf lay(2) F(1) _ _ _ lay(1) refl refl r, of ?t footer addr_of] by (auto simp: lay(3))
  have "Table_Open addr_of opts file (word_of_nat (length F)) cache_id = Some (OK, Some (?t\<lparr>tr_filter := filt\<rparr>))"
    unfolding Table_Open_def foot using big index filt Footer_roundtrip [of footer] by (simp add: Status_ok_def)
  moreover have "table_opened opts file bs (?t\<lparr>tr_filter := filt\<rparr>)"
    using case_filt unfolding table_opened_def Let_def by (simp split: option.splits)
  ultimately show ?thesis by auto
qed

section \<open>Looking up a key\<close>

lemma index_length:
  assumes "table_layout opts bs F"
  shows "length (block_bytes 1 (index_entries opts (op_block_restart_interval opts) bs)) < length F"
    "\<exists>post. F = data_bytes (op_block_restart_interval opts) bs @ post"
  using assms by (auto simp: table_layout_def Let_def stored_length kBlockTrailerSize_def)

context table_config
begin

abbreviation (input) restart where
  "restart \<equiv> op_block_restart_interval opts"

lemma filtered_out_absent:
  assumes t: "table_opened opts file bs table" and F: "length (data_bytes restart bs) < 2 ^ 32" and i: "i < length bs"
    and out: "filtered_out table (BlockHandle_EncodeTo (handle_of restart bs i) []) k" and x: "x \<in> set (bs ! i)"
  shows "\<not> same k (fst x)"
proof
  assume same: "same k (fst x)"
  obtain p where p: "op_filter_policy opts = Some p" using out t by (auto simp: filtered_out_def table_opened_def Let_def split: option.splits)
  then obtain gs where gs: "filters_cover restart bs gs" "length (filter_block_bytes (fp_CreateFilter p) gs) < 2 ^ 32"
      "tr_filter table = Some (FilterBlockReader_init (filter_block_bytes (fp_CreateFilter p) gs))" and topt: "tr_options table = opts"
    using t by (auto simp: table_opened_def Let_def)
  let ?off = "length (data_bytes restart (take i bs))" and ?j = "length (data_bytes restart (take i bs)) div kFilterBase"
  have "?off \<le> length (data_bytes restart bs)" using data_bytes_mono [of i "length bs" restart bs] i by simp
  then have off: "unat (bh_offset (handle_of restart bs i)) = ?off" using F by (simp add: handle_of_def unat_of_nat)
  have j: "?j < length gs" "fst x \<in> set (gs ! ?j)" using gs(1) i x by (auto simp: filters_cover_def Let_def)
  have "length (concat gs) = length (concat bs)" using gs(1) unfolding filters_cover_def by (metis length_map)
  moreover have "length (gs ! ?j) \<le> length (concat gs)"
    unfolding length_concat using elem_le_sum_list [of ?j "map length gs"] j(1) by simp
  ultimately have few: "length (gs ! ?j) < 2 ^ 31" using entry_count [of bs restart] F by simp
  have "FilterBlock_KeyMayMatch (fp_KeyMayMatch p) (FilterBlockReader_init (filter_block_bytes (fp_CreateFilter p) gs)) (bh_offset (handle_of restart bs i)) (fst x)"
    by (rule filter_policy.filter_matches [OF policy [OF p] gs(2) j(1) _ j(2) few]) (simp add: off)
  moreover have "FilterBlock_KeyMayMatch (fp_KeyMayMatch p) fr o1 k = FilterBlock_KeyMayMatch (fp_KeyMayMatch p) fr o1 (fst x)" for fr o1
    by (simp add: FilterBlock_KeyMayMatch_def same_match [OF p same])
  ultimately show False using out p topt gs(3) BlockHandle_roundtrip [of "handle_of restart bs i" "[]"] by (simp add: filtered_out_def)
qed

lemma InternalGet_found:
  assumes t: "table_opened opts file bs table" and lay: "table_layout opts bs F" "length F < 2 ^ 32"
    and sb: "sorted_blocks Compare valid bs" and k: "valid k"
    and read: "\<And>i. i < length bs \<Longrightarrow> \<exists>h c1 c2. BlockReader addr_of bc table ro (BlockHandle_EncodeTo (handle_of restart bs i) []) c
        = Some (Block_NewIterator (Block_init (block_bytes restart (bs ! i))), h, c1) \<and> delete_iterator bc h c1 = Some c2 \<and> P c2"
    and P: "P c"
  shows "\<exists>res c'. InternalGet addr_of bc table ro k c = Some (OK, res, c') \<and> found Compare same (concat bs) k res \<and> P c'"
proof -
  let ?ie = "index_entries opts restart bs" and ?i = "entries_below Compare k (index_entries opts restart bs)"
  have topt: "tr_options table = opts" "tr_index_block table = Block_init (block_bytes 1 ?ie)" using t by (auto simp: table_opened_def Let_def)
  have n: "length ?ie = length bs" "\<And>j. j < length bs \<Longrightarrow> ?ie ! j = index_entry restart bs j (index_key opts bs j)" by (simp_all add: index_entries_map)
  have D: "length (data_bytes restart bs) < 2 ^ 32" using index_length(2) [OF lay(1)] lay(2) by auto
  obtain it where it: "Iterator_Seek Compare k (Block_NewIterator (tr_index_block table)) = Some (EntryIterator it)" "iter_pos 1 ?ie ?i it"
    using Iterator_Seek_block [of 1 ?ie k, OF _ _ index_sorted [OF sb] k] index_length(1) [OF lay(1)] lay(2) by (auto simp: topt(2))
  note shows_it = iter_pos_shows [OF it(2), unfolded n(1)]
  have low: "Compare (index_key opts bs j) k < 0" if "j < ?i" for j
    using entries_below_cases(1) [OF that] entries_below_cases(3) [of Compare k ?ie] that n by (simp add: index_entry_def)
  show ?thesis
  proof (cases "?i < length bs")
    case False
    then have "found Compare same (concat bs) k None" by (intro table_search_end [OF sb k] low) simp
    moreover have "InternalGet addr_of bc table ro k c = Some (OK, None, c)"
      using it(1) shows_it(1,2) False by (simp add: InternalGet_def topt(1) options(1) Status_ok_def)
    ultimately show ?thesis using P by blast
  next
    case True
    have high: "\<not> Compare (index_key opts bs ?i) k < 0" using entries_below_cases(2) [of Compare k ?ie] True n by (simp add: index_entry_def)
    have val: "BlockIter_Valid it" "BlockIter_value it = BlockHandle_EncodeTo (handle_of restart bs ?i) []" "bi_status it = OK"
      using shows_it True n(2) by (simp_all add: index_entry_def)
    show ?thesis
    proof (cases "filtered_out table (BlockIter_value it) k")
      case out: True
      have "found Compare same (concat bs) k None"
        by (rule table_search_filtered [OF sb k True low high]) (use filtered_out_absent [OF t D True] out val(2) in auto)
      moreover have "InternalGet addr_of bc table ro k c = Some (OK, None, c)"
        using it(1) val(1,3) out by (simp add: InternalGet_def topt(1) options(1) Status_ok_def)
      ultimately show ?thesis using P by blast
    next
      case False
      let ?b = "bs ! ?i"
      obtain h c1 c2 where rd: "BlockReader addr_of bc table ro (BlockIter_value it) c = Some (Block_NewIterator (Block_init (block_bytes restart ?b)), h, c1)"
          "delete_iterator bc h c1 = Some c2" "P c2"
        using read [OF True] val(2) by auto
      obtain post where "data_bytes restart bs = data_bytes restart (take ?i bs) @ stored (block_bytes restart ?b) @ post"
        using data_bytes_at [OF True] by blast
      then have "length (block_bytes restart ?b) < 2 ^ 32" using D by (simp add: stored_length)
      then obtain bit where bit: "Iterator_Seek Compare k (Block_NewIterator (Block_init (block_bytes restart ?b))) = Some (EntryIterator bit)"
          "iter_pos restart ?b (entries_below Compare k ?b) bit"
        using Iterator_Seek_block [OF options(4) _ block_sorted [OF sb True] k] by blast
      let ?res = "if entries_below Compare k ?b < length ?b then Some (?b ! entries_below Compare k ?b) else None"
      have "InternalGet addr_of bc table ro k c = Some (OK, ?res, c2)"
        using it(1) val(1,3) False rd(1,2) bit(1) iter_pos_shows [OF bit(2)]
        by (simp add: InternalGet_def topt(1) options(1) Status_ok_def)
      then show ?thesis using table_search_block [OF sb k True low high] rd(3) by blast
    qed
  qed
qed

lemma read_data_block_layout:
  assumes raf: "random_access_file (raf_Read file) F" and t: "table_opened opts file bs table"
    and lay: "table_layout opts bs F" "length F < 2 ^ 32" and i: "i < length bs"
  shows "read_data_block addr_of table ro (handle_of restart bs i)
    = Some (OK, \<lparr>bc_data = block_bytes restart (bs ! i), bc_cachable = raf_scratch file, bc_heap_allocated = raf_scratch file\<rparr>,
        Some (Block_init (block_bytes restart (bs ! i))))"
proof -
  obtain post where "data_bytes restart bs = data_bytes restart (take i bs) @ stored (block_bytes restart (bs ! i)) @ post"
    using data_bytes_at [OF i] by blast
  then obtain post' where F: "F = data_bytes restart (take i bs) @ stored (block_bytes restart (bs ! i)) @ post'"
    using index_length(2) [OF lay(1)] by auto
  have "length F < 2 ^ 63" using lay(2) by simp
  note rd = random_access_file.ReadBlock_stored [OF raf F this refl]
  have "tr_file table = file" using t by (simp add: table_opened_def Let_def)
  then show ?thesis using rd [of addr_of ro] by (simp add: read_data_block_def handle_of_def Status_ok_def)
qed

lemma BlockReader_uncached:
  assumes "random_access_file (raf_Read file) F" "table_opened opts file bs table" "table_layout opts bs F" "length F < 2 ^ 32" "i < length bs"
  shows "BlockReader addr_of None table ro (BlockHandle_EncodeTo (handle_of restart bs i) []) c
    = Some (Block_NewIterator (Block_init (block_bytes restart (bs ! i))), None, c)"
  using read_data_block_layout [OF assms] BlockHandle_roundtrip [of "handle_of restart bs i" "[]"] by (simp add: BlockReader_def Status_ok_def)

lemma InternalGet_uncached:
  assumes "random_access_file (raf_Read file) F" "table_opened opts file bs table" "table_layout opts bs F" "length F < 2 ^ 32"
    "sorted_blocks Compare valid bs" "valid k"
  shows "\<exists>res. InternalGet addr_of None table ro k c = Some (OK, res, c) \<and> found Compare same (concat bs) k res"
proof -
  have "\<exists>h c1 c2. BlockReader addr_of None table ro (BlockHandle_EncodeTo (handle_of restart bs i) []) c
      = Some (Block_NewIterator (Block_init (block_bytes restart (bs ! i))), h, c1) \<and> delete_iterator None h c1 = Some c2 \<and> c2 = c"
    if "i < length bs" for i
    using BlockReader_uncached [OF assms(1-4) that, of addr_of ro c] by (simp add: delete_iterator_def)
  from InternalGet_found [OF assms(2-6) this refl] show ?thesis by blast
qed

end

section \<open>The block cache\<close>

definition blocks_cached :: "('c \<Rightarrow> slice \<Rightarrow> Block \<Rightarrow> bool) \<Rightarrow> Options \<Rightarrow> (slice \<times> slice) list list \<Rightarrow> Table \<Rightarrow> 'c \<Rightarrow> bool" where
  "blocks_cached holds opts bs table c \<longleftrightarrow>
     (let r = op_block_restart_interval opts in
      \<forall>i<length bs. \<forall>b. holds c (block_key table (handle_of r bs i)) b \<longrightarrow> b = Block_init (block_bytes r (bs ! i)))"

lemma block_key_inj:
  assumes "block_key table (handle_of r bs i) = block_key table (handle_of r bs j)" "i < length bs" "j < length bs" "length (data_bytes r bs) < 2 ^ 63"
  shows "i = j"
proof -
  have le: "length (data_bytes r (take i bs)) \<le> length (data_bytes r bs)" "length (data_bytes r (take j bs)) \<le> length (data_bytes r bs)"
    using data_bytes_mono [of i "length bs" r bs] data_bytes_mono [of j "length bs" r bs] assms(2,3) by simp_all
  have "EncodeFixed64 (bh_offset (handle_of r bs i)) = EncodeFixed64 (bh_offset (handle_of r bs j))"
    using assms(1) by (simp add: block_key_def)
  then have "bh_offset (handle_of r bs i) = bh_offset (handle_of r bs j)" by (metis DecodeFixed64_bytes)
  then have "unat (word_of_nat (length (data_bytes r (take i bs))) :: u64) = unat (word_of_nat (length (data_bytes r (take j bs))) :: u64)"
    by (simp add: handle_of_def)
  then have eq: "length (data_bytes r (take i bs)) = length (data_bytes r (take j bs))" using le assms(4) by (simp add: unat_of_nat)
  have grow: "length (data_bytes r (take a bs)) < length (data_bytes r (take b bs))" if "a < b" "b \<le> length bs" for a b
  proof -
    have "take (Suc a) bs = take a bs @ [bs ! a]" using that by (simp add: take_Suc_conv_app_nth)
    then have "length (data_bytes r (take a bs)) < length (data_bytes r (take (Suc a) bs))" by (simp add: data_bytes_snoc stored_length kBlockTrailerSize_def)
    also have "\<dots> \<le> length (data_bytes r (take b bs))" by (rule data_bytes_mono) (use that in simp)
    finally show ?thesis .
  qed
  show ?thesis using grow [of i j] grow [of j i] eq assms(2,3) by (metis less_imp_le less_irrefl linorder_neqE_nat)
qed

locale cached_table = table_config + cache cache inv room holds refs
  for cache :: "('c, Block) Cache" and inv :: "'c \<Rightarrow> bool" and room :: "'c \<Rightarrow> bool" and holds and refs
begin

lemma BlockReader_cached:
  assumes raf: "random_access_file (raf_Read file) F" and t: "table_opened opts file bs table"
    and lay: "table_layout opts bs F" "length F < 2 ^ 32" and i: "i < length bs"
    and c: "inv c" "room c" "blocks_cached holds opts bs table c"
  shows "\<exists>h c1 c2. BlockReader addr_of (Some cache) table ro (BlockHandle_EncodeTo (handle_of restart bs i) []) c
      = Some (Block_NewIterator (Block_init (block_bytes restart (bs ! i))), h, c1) \<and> delete_iterator (Some cache) h c1 = Some c2
    \<and> inv c2 \<and> refs c2 = refs c \<and> blocks_cached holds opts bs table c2"
proof -
  let ?key = "block_key table (handle_of restart bs i)" and ?b = "Block_init (block_bytes restart (bs ! i))"
  note data = read_data_block_layout [OF raf t lay i, of addr_of ro]
  have D: "length (data_bytes restart bs) < 2 ^ 63" using index_length(2) [OF lay(1)] lay(2) by auto
  have dec: "BlockHandle_DecodeFrom (BlockHandle_EncodeTo (handle_of restart bs i) []) h0 = (OK, handle_of restart bs i, [])" for h0
    using BlockHandle_roundtrip [of _ "[]"] by simp
  have sub: "blocks_cached holds opts bs table c'" if "\<forall>k v. holds c' k v \<longrightarrow> holds c k v \<or> k = ?key \<and> v = ?b" for c'
    using that c(3) block_key_inj [OF _ _ i D] unfolding blocks_cached_def Let_def by (metis i)
  have release: "\<exists>c2. delete_iterator (Some cache) (Some h) c1 = Some c2 \<and> inv c2 \<and> refs c2 = refs c \<and> blocks_cached holds opts bs table c2"
    if "inv c1" "refs c1 = (refs c)(h := refs c h + 1)" "\<forall>k v. holds c1 k v \<longrightarrow> holds c k v \<or> k = ?key \<and> v = ?b" for h c1
  proof -
    have "0 < refs c1 h" using that(2) by simp
    from Release [OF that(1) this] obtain c2 where "ca_Release cache h c1 = Some c2" "inv c2" "\<forall>k v. holds c2 k v \<longrightarrow> holds c1 k v"
      "refs c2 = (refs c1)(h := refs c1 h - 1)" by blast
    then show ?thesis using that(2,3) by (intro exI [of _ c2]) (auto simp: delete_iterator_def intro!: sub)
  qed
  obtain hit c1 where look: "ca_Lookup cache ?key c = Some (hit, c1)" "inv c1" "\<forall>k v. holds c1 k v \<longrightarrow> holds c k v"
      "case hit of None \<Rightarrow> c1 = c | Some (h, v) \<Rightarrow> holds c ?key v \<and> refs c1 = (refs c)(h := refs c h + 1)"
    using Lookup [OF c(1,2), of ?key] by blast
  show ?thesis
  proof (cases hit)
    case (Some hv)
    obtain h v where hv: "hv = (h, v)" by (cases hv)
    then have "v = ?b" "refs c1 = (refs c)(h := refs c h + 1)" using look(4) Some c(3) i by (auto simp: blocks_cached_def Let_def)
    then have "BlockReader addr_of (Some cache) table ro (BlockHandle_EncodeTo (handle_of restart bs i) []) c = Some (Block_NewIterator ?b, Some h, c1)"
      using look(1) dec Some hv by (simp add: BlockReader_def Status_ok_def)
    moreover obtain c2 where "delete_iterator (Some cache) (Some h) c1 = Some c2" "inv c2" "refs c2 = refs c" "blocks_cached holds opts bs table c2"
      using release [OF look(2), of h] \<open>refs c1 = _\<close> look(3) by blast
    ultimately show ?thesis by blast
  next
    case None
    then have c1: "c1 = c" using look(4) by simp
    show ?thesis
    proof (cases "raf_scratch file \<and> ro_fill_cache ro")
      case False
      then have "BlockReader addr_of (Some cache) table ro (BlockHandle_EncodeTo (handle_of restart bs i) []) c = Some (Block_NewIterator ?b, None, c)"
        using look(1) dec None c1 data by (auto simp: BlockReader_def Status_ok_def)
      then show ?thesis using c by (auto simp: delete_iterator_def)
    next
      case True
      obtain h c2 where ins: "ca_Insert cache ?key ?b (blk_size ?b) c = Some (h, c2)" "inv c2"
          "\<forall>k w. holds c2 k w \<longrightarrow> holds c k w \<or> k = ?key \<and> w = ?b" "refs c2 = (refs c)(h := refs c h + 1)"
        using Insert [OF c(1,2)] by blast
      have "BlockReader addr_of (Some cache) table ro (BlockHandle_EncodeTo (handle_of restart bs i) []) c = Some (Block_NewIterator ?b, Some h, c2)"
        using look(1) dec None c1 data ins(1) True by (simp add: BlockReader_def Status_ok_def)
      then show ?thesis using release [OF ins(2,4,3)] by blast
    qed
  qed
qed

lemma InternalGet_cached:
  assumes "random_access_file (raf_Read file) F" "table_opened opts file bs table" "table_layout opts bs F" "length F < 2 ^ 32"
    "sorted_blocks Compare valid bs" "valid k" "inv c" "room c" "blocks_cached holds opts bs table c"
  shows "\<exists>res c'. InternalGet addr_of (Some cache) table ro k c = Some (OK, res, c') \<and> found Compare same (concat bs) k res
    \<and> inv c' \<and> refs c' = refs c \<and> blocks_cached holds opts bs table c'"
  using InternalGet_found [OF assms(2-6), of addr_of "Some cache" ro c "\<lambda>c'. inv c' \<and> refs c' = refs c \<and> blocks_cached holds opts bs table c'"]
    BlockReader_cached [OF assms(1-4) _ assms(7-9)] assms(7,9) by blast

end

end
