(* ===== verification/Ldb_Table_Props.thy ===== *)
theory Ldb_Table_Props
  imports Ldb_Table_Lookup
begin

text \<open>
  The tables of a database: the options it runs with meet the contract of \<open>Ldb_Table_Lookup\<close>, so what
  \<^verbatim>\<open>TableBuilder\<close> writes to a posix file is found again by \<^verbatim>\<open>Table::InternalGet\<close> in the mapped file.
\<close>

section \<open>The options of a database\<close>

text \<open>Options of a user who keeps the bytewise order, with the built-in filter policy or none.\<close>

definition user_options :: "Options \<Rightarrow> bool" where
  "user_options src \<longleftrightarrow>
     op_Compare src = Bytewise_Compare \<and> op_FindShortestSeparator src = Bytewise_FindShortestSeparator
     \<and> op_FindShortSuccessor src = Bytewise_FindShortSuccessor \<and> 0 < op_block_restart_interval src
     \<and> (op_filter_policy src = None \<or> (\<exists>bits<2 ^ 31. op_filter_policy src = Some (bloom_policy bits)))"

lemma db_table_config:
  assumes "user_options src"
  shows "table_config (InternalKey_Compare Bytewise_Compare) (InternalKey_FindShortestSeparator Bytewise_Compare Bytewise_FindShortestSeparator)
     (InternalKey_FindShortSuccessor Bytewise_Compare Bytewise_FindShortSuccessor) (internal_valid (\<lambda>_. True)) same_user_key (SanitizeOptions src)"
proof (intro table_config.intro internal_keys.table_keys_axioms table_config_axioms.intro)
  let ?opts = "SanitizeOptions src"
  show "op_Compare ?opts = InternalKey_Compare Bytewise_Compare"
    "op_FindShortestSeparator ?opts = InternalKey_FindShortestSeparator Bytewise_Compare Bytewise_FindShortestSeparator"
    "op_FindShortSuccessor ?opts = InternalKey_FindShortSuccessor Bytewise_Compare Bytewise_FindShortSuccessor"
    "0 < op_block_restart_interval ?opts"
    using assms by (simp_all add: user_options_def SanitizeOptions_def)
  fix p
  assume "op_filter_policy ?opts = Some p"
  then obtain bits where p: "p = InternalFilterPolicy (bloom_policy bits)" "bits < 2 ^ 31"
    using assms by (auto simp: user_options_def SanitizeOptions_def)
  show "filter_policy (fp_CreateFilter p) (fp_KeyMayMatch p) (\<lambda>keys. length keys < 2 ^ 31)"
  proof
    show "take (length dst) (fp_CreateFilter p keys dst) = dst" for keys dst
      using internal_bloom.append_only [of dst] by (simp add: p(1) InternalFilterPolicy_def bloom_policy_def)
    show "fp_KeyMayMatch p key (drop (length dst) (fp_CreateFilter p keys dst))" if "length keys < 2 ^ 31" "key \<in> set keys" for keys key dst
      using internal_bloom.no_false_negative [OF NewBloomFilterPolicy_ok [OF p(2)] that(2)] that(1)
      by (simp add: p(1) InternalFilterPolicy_def bloom_policy_def)
  qed
  show "fp_KeyMayMatch p k f = fp_KeyMayMatch p k' f" if "same_user_key k k'" for k k' f
    using that by (simp add: p(1) InternalFilterPolicy_def InternalFilter_KeyMayMatch_def)
qed

interpretation default_table: table_config "InternalKey_Compare Bytewise_Compare"
    "InternalKey_FindShortestSeparator Bytewise_Compare Bytewise_FindShortestSeparator"
    "InternalKey_FindShortSuccessor Bytewise_Compare Bytewise_FindShortSuccessor" "internal_valid (\<lambda>_. True)" same_user_key
    "SanitizeOptions Options_init"
  by (rule db_table_config) (simp add: user_options_def Options_init_def)

section \<open>Properties\<close>

abbreviation posix_mapped_file :: "posix \<Rightarrow> string \<Rightarrow> byte list \<Rightarrow> RandomAccessFile" where
  "posix_mapped_file os name bytes \<equiv> \<lparr>raf_Read = PosixMmapReadableFile_Read os name bytes, raf_scratch = False\<rparr>"

abbreviation internal_sorted :: "(slice \<times> slice) list \<Rightarrow> bool" where
  "internal_sorted \<equiv> sorted_entries (InternalKey_Compare Bytewise_Compare) (internal_valid (\<lambda>_. True))"

definition built_by :: "posix \<Rightarrow> Options \<Rightarrow> (slice \<times> slice) list \<Rightarrow> byte list \<Rightarrow> bool" where
  "built_by os opts kvs bytes \<longleftrightarrow>
     (\<exists>addr_of f tb tb'. posix_contents f = []
        \<and> TableBuilder_adds (dest_file (PosixWritableFile_Append os) (PosixWritableFile_Flush os)) addr_of kvs (TableBuilder_init opts f) = Some tb
        \<and> TableBuilder_Finish (dest_file (PosixWritableFile_Append os) (PosixWritableFile_Flush os)) addr_of tb = Some (OK, tb')
        \<and> bytes = posix_contents (tb_file tb'))"

lemma built_by_layout:
  assumes "built_by os opts kvs bytes" "length bytes < 2 ^ 32" "0 < op_block_restart_interval opts" "internal_sorted kvs"
  shows "\<exists>bs. concat bs = kvs \<and> table_layout opts bs bytes \<and> sorted_blocks (InternalKey_Compare Bytewise_Compare) (internal_valid (\<lambda>_. True)) bs"
proof -
  obtain addr_of f tb tb' where b: "posix_contents f = []"
      "TableBuilder_adds (dest_file (PosixWritableFile_Append os) (PosixWritableFile_Flush os)) addr_of kvs (TableBuilder_init opts f) = Some tb"
      "TableBuilder_Finish (dest_file (PosixWritableFile_Append os) (PosixWritableFile_Flush os)) addr_of tb = Some (OK, tb')"
      "bytes = posix_contents (tb_file tb')"
    using assms(1) unfolding built_by_def by blast
  have "op_filter_policy opts = None \<or> length (posix_contents (tb_file tb')) < 2 ^ 63" using assms(2) b(4) by simp
  from posix_out.built_table [OF b(1-3) assms(3) this] show ?thesis using assms(4) b(4) by (auto simp: sorted_blocks_def)
qed

lemma built_by_succeeds:
  assumes "calm os"
  shows "\<exists>bytes. built_by os opts kvs bytes"
proof -
  let ?d = "dest_file (PosixWritableFile_Append os) (PosixWritableFile_Flush os)" and ?f = "PosixWritableFile_init ''f'' 3 empty_kernel"
  have "tb_file (TableBuilder_init opts ?f) = ?f" "tb_status (TableBuilder_init opts ?f) = OK" "policy_kept (TableBuilder_init opts ?f)"
    by (simp_all add: TableBuilder_init_def) (cases "op_filter_policy opts"; simp add: policy_kept_def)
  then have f: "posix_reliable.fine os (TableBuilder_init opts ?f)" using assms unfolding posix_reliable.fine_def by blast
  obtain tb where tb: "TableBuilder_adds ?d (\<lambda>_. 0) kvs (TableBuilder_init opts ?f) = Some tb" "posix_reliable.fine os tb"
    using posix_reliable.adds_succeed [OF f] by blast
  moreover obtain tb' where "TableBuilder_Finish ?d (\<lambda>_. 0) tb = Some (OK, tb')"
    using posix_reliable.Finish_succeeds [OF tb(2)] by blast
  moreover have "posix_contents ?f = []" by (simp add: PosixWritableFile_init_def posix_contents_def empty_kernel_def)
  ultimately show ?thesis unfolding built_by_def by blast
qed

text \<open>A table with one entry and no filter is small.\<close>

lemma one_entry_length:
  assumes "built_by os opts [kv] bytes" "op_filter_policy opts = None" "op_block_restart_interval opts = 16"
  shows "length bytes \<le> 300 + length (fst kv) + length (snd kv) + length (op_FindShortSuccessor opts (fst kv))"
proof -
  obtain addr_of f tb tb' where b: "posix_contents f = []"
      "TableBuilder_adds (dest_file (PosixWritableFile_Append os) (PosixWritableFile_Flush os)) addr_of [kv] (TableBuilder_init opts f) = Some tb"
      "TableBuilder_Finish (dest_file (PosixWritableFile_Append os) (PosixWritableFile_Flush os)) addr_of tb = Some (OK, tb')"
      "bytes = posix_contents (tb_file tb')"
    using assms(1) unfolding built_by_def by blast
  obtain bs where bs: "concat bs = [kv]" "\<forall>b\<in>set bs. b \<noteq> []" "table_layout opts bs bytes"
    using posix_out.built_table [OF b(1-3)] assms(2,3) b(4) by auto
  have one: "bs = [[kv]]"
  proof (cases bs)
    case (Cons b bs')
    then obtain x b' where "b = x # b'" using bs(2) by (cases b) auto
    then have "x = kv" "b' = []" "concat bs' = []" using bs(1) Cons by simp_all
    then show ?thesis using Cons bs(2) \<open>b = _\<close> by (cases bs') auto
  qed (use bs(1) in simp)
  let ?ie = "index_entries opts 16 bs"
  have ie: "?ie = [(op_FindShortSuccessor opts (fst kv), BlockHandle_EncodeTo (handle_of 16 bs 0) [])]"
    by (simp add: index_entries_def separators_def one index_entry_def)
  have "offs 16 [kv] 1 \<le> 15 + length (fst kv) + length (snd kv)" using entry_enc_length_le [of 16 "[kv]" 0] by (simp add: offs_Suc)
  moreover have "offs 1 ?ie 1 \<le> 35 + length (op_FindShortSuccessor opts (fst kv))"
    using entry_enc_length_le [of 1 ?ie 0] BlockHandle_length [of "handle_of 16 bs 0"] by (simp add: offs_Suc ie kMaxEncodedLength_def)
  moreover have "length bytes = length (block_bytes 16 [kv]) + length (block_bytes 16 []) + length (block_bytes 1 ?ie) + 3 * kBlockTrailerSize + kEncodedLength"
    using bs(3) by (auto simp: table_layout_def Let_def assms(2,3) filter_part_def one data_bytes_def stored_length Footer_length)
  ultimately show ?thesis
    by (simp add: block_bytes_length ie restart_count_def kBlockTrailerSize_def kEncodedLength_def kMaxEncodedLength_def)
qed

lemma example_table:
  "user_options Options_init"
  "internal_sorted [(PutFixed64 [97] 257, [1])]"
  "\<exists>bytes. built_by stutter (SanitizeOptions Options_init) [(PutFixed64 [97] 257, [1])] bytes \<and> length bytes < 2 ^ 32"
proof -
  let ?opts = "SanitizeOptions Options_init" and ?kv = "(PutFixed64 [97] 257, [1]) :: slice \<times> slice"
  show "user_options Options_init" "internal_sorted [(PutFixed64 [97] 257, [1])]"
    by (simp_all add: user_options_def Options_init_def sorted_entries_def internal_valid_def)
  have opts: "op_filter_policy ?opts = None" "op_block_restart_interval ?opts = 16" by (simp_all add: Options_init_def SanitizeOptions_def)
  obtain bytes where b: "built_by stutter ?opts [?kv] bytes" using built_by_succeeds [OF calm_stutter] by blast
  have "op_FindShortSuccessor ?opts (fst ?kv) = fst ?kv"
    by (simp add: SanitizeOptions_def Options_init_def InternalKey_FindShortSuccessor_def Bytewise_FindShortSuccessor_def
        ShortSuccessor_loop.simps [of "[97]" 0] Let_def)
  then have "length bytes < 2 ^ 32" using one_entry_length [OF b opts] by (simp add: PutFixed64_def EncodeFixed64_def)
  then show "\<exists>bytes. built_by stutter ?opts [?kv] bytes \<and> length bytes < 2 ^ 32" using b by blast
qed



end
