(* ===== verification/Ldb_Version_Get.thy ===== *)
theory Ldb_Version_Get
  imports Ldb_Version_Props Ldb_Table_Props
begin

text \<open>
  \<^verbatim>\<open>Version::Get\<close> over any source of tables that keeps the contract of \<^verbatim>\<open>TableCache::Get\<close> (locale \<open>table_source\<close>). A version keeps newer
  entries of a user key in front of older ones: level 0 by file number, the other levels by their sorted, disjoint files, and each
  level in front of the next (\<open>version_ok\<close>). A lookup then returns the newest entry that is visible at its snapshot.
\<close>

section \<open>Visible entries\<close>

definition visible :: "(slice \<times> slice) list \<Rightarrow> slice \<Rightarrow> SequenceNumber \<Rightarrow> (SequenceNumber \<times> ValueType \<times> slice) set" where
  "visible kvs u s = {(q, t, x). \<exists>k. (k, x) \<in> set kvs \<and> ParseInternalKey k = Some \<lparr>user_key = u, sequence = q, key_type = t\<rparr> \<and> q \<le> s}"

definition newest :: "(SequenceNumber \<times> 'a) set \<Rightarrow> SequenceNumber \<times> 'a \<Rightarrow> bool" where
  "newest E e \<longleftrightarrow> e \<in> E \<and> (\<forall>e'\<in>E. fst e' \<le> fst e)"

lemma newest_Un_left: "newest A e \<Longrightarrow> (\<And>e'. e' \<in> B \<Longrightarrow> fst e' \<le> fst e) \<Longrightarrow> newest (A \<union> B) e"
  by (auto simp: newest_def)

text \<open>Keys as the database writes them.\<close>

definition written_key :: "slice \<Rightarrow> bool" where
  "written_key k \<longleftrightarrow> (\<exists>p. k = AppendInternalKey [] p \<and> sequence p \<le> kMaxSequenceNumber)"

lemma Parse_written:
  assumes "sequence p \<le> kMaxSequenceNumber"
  shows "ParseInternalKey (AppendInternalKey [] p) = Some p"
proof -
  have "DecodeFixed64 (drop (length (user_key p)) (AppendInternalKey [] p)) = PackSequenceAndType (sequence p) (key_type p)"
    using PutFixed64_key(2) [of "user_key p"] by (simp add: key_tag_def AppendInternalKey_tag)
  then show ?thesis
    using Unpack [OF assms] PutFixed64_key(1) [of "user_key p" "PackSequenceAndType (sequence p) (key_type p)"]
    by (cases "key_type p") (auto simp: ParseInternalKey_def Let_def AppendInternalKey_tag ExtractUserKey_def)
qed

lemma written_keyE:
  assumes "written_key k"
  obtains u q t where "k = PutFixed64 u (PackSequenceAndType q t)" "q \<le> kMaxSequenceNumber"
    "ParseInternalKey k = Some \<lparr>user_key = u, sequence = q, key_type = t\<rparr>" "ExtractUserKey k = u" "key_tag k = PackSequenceAndType q t"
proof -
  obtain p where p: "k = AppendInternalKey [] p" "sequence p \<le> kMaxSequenceNumber" using assms by (auto simp: written_key_def)
  show thesis
    by (rule that [of "user_key p" "sequence p" "key_type p"]) (use p Parse_written [OF p(2)] in \<open>simp_all add: AppendInternalKey_tag\<close>)
qed

lemma not_below_lookup:
  assumes "q \<le> kMaxSequenceNumber" "s \<le> kMaxSequenceNumber"
  shows "\<not> icmp (PutFixed64 k (PackSequenceAndType q t)) (internal_key (LookupKey_init u s)) < 0 \<longleftrightarrow> u < k \<or> u = k \<and> q \<le> s"
proof -
  have "PackSequenceAndType s kTypeValue < PackSequenceAndType q t \<longleftrightarrow> s < q"
    using Pack_less_iff [OF assms(2,1)] by auto
  then show ?thesis by (auto simp: icmp_less LookupKey_internal kValueTypeForSeek_def)
qed

section \<open>One table\<close>

definition table_ok :: "FileMetaData \<Rightarrow> (slice \<times> slice) list \<Rightarrow> bool" where
  "table_ok f kvs \<longleftrightarrow> internal_sorted kvs \<and> (\<forall>kv\<in>set kvs. written_key (fst kv))
     \<and> (\<forall>kv\<in>set kvs. \<not> icmp (fst kv) (fm_smallest f) < 0 \<and> \<not> icmp (fm_largest f) (fst kv) < 0)
     \<and> fm_largest f \<in> fst ` set kvs"

lemma find_split: "List.find P xs = Some x \<Longrightarrow> \<exists>ys zs. xs = ys @ x # zs \<and> P x \<and> (\<forall>y\<in>set ys. \<not> P y)"
proof (induction xs)
  case (Cons y xs)
  show ?case
  proof (cases "P y")
    case True
    then show ?thesis using Cons.prems by (intro exI [of _ "[]"] exI [of _ xs]) auto
  next
    case False
    then obtain ys zs where "xs = ys @ x # zs" "P x" "\<forall>y\<in>set ys. \<not> P y" using Cons by auto
    then show ?thesis using False by (intro exI [of _ "y # ys"] exI [of _ zs]) auto
  qed
qed simp

lemma find_sorted_least:
  assumes "internal_sorted kvs" "List.find (\<lambda>kv. \<not> icmp (fst kv) k < 0) kvs = Some kv" "kv' \<in> set kvs" "\<not> icmp (fst kv') k < 0"
  shows "\<not> icmp (fst kv') (fst kv) < 0"
proof -
  obtain xs ys where xs: "kvs = xs @ kv # ys" "\<forall>x\<in>set xs. icmp (fst x) k < 0"
    using find_split [OF assms(2)] by blast
  have "sorted_wrt (\<lambda>a b. icmp (fst a) (fst b) < 0) kvs" using assms(1) by (simp add: sorted_entries_def)
  then have "kv' = kv \<or> icmp (fst kv) (fst kv') < 0" using assms(3,4) xs by (auto simp: sorted_wrt_append)
  then show ?thesis using icmp_irrefl icmp_trans by blast
qed

text \<open>What \<^verbatim>\<open>SaveValue\<close> makes of the entry a table returns.\<close>

definition saved :: "slice \<Rightarrow> (slice \<times> slice) option \<Rightarrow> byte list \<Rightarrow> SaverState \<times> byte list" where
  "saved u res value = (case res of None \<Rightarrow> (kNotFound, value) | Some (k, x) \<Rightarrow> SaveValue Bytewise_Compare u k x (kNotFound, value))"

lemma table_search:
  assumes t: "table_ok f kvs" and s: "s \<le> kMaxSequenceNumber"
    and res: "found icmp same_user_key kvs (internal_key (LookupKey_init u s)) res"
  shows "saved u res value = (kNotFound, value) \<and> visible kvs u s = {}
    \<or> (\<exists>q t x. newest (visible kvs u s) (q, t, x) \<and> saved u res value = (if t = kTypeValue then (kFound, x) else (kDeleted, value)))"
proof -
  let ?ik = "internal_key (LookupKey_init u s)"
  have w: "written_key k" if "(k, x) \<in> set kvs" for k x using t that by (auto simp: table_ok_def)
  have vis: "\<not> icmp k ?ik < 0 \<and> ExtractUserKey k = u \<and> key_tag k = PackSequenceAndType q t \<and> q \<le> kMaxSequenceNumber"
    if "(k, x) \<in> set kvs" "ParseInternalKey k = Some \<lparr>user_key = u, sequence = q, key_type = t\<rparr>" "q \<le> s" for k x q t
    using written_keyE [OF w [OF that(1)]] that(2,3) not_below_lookup [OF _ s] by (metis (no_types, lifting) ParsedInternalKey.iffs option.inject)
  show ?thesis
  proof (cases res)
    case None
    have "ExtractUserKey ?ik = u" by (simp add: LookupKey_internal)
    then have "visible kvs u s = {}" using res None vis by (fastforce simp: found_def visible_def)
    then show ?thesis using None by (simp add: saved_def)
  next
    case (Some kv)
    obtain k x where kv: "kv = (k, x)" by (cases kv)
    have find: "List.find (\<lambda>kv. \<not> icmp (fst kv) ?ik < 0) kvs = Some (k, x)" using res Some kv by (simp add: found_def)
    obtain ys zs where "kvs = ys @ (k, x) # zs" "\<not> icmp (fst (k, x)) ?ik < 0" using find_split [OF find] by blast
    then have in_kvs: "(k, x) \<in> set kvs" "\<not> icmp k ?ik < 0" by auto
    obtain k' q t where k: "k = PutFixed64 k' (PackSequenceAndType q t)" "q \<le> kMaxSequenceNumber"
        "ParseInternalKey k = Some \<lparr>user_key = k', sequence = q, key_type = t\<rparr>" "ExtractUserKey k = k'" "key_tag k = PackSequenceAndType q t"
      using written_keyE [OF w [OF in_kvs(1)]] by blast
    have u: "u < k' \<or> u = k' \<and> q \<le> s" using in_kvs(2) not_below_lookup [OF k(2) s] k(1) by simp
    have first: "\<not> icmp y k < 0" if "(y, z) \<in> set kvs" "\<not> icmp y ?ik < 0" for y z
      using find_sorted_least [OF _ find that(1)] that(2) t by (simp add: table_ok_def)
    show ?thesis
    proof (cases "u = k'")
      case True
      have "(q, t, x) \<in> visible kvs u s" using in_kvs(1) k(3) u True by (auto simp: visible_def)
      moreover have "q' \<le> q" if memb: "(q', t', x') \<in> visible kvs u s" for q' t' x'
      proof -
        obtain y where y: "(y, x') \<in> set kvs" "ParseInternalKey y = Some \<lparr>user_key = u, sequence = q', key_type = t'\<rparr>" "q' \<le> s"
          using memb unfolding visible_def by blast
        note v = vis [OF y]
        then have "\<not> PackSequenceAndType q t < PackSequenceAndType q' t'" using first [OF y(1)] k(4,5) True by (auto simp: icmp_less)
        then show "q' \<le> q" using Pack_less_iff [OF k(2), of q'] v by auto
      qed
      ultimately have "newest (visible kvs u s) (q, t, x)" by (auto simp: newest_def)
      moreover have "saved u res value = (if t = kTypeValue then (kFound, x) else (kDeleted, value))"
        using Some kv k(3) True by (simp add: saved_def SaveValue_def Bytewise_less)
      ultimately show ?thesis by blast
    next
      case False
      then have "u < k'" using u by auto
      have "visible kvs u s = {}"
      proof (rule ccontr)
        assume "visible kvs u s \<noteq> {}"
        then obtain q' t' x' y where y: "(y, x') \<in> set kvs" "ParseInternalKey y = Some \<lparr>user_key = u, sequence = q', key_type = t'\<rparr>" "q' \<le> s"
          by (auto simp: visible_def)
        have "\<not> icmp y k < 0" using first [OF y(1)] vis [OF y] by blast
        then show False using vis [OF y] \<open>u < k'\<close> k(4) by (simp add: icmp_less)
      qed
      moreover have "saved u res value = (kNotFound, value)"
        using Some kv k(3) False by (simp add: saved_def SaveValue_def Bytewise_less)
      ultimately show ?thesis by simp
    qed
  qed
qed

section \<open>The files of a version\<close>

definition newer :: "(slice \<times> slice) list \<Rightarrow> (slice \<times> slice) list \<Rightarrow> bool" where
  "newer kvs kvs' \<longleftrightarrow> (\<forall>kv\<in>set kvs. \<forall>kv'\<in>set kvs'. ExtractUserKey (fst kv) = ExtractUserKey (fst kv') \<longrightarrow> key_tag (fst kv') < key_tag (fst kv))"

definition entries :: "(u64 \<Rightarrow> u64 \<Rightarrow> (slice \<times> slice) list option) \<Rightarrow> metas \<Rightarrow> fptr \<Rightarrow> (slice \<times> slice) list" where
  "entries contents meta f = (case contents (fm_number (meta f)) (fm_file_size (meta f)) of Some kvs \<Rightarrow> kvs | None \<Rightarrow> [])"

definition file_present :: "(u64 \<Rightarrow> u64 \<Rightarrow> (slice \<times> slice) list option) \<Rightarrow> metas \<Rightarrow> fptr \<Rightarrow> bool" where
  "file_present contents meta f \<longleftrightarrow> contents (fm_number (meta f)) (fm_file_size (meta f)) \<noteq> None \<and> table_ok (meta f) (entries contents meta f)"

definition level_files_ok :: "(u64 \<Rightarrow> u64 \<Rightarrow> (slice \<times> slice) list option) \<Rightarrow> metas \<Rightarrow> nat \<Rightarrow> fptr list \<Rightarrow> bool" where
  "level_files_ok contents meta level files \<longleftrightarrow> (\<forall>f\<in>set files. file_present contents meta f)
     \<and> (if level = 0 then sorted_wrt (\<lambda>f g. newer (entries contents meta f) (entries contents meta g)) (newest_first meta files)
        else level_sorted meta files)"

definition version_ok :: "(u64 \<Rightarrow> u64 \<Rightarrow> (slice \<times> slice) list option) \<Rightarrow> metas \<Rightarrow> Version \<Rightarrow> bool" where
  "version_ok contents meta v \<longleftrightarrow> length (v_files v) = kNumLevels \<and> (\<forall>l<kNumLevels. level_files_ok contents meta l (v_files v ! l))
     \<and> sorted_wrt (\<lambda>fs gs. \<forall>f\<in>set fs. \<forall>g\<in>set gs. newer (entries contents meta f) (entries contents meta g)) (v_files v)"

definition version_entries :: "(u64 \<Rightarrow> u64 \<Rightarrow> (slice \<times> slice) list option) \<Rightarrow> metas \<Rightarrow> Version \<Rightarrow> (slice \<times> slice) list" where
  "version_entries contents meta v = concat (map (entries contents meta) (concat (v_files v)))"

lemma visible_concat: "visible (concat xs) u s = (\<Union>kvs\<in>set xs. visible kvs u s)"
  by (auto simp: visible_def)

lemma visible_tag:
  assumes "table_ok f kvs" "(q, t, x) \<in> visible kvs u s"
  obtains k where "(k, x) \<in> set kvs" "ExtractUserKey k = u" "key_tag k = PackSequenceAndType q t" "q \<le> kMaxSequenceNumber" "q \<le> s"
proof -
  obtain k where k: "(k, x) \<in> set kvs" "ParseInternalKey k = Some \<lparr>user_key = u, sequence = q, key_type = t\<rparr>" "q \<le> s"
    using assms(2) unfolding visible_def by blast
  have "written_key k" using assms(1) k(1) by (auto simp: table_ok_def)
  then obtain u' q' t' where w: "q' \<le> kMaxSequenceNumber" "ParseInternalKey k = Some \<lparr>user_key = u', sequence = q', key_type = t'\<rparr>"
    "ExtractUserKey k = u'" "key_tag k = PackSequenceAndType q' t'" by (rule written_keyE)
  show thesis by (rule that [of k]) (use k w in auto)
qed

lemma newer_visible:
  assumes "table_ok f kvs" "table_ok f' kvs'" "newer kvs kvs'" "e \<in> visible kvs u s" "e' \<in> visible kvs' u s"
  shows "fst e' \<le> fst e"
proof -
  obtain q t x q' t' x' where e: "e = (q, t, x)" "e' = (q', t', x')" by (cases e, cases e')
  obtain k where k: "(k, x) \<in> set kvs" "ExtractUserKey k = u" "key_tag k = PackSequenceAndType q t" "q \<le> kMaxSequenceNumber"
    using visible_tag [OF assms(1) assms(4) [unfolded e]] by blast
  obtain k' where k': "(k', x') \<in> set kvs'" "ExtractUserKey k' = u" "key_tag k' = PackSequenceAndType q' t'" "q' \<le> kMaxSequenceNumber"
    using visible_tag [OF assms(2) assms(5) [unfolded e]] by blast
  have "PackSequenceAndType q' t' < PackSequenceAndType q t" using assms(3) k k' by (force simp: newer_def)
  then show ?thesis using Pack_less_iff [OF k'(4) k(4)] e by auto
qed

lemma set_newest_first: "set (newest_first meta fs) = set fs"
  by (simp add: newest_first_def)

lemma newest_first_filter: "newest_first meta (filter P fs) = filter P (newest_first meta fs)"
  unfolding newest_first_def rev_filter [symmetric] filter_sort ..

section \<open>Which files a lookup leaves out\<close>

lemma file_present_range:
  assumes "file_present contents meta f"
  shows "\<And>kv. kv \<in> set (entries contents meta f) \<Longrightarrow> user_smallest (meta f) \<le> ExtractUserKey (fst kv) \<and> ExtractUserKey (fst kv) \<le> user_largest (meta f)"
  using assms by (force simp: file_present_def table_ok_def icmp_less user_smallest_def user_largest_def not_less)

lemma visible_user: "table_ok f kvs \<Longrightarrow> e \<in> visible kvs u s \<Longrightarrow> \<exists>kv\<in>set kvs. ExtractUserKey (fst kv) = u"
  by (cases e) (metis fst_conv visible_tag)

lemma outside_invisible:
  assumes "file_present contents meta f" "u < user_smallest (meta f) \<or> user_largest (meta f) < u"
  shows "visible (entries contents meta f) u s = {}"
proof (rule ccontr)
  assume "visible (entries contents meta f) u s \<noteq> {}"
  then obtain kv where "kv \<in> set (entries contents meta f)" "ExtractUserKey (fst kv) = u"
    using visible_user assms(1) unfolding file_present_def by blast
  then show False using file_present_range [OF assms(1)] assms(2) by fastforce
qed

lemma level_newer:
  assumes "level_sorted meta files" "\<forall>f\<in>set files. file_present contents meta f" "i < j" "j < length files"
  shows "newer (entries contents meta (files ! i)) (entries contents meta (files ! j))"
proof -
  have p: "file_present contents meta (files ! i)" "file_present contents meta (files ! j)" using assms by auto
  have "icmp (fst kv) (fst kv') < 0" if "kv \<in> set (entries contents meta (files ! i))" "kv' \<in> set (entries contents meta (files ! j))" for kv kv'
  proof -
    have "\<not> icmp (fm_largest (meta (files ! i))) (fst kv) < 0" "\<not> icmp (fst kv') (fm_smallest (meta (files ! j))) < 0"
      using p that by (auto simp: file_present_def table_ok_def)
    then show ?thesis using level_sorted_nth(1) [OF assms(1,3,4)] icmp_less_le icmp_le_less by blast
  qed
  then show ?thesis by (force simp: newer_def icmp_less)
qed

lemma below_lookup_invisible:
  assumes "table_ok f kvs" "s \<le> kMaxSequenceNumber" "\<forall>kv\<in>set kvs. icmp (fst kv) (internal_key (LookupKey_init u s)) < 0"
  shows "visible kvs u s = {}"
proof (rule ccontr)
  assume "visible kvs u s \<noteq> {}"
  then obtain q t x k where k: "(k, x) \<in> set kvs" "ExtractUserKey k = u" "key_tag k = PackSequenceAndType q t" "q \<le> kMaxSequenceNumber" "q \<le> s"
    using visible_tag [OF assms(1)] by (metis equals0I prod_cases3)
  have "icmp k (internal_key (LookupKey_init u s)) < 0" using assms(3) k(1) by auto
  then show False using k(2-) Pack_less_iff [OF assms(2) k(4)] by (auto simp: icmp_less LookupKey_internal kValueTypeForSeek_def)
qed

text \<open>
  The files that are searched have the newest visible entry of the level, and if they have none, nothing
  is visible in the level.
\<close>

definition searched_ok :: "(u64 \<Rightarrow> u64 \<Rightarrow> (slice \<times> slice) list option) \<Rightarrow> metas \<Rightarrow> slice \<Rightarrow> SequenceNumber \<Rightarrow> fptr list \<Rightarrow> fptr list \<Rightarrow> bool" where
  "searched_ok contents meta u s files fs \<longleftrightarrow> set fs \<subseteq> set files
     \<and> sorted_wrt (\<lambda>f g. newer (entries contents meta f) (entries contents meta g)) fs
     \<and> ((\<forall>f\<in>set fs. visible (entries contents meta f) u s = {}) \<longrightarrow> (\<forall>f\<in>set files. visible (entries contents meta f) u s = {}))
     \<and> (\<forall>e. newest (\<Union>f\<in>set fs. visible (entries contents meta f) u s) e \<longrightarrow> newest (\<Union>f\<in>set files. visible (entries contents meta f) u s) e)"

lemma level0_searched:
  assumes "level_files_ok contents meta 0 files"
  shows "searched_ok contents meta u s files (level0_files Bytewise_Compare meta files u)"
proof -
  let ?P = "\<lambda>f. user_smallest (meta f) \<le> u \<and> u \<le> user_largest (meta f)"
  have fs: "level0_files Bytewise_Compare meta files u = filter ?P (newest_first meta files)"
    by (simp add: level0_files_def newest_first_filter Bytewise_less)
  have "visible (entries contents meta f) u s = {}" if "f \<in> set files" "\<not> ?P f" for f
    using outside_invisible that assms by (fastforce simp: level_files_ok_def not_le)
  then have "(\<Union>f\<in>set files. visible (entries contents meta f) u s) = (\<Union>f\<in>set (filter ?P (newest_first meta files)). visible (entries contents meta f) u s)"
    by (auto simp: set_newest_first)
  note union = this
  have sorted: "sorted_wrt (\<lambda>f g. newer (entries contents meta f) (entries contents meta g)) (filter ?P (newest_first meta files))"
    by (rule sorted_wrt_filter) (use assms in \<open>simp add: level_files_ok_def\<close>)
  have "(\<forall>f\<in>set (filter ?P (newest_first meta files)). visible (entries contents meta f) u s = {}) \<longrightarrow> (\<forall>f\<in>set files. visible (entries contents meta f) u s = {})"
    using union by blast
  moreover have "set (filter ?P (newest_first meta files)) \<subseteq> set files" by (auto simp: set_newest_first)
  ultimately show ?thesis using sorted unfolding searched_ok_def fs union by blast
qed

lemma sorted_level_searched:
  assumes l: "level_sorted meta files" "\<forall>f\<in>set files. file_present contents meta f" and s: "s \<le> kMaxSequenceNumber"
    and i: "i \<le> length files" "\<forall>j<i. icmp (fm_largest (meta (files ! j))) (internal_key (LookupKey_init u s)) < 0"
      "\<forall>j. i \<le> j \<and> j < length files \<longrightarrow> \<not> icmp (fm_largest (meta (files ! j))) (internal_key (LookupKey_init u s)) < 0"
  shows "searched_ok contents meta u s files
    (if i \<ge> length files then [] else if u < user_smallest (meta (files ! i)) then [] else [files ! i])"
proof -
  let ?E = "\<lambda>f. entries contents meta f" and ?ik = "internal_key (LookupKey_init u s)"
  have present: "file_present contents meta (files ! j)" if "j < length files" for j using l(2) that by simp
  have before: "visible (?E (files ! j)) u s = {}" if "j < i" for j
  proof (rule below_lookup_invisible [OF _ s])
    have j: "j < length files" using that i(1) by simp
    show t: "table_ok (meta (files ! j)) (?E (files ! j))" using present [OF j] by (simp add: file_present_def)
    have "icmp (fm_largest (meta (files ! j))) ?ik < 0" using i(2) that by simp
    then show "\<forall>kv\<in>set (?E (files ! j)). icmp (fst kv) ?ik < 0" using t icmp_le_less unfolding table_ok_def by blast
  qed
  have split: "f \<in> set files \<Longrightarrow> \<exists>j<length files. f = files ! j" for f by (auto simp: in_set_conv_nth)
  consider (none) "i = length files" | (past) "i < length files" "u < user_smallest (meta (files ! i))"
    | (one) "i < length files" "\<not> u < user_smallest (meta (files ! i))" using i(1) by linarith
  then show ?thesis
  proof cases
    case none
    then have "\<forall>f\<in>set files. visible (?E f) u s = {}" using before split by blast
    then show ?thesis using none by (simp add: searched_ok_def)
  next
    case past
    have "visible (?E (files ! j)) u s = {}" if "i \<le> j" "j < length files" for j
      by (rule outside_invisible [OF present [OF that(2)]]) (use less_le_trans [OF past(2) level_sorted_user [OF l(1) that]] in simp)
    then have "\<forall>f\<in>set files. visible (?E f) u s = {}" using before split by (metis not_le)
    then show ?thesis using past by (simp add: searched_ok_def)
  next
    case one
    let ?f = "files ! i"
    note t = present [OF one(1), unfolded file_present_def, THEN conjunct2]
    have after_newer: "newer (?E ?f) (?E (files ! j))" if "i < j" "j < length files" for j
      by (rule level_newer [OF l that])
    have all_empty: "\<forall>f\<in>set files. visible (?E f) u s = {}" if e: "visible (?E ?f) u s = {}"
    proof
      fix f assume "f \<in> set files"
      then obtain j where j: "j < length files" "f = files ! j" using split by blast
      obtain x where x: "(fm_largest (meta ?f), x) \<in> set (?E ?f)" using t by (auto simp: table_ok_def)
      have nb: "\<not> icmp (fm_largest (meta ?f)) ?ik < 0" using i(3) one(1) by simp
      have w: "written_key (fm_largest (meta ?f))" using t x by (auto simp: table_ok_def)
      obtain u' q t' where k: "fm_largest (meta ?f) = PutFixed64 u' (PackSequenceAndType q t')" "q \<le> kMaxSequenceNumber"
        "ParseInternalKey (fm_largest (meta ?f)) = Some \<lparr>user_key = u', sequence = q, key_type = t'\<rparr>" "ExtractUserKey (fm_largest (meta ?f)) = u'"
        by (rule written_keyE [OF w])
      have "u < u' \<or> u = u' \<and> q \<le> s" using nb not_below_lookup [OF k(2) s] k(1) by simp
      moreover have "\<not> (u = u' \<and> q \<le> s)" using e x k(3) unfolding visible_def by blast
      ultimately have "u < u'" by blast
      then have past: "u < user_largest (meta ?f)" using k(4) by (simp add: user_largest_def)
      show "visible (?E f) u s = {}"
      proof (cases "j < i \<or> j = i")
        case True
        then show ?thesis using before e j(2) by auto
      next
        case False
        then have "icmp (fm_largest (meta ?f)) (fm_smallest (meta (files ! j))) < 0" using level_sorted_nth(1) [OF l(1), of i j] j(1) by simp
        then have "user_largest (meta ?f) \<le> user_smallest (meta (files ! j))" by (auto simp: icmp_less user_largest_def user_smallest_def)
        then have "u < user_smallest (meta (files ! j))" using past by (rule less_le_trans [rotated])
        then show ?thesis using outside_invisible [OF present [OF j(1)]] j(2) by blast
      qed
    qed
    have "newest (\<Union>f\<in>set files. visible (?E f) u s) e" if e: "newest (visible (?E ?f) u s) e" for e
    proof -
      have "fst e' \<le> fst e" if e': "e' \<in> visible (?E f) u s" "f \<in> set files" for e' f
      proof -
        obtain j where j: "j < length files" "f = files ! j" using split e'(2) by blast
        consider "j < i" | "j = i" | "i < j" by linarith
        then show ?thesis
        proof cases
          case 1
          then show ?thesis using before e'(1) j(2) by auto
        next
          case 2
          then show ?thesis using e e'(1) j(2) by (auto simp: newest_def)
        next
          case 3
          have "table_ok (meta (files ! j)) (?E (files ! j))" using present [OF j(1)] by (simp add: file_present_def)
          then show ?thesis using newer_visible [OF t _ after_newer [OF 3 j(1)]] e e'(1) unfolding newest_def j(2) by blast
        qed
      qed
      then show ?thesis using e one(1) unfolding newest_def by (auto intro!: bexI [of _ ?f])
    qed
    then show ?thesis using one all_empty by (simp add: searched_ok_def)
  qed
qed

lemma files_to_search_ok:
  assumes "level_files_ok contents meta level files" "s \<le> kMaxSequenceNumber"
  shows "\<exists>fs. files_to_search Bytewise_Compare meta level files u (internal_key (LookupKey_init u s)) = Some fs \<and> searched_ok contents meta u s files fs"
proof (cases "files = [] \<or> level = 0")
  case True
  then show ?thesis using level0_searched [of contents meta files u s] assms(1)
    by (cases "files = []") (auto simp: files_to_search_def searched_ok_def)
next
  case False
  then have l: "level_sorted meta files" "\<forall>f\<in>set files. file_present contents meta f" using assms(1) by (auto simp: level_files_ok_def)
  obtain r where r: "r \<le> length files" "FindFile icmp meta files (internal_key (LookupKey_init u s)) = Some r"
      "\<forall>j<r. icmp (fm_largest (meta (files ! j))) (internal_key (LookupKey_init u s)) < 0"
      "\<forall>j. r \<le> j \<and> j < length files \<longrightarrow> \<not> icmp (fm_largest (meta (files ! j))) (internal_key (LookupKey_init u s)) < 0"
    using FindFile_ok [OF l(1)] by blast
  show ?thesis using sorted_level_searched [OF l assms(2) r(1,3,4)] False r(2)
    by (cases "length files \<le> r"; cases "u < user_smallest (meta (files ! r))") (simp_all add: files_to_search_def Bytewise_less)
qed

section \<open>A source of tables\<close>

text \<open>What \<^verbatim>\<open>TableCache::Get\<close> promises for the tables that exist: the entry \<^verbatim>\<open>Table::InternalGet\<close> finds.\<close>

locale table_source =
  fixes get :: "'s table_get"
    and inv :: "'s \<Rightarrow> bool"
    and contents :: "u64 \<Rightarrow> u64 \<Rightarrow> (slice \<times> slice) list option"
  assumes get_found: "inv c \<Longrightarrow> contents n sz = Some kvs \<Longrightarrow> 8 \<le> length k \<Longrightarrow>
      \<exists>res c'. get c options n sz k = Some (OK, res, c') \<and> found icmp same_user_key kvs k res \<and> inv c'"
begin

abbreviation all_visible :: "metas \<Rightarrow> slice \<Rightarrow> SequenceNumber \<Rightarrow> fptr list \<Rightarrow> (SequenceNumber \<times> ValueType \<times> slice) set" where
  "all_visible meta u s files \<equiv> \<Union>f\<in>set files. visible (entries contents meta f) u s"

text \<open>The end of a search that found its entry.\<close>

definition result_of :: "SequenceNumber \<times> ValueType \<times> slice \<Rightarrow> byte list \<Rightarrow> Status \<Rightarrow> byte list \<Rightarrow> bool" where
  "result_of e value st value' \<longleftrightarrow>
     (case e of (q, t, x) \<Rightarrow> (st, value') = (if t = kTypeValue then (OK, x) else (NotFound '''', value)))"

lemma search_files_ok:
  assumes "s \<le> kMaxSequenceNumber" "inv (gs_cache g)" "\<forall>f\<in>set fs. file_present contents meta f"
    and "sorted_wrt (\<lambda>f g. newer (entries contents meta f) (entries contents meta g)) fs"
  shows "\<exists>r g'. search_files get Bytewise_Compare meta options u (internal_key (LookupKey_init u s)) level fs g = Some (r, g') \<and> inv (gs_cache g')
    \<and> (case r of None \<Rightarrow> gs_value g' = gs_value g \<and> all_visible meta u s fs = {}
       | Some st \<Rightarrow> \<exists>e. newest (all_visible meta u s fs) e \<and> result_of e (gs_value g) st (gs_value g'))"
  using assms(2-)
proof (induction fs arbitrary: g)
  case (Cons f fs)
  let ?ik = "internal_key (LookupKey_init u s)" and ?E = "entries contents meta"
  have cs: "gs_value (charge_seek g) = gs_value g" "gs_cache (charge_seek g) = gs_cache g"
    by (simp_all add: charge_seek_def split: option.splits prod.splits)
  have p: "file_present contents meta f" using Cons.prems(2) by simp
  then have "contents (fm_number (meta f)) (fm_file_size (meta f)) = Some (?E f)" "table_ok (meta f) (?E f)"
    by (auto simp: file_present_def entries_def)
  note t = this
  have "8 \<le> length ?ik" by (simp add: LookupKey_internal)
  then obtain res c where r: "get (gs_cache g) options (fm_number (meta f)) (fm_file_size (meta f)) ?ik = Some (OK, res, c)"
    "found icmp same_user_key (?E f) ?ik res" "inv c" using get_found [OF Cons.prems(1) t(1)] by blast
  define g1 where "g1 = (charge_seek g)\<lparr>gs_last := Some (f, level), gs_value := snd (saved u res (gs_value g)), gs_cache := c\<rparr>"
  have step: "search_files get Bytewise_Compare meta options u ?ik level (f # fs) g =
      (case fst (saved u res (gs_value g)) of
         kNotFound \<Rightarrow> search_files get Bytewise_Compare meta options u ?ik level fs g1
       | kFound \<Rightarrow> Some (Some OK, g1) | kDeleted \<Rightarrow> Some (Some (NotFound (status_message '''' '''')), g1)
       | kCorrupt \<Rightarrow> Some (Some (Corruption (status_message ''corrupted key for '' (bytes_string u))), g1))"
    using r(1) cs by (cases "saved u res (gs_value g)"; cases "fst (saved u res (gs_value g))"; cases res) (simp_all add: saved_def g1_def Let_def)
  from table_search [OF t(2) assms(1) r(2), of "gs_value g"] consider
      (none) "saved u res (gs_value g) = (kNotFound, gs_value g)" "visible (?E f) u s = {}"
    | (hit) q y x where "newest (visible (?E f) u s) (q, y, x)" "saved u res (gs_value g) = (if y = kTypeValue then (kFound, x) else (kDeleted, gs_value g))"
    by blast
  then show ?case
  proof cases
    case none
    have g1: "gs_value g1 = gs_value g" "inv (gs_cache g1)" using none(1) r(3) by (simp_all add: g1_def)
    have eq: "search_files get Bytewise_Compare meta options u ?ik level (f # fs) g = search_files get Bytewise_Compare meta options u ?ik level fs g1"
      unfolding step none(1) by simp
    have av: "all_visible meta u s (f # fs) = all_visible meta u s fs" using none(2) by simp
    have "\<forall>f\<in>set fs. file_present contents meta f" "sorted_wrt (\<lambda>f g. newer (?E f) (?E g)) fs" using Cons.prems(2,3) by simp_all
    from Cons.IH [OF g1(2) this] show ?thesis unfolding eq av g1(1) .
  next
    case hit
    have "newest (visible (?E f) u s \<union> all_visible meta u s fs) (q, y, x)"
    proof (rule newest_Un_left [OF hit(1)])
      fix e' assume "e' \<in> all_visible meta u s fs"
      then obtain h where h: "h \<in> set fs" "e' \<in> visible (?E h) u s" by blast
      have "table_ok (meta h) (?E h)" "newer (?E f) (?E h)" using Cons.prems(2,3) h(1) by (auto simp: file_present_def)
      then show "fst e' \<le> fst (q, y, x)" using newer_visible [OF t(2)] hit(1) h(2) unfolding newest_def by blast
    qed
    then have n: "newest (all_visible meta u s (f # fs)) (q, y, x)" by simp
    have st: "status_message '''' '''' = ''''" by (simp add: status_message_def)
    show ?thesis
    proof (cases "y = kTypeValue")
      case True
      then have "search_files get Bytewise_Compare meta options u ?ik level (f # fs) g = Some (Some OK, g1)" "gs_value g1 = x"
        unfolding step hit(2) by (simp_all add: g1_def hit(2))
      then show ?thesis using n r(3) True
        by (intro exI [of _ "Some OK"] exI [of _ g1]) (auto simp: g1_def result_of_def simp del: search_files.simps intro!: exI [of _ q] exI [of _ x])
    next
      case False
      then have "search_files get Bytewise_Compare meta options u ?ik level (f # fs) g = Some (Some (NotFound []), g1)" "gs_value g1 = gs_value g"
        unfolding step hit(2) by (simp_all add: g1_def hit(2) st)
      then show ?thesis using n r(3) False
        by (intro exI [of _ "Some (NotFound [])"] exI [of _ g1]) (auto simp: g1_def result_of_def simp del: search_files.simps intro!: exI [of _ q] exI [of _ y])
    qed
  qed
qed simp

lemma search_levels_ok:
  assumes "s \<le> kMaxSequenceNumber" "inv (gs_cache g)" "\<forall>i<length levels. level_files_ok contents meta (level + i) (levels ! i)"
    and "sorted_wrt (\<lambda>fs gs. \<forall>f\<in>set fs. \<forall>g\<in>set gs. newer (entries contents meta f) (entries contents meta g)) levels"
  shows "\<exists>st g'. search_levels get Bytewise_Compare meta options u (internal_key (LookupKey_init u s)) level levels g = Some (st, g') \<and> inv (gs_cache g')
    \<and> (all_visible meta u s (concat levels) = {} \<and> (st, gs_value g') = (NotFound '''', gs_value g)
       \<or> (\<exists>e. newest (all_visible meta u s (concat levels)) e \<and> result_of e (gs_value g) st (gs_value g')))"
  using assms(2-)
proof (induction levels arbitrary: level g)
  case Nil
  then show ?case by (simp add: status_message_def)
next
  case (Cons files levels)
  let ?ik = "internal_key (LookupKey_init u s)" and ?E = "entries contents meta"
  have l: "level_files_ok contents meta level files" using Cons.prems(2) by (auto dest: spec [of _ 0])
  obtain fs where fs: "files_to_search Bytewise_Compare meta level files u ?ik = Some fs" "searched_ok contents meta u s files fs"
    using files_to_search_ok [OF l assms(1)] by blast
  have present: "\<forall>f\<in>set files. file_present contents meta f" using l by (simp add: level_files_ok_def)
  then have "\<forall>f\<in>set fs. file_present contents meta f" using fs(2) by (auto simp: searched_ok_def)
  moreover have "sorted_wrt (\<lambda>f g. newer (?E f) (?E g)) fs" using fs(2) by (simp add: searched_ok_def)
  ultimately obtain r g' where r: "search_files get Bytewise_Compare meta options u ?ik level fs g = Some (r, g')" "inv (gs_cache g')"
      "case r of None \<Rightarrow> gs_value g' = gs_value g \<and> all_visible meta u s fs = {}
       | Some st \<Rightarrow> \<exists>e. newest (all_visible meta u s fs) e \<and> result_of e (gs_value g) st (gs_value g')"
    using search_files_ok [OF assms(1) Cons.prems(1)] by blast
  show ?case
  proof (cases r)
    case None
    have next_levels: "\<forall>i<length levels. level_files_ok contents meta (Suc level + i) (levels ! i)" using Cons.prems(2) by (auto dest: spec [of _ "Suc _"])
    have "all_visible meta u s files = {}" using None r(3) fs(2) by (auto simp: searched_ok_def)
    then have av: "all_visible meta u s (concat (files # levels)) = all_visible meta u s (concat levels)" by simp
    have gv: "gs_value g' = gs_value g" using None r(3) by simp
    have eq: "search_levels get Bytewise_Compare meta options u ?ik level (files # levels) g = search_levels get Bytewise_Compare meta options u ?ik (Suc level) levels g'"
      using None r(1) fs(1) by simp
    have "sorted_wrt (\<lambda>fs gs. \<forall>f\<in>set fs. \<forall>g\<in>set gs. newer (?E f) (?E g)) levels" using Cons.prems(3) by simp
    from Cons.IH [OF r(2) next_levels this] show ?thesis unfolding eq av gv .
  next
    case (Some st)
    then obtain e where e: "newest (all_visible meta u s fs) e" "result_of e (gs_value g) st (gs_value g')" using r(3) by auto
    have n: "newest (all_visible meta u s files) e" using e(1) fs(2) unfolding searched_ok_def by blast
    have "newest (all_visible meta u s files \<union> all_visible meta u s (concat levels)) e"
    proof (rule newest_Un_left [OF n])
      fix e' assume "e' \<in> all_visible meta u s (concat levels)"
      then obtain gs h where h: "gs \<in> set levels" "h \<in> set gs" "e' \<in> visible (?E h) u s" by auto
      obtain i where "i < length levels" "levels ! i = gs" using h(1) by (meson in_set_conv_nth)
      then have "level_files_ok contents meta (level + Suc i) gs" using Cons.prems(2) by (auto dest: spec [of _ "Suc i"])
      then have th: "table_ok (meta h) (?E h)" using h(2) by (simp add: level_files_ok_def file_present_def)
      obtain f where f: "f \<in> set files" "e \<in> visible (?E f) u s" using n by (auto simp: newest_def)
      have "table_ok (meta f) (?E f)" using present f(1) by (simp add: file_present_def)
      moreover have "newer (?E f) (?E h)" using Cons.prems(3) f(1) h(1,2) by auto
      ultimately show "fst e' \<le> fst e" using newer_visible th f(2) h(3) by blast
    qed
    then have "newest (all_visible meta u s (concat (files # levels))) e" by simp
    moreover have "search_levels get Bytewise_Compare meta options u ?ik level (files # levels) g = Some (st, g')" using r(1) fs(1) Some by simp
    ultimately show ?thesis using e(2) r(2) by blast
  qed
qed

lemma version_visible: "visible (version_entries contents meta v) u s = all_visible meta u s (concat (v_files v))"
  by (auto simp: version_entries_def visible_concat)

lemma Version_Get_newest:
  assumes "version_ok contents meta v" "inv c" "s \<le> kMaxSequenceNumber"
  shows "\<exists>st value' stats c'. Version_Get get Bytewise_Compare meta v options (LookupKey_init u s) value c = Some (st, value', stats, c') \<and> inv c'
    \<and> (visible (version_entries contents meta v) u s = {} \<and> (st, value') = (NotFound '''', value)
       \<or> (\<exists>q t x. newest (visible (version_entries contents meta v) u s) (q, t, x)
            \<and> (st, value') = (if t = kTypeValue then (OK, x) else (NotFound '''', value))))"
proof -
  let ?g = "\<lparr>gs_stats = \<lparr>seek_file = None, seek_file_level = - 1\<rparr>, gs_last = None, gs_value = value, gs_cache = c\<rparr>"
  have key: "lookup_user_key (LookupKey_init u s) = u"
    using LookupKey_internal [of u s] PutFixed64_key(1) by (simp add: lookup_user_key_def internal_key_def Let_def ExtractUserKey_def)
  have "inv (gs_cache ?g)" using assms(2) by simp
  moreover have "\<forall>i<length (v_files v). level_files_ok contents meta (0 + i) (v_files v ! i)" using assms(1) by (simp add: version_ok_def)
  moreover have "sorted_wrt (\<lambda>fs gs. \<forall>f\<in>set fs. \<forall>g\<in>set gs. newer (entries contents meta f) (entries contents meta g)) (v_files v)"
    using assms(1) by (simp add: version_ok_def)
  ultimately obtain st g' where r: "search_levels get Bytewise_Compare meta options u (internal_key (LookupKey_init u s)) 0 (v_files v) ?g = Some (st, g')" "inv (gs_cache g')"
      "all_visible meta u s (concat (v_files v)) = {} \<and> (st, gs_value g') = (NotFound [], gs_value ?g)
       \<or> (\<exists>e. newest (all_visible meta u s (concat (v_files v))) e \<and> result_of e (gs_value ?g) st (gs_value g'))"
    using search_levels_ok [OF assms(3), of ?g "v_files v" meta 0 options u] by blast
  show ?thesis unfolding Version_Get_def key r(1)
    using r(2,3) by (auto simp: version_visible result_of_def)
qed

end

end
