(* ===== verification/Ldb_Skiplist.thy ===== *)
theory Ldb_Skiplist
  imports Pb_Prelude
begin

text \<open>
  \<^verbatim>\<open>db/skiplist.h\<close> with the generator of \<^verbatim>\<open>util/random.h\<close>. Nodes are the elements of a list that only
  grows, as the arena does, and a pointer is an index into it; node 0 is \<^verbatim>\<open>head_\<close> and \<open>None\<close> is the null
  pointer. A link outside the array of its node has no value, so a search that follows one yields
  \<open>None\<close>; that this never happens is part of what is proved. The searches are partial functions because
  nothing in them bounds the number of steps: it is the order of the list that makes them end.
\<close>

section \<open>Random numbers\<close>

definition Random_init :: "u32 \<Rightarrow> u32" where
  "Random_init s =
     (let seed = s AND 0x7fffffff in if seed = 0 \<or> seed = 2147483647 then 1 else seed)"

definition Random_Next :: "u32 \<Rightarrow> u32" where
  "Random_Next seed =
     (let M = 2147483647 :: u32; A = 16807 :: u64;
          product = ucast seed * A;
          seed = ucast (drop_bit 31 product + (product AND ucast M)) :: u32
      in if seed > M then seed - M else seed)"

definition Random_Uniform :: "u32 \<Rightarrow> u32 \<Rightarrow> u32 \<times> u32" where
  "Random_Uniform n seed = (let seed = Random_Next seed in (seed mod n, seed))"

definition Random_OneIn :: "u32 \<Rightarrow> u32 \<Rightarrow> bool \<times> u32" where
  "Random_OneIn n seed = (let seed = Random_Next seed in (seed mod n = 0, seed))"

definition Random_Skewed :: "nat \<Rightarrow> u32 \<Rightarrow> u32 \<times> u32" where
  "Random_Skewed max_log seed =
     (case Random_Uniform (word_of_nat (max_log + 1)) seed of (base, seed) \<Rightarrow> Random_Uniform (push_bit (unat base) 1) seed)"

section \<open>Nodes\<close>

definition kMaxHeight :: nat where
  "kMaxHeight = 12"

record 'k Node =
  nd_key :: 'k
  nd_next :: "nat option list"

record 'k SkipList =
  sl_nodes :: "'k Node list"
  sl_max_height :: nat
  sl_rnd :: u32

definition Node_Next :: "'k Node list \<Rightarrow> nat \<Rightarrow> nat \<Rightarrow> nat option option" where
  "Node_Next nodes x n =
     (if x < length nodes \<and> n < length (nd_next (nodes ! x)) then Some (nd_next (nodes ! x) ! n) else None)"

definition Node_SetNext :: "nat \<Rightarrow> nat \<Rightarrow> nat option \<Rightarrow> 'k Node list \<Rightarrow> 'k Node list" where
  "Node_SetNext x n p nodes = nodes[x := (nodes ! x)\<lparr>nd_next := (nd_next (nodes ! x))[n := p]\<rparr>]"

text \<open>
  The links of a fresh node are stored before the node is linked to; until then they hold no value that
  is read, and the model has null there. The key and the links are all of the node: where the arena
  puts it does not matter.
\<close>

definition NewNode :: "'k \<Rightarrow> nat \<Rightarrow> 'k Node list \<Rightarrow> nat \<times> 'k Node list" where
  "NewNode key height nodes = (length nodes, nodes @ [\<lparr>nd_key = key, nd_next = replicate height None\<rparr>])"

text \<open>The head has room for all levels; its key is never looked at.\<close>

definition SkipList_init :: "'k \<Rightarrow> 'k SkipList" where
  "SkipList_init any =
     \<lparr>sl_nodes = snd (NewNode any kMaxHeight []), sl_max_height = 1, sl_rnd = Random_init 0xdeadbeef\<rparr>"

function RandomHeight_loop :: "nat \<Rightarrow> u32 \<Rightarrow> nat \<times> u32" where
  "RandomHeight_loop height rnd =
     (if height < kMaxHeight
      then let rnd = Random_Next rnd
           in if rnd mod 4 = 0 then RandomHeight_loop (height + 1) rnd else (height, rnd)
      else (height, rnd))"
  by pat_completeness auto
termination
  by (relation "measure (\<lambda>(height, rnd). kMaxHeight - height)") auto

declare RandomHeight_loop.simps [simp del]

definition RandomHeight :: "u32 \<Rightarrow> nat \<times> u32" where
  "RandomHeight rnd = RandomHeight_loop 1 rnd"

section \<open>Searches\<close>

definition KeyIsAfterNode :: "('k \<Rightarrow> 'k \<Rightarrow> int) \<Rightarrow> 'k Node list \<Rightarrow> 'k \<Rightarrow> nat option \<Rightarrow> bool" where
  "KeyIsAfterNode cmp nodes key n =
     (case n of None \<Rightarrow> False | Some i \<Rightarrow> cmp (nd_key (nodes ! i)) key < 0)"

text \<open>\<open>prev\<close> is \<open>None\<close> when the caller passes a null pointer.\<close>

partial_function (option) FindGreaterOrEqual_loop ::
    "('k \<Rightarrow> 'k \<Rightarrow> int) \<Rightarrow> 'k Node list \<Rightarrow> 'k \<Rightarrow> nat list option \<Rightarrow> nat \<Rightarrow> nat \<Rightarrow> (nat option \<times> nat list option) option" where
  "FindGreaterOrEqual_loop cmp nodes key prev x level =
     (case Node_Next nodes x level of
        None \<Rightarrow> None
      | Some n \<Rightarrow>
          if KeyIsAfterNode cmp nodes key n
          then FindGreaterOrEqual_loop cmp nodes key prev (the n) level
          else (let prev = map_option (\<lambda>p. p[level := x]) prev
                in if level = 0 then Some (n, prev)
                   else FindGreaterOrEqual_loop cmp nodes key prev x (level - 1)))"

definition FindGreaterOrEqual ::
    "('k \<Rightarrow> 'k \<Rightarrow> int) \<Rightarrow> 'k SkipList \<Rightarrow> 'k \<Rightarrow> nat list option \<Rightarrow> (nat option \<times> nat list option) option" where
  "FindGreaterOrEqual cmp sl key prev = FindGreaterOrEqual_loop cmp (sl_nodes sl) key prev 0 (sl_max_height sl - 1)"

partial_function (option) FindLessThan_loop ::
    "('k \<Rightarrow> 'k \<Rightarrow> int) \<Rightarrow> 'k Node list \<Rightarrow> 'k \<Rightarrow> nat \<Rightarrow> nat \<Rightarrow> nat option" where
  "FindLessThan_loop cmp nodes key x level =
     (case Node_Next nodes x level of
        None \<Rightarrow> None
      | Some n \<Rightarrow>
          if n = None \<or> cmp (nd_key (nodes ! the n)) key \<ge> 0
          then if level = 0 then Some x else FindLessThan_loop cmp nodes key x (level - 1)
          else FindLessThan_loop cmp nodes key (the n) level)"

definition FindLessThan :: "('k \<Rightarrow> 'k \<Rightarrow> int) \<Rightarrow> 'k SkipList \<Rightarrow> 'k \<Rightarrow> nat option" where
  "FindLessThan cmp sl key = FindLessThan_loop cmp (sl_nodes sl) key 0 (sl_max_height sl - 1)"

partial_function (option) FindLast_loop :: "'k Node list \<Rightarrow> nat \<Rightarrow> nat \<Rightarrow> nat option" where
  "FindLast_loop nodes x level =
     (case Node_Next nodes x level of
        None \<Rightarrow> None
      | Some n \<Rightarrow>
          if n = None then if level = 0 then Some x else FindLast_loop nodes x (level - 1)
          else FindLast_loop nodes (the n) level)"

definition FindLast :: "'k SkipList \<Rightarrow> nat option" where
  "FindLast sl = FindLast_loop (sl_nodes sl) 0 (sl_max_height sl - 1)"

section \<open>Insertion\<close>

text \<open>The two stores of one level: the link of the new node, then the link to it.\<close>

definition link_level :: "nat \<Rightarrow> nat list \<Rightarrow> nat \<Rightarrow> 'k Node list \<Rightarrow> 'k Node list option" where
  "link_level x prev i nodes =
     (case Node_Next nodes (prev ! i) i of
        None \<Rightarrow> None
      | Some n \<Rightarrow> Some (Node_SetNext (prev ! i) i (Some x) (Node_SetNext x i n nodes)))"

fun link_levels :: "nat \<Rightarrow> nat list \<Rightarrow> nat list \<Rightarrow> 'k Node list \<Rightarrow> 'k Node list option" where
  "link_levels x prev [] nodes = Some nodes"
| "link_levels x prev (i # is) nodes =
     (case link_level x prev i nodes of None \<Rightarrow> None | Some nodes \<Rightarrow> link_levels x prev is nodes)"

definition raise_prev :: "nat \<Rightarrow> nat \<Rightarrow> nat list \<Rightarrow> nat list" where
  "raise_prev max_height height prev = fold (\<lambda>i p. p[i := 0]) [max_height..<height] prev"

text \<open>The array \<^verbatim>\<open>prev\<close> starts uninitialised; \<open>junk\<close> stands for what it happens to hold.\<close>

definition Insert :: "('k \<Rightarrow> 'k \<Rightarrow> int) \<Rightarrow> nat list \<Rightarrow> 'k \<Rightarrow> 'k SkipList \<Rightarrow> 'k SkipList option" where
  "Insert cmp junk key sl =
     (case FindGreaterOrEqual cmp sl key (Some junk) of
        None \<Rightarrow> None
      | Some (_, prev) \<Rightarrow>
          (case RandomHeight (sl_rnd sl) of (height, rnd) \<Rightarrow>
             let prev = (if height > sl_max_height sl then raise_prev (sl_max_height sl) height (the prev) else the prev);
                 max_height = (if height > sl_max_height sl then height else sl_max_height sl)
             in case NewNode key height (sl_nodes sl) of (x, nodes) \<Rightarrow>
                  (case link_levels x prev [0..<height] nodes of
                     None \<Rightarrow> None
                   | Some nodes \<Rightarrow> Some \<lparr>sl_nodes = nodes, sl_max_height = max_height, sl_rnd = rnd\<rparr>)))"

definition Contains :: "('k \<Rightarrow> 'k \<Rightarrow> int) \<Rightarrow> 'k SkipList \<Rightarrow> 'k \<Rightarrow> bool option" where
  "Contains cmp sl key =
     (case FindGreaterOrEqual cmp sl key None of
        None \<Rightarrow> None
      | Some (x, _) \<Rightarrow> Some (case x of None \<Rightarrow> False | Some i \<Rightarrow> cmp key (nd_key (sl_nodes sl ! i)) = 0))"

section \<open>Iterators\<close>

text \<open>An iterator is its node pointer.\<close>

definition Iter_Valid :: "nat option \<Rightarrow> bool" where
  "Iter_Valid node \<longleftrightarrow> node \<noteq> None"

definition Iter_key :: "'k SkipList \<Rightarrow> nat option \<Rightarrow> 'k" where
  "Iter_key sl node = nd_key (sl_nodes sl ! the node)"

definition Iter_Next :: "'k SkipList \<Rightarrow> nat option \<Rightarrow> nat option option" where
  "Iter_Next sl node = Node_Next (sl_nodes sl) (the node) 0"

definition Iter_Prev :: "('k \<Rightarrow> 'k \<Rightarrow> int) \<Rightarrow> 'k SkipList \<Rightarrow> nat option \<Rightarrow> nat option option" where
  "Iter_Prev cmp sl node =
     (case FindLessThan cmp sl (nd_key (sl_nodes sl ! the node)) of
        None \<Rightarrow> None
      | Some x \<Rightarrow> Some (if x = 0 then None else Some x))"

definition Iter_Seek :: "('k \<Rightarrow> 'k \<Rightarrow> int) \<Rightarrow> 'k SkipList \<Rightarrow> 'k \<Rightarrow> nat option option" where
  "Iter_Seek cmp sl target = map_option fst (FindGreaterOrEqual cmp sl target None)"

definition Iter_SeekToFirst :: "'k SkipList \<Rightarrow> nat option option" where
  "Iter_SeekToFirst sl = Node_Next (sl_nodes sl) 0 0"

definition Iter_SeekToLast :: "'k SkipList \<Rightarrow> nat option option" where
  "Iter_SeekToLast sl =
     (case FindLast sl of None \<Rightarrow> None | Some x \<Rightarrow> Some (if x = 0 then None else Some x))"

end
