(* ===== verification/Ldb_Skiplist_Inv.thy ===== *)
theory Ldb_Skiplist_Inv
  imports Ldb_Skiplist Ldb_Format
begin

text \<open>
  The order of the keys is the locale \<open>key_order\<close>. The shape of a skip list is a chain of nodes for every level, each
  strictly sorted and contained in the one below; \<open>skip_inv\<close> holds between any two levels that
  \<^verbatim>\<open>Insert\<close> links, which is what readers that run beside it rely on.
\<close>

section \<open>Chains\<close>

fun path :: "'k Node list \<Rightarrow> nat \<Rightarrow> nat \<Rightarrow> nat list \<Rightarrow> bool" where
  "path nodes l x [] \<longleftrightarrow> Node_Next nodes x l = Some None"
| "path nodes l x (y # ys) \<longleftrightarrow> Node_Next nodes x l = Some (Some y) \<and> path nodes l y ys"

lemma path_from: "path nodes l x (as @ bs) \<Longrightarrow> path nodes l (last (x # as)) bs"
  by (induction as arbitrary: x) auto

lemma path_Next: "path nodes l x bs \<Longrightarrow> Node_Next nodes x l = Some (case bs of [] \<Rightarrow> None | b # _ \<Rightarrow> Some b)"
  by (cases bs) auto

lemma path_cong:
  assumes "path nodes l x xs" "\<And>y. y \<in> set (x # xs) \<Longrightarrow> Node_Next nodes' y l = Node_Next nodes y l"
  shows "path nodes' l x xs"
  using assms by (induction xs arbitrary: x) auto

lemma path_append: "path nodes l x (as @ bs) \<longleftrightarrow> (case as of [] \<Rightarrow> path nodes l x bs
    | a # as' \<Rightarrow> Node_Next nodes x l = Some (Some a) \<and> path nodes l a (as' @ bs))"
  by (cases as) auto

definition key_at :: "'k Node list \<Rightarrow> nat \<Rightarrow> 'k" where
  "key_at nodes i = nd_key (nodes ! i)"

definition chain_sorted :: "('k \<Rightarrow> 'k \<Rightarrow> int) \<Rightarrow> 'k Node list \<Rightarrow> nat list \<Rightarrow> bool" where
  "chain_sorted cmp nodes = sorted_wrt (\<lambda>a b. cmp (key_at nodes a) (key_at nodes b) < 0)"

definition skip_inv :: "('k \<Rightarrow> 'k \<Rightarrow> int) \<Rightarrow> ('k \<Rightarrow> bool) \<Rightarrow> 'k Node list \<Rightarrow> nat \<Rightarrow> (nat \<Rightarrow> nat list) \<Rightarrow> bool" where
  "skip_inv cmp valid nodes h ch \<longleftrightarrow>
     1 \<le> h \<and> h \<le> kMaxHeight \<and> nodes \<noteq> []
     \<and> (\<forall>l<kMaxHeight. path nodes l 0 (ch l) \<and> chain_sorted cmp nodes (ch l)
          \<and> (\<forall>i\<in>set (ch l). 0 < i \<and> i < length nodes \<and> valid (key_at nodes i)) \<and> (h \<le> l \<longrightarrow> ch l = []))
     \<and> (\<forall>l. Suc l < kMaxHeight \<longrightarrow> set (ch (Suc l)) \<subseteq> set (ch l))"

lemma skip_invI:
  assumes "1 \<le> h" "h \<le> kMaxHeight" "nodes \<noteq> []"
    "\<And>l. l < kMaxHeight \<Longrightarrow> path nodes l 0 (ch l)"
    "\<And>l. l < kMaxHeight \<Longrightarrow> chain_sorted cmp nodes (ch l)"
    "\<And>l i. l < kMaxHeight \<Longrightarrow> i \<in> set (ch l) \<Longrightarrow> 0 < i \<and> i < length nodes \<and> valid (key_at nodes i)"
    "\<And>l. l < kMaxHeight \<Longrightarrow> h \<le> l \<Longrightarrow> ch l = []"
    "\<And>l. Suc l < kMaxHeight \<Longrightarrow> set (ch (Suc l)) \<subseteq> set (ch l)"
  shows "skip_inv cmp valid nodes h ch"
  using assms by (simp add: skip_inv_def)

lemma skip_inv_height: "skip_inv cmp valid nodes h ch \<Longrightarrow> 1 \<le> h \<and> h \<le> kMaxHeight \<and> nodes \<noteq> []"
  by (simp add: skip_inv_def)

lemma skip_inv_level:
  assumes "skip_inv cmp valid nodes h ch" "l < kMaxHeight"
  shows "path nodes l 0 (ch l)" "chain_sorted cmp nodes (ch l)" "h \<le> l \<Longrightarrow> ch l = []"
    "i \<in> set (ch l) \<Longrightarrow> 0 < i" "i \<in> set (ch l) \<Longrightarrow> i < length nodes" "i \<in> set (ch l) \<Longrightarrow> valid (key_at nodes i)"
  using assms by (auto simp: skip_inv_def)

lemma skip_inv_down: "skip_inv cmp valid nodes h ch \<Longrightarrow> Suc l < kMaxHeight \<Longrightarrow> set (ch (Suc l)) \<subseteq> set (ch l)"
  by (simp add: skip_inv_def)

lemma skip_inv_bottom: "skip_inv cmp valid nodes h ch \<Longrightarrow> l < kMaxHeight \<Longrightarrow> set (ch l) \<subseteq> set (ch 0)"
proof (induction l)
  case (Suc l)
  then show ?case using skip_inv_down [OF Suc.prems] by auto
qed simp

section \<open>Searches\<close>

text \<open>
  Each search follows a level as long as the next node satisfies \<open>P\<close> (is below the key, or just there)
  and then stops on the last node of the longest such prefix, from where it goes down or returns.
\<close>

definition first_of :: "nat list \<Rightarrow> nat option" where
  "first_of xs = (case xs of [] \<Rightarrow> None | x # _ \<Rightarrow> Some x)"

definition pred_at :: "(nat \<Rightarrow> bool) \<Rightarrow> nat list \<Rightarrow> nat" where
  "pred_at P xs = last (0 # takeWhile P xs)"

lemma takeWhile_True [simp]: "takeWhile (\<lambda>_. True) xs = xs"
  by (induction xs) simp_all

lemma search_level:
  assumes step: "\<And>x. F x = (case Node_Next nodes x l of None \<Rightarrow> None
      | Some n \<Rightarrow> if n \<noteq> None \<and> P (the n) then F (the n) else stop x n)"
    and "path nodes l 0 (as @ bs)" "list_all P as"
  shows "F (last (0 # as)) = stop (pred_at P (as @ bs)) (first_of (dropWhile P (as @ bs)))"
  using assms(2,3)
proof (induction bs arbitrary: as)
  case Nil
  then have "Node_Next nodes (last (0 # as)) l = Some None" using path_Next [OF path_from [of nodes l 0 as "[]"]] by simp
  moreover have tw: "takeWhile P as = as" "dropWhile P as = []" using Nil.prems(2) by (simp_all add: list_all_iff)
  ultimately show ?case by (subst step) (simp add: pred_at_def first_of_def tw del: last.simps)
next
  case (Cons b bs)
  have "Node_Next nodes (last (0 # as)) l = Some (Some b)" using path_Next [OF path_from [OF Cons.prems(1)]] by simp
  moreover have "last (0 # as @ [b]) = b" by simp
  ultimately show ?case
    using Cons.prems Cons.IH [of "as @ [b]"]
    by (subst step) (auto simp add: pred_at_def first_of_def list_all_iff takeWhile_append2 dropWhile_append2 takeWhile_tail simp del: last.simps)
qed

text \<open>A predicate that holds of a node only if it holds of the nodes before it.\<close>

definition downward :: "(nat \<Rightarrow> bool) \<Rightarrow> nat list \<Rightarrow> bool" where
  "downward P xs \<longleftrightarrow> (\<forall>as x bs. xs = as @ x # bs \<and> P x \<longrightarrow> list_all P as)"

text \<open>Going down one level keeps the node, which splits the lower chain too.\<close>

lemma search_down:
  assumes "set xs \<subseteq> set ys" "downward P ys"
  shows "\<exists>as bs. ys = as @ bs \<and> list_all P as \<and> last (0 # as) = pred_at P xs"
proof (cases "takeWhile P xs = []")
  case True
  then show ?thesis by (intro exI [of _ "[]"] exI [of _ ys]) (simp add: pred_at_def)
next
  case False
  let ?x = "last (takeWhile P xs)"
  have x: "P ?x" "?x \<in> set xs" using False set_takeWhileD last_in_set by fast+
  then obtain as bs where s: "ys = as @ ?x # bs" using assms(1) split_list by fast
  then have "list_all P as" using assms(2) x(1) unfolding downward_def by blast
  then show ?thesis
    using s x(1) False by (intro exI [of _ "as @ [?x]"] exI [of _ bs]) (simp add: pred_at_def)
qed

definition below :: "('k \<Rightarrow> 'k \<Rightarrow> int) \<Rightarrow> 'k Node list \<Rightarrow> 'k \<Rightarrow> nat \<Rightarrow> bool" where
  "below cmp nodes key i \<longleftrightarrow> cmp (key_at nodes i) key < 0"

lemma FindGreaterOrEqual_step:
  "FindGreaterOrEqual_loop cmp nodes key prev x l =
     (case Node_Next nodes x l of None \<Rightarrow> None
      | Some n \<Rightarrow> if n \<noteq> None \<and> below cmp nodes key (the n) then FindGreaterOrEqual_loop cmp nodes key prev (the n) l
          else if l = 0 then Some (n, map_option (\<lambda>p. p[l := x]) prev)
          else FindGreaterOrEqual_loop cmp nodes key (map_option (\<lambda>p. p[l := x]) prev) x (l - 1))"
  by (subst FindGreaterOrEqual_loop.simps) (auto simp: KeyIsAfterNode_def below_def key_at_def Let_def split: option.split)

lemma FindLessThan_step:
  "FindLessThan_loop cmp nodes key x l =
     (case Node_Next nodes x l of None \<Rightarrow> None
      | Some n \<Rightarrow> if n \<noteq> None \<and> below cmp nodes key (the n) then FindLessThan_loop cmp nodes key (the n) l
          else if l = 0 then Some x else FindLessThan_loop cmp nodes key x (l - 1))"
  by (subst FindLessThan_loop.simps) (auto simp: below_def key_at_def split: option.split)

lemma FindLast_step:
  "FindLast_loop nodes x l =
     (case Node_Next nodes x l of None \<Rightarrow> None
      | Some n \<Rightarrow> if n \<noteq> None \<and> True then FindLast_loop nodes (the n) l
          else if l = 0 then Some x else FindLast_loop nodes x (l - 1))"
  by (subst FindLast_loop.simps) (auto split: option.split)

lemma FindGreaterOrEqual_level:
  assumes "path nodes l 0 xs" "xs = as @ bs" "list_all (below cmp nodes key) as"
  shows "FindGreaterOrEqual_loop cmp nodes key prev (last (0 # as)) l =
     (let x = pred_at (below cmp nodes key) xs; prev' = map_option (\<lambda>p. p[l := x]) prev
      in if l = 0 then Some (first_of (dropWhile (below cmp nodes key) xs), prev')
         else FindGreaterOrEqual_loop cmp nodes key prev' x (l - 1))"
  unfolding Let_def assms(2) by (rule search_level [OF FindGreaterOrEqual_step]) (use assms in simp_all)

lemma FindLessThan_level:
  assumes "path nodes l 0 xs" "xs = as @ bs" "list_all (below cmp nodes key) as"
  shows "FindLessThan_loop cmp nodes key (last (0 # as)) l =
     (let x = pred_at (below cmp nodes key) xs in if l = 0 then Some x else FindLessThan_loop cmp nodes key x (l - 1))"
  unfolding Let_def assms(2) by (rule search_level [OF FindLessThan_step]) (use assms in simp_all)

lemma FindLast_level:
  assumes "path nodes l 0 xs" "xs = as @ bs"
  shows "FindLast_loop nodes (last (0 # as)) l =
     (let x = pred_at (\<lambda>_. True) xs in if l = 0 then Some x else FindLast_loop nodes x (l - 1))"
  unfolding Let_def assms(2) by (rule search_level [OF FindLast_step]) (use assms in \<open>simp_all add: list_all_iff\<close>)

definition prev_filled :: "(nat \<Rightarrow> bool) \<Rightarrow> (nat \<Rightarrow> nat list) \<Rightarrow> nat \<Rightarrow> nat list option \<Rightarrow> nat list option \<Rightarrow> bool" where
  "prev_filled P ch level prev prev' \<longleftrightarrow>
     (case prev of
        None \<Rightarrow> prev' = None
      | Some p \<Rightarrow> \<exists>q. prev' = Some q \<and> length q = length p
          \<and> (\<forall>l<length p. q ! l = (if l \<le> level then pred_at P (ch l) else p ! l)))"

lemma prev_filled_0: "prev_filled P ch 0 prev (map_option (\<lambda>p. p[0 := pred_at P (ch 0)]) prev)"
  by (auto simp: prev_filled_def nth_list_update split: option.split)

lemma prev_filled_Suc:
  "prev_filled P ch l (map_option (\<lambda>p. p[Suc l := pred_at P (ch (Suc l))]) prev) prev' \<Longrightarrow> prev_filled P ch (Suc l) prev prev'"
  by (auto simp: prev_filled_def nth_list_update le_Suc_eq split: option.splits)

context key_order
begin

lemma downward_below:
  assumes "skip_inv cmp valid nodes h ch" "l < kMaxHeight" "valid key"
  shows "downward (below cmp nodes key) (ch l)"
  unfolding downward_def list_all_iff
proof (intro allI impI ballI)
  fix as x bs a
  assume s: "ch l = as @ x # bs \<and> below cmp nodes key x" and a: "a \<in> set as"
  note inv = skip_inv_level [OF assms(1,2)]
  have "cmp (key_at nodes a) (key_at nodes x) < 0" using inv(2) s a by (simp add: chain_sorted_def sorted_wrt_append)
  moreover have "valid (key_at nodes a)" "valid (key_at nodes x)" using inv(6) s a by auto
  ultimately show "below cmp nodes key a" using less_trans assms(3) s unfolding below_def by blast
qed

lemma FindGreaterOrEqual_loop_spec:
  assumes "skip_inv cmp valid nodes h ch" "valid key" "level < kMaxHeight" "ch level = as @ bs" "list_all (below cmp nodes key) as"
  shows "\<exists>prev'. FindGreaterOrEqual_loop cmp nodes key prev (last (0 # as)) level
      = Some (first_of (dropWhile (below cmp nodes key) (ch 0)), prev') \<and> prev_filled (below cmp nodes key) ch level prev prev'"
  using assms(3-5)
proof (induction level arbitrary: as bs prev)
  case 0
  then show ?case
    using FindGreaterOrEqual_level [of nodes 0 "ch 0" as bs cmp key] skip_inv_level(1) [OF assms(1), of 0] prev_filled_0 [of "below cmp nodes key" ch prev]
    by (simp add: Let_def del: last.simps)
next
  case (Suc level)
  let ?P = "below cmp nodes key"
  have "FindGreaterOrEqual_loop cmp nodes key prev (last (0 # as)) (Suc level)
      = FindGreaterOrEqual_loop cmp nodes key (map_option (\<lambda>p. p[Suc level := pred_at ?P (ch (Suc level))]) prev) (pred_at ?P (ch (Suc level))) level"
    using FindGreaterOrEqual_level [of nodes "Suc level" "ch (Suc level)" as bs cmp key] skip_inv_level(1) [OF assms(1), of "Suc level"] Suc.prems
    by (simp add: Let_def del: last.simps)
  moreover obtain as' bs' where "ch level = as' @ bs'" "list_all ?P as'" "last (0 # as') = pred_at ?P (ch (Suc level))"
    using search_down [OF skip_inv_down [OF assms(1) Suc.prems(1)] downward_below [OF assms(1) _ assms(2)]] Suc.prems(1) by auto
  ultimately show ?case
    using Suc.IH [of as' bs' "map_option (\<lambda>p. p[Suc level := pred_at ?P (ch (Suc level))]) prev"] Suc.prems(1) prev_filled_Suc
    by fastforce
qed

lemma FindLessThan_loop_spec:
  assumes "skip_inv cmp valid nodes h ch" "valid key" "level < kMaxHeight" "ch level = as @ bs" "list_all (below cmp nodes key) as"
  shows "FindLessThan_loop cmp nodes key (last (0 # as)) level = Some (pred_at (below cmp nodes key) (ch 0))"
  using assms(3-5)
proof (induction level arbitrary: as bs)
  case 0
  then show ?case
    using FindLessThan_level [of nodes 0 "ch 0" as bs cmp key] skip_inv_level(1) [OF assms(1), of 0]
    by (simp add: Let_def del: last.simps)
next
  case (Suc level)
  let ?P = "below cmp nodes key"
  have "FindLessThan_loop cmp nodes key (last (0 # as)) (Suc level) = FindLessThan_loop cmp nodes key (pred_at ?P (ch (Suc level))) level"
    using FindLessThan_level [of nodes "Suc level" "ch (Suc level)" as bs cmp key] skip_inv_level(1) [OF assms(1), of "Suc level"] Suc.prems
    by (simp add: Let_def del: last.simps)
  moreover obtain as' bs' where "ch level = as' @ bs'" "list_all ?P as'" "last (0 # as') = pred_at ?P (ch (Suc level))"
    using search_down [OF skip_inv_down [OF assms(1) Suc.prems(1)] downward_below [OF assms(1) _ assms(2)]] Suc.prems(1) by auto
  ultimately show ?case using Suc.IH [of as' bs'] Suc.prems(1) by (simp add: Let_def del: last.simps)
qed

lemma FindLast_loop_spec:
  assumes "skip_inv cmp valid nodes h ch" "level < kMaxHeight" "ch level = as @ bs"
  shows "FindLast_loop nodes (last (0 # as)) level = Some (last (0 # ch 0))"
  using assms(2,3)
proof (induction level arbitrary: as bs)
  case 0
  then show ?case
    using FindLast_level [of nodes 0 "ch 0" as bs] skip_inv_level(1) [OF assms(1), of 0]
    by (simp add: pred_at_def Let_def del: last.simps)
next
  case (Suc level)
  let ?P = "\<lambda>_. True"
  have "FindLast_loop nodes (last (0 # as)) (Suc level) = FindLast_loop nodes (pred_at ?P (ch (Suc level))) level"
    using FindLast_level [of nodes "Suc level" "ch (Suc level)" as bs] skip_inv_level(1) [OF assms(1), of "Suc level"] Suc.prems
    by (simp add: Let_def del: last.simps)
  moreover obtain as' bs' where "ch level = as' @ bs'" "last (0 # as') = pred_at ?P (ch (Suc level))"
    using search_down [OF skip_inv_down [OF assms(1) Suc.prems(1)], of ?P] by (auto simp: downward_def list_all_iff)
  ultimately show ?case using Suc.IH [of as' bs'] Suc.prems(1) by (simp add: Let_def del: last.simps)
qed

end

end
