(* ===== verification/Ldb_Skiplist_Insert.thy ===== *)
theory Ldb_Skiplist_Insert
  imports Ldb_Skiplist_Inv
begin

text \<open>The stores of \<^verbatim>\<open>Insert\<close> one by one, and that the chains keep their shape after each of them.\<close>

section \<open>Effect of a store\<close>

lemma nth_SetNext:
  "Node_SetNext a n p nodes ! y =
     (if y = a \<and> a < length nodes then (nodes ! a)\<lparr>nd_next := (nd_next (nodes ! a))[n := p]\<rparr> else nodes ! y)"
  by (cases "y = a"; cases "a < length nodes"; simp add: Node_SetNext_def list_update_beyond)

lemma key_at_SetNext [simp]: "key_at (Node_SetNext a n p nodes) y = key_at nodes y"
  by (simp add: key_at_def nth_SetNext)

lemma SetNext_lengths [simp]:
  "length (Node_SetNext a n p nodes) = length nodes"
  "length (nd_next (Node_SetNext a n p nodes ! y)) = length (nd_next (nodes ! y))"
  by (simp add: Node_SetNext_def, simp add: nth_SetNext)

lemma Node_Next_SetNext:
  "Node_Next (Node_SetNext a n p nodes) y m =
     (if y = a \<and> m = n \<and> a < length nodes \<and> n < length (nd_next (nodes ! a)) then Some p else Node_Next nodes y m)"
  by (auto simp: Node_Next_def nth_SetNext nth_list_update)

lemma Node_SetNext_Nil [simp]: "Node_SetNext a n p nodes = [] \<longleftrightarrow> nodes = []"
  by (simp add: Node_SetNext_def)

lemma below_SetNext [simp]: "below cmp (Node_SetNext a n p nodes) key = below cmp nodes key"
  by (simp add: below_def fun_eq_iff)

lemma chain_sorted_SetNext [simp]: "chain_sorted cmp (Node_SetNext a n p nodes) xs = chain_sorted cmp nodes xs"
  by (simp add: chain_sorted_def)

text \<open>Storing into a node that is not on the chain of that level changes no chain.\<close>

lemma skip_inv_private:
  assumes "skip_inv cmp valid nodes h ch" "i < kMaxHeight" "x \<notin> set (ch i)" "x \<noteq> 0"
  shows "skip_inv cmp valid (Node_SetNext x i p nodes) h ch"
proof -
  have "path (Node_SetNext x i p nodes) l 0 (ch l)" if "l < kMaxHeight" for l
    using skip_inv_level(1) [OF assms(1) that] by (rule path_cong) (use assms(3,4) in \<open>auto simp: Node_Next_SetNext\<close>)
  then show ?thesis using assms(1) by (simp add: skip_inv_def)
qed

lemma path_insert:
  assumes "path nodes l y (lo @ up)" "distinct (y # lo @ up)"
    "Node_Next nodes' x l = Some (first_of up)" "Node_Next nodes' (last (y # lo)) l = Some (Some x)"
    "\<And>z. z \<in> set (y # lo @ up) \<Longrightarrow> z \<noteq> last (y # lo) \<Longrightarrow> Node_Next nodes' z l = Node_Next nodes z l"
  shows "path nodes' l y (lo @ x # up)"
  using assms
proof (induction lo arbitrary: y)
  case Nil
  have "path nodes' l x up"
  proof (cases up)
    case (Cons u us)
    have "path nodes l u us" using Nil.prems(1) Cons by simp
    then have "path nodes' l u us" by (rule path_cong) (use Nil.prems(2,5) Cons in auto)
    then show ?thesis using Nil.prems(3) Cons by (simp add: first_of_def)
  qed (use Nil.prems(3) in \<open>simp add: first_of_def\<close>)
  then show ?case using Nil.prems(4) by simp
next
  case (Cons z lo)
  have "z \<noteq> y" "y \<noteq> last (z # lo)" using Cons.prems(2) last_in_set [of "z # lo"] by auto
  then have "Node_Next nodes' y l = Some (Some z)" using Cons.prems(1,5) by auto
  moreover have "path nodes' l z (lo @ x # up)"
    by (rule Cons.IH) (use Cons.prems in \<open>auto split: if_splits\<close>)
  ultimately show ?case by simp
qed

context key_order
begin

lemma chain_distinct:
  assumes "skip_inv cmp valid nodes h ch" "l < kMaxHeight"
  shows "distinct (0 # ch l)"
proof -
  note inv = skip_inv_level [OF assms]
  have "sorted_wrt (\<lambda>a b. a \<noteq> b) (ch l)"
    using inv(2) unfolding chain_sorted_def
    by (rule sorted_wrt_mono_rel [rotated]) (use inv(6) irrefl in \<open>auto simp del: irrefl\<close>)
  then have "distinct (ch l)" by (induction "ch l") (auto simp: distinct_conv_nth sorted_wrt_iff_nth_less linorder_neq_iff)
  then show ?thesis using inv(4) by auto
qed

lemma upper_not_below:
  assumes "downward P xs" "u \<in> set (dropWhile P xs)"
  shows "\<not> P u"
proof
  assume "P u"
  obtain as bs where s: "dropWhile P xs = as @ u # bs" using assms(2) split_list by fast
  then have "xs = (takeWhile P xs @ as) @ u # bs" by (metis append.assoc takeWhile_dropWhile_id)
  then have all: "list_all P (takeWhile P xs @ as)" using assms(1) \<open>P u\<close> unfolding downward_def by blast
  have "hd (dropWhile P xs) = (case as of [] \<Rightarrow> u | a # _ \<Rightarrow> a)" using s by (cases as) auto
  then have "P (hd (dropWhile P xs))" using all \<open>P u\<close> by (cases as) auto
  then show False using s hd_dropWhile [of P xs] by auto
qed

text \<open>Publishing node \<open>x\<close> on level \<open>i\<close>.\<close>

lemma skip_inv_publish:
  assumes inv: "skip_inv cmp valid nodes h ch" and i: "i < h" "i < kMaxHeight" "i = 0 \<or> x \<in> set (ch (i - 1))"
    and x: "0 < x" "x < length nodes" "valid (key_at nodes x)" "x \<notin> set (ch i)"
    and new: "\<forall>j\<in>set (ch i). cmp (key_at nodes j) (key_at nodes x) \<noteq> 0"
    and P: "P = below cmp nodes (key_at nodes x)"
    and linked: "Node_Next nodes x i = Some (first_of (dropWhile P (ch i)))"
  shows "skip_inv cmp valid (Node_SetNext (pred_at P (ch i)) i (Some x) nodes) h
      (ch(i := takeWhile P (ch i) @ x # dropWhile P (ch i)))"
proof -
  let ?lo = "takeWhile P (ch i)" and ?up = "dropWhile P (ch i)" and ?p = "pred_at P (ch i)"
  let ?n = "Node_SetNext ?p i (Some x) nodes"
  note lv = skip_inv_level [OF inv i(2)]
  have split: "path nodes i 0 (?lo @ ?up)" "distinct (0 # ?lo @ ?up)" using lv(1) chain_distinct [OF inv i(2)] by simp_all
  have pin: "?p \<in> set (0 # ?lo)" unfolding pred_at_def by (rule last_in_set) simp
  then have "?p \<in> set (0 # ch i)" using set_takeWhileD by fastforce
  then have "Node_Next nodes ?p i = Some (first_of ?up)" "?p \<noteq> x"
    using path_Next [OF path_from [OF split(1)]] x(1,4) by (auto simp: pred_at_def first_of_def)
  then have p: "?p < length nodes" "i < length (nd_next (nodes ! ?p))" by (auto simp: Node_Next_def split: if_splits)
  have "path ?n i 0 (?lo @ x # ?up)"
    using split linked p \<open>?p \<noteq> x\<close> by (intro path_insert [OF split]) (auto simp: Node_Next_SetNext pred_at_def simp del: last.simps)
  moreover have "path ?n l 0 (ch l)" if "l < kMaxHeight" "l \<noteq> i" for l
    using skip_inv_level(1) [OF inv that(1)] by (rule path_cong) (use that(2) in \<open>simp add: Node_Next_SetNext\<close>)
  moreover have "chain_sorted cmp nodes (?lo @ x # ?up)"
  proof -
    have "chain_sorted cmp nodes (?lo @ ?up)" using lv(2) by simp
    note s = this [unfolded chain_sorted_def sorted_wrt_append]
    have lo: "cmp (key_at nodes a) (key_at nodes x) < 0" if "a \<in> set ?lo" for a
      using set_takeWhileD [OF that] by (simp add: P below_def)
    have up: "cmp (key_at nodes x) (key_at nodes u) < 0" if "u \<in> set ?up" for u
    proof -
      have u: "u \<in> set (ch i)" using that by (rule set_dropWhileD)
      then have "\<not> cmp (key_at nodes u) (key_at nodes x) < 0" "cmp (key_at nodes u) (key_at nodes x) \<noteq> 0"
        using upper_not_below [OF downward_below [OF inv i(2) x(3)] that [unfolded P]] new by (simp_all add: below_def)
      then show ?thesis using flip [OF x(3) lv(6) [OF u]] by linarith
    qed
    show ?thesis using s lo up unfolding chain_sorted_def sorted_wrt_append by auto
  qed
  moreover have "set (?lo @ x # ?up) = insert x (set (ch i))"
    by (metis Un_insert_right list.simps(15) set_append takeWhile_dropWhile_id)
  then have sets: "set ((ch(i := ?lo @ x # ?up)) l) = (if l = i then insert x (set (ch i)) else set (ch l))" for l by simp
  ultimately show ?thesis
  proof (intro skip_invI)
    show "(ch(i := ?lo @ x # ?up)) l = []" if "l < kMaxHeight" "h \<le> l" for l
      using that skip_inv_level(3) [OF inv that(1)] i(1) by simp
    show "0 < j \<and> j < length ?n \<and> valid (key_at ?n j)" if "l < kMaxHeight" "j \<in> set ((ch(i := ?lo @ x # ?up)) l)" for l j
      using that(2) skip_inv_level(4-6) [OF inv that(1), of j] x(1-3) unfolding sets by (auto split: if_splits)
    show "set ((ch(i := ?lo @ x # ?up)) (Suc l)) \<subseteq> set ((ch(i := ?lo @ x # ?up)) l)" if "Suc l < kMaxHeight" for l
      using skip_inv_down [OF inv that] i(3) unfolding sets by auto
  qed (use skip_inv_height [OF inv] skip_inv_level(2) [OF inv] in auto)
qed

end

section \<open>The whole insertion\<close>

definition ins :: "(nat \<Rightarrow> bool) \<Rightarrow> nat \<Rightarrow> nat list \<Rightarrow> nat list" where
  "ins P x xs = takeWhile P xs @ x # dropWhile P xs"

lemma set_ins [simp]: "set (ins P x xs) = insert x (set xs)"
  unfolding ins_def by (metis Un_insert_right list.simps(15) set_append takeWhile_dropWhile_id)

lemma NewNode_Next:
  "y < length nodes \<Longrightarrow> Node_Next (nodes @ [n]) y l = Node_Next nodes y l" "y < length nodes \<Longrightarrow> key_at (nodes @ [n]) y = key_at nodes y"
  by (simp_all add: Node_Next_def key_at_def nth_append)

lemma skip_inv_NewNode:
  assumes "skip_inv cmp valid nodes h ch"
  shows "skip_inv cmp valid (nodes @ [n]) h ch"
proof (rule skip_invI)
  fix l
  assume l: "l < kMaxHeight"
  note inv = skip_inv_level [OF assms l]
  show "path (nodes @ [n]) l 0 (ch l)"
    using inv(1) by (rule path_cong) (use inv(5) skip_inv_height [OF assms] in \<open>auto simp: NewNode_Next\<close>)
  show "chain_sorted cmp (nodes @ [n]) (ch l)"
    using inv(2) unfolding chain_sorted_def
    by (rule sorted_wrt_mono_rel [rotated]) (simp add: NewNode_Next inv(5))
qed (use skip_inv_level [OF assms] skip_inv_height [OF assms] skip_inv_down [OF assms] in \<open>auto simp: NewNode_Next less_SucI\<close>)

lemma skip_inv_raise: "skip_inv cmp valid nodes h ch \<Longrightarrow> h \<le> h' \<Longrightarrow> h' \<le> kMaxHeight \<Longrightarrow> skip_inv cmp valid nodes h' ch"
  by (auto simp: skip_inv_def)

lemma RandomHeight_bounds: "RandomHeight rnd = (height, rnd') \<Longrightarrow> 1 \<le> height \<and> height \<le> kMaxHeight"
proof -
  have "k \<le> kMaxHeight \<Longrightarrow> RandomHeight_loop k r = (height, rnd') \<Longrightarrow> k \<le> height \<and> height \<le> kMaxHeight" for k r
  proof (induction k r rule: RandomHeight_loop.induct)
    case (1 k r)
    then show ?case unfolding RandomHeight_loop.simps [of k r] by (auto simp: Let_def split: if_splits)
  qed
  from this [of 1 rnd] show "RandomHeight rnd = (height, rnd') \<Longrightarrow> 1 \<le> height \<and> height \<le> kMaxHeight"
    unfolding RandomHeight_def by (simp add: kMaxHeight_def)
qed

lemma nth_raise_prev:
  "l < length p \<Longrightarrow> raise_prev h h' p ! l = (if h \<le> l \<and> l < h' then 0 else p ! l) \<and> length (raise_prev h h' p) = length p"
proof (induction h')
  case (Suc h')
  then show ?case by (cases "h \<le> h'"; cases "l = h'") (auto simp: raise_prev_def)
qed (simp add: raise_prev_def)

text \<open>
  The state of an insertion that has linked the levels below \<open>i\<close>: what it holds about the chains, the
  new node and the remembered predecessors.
\<close>

definition linking_ok :: "('k \<Rightarrow> 'k \<Rightarrow> int) \<Rightarrow> ('k \<Rightarrow> bool) \<Rightarrow> 'k Node list \<Rightarrow> nat \<Rightarrow> (nat \<Rightarrow> nat list) \<Rightarrow> nat \<Rightarrow> nat list \<Rightarrow> nat \<Rightarrow> nat \<Rightarrow> bool" where
  "linking_ok cmp valid nodes h ch x prev i ht \<longleftrightarrow>
     skip_inv cmp valid nodes h ch \<and> i \<le> ht \<and> ht \<le> h \<and> (i = 0 \<or> x \<in> set (ch (i - 1)))
     \<and> 0 < x \<and> x < length nodes \<and> valid (key_at nodes x) \<and> length (nd_next (nodes ! x)) = ht
     \<and> (\<forall>l. i \<le> l \<and> l < ht \<longrightarrow> prev ! l = pred_at (below cmp nodes (key_at nodes x)) (ch l) \<and> x \<notin> set (ch l))
     \<and> (\<forall>l<kMaxHeight. \<forall>j\<in>set (ch l). j \<noteq> x \<longrightarrow> cmp (key_at nodes j) (key_at nodes x) \<noteq> 0)"

lemma linking_level:
  assumes "linking_ok cmp valid nodes h ch x prev i ht" "i < ht"
  shows "skip_inv cmp valid nodes h ch" "i < h" "i < kMaxHeight" "0 < x" "x < length nodes" "i < length (nd_next (nodes ! x))"
    "prev ! i = pred_at (below cmp nodes (key_at nodes x)) (ch i)" "x \<notin> set (ch i)"
  using assms skip_inv_height [of cmp valid nodes h ch] by (auto simp: linking_ok_def)

lemma linking_Next:
  assumes "linking_ok cmp valid nodes h ch x prev i ht" "i < ht"
  shows "Node_Next nodes (prev ! i) i = Some (first_of (dropWhile (below cmp nodes (key_at nodes x)) (ch i)))"
proof -
  let ?P = "below cmp nodes (key_at nodes x)"
  note l = linking_level [OF assms]
  show ?thesis
    using path_Next [OF path_from [of nodes i 0 "takeWhile ?P (ch i)" "dropWhile ?P (ch i)"]] skip_inv_level(1) [OF l(1,3)]
    by (simp add: l(7) pred_at_def first_of_def del: last.simps)
qed

lemma linking_new:
  assumes "linking_ok cmp valid nodes h ch x prev i ht" "i < ht"
  shows "linking_ok cmp valid (Node_SetNext x i n nodes) h ch x prev i ht" "Node_Next (Node_SetNext x i n nodes) x i = Some n"
proof -
  note l = linking_level [OF assms]
  have "skip_inv cmp valid (Node_SetNext x i n nodes) h ch" by (rule skip_inv_private) (use l in auto)
  then show "linking_ok cmp valid (Node_SetNext x i n nodes) h ch x prev i ht" using assms(1) by (simp add: linking_ok_def)
  show "Node_Next (Node_SetNext x i n nodes) x i = Some n" using l by (simp add: Node_Next_SetNext)
qed

context key_order
begin

lemma linking_publish:
  assumes "linking_ok cmp valid nodes h ch x prev i ht" "i < ht" "P = below cmp nodes (key_at nodes x)"
    "Node_Next nodes x i = Some (first_of (dropWhile P (ch i)))"
  shows "linking_ok cmp valid (Node_SetNext (prev ! i) i (Some x) nodes) h (ch(i := ins P x (ch i))) x prev (i + 1) ht"
proof -
  note l = linking_level [OF assms(1,2)]
  have new: "\<forall>j\<in>set (ch i). cmp (key_at nodes j) (key_at nodes x) \<noteq> 0"
    using assms(1) l(3,8) by (auto simp: linking_ok_def)
  have at: "i = 0 \<or> x \<in> set (ch (i - 1))" "valid (key_at nodes x)" using assms(1) by (auto simp: linking_ok_def)
  have "skip_inv cmp valid (Node_SetNext (pred_at P (ch i)) i (Some x) nodes) h (ch(i := takeWhile P (ch i) @ x # dropWhile P (ch i)))"
    by (rule skip_inv_publish [OF l(1,2,3) at(1) l(4,5) at(2) l(8) new assms(3,4)])
  then show ?thesis using assms(1,2) unfolding l(7) assms(3) [symmetric] ins_def [symmetric]
    by (auto simp: linking_ok_def split: if_splits)
qed

lemma link_levels_spec:
  assumes "linking_ok cmp valid nodes h ch x prev i ht" "P = below cmp nodes (key_at nodes x)"
  shows "\<exists>nodes'. link_levels x prev [i..<ht] nodes = Some nodes' \<and> key_at nodes' = key_at nodes
    \<and> skip_inv cmp valid nodes' h (\<lambda>l. if i \<le> l \<and> l < ht then ins P x (ch l) else ch l)"
  using assms
proof (induction "ht - i" arbitrary: i nodes ch)
  case 0
  then have none: "\<not> (i \<le> l \<and> l < ht)" for l by simp
  show ?case using 0 unfolding if_not_P [OF none] by (simp add: linking_ok_def)
next
  case (Suc d)
  then have i: "i < ht" by simp
  define n1 where "n1 = Node_SetNext x i (first_of (dropWhile P (ch i))) nodes"
  define n2 where "n2 = Node_SetNext (prev ! i) i (Some x) n1"
  have keys: "key_at n2 = key_at nodes" by (simp add: n1_def n2_def fun_eq_iff)
  have P2: "P = below cmp n2 (key_at n2 x)" using Suc.prems(2) by (simp add: fun_eq_iff below_def keys)
  have "linking_ok cmp valid n2 h (ch(i := ins P x (ch i))) x prev (i + 1) ht"
    unfolding n2_def n1_def using Suc.prems(2)
    by (intro linking_publish [OF linking_new(1) [OF Suc.prems(1) i] i] linking_new(2) [OF Suc.prems(1) i]) (simp add: fun_eq_iff below_def)
  moreover have "d = ht - (i + 1)" using Suc.hyps(2) by simp
  ultimately obtain nodes' where
    "link_levels x prev [Suc i..<ht] n2 = Some nodes'" "key_at nodes' = key_at n2"
    "skip_inv cmp valid nodes' h (\<lambda>l. if i + 1 \<le> l \<and> l < ht then ins P x ((ch(i := ins P x (ch i))) l) else (ch(i := ins P x (ch i))) l)"
    using Suc.hyps(1) [OF _ _ P2] by fastforce
  moreover have "(\<lambda>l. if i + 1 \<le> l \<and> l < ht then ins P x ((ch(i := ins P x (ch i))) l) else (ch(i := ins P x (ch i))) l)
      = (\<lambda>l. if i \<le> l \<and> l < ht then ins P x (ch l) else ch l)"
    using i by (auto simp: fun_eq_iff)
  moreover have "link_levels x prev [i..<ht] nodes = link_levels x prev [Suc i..<ht] n2"
    using i linking_Next [OF Suc.prems(1) i] Suc.prems(2) by (simp add: upt_conv_Cons link_level_def n1_def n2_def)
  ultimately show ?case using keys by simp
qed

lemma FindGreaterOrEqual_spec:
  assumes "skip_inv cmp valid (sl_nodes sl) (sl_max_height sl) ch" "valid key"
  shows "\<exists>prev'. FindGreaterOrEqual cmp sl key prev = Some (first_of (dropWhile (below cmp (sl_nodes sl) key) (ch 0)), prev')
    \<and> prev_filled (below cmp (sl_nodes sl) key) ch (sl_max_height sl - 1) prev prev'"
proof -
  have "sl_max_height sl - 1 < kMaxHeight" using skip_inv_height [OF assms(1)] by linarith
  from FindGreaterOrEqual_loop_spec [OF assms this, of "[]"] show ?thesis by (simp add: FindGreaterOrEqual_def)
qed

text \<open>A key that does not equal the first node at or above it equals none.\<close>

lemma no_duplicate:
  assumes inv: "skip_inv cmp valid nodes h ch" and key: "valid key"
    and first: "case dropWhile (below cmp nodes key) (ch 0) of [] \<Rightarrow> True | u # _ \<Rightarrow> cmp key (key_at nodes u) \<noteq> 0"
    and j: "j \<in> set (ch 0)"
  shows "cmp (key_at nodes j) key \<noteq> 0"
proof (cases "j \<in> set (takeWhile (below cmp nodes key) (ch 0))")
  case True
  then show ?thesis using set_takeWhileD [OF True] by (simp add: below_def)
next
  case False
  then have up: "j \<in> set (dropWhile (below cmp nodes key) (ch 0))" using j by (metis Un_iff set_append takeWhile_dropWhile_id)
  then obtain u us where u: "dropWhile (below cmp nodes key) (ch 0) = u # us" by (cases "dropWhile (below cmp nodes key) (ch 0)") auto
  have h0: "0 < kMaxHeight" by (simp add: kMaxHeight_def)
  note lv = skip_inv_level [OF inv h0]
  have us: "set (u # us) \<subseteq> set (ch 0)" using u set_dropWhileD by (metis subsetI)
  have vu: "valid (key_at nodes u)" "valid (key_at nodes j)" using lv(6) us j by auto
  have "\<not> cmp (key_at nodes u) key < 0" using upper_not_below [OF downward_below [OF inv h0 key], of u] u by (simp add: below_def)
  then have less: "cmp key (key_at nodes u) < 0"
    using first u flip [OF key vu(1)] flip [OF vu(1) key] by (auto simp: not_less order_le_less)
  have "j = u \<or> cmp (key_at nodes u) (key_at nodes j) < 0"
  proof -
    have "sorted_wrt (\<lambda>a b. cmp (key_at nodes a) (key_at nodes b) < 0) (u # us)"
      using lv(2) u unfolding chain_sorted_def by (metis sorted_wrt_append takeWhile_dropWhile_id)
    then show ?thesis using up u by auto
  qed
  then have "cmp key (key_at nodes j) < 0" using less less_trans [OF key vu] by auto
  then show ?thesis using flip [OF key vu(2)] by simp
qed

lemma linking_prepare:
  assumes inv: "skip_inv cmp valid (sl_nodes sl) (sl_max_height sl) ch" and key: "valid key"
    and new: "\<forall>j\<in>set (ch 0). cmp (key_at (sl_nodes sl) j) key \<noteq> 0"
    and filled: "prev_filled (below cmp (sl_nodes sl) key) ch (sl_max_height sl - 1) (Some junk) (Some q)" "length junk = kMaxHeight"
    and ht: "1 \<le> ht" "ht \<le> kMaxHeight"
    and n1: "n1 = sl_nodes sl @ [\<lparr>nd_key = key, nd_next = replicate ht None\<rparr>]"
  shows "linking_ok cmp valid n1 (max (sl_max_height sl) ht) ch (length (sl_nodes sl)) (raise_prev (sl_max_height sl) ht q) 0 ht"
    "key_at n1 (length (sl_nodes sl)) = key" "\<And>j. j < length (sl_nodes sl) \<Longrightarrow> key_at n1 j = key_at (sl_nodes sl) j"
    "\<And>l. l < kMaxHeight \<Longrightarrow> ins (below cmp n1 key) x (ch l) = ins (below cmp (sl_nodes sl) key) x (ch l)"
proof -
  let ?n = "sl_nodes sl" and ?h = "sl_max_height sl" and ?P = "below cmp (sl_nodes sl) key"
  note hb = skip_inv_height [OF inv]
  show keyx: "key_at n1 (length ?n) = key" by (simp add: n1 key_at_def)
  show keys: "\<And>j. j < length ?n \<Longrightarrow> key_at n1 j = key_at ?n j" by (simp add: n1 NewNode_Next)
  have mem: "j < length ?n" if "l < kMaxHeight" "j \<in> set (ch l)" for l j using skip_inv_level(5) [OF inv that] .
  have tw: "takeWhile (below cmp n1 key) (ch l) = takeWhile ?P (ch l)" "dropWhile (below cmp n1 key) (ch l) = dropWhile ?P (ch l)"
    if "l < kMaxHeight" for l
    using mem [OF that] by (auto intro!: takeWhile_cong dropWhile_cong simp: below_def keys)
  then show "\<And>l. l < kMaxHeight \<Longrightarrow> ins (below cmp n1 key) x (ch l) = ins ?P x (ch l)" by (simp add: ins_def)
  have q: "length q = kMaxHeight" "\<And>l. l < kMaxHeight \<Longrightarrow> l \<le> ?h - 1 \<Longrightarrow> q ! l = pred_at ?P (ch l)"
    using filled by (auto simp: prev_filled_def)
  have "raise_prev ?h ht q ! l = pred_at ?P (ch l)" if "l < ht" for l
    using nth_raise_prev [of l q ?h ht] q that ht skip_inv_level(3) [OF inv, of l] by (cases "l < ?h") (auto simp: pred_at_def)
  moreover have "skip_inv cmp valid n1 (max ?h ht) ch"
    unfolding n1 using skip_inv_raise [OF skip_inv_NewNode [OF inv]] ht hb by simp
  moreover have "cmp (key_at n1 j) key \<noteq> 0" if "l < kMaxHeight" "j \<in> set (ch l)" for l j
    using new skip_inv_bottom [OF inv that(1)] mem [OF that] that(2) by (auto simp: keys)
  moreover have "length ?n \<notin> set (ch l)" if "l < kMaxHeight" for l using mem [OF that] by blast
  moreover have "0 < length ?n" using hb by simp
  ultimately show "linking_ok cmp valid n1 (max ?h ht) ch (length ?n) (raise_prev ?h ht q) 0 ht"
    using ht key tw(1) unfolding linking_ok_def keyx pred_at_def by (auto simp: n1)
qed

lemma Insert_spec:
  assumes inv: "skip_inv cmp valid (sl_nodes sl) (sl_max_height sl) ch" and key: "valid key"
    and new: "\<forall>j\<in>set (ch 0). cmp (key_at (sl_nodes sl) j) key \<noteq> 0" and junk: "length junk = kMaxHeight"
  shows "\<exists>sl' ch'. Insert cmp junk key sl = Some sl' \<and> skip_inv cmp valid (sl_nodes sl') (sl_max_height sl') ch'
    \<and> ch' 0 = ins (below cmp (sl_nodes sl) key) (length (sl_nodes sl)) (ch 0)
    \<and> (\<forall>j<length (sl_nodes sl). key_at (sl_nodes sl') j = key_at (sl_nodes sl) j)
    \<and> key_at (sl_nodes sl') (length (sl_nodes sl)) = key"
proof -
  let ?n = "sl_nodes sl" and ?h = "sl_max_height sl" and ?P = "below cmp (sl_nodes sl) key"
  obtain q where fge: "FindGreaterOrEqual cmp sl key (Some junk) = Some (first_of (dropWhile ?P (ch 0)), Some q)"
      and filled: "prev_filled ?P ch (?h - 1) (Some junk) (Some q)"
    using FindGreaterOrEqual_spec [OF inv key, of "Some junk"] by (auto simp: prev_filled_def)
  obtain ht rnd where rh: "RandomHeight (sl_rnd sl) = (ht, rnd)" by (metis surj_pair)
  then have ht: "1 \<le> ht" "ht \<le> kMaxHeight" using RandomHeight_bounds by auto
  define n1 where "n1 = ?n @ [\<lparr>nd_key = key, nd_next = replicate ht None\<rparr>]"
  note prep = linking_prepare [OF inv key new filled junk ht n1_def]
  obtain nodes' where nodes': "link_levels (length ?n) (raise_prev ?h ht q) [0..<ht] n1 = Some nodes'" "key_at nodes' = key_at n1"
      "skip_inv cmp valid nodes' (max ?h ht) (\<lambda>l. if l < ht then ins (below cmp n1 key) (length ?n) (ch l) else ch l)"
    using link_levels_spec [OF prep(1) refl] unfolding prep(2) by auto
  have "raise_prev ?h ht q = (if ht > ?h then raise_prev ?h ht q else q)" "max ?h ht = (if ht > ?h then ht else ?h)"
    by (simp_all add: raise_prev_def max_def)
  then have "Insert cmp junk key sl = Some \<lparr>sl_nodes = nodes', sl_max_height = max ?h ht, sl_rnd = rnd\<rparr>"
    using fge rh nodes'(1) unfolding Insert_def NewNode_def n1_def by (cases "?h < ht") (simp_all add: Let_def)
  then show ?thesis
    using nodes'(2,3) prep(2-4) ht
    by (intro exI [of _ "\<lparr>sl_nodes = nodes', sl_max_height = max ?h ht, sl_rnd = rnd\<rparr>"]
        exI [of _ "\<lambda>l. if l < ht then ins (below cmp n1 key) (length ?n) (ch l) else ch l"]) simp
qed

end

end
