(* ===== verification/Ldb_Skiplist_Props.thy ===== *)
theory Ldb_Skiplist_Props
  imports Ldb_Skiplist_Insert
begin

text \<open>
  A skip list stands for the list of its keys (\<open>skip_rep\<close>). The lemmas state its
  operations on that list, among them a walk in both directions.
\<close>

section \<open>The list a skip list stands for\<close>

definition skip_rep :: "('k \<Rightarrow> 'k \<Rightarrow> int) \<Rightarrow> ('k \<Rightarrow> bool) \<Rightarrow> 'k SkipList \<Rightarrow> 'k list \<Rightarrow> bool" where
  "skip_rep cmp valid sl ks \<longleftrightarrow>
     (\<exists>ch. skip_inv cmp valid (sl_nodes sl) (sl_max_height sl) ch \<and> ks = map (key_at (sl_nodes sl)) (ch 0))"

lemma takeWhile_keys: "map f (takeWhile (P \<circ> f) xs) = takeWhile P (map f xs)" "map f (dropWhile (P \<circ> f) xs) = dropWhile P (map f xs)"
  by (simp_all add: takeWhile_map dropWhile_map)

lemma below_key: "below cmp nodes key = (\<lambda>k. cmp k key < 0) \<circ> key_at nodes"
  by (simp add: below_def fun_eq_iff)

lemma skip_rep_init: "skip_rep cmp valid (SkipList_init any) []"
proof -
  have "skip_inv cmp valid (sl_nodes (SkipList_init any)) (sl_max_height (SkipList_init any)) (\<lambda>_. [])"
    by (rule skip_invI) (simp_all add: SkipList_init_def NewNode_def Node_Next_def chain_sorted_def kMaxHeight_def)
  then show ?thesis unfolding skip_rep_def by (intro exI [of _ "\<lambda>_. []"]) simp
qed

text \<open>The key an iterator stands on.\<close>

definition iter_at :: "'k SkipList \<Rightarrow> nat option option \<Rightarrow> 'k list \<Rightarrow> bool" where
  "iter_at sl node ks \<longleftrightarrow>
     (\<exists>n. node = Some n \<and> (case ks of [] \<Rightarrow> \<not> Iter_Valid n | k # _ \<Rightarrow> Iter_Valid n \<and> Iter_key sl n = k))"

lemma iter_at_first: "iter_at sl (Some (first_of xs)) (map (key_at (sl_nodes sl)) xs)"
  by (cases xs) (simp_all add: iter_at_def first_of_def Iter_Valid_def Iter_key_def key_at_def)

context key_order
begin

lemma skip_rep_sorted:
  assumes "skip_rep cmp valid sl ks"
  shows "sorted_wrt (\<lambda>a b. cmp a b < 0) ks" "\<forall>k\<in>set ks. valid k"
proof -
  obtain ch where inv: "skip_inv cmp valid (sl_nodes sl) (sl_max_height sl) ch" and ks: "ks = map (key_at (sl_nodes sl)) (ch 0)"
    using assms by (auto simp: skip_rep_def)
  have "0 < kMaxHeight" by (simp add: kMaxHeight_def)
  note lv = skip_inv_level [OF inv this]
  show "sorted_wrt (\<lambda>a b. cmp a b < 0) ks" using lv(2) by (simp add: ks chain_sorted_def sorted_wrt_map)
  show "\<forall>k\<in>set ks. valid k" using lv(6) by (auto simp: ks)
qed

lemma skip_rep_Insert:
  assumes "skip_rep cmp valid sl ks" "valid key" "\<forall>k\<in>set ks. cmp k key \<noteq> 0" "length junk = kMaxHeight"
  shows "\<exists>sl'. Insert cmp junk key sl = Some sl'
    \<and> skip_rep cmp valid sl' (takeWhile (\<lambda>k. cmp k key < 0) ks @ key # dropWhile (\<lambda>k. cmp k key < 0) ks)"
proof -
  let ?n = "sl_nodes sl" and ?P = "\<lambda>k. cmp k key < 0"
  obtain ch where inv: "skip_inv cmp valid ?n (sl_max_height sl) ch" and ks: "ks = map (key_at ?n) (ch 0)"
    using assms(1) by (auto simp: skip_rep_def)
  obtain sl' ch' where 1: "Insert cmp junk key sl = Some sl'" "skip_inv cmp valid (sl_nodes sl') (sl_max_height sl') ch'"
      "ch' 0 = ins (below cmp ?n key) (length ?n) (ch 0)"
    and keys: "\<And>j. j < length ?n \<Longrightarrow> key_at (sl_nodes sl') j = key_at ?n j" "key_at (sl_nodes sl') (length ?n) = key"
    using Insert_spec [OF inv assms(2) _ assms(4)] assms(3) ks by auto
  have mem: "j < length ?n" if "j \<in> set (ch 0)" for j using skip_inv_level(5) [OF inv _ that] by (simp add: kMaxHeight_def)
  have "map (key_at (sl_nodes sl')) (ch' 0) = map (key_at ?n) (takeWhile (below cmp ?n key) (ch 0)) @ key # map (key_at ?n) (dropWhile (below cmp ?n key) (ch 0))"
    unfolding 1(3) ins_def using keys mem by (auto dest: set_takeWhileD set_dropWhileD)
  also have "\<dots> = takeWhile ?P ks @ key # dropWhile ?P ks"
    unfolding ks below_key takeWhile_keys ..
  finally show ?thesis using 1(1,2) unfolding skip_rep_def by metis
qed

lemma skip_rep_Seek:
  assumes "skip_rep cmp valid sl ks" "valid key"
  shows "iter_at sl (Iter_Seek cmp sl key) (dropWhile (\<lambda>k. cmp k key < 0) ks)"
    "Contains cmp sl key = Some (case dropWhile (\<lambda>k. cmp k key < 0) ks of [] \<Rightarrow> False | k # _ \<Rightarrow> cmp key k = 0)"
proof -
  let ?n = "sl_nodes sl"
  obtain ch where inv: "skip_inv cmp valid ?n (sl_max_height sl) ch" and ks: "ks = map (key_at ?n) (ch 0)"
    using assms(1) by (auto simp: skip_rep_def)
  have h: "sl_max_height sl - 1 < kMaxHeight" using skip_inv_height [OF inv] by linarith
  define ds where "ds = dropWhile (below cmp ?n key) (ch 0)"
  have fge: "FindGreaterOrEqual cmp sl key None = Some (first_of ds, None)"
    using FindGreaterOrEqual_loop_spec [OF inv assms(2) h, of "[]" _ None] by (auto simp: FindGreaterOrEqual_def prev_filled_def ds_def)
  have ds: "dropWhile (\<lambda>k. cmp k key < 0) ks = map (key_at ?n) ds"
    unfolding ks ds_def below_key takeWhile_keys ..
  show "iter_at sl (Iter_Seek cmp sl key) (dropWhile (\<lambda>k. cmp k key < 0) ks)"
    using iter_at_first [of sl ds] by (simp add: Iter_Seek_def fge ds)
  show "Contains cmp sl key = Some (case dropWhile (\<lambda>k. cmp k key < 0) ks of [] \<Rightarrow> False | k # _ \<Rightarrow> cmp key k = 0)"
    unfolding Contains_def fge ds by (cases ds) (simp_all add: first_of_def key_at_def)
qed

lemma skip_rep_walk:
  assumes "skip_rep cmp valid sl ks"
  shows "iter_at sl (Iter_SeekToFirst sl) ks"
    "iter_at sl (Iter_SeekToLast sl) (if ks = [] then [] else [last ks])"
    "iter_at sl (Some node) (k # tl0) \<Longrightarrow> k \<in> set ks \<Longrightarrow> ks = as @ k # bs \<Longrightarrow>
       iter_at sl (Iter_Prev cmp sl node) (if as = [] then [] else [last as])"
proof -
  let ?n = "sl_nodes sl"
  obtain ch where inv: "skip_inv cmp valid ?n (sl_max_height sl) ch" and ks: "ks = map (key_at ?n) (ch 0)"
    using assms(1) by (auto simp: skip_rep_def)
  have h: "sl_max_height sl - 1 < kMaxHeight" "0 < kMaxHeight" using skip_inv_height [OF inv] by linarith+
  have pos: "0 < i" if "i \<in> set (ch 0)" for i using skip_inv_level(4) [OF inv h(2) that] .
  have lastp: "iter_at sl (Some (if last (0 # xs) = 0 then None else Some (last (0 # xs)))) (if map (key_at ?n) xs = [] then [] else [last (map (key_at ?n) xs)])"
    if "set xs \<subseteq> set (ch 0)" for xs
    using that pos [OF subsetD [OF that last_in_set]] by (cases "xs = []") (auto simp: iter_at_def Iter_Valid_def Iter_key_def key_at_def last_map)
  show "iter_at sl (Iter_SeekToFirst sl) ks"
    using path_Next [OF skip_inv_level(1) [OF inv h(2)]] iter_at_first [of sl "ch 0"]
    by (simp add: Iter_SeekToFirst_def ks first_of_def)
  show "iter_at sl (Iter_SeekToLast sl) (if ks = [] then [] else [last ks])"
  proof -
    have "FindLast sl = Some (last (0 # ch 0))" using FindLast_loop_spec [OF inv h(1), of "[]"] by (simp add: FindLast_def)
    then show ?thesis unfolding Iter_SeekToLast_def ks using lastp [of "ch 0"] by (simp del: last.simps map_is_Nil_conv)
  qed
  assume node: "iter_at sl (Some node) (k # tl0)" and "k \<in> set ks" and s: "ks = as @ k # bs"
  then have k: "valid k" "nd_key (?n ! the node) = k" using skip_rep_sorted(2) [OF assms] by (auto simp: iter_at_def Iter_key_def)
  have "takeWhile (\<lambda>x. cmp x k < 0) ks = as"
    using skip_rep_sorted(1) [OF assms] irrefl [OF k(1)] unfolding s by (auto simp: sorted_wrt_append takeWhile_append2)
  then have as: "as = map (key_at ?n) (takeWhile (below cmp ?n k) (ch 0))"
    unfolding ks below_key takeWhile_keys by simp
  have "FindLessThan cmp sl k = Some (pred_at (below cmp ?n k) (ch 0))"
    using FindLessThan_loop_spec [OF inv k(1) h(1), of "[]"] by (simp add: FindLessThan_def)
  moreover have "set (takeWhile (below cmp ?n k) (ch 0)) \<subseteq> set (ch 0)" by (auto dest: set_takeWhileD)
  ultimately show "iter_at sl (Iter_Prev cmp sl node) (if as = [] then [] else [last as])"
    using lastp [of "takeWhile (below cmp ?n k) (ch 0)"] unfolding as Iter_Prev_def k(2) pred_at_def
    by (simp del: last.simps map_is_Nil_conv)
qed

lemma skip_rep_Next:
  assumes "skip_rep cmp valid sl ks" "iter_at sl (Iter_Seek cmp sl key) (k # tl0)" "valid key" "dropWhile (\<lambda>k. cmp k key < 0) ks = k # rest"
  shows "iter_at sl (Iter_Next sl (the (Iter_Seek cmp sl key))) rest"
proof -
  let ?n = "sl_nodes sl"
  obtain ch where inv: "skip_inv cmp valid ?n (sl_max_height sl) ch" and ks: "ks = map (key_at ?n) (ch 0)"
    using assms(1) by (auto simp: skip_rep_def)
  have h: "sl_max_height sl - 1 < kMaxHeight" "0 < kMaxHeight" using skip_inv_height [OF inv] by linarith+
  have "FindGreaterOrEqual cmp sl key None = Some (first_of (dropWhile (below cmp ?n key) (ch 0)), None)"
    using FindGreaterOrEqual_loop_spec [OF inv assms(3) h(1), of "[]" _ None] by (auto simp: FindGreaterOrEqual_def prev_filled_def)
  moreover obtain x xs where x: "dropWhile (below cmp ?n key) (ch 0) = x # xs" "rest = map (key_at ?n) xs"
    using assms(4) unfolding ks below_key takeWhile_keys(2) [symmetric] by auto
  moreover have "path ?n 0 0 (takeWhile (below cmp ?n key) (ch 0) @ x # xs)"
    using skip_inv_level(1) [OF inv h(2)] x(1) by (metis takeWhile_dropWhile_id)
  then have "Node_Next ?n x 0 = Some (first_of xs)"
    using path_from [of ?n 0 0 "takeWhile (below cmp ?n key) (ch 0) @ [x]" xs] path_Next by (fastforce simp: first_of_def)
  ultimately show ?thesis using iter_at_first [of sl xs] by (simp add: Iter_Seek_def Iter_Next_def first_of_def)
qed

end

end
