(* ===== verification/Ldb_Skiplist_Conc.thy ===== *)
theory Ldb_Skiplist_Conc
  imports Ldb_Skiplist_Props
begin

text \<open>
  The loads and stores of \<^verbatim>\<open>skiplist.h\<close> as single steps. A writer that has chosen height and predecessors
  publishes the new height and then stores, level by level from the bottom, the link of the new node
  and the link to it. A reader loads one link at a time; it may start with any height the list has had.
  The raised height and the fresh node are one step, since no reader can reach the node yet and a reader
  that starts with a height below the new one is allowed at any time.
  Stores become visible in the order they are made, which is what the release store of \<^verbatim>\<open>SetNext\<close> and
  the acquire load of \<^verbatim>\<open>Next\<close> give.
\<close>

section \<open>Steps\<close>

datatype writer = Idle | Linking nat "nat list" nat nat bool

datatype 'k reader = Stopped | Searching 'k nat nat | Found 'k "nat option"

record 'k shared =
  sh_list :: "'k SkipList"
  sh_writer :: writer
  sh_reader :: "'k reader"

inductive writer_step :: "('k \<Rightarrow> 'k \<Rightarrow> int) \<Rightarrow> ('k \<Rightarrow> bool) \<Rightarrow> 'k shared \<Rightarrow> 'k shared \<Rightarrow> bool" for cmp valid where
  prepare: "FindGreaterOrEqual cmp sl key (Some junk) = Some (n, Some prev) \<Longrightarrow> valid key \<Longrightarrow> length junk = kMaxHeight \<Longrightarrow>
    n = None \<or> cmp key (nd_key (sl_nodes sl ! the n)) \<noteq> 0 \<Longrightarrow> RandomHeight (sl_rnd sl) = (height, rnd) \<Longrightarrow>
    NewNode key height (sl_nodes sl) = (x, nodes) \<Longrightarrow>
    writer_step cmp valid \<lparr>sh_list = sl, sh_writer = Idle, sh_reader = r\<rparr>
      \<lparr>sh_list = \<lparr>sl_nodes = nodes, sl_max_height = max (sl_max_height sl) height, sl_rnd = rnd\<rparr>,
       sh_writer = Linking x (raise_prev (sl_max_height sl) height prev) 0 height False, sh_reader = r\<rparr>"
| link_new: "i < height \<Longrightarrow> Node_Next (sl_nodes sl) (prev ! i) i = Some n \<Longrightarrow>
    writer_step cmp valid \<lparr>sh_list = sl, sh_writer = Linking x prev i height False, sh_reader = r\<rparr>
      \<lparr>sh_list = sl\<lparr>sl_nodes := Node_SetNext x i n (sl_nodes sl)\<rparr>, sh_writer = Linking x prev i height True, sh_reader = r\<rparr>"
| publish: "writer_step cmp valid \<lparr>sh_list = sl, sh_writer = Linking x prev i height True, sh_reader = r\<rparr>
      \<lparr>sh_list = sl\<lparr>sl_nodes := Node_SetNext (prev ! i) i (Some x) (sl_nodes sl)\<rparr>, sh_writer = Linking x prev (i + 1) height False, sh_reader = r\<rparr>"
| finish: "writer_step cmp valid \<lparr>sh_list = sl, sh_writer = Linking x prev height height False, sh_reader = r\<rparr>
      \<lparr>sh_list = sl, sh_writer = Idle, sh_reader = r\<rparr>"

inductive reader_step :: "('k \<Rightarrow> 'k \<Rightarrow> int) \<Rightarrow> ('k \<Rightarrow> bool) \<Rightarrow> 'k shared \<Rightarrow> 'k shared \<Rightarrow> bool" for cmp valid where
  begin_search: "valid key \<Longrightarrow> 1 \<le> h \<Longrightarrow> h \<le> sl_max_height (sh_list s) \<Longrightarrow>
    reader_step cmp valid s (s\<lparr>sh_reader := Searching key 0 (h - 1)\<rparr>)"
| forward: "sh_reader s = Searching key x l \<Longrightarrow> Node_Next (sl_nodes (sh_list s)) x l = Some n \<Longrightarrow>
    KeyIsAfterNode cmp (sl_nodes (sh_list s)) key n \<Longrightarrow> reader_step cmp valid s (s\<lparr>sh_reader := Searching key (the n) l\<rparr>)"
| down: "sh_reader s = Searching key x (Suc l) \<Longrightarrow> Node_Next (sl_nodes (sh_list s)) x (Suc l) = Some n \<Longrightarrow>
    \<not> KeyIsAfterNode cmp (sl_nodes (sh_list s)) key n \<Longrightarrow> reader_step cmp valid s (s\<lparr>sh_reader := Searching key x l\<rparr>)"
| found: "sh_reader s = Searching key x 0 \<Longrightarrow> Node_Next (sl_nodes (sh_list s)) x 0 = Some n \<Longrightarrow>
    \<not> KeyIsAfterNode cmp (sl_nodes (sh_list s)) key n \<Longrightarrow> reader_step cmp valid s (s\<lparr>sh_reader := Found key n\<rparr>)"

inductive concurrent :: "('k \<Rightarrow> 'k \<Rightarrow> int) \<Rightarrow> ('k \<Rightarrow> bool) \<Rightarrow> 'k shared \<Rightarrow> bool" for cmp valid where
  start: "concurrent cmp valid \<lparr>sh_list = SkipList_init any, sh_writer = Idle, sh_reader = Stopped\<rparr>"
| by_writer: "concurrent cmp valid s \<Longrightarrow> writer_step cmp valid s s' \<Longrightarrow> concurrent cmp valid s'"
| by_reader: "concurrent cmp valid s \<Longrightarrow> reader_step cmp valid s s' \<Longrightarrow> concurrent cmp valid s'"

section \<open>Invariant\<close>

definition writer_ok :: "('k \<Rightarrow> 'k \<Rightarrow> int) \<Rightarrow> ('k \<Rightarrow> bool) \<Rightarrow> 'k SkipList \<Rightarrow> (nat \<Rightarrow> nat list) \<Rightarrow> writer \<Rightarrow> bool" where
  "writer_ok cmp valid sl ch w \<longleftrightarrow>
     (case w of
        Idle \<Rightarrow> True
      | Linking x prev i ht half \<Rightarrow>
          linking_ok cmp valid (sl_nodes sl) (sl_max_height sl) ch x prev i ht
          \<and> (half \<longrightarrow> i < ht \<and> Node_Next (sl_nodes sl) x i
                = Some (first_of (dropWhile (below cmp (sl_nodes sl) (key_at (sl_nodes sl) x)) (ch i)))))"

definition reader_ok :: "('k \<Rightarrow> 'k \<Rightarrow> int) \<Rightarrow> ('k \<Rightarrow> bool) \<Rightarrow> 'k SkipList \<Rightarrow> (nat \<Rightarrow> nat list) \<Rightarrow> 'k reader \<Rightarrow> bool" where
  "reader_ok cmp valid sl ch r \<longleftrightarrow>
     (case r of
        Searching key x l \<Rightarrow> valid key \<and> l < kMaxHeight \<and> (x = 0 \<or> x \<in> set (ch l) \<and> below cmp (sl_nodes sl) key x)
      | _ \<Rightarrow> True)"

definition conc_inv :: "('k \<Rightarrow> 'k \<Rightarrow> int) \<Rightarrow> ('k \<Rightarrow> bool) \<Rightarrow> 'k shared \<Rightarrow> (nat \<Rightarrow> nat list) \<Rightarrow> bool" where
  "conc_inv cmp valid s ch \<longleftrightarrow>
     skip_inv cmp valid (sl_nodes (sh_list s)) (sl_max_height (sh_list s)) ch
     \<and> writer_ok cmp valid (sh_list s) ch (sh_writer s) \<and> reader_ok cmp valid (sh_list s) ch (sh_reader s)"

text \<open>A reader is not disturbed when chains grow and the keys of published nodes stay.\<close>

lemma reader_ok_mono:
  assumes "reader_ok cmp valid sl ch r" "skip_inv cmp valid (sl_nodes sl) (sl_max_height sl) ch"
    "\<And>l. l < kMaxHeight \<Longrightarrow> set (ch l) \<subseteq> set (ch' l)"
    "\<And>j. j < length (sl_nodes sl) \<Longrightarrow> key_at (sl_nodes sl') j = key_at (sl_nodes sl) j"
  shows "reader_ok cmp valid sl' ch' r"
proof (cases r)
  case (Searching key x l)
  then show ?thesis using assms(1,4) subsetD [OF assms(3)] skip_inv_level(5) [OF assms(2)] by (auto simp: reader_ok_def below_def)
qed (simp_all add: reader_ok_def)

lemma path_at:
  assumes "path nodes l 0 xs" "x = 0 \<or> x \<in> set xs"
  shows "\<exists>as bs. xs = as @ bs \<and> x = last (0 # as) \<and> (x = 0 \<or> as \<noteq> []) \<and> Node_Next nodes x l = Some (first_of bs)"
proof (cases "x = 0")
  case True
  then show ?thesis using path_Next [OF assms(1)] by (intro exI [of _ "[]"] exI [of _ xs]) (simp add: first_of_def)
next
  case False
  then obtain as bs where s: "xs = as @ x # bs" using assms(2) split_list by fast
  then have "path nodes l (last (0 # as @ [x])) bs" using path_from [of nodes l 0 "as @ [x]" bs] assms(1) by simp
  from path_Next [OF this] s show ?thesis
    by (intro exI [of _ "as @ [x]"] exI [of _ bs]) (simp add: first_of_def)
qed

context key_order
begin

text \<open>A reader's load: there is a link, and if it does not lead below the key, it leads to the
  first node that is not below it.\<close>

lemma reader_load:
  assumes inv: "skip_inv cmp valid (sl_nodes sl) (sl_max_height sl) ch" and r: "reader_ok cmp valid sl ch (Searching key x l)"
  shows "\<exists>n. Node_Next (sl_nodes sl) x l = Some n
    \<and> (KeyIsAfterNode cmp (sl_nodes sl) key n \<longrightarrow> the n \<in> set (ch l) \<and> below cmp (sl_nodes sl) key (the n))
    \<and> (\<not> KeyIsAfterNode cmp (sl_nodes sl) key n \<longrightarrow> n = first_of (dropWhile (below cmp (sl_nodes sl) key) (ch l)))"
proof -
  let ?P = "below cmp (sl_nodes sl) key"
  have k: "valid key" "l < kMaxHeight" "x = 0 \<or> x \<in> set (ch l)" "x = 0 \<or> ?P x" using r by (auto simp: reader_ok_def)
  from path_at [OF skip_inv_level(1) [OF inv k(2)] k(3)] obtain as bs where
    s: "ch l = as @ bs" "x = last (0 # as)" "x = 0 \<or> as \<noteq> []" and n: "Node_Next (sl_nodes sl) x l = Some (first_of bs)" by blast
  have "list_all ?P as"
  proof (cases "as = []")
    case False
    have "0 < last as" using skip_inv_level(4) [OF inv k(2)] s(1) last_in_set [OF False] by simp
    then have "?P (last as)" using k(4) s(2) False by simp
    moreover have "ch l = butlast as @ last as # bs" using s(1) False by simp
    ultimately have "list_all ?P (butlast as)" using downward_below [OF inv k(2,1)] unfolding downward_def by blast
    then have "list_all ?P (butlast as @ [last as])" using \<open>?P (last as)\<close> by (simp only: list_all_append list.pred_inject simp_thms)
    then show ?thesis using False by simp
  qed simp
  then have d: "dropWhile ?P (ch l) = dropWhile ?P bs" unfolding s(1) by (simp add: dropWhile_append2 list_all_iff)
  show ?thesis
    unfolding d using n s(1) by (cases bs) (auto simp: KeyIsAfterNode_def first_of_def below_def key_at_def)
qed

lemma writer_prepare:
  assumes "conc_inv cmp valid \<lparr>sh_list = sl, sh_writer = Idle, sh_reader = r\<rparr> ch"
    "FindGreaterOrEqual cmp sl key (Some junk) = Some (n, Some prev)" "valid key" "length junk = kMaxHeight"
    "n = None \<or> cmp key (nd_key (sl_nodes sl ! the n)) \<noteq> 0" "RandomHeight (sl_rnd sl) = (height, rnd)"
    "NewNode key height (sl_nodes sl) = (x, nodes)"
  shows "conc_inv cmp valid \<lparr>sh_list = \<lparr>sl_nodes = nodes, sl_max_height = max (sl_max_height sl) height, sl_rnd = rnd\<rparr>,
      sh_writer = Linking x (raise_prev (sl_max_height sl) height prev) 0 height False, sh_reader = r\<rparr> ch"
proof -
  have inv: "skip_inv cmp valid (sl_nodes sl) (sl_max_height sl) ch" and r: "reader_ok cmp valid sl ch r"
    using assms(1) by (simp_all add: conc_inv_def)
  let ?P = "below cmp (sl_nodes sl) key"
  have n: "n = first_of (dropWhile ?P (ch 0))" and filled: "prev_filled ?P ch (sl_max_height sl - 1) (Some junk) (Some prev)"
    using FindGreaterOrEqual_spec [OF inv assms(3), of "Some junk"] assms(2) by auto
  have "case dropWhile ?P (ch 0) of [] \<Rightarrow> True | u # _ \<Rightarrow> cmp key (key_at (sl_nodes sl) u) \<noteq> 0"
    using assms(5) unfolding n first_of_def key_at_def by (auto split: list.split)
  then have new: "\<forall>j\<in>set (ch 0). cmp (key_at (sl_nodes sl) j) key \<noteq> 0" using no_duplicate [OF inv assms(3)] by blast
  have ht: "1 \<le> height" "height \<le> kMaxHeight" using RandomHeight_bounds assms(6) by auto
  have x: "x = length (sl_nodes sl)" "nodes = sl_nodes sl @ [\<lparr>nd_key = key, nd_next = replicate height None\<rparr>]"
    using assms(7) by (simp_all add: NewNode_def)
  note prep = linking_prepare [OF inv assms(3) new filled assms(4) ht x(2)]
  have "reader_ok cmp valid \<lparr>sl_nodes = nodes, sl_max_height = max (sl_max_height sl) height, sl_rnd = rnd\<rparr> ch r"
    by (rule reader_ok_mono [OF r inv]) (simp_all add: prep(3))
  then show ?thesis using prep(1) by (simp add: conc_inv_def writer_ok_def x(1) linking_ok_def)
qed

lemma conc_writer:
  assumes "writer_step cmp valid s s'" "conc_inv cmp valid s ch"
  shows "\<exists>ch'. conc_inv cmp valid s' ch' \<and> (\<forall>l<kMaxHeight. set (ch l) \<subseteq> set (ch' l))"
  using assms
proof (induction rule: writer_step.induct)
  case (prepare sl key junk n prev height rnd x nodes r)
  then show ?case using writer_prepare by blast
next
  case (link_new i height sl prev n x r)
  then have ok: "linking_ok cmp valid (sl_nodes sl) (sl_max_height sl) ch x prev i height"
    and r: "reader_ok cmp valid sl ch r" by (simp_all add: conc_inv_def writer_ok_def)
  have n: "n = first_of (dropWhile (below cmp (sl_nodes sl) (key_at (sl_nodes sl) x)) (ch i))"
    using linking_Next [OF ok link_new(1)] link_new(2) by simp
  let ?sl = "sl\<lparr>sl_nodes := Node_SetNext x i n (sl_nodes sl)\<rparr>"
  note new = linking_new [OF ok link_new(1), of n]
  have "reader_ok cmp valid ?sl ch r" by (rule reader_ok_mono [OF r linking_level(1) [OF ok link_new(1)]]) simp_all
  moreover have "below cmp (sl_nodes ?sl) = below cmp (sl_nodes sl)" by (simp add: below_def fun_eq_iff)
  ultimately have "conc_inv cmp valid \<lparr>sh_list = ?sl, sh_writer = Linking x prev i height True, sh_reader = r\<rparr> ch"
    using new link_new(1) n by (simp add: conc_inv_def writer_ok_def linking_ok_def)
  then show ?case by blast
next
  case (publish sl x prev i height r)
  let ?P = "below cmp (sl_nodes sl) (key_at (sl_nodes sl) x)" and ?sl = "sl\<lparr>sl_nodes := Node_SetNext (prev ! i) i (Some x) (sl_nodes sl)\<rparr>"
  from publish have ok: "linking_ok cmp valid (sl_nodes sl) (sl_max_height sl) ch x prev i height" and i: "i < height"
    and half: "Node_Next (sl_nodes sl) x i = Some (first_of (dropWhile ?P (ch i)))"
    and r: "reader_ok cmp valid sl ch r" by (simp_all add: conc_inv_def writer_ok_def)
  have grow: "set (ch l) \<subseteq> set ((ch(i := ins ?P x (ch i))) l)" for l
    using set_append [of "takeWhile ?P (ch i)" "dropWhile ?P (ch i)"] by (auto simp: ins_def)
  have "reader_ok cmp valid ?sl (ch(i := ins ?P x (ch i))) r"
    by (rule reader_ok_mono [OF r linking_level(1) [OF ok i]]) (use grow in simp_all)
  then have "conc_inv cmp valid \<lparr>sh_list = ?sl, sh_writer = Linking x prev (i + 1) height False, sh_reader = r\<rparr> (ch(i := ins ?P x (ch i)))"
    using linking_publish [OF ok i refl half] by (simp add: conc_inv_def writer_ok_def linking_ok_def)
  then show ?case using grow by blast
next
  case (finish sl x prev height r)
  then show ?case by (auto simp: conc_inv_def writer_ok_def)
qed

lemma conc_reader:
  assumes "reader_step cmp valid s s'" "conc_inv cmp valid s ch"
  shows "conc_inv cmp valid s' ch"
  using assms
proof (induction rule: reader_step.induct)
  case (begin_search key h s)
  then show ?case using skip_inv_height [of cmp valid "sl_nodes (sh_list s)" "sl_max_height (sh_list s)" ch]
    by (auto simp: conc_inv_def reader_ok_def)
next
  case (forward s key x l n)
  then show ?case using reader_load [of "sh_list s" ch key x l] by (auto simp: conc_inv_def reader_ok_def)
next
  case (down s key x l n)
  then show ?case using skip_inv_down [of cmp valid "sl_nodes (sh_list s)" "sl_max_height (sh_list s)" ch l]
    by (auto simp: conc_inv_def reader_ok_def)
next
  case (found s key x n)
  then show ?case by (simp add: conc_inv_def reader_ok_def)
qed

lemma concurrent_inv: "concurrent cmp valid s \<Longrightarrow> \<exists>ch. conc_inv cmp valid s ch"
proof (induction rule: concurrent.induct)
  case (start any)
  then show ?case using skip_rep_init [of cmp valid any] by (auto simp: conc_inv_def writer_ok_def reader_ok_def skip_rep_def)
next
  case (by_writer s s')
  then show ?case using conc_writer by blast
next
  case (by_reader s s')
  then show ?case using conc_reader by blast
qed

lemma concurrent_search:
  assumes "concurrent cmp valid s" "sh_reader s = Searching key x l"
  shows "\<exists>ks. skip_rep cmp valid (sh_list s) ks
    \<and> (\<exists>s'. reader_step cmp valid s s')
    \<and> (\<forall>s' n. reader_step cmp valid s s' \<and> sh_reader s' = Found key n
         \<longrightarrow> iter_at (sh_list s) (Some n) (dropWhile (\<lambda>k. cmp k key < 0) ks))"
proof -
  let ?n = "sl_nodes (sh_list s)"
  obtain ch where c: "conc_inv cmp valid s ch" using concurrent_inv [OF assms(1)] by blast
  then have inv: "skip_inv cmp valid ?n (sl_max_height (sh_list s)) ch" and r: "reader_ok cmp valid (sh_list s) ch (Searching key x l)"
    using assms(2) by (simp_all add: conc_inv_def)
  from reader_load [OF inv r] obtain n where n: "Node_Next ?n x l = Some n"
    "\<not> KeyIsAfterNode cmp ?n key n \<Longrightarrow> n = first_of (dropWhile (below cmp ?n key) (ch l))" by blast
  have "\<exists>s'. reader_step cmp valid s s'"
    using reader_step.forward [OF assms(2) n(1)] reader_step.down [of s key x _ n] reader_step.found [of s key x n] assms(2) n(1)
    by (cases l) blast+
  moreover have "iter_at (sh_list s) (Some m) (dropWhile (\<lambda>k. cmp k key < 0) (map (key_at ?n) (ch 0)))"
    if "reader_step cmp valid s s'" "sh_reader s' = Found key m" for s' m
    using that assms(2) n iter_at_first [of "sh_list s" "dropWhile (below cmp ?n key) (ch 0)"]
    by (cases rule: reader_step.cases) (auto simp: below_key takeWhile_keys(2))
  ultimately show ?thesis using inv unfolding skip_rep_def by blast
qed

end

end
