(* ===== verification/Ldb_Batch.thy ===== *)
theory Ldb_Batch
  imports Ldb_Format Ldb_Status
begin

text \<open>
  \<^verbatim>\<open>db/write_batch.cc\<close>: a write batch is a byte string of a sequence number, a count and the records. The
  operations are modelled on that string; the theorems relate it to the list of updates it stands
  for. A \<^verbatim>\<open>Handler\<close> is a pair of functions on a state, so that iterating over a batch is folding them
  over its records. After a failed parse the code does not look at the rest of the input again, so
  the model does not keep it.
\<close>

section \<open>The batch\<close>

type_synonym WriteBatch = "byte list"

definition kHeader :: nat where
  "kHeader = 12"

definition WriteBatch_Clear :: WriteBatch where
  "WriteBatch_Clear = replicate kHeader 0"

definition WriteBatch_ApproximateSize :: "WriteBatch \<Rightarrow> nat" where
  "WriteBatch_ApproximateSize rep = length rep"

text \<open>Overwriting bytes of the string in place.\<close>

definition overwrite :: "byte list \<Rightarrow> nat \<Rightarrow> byte list \<Rightarrow> byte list" where
  "overwrite rep i bs = take i rep @ bs @ drop (i + length bs) rep"

definition WriteBatch_Count :: "WriteBatch \<Rightarrow> int" where
  "WriteBatch_Count rep = sint (DecodeFixed32 (drop 8 rep))"

definition WriteBatch_SetCount :: "WriteBatch \<Rightarrow> int \<Rightarrow> WriteBatch" where
  "WriteBatch_SetCount rep n = overwrite rep 8 (EncodeFixed32 (word_of_int n))"

definition WriteBatch_Sequence :: "WriteBatch \<Rightarrow> SequenceNumber" where
  "WriteBatch_Sequence rep = DecodeFixed64 rep"

definition WriteBatch_SetSequence :: "WriteBatch \<Rightarrow> SequenceNumber \<Rightarrow> WriteBatch" where
  "WriteBatch_SetSequence rep seq = overwrite rep 0 (EncodeFixed64 seq)"

definition WriteBatch_Put :: "WriteBatch \<Rightarrow> slice \<Rightarrow> slice \<Rightarrow> WriteBatch" where
  "WriteBatch_Put rep key value =
     (let rep = WriteBatch_SetCount rep (WriteBatch_Count rep + 1);
          rep = rep @ [ucast (ValueType_value kTypeValue)];
          rep = PutLengthPrefixedSlice rep key
      in PutLengthPrefixedSlice rep value)"

definition WriteBatch_Delete :: "WriteBatch \<Rightarrow> slice \<Rightarrow> WriteBatch" where
  "WriteBatch_Delete rep key =
     (let rep = WriteBatch_SetCount rep (WriteBatch_Count rep + 1);
          rep = rep @ [ucast (ValueType_value kTypeDeletion)]
      in PutLengthPrefixedSlice rep key)"

definition WriteBatchInternal_Append :: "WriteBatch \<Rightarrow> WriteBatch \<Rightarrow> WriteBatch" where
  "WriteBatchInternal_Append dst src =
     (let dst = WriteBatch_SetCount dst (WriteBatch_Count dst + WriteBatch_Count src)
      in dst @ drop kHeader src)"

definition WriteBatch_Append :: "WriteBatch \<Rightarrow> WriteBatch \<Rightarrow> WriteBatch" where
  "WriteBatch_Append rep source = WriteBatchInternal_Append rep source"

definition WriteBatch_SetContents :: "WriteBatch \<Rightarrow> slice \<Rightarrow> WriteBatch" where
  "WriteBatch_SetContents rep contents = contents"

section \<open>Iteration\<close>

record 's Handler =
  handler_Put :: "'s \<Rightarrow> slice \<Rightarrow> slice \<Rightarrow> 's"
  handler_Delete :: "'s \<Rightarrow> slice \<Rightarrow> 's"

function Iterate_loop :: "'s Handler \<Rightarrow> slice \<Rightarrow> int \<Rightarrow> 's \<Rightarrow> (Status + int) \<times> 's" where
  "Iterate_loop h [] found s = (Inr found, s)"
| "Iterate_loop h (tag # input) found s =
     (let found = found + 1 in
      if ucast tag = ValueType_value kTypeValue
      then (case GetLengthPrefixedSlice input of
              None \<Rightarrow> (Inl (Corruption ''bad WriteBatch Put''), s)
            | Some (key, input) \<Rightarrow>
                (case GetLengthPrefixedSlice input of
                   None \<Rightarrow> (Inl (Corruption ''bad WriteBatch Put''), s)
                 | Some (value, input) \<Rightarrow> Iterate_loop h input found (handler_Put h s key value)))
      else if ucast tag = ValueType_value kTypeDeletion
      then (case GetLengthPrefixedSlice input of
              None \<Rightarrow> (Inl (Corruption ''bad WriteBatch Delete''), s)
            | Some (key, input) \<Rightarrow> Iterate_loop h input found (handler_Delete h s key))
      else (Inl (Corruption ''unknown WriteBatch tag''), s))"
  by pat_completeness auto
termination
  by (relation "measure (\<lambda>(h, input, found, s). length input)")
     (auto dest!: GetLengthPrefixedSlice_shorter)

definition WriteBatch_Iterate :: "'s Handler \<Rightarrow> WriteBatch \<Rightarrow> 's \<Rightarrow> Status \<times> 's" where
  "WriteBatch_Iterate h rep s =
     (if length rep < kHeader then (Corruption ''malformed WriteBatch (too small)'', s)
      else case Iterate_loop h (remove_prefix rep kHeader) 0 s of
             (Inl err, s) \<Rightarrow> (err, s)
           | (Inr found, s) \<Rightarrow>
               if found \<noteq> WriteBatch_Count rep then (Corruption ''WriteBatch has wrong count'', s) else (OK, s))"

text \<open>
  \<^verbatim>\<open>MemTableInserter\<close>: the state is the next sequence number and the memtable; \<open>add\<close> is
  \<^verbatim>\<open>MemTable::Add\<close>.
\<close>

definition MemTableInserter ::
    "('m \<Rightarrow> SequenceNumber \<Rightarrow> ValueType \<Rightarrow> slice \<Rightarrow> slice \<Rightarrow> 'm) \<Rightarrow> (SequenceNumber \<times> 'm) Handler" where
  "MemTableInserter add =
     \<lparr>handler_Put = (\<lambda>(seq, m) key value. (seq + 1, add m seq kTypeValue key value)),
      handler_Delete = (\<lambda>(seq, m) key. (seq + 1, add m seq kTypeDeletion key []))\<rparr>"

definition WriteBatch_InsertInto ::
    "('m \<Rightarrow> SequenceNumber \<Rightarrow> ValueType \<Rightarrow> slice \<Rightarrow> slice \<Rightarrow> 'm) \<Rightarrow> WriteBatch \<Rightarrow> 'm \<Rightarrow> Status \<times> 'm" where
  "WriteBatch_InsertInto add rep m =
     (case WriteBatch_Iterate (MemTableInserter add) rep (WriteBatch_Sequence rep, m) of
        (st, (seq, m)) \<Rightarrow> (st, m))"

section \<open>The updates a batch stands for\<close>

datatype update = UPut slice slice | UDelete slice

fun update_ok :: "update \<Rightarrow> bool" where
  "update_ok (UPut k v) \<longleftrightarrow> length k < 2 ^ 32 \<and> length v < 2 ^ 32"
| "update_ok (UDelete k) \<longleftrightarrow> length k < 2 ^ 32"

fun update_bytes :: "update \<Rightarrow> byte list" where
  "update_bytes (UPut k v) = 1 # PutLengthPrefixedSlice [] k @ PutLengthPrefixedSlice [] v"
| "update_bytes (UDelete k) = 0 # PutLengthPrefixedSlice [] k"

fun apply_update :: "'s Handler \<Rightarrow> 's \<Rightarrow> update \<Rightarrow> 's" where
  "apply_update h s (UPut k v) = handler_Put h s k v"
| "apply_update h s (UDelete k) = handler_Delete h s k"

text \<open>The representation invariant.\<close>

definition batch_rep :: "WriteBatch \<Rightarrow> SequenceNumber \<Rightarrow> update list \<Rightarrow> bool" where
  "batch_rep rep seq us \<longleftrightarrow>
     rep = EncodeFixed64 seq @ EncodeFixed32 (word_of_nat (length us)) @ concat (map update_bytes us)
     \<and> list_all update_ok us \<and> length us < 2 ^ 31"

lemma header_length [simp]: "length (EncodeFixed64 s) = 8" "length (EncodeFixed32 n) = 4"
  by (simp_all add: EncodeFixed64_def EncodeFixed32_def)

lemma sint_small_nat: "n < 2 ^ 31 \<Longrightarrow> sint (word_of_nat n :: u32) = int n"
proof -
  assume "n < 2 ^ 31"
  then have "signed_take_bit 31 (int n) = int n" by (intro signed_take_bit_int_eq_self) auto
  then show ?thesis by (simp add: signed_of_nat)
qed

lemma le_bytes_zero: "le_bytes n 0 = replicate n 0"
  by (induction n) auto

lemma batch_rep_Clear: "batch_rep WriteBatch_Clear 0 []"
  by (simp add: batch_rep_def WriteBatch_Clear_def kHeader_def EncodeFixed64_def EncodeFixed32_def le_bytes_zero
      flip: replicate_add)

lemma Count_rep: "batch_rep rep seq us \<Longrightarrow> WriteBatch_Count rep = int (length us)"
  by (auto simp: batch_rep_def WriteBatch_Count_def DecodeFixed32_bytes sint_small_nat)

lemma Sequence_rep: "batch_rep rep seq us \<Longrightarrow> WriteBatch_Sequence rep = seq"
  by (auto simp: batch_rep_def WriteBatch_Sequence_def DecodeFixed64_bytes)

lemma SetCount_rep:
  assumes "batch_rep rep seq us"
  shows "WriteBatch_SetCount rep (int n) = EncodeFixed64 seq @ EncodeFixed32 (word_of_nat n) @ concat (map update_bytes us)"
  using assms by (simp add: batch_rep_def WriteBatch_SetCount_def overwrite_def)

lemma Put_rep:
  assumes "batch_rep rep seq us" "update_ok (UPut k v)" "length us + 1 < 2 ^ 31"
  shows "batch_rep (WriteBatch_Put rep k v) seq (us @ [UPut k v])"
proof -
  have c: "WriteBatch_Count rep + 1 = int (length us + 1)" using Count_rep [OF assms(1)] by simp
  have "WriteBatch_Put rep k v = EncodeFixed64 seq @ EncodeFixed32 (word_of_nat (length us + 1))
      @ concat (map update_bytes (us @ [UPut k v]))"
    unfolding WriteBatch_Put_def Let_def c SetCount_rep [OF assms(1)]
    by (subst PutLengthPrefixedSlice_append, subst PutLengthPrefixedSlice_append) simp
  with assms show ?thesis by (simp add: batch_rep_def)
qed

lemma Delete_rep:
  assumes "batch_rep rep seq us" "update_ok (UDelete k)" "length us + 1 < 2 ^ 31"
  shows "batch_rep (WriteBatch_Delete rep k) seq (us @ [UDelete k])"
proof -
  have c: "WriteBatch_Count rep + 1 = int (length us + 1)" using Count_rep [OF assms(1)] by simp
  have "WriteBatch_Delete rep k = EncodeFixed64 seq @ EncodeFixed32 (word_of_nat (length us + 1))
      @ concat (map update_bytes (us @ [UDelete k]))"
    unfolding WriteBatch_Delete_def Let_def c SetCount_rep [OF assms(1)]
    by (subst PutLengthPrefixedSlice_append) simp
  with assms show ?thesis by (simp add: batch_rep_def)
qed

lemma Append_rep:
  assumes "batch_rep rep seq us" "batch_rep src seq' us'" "length us + length us' < 2 ^ 31"
  shows "batch_rep (WriteBatch_Append rep src) seq (us @ us')"
proof -
  have c: "WriteBatch_Count rep + WriteBatch_Count src = int (length us + length us')"
    using Count_rep [OF assms(1)] Count_rep [OF assms(2)] by simp
  have "drop kHeader src = concat (map update_bytes us')"
    using assms(2) by (simp add: batch_rep_def kHeader_def)
  then have "WriteBatch_Append rep src = EncodeFixed64 seq @ EncodeFixed32 (word_of_nat (length us + length us'))
      @ concat (map update_bytes (us @ us'))"
    unfolding WriteBatch_Append_def WriteBatchInternal_Append_def Let_def c SetCount_rep [OF assms(1)] by simp
  with assms show ?thesis by (simp add: batch_rep_def)
qed

lemma SetSequence_rep:
  "batch_rep rep seq us \<Longrightarrow> batch_rep (WriteBatch_SetSequence rep seq') seq' us"
  by (simp add: batch_rep_def WriteBatch_SetSequence_def overwrite_def)


section \<open>Iterating over a batch\<close>

lemma lpslice_first: "length s < 2 ^ 32 \<Longrightarrow> GetLengthPrefixedSlice (PutLengthPrefixedSlice [] s @ rest) = Some (s, rest)"
  by (rule lpslice.dec_enc)

lemma Iterate_loop_updates:
  "list_all update_ok us \<Longrightarrow>
   Iterate_loop h (concat (map update_bytes us)) found s = (Inr (found + int (length us)), foldl (apply_update h) s us)"
proof (induction us arbitrary: found s)
  case (Cons u us)
  show ?case
  proof (cases u)
    case (UPut k v)
    with Cons show ?thesis by (simp add: lpslice_first)
  next
    case (UDelete k)
    with Cons show ?thesis by (simp add: lpslice_first)
  qed
qed simp

lemma Iterate_rep:
  assumes "batch_rep rep seq us"
  shows "WriteBatch_Iterate h rep s = (OK, foldl (apply_update h) s us)"
proof -
  have "remove_prefix rep kHeader = concat (map update_bytes us)" "\<not> length rep < kHeader"
    using assms by (simp_all add: batch_rep_def remove_prefix_def kHeader_def)
  moreover have "list_all update_ok us" using assms by (simp add: batch_rep_def)
  ultimately show ?thesis
    using Iterate_loop_updates [of us h 0 s] Count_rep [OF assms] by (simp add: WriteBatch_Iterate_def)
qed

text \<open>The entries a batch adds to the memtable: consecutive sequence numbers, in order.\<close>

fun update_entry :: "SequenceNumber \<Rightarrow> update \<Rightarrow> SequenceNumber \<times> ValueType \<times> slice \<times> slice" where
  "update_entry seq (UPut k v) = (seq, kTypeValue, k, v)"
| "update_entry seq (UDelete k) = (seq, kTypeDeletion, k, [])"

definition batch_entries :: "SequenceNumber \<Rightarrow> update list \<Rightarrow> (SequenceNumber \<times> ValueType \<times> slice \<times> slice) list" where
  "batch_entries seq us = map (\<lambda>(i, u). update_entry (seq + word_of_nat i) u) (enumerate 0 us)"

lemma batch_entries_Cons:
  "batch_entries seq (u # us) = update_entry seq u # batch_entries (seq + 1) us"
proof -
  have "map (\<lambda>(i, u). update_entry (seq + word_of_nat i) u) (enumerate (Suc 0) us)
      = map (\<lambda>(i, u). update_entry (seq + 1 + word_of_nat i) u) (enumerate 0 us)"
    by (rule nth_equalityI) (simp_all add: nth_enumerate_eq algebra_simps)
  then show ?thesis by (simp add: batch_entries_def)
qed

lemma inserter_fold:
  "foldl (apply_update (MemTableInserter add)) (seq, m) us
   = (seq + word_of_nat (length us), foldl (\<lambda>m (s, t, k, v). add m s t k v) m (batch_entries seq us))"
proof (induction us arbitrary: seq m)
  case Nil
  then show ?case by (simp add: batch_entries_def)
next
  case (Cons u us)
  then show ?case by (cases u) (simp_all add: batch_entries_Cons MemTableInserter_def algebra_simps)
qed

section \<open>Batches the interface builds\<close>

inductive built :: "WriteBatch \<Rightarrow> SequenceNumber \<Rightarrow> update list \<Rightarrow> bool" where
  clear: "built WriteBatch_Clear 0 []"
| put: "built rep seq us \<Longrightarrow> update_ok (UPut k v) \<Longrightarrow> length us + 1 < 2 ^ 31 \<Longrightarrow>
    built (WriteBatch_Put rep k v) seq (us @ [UPut k v])"
| delete: "built rep seq us \<Longrightarrow> update_ok (UDelete k) \<Longrightarrow> length us + 1 < 2 ^ 31 \<Longrightarrow>
    built (WriteBatch_Delete rep k) seq (us @ [UDelete k])"
| append: "built rep seq us \<Longrightarrow> built src seq' us' \<Longrightarrow> length us + length us' < 2 ^ 31 \<Longrightarrow>
    built (WriteBatch_Append rep src) seq (us @ us')"
| set_sequence: "built rep seq us \<Longrightarrow> built (WriteBatch_SetSequence rep seq') seq' us"

lemma built_rep: "built rep seq us \<Longrightarrow> batch_rep rep seq us"
proof (induction rule: built.induct)
  case clear
  show ?case by (rule batch_rep_Clear)
next
  case (put rep seq us k v)
  then show ?case by (intro Put_rep)
next
  case (delete rep seq us k)
  then show ?case by (intro Delete_rep)
next
  case (append rep seq us src seq' us')
  then show ?case by (intro Append_rep)
next
  case (set_sequence rep seq us seq')
  then show ?case by (intro SetSequence_rep)
qed

section \<open>Properties\<close>

text \<open>
  C19. A batch built with \<^verbatim>\<open>Clear\<close>, \<^verbatim>\<open>Put\<close>, \<^verbatim>\<open>Delete\<close>, \<^verbatim>\<open>Append\<close> and \<^verbatim>\<open>SetSequence\<close> stands for the list of its
  updates: its count is their number and \<^verbatim>\<open>Iterate\<close> succeeds and hands them to the handler in order.
\<close>

theorem write_batch_refines:
  assumes "built rep seq us"
  shows "WriteBatch_Count rep = int (length us) \<and> WriteBatch_Sequence rep = seq
    \<and> WriteBatch_Iterate h rep s = (OK, foldl (apply_update h) s us)"
  using built_rep [OF assms] by (simp add: Count_rep Sequence_rep Iterate_rep)

lemma built_example:
  "built (WriteBatch_SetSequence (WriteBatch_Delete (WriteBatch_Put WriteBatch_Clear [97] [1, 2]) [98]) 7) 7
     ([] @ [UPut [97] [1, 2]] @ [UDelete [98]])"
proof -
  have "built (WriteBatch_Put WriteBatch_Clear [97] [1, 2]) 0 ([] @ [UPut [97] [1, 2]])"
    by (intro built.put built.clear) simp_all
  then have "built (WriteBatch_Delete (WriteBatch_Put WriteBatch_Clear [97] [1, 2]) [98]) 0
      (([] @ [UPut [97] [1, 2]]) @ [UDelete [98]])"
    by (intro built.delete) simp_all
  then show ?thesis using built.set_sequence by simp
qed

theorem write_batch_refines_witness:
  "WriteBatch_Iterate \<lparr>handler_Put = (\<lambda>s k v. s @ [(k, Some v)]), handler_Delete = (\<lambda>s k. s @ [(k, None)])\<rparr>
     (WriteBatch_SetSequence (WriteBatch_Delete (WriteBatch_Put WriteBatch_Clear [97] [1, 2]) [98]) 7) []
   = (OK, [([97], Some [1, 2]), ([98], None)])"
  using write_batch_refines [OF built_example,
      of "\<lparr>handler_Put = (\<lambda>s k v. s @ [(k, Some v)]), handler_Delete = (\<lambda>s k. s @ [(k, None)])\<rparr>" "[]"] by simp

text \<open>
  Inserting such a batch into a memtable adds its updates in order, the first with the sequence
  number of the batch and each with the number after the one before it, deletions with an empty
  value.
\<close>

theorem write_batch_insert_into:
  assumes "built rep seq us"
  shows "WriteBatch_InsertInto add rep m
    = (OK, foldl (\<lambda>m (s, t, k, v). add m s t k v) m (batch_entries seq us))"
  by (simp add: WriteBatch_InsertInto_def inserter_fold
      Iterate_rep [OF built_rep [OF assms]] Sequence_rep [OF built_rep [OF assms]])

theorem write_batch_insert_into_witness:
  "WriteBatch_InsertInto (\<lambda>m s t k v. m @ [(s, t, k, v)])
     (WriteBatch_SetSequence (WriteBatch_Delete (WriteBatch_Put WriteBatch_Clear [97] [1, 2]) [98]) 7) []
   = (OK, [(7, kTypeValue, [97], [1, 2]), (8, kTypeDeletion, [98], [])])"
  using write_batch_insert_into [OF built_example, of "\<lambda>m s t k v. m @ [(s, t, k, v)]" "[]"]
  by (simp add: batch_entries_Cons) (simp add: batch_entries_def)

end
