(* ===== verification/Ldb_Memtable.thy ===== *)
theory Ldb_Memtable
  imports Ldb_Skiplist_Conc Ldb_Batch
begin

text \<open>
  \<^verbatim>\<open>db/memtable.cc\<close> and \<^verbatim>\<open>db/memtable.h\<close>: the entries written since the last compaction, in a skip list of
  encoded records. A \<^verbatim>\<open>const char*\<close> into the arena is the list of the bytes from there on; a read of a
  record that is not there has no value. \<open>ucmp\<close> is the user comparator.
\<close>

section \<open>Records\<close>

text \<open>\<^verbatim>\<open>GetVarint32Ptr(p, p + 5, &v)\<close>: the parser is limited to five bytes of a longer buffer.\<close>

definition GetVarint32Ptr5 :: "byte list \<Rightarrow> (u32 \<times> byte list) option" where
  "GetVarint32Ptr5 p =
     (case GetVarint32Ptr (take 5 p) of
        None \<Rightarrow> None
      | Some (v, rest) \<Rightarrow> Some (v, drop (length (take 5 p) - length rest) p))"

text \<open>The slice a record starts with, and the bytes behind it.\<close>

definition Mem_GetLengthPrefixedSlice :: "byte list \<Rightarrow> (slice \<times> byte list) option" where
  "Mem_GetLengthPrefixedSlice data =
     (case GetVarint32Ptr5 data of
        None \<Rightarrow> None
      | Some (len, p) \<Rightarrow> if unat len \<le> length p then Some (take (unat len) p, drop (unat len) p) else None)"

definition KeyComparator :: "(slice \<Rightarrow> slice \<Rightarrow> int) \<Rightarrow> byte list \<Rightarrow> byte list \<Rightarrow> int" where
  "KeyComparator ucmp aptr bptr =
     InternalKey_Compare ucmp (fst (the (Mem_GetLengthPrefixedSlice aptr))) (fst (the (Mem_GetLengthPrefixedSlice bptr)))"

definition EncodeKey :: "slice \<Rightarrow> byte list" where
  "EncodeKey target = PutVarint32 [] (word_of_nat (length target)) @ target"

section \<open>The memtable\<close>

record MemTable =
  mt_refs :: int
  mt_table :: "byte list SkipList"

definition MemTable_init :: MemTable where
  "MemTable_init = \<lparr>mt_refs = 0, mt_table = SkipList_init []\<rparr>"

definition MemTable_Ref :: "MemTable \<Rightarrow> MemTable" where
  "MemTable_Ref m = m\<lparr>mt_refs := mt_refs m + 1\<rparr>"

text \<open>\<open>None\<close> when the table deletes itself.\<close>

definition MemTable_Unref :: "MemTable \<Rightarrow> MemTable option" where
  "MemTable_Unref m =
     (let m = m\<lparr>mt_refs := mt_refs m - 1\<rparr> in if mt_refs m \<le> 0 then None else Some m)"

definition MemTable_Add ::
    "(slice \<Rightarrow> slice \<Rightarrow> int) \<Rightarrow> nat list \<Rightarrow> MemTable \<Rightarrow> SequenceNumber \<Rightarrow> ValueType \<Rightarrow> slice \<Rightarrow> slice \<Rightarrow> MemTable option" where
  "MemTable_Add ucmp junk m s type key value =
     (let key_size = length key;
          val_size = length value;
          internal_key_size = key_size + 8;
          buf = EncodeVarint32 (word_of_nat internal_key_size) @ key
                @ EncodeFixed64 (push_bit 8 s OR ValueType_value type)
                @ EncodeVarint32 (word_of_nat val_size) @ value
      in case Insert (KeyComparator ucmp) junk buf (mt_table m) of
           None \<Rightarrow> None
         | Some table \<Rightarrow> Some (m\<lparr>mt_table := table\<rparr>))"

definition MemTable_Get ::
    "(slice \<Rightarrow> slice \<Rightarrow> int) \<Rightarrow> MemTable \<Rightarrow> LookupKey \<Rightarrow> byte list \<Rightarrow> Status \<Rightarrow> (bool \<times> byte list \<times> Status) option" where
  "MemTable_Get ucmp m key value s =
     (case Iter_Seek (KeyComparator ucmp) (mt_table m) (memtable_key key) of
        None \<Rightarrow> None
      | Some iter \<Rightarrow>
          if Iter_Valid iter
          then let entry = Iter_key (mt_table m) iter
               in case GetVarint32Ptr5 entry of
                    None \<Rightarrow> None
                  | Some (key_length, key_ptr) \<Rightarrow>
                      if ucmp (take (unat (key_length - 8)) key_ptr) (lookup_user_key key) = 0
                      then let tag = DecodeFixed64 (drop (unat key_length - 8) key_ptr)
                           in if tag AND 0xff = ValueType_value kTypeValue
                              then case Mem_GetLengthPrefixedSlice (drop (unat key_length) key_ptr) of
                                     None \<Rightarrow> None
                                   | Some (v, _) \<Rightarrow> Some (True, v, s)
                              else if tag AND 0xff = ValueType_value kTypeDeletion
                              then Some (True, value, NotFound (status_message '''' ''''))
                              else Some (False, value, s)
                      else Some (False, value, s)
          else Some (False, value, s))"

section \<open>Its iterator\<close>

definition Mem_Valid :: "nat option \<Rightarrow> bool" where
  "Mem_Valid iter = Iter_Valid iter"

definition Mem_Seek :: "(slice \<Rightarrow> slice \<Rightarrow> int) \<Rightarrow> MemTable \<Rightarrow> slice \<Rightarrow> nat option option" where
  "Mem_Seek ucmp m k = Iter_Seek (KeyComparator ucmp) (mt_table m) (EncodeKey k)"

definition Mem_SeekToFirst :: "MemTable \<Rightarrow> nat option option" where
  "Mem_SeekToFirst m = Iter_SeekToFirst (mt_table m)"

definition Mem_SeekToLast :: "MemTable \<Rightarrow> nat option option" where
  "Mem_SeekToLast m = Iter_SeekToLast (mt_table m)"

definition Mem_Next :: "MemTable \<Rightarrow> nat option \<Rightarrow> nat option option" where
  "Mem_Next m iter = Iter_Next (mt_table m) iter"

definition Mem_Prev :: "(slice \<Rightarrow> slice \<Rightarrow> int) \<Rightarrow> MemTable \<Rightarrow> nat option \<Rightarrow> nat option option" where
  "Mem_Prev ucmp m iter = Iter_Prev (KeyComparator ucmp) (mt_table m) iter"

definition Mem_key :: "MemTable \<Rightarrow> nat option \<Rightarrow> slice option" where
  "Mem_key m iter = map_option fst (Mem_GetLengthPrefixedSlice (Iter_key (mt_table m) iter))"

definition Mem_value :: "MemTable \<Rightarrow> nat option \<Rightarrow> slice option" where
  "Mem_value m iter =
     (case Mem_GetLengthPrefixedSlice (Iter_key (mt_table m) iter) of
        None \<Rightarrow> None
      | Some (key_slice, rest) \<Rightarrow> map_option fst (Mem_GetLengthPrefixedSlice rest))"

section \<open>Entries and their records\<close>

type_synonym entry = "SequenceNumber \<times> ValueType \<times> slice \<times> slice"

fun entry_ok :: "entry \<Rightarrow> bool" where
  "entry_ok (s, t, k, v) \<longleftrightarrow> s \<le> kMaxSequenceNumber \<and> length k + 8 < 2 ^ 32 \<and> length v < 2 ^ 32"

fun entry_key :: "entry \<Rightarrow> slice" where
  "entry_key (s, t, k, v) = PutFixed64 k (PackSequenceAndType s t)"

fun entry_bytes :: "entry \<Rightarrow> byte list" where
  "entry_bytes (s, t, k, v) = PutLengthPrefixedSlice [] (entry_key (s, t, k, v)) @ PutLengthPrefixedSlice [] v"

lemma GetVarint32Ptr5_bytes: "GetVarint32Ptr5 (EncodeVarint32 v @ rest) = Some (v, rest)"
proof -
  have "length (EncodeVarint32 v) \<le> 5" unfolding EncodeVarint32_def by simp
  moreover from this have "take 5 (EncodeVarint32 v @ rest) = EncodeVarint32 v @ take (5 - length (EncodeVarint32 v)) rest" by simp
  ultimately show ?thesis
    unfolding GetVarint32Ptr5_def using GetVarint32Ptr_bytes [of v "take (5 - length (EncodeVarint32 v)) rest"]
    by (simp add: EncodeVarint32_bytes)
qed

lemma Mem_slice_Put:
  assumes "length s < 2 ^ 32"
  shows "Mem_GetLengthPrefixedSlice (PutLengthPrefixedSlice [] s @ rest) = Some (s, rest)"
  using assms GetVarint32Ptr5_bytes [of "word_of_nat (length s)" "s @ rest"]
  by (simp add: Mem_GetLengthPrefixedSlice_def PutLengthPrefixedSlice_def PutVarint32_def unat_of_nat)

lemma Mem_slice_entry: "entry_ok e \<Longrightarrow> Mem_GetLengthPrefixedSlice (entry_bytes e) = Some (entry_key e, PutLengthPrefixedSlice [] (snd (snd (snd e))))"
  by (cases e) (simp add: Mem_slice_Put)

lemma MemTable_Add_alt:
  "MemTable_Add ucmp junk m s t k v =
     map_option (\<lambda>table. m\<lparr>mt_table := table\<rparr>) (Insert (KeyComparator ucmp) junk (entry_bytes (s, t, k, v)) (mt_table m))"
proof -
  have "EncodeVarint32 (word_of_nat (length k + 8)) @ k @ EncodeFixed64 (push_bit 8 s OR ValueType_value t)
      @ EncodeVarint32 (word_of_nat (length v)) @ v = entry_bytes (s, t, k, v)"
    by (simp add: PutLengthPrefixedSlice_def PutVarint32_def PackSequenceAndType_def) (simp add: PutFixed64_def)
  then show ?thesis by (simp add: MemTable_Add_def Let_def map_option_case)
qed

lemma memtable_key_bytes: "memtable_key (LookupKey_init u s) = PutLengthPrefixedSlice [] (PutFixed64 u (PackSequenceAndType s kTypeValue))"
  by (simp add: memtable_key_def LookupKey_init_def PutLengthPrefixedSlice_def PutVarint32_def kValueTypeForSeek_def Let_def)
     (simp add: PutFixed64_def)

definition mem_valid :: "byte list \<Rightarrow> bool" where
  "mem_valid p \<longleftrightarrow> (case Mem_GetLengthPrefixedSlice p of None \<Rightarrow> False | Some (k, _) \<Rightarrow> 8 \<le> length k)"

text \<open>The records are ordered as their internal keys are, so the skip list may be used with them.\<close>

interpretation mem_bytewise: key_order "KeyComparator Bytewise_Compare" mem_valid
proof
  fix a b c
  have iv: "internal_valid (\<lambda>_. True) (fst (the (Mem_GetLengthPrefixedSlice p)))" if "mem_valid p" for p
    using that by (auto simp: mem_valid_def internal_valid_def split: option.splits)
  assume a: "mem_valid a" and b: "mem_valid b"
  show "0 < KeyComparator Bytewise_Compare b a \<longleftrightarrow> KeyComparator Bytewise_Compare a b < 0"
    unfolding KeyComparator_def by (rule internal_bytewise.flip [OF iv [OF a] iv [OF b]])
  assume c: "mem_valid c"
  note v = iv [OF a] iv [OF b] iv [OF c]
  show "KeyComparator Bytewise_Compare a b < 0 \<Longrightarrow> KeyComparator Bytewise_Compare b c < 0 \<Longrightarrow> KeyComparator Bytewise_Compare a c < 0"
    unfolding KeyComparator_def by (rule internal_bytewise.less_trans [OF v])
  show "\<not> KeyComparator Bytewise_Compare a b < 0 \<Longrightarrow> \<not> KeyComparator Bytewise_Compare b c < 0 \<Longrightarrow> \<not> KeyComparator Bytewise_Compare a c < 0"
    unfolding KeyComparator_def by (rule internal_bytewise.not_less_trans [OF v])
qed

end
