(* ===== verification/Ldb_Memtable_Props.thy ===== *)
theory Ldb_Memtable_Props
  imports Ldb_Memtable "HOL-Library.Multiset"
begin

text \<open>
  What a memtable promises: a lookup finds the last entry written for its key at or before its
  snapshot. The skip list of records is shown to refine the list of the entries in the order in which
  they were written.
\<close>

section \<open>Specification\<close>

definition mem_lookup :: "entry list \<Rightarrow> slice \<Rightarrow> SequenceNumber \<Rightarrow> entry option" where
  "mem_lookup es u s =
     (case filter (\<lambda>(q, t, k, v). k = u \<and> q \<le> s) es of [] \<Rightarrow> None | e # vis \<Rightarrow> Some (last (e # vis)))"

fun mem_result :: "byte list \<Rightarrow> Status \<Rightarrow> entry option \<Rightarrow> bool \<times> byte list \<times> Status" where
  "mem_result value st None = (False, value, st)"
| "mem_result value st (Some (q, kTypeValue, k, v)) = (True, v, st)"
| "mem_result value st (Some (q, kTypeDeletion, k, v)) = (True, value, NotFound [])"

definition mem_rep :: "MemTable \<Rightarrow> entry list \<Rightarrow> bool" where
  "mem_rep m es \<longleftrightarrow>
     (\<exists>xs. skip_rep (KeyComparator Bytewise_Compare) mem_valid (mt_table m) (map entry_bytes xs) \<and> set xs = set es)
     \<and> list_all entry_ok es \<and> sorted_wrt (<) (map fst es)"

lemma mem_rep_init: "mem_rep MemTable_init []"
  by (simp add: mem_rep_def MemTable_init_def skip_rep_init)

section \<open>The order of records\<close>

lemma entry_valid: "entry_ok e \<Longrightarrow> mem_valid (entry_bytes e)"
  by (cases e) (simp add: mem_valid_def Mem_slice_Put)

lemma entry_compare:
  assumes "entry_ok (s1, t1, k1, v1)" "entry_ok (s2, t2, k2, v2)"
  shows "KeyComparator Bytewise_Compare (entry_bytes (s1, t1, k1, v1)) (entry_bytes (s2, t2, k2, v2)) < 0 \<longleftrightarrow>
      k1 < k2 \<or> k1 = k2 \<and> (s2 < s1 \<or> s1 = s2 \<and> t1 = kTypeValue \<and> t2 = kTypeDeletion)" (is ?less)
    and "KeyComparator Bytewise_Compare (entry_bytes (s1, t1, k1, v1)) (entry_bytes (s2, t2, k2, v2)) = 0 \<longleftrightarrow>
      k1 = k2 \<and> s1 = s2 \<and> t1 = t2" (is ?eq)
proof -
  have m: "s1 \<le> kMaxSequenceNumber" "s2 \<le> kMaxSequenceNumber" using assms by simp_all
  have c: "KeyComparator Bytewise_Compare (entry_bytes (s1, t1, k1, v1)) (entry_bytes (s2, t2, k2, v2)) =
      (if k1 < k2 then - 1 else if k1 = k2 then (if PackSequenceAndType s2 t2 < PackSequenceAndType s1 t1 then - 1
        else if PackSequenceAndType s1 t1 < PackSequenceAndType s2 t2 then 1 else 0) else 1)"
    unfolding KeyComparator_def Mem_slice_entry [OF assms(1)] Mem_slice_entry [OF assms(2)] InternalKey_Compare_alt
    by (auto simp: Bytewise_Compare_lex Let_def)
  show ?less unfolding c Pack_less_iff [OF m] Pack_less_iff [OF m(2,1)] by auto
  show ?eq unfolding c Pack_less_iff [OF m] Pack_less_iff [OF m(2,1)] by (cases t1; cases t2) auto
qed

lemma lookup_compare:
  assumes "entry_ok (q, t, k, v)" "s \<le> kMaxSequenceNumber" "length u + 8 < 2 ^ 32"
  shows "KeyComparator Bytewise_Compare (entry_bytes (q, t, k, v)) (memtable_key (LookupKey_init u s)) < 0 \<longleftrightarrow>
      k < u \<or> k = u \<and> s < q"
proof -
  have m: "q \<le> kMaxSequenceNumber" using assms by simp
  have "Mem_GetLengthPrefixedSlice (memtable_key (LookupKey_init u s)) = Some (PutFixed64 u (PackSequenceAndType s kTypeValue), [])"
    using Mem_slice_Put [of "PutFixed64 u (PackSequenceAndType s kTypeValue)" "[]"] assms(3) by (simp add: memtable_key_bytes)
  then show ?thesis
    by (auto simp add: KeyComparator_def Mem_slice_entry [OF assms(1)] InternalKey_Compare_alt
      Bytewise_Compare_lex Let_def Pack_less_iff [OF m assms(2)] Pack_less_iff [OF assms(2) m] simp del: entry_bytes.simps)
qed

section \<open>Writing\<close>

lemma mem_rep_Add:
  assumes "mem_rep m es" "entry_ok (s, t, k, v)" "\<forall>e\<in>set es. fst e < s" "length junk = kMaxHeight"
  shows "\<exists>m'. MemTable_Add Bytewise_Compare junk m s t k v = Some m' \<and> mem_rep m' (es @ [(s, t, k, v)])"
proof -
  let ?c = "KeyComparator Bytewise_Compare" and ?e = "(s, t, k, v)"
  obtain xs where xs: "skip_rep ?c mem_valid (mt_table m) (map entry_bytes xs)" "set xs = set es"
    and es: "list_all entry_ok es" "sorted_wrt (<) (map fst es)" using assms(1) by (auto simp: mem_rep_def)
  have "\<forall>b\<in>set (map entry_bytes xs). ?c b (entry_bytes ?e) \<noteq> 0"
  proof
    fix b assume "b \<in> set (map entry_bytes xs)"
    then obtain q t' k' v' where e: "(q, t', k', v') \<in> set es" "b = entry_bytes (q, t', k', v')" using xs(2) by auto
    have "entry_ok (q, t', k', v')" using e(1) es(1) by (auto simp add: list_all_iff)
    from entry_compare(2) [OF this assms(2)] show "?c b (entry_bytes ?e) \<noteq> 0" using assms(3) e by auto
  qed
  from mem_bytewise.skip_rep_Insert [OF xs(1) entry_valid [OF assms(2)] this assms(4)] obtain sl' where
    sl': "Insert ?c junk (entry_bytes ?e) (mt_table m) = Some sl'"
      "skip_rep ?c mem_valid sl' (takeWhile (\<lambda>b. ?c b (entry_bytes ?e) < 0) (map entry_bytes xs) @ entry_bytes ?e
          # dropWhile (\<lambda>b. ?c b (entry_bytes ?e) < 0) (map entry_bytes xs))" by blast
  let ?P = "\<lambda>e. ?c (entry_bytes e) (entry_bytes ?e) < 0"
  have upd: "mt_table (m\<lparr>mt_table := sl'\<rparr>) = sl'" by simp
  have "takeWhile (\<lambda>b. ?c b (entry_bytes ?e) < 0) (map entry_bytes xs) @ entry_bytes ?e
      # dropWhile (\<lambda>b. ?c b (entry_bytes ?e) < 0) (map entry_bytes xs) = map entry_bytes (takeWhile ?P xs @ ?e # dropWhile ?P xs)"
    by (simp add: takeWhile_map dropWhile_map comp_def)
  moreover have "set (takeWhile ?P xs @ ?e # dropWhile ?P xs) = set (es @ [?e])"
    using xs(2) set_append [of "takeWhile ?P xs" "dropWhile ?P xs"] by auto
  ultimately have "\<exists>ys. skip_rep ?c mem_valid sl' (map entry_bytes ys) \<and> set ys = set (es @ [?e])" using sl'(2) by metis
  moreover have "list_all entry_ok (es @ [?e])" "sorted_wrt (<) (map fst (es @ [?e]))"
    using es assms(2,3) by (simp_all add: sorted_wrt_append)
  ultimately have "mem_rep (m\<lparr>mt_table := sl'\<rparr>) (es @ [?e])" 
    unfolding mem_rep_def upd by blast
  then show ?thesis using sl'(1) by (simp add: MemTable_Add_alt)
qed

text \<open>\<^verbatim>\<open>Add\<close> as the handler of a batch calls it: nothing happens after a failure.\<close>

definition Mem_add :: "nat list \<Rightarrow> MemTable option \<Rightarrow> SequenceNumber \<Rightarrow> ValueType \<Rightarrow> slice \<Rightarrow> slice \<Rightarrow> MemTable option" where
  "Mem_add junk om s t k v = (case om of None \<Rightarrow> None | Some m \<Rightarrow> MemTable_Add Bytewise_Compare junk m s t k v)"

lemma mem_rep_adds:
  assumes "mem_rep m es" "list_all entry_ok fs" "sorted_wrt (<) (map fst (es @ fs))" "length junk = kMaxHeight"
  shows "\<exists>m'. foldl (\<lambda>om (s, t, k, v). Mem_add junk om s t k v) (Some m) fs = Some m' \<and> mem_rep m' (es @ fs)"
  using assms(1-3)
proof (induction fs arbitrary: m es)
  case (Cons f fs)
  obtain s t k v where f: "f = (s, t, k, v)" by (cases f)
  have "\<forall>e\<in>set es. fst e < s" using Cons.prems(3) by (simp add: sorted_wrt_append f)
  moreover have "entry_ok (s, t, k, v)" using Cons.prems(2) by (simp add: f)
  ultimately obtain m' where
    m': "MemTable_Add Bytewise_Compare junk m s t k v = Some m'" "mem_rep m' (es @ [f])"
    using mem_rep_Add [OF Cons.prems(1) _ _ assms(4)] f by blast
  with Cons.IH [OF m'(2)] Cons.prems(2,3) show ?case by (simp add: f Mem_add_def)
qed simp

section \<open>Reading\<close>

text \<open>In a sorted list, the first element that is not below a bound is the least such element.\<close>

lemma sorted_dropWhile_least:
  assumes "sorted_wrt R xs" "dropWhile P xs = y # ys" "x \<in> set xs" "\<not> P x"
  shows "x = y \<or> R y x"
proof -
  have "x \<in> set (y # ys)" using assms(2-4) set_takeWhileD [of x P xs] by (metis Un_iff set_append takeWhile_dropWhile_id)
  moreover have "sorted_wrt R (y # ys)" using assms(1,2) by (metis sorted_wrt_append takeWhile_dropWhile_id)
  ultimately show ?thesis by auto
qed

lemma dropWhile_first: "dropWhile P xs = y # ys \<Longrightarrow> y \<in> set xs \<and> \<not> P y"
  by (metis dropWhile_eq_Cons_conv in_set_conv_decomp)

lemma last_filter_newest:
  assumes "sorted_wrt (<) (map fst es)" "e \<in> set es" "P e" "\<And>x. x \<in> set es \<Longrightarrow> P x \<Longrightarrow> fst x \<le> (fst e :: 'a::linorder)"
  shows "filter P es \<noteq> [] \<and> last (filter P es) = e"
proof -
  have e: "e \<in> set (filter P es)" using assms(2,3) by simp
  then obtain fs l where fl: "filter P es = fs @ [l]" by (metis empty_iff list.set(1) rev_exhaust)
  have "sorted_wrt (\<lambda>a b. fst a < fst b) (filter P es)" using assms(1) by (simp add: sorted_wrt_map sorted_wrt_filter)
  then have "\<forall>x\<in>set fs. fst x < fst l" by (simp add: fl sorted_wrt_append)
  moreover have "fst l \<le> fst e" using assms(4) [of l] arg_cong [OF fl, of set] by auto
  ultimately show ?thesis using e fl by auto
qed

lemma mem_seek_lookup:
  assumes "sorted_wrt (\<lambda>a b. KeyComparator Bytewise_Compare (entry_bytes a) (entry_bytes b) < 0) xs" "set xs = set es"
    and es: "list_all entry_ok es" "sorted_wrt (<) (map fst es)" and u: "s \<le> kMaxSequenceNumber" "length u + 8 < 2 ^ 32"
    and ds: "ds = dropWhile (\<lambda>e. KeyComparator Bytewise_Compare (entry_bytes e) (memtable_key (LookupKey_init u s)) < 0) xs"
  shows "mem_lookup es u s = (case ds of [] \<Rightarrow> None | (q, t, k, v) # _ \<Rightarrow> if k = u then Some (q, t, k, v) else None)"
proof -
  let ?P = "\<lambda>e. KeyComparator Bytewise_Compare (entry_bytes e) (memtable_key (LookupKey_init u s)) < 0"
  let ?vis = "\<lambda>(q, t, k, v). k = u \<and> (q :: SequenceNumber) \<le> s"
  have ok: "entry_ok e" if "e \<in> set es" for e using that es(1) by (simp add: list_all_iff)
  have P: "?P (q, t, k, v) \<longleftrightarrow> k < u \<or> k = u \<and> s < q" if "(q, t, k, v) \<in> set es" for q t k v
    using lookup_compare [OF ok [OF that] u] .
  show ?thesis
  proof (cases ds)
    case Nil
    then have "?P e" if "e \<in> set es" for e using that assms(2) ds by (simp add: dropWhile_eq_Nil_conv)
    then have "filter ?vis es = []" unfolding filter_empty_conv using P by force
    then show ?thesis by (simp add: mem_lookup_def Nil)
  next
    case (Cons y ys)
    obtain q t k v where y: "y = (q, t, k, v)" by (cases y)
    note first = dropWhile_first [OF trans [OF ds [symmetric] Cons]]
    then have yin: "(q, t, k, v) \<in> set es" using y assms(2) by simp
    have ynot: "\<not> (k < u \<or> k = u \<and> s < q)" using first P [OF yin] unfolding y by blast
    have least: "(q', t', k', v') = y \<or> k < k' \<or> k = k' \<and> q' \<le> q"
      if "(q', t', k', v') \<in> set es" "\<not> (k' < u \<or> k' = u \<and> s < q')" for q' t' k' v'
      using sorted_dropWhile_least [OF assms(1), of ?P y ys "(q', t', k', v')"] Cons ds that P [OF that(1)] assms(2)
        entry_compare(1) [OF ok [OF yin] ok [OF that(1)]] by (auto simp: y)
    show ?thesis
    proof (cases "k = u")
      case True
      have "filter ?vis es \<noteq> [] \<and> last (filter ?vis es) = y"
        by (rule last_filter_newest [OF es(2)]) (use yin ynot least True y in fastforce)+
      then show ?thesis using True by (cases "filter ?vis es") (auto simp: mem_lookup_def Cons y)
    next
      case False
      then have "u < k" using ynot by auto
      then have "filter ?vis es = []" unfolding filter_empty_conv using least y by fastforce
      then show ?thesis by (simp add: mem_lookup_def Cons y False)
    qed
  qed
qed

lemma Get_entry:
  assumes "entry_ok (q, t, k, v)" "Iter_Seek (KeyComparator ucmp) (mt_table m) (memtable_key (LookupKey_init u s)) = Some iter"
    "Iter_Valid iter" "Iter_key (mt_table m) iter = entry_bytes (q, t, k, v)"
  shows "MemTable_Get ucmp m (LookupKey_init u s) value st =
    Some (if ucmp k u = 0 then mem_result value st (Some (q, t, k, v)) else (False, value, st))"
proof -
  let ?tag = "PackSequenceAndType q t" and ?n = "word_of_nat (length k + 8) :: u32"
  have n: "unat ?n = length k + 8" "unat (?n - 8) = length k"
    using assms(1) by (simp add: unat_of_nat del: of_nat_add) (use assms(1) in \<open>simp add: unat_of_nat\<close>)
  have g: "GetVarint32Ptr5 (entry_bytes (q, t, k, v)) = Some (?n, k @ EncodeFixed64 ?tag @ PutLengthPrefixedSlice [] v)"
    using GetVarint32Ptr5_bytes [of ?n] by (simp add: PutLengthPrefixedSlice_def PutVarint32_def) (simp add: PutFixed64_def)
  have t: "DecodeFixed64 (EncodeFixed64 ?tag @ PutLengthPrefixedSlice [] v) = ?tag" by (rule DecodeFixed64_bytes)
  have d: "drop (length k + 8) (k @ EncodeFixed64 ?tag @ PutLengthPrefixedSlice [] v) = PutLengthPrefixedSlice [] v" by simp
  have v: "Mem_GetLengthPrefixedSlice (PutLengthPrefixedSlice [] v) = Some (v, [])" using Mem_slice_Put [of v "[]"] assms(1) by simp
  have uk: "lookup_user_key (LookupKey_init u s) = u" by (simp add: lookup_user_key_def LookupKey_init_def Let_def)
  have a: "?tag AND 0xff = ValueType_value t" using Unpack(2) [of q t] assms(1) by simp
  show ?thesis
    unfolding MemTable_Get_def assms(2,4) option.case Let_def g prod.case n d v uk
    using assms(3) a t by (cases t) (simp_all add: status_message_def)
qed

lemma mem_rep_Get:
  assumes "mem_rep m es" "s \<le> kMaxSequenceNumber" "length u + 8 < 2 ^ 32"
  shows "MemTable_Get Bytewise_Compare m (LookupKey_init u s) value st = Some (mem_result value st (mem_lookup es u s))"
proof -
  let ?c = "KeyComparator Bytewise_Compare" and ?lk = "memtable_key (LookupKey_init u s)"
  obtain xs where xs: "skip_rep ?c mem_valid (mt_table m) (map entry_bytes xs)" "set xs = set es"
    and es: "list_all entry_ok es" "sorted_wrt (<) (map fst es)" using assms(1) by (auto simp: mem_rep_def)
  define ds where "ds = dropWhile (\<lambda>e. ?c (entry_bytes e) ?lk < 0) xs"
  have "sorted_wrt (\<lambda>a b. ?c (entry_bytes a) (entry_bytes b) < 0) xs"
    using mem_bytewise.skip_rep_sorted(1) [OF xs(1)] by (simp add: sorted_wrt_map)
  from mem_seek_lookup [OF this xs(2) es assms(2,3) ds_def]
  have spec: "mem_lookup es u s = (case ds of [] \<Rightarrow> None | (q, t, k, v) # _ \<Rightarrow> if k = u then Some (q, t, k, v) else None)" .
  have "mem_valid ?lk"
    using Mem_slice_Put [of "PutFixed64 u (PackSequenceAndType s kTypeValue)" "[]"] assms(3) by (simp add: memtable_key_bytes mem_valid_def)
  from mem_bytewise.skip_rep_Seek(1) [OF xs(1) this]
  have "iter_at (mt_table m) (Iter_Seek ?c (mt_table m) ?lk) (map entry_bytes ds)"
    by (simp add: ds_def dropWhile_map comp_def)
  then obtain iter where it: "Iter_Seek ?c (mt_table m) ?lk = Some iter"
    "case map entry_bytes ds of [] \<Rightarrow> \<not> Iter_Valid iter | e # _ \<Rightarrow> Iter_Valid iter \<and> Iter_key (mt_table m) iter = e"
    by (auto simp: iter_at_def)
  show ?thesis
  proof (cases ds)
    case Nil
    then show ?thesis using it spec by (simp add: MemTable_Get_def)
  next
    case (Cons y ys)
    obtain q t k v where y: "y = (q, t, k, v)" by (cases y)
    have "y \<in> set es" using dropWhile_first [OF trans [OF ds_def [symmetric] Cons]] xs(2) by simp
    then have "entry_ok (q, t, k, v)" using es(1) by (auto simp: list_all_iff y)
    from Get_entry [OF this it(1)] it(2) show ?thesis
      by (simp add: Cons y spec Bytewise_Compare_lex)
  qed
qed

section \<open>Memtables that batches fill\<close>

fun update_fits :: "update \<Rightarrow> bool" where
  "update_fits (UPut k v) \<longleftrightarrow> length k + 8 < 2 ^ 32 \<and> length v < 2 ^ 32"
| "update_fits (UDelete k) \<longleftrightarrow> length k + 8 < 2 ^ 32"

inductive memtable_holds :: "MemTable \<Rightarrow> entry list \<Rightarrow> bool" where
  empty: "memtable_holds MemTable_init []"
| batch: "memtable_holds m es \<Longrightarrow> built rep seq us \<Longrightarrow> list_all update_fits us \<Longrightarrow> \<forall>e\<in>set es. fst e < seq \<Longrightarrow>
    unat seq + length us \<le> 2 ^ 56 \<Longrightarrow> length junk = kMaxHeight \<Longrightarrow>
    WriteBatch_InsertInto (Mem_add junk) rep (Some m) = (OK, Some m') \<Longrightarrow>
    memtable_holds m' (es @ batch_entries seq us)"
| ref: "memtable_holds m es \<Longrightarrow> memtable_holds (MemTable_Ref m) es"
| unref: "memtable_holds m es \<Longrightarrow> MemTable_Unref m = Some m' \<Longrightarrow> memtable_holds m' es"

lemma batch_entries_fit:
  assumes "list_all update_fits us" "unat seq + length us \<le> 2 ^ 56" "\<forall>x\<in>set qs. x < seq" "sorted_wrt (<) qs"
  shows "list_all entry_ok (batch_entries seq us) \<and> sorted_wrt (<) (qs @ map fst (batch_entries seq us))"
  using assms
proof (induction us arbitrary: seq qs)
  case Nil
  then show ?case by (simp add: batch_entries_def)
next
  case (Cons u us)
  have s: "unat seq < 2 ^ 56" using Cons.prems(2) by simp
  then have n: "unat (seq + 1) = unat seq + 1" by (simp add: unat_word_ariths)
  have lt: "x < seq + 1" if "x < seq \<or> x = seq" for x using that n by (auto simp: word_less_nat_alt)
  have "list_all entry_ok (batch_entries (seq + 1) us) \<and> sorted_wrt (<) ((qs @ [seq]) @ map fst (batch_entries (seq + 1) us))"
    by (rule Cons.IH) (use Cons.prems n lt in \<open>auto simp: sorted_wrt_append\<close>)
  moreover have "entry_ok (update_entry seq u)" "fst (update_entry seq u) = seq"
    using Cons.prems(1) s by (cases u; simp add: kMaxSequenceNumber_def word_le_nat_alt)+
  ultimately show ?case by (simp add: batch_entries_Cons)
qed

lemma mem_rep_batch:
  assumes "mem_rep m es" "built rep seq us" "list_all update_fits us" "\<forall>e\<in>set es. fst e < seq"
    "unat seq + length us \<le> 2 ^ 56" "length junk = kMaxHeight"
  shows "\<exists>m'. WriteBatch_InsertInto (Mem_add junk) rep (Some m) = (OK, Some m') \<and> mem_rep m' (es @ batch_entries seq us)"
proof -
  have "sorted_wrt (<) (map fst es)" using assms(1) by (simp add: mem_rep_def)
  then have "list_all entry_ok (batch_entries seq us)" "sorted_wrt (<) (map fst (es @ batch_entries seq us))"
    using batch_entries_fit [OF assms(3,5), of "map fst es"] assms(4) by simp_all
  from mem_rep_adds [OF assms(1) this assms(6)] show ?thesis
    by (simp add: WriteBatch_InsertInto_def inserter_fold
      Iterate_rep [OF built_rep [OF assms(2)]] Sequence_rep [OF built_rep [OF assms(2)]])
qed

lemma memtable_holds_rep: "memtable_holds m es \<Longrightarrow> mem_rep m es"
proof (induction rule: memtable_holds.induct)
  case empty
  show ?case by (rule mem_rep_init)
next
  case (batch m es rep seq us junk m')
  then show ?case using mem_rep_batch [OF batch.IH batch.hyps(2-6)] by auto
next
  case (ref m es)
  then show ?case by (simp add: mem_rep_def MemTable_Ref_def)
next
  case (unref m es m')
  then show ?case by (auto simp: mem_rep_def MemTable_Unref_def Let_def split: if_splits)
qed

section \<open>A full scan\<close>

text \<open>
  The loop \<^verbatim>\<open>for (; iter->Valid(); iter->Next())\<close> with which \<^verbatim>\<open>BuildTable\<close> reads a memtable, here
  collecting the pairs it would add to the table.
\<close>

partial_function (option) Mem_scan :: "MemTable \<Rightarrow> nat option \<Rightarrow> (slice \<times> slice) list option" where
  "Mem_scan m iter =
     (if Mem_Valid iter
      then case (Mem_key m iter, Mem_value m iter) of
             (Some k, Some v) \<Rightarrow>
               (case Mem_Next m iter of
                  None \<Rightarrow> None
                | Some iter \<Rightarrow> Option.bind (Mem_scan m iter) (\<lambda>kvs. Some ((k, v) # kvs)))
           | _ \<Rightarrow> None
      else Some [])"

lemma Mem_scan_path:
  assumes "path (sl_nodes (mt_table m)) 0 x ys" "map (key_at (sl_nodes (mt_table m))) ys = map entry_bytes xs" "list_all entry_ok xs"
  shows "Mem_scan m (first_of ys) = Some (map (\<lambda>e. (entry_key e, snd (snd (snd e)))) xs)"
  using assms
proof (induction ys arbitrary: x xs)
  case Nil
  then show ?case by (simp add: Mem_scan.simps [of m None] first_of_def Mem_Valid_def Iter_Valid_def)
next
  case (Cons y ys)
  then obtain e es where e: "xs = e # es" "key_at (sl_nodes (mt_table m)) y = entry_bytes e" "entry_ok e"
    "map (key_at (sl_nodes (mt_table m))) ys = map entry_bytes es" "list_all entry_ok es" by (cases xs) auto
  have y: "path (sl_nodes (mt_table m)) 0 y ys" using Cons.prems(1) by simp
  have k: "Iter_key (mt_table m) (Some y) = entry_bytes e" using e(2) by (simp add: Iter_key_def key_at_def)
  have v: "length (snd (snd (snd e))) < 2 ^ 32" using e(3) by (cases e) simp
  have "Mem_key m (Some y) = Some (entry_key e)" "Mem_value m (Some y) = Some (snd (snd (snd e)))"
    using Mem_slice_Put [OF v, of "[]"] by (simp_all add: Mem_key_def Mem_value_def k Mem_slice_entry [OF e(3)])
  moreover have "Mem_Next m (Some y) = Some (first_of ys)" using path_Next [OF y] by (simp add: Mem_Next_def Iter_Next_def first_of_def)
  ultimately show ?case
    using Cons.IH [OF y e(4,5)] by (subst Mem_scan.simps) (simp add: first_of_def Mem_Valid_def Iter_Valid_def e(1))
qed

lemma mem_rep_scan:
  assumes "mem_rep m es"
  shows "\<exists>xs iter. mset xs = mset es \<and> sorted_wrt (\<lambda>a b. InternalKey_Compare Bytewise_Compare (entry_key a) (entry_key b) < 0) xs
    \<and> Mem_SeekToFirst m = Some iter \<and> Mem_scan m iter = Some (map (\<lambda>e. (entry_key e, snd (snd (snd e)))) xs)"
proof -
  let ?c = "KeyComparator Bytewise_Compare" and ?n = "sl_nodes (mt_table m)"
  obtain xs where xs: "skip_rep ?c mem_valid (mt_table m) (map entry_bytes xs)" "set xs = set es"
    and es: "list_all entry_ok es" "sorted_wrt (<) (map fst es)" using assms(1) by (auto simp: mem_rep_def)
  have ok: "list_all entry_ok xs" using es(1) xs(2) by (simp add: list_all_iff)
  have c: "?c (entry_bytes a) (entry_bytes b) = InternalKey_Compare Bytewise_Compare (entry_key a) (entry_key b)"
    if "a \<in> set xs" "b \<in> set xs" for a b
    using that ok by (simp add: KeyComparator_def Mem_slice_entry list_all_iff)
  have "sorted_wrt (\<lambda>a b. ?c (entry_bytes a) (entry_bytes b) < 0) xs"
    using mem_bytewise.skip_rep_sorted(1) [OF xs(1)] by (simp add: sorted_wrt_map)
  then have sorted: "sorted_wrt (\<lambda>a b. InternalKey_Compare Bytewise_Compare (entry_key a) (entry_key b) < 0) xs"
    by (rule sorted_wrt_mono_rel [rotated]) (simp add: c)
  have irr: "\<not> InternalKey_Compare Bytewise_Compare (entry_key a) (entry_key a) < 0" for a
    by (simp add: InternalKey_Compare_alt Bytewise_Compare_lex)
  have "distinct xs" using sorted irr by (induction xs) auto
  moreover have "distinct es" using es(2) by (induction es) auto
  ultimately have "mset xs = mset es" using xs(2) by (simp add: set_eq_iff_mset_eq_distinct)
  moreover obtain ch where inv: "skip_inv ?c mem_valid ?n (sl_max_height (mt_table m)) ch" "map entry_bytes xs = map (key_at ?n) (ch 0)"
    using xs(1) by (auto simp: skip_rep_def)
  have p: "path ?n 0 0 (ch 0)" using skip_inv_level(1) [OF inv(1)] by (simp add: kMaxHeight_def)
  have "Mem_SeekToFirst m = Some (first_of (ch 0))"
    using path_Next [OF p] by (simp add: Mem_SeekToFirst_def Iter_SeekToFirst_def first_of_def)
  ultimately show ?thesis using Mem_scan_path [OF p inv(2) [symmetric] ok] sorted by blast
qed

section \<open>Properties\<close>

text \<open>
  C26. A memtable is the list of the entries written to it. Inserting a batch whose sequence numbers
  follow those in the table succeeds, and afterwards a lookup of any key at any snapshot gives what the
  last entry for that key at or before the snapshot says: its value, that it is deleted, or, without
  such an entry, nothing.
\<close>

theorem memtable_lookup:
  assumes "memtable_holds m es" "built rep seq us" "list_all update_fits us" "\<forall>e\<in>set es. fst e < seq"
    "unat seq + length us \<le> 2 ^ 56" "length junk = kMaxHeight"
  shows "\<exists>m'. WriteBatch_InsertInto (Mem_add junk) rep (Some m) = (OK, Some m')
    \<and> (\<forall>u s value st. s \<le> kMaxSequenceNumber \<and> length u + 8 < 2 ^ 32 \<longrightarrow>
         MemTable_Get Bytewise_Compare m' (LookupKey_init u s) value st
           = Some (mem_result value st (mem_lookup (es @ batch_entries seq us) u s)))"
  using mem_rep_batch [OF memtable_holds_rep [OF assms(1)] assms(2-6)] mem_rep_Get by blast

theorem memtable_lookup_witness:
  "\<exists>m'. WriteBatch_InsertInto (Mem_add (replicate 12 0))
       (WriteBatch_SetSequence (WriteBatch_Delete (WriteBatch_Put WriteBatch_Clear [97] [1, 2]) [98]) 7) (Some MemTable_init)
     = (OK, Some m')
    \<and> MemTable_Get Bytewise_Compare m' (LookupKey_init [97] 9) [] OK = Some (True, [1, 2], OK)
    \<and> MemTable_Get Bytewise_Compare m' (LookupKey_init [98] 9) [] OK = Some (True, [], NotFound [])
    \<and> MemTable_Get Bytewise_Compare m' (LookupKey_init [98] 7) [] OK = Some (False, [], OK)"
proof -
  have s: "(9 :: u64) \<le> kMaxSequenceNumber" "(7 :: u64) \<le> kMaxSequenceNumber" by (simp_all add: kMaxSequenceNumber_def word_le_nat_alt)
  have b: "batch_entries 7 [UPut [97] [1, 2], UDelete [98]] = [(7, kTypeValue, [97], [1, 2]), (8, kTypeDeletion, [98], [])]"
    by (simp add: batch_entries_def)
  have l: "mem_lookup (batch_entries 7 [UPut [97] [1, 2], UDelete [98]]) [97] 9 = Some (7, kTypeValue, [97], [1, 2])"
    "mem_lookup (batch_entries 7 [UPut [97] [1, 2], UDelete [98]]) [98] 9 = Some (8, kTypeDeletion, [98], [])"
    "mem_lookup (batch_entries 7 [UPut [97] [1, 2], UDelete [98]]) [98] 7 = None"
    by (simp_all add: b mem_lookup_def word_le_nat_alt)
  show ?thesis
    using memtable_lookup [OF memtable_holds.empty built_example, of "replicate 12 0"] s l
    by (fastforce simp: kMaxHeight_def)
qed



text \<open>
  C28. A search that runs beside insertions, without a lock, is always able to go on, and when it ends it
  has found the first record not below its key among those in the list at that moment: the
  insertion takes effect at once, when it stores the link to the new record at the bottom level.
\<close>

theorem concurrent_search_linearizable:
  assumes "concurrent (KeyComparator Bytewise_Compare) mem_valid s" "sh_reader s = Searching key x l"
  shows "\<exists>ks. skip_rep (KeyComparator Bytewise_Compare) mem_valid (sh_list s) ks
    \<and> (\<exists>s'. reader_step (KeyComparator Bytewise_Compare) mem_valid s s')
    \<and> (\<forall>s' n. reader_step (KeyComparator Bytewise_Compare) mem_valid s s' \<and> sh_reader s' = Found key n
         \<longrightarrow> iter_at (sh_list s) (Some n) (dropWhile (\<lambda>k. KeyComparator Bytewise_Compare k key < 0) ks))"
  by (rule mem_bytewise.concurrent_search [OF assms])

theorem concurrent_search_linearizable_witness:
  "\<exists>s'. reader_step (KeyComparator Bytewise_Compare) mem_valid
     \<lparr>sh_list = SkipList_init [], sh_writer = Idle, sh_reader = Searching (entry_bytes (7, kTypeValue, [97], [])) 0 0\<rparr> s'"
proof -
  let ?s = "\<lparr>sh_list = SkipList_init [], sh_writer = Idle, sh_reader = Stopped\<rparr>" and ?k = "entry_bytes (7, kTypeValue, [97], [])"
  have "mem_valid ?k" by (rule entry_valid) (simp add: kMaxSequenceNumber_def word_le_nat_alt)
  then have "reader_step (KeyComparator Bytewise_Compare) mem_valid ?s (?s\<lparr>sh_reader := Searching ?k 0 (1 - 1)\<rparr>)"
    by (intro reader_step.begin_search) (simp_all add: SkipList_init_def)
  then have "concurrent (KeyComparator Bytewise_Compare) mem_valid (?s\<lparr>sh_reader := Searching ?k 0 (1 - 1)\<rparr>)"
    by (rule concurrent.by_reader [OF concurrent.start])
  from concurrent_search_linearizable [OF this, of ?k 0 0] show ?thesis by auto
qed

text \<open>
  C29. The skip list of a memtable stands for a sorted list of records: an insertion of a new record
  puts it in its place, and seeking, membership and the walks from both ends and backwards are those
  of the list. None of the loops runs forever or follows a link that is not there.
\<close>

theorem skiplist_refines:
  assumes "skip_rep (KeyComparator Bytewise_Compare) mem_valid sl ks" "mem_valid key" "length junk = kMaxHeight"
  shows "(case dropWhile (\<lambda>k. KeyComparator Bytewise_Compare k key < 0) ks of
       [] \<Rightarrow> Contains (KeyComparator Bytewise_Compare) sl key = Some False
     | k # rest \<Rightarrow> Contains (KeyComparator Bytewise_Compare) sl key = Some (KeyComparator Bytewise_Compare key k = 0)
         \<and> iter_at sl (Iter_Next sl (the (Iter_Seek (KeyComparator Bytewise_Compare) sl key))) rest)
    \<and> iter_at sl (Iter_Seek (KeyComparator Bytewise_Compare) sl key) (dropWhile (\<lambda>k. KeyComparator Bytewise_Compare k key < 0) ks)
    \<and> iter_at sl (Iter_SeekToFirst sl) ks
    \<and> iter_at sl (Iter_SeekToLast sl) (if ks = [] then [] else [last ks])
    \<and> (\<forall>node as k bs. ks = as @ k # bs \<and> iter_at sl (Some node) (k # bs) \<longrightarrow>
         iter_at sl (Iter_Prev (KeyComparator Bytewise_Compare) sl node) (if as = [] then [] else [last as]))
    \<and> ((\<forall>k\<in>set ks. KeyComparator Bytewise_Compare k key \<noteq> 0) \<longrightarrow>
         (\<exists>sl'. Insert (KeyComparator Bytewise_Compare) junk key sl = Some sl'
            \<and> skip_rep (KeyComparator Bytewise_Compare) mem_valid sl'
                (takeWhile (\<lambda>k. KeyComparator Bytewise_Compare k key < 0) ks @ key
                   # dropWhile (\<lambda>k. KeyComparator Bytewise_Compare k key < 0) ks)))"
proof (intro conjI allI impI)
  note seek = mem_bytewise.skip_rep_Seek [OF assms(1,2)] and walk = mem_bytewise.skip_rep_walk [OF assms(1)]
  show "case dropWhile (\<lambda>k. KeyComparator Bytewise_Compare k key < 0) ks of
       [] \<Rightarrow> Contains (KeyComparator Bytewise_Compare) sl key = Some False
     | k # rest \<Rightarrow> Contains (KeyComparator Bytewise_Compare) sl key = Some (KeyComparator Bytewise_Compare key k = 0)
         \<and> iter_at sl (Iter_Next sl (the (Iter_Seek (KeyComparator Bytewise_Compare) sl key))) rest"
    using seek mem_bytewise.skip_rep_Next [OF assms(1) _ assms(2)] by (auto split: list.split simp del: dropWhile_eq_Nil_conv)
  show "iter_at sl (Iter_Seek (KeyComparator Bytewise_Compare) sl key) (dropWhile (\<lambda>k. KeyComparator Bytewise_Compare k key < 0) ks)"
    by (rule seek(1))
  show "iter_at sl (Iter_SeekToFirst sl) ks" "iter_at sl (Iter_SeekToLast sl) (if ks = [] then [] else [last ks])"
    by (rule walk)+
  show "iter_at sl (Iter_Prev (KeyComparator Bytewise_Compare) sl node) (if as = [] then [] else [last as])"
    if "ks = as @ k # bs \<and> iter_at sl (Some node) (k # bs)" for node as k bs
    using walk(3) [of node k bs as bs] that by simp
  assume "\<forall>k\<in>set ks. KeyComparator Bytewise_Compare k key \<noteq> 0"
  then show "\<exists>sl'. Insert (KeyComparator Bytewise_Compare) junk key sl = Some sl'
      \<and> skip_rep (KeyComparator Bytewise_Compare) mem_valid sl' (takeWhile (\<lambda>k. KeyComparator Bytewise_Compare k key < 0) ks @ key
           # dropWhile (\<lambda>k. KeyComparator Bytewise_Compare k key < 0) ks)"
    using mem_bytewise.skip_rep_Insert [OF assms(1,2) _ assms(3)] by blast
qed

theorem skiplist_refines_witness:
  "\<exists>sl'. Insert (KeyComparator Bytewise_Compare) (replicate 12 0) (entry_bytes (7, kTypeValue, [97], [])) (SkipList_init []) = Some sl'
     \<and> skip_rep (KeyComparator Bytewise_Compare) mem_valid sl' [entry_bytes (7, kTypeValue, [97], [])]"
proof -
  have "mem_valid (entry_bytes (7, kTypeValue, [97], []))"
    by (rule entry_valid) (simp add: kMaxSequenceNumber_def word_le_nat_alt)
  from skiplist_refines [OF skip_rep_init this, of "replicate 12 0" "[]"] show ?thesis
    by (simp add: kMaxHeight_def)
qed

end
