(* ===== verification/Ldb_Db.thy ===== *)
theory Ldb_Db
  imports Ldb_Version_Get Ldb_Memtable_Props
begin

text \<open>
  \<^verbatim>\<open>DBImpl::Get\<close> of \<^verbatim>\<open>db/db_impl.cc\<close> and the list of snapshots of \<^verbatim>\<open>db/snapshot.h\<close>: a lookup goes through the memtable, the
  memtable that is being written out and the current version. The lookup is the only thread that runs: nothing is
  switched while it reads without the mutex. The tables are those the table cache has open.
\<close>

section \<open>Snapshots\<close>

text \<open>The circular list as the addresses of its members, oldest first, with their sequence numbers. \<open>None\<close> is a use of memory that is not there.\<close>

record SnapshotList =
  sl_order :: "nat list"
  sl_heap :: "nat \<rightharpoonup> SequenceNumber"
  sl_fresh :: nat

definition SnapshotList_init :: SnapshotList where
  "SnapshotList_init = \<lparr>sl_order = [], sl_heap = Map.empty, sl_fresh = 0\<rparr>"

definition SnapshotList_empty :: "SnapshotList \<Rightarrow> bool" where
  "SnapshotList_empty l \<longleftrightarrow> sl_order l = []"

definition SnapshotList_oldest :: "SnapshotList \<Rightarrow> SequenceNumber option" where
  "SnapshotList_oldest l = (case sl_order l of [] \<Rightarrow> None | p # _ \<Rightarrow> sl_heap l p)"

definition SnapshotList_newest :: "SnapshotList \<Rightarrow> SequenceNumber option" where
  "SnapshotList_newest l = (case rev (sl_order l) of [] \<Rightarrow> None | p # _ \<Rightarrow> sl_heap l p)"

definition SnapshotList_New :: "SequenceNumber \<Rightarrow> SnapshotList \<Rightarrow> nat \<times> SnapshotList" where
  "SnapshotList_New s l =
     (let p = sl_fresh l in (p, l\<lparr>sl_order := sl_order l @ [p], sl_heap := (sl_heap l)(p \<mapsto> s), sl_fresh := p + 1\<rparr>))"

definition SnapshotList_Delete :: "nat \<Rightarrow> SnapshotList \<Rightarrow> SnapshotList option" where
  "SnapshotList_Delete p l =
     (case sl_heap l p of None \<Rightarrow> None
      | Some _ \<Rightarrow> Some (l\<lparr>sl_order := remove1 p (sl_order l), sl_heap := (sl_heap l)(p := None)\<rparr>))"

section \<open>Lookups\<close>

record DB =
  db_mem :: MemTable
  db_imm :: "MemTable option"
  db_current :: Version
  db_metas :: metas
  db_last_sequence :: SequenceNumber
  db_snapshots :: SnapshotList

text \<open>Giving a reference back must not free a table or the version the database still has.\<close>

definition unref_imm :: "MemTable option \<Rightarrow> MemTable option option" where
  "unref_imm imm = (case imm of None \<Rightarrow> Some None | Some m \<Rightarrow> (case MemTable_Unref m of None \<Rightarrow> None | Some m \<Rightarrow> Some (Some m)))"

definition memtables_get ::
    "(slice \<Rightarrow> slice \<Rightarrow> int) \<Rightarrow> MemTable \<Rightarrow> MemTable option \<Rightarrow> LookupKey \<Rightarrow> byte list \<Rightarrow> (bool \<times> byte list \<times> Status) option" where
  "memtables_get ucmp mem imm lkey value =
     (case MemTable_Get ucmp mem lkey value OK of
        None \<Rightarrow> None
      | Some (in_mem, value, st) \<Rightarrow>
          if in_mem then Some (True, value, st)
          else case imm of None \<Rightarrow> Some (False, value, st) | Some m \<Rightarrow> MemTable_Get ucmp m lkey value st)"

text \<open>The result has a flag that says whether a compaction is scheduled for the file that was charged with the seek.\<close>

definition DBImpl_Get ::
    "'s table_get \<Rightarrow> (slice \<Rightarrow> slice \<Rightarrow> int) \<Rightarrow> ReadOptions \<Rightarrow> nat option \<Rightarrow> slice \<Rightarrow> byte list \<Rightarrow> DB \<Rightarrow> 's
       \<Rightarrow> (Status \<times> byte list \<times> bool \<times> DB \<times> 's) option" where
  "DBImpl_Get get ucmp options snapshot key value db c =
     (case (case snapshot of Some p \<Rightarrow> sl_heap (db_snapshots db) p | None \<Rightarrow> Some (db_last_sequence db)) of
        None \<Rightarrow> None
      | Some s \<Rightarrow>
          let mem = MemTable_Ref (db_mem db);
              imm = map_option MemTable_Ref (db_imm db);
              current = Version_Ref (db_current db);
              lkey = LookupKey_init key s
          in case memtables_get ucmp mem imm lkey value of
               None \<Rightarrow> None
             | Some (answered, value, st) \<Rightarrow>
                 (case (if answered then Some (st, value, None, c)
                        else map_option (\<lambda>(st, value, stats, c). (st, value, Some stats, c))
                               (Version_Get get ucmp (db_metas db) current options lkey value c)) of
                    None \<Rightarrow> None
                  | Some (st, value, stats, c) \<Rightarrow>
                      let (schedule, current, metas) =
                            (case stats of None \<Rightarrow> (False, current, db_metas db) | Some stats \<Rightarrow> UpdateStats stats (current, db_metas db))
                      in case (MemTable_Unref mem, unref_imm imm, Version_Unref current metas) of
                           (Some mem, Some imm, Some (Some current, metas)) \<Rightarrow>
                             Some (st, value, schedule, db\<lparr>db_mem := mem, db_imm := imm, db_current := current, db_metas := metas\<rparr>, c)
                         | _ \<Rightarrow> None))"

definition DBImpl_GetSnapshot :: "DB \<Rightarrow> nat \<times> DB" where
  "DBImpl_GetSnapshot db =
     (let (p, l) = SnapshotList_New (db_last_sequence db) (db_snapshots db) in (p, db\<lparr>db_snapshots := l\<rparr>))"

definition DBImpl_ReleaseSnapshot :: "nat \<Rightarrow> DB \<Rightarrow> DB option" where
  "DBImpl_ReleaseSnapshot p db = map_option (\<lambda>l. db\<lparr>db_snapshots := l\<rparr>) (SnapshotList_Delete p (db_snapshots db))"

section \<open>Tables that are open\<close>

text \<open>The tables of a table cache that never has to open one, each with the entries it was built from.\<close>

definition tables_get :: "(slice \<Rightarrow> nat) \<Rightarrow> (u64 \<rightharpoonup> Table \<times> (slice \<times> slice) list) \<Rightarrow> unit table_get" where
  "tables_get addr_of tables c options n sz k =
     (case tables n of
        None \<Rightarrow> Some (IOError ''no such file'', None, c)
      | Some (t, kvs) \<Rightarrow> InternalGet addr_of (None :: (unit, Block) Cache option) t options k c)"

text \<open>A table that was opened from a file that a builder wrote from the entries.\<close>

definition opened_from :: "Options \<Rightarrow> Table \<Rightarrow> (slice \<times> slice) list \<Rightarrow> bool" where
  "opened_from src t kvs \<longleftrightarrow> user_options src \<and> internal_sorted kvs
     \<and> (\<exists>os os' name bytes addr_of cache_id. built_by os (SanitizeOptions src) kvs bytes \<and> length bytes < 2 ^ 32
          \<and> Table_Open addr_of (SanitizeOptions src) (posix_mapped_file os' name bytes) (word_of_nat (length bytes)) cache_id = Some (OK, Some t))"

lemma opened_from_get:
  assumes "opened_from src t kvs" "8 \<le> length k"
  shows "\<exists>res. InternalGet addr_of (None :: (unit, Block) Cache option) t options k c = Some (OK, res, c) \<and> found icmp same_user_key kvs k res"
proof -
  obtain os os' name bytes addr cache_id where src: "user_options src" "internal_sorted kvs"
    and b: "built_by os (SanitizeOptions src) kvs bytes" "length bytes < 2 ^ 32"
    and op: "Table_Open addr (SanitizeOptions src) (posix_mapped_file os' name bytes) (word_of_nat (length bytes)) cache_id = Some (OK, Some t)"
    using assms(1) unfolding opened_from_def by blast
  have r: "0 < op_block_restart_interval (SanitizeOptions src)" using src(1) by (simp add: user_options_def SanitizeOptions_def)
  obtain bs where bs: "concat bs = kvs" "table_layout (SanitizeOptions src) bs bytes" "sorted_blocks icmp (internal_valid (\<lambda>_. True)) bs"
    using built_by_layout [OF b r src(2)] by blast
  have raf: "random_access_file (raf_Read (posix_mapped_file os' name bytes)) bytes" by (simp add: posix_mapped.random_access_file_axioms)
  obtain t' where t': "Table_Open addr (SanitizeOptions src) (posix_mapped_file os' name bytes) (word_of_nat (length bytes)) cache_id = Some (OK, Some t')"
      "table_opened (SanitizeOptions src) (posix_mapped_file os' name bytes) bs t'"
    using Table_Open_layout [OF raf b(2) bs(2) r] by blast
  then have "table_opened (SanitizeOptions src) (posix_mapped_file os' name bytes) bs t" using op by simp
  from table_config.InternalGet_uncached [OF db_table_config [OF src(1)] raf this bs(2) b(2) bs(3), of k addr_of options c] show ?thesis
    using assms(2) bs(1) by (simp add: internal_valid_def)
qed

definition tables_contents :: "Options \<Rightarrow> (u64 \<rightharpoonup> Table \<times> (slice \<times> slice) list) \<Rightarrow> u64 \<Rightarrow> u64 \<Rightarrow> (slice \<times> slice) list option" where
  "tables_contents src tables n sz =
     (case tables n of None \<Rightarrow> None | Some (t, kvs) \<Rightarrow> if opened_from src t kvs then Some kvs else None)"

interpretation opened: table_source "tables_get addr_of tables" "\<lambda>_. True" "tables_contents src tables"
proof
  fix c :: unit and n sz :: u64 and kvs :: "(slice \<times> slice) list" and k :: slice and options
  assume "tables_contents src tables n sz = Some kvs" "8 \<le> length k"
  then obtain t where "tables n = Some (t, kvs)" "opened_from src t kvs" by (auto simp: tables_contents_def split: option.splits if_splits)
  then show "\<exists>res c'. tables_get addr_of tables c options n sz k = Some (OK, res, c') \<and> found icmp same_user_key kvs k res \<and> True"
    using opened_from_get \<open>8 \<le> length k\<close> by (simp add: tables_get_def)
qed

section \<open>All writes of a database\<close>

definition mem_visible :: "entry list \<Rightarrow> slice \<Rightarrow> SequenceNumber \<Rightarrow> (SequenceNumber \<times> ValueType \<times> slice) set" where
  "mem_visible es u s = {(q, t, x). (q, t, u, x) \<in> set es \<and> q \<le> s}"

text \<open>
  The writes a database has are spread over the two memtables and the version; what came later is in front of what came
  earlier.
\<close>

definition db_holds :: "Options \<Rightarrow> (u64 \<rightharpoonup> Table \<times> (slice \<times> slice) list) \<Rightarrow> DB \<Rightarrow> entry list \<Rightarrow> entry list \<Rightarrow> bool" where
  "db_holds src tables db mem_es imm_es \<longleftrightarrow>
     memtable_holds (db_mem db) mem_es \<and> 0 < mt_refs (db_mem db)
     \<and> (case db_imm db of None \<Rightarrow> imm_es = [] | Some m \<Rightarrow> memtable_holds m imm_es \<and> 0 < mt_refs m)
     \<and> 0 < v_refs (db_current db) \<and> version_ok (tables_contents src tables) (db_metas db) (db_current db)
     \<and> (\<forall>e\<in>set imm_es. \<forall>e'\<in>set mem_es. fst e < fst e')
     \<and> (\<forall>u s. \<forall>e\<in>visible (version_entries (tables_contents src tables) (db_metas db) (db_current db)) u s.
          \<forall>e'\<in>set mem_es \<union> set imm_es. fst e < fst e')"

definition db_visible :: "Options \<Rightarrow> (u64 \<rightharpoonup> Table \<times> (slice \<times> slice) list) \<Rightarrow> DB \<Rightarrow> entry list \<Rightarrow> entry list \<Rightarrow> slice \<Rightarrow> SequenceNumber
    \<Rightarrow> (SequenceNumber \<times> ValueType \<times> slice) set" where
  "db_visible src tables db mem_es imm_es u s = mem_visible mem_es u s \<union> mem_visible imm_es u s
     \<union> visible (version_entries (tables_contents src tables) (db_metas db) (db_current db)) u s"

lemma mem_lookup_newest:
  assumes "sorted_wrt (<) (map fst es)"
  shows "case mem_lookup es u s of None \<Rightarrow> mem_visible es u s = {} | Some (q, t, k, x) \<Rightarrow> k = u \<and> newest (mem_visible es u s) (q, t, x)"
proof -
  let ?P = "\<lambda>(q, t, k, v). k = u \<and> (q :: SequenceNumber) \<le> s"
  have vis: "mem_visible es u s = (\<lambda>(q, t, k, x). (q, t, x)) ` set (filter ?P es)" by (force simp: mem_visible_def)
  have sorted: "sorted_wrt (\<lambda>a b. fst a < fst b) (filter ?P es)" using assms by (simp add: sorted_wrt_map sorted_wrt_filter)
  show ?thesis
  proof (cases "filter ?P es" rule: rev_cases)
    case Nil
    then show ?thesis using vis by (simp add: mem_lookup_def)
  next
    case (snoc xs e)
    obtain q t k x where e: "e = (q, t, k, x)" by (cases e)
    have l: "mem_lookup es u s = Some (q, t, k, x)" by (cases xs) (simp_all add: mem_lookup_def snoc e)
    have "e \<in> set (filter ?P es)" by (simp add: snoc)
    then have k: "k = u" by (simp add: e)
    have "\<forall>e'\<in>set xs. fst e' < q" using sorted by (simp add: snoc sorted_wrt_append e)
    then have "\<forall>y\<in>mem_visible es u s. fst y \<le> q" unfolding vis snoc by (auto simp: e less_imp_le)
    moreover have "(q, t, x) \<in> mem_visible es u s" unfolding vis snoc by (simp add: e)
    ultimately show ?thesis by (simp add: l newest_def k)
  qed
qed

lemma memtable_holds_sorted: "memtable_holds m es \<Longrightarrow> sorted_wrt (<) (map fst es)"
  using memtable_holds_rep by (auto simp: mem_rep_def)

text \<open>What a lookup in a memtable does to the status and the value it is given.\<close>

lemma memtable_newest:
  assumes "memtable_holds m es" "s \<le> kMaxSequenceNumber" "length u + 8 < 2 ^ 32"
  obtains (miss) "MemTable_Get Bytewise_Compare (MemTable_Ref m) (LookupKey_init u s) dst st = Some (False, dst, st)" "mem_visible es u s = {}"
  | (hit) q t x where "newest (mem_visible es u s) (q, t, x)"
      "MemTable_Get Bytewise_Compare (MemTable_Ref m) (LookupKey_init u s) dst st
         = Some (True, if t = kTypeValue then (x, st) else (dst, NotFound ''''))"
proof -
  have rep: "mem_rep (MemTable_Ref m) es" using memtable_holds_rep [OF assms(1)] by (simp add: mem_rep_def MemTable_Ref_def)
  note g = mem_rep_Get [OF rep assms(2,3), of dst st] and n = mem_lookup_newest [OF memtable_holds_sorted [OF assms(1)], of u s]
  show thesis
  proof (cases "mem_lookup es u s")
    case None
    then show ?thesis using miss g n by simp
  next
    case (Some e)
    obtain q t k x where e: "e = (q, t, k, x)" by (cases e)
    show ?thesis by (rule hit [of q t x]) (use g n Some e in \<open>cases t; simp\<close>)+
  qed
qed

lemma MemTable_Unref_Ref: "0 < mt_refs m \<Longrightarrow> MemTable_Unref (MemTable_Ref m) = Some m"
  by (simp add: MemTable_Unref_def MemTable_Ref_def)

section \<open>Charging a seek changes no file\<close>

definition same_files :: "metas \<Rightarrow> metas \<Rightarrow> bool" where
  "same_files meta meta' \<longleftrightarrow> (\<forall>f. fm_number (meta' f) = fm_number (meta f) \<and> fm_file_size (meta' f) = fm_file_size (meta f)
     \<and> fm_smallest (meta' f) = fm_smallest (meta f) \<and> fm_largest (meta' f) = fm_largest (meta f))"

lemma same_files_ok:
  assumes "same_files meta meta'"
  shows "entries contents meta' = entries contents meta" "version_ok contents meta' v = version_ok contents meta v"
    "version_entries contents meta' v = version_entries contents meta v"
proof -
  have m: "fm_number (meta' f) = fm_number (meta f)" "fm_file_size (meta' f) = fm_file_size (meta f)"
    "fm_smallest (meta' f) = fm_smallest (meta f)" "fm_largest (meta' f) = fm_largest (meta f)" for f
    using assms by (simp_all add: same_files_def)
  show e: "entries contents meta' = entries contents meta" by (rule ext) (simp add: entries_def m)
  have t: "table_ok (meta' f) = table_ok (meta f)" "file_range (meta' f) = file_range (meta f)" for f
    by (rule ext) (simp_all add: table_ok_def file_range_def m)
  have "newest_first meta' fs = newest_first meta fs" for fs by (simp add: newest_first_def m)
  then have "level_files_ok contents meta' l fs = level_files_ok contents meta l fs" for l fs
    by (simp add: level_files_ok_def file_present_def level_sorted_def e t m)
  then show "version_ok contents meta' v = version_ok contents meta v" by (simp add: version_ok_def e)
  show "version_entries contents meta' v = version_entries contents meta v" by (simp add: version_entries_def e)
qed

lemma UpdateStats_ok:
  assumes "UpdateStats stats (v, meta) = (schedule, v', meta')"
  shows "same_files meta meta'" "v_files v' = v_files v" "v_refs v' = v_refs v"
  using assms by (auto simp: UpdateStats_def same_files_def Let_def split: option.splits if_splits)

lemma version_ok_files: "v_files v' = v_files v \<Longrightarrow> version_ok contents meta v' = version_ok contents meta v
    \<and> version_entries contents meta v' = version_entries contents meta v"
  by (simp add: version_ok_def version_entries_def)

lemma Version_Unref_Ref:
  assumes "v_refs v' = v_refs v + 1" "0 < v_refs v"
  shows "Version_Unref v' meta = Some (Some (v'\<lparr>v_refs := v_refs v\<rparr>), meta)"
  using assms by (simp add: Version_Unref_def Let_def)

lemma Version_Get_Ref: "Version_Get get ucmp meta (Version_Ref v) = Version_Get get ucmp meta v"
  by (simp add: Version_Get_def Version_Ref_def fun_eq_iff)

lemma db_holds_unref:
  assumes "db_holds src tables db mem_es imm_es"
  shows "MemTable_Unref (MemTable_Ref (db_mem db)) = Some (db_mem db)"
    "unref_imm (map_option MemTable_Ref (db_imm db)) = Some (db_imm db)"
    "Version_Unref (Version_Ref (db_current db)) meta = Some (Some (db_current db), meta)"
proof -
  show "MemTable_Unref (MemTable_Ref (db_mem db)) = Some (db_mem db)"
    using assms by (simp add: db_holds_def MemTable_Unref_Ref)
  show "unref_imm (map_option MemTable_Ref (db_imm db)) = Some (db_imm db)"
    using assms MemTable_Unref_Ref by (auto simp: db_holds_def unref_imm_def split: option.splits)
  show "Version_Unref (Version_Ref (db_current db)) meta = Some (Some (db_current db), meta)"
    using Version_Unref_Ref [of "Version_Ref (db_current db)" "db_current db" meta] assms by (simp add: Version_Ref_def db_holds_def)
qed

section \<open>Properties\<close>

lemma memtables_newest:
  assumes "memtable_holds mem mem_es" "case imm of None \<Rightarrow> imm_es = [] | Some m \<Rightarrow> memtable_holds m imm_es"
    and "\<forall>e\<in>set imm_es. \<forall>e'\<in>set mem_es. fst e < fst e'" "s \<le> kMaxSequenceNumber" "length u + 8 < 2 ^ 32"
  obtains (miss) "memtables_get Bytewise_Compare (MemTable_Ref mem) (map_option MemTable_Ref imm) (LookupKey_init u s) dst = Some (False, dst, OK)"
      "mem_visible mem_es u s \<union> mem_visible imm_es u s = {}"
  | (hit) q t x where "newest (mem_visible mem_es u s \<union> mem_visible imm_es u s) (q, t, x)"
      "memtables_get Bytewise_Compare (MemTable_Ref mem) (map_option MemTable_Ref imm) (LookupKey_init u s) dst
         = Some (True, if t = kTypeValue then (x, OK) else (dst, NotFound []))"
proof (rule memtable_newest [OF assms(1,4,5), where dst = dst and st = OK])
  fix q t x assume h: "newest (mem_visible mem_es u s) (q, t, x)"
    "MemTable_Get Bytewise_Compare (MemTable_Ref mem) (LookupKey_init u s) dst OK = Some (True, if t = kTypeValue then (x, OK) else (dst, NotFound []))"
  have "newest (mem_visible mem_es u s \<union> mem_visible imm_es u s) (q, t, x)"
  proof (rule newest_Un_left [OF h(1)])
    fix e' assume "e' \<in> mem_visible imm_es u s"
    moreover have "(q, t, x) \<in> mem_visible mem_es u s" using h(1) by (simp add: newest_def)
    ultimately have "fst e' < q" using assms(3) by (force simp: mem_visible_def)
    then show "fst e' \<le> fst (q, t, x)" by simp
  qed
  then show thesis by (rule hit) (simp add: memtables_get_def h(2))
next
  assume m: "MemTable_Get Bytewise_Compare (MemTable_Ref mem) (LookupKey_init u s) dst OK = Some (False, dst, OK)" "mem_visible mem_es u s = {}"
  show thesis
  proof (cases imm)
    case None
    then show thesis using miss assms(2) m by (simp add: memtables_get_def mem_visible_def)
  next
    case (Some i)
    then have "memtable_holds i imm_es" using assms(2) by simp
    then show thesis
      by (rule memtable_newest [OF _ assms(4,5), where dst = dst and st = OK])
        (use miss hit m Some in \<open>auto simp: memtables_get_def\<close>)
  qed
qed

text \<open>The part of the lookup behind the memtables.\<close>

lemma DBImpl_Get_version:
  assumes holds: "db_holds src tables db mem_es imm_es" and s: "s \<le> kMaxSequenceNumber"
    and V: "V = visible (version_entries (tables_contents src tables) (db_metas db) (db_current db)) key s"
    and snap: "(case snapshot of Some p \<Rightarrow> sl_heap (db_snapshots db) p | None \<Rightarrow> Some (db_last_sequence db)) = Some s"
    and miss: "memtables_get Bytewise_Compare (MemTable_Ref (db_mem db)) (map_option MemTable_Ref (db_imm db)) (LookupKey_init key s) dst = Some (False, dst, OK)"
  shows "\<exists>st dst' schedule db'. DBImpl_Get (tables_get addr_of tables) Bytewise_Compare options snapshot key dst db () = Some (st, dst', schedule, db', ())
    \<and> db_holds src tables db' mem_es imm_es \<and> db_visible src tables db' mem_es imm_es = db_visible src tables db mem_es imm_es
    \<and> (V = {} \<and> (st, dst') = (NotFound [], dst)
       \<or> (\<exists>q t x. newest V (q, t, x) \<and> (st, dst') = (if t = kTypeValue then (OK, x) else (NotFound [], dst))))"
proof -
  let ?get = "tables_get addr_of tables" and ?lk = "LookupKey_init key s" and ?c = "tables_contents src tables"
  have refs: "0 < v_refs (db_current db)" and v: "version_ok ?c (db_metas db) (db_current db)" using holds by (auto simp: db_holds_def)
  obtain st dst' stats c' where g: "Version_Get ?get Bytewise_Compare (db_metas db) (db_current db) options ?lk dst () = Some (st, dst', stats, c')"
    "V = {} \<and> (st, dst') = (NotFound [], dst) \<or> (\<exists>q t x. newest V (q, t, x) \<and> (st, dst') = (if t = kTypeValue then (OK, x) else (NotFound [], dst)))"
    using opened.Version_Get_newest [OF v TrueI s, where c = "()" and u = key and options = options and addr_of = addr_of] unfolding V by blast
  obtain schedule v1 meta' where u: "UpdateStats stats (Version_Ref (db_current db), db_metas db) = (schedule, v1, meta')"
    by (cases "UpdateStats stats (Version_Ref (db_current db), db_metas db)")
  let ?v' = "v1\<lparr>v_refs := v_refs (db_current db)\<rparr>"
  have v1: "v_refs v1 = v_refs (db_current db) + 1" "v_files ?v' = v_files (db_current db)"
    using UpdateStats_ok(2,3) [OF u] by (simp_all add: Version_Ref_def)
  let ?db = "db\<lparr>db_mem := db_mem db, db_imm := db_imm db, db_current := ?v', db_metas := meta'\<rparr>"
  have "DBImpl_Get ?get Bytewise_Compare options snapshot key dst db () = Some (st, dst', schedule, ?db, ())"
    unfolding DBImpl_Get_def snap
    by (simp add: miss Version_Get_Ref g(1) u db_holds_unref [OF holds] Version_Unref_Ref [OF v1(1) refs] Let_def)
  moreover have "version_ok ?c meta' ?v' = version_ok ?c (db_metas db) (db_current db)"
    "version_entries ?c meta' ?v' = version_entries ?c (db_metas db) (db_current db)"
    using same_files_ok [OF UpdateStats_ok(1) [OF u]] version_ok_files [OF v1(2)] by simp_all
  then have "db_holds src tables ?db mem_es imm_es" "db_visible src tables ?db mem_es imm_es = db_visible src tables db mem_es imm_es"
    using holds by (auto simp: db_holds_def db_visible_def fun_eq_iff)
  ultimately show ?thesis using g(2) by (intro exI [of _ st] exI [of _ dst'] exI [of _ schedule] exI [of _ ?db]) blast
qed


text \<open>A database with an empty memtable and a table on level 1.\<close>

lemma example_db:
  defines "kvs \<equiv> [(PutFixed64 [97] 257, [1])]"
    and "f \<equiv> \<lparr>fm_refs = 1, fm_allowed_seeks = 100, fm_number = 5, fm_file_size = 100, fm_smallest = PutFixed64 [97] 257, fm_largest = PutFixed64 [97] 257\<rparr>"
    and "v \<equiv> Version_init\<lparr>v_refs := 1, v_files := [[], [0], [], [], [], [], []]\<rparr>"
  assumes "opened_from Options_init t kvs"
  shows "db_holds Options_init [5 \<mapsto> (t, kvs)]
      \<lparr>db_mem = MemTable_Ref MemTable_init, db_imm = None, db_current = v, db_metas = (\<lambda>_. f), db_last_sequence = 1, db_snapshots = SnapshotList_init\<rparr> [] []"
    and "db_visible Options_init [5 \<mapsto> (t, kvs)]
      \<lparr>db_mem = MemTable_Ref MemTable_init, db_imm = None, db_current = v, db_metas = (\<lambda>_. f), db_last_sequence = 1, db_snapshots = SnapshotList_init\<rparr> [] [] [97] 1
      = {(1, kTypeValue, [1])}"
proof -
  let ?c = "tables_contents Options_init [5 \<mapsto> (t, kvs)]"
  have p: "PackSequenceAndType 1 kTypeValue = 257" by (simp add: PackSequenceAndType_def)
  have key: "PutFixed64 [97] 257 = AppendInternalKey [] \<lparr>user_key = [97], sequence = 1, key_type = kTypeValue\<rparr>"
    by (simp add: AppendInternalKey_def p)
  have one: "(1 :: u64) \<le> kMaxSequenceNumber" by (simp add: kMaxSequenceNumber_def)
  have w: "written_key (PutFixed64 [97] 257)" using key one by (auto simp: written_key_def)
  have e: "entries ?c (\<lambda>_. f) = (\<lambda>_. kvs)" using assms(4) by (auto simp: entries_def tables_contents_def f_def)
  have sorted: "internal_sorted kvs" using assms(4) by (simp add: opened_from_def)
  have t: "table_ok f kvs" using w sorted icmp_irrefl by (simp add: table_ok_def kvs_def f_def)
  have "(257 :: u64) \<le> PackSequenceAndType kMaxSequenceNumber kTypeValue"
    by (simp add: kMaxSequenceNumber_def PackSequenceAndType_def)
  then have "file_range f" using icmp_irrefl by (simp add: file_range_def f_def)
  moreover have present: "file_present ?c (\<lambda>_. f) g" for g
    unfolding file_present_def e using t assms(4) by (simp add: f_def tables_contents_def)
  ultimately have ok: "level_files_ok ?c (\<lambda>_. f) l (v_files v ! l)" if "l < kNumLevels" for l
    using that by (auto simp: level_files_ok_def level_sorted_def v_def kNumLevels_def newest_first_def nth_Cons split: nat.splits)
  then have v: "version_ok ?c (\<lambda>_. f) v" by (simp add: version_ok_def v_def kNumLevels_def e)
  have refs: "0 < v_refs v" by (simp add: v_def)
  have "visible kvs [97] 1 = {(1, kTypeValue, [1])}"
    using Parse_written [of "\<lparr>user_key = [97], sequence = 1, key_type = kTypeValue\<rparr>"] one key by (auto simp: visible_def kvs_def)
  then show "db_visible Options_init [5 \<mapsto> (t, kvs)]
      \<lparr>db_mem = MemTable_Ref MemTable_init, db_imm = None, db_current = v, db_metas = (\<lambda>_. f), db_last_sequence = 1, db_snapshots = SnapshotList_init\<rparr> [] [] [97] 1
      = {(1, kTypeValue, [1])}"
    by (auto simp: db_visible_def mem_visible_def version_entries_def v_def e)
  show "db_holds Options_init [5 \<mapsto> (t, kvs)]
      \<lparr>db_mem = MemTable_Ref MemTable_init, db_imm = None, db_current = v, db_metas = (\<lambda>_. f), db_last_sequence = 1, db_snapshots = SnapshotList_init\<rparr> [] []"
    using v refs memtable_holds.ref [OF memtable_holds.empty] by (simp add: db_holds_def MemTable_Ref_def MemTable_init_def)
qed


end
