(* ===== verification/Ldb_Log_Spec.thy ===== *)
theory Ldb_Log_Spec
  imports Ldb_Log "HOL-Library.Sublist"
begin

text \<open>
  What a log should contain, as a function of the records added to it, and the proofs that the writer
  produces it on any file that keeps its promises, and that the reader takes it apart again, also when
  the file ends somewhere in the middle.
\<close>

section \<open>The bytes of a log\<close>

definition phys :: "RecordType \<Rightarrow> slice \<Rightarrow> byte list" where
  "phys t d =
     EncodeFixed32 (crc32c_Mask (crc32c_ref 0 (word_of_nat (RecordType_value t) # d)))
     @ [word_of_nat (length d mod 256), word_of_nat (length d div 256), word_of_nat (RecordType_value t)] @ d"

definition pad :: "nat \<Rightarrow> byte list" where
  "pad off = (if kBlockSize - off < kHeaderSize then replicate (kBlockSize - off) 0 else [])"

definition start :: "nat \<Rightarrow> nat" where
  "start off = (if kBlockSize - off < kHeaderSize then 0 else off)"

definition frag_len :: "nat \<Rightarrow> slice \<Rightarrow> nat" where
  "frag_len off d = min (length d) (kBlockSize - start off - kHeaderSize)"

lemma block_consts: "kBlockSize = 32768" "kHeaderSize = 7"
  by (simp_all add: kBlockSize_def kHeaderSize_def)

lemma start_room: "start off + kHeaderSize \<le> kBlockSize"
  by (auto simp: start_def block_consts)

lemma frag_room: "start off + kHeaderSize + frag_len off d \<le> kBlockSize"
  using start_room [of off] by (auto simp: frag_len_def)

function record_bytes :: "nat \<Rightarrow> bool \<Rightarrow> slice \<Rightarrow> byte list" where
  "record_bytes off b d =
     (let n = frag_len off d; bs = pad off @ phys (record_type b (length d = n)) (take n d)
      in if n < length d then bs @ record_bytes (start off + kHeaderSize + n) False (drop n d) else bs)"
  by pat_completeness auto
termination
  by (relation "measures [\<lambda>(off, b, d). length d, \<lambda>(off, b, d). kBlockSize - off]")
     (auto simp: frag_len_def start_def block_consts split: if_splits)

function record_end :: "nat \<Rightarrow> slice \<Rightarrow> nat" where
  "record_end off d =
     (let n = frag_len off d
      in if n < length d then record_end (start off + kHeaderSize + n) (drop n d) else start off + kHeaderSize + n)"
  by pat_completeness auto
termination
  by (relation "measures [\<lambda>(off, d). length d, \<lambda>(off, d). kBlockSize - off]")
     (auto simp: frag_len_def start_def block_consts split: if_splits)

declare record_bytes.simps [simp del] record_end.simps [simp del]

lemma record_end_bound: "record_end off d \<le> kBlockSize"
proof (induction off d rule: record_end.induct)
  case (1 off d)
  then show ?case using frag_room [of off d] by (subst record_end.simps) (auto simp: Let_def)
qed

fun log_bytes :: "nat \<Rightarrow> slice list \<Rightarrow> byte list" where
  "log_bytes off [] = []"
| "log_bytes off (d # ds) = record_bytes off True d @ log_bytes (record_end off d) ds"

section \<open>The writer produces it\<close>

lemma type_crc_Extend:
  "crc32c_Extend a (InitTypeCrc addr_of ! RecordType_value t) d = crc32c_ref 0 (word_of_nat (RecordType_value t) # d)"
proof -
  have "InitTypeCrc addr_of ! RecordType_value t = crc32c_ref 0 [word_of_nat (RecordType_value t)]"
    by (cases t) (simp_all add: InitTypeCrc_def kMaxRecordType_def crc32c_Value_def crc32c_Extend_eq)
  then show ?thesis by (simp add: crc32c_Extend_eq crc32c_ref_append)
qed

lemma physical_header_phys:
  "type_crc w = InitTypeCrc addr_of \<Longrightarrow> physical_header addr_of w t d @ d = phys t d"
  by (simp add: physical_header_def phys_def Let_def type_crc_Extend)

context writable_file
begin

lemma Emit_OK:
  assumes "EmitPhysicalRecord (dest_file append flush) addr_of t d w f = Some (OK, w', f')" "type_crc w = InitTypeCrc addr_of"
  shows "w' = w\<lparr>block_offset := block_offset w + kHeaderSize + length d\<rparr> \<and> contents f' = contents f @ phys t d \<and> flushed f'"
proof -
  obtain f1 f2 where 1: "append (physical_header addr_of w t d) f = Some (OK, f1)" "append d f1 = Some (OK, f2)"
      "flush f2 = Some (OK, f')" and w': "w' = w\<lparr>block_offset := block_offset w + kHeaderSize + length d\<rparr>"
    using assms(1) by (auto simp: EmitPhysicalRecord_def dest_file_def Status_ok_def split: option.splits if_splits)
  show ?thesis
    using append_ok [OF 1(1)] append_ok [OF 1(2)] flush_ok [OF 1(3)] w' physical_header_phys [OF assms(2), of t d] by simp
qed

lemma switch_block_OK:
  assumes "flushed f"
  shows "\<exists>f'. switch_block (dest_file append flush) w f = Some (w\<lparr>block_offset := start (block_offset w)\<rparr>, f')
    \<and> contents f' = contents f @ pad (block_offset w)"
proof -
  let ?n = "kBlockSize - block_offset w"
  show ?thesis
  proof (cases "?n < kHeaderSize \<and> ?n > 0")
    case True
    then obtain f' where "append (replicate ?n 0) f = Some (OK, f')"
      using append_small [OF assms, of "replicate ?n 0"] by (auto simp: block_consts)
    then show ?thesis
      using True append_ok by (auto simp: switch_block_def dest_file_def start_def pad_def Let_def)
  qed (auto simp: switch_block_def dest_file_def start_def pad_def Let_def block_consts)
qed

lemma AddRecord_loop_OK:
  assumes "AddRecord_loop (dest_file append flush) addr_of b d w f = Some (OK, w', f')"
    "block_offset w = off" "type_crc w = InitTypeCrc addr_of" "flushed f"
  shows "contents f' = contents f @ record_bytes off b d \<and> w' = w\<lparr>block_offset := record_end off d\<rparr> \<and> flushed f'"
  using assms
proof (induction off b d arbitrary: w f rule: record_bytes.induct)
  case (1 off b d)
  define n where "n = frag_len off d"
  let ?t = "record_type b (length d = n)" and ?w = "w\<lparr>block_offset := start off\<rparr>"
  obtain f1 where f1: "switch_block (dest_file append flush) w f = Some (?w, f1)" "contents f1 = contents f @ pad off"
    using switch_block_OK [OF "1.prems"(4), of w] "1.prems"(2) by auto
  have frag: "(if length d < kBlockSize - start off - kHeaderSize then length d else kBlockSize - start off - kHeaderSize) = n"
    by (simp add: n_def frag_len_def)
  have bo: "block_offset ?w = start off" by simp
  have "AddRecord_loop (dest_file append flush) addr_of b d w f =
      (case EmitPhysicalRecord (dest_file append flush) addr_of ?t (take n d) ?w f1 of
         None \<Rightarrow> None
       | Some (s, w, f) \<Rightarrow>
           if Status_ok s \<and> length d - n > 0 then AddRecord_loop (dest_file append flush) addr_of False (drop n d) w f
           else Some (s, w, f))"
    unfolding AddRecord_loop.simps [of "dest_file append flush" addr_of b d w f] f1(1)
    by (simp only: option.case prod.case Let_def bo frag)
  then obtain s w2 f2 where emit: "EmitPhysicalRecord (dest_file append flush) addr_of ?t (take n d) ?w f1 = Some (s, w2, f2)"
    and rest: "(if Status_ok s \<and> length d - n > 0 then AddRecord_loop (dest_file append flush) addr_of False (drop n d) w2 f2
               else Some (s, w2, f2)) = Some (OK, w', f')"
    using "1.prems"(1) by (auto split: option.splits simp del: zero_less_diff)
  then have "s = OK" by (auto simp: Status_ok_def split: if_splits)
  moreover have "n \<le> length d" by (simp add: n_def frag_len_def)
  ultimately have w2: "w2 = w\<lparr>block_offset := start off + kHeaderSize + n\<rparr>"
    and f2: "contents f2 = contents f @ pad off @ phys ?t (take n d)" "flushed f2"
    using Emit_OK [of addr_of ?t "take n d" ?w f1 w2 f2] emit "1.prems"(3) f1(2) by auto
  show ?case
  proof (cases "n < length d")
    case True
    then have "AddRecord_loop (dest_file append flush) addr_of False (drop n d) w2 f2 = Some (OK, w', f')"
      using rest \<open>s = OK\<close> by simp
    then show ?thesis
      using "1.IH" [OF n_def refl, of w2 f2] True w2 f2 "1.prems"(3)
      by (simp add: record_bytes.simps [of off] record_end.simps [of off] n_def [symmetric] Let_def)
  next
    case False
    then show ?thesis
      using rest \<open>s = OK\<close> w2 f2
      by (simp add: record_bytes.simps [of off] record_end.simps [of off] n_def [symmetric] Let_def)
  qed
qed

end

section \<open>The reader takes it apart\<close>

lemma length_phys [simp]: "length (phys t d) = kHeaderSize + length d"
  by (simp add: phys_def EncodeFixed32_def block_consts)

lemma scast_small_type: "(scast (word_of_nat (RecordType_value t) :: byte) :: u32) = word_of_nat (RecordType_value t)"
  by (cases t) simp_all

text \<open>The header fields of a physical record, whatever follows.\<close>

lemma phys_header:
  assumes "length d < 65536"
  shows "DecodeFixed32 (take 7 (phys t d) @ rest) = crc32c_Mask (crc32c_ref 0 (word_of_nat (RecordType_value t) # d))"
    "scast ((take 7 (phys t d) @ rest) ! 6) = (word_of_nat (RecordType_value t) :: u32)"
    "unat (ucast ((take 7 (phys t d) @ rest) ! 4) OR push_bit 8 (ucast ((take 7 (phys t d) @ rest) ! 5)) :: u32) = length d"
proof -
  let ?c = "EncodeFixed32 (crc32c_Mask (crc32c_ref 0 (word_of_nat (RecordType_value t) # d)))"
  have c: "length ?c = 4" by (simp add: EncodeFixed32_def)
  have split: "take 7 (phys t d) @ rest = ?c @ [word_of_nat (length d mod 256), word_of_nat (length d div 256),
      word_of_nat (RecordType_value t)] @ rest"
    using c by (simp add: phys_def)
  show "DecodeFixed32 (take 7 (phys t d) @ rest) = crc32c_Mask (crc32c_ref 0 (word_of_nat (RecordType_value t) # d))"
    unfolding split by (rule DecodeFixed32_bytes)
  show "scast ((take 7 (phys t d) @ rest) ! 6) = (word_of_nat (RecordType_value t) :: u32)"
    unfolding split using c by (simp add: nth_append scast_small_type)
  let ?a = "word_of_nat (length d mod 256) :: byte" and ?b = "word_of_nat (length d div 256) :: byte"
  have "(ucast ?a OR push_bit 8 (ucast ?b) :: u32) = ucast ?a + push_bit 8 (ucast ?b)"
    by (rule disjunctive_add [symmetric]) (auto simp: bit_simps dest: bit_imp_le_length)
  also have "\<dots> = word_of_nat (unat ?a + 256 * unat ?b)" by (simp add: push_bit_eq_mult)
  also have "unat ?a + 256 * unat ?b = length d" using assms by (simp add: unat_of_nat take_bit_eq_mod)
  finally show "unat (ucast ((take 7 (phys t d) @ rest) ! 4) OR push_bit 8 (ucast ((take 7 (phys t d) @ rest) ! 5)) :: u32) = length d"
    unfolding split using c assms by (simp add: nth_append unat_of_nat take_bit_eq_mod)
qed

text \<open>
  The reader stands at offset \<open>off\<close> of a block in front of \<open>rest\<close>: its buffer holds what is left of the
  block and the file what comes after.
\<close>

definition plain_reader :: "Reader \<Rightarrow> bool" where
  "plain_reader r \<longleftrightarrow> initial_offset r = 0 \<and> \<not> resyncing r"

definition same_reports :: "Reader \<Rightarrow> Reader \<Rightarrow> bool" where
  "same_reports r r' \<longleftrightarrow> rd_reports r' = rd_reports r \<and> plain_reader r' = plain_reader r"

lemma same_reports_trans: "same_reports r r' \<Longrightarrow> same_reports r' r'' \<Longrightarrow> same_reports r r''"
  by (simp add: same_reports_def)

definition in_block :: "nat \<Rightarrow> byte list \<Rightarrow> Reader \<Rightarrow> bool" where
  "in_block off rest r \<longleftrightarrow> off \<le> kBlockSize \<and> rd_buffer r = take (kBlockSize - off) rest
     \<and> rd_eof r = (length rest < kBlockSize - off)"

lemma parse_whole:
  assumes "in_block off (phys t d @ tl0) r" "off + kHeaderSize + length d \<le> kBlockSize" "t \<noteq> kZeroType" "plain_reader r"
  shows "\<exists>r'. parse_physical addr_of frag r = (word_of_nat (RecordType_value t), d, r')
    \<and> in_block (off + kHeaderSize + length d) tl0 r' \<and> same_reports r r'"
proof -
  let ?k = "kBlockSize - off" and ?n = "kHeaderSize + length d"
  have d: "length d < 65536" using assms(2) by (simp add: block_consts)
  have n: "?n \<le> ?k" using assms(2) by simp
  have buf: "rd_buffer r = phys t d @ take (?k - ?n) tl0"
    using assms(1) n by (simp add: in_block_def)
  then have buf7: "rd_buffer r = take 7 (phys t d) @ drop 7 (phys t d) @ take (?k - ?n) tl0"
    by (metis append.assoc append_take_drop_id)
  note header = phys_header [OF d, of t "drop 7 (phys t d) @ take (?k - ?n) tl0", folded buf7]
  have d6: "drop 6 (rd_buffer r) = word_of_nat (RecordType_value t) # d @ take (?k - ?n) tl0"
    unfolding buf by (simp add: phys_def EncodeFixed32_def)
  then have crc: "crc32c_Value a (take (1 + length d) (drop 6 (rd_buffer r))) = crc32c_Unmask (DecodeFixed32 (rd_buffer r))" for a
    by (simp add: header(1) crc32c_Value_def crc32c_Extend_eq)
  have d7: "take (length d) (drop kHeaderSize (rd_buffer r)) = d" "drop ?n (rd_buffer r) = take (?k - ?n) tl0"
    unfolding buf by (simp add: phys_def EncodeFixed32_def block_consts) simp
  have t: "(word_of_nat (RecordType_value t) :: u32) \<noteq> word_of_nat (RecordType_value kZeroType)"
    using assms(3) by (cases t) simp_all
  have len: "\<not> ?n > length (rd_buffer r)" unfolding buf by simp
  let ?r = "r\<lparr>rd_buffer := take (?k - ?n) tl0\<rparr>"
  have "parse_physical addr_of frag r = (word_of_nat (RecordType_value t), d, ?r)"
    using t len assms(4) unfolding parse_physical_def Let_def header(2,3) crc
    by (simp add: remove_prefix_def d7 plain_reader_def)
  moreover have "in_block (off + ?n) tl0 ?r"
    using assms(1,2) n by (auto simp: in_block_def)
  ultimately show ?thesis by (auto simp: same_reports_def plain_reader_def add.assoc)
qed

lemma parse_cut:
  assumes "in_block off (take m (phys t d)) r" "off + kHeaderSize + length d \<le> kBlockSize"
    "kHeaderSize \<le> m" "m < kHeaderSize + length d"
  shows "\<exists>r'. parse_physical addr_of frag r = (kEof, frag, r') \<and> same_reports r r'"
proof -
  have d: "length d < 65536" using assms(2) by (simp add: block_consts)
  have m: "m \<le> kBlockSize - off" using assms(2,4) by simp
  have buf: "rd_buffer r = take m (phys t d)" using assms(1) m by (simp add: in_block_def)
  then have buf7: "rd_buffer r = take 7 (phys t d) @ take (m - 7) (drop 7 (phys t d))"
    using assms(3) take_add [of 7 "m - 7" "phys t d"] by (simp add: block_consts)
  note header = phys_header [OF d, of t "take (m - 7) (drop 7 (phys t d))", folded buf7]
  have len: "kHeaderSize + length d > length (rd_buffer r)" using assms(4) by (simp add: buf)
  have "rd_eof r" using assms(1,2,4) by (auto simp: in_block_def)
  then have "parse_physical addr_of frag r = (kEof, frag, r\<lparr>rd_buffer := []\<rparr>)"
    using len unfolding parse_physical_def Let_def header(2,3) by simp
  then show ?thesis by (auto simp: same_reports_def plain_reader_def)
qed

definition src_file :: "(nat \<Rightarrow> slice \<Rightarrow> 'f \<Rightarrow> (Status \<times> slice \<times> 'f) option) \<Rightarrow> (u64 \<Rightarrow> 'f \<Rightarrow> Status \<times> 'f) \<Rightarrow> 'f SequentialFile" where
  "src_file rd sk = \<lparr>sf_Read = rd, sf_Skip = sk\<rparr>"

context sequential_file
begin

definition stands :: "nat \<Rightarrow> byte list \<Rightarrow> Reader \<Rightarrow> 'f \<Rightarrow> bool" where
  "stands off rest r f \<longleftrightarrow> in_block off rest r \<and> unread f = drop (kBlockSize - off) rest \<and> good f"

text \<open>In front of a trailer the reader moves on to the next block.\<close>

lemma stands_next_block:
  assumes "stands off rest r f" "kBlockSize - off < kHeaderSize" "kBlockSize - off \<le> length rest"
  shows "\<exists>r' f'. ReadPhysicalRecord (src_file read sk) addr_of frag r f = ReadPhysicalRecord (src_file read sk) addr_of frag r' f'
    \<and> stands 0 (drop (kBlockSize - off) rest) r' f' \<and> same_reports r r'"
proof -
  let ?rest = "drop (kBlockSize - off) rest"
  obtain f' where f': "read kBlockSize [] f = Some (OK, take kBlockSize ?rest, f')" "good f'" "unread f' = drop kBlockSize ?rest"
    using read_ok [of f kBlockSize "[]"] assms(1) by (auto simp: stands_def)
  define r0 where "r0 = r\<lparr>rd_buffer := take kBlockSize ?rest,
      end_of_buffer_offset := end_of_buffer_offset r + word_of_nat (length (take kBlockSize ?rest))\<rparr>"
  define r1 where "r1 = (if length (take kBlockSize ?rest) < kBlockSize then r0\<lparr>rd_eof := True\<rparr> else r0)"
  have "\<not> rd_eof r" "length (rd_buffer r) < kHeaderSize" using assms by (auto simp: stands_def in_block_def)
  then have "ReadPhysicalRecord (src_file read sk) addr_of frag r f = ReadPhysicalRecord (src_file read sk) addr_of frag r1 f'"
    using f'(1) unfolding ReadPhysicalRecord.simps [of _ _ _ r]
    by (simp add: src_file_def r1_def r0_def Let_def del: length_take)
  moreover have "stands 0 ?rest r1 f'" using f' \<open>\<not> rd_eof r\<close> by (auto simp: stands_def in_block_def r1_def r0_def)
  moreover have "same_reports r r1" by (simp add: same_reports_def plain_reader_def r1_def r0_def)
  ultimately show ?thesis by blast
qed

lemma stands_eof:
  assumes "stands off rest r f" "length rest < kHeaderSize" "length rest < kBlockSize - off"
  shows "\<exists>r'. ReadPhysicalRecord (src_file read sk) addr_of frag r f = Some (kEof, frag, r', f) \<and> same_reports r r'"
proof -
  have "rd_eof r" "length (rd_buffer r) < kHeaderSize" using assms by (auto simp: stands_def in_block_def)
  then show ?thesis by (subst ReadPhysicalRecord.simps) (simp add: same_reports_def plain_reader_def)
qed

lemma stands_end:
  assumes "stands off [] r f"
  shows "\<exists>r' f'. ReadPhysicalRecord (src_file read sk) addr_of frag r f = Some (kEof, frag, r', f') \<and> same_reports r r'"
proof (cases "off = kBlockSize")
  case True
  then obtain r1 f1 where 1: "ReadPhysicalRecord (src_file read sk) addr_of frag r f = ReadPhysicalRecord (src_file read sk) addr_of frag r1 f1"
      "stands 0 [] r1 f1" "same_reports r r1"
    using stands_next_block [OF assms, of sk addr_of frag] by (auto simp: block_consts)
  then show ?thesis using stands_eof [OF 1(2), of sk addr_of frag] same_reports_trans by (fastforce simp: block_consts)
next
  case False
  then show ?thesis using stands_eof [OF assms, of sk addr_of frag] assms by (auto simp: stands_def in_block_def block_consts)
qed

text \<open>One physical record in front of the reader, cut off after \<open>m\<close> bytes.\<close>

lemma read_phys:
  assumes "stands off (take m (phys t d @ tl0)) r f" "off + kHeaderSize + length d \<le> kBlockSize"
    "t \<noteq> kZeroType" "plain_reader r"
  shows "if kHeaderSize + length d \<le> m
    then \<exists>r'. ReadPhysicalRecord (src_file read sk) addr_of frag r f = Some (word_of_nat (RecordType_value t), d, r', f)
      \<and> stands (off + kHeaderSize + length d) (take (m - (kHeaderSize + length d)) tl0) r' f \<and> same_reports r r'
    else \<exists>r' f'. ReadPhysicalRecord (src_file read sk) addr_of frag r f = Some (kEof, frag, r', f') \<and> same_reports r r'"
proof (cases "kHeaderSize \<le> m")
  case False
  then have "length (take m (phys t d @ tl0)) < kHeaderSize" "length (take m (phys t d @ tl0)) < kBlockSize - off"
    using assms(2) by auto
  then show ?thesis using False stands_eof [OF assms(1), of sk addr_of frag] by auto
next
  case True
  have "rd_buffer r = take (kBlockSize - off) (take m (phys t d @ tl0))" using assms(1) by (simp only: stands_def in_block_def)
  then have "length (rd_buffer r) = min (kBlockSize - off) (min m (kHeaderSize + length d + length tl0))"
    by (simp only: length_take length_append length_phys min.commute min.left_commute)
  then have buf: "\<not> length (rd_buffer r) < kHeaderSize" using True assms(2) by simp
  show ?thesis
  proof (cases "kHeaderSize + length d \<le> m")
    case whole: True
    have tk: "take m (phys t d @ tl0) = phys t d @ take (m - (kHeaderSize + length d)) tl0" using whole by simp
    have b: "in_block off (phys t d @ take (m - (kHeaderSize + length d)) tl0) r"
      using assms(1) unfolding tk stands_def by blast
    obtain r' where r': "parse_physical addr_of frag r = (word_of_nat (RecordType_value t), d, r')"
        "in_block (off + kHeaderSize + length d) (take (m - (kHeaderSize + length d)) tl0) r'" "same_reports r r'"
      using parse_whole [OF b assms(2-4)] by blast
    have "unread f = drop (kBlockSize - (off + kHeaderSize + length d)) (take (m - (kHeaderSize + length d)) tl0)" "good f"
      using assms(1,2) unfolding tk stands_def by (simp_all add: add.assoc)
    then show ?thesis using whole r' buf by (subst ReadPhysicalRecord.simps) (auto simp: stands_def)
  next
    case cut: False
    have tk: "take m (phys t d @ tl0) = take m (phys t d)" using cut by simp
    have b: "in_block off (take m (phys t d)) r" using assms(1) unfolding tk stands_def by blast
    then obtain r' where "parse_physical addr_of frag r = (kEof, frag, r')" "same_reports r r'"
      using parse_cut [OF b assms(2) True] cut by force
    then show ?thesis using cut buf by (subst ReadPhysicalRecord.simps) simp
  qed
qed

text \<open>The same with the trailer of the previous block in front of it.\<close>

lemma read_padded:
  assumes "stands off (take m (pad off @ phys t d @ tl0)) r f" "start off + kHeaderSize + length d \<le> kBlockSize"
    "t \<noteq> kZeroType" "plain_reader r"
  shows "if length (pad off @ phys t d) \<le> m
    then \<exists>r' f'. ReadPhysicalRecord (src_file read sk) addr_of frag r f = Some (word_of_nat (RecordType_value t), d, r', f')
      \<and> stands (start off + kHeaderSize + length d) (take (m - length (pad off @ phys t d)) tl0) r' f' \<and> same_reports r r'
    else \<exists>r' f'. ReadPhysicalRecord (src_file read sk) addr_of frag r f = Some (kEof, frag, r', f') \<and> same_reports r r'"
proof (cases "kBlockSize - off < kHeaderSize")
  case False
  then show ?thesis using read_phys [of off m t d tl0 r f sk addr_of frag] assms by (auto simp: pad_def start_def)
next
  case pad: True
  let ?k = "kBlockSize - off"
  have len: "length (pad off) = ?k" "start off = 0" using pad by (simp_all add: pad_def start_def)
  show ?thesis
  proof (cases "?k \<le> m")
    case True
    let ?rest = "take m (pad off @ phys t d @ tl0)"
    have rest: "drop ?k ?rest = take (m - ?k) (phys t d @ tl0)" using True len by (simp add: drop_take)
    obtain r1 f1 where 1: "ReadPhysicalRecord (src_file read sk) addr_of frag r f = ReadPhysicalRecord (src_file read sk) addr_of frag r1 f1"
        "stands 0 (take (m - ?k) (phys t d @ tl0)) r1 f1" "same_reports r r1"
      using stands_next_block [OF assms(1) pad, of sk addr_of frag] True len unfolding rest by auto
    have "plain_reader r1" using 1(3) assms(4) by (simp add: same_reports_def)
    then show ?thesis
      using read_phys [OF 1(2) _ assms(3), of sk addr_of frag] assms(2) True len 1 same_reports_trans
      by (fastforce simp: le_diff_conv2 add.commute split: if_splits)
  next
    case cut: False
    then have "length (take m (pad off @ phys t d @ tl0)) < ?k" by simp
    then show ?thesis
      using stands_eof [OF assms(1), of sk addr_of frag] pad cut len by auto
  qed
qed

end

section \<open>Logical records\<close>

lemma type_values [simp]:
  "(word_of_nat (RecordType_value t) = (word_of_nat (RecordType_value t') :: u32)) = (t = t')"
  by (cases t; cases t'; simp)

lemma resync_plain [simp]: "plain_reader r \<Longrightarrow> resync_skips type r = (False, r)"
  by (simp add: resync_skips_def plain_reader_def)

definition reading :: "bool \<Rightarrow> slice \<Rightarrow> read_state \<Rightarrow> bool" where
  "reading b sofar st \<longleftrightarrow> in_fragmented_record st = (\<not> b) \<and> scratch st = sofar \<and> (b \<longrightarrow> sofar = [])"

lemma read_switch_eof: "read_switch number kEof offset st r = Inr (False, [], r)"
  by (simp add: read_switch_def kEof_def kMaxRecordType_def Let_def)

lemma read_switch_record:
  assumes "reading b sofar st"
  shows "if lst
    then \<exists>r'. read_switch number (word_of_nat (RecordType_value (record_type b lst))) offset (st\<lparr>fragment := d\<rparr>) r = Inr (True, sofar @ d, r')
      \<and> same_reports r r' \<and> (\<forall>off rest. in_block off rest r' = in_block off rest r)
    else \<exists>st'. read_switch number (word_of_nat (RecordType_value (record_type b lst))) offset (st\<lparr>fragment := d\<rparr>) r = Inl (st', r)
      \<and> reading False (sofar @ d) st'"
  using assms unfolding read_switch_def type_values
  by (auto simp: record_type_def reading_def Let_def same_reports_def plain_reader_def in_block_def)

context sequential_file
begin

lemma read_record:
  assumes "stands off (take m (record_bytes off b d @ tl0)) r f" "plain_reader r" "reading b sofar st"
  shows "if length (record_bytes off b d) \<le> m
    then \<exists>r' f'. ReadRecord_loop (src_file read sk) addr_of number st r f = Some (True, sofar @ d, r', f')
      \<and> stands (record_end off d) (take (m - length (record_bytes off b d)) tl0) r' f' \<and> same_reports r r'
    else \<exists>r' f'. ReadRecord_loop (src_file read sk) addr_of number st r f = Some (False, [], r', f') \<and> same_reports r r'"
  using assms
proof (induction off b d arbitrary: m r f st sofar rule: record_bytes.induct)
  case (1 off b d)
  define n where "n = frag_len off d"
  define t where "t = record_type b (length d = n)"
  define p where "p = pad off @ phys t (take n d)"
  define tl1 where "tl1 = (if n < length d then record_bytes (start off + kHeaderSize + n) False (drop n d) else []) @ tl0"
  have n: "n \<le> length d" by (simp add: n_def frag_len_def)
  have bytes: "record_bytes off b d = p @ (if n < length d then record_bytes (start off + kHeaderSize + n) False (drop n d) else [])"
    by (subst record_bytes.simps) (simp add: Let_def n_def t_def p_def)
  have st1: "stands off (take m (pad off @ phys t (take n d) @ tl1)) r f"
    using "1.prems"(1) unfolding bytes by (simp add: p_def tl1_def split: if_splits)
  have t: "t \<noteq> kZeroType" by (simp add: t_def record_type_def)
  have room: "start off + kHeaderSize + length (take n d) \<le> kBlockSize" using frag_room [of off d] n by (simp add: n_def)
  note phys = read_padded [OF st1 room t "1.prems"(2), of sk addr_of "fragment st", folded p_def]
  note loop = ReadRecord_loop.simps [of "src_file read sk" addr_of number st r f]
  show ?case
  proof (cases "length p \<le> m")
    case False
    then obtain r' f' where "ReadPhysicalRecord (src_file read sk) addr_of (fragment st) r f = Some (kEof, fragment st, r', f')" "same_reports r r'"
      using phys by auto
    then show ?thesis
      using False "1.prems"(2) by (auto simp: loop bytes same_reports_def read_switch_eof)
  next
    case True
    then obtain r1 f1 where r1: "ReadPhysicalRecord (src_file read sk) addr_of (fragment st) r f = Some (word_of_nat (RecordType_value t), take n d, r1, f1)"
        "stands (start off + kHeaderSize + n) (take (m - length p) tl1) r1 f1" "same_reports r r1"
      using phys n by auto
    have plain: "plain_reader r1" using r1(3) "1.prems"(2) by (simp add: same_reports_def)
    define offset where "offset = end_of_buffer_offset r1 - buffer_size r1 - word_of_nat kHeaderSize - word_of_nat (length (take n d))"
    let ?sw = "read_switch number (word_of_nat (RecordType_value t)) offset (st\<lparr>fragment := take n d\<rparr>) r1"
    have step: "ReadRecord_loop (src_file read sk) addr_of number st r f
        = (case ?sw of Inl (st, r) \<Rightarrow> ReadRecord_loop (src_file read sk) addr_of number st r f1
                     | Inr (ok, record, r) \<Rightarrow> Some (ok, record, r, f1))"
      unfolding loop r1(1) by (simp add: plain offset_def Let_def)
    note switch = read_switch_record [OF "1.prems"(3), of "length d = n" number offset "take n d" r1, folded t_def]
    show ?thesis
    proof (cases "n < length d")
      case True
      then obtain st2 where st2: "?sw = Inl (st2, r1)" "reading False (sofar @ take n d) st2" using switch by auto
      let ?rb = "record_bytes (start off + kHeaderSize + n) False (drop n d)"
      have "stands (start off + kHeaderSize + n) (take (m - length p) (?rb @ tl0)) r1 f1" using r1(2) True by (simp add: tl1_def)
      from "1.IH" [OF n_def refl True this plain st2(2)]
      have "if length ?rb \<le> m - length p
        then \<exists>r' f'. ReadRecord_loop (src_file read sk) addr_of number st2 r1 f1 = Some (True, (sofar @ take n d) @ drop n d, r', f')
          \<and> stands (record_end (start off + kHeaderSize + n) (drop n d)) (take (m - length p - length ?rb) tl0) r' f' \<and> same_reports r1 r'
        else \<exists>r' f'. ReadRecord_loop (src_file read sk) addr_of number st2 r1 f1 = Some (False, [], r', f') \<and> same_reports r1 r'" .
      moreover have "record_end off d = record_end (start off + kHeaderSize + n) (drop n d)"
        using True by (subst record_end.simps) (simp add: n_def Let_def)
      moreover have "length (record_bytes off b d) \<le> m \<longleftrightarrow> length ?rb \<le> m - length p"
        using True \<open>length p \<le> m\<close> by (auto simp: bytes)
      moreover have "m - length (record_bytes off b d) = m - length p - length ?rb" using True by (simp add: bytes)
      ultimately show ?thesis
        unfolding step st2(1) using same_reports_trans [OF r1(3)] by (simp split: if_splits) blast+
    next
      case False
      then obtain r2 where r2: "?sw = Inr (True, sofar @ d, r2)" "same_reports r1 r2" "\<And>off rest. in_block off rest r2 = in_block off rest r1"
        using switch n by auto
      have "stands (record_end off d) (take (m - length p) tl0) r2 f1"
        using r1(2) r2(3) False by (subst record_end.simps) (simp add: stands_def tl1_def n_def [symmetric] Let_def)
      then show ?thesis
        unfolding step r2(1) using False \<open>length p \<le> m\<close> same_reports_trans [OF r1(3) r2(2)] by (simp add: bytes)
    qed
  qed
qed

end

end
