(* ===== verification/Ldb_Log_Props.thy ===== *)
theory Ldb_Log_Props
  imports Ldb_Log_Spec
begin

text \<open>
  The log as its clients use it: adding a list of records to a fresh file (as \<^verbatim>\<open>DBImpl::Write\<close> does one at
  a time) and reading records until \<^verbatim>\<open>ReadRecord\<close> says no (the loop of \<^verbatim>\<open>DBImpl::RecoverLogFile\<close> and
  \<^verbatim>\<open>VersionSet::Recover\<close>). The properties put the writer, the reader and the posix files together.
\<close>

section \<open>Sessions\<close>

fun add_all :: "'f WritableFile \<Rightarrow> (slice \<Rightarrow> nat) \<Rightarrow> slice list \<Rightarrow> Writer \<Rightarrow> 'f \<Rightarrow> (Status \<times> Writer \<times> 'f) option" where
  "add_all dest addr_of [] w f = Some (OK, w, f)"
| "add_all dest addr_of (d # ds) w f =
     (case AddRecord dest addr_of d w f of
        None \<Rightarrow> None
      | Some (s, w, f) \<Rightarrow> if Status_ok s then add_all dest addr_of ds w f else Some (s, w, f))"

partial_function (option) read_all ::
    "'f SequentialFile \<Rightarrow> (slice \<Rightarrow> nat) \<Rightarrow> (u32 \<Rightarrow> string) \<Rightarrow> slice list \<Rightarrow> Reader \<Rightarrow> 'f \<Rightarrow> (slice list \<times> Reader \<times> 'f) option" where
  "read_all src addr_of number acc r f =
     (case ReadRecord src addr_of number [] r f of
        None \<Rightarrow> None
      | Some (ok, record, r, f) \<Rightarrow>
          if ok then read_all src addr_of number (acc @ [record]) r f else Some (acc, r, f))"

section \<open>Writing\<close>

context writable_file
begin

lemma add_all_OK:
  assumes "add_all (dest_file append flush) addr_of ds w f = Some (OK, w', f')"
    "type_crc w = InitTypeCrc addr_of" "flushed f"
  shows "contents f' = contents f @ log_bytes (block_offset w) ds"
  using assms
proof (induction ds arbitrary: w f)
  case (Cons d ds)
  obtain w1 f1 where 1: "AddRecord_loop (dest_file append flush) addr_of True d w f = Some (OK, w1, f1)"
      "add_all (dest_file append flush) addr_of ds w1 f1 = Some (OK, w', f')"
    using Cons.prems(1) by (auto simp: AddRecord_def Status_ok_def split: option.splits if_splits)
  then show ?case
    using AddRecord_loop_OK [OF 1(1) refl Cons.prems(2,3)] Cons.IH [OF 1(2)] Cons.prems(2) by simp
qed simp

end

context reliable_file
begin

lemma Emit_succeeds:
  assumes "reliable f"
  shows "\<exists>f'. EmitPhysicalRecord (dest_file append flush) addr_of t d w f
      = Some (OK, w\<lparr>block_offset := block_offset w + kHeaderSize + length d\<rparr>, f') \<and> reliable f'"
proof -
  obtain f1 where 1: "append (physical_header addr_of w t d) f = Some (OK, f1)" "reliable f1" using append_succeeds [OF assms] by blast
  obtain f2 where 2: "append d f1 = Some (OK, f2)" "reliable f2" using append_succeeds [OF 1(2)] by blast
  obtain f3 where 3: "flush f2 = Some (OK, f3)" "reliable f3" using flush_succeeds [OF 2(2)] by blast
  show ?thesis using 1 2 3 by (simp add: EmitPhysicalRecord_def dest_file_def)
qed

lemma switch_block_succeeds:
  assumes "reliable f"
  shows "\<exists>f'. switch_block (dest_file append flush) w f = Some (w\<lparr>block_offset := start (block_offset w)\<rparr>, f') \<and> reliable f'"
proof -
  obtain f1 where "append (replicate (kBlockSize - block_offset w) 0) f = Some (OK, f1)" "reliable f1"
    using append_succeeds [OF assms] by blast
  then show ?thesis using assms by (auto simp: switch_block_def dest_file_def start_def Let_def)
qed

lemma AddRecord_loop_succeeds:
  assumes "reliable f" "block_offset w = off"
  shows "\<exists>w' f'. AddRecord_loop (dest_file append flush) addr_of b d w f = Some (OK, w', f') \<and> reliable f'"
  using assms
proof (induction off b d arbitrary: w f rule: record_bytes.induct)
  case (1 off b d)
  define n where "n = frag_len off d"
  obtain f1 where f1: "switch_block (dest_file append flush) w f = Some (w\<lparr>block_offset := start off\<rparr>, f1)" "reliable f1"
    using switch_block_succeeds [OF "1.prems"(1), of w] "1.prems"(2) by auto
  let ?t = "record_type b (length d = n)"
  obtain f2 where f2: "EmitPhysicalRecord (dest_file append flush) addr_of ?t (take n d) (w\<lparr>block_offset := start off\<rparr>) f1
      = Some (OK, w\<lparr>block_offset := start off + kHeaderSize + n\<rparr>, f2)" "reliable f2"
    using Emit_succeeds [OF f1(2), of addr_of ?t "take n d" "w\<lparr>block_offset := start off\<rparr>"]
    by (auto simp: n_def frag_len_def min.absorb2)
  have frag: "(if length d < kBlockSize - start off - kHeaderSize then length d else kBlockSize - start off - kHeaderSize) = n"
    by (simp add: n_def frag_len_def)
  have bo: "block_offset (w\<lparr>block_offset := start off\<rparr>) = start off" by simp
  have "AddRecord_loop (dest_file append flush) addr_of b d w f =
      (if length d - n > 0 then AddRecord_loop (dest_file append flush) addr_of False (drop n d) (w\<lparr>block_offset := start off + kHeaderSize + n\<rparr>) f2
       else Some (OK, w\<lparr>block_offset := start off + kHeaderSize + n\<rparr>, f2))"
    unfolding AddRecord_loop.simps [of "dest_file append flush" addr_of b d w f] f1(1)
    by (simp only: option.case prod.case Let_def bo frag f2(1)) simp
  then show ?case using "1.IH" [OF n_def refl _ f2(2)] f2(2) by auto
qed

lemma add_all_succeeds:
  "reliable f \<Longrightarrow> \<exists>w' f'. add_all (dest_file append flush) addr_of ds w f = Some (OK, w', f')"
proof (induction ds arbitrary: w f)
  case (Cons d ds)
  obtain w1 f1 where "AddRecord_loop (dest_file append flush) addr_of True d w f = Some (OK, w1, f1)" "reliable f1"
    using AddRecord_loop_succeeds [OF Cons.prems refl] by blast
  then show ?case using Cons.IH [of f1 w1] by (simp add: AddRecord_def)
qed simp

end

section \<open>Reading\<close>

lemma ReadRecord_plain:
  "plain_reader r \<Longrightarrow> ReadRecord src addr_of number rec r f = ReadRecord_loop src addr_of number
     \<lparr>in_fragmented_record = False, scratch = [], prospective_record_offset = 0, fragment = []\<rparr> r f"
  by (simp add: ReadRecord_def plain_reader_def)

lemma log_bytes_append: "\<exists>tl0. log_bytes off (xs @ ys) = log_bytes off xs @ tl0"
  by (induction xs arbitrary: off) auto

context sequential_file
begin

lemma read_all_end:
  assumes "stands off [] r f" "plain_reader r"
  shows "\<exists>r' f'. read_all (src_file read sk) addr_of number acc r f = Some (acc, r', f') \<and> same_reports r r'"
proof -
  obtain r' f' where 1: "ReadPhysicalRecord (src_file read sk) addr_of [] r f = Some (kEof, [], r', f')" "same_reports r r'"
    using stands_end [OF assms(1)] by blast
  have "plain_reader r'" using 1(2) assms(2) by (simp add: same_reports_def)
  then show ?thesis
    using 1 assms(2) by (subst read_all.simps) (simp add: ReadRecord_plain ReadRecord_loop.simps read_switch_eof Let_def)
qed

lemma read_all_log:
  assumes "stands off (take m (log_bytes off ds)) r f" "plain_reader r"
  shows "\<exists>recs r' f'. read_all (src_file read sk) addr_of number acc r f = Some (acc @ recs, r', f')
    \<and> same_reports r r' \<and> prefix recs ds \<and> (\<forall>xs. prefix xs ds \<and> length (log_bytes off xs) \<le> m \<longrightarrow> prefix xs recs)"
  using assms
proof (induction ds arbitrary: off m r f acc)
  case Nil
  then show ?case using read_all_end [of off r f sk addr_of number acc] by force
next
  case (Cons d ds)
  let ?st = "\<lparr>in_fragmented_record = False, scratch = [], prospective_record_offset = 0, fragment = []\<rparr>"
  let ?b = "record_bytes off True d"
  have st: "stands off (take m (?b @ log_bytes (record_end off d) ds)) r f" using Cons.prems(1) by simp
  note rec = read_record [OF st Cons.prems(2), of "[]" ?st sk addr_of number]
  have reading: "reading True [] ?st" by (simp add: reading_def)
  note all = read_all.simps [of "src_file read sk" addr_of number acc r f] ReadRecord_plain [OF Cons.prems(2)]
  show ?case
  proof (cases "length ?b \<le> m")
    case True
    then obtain r1 f1 where 1: "ReadRecord_loop (src_file read sk) addr_of number ?st r f = Some (True, d, r1, f1)"
        "stands (record_end off d) (take (m - length ?b) (log_bytes (record_end off d) ds)) r1 f1" "same_reports r r1"
      using rec reading by auto
    have "plain_reader r1" using 1(3) Cons.prems(2) by (simp add: same_reports_def)
    from Cons.IH [OF 1(2) this, of "acc @ [d]"] obtain recs r' f' where 2:
      "read_all (src_file read sk) addr_of number (acc @ [d]) r1 f1 = Some ((acc @ [d]) @ recs, r', f')" "same_reports r1 r'"
      "prefix recs ds" "\<And>xs. prefix xs ds \<Longrightarrow> length (log_bytes (record_end off d) xs) \<le> m - length ?b \<Longrightarrow> prefix xs recs"
      by blast
    have "prefix xs (d # recs)" if "prefix xs (d # ds)" "length (log_bytes off xs) \<le> m" for xs
      using that 2(4) by (cases xs) auto
    then show ?thesis
      using 1(1) 2 same_reports_trans [OF 1(3) 2(2)] by (intro exI [of _ "d # recs"]) (simp add: all)
  next
    case False
    then obtain r1 f1 where 1: "ReadRecord_loop (src_file read sk) addr_of number ?st r f = Some (False, [], r1, f1)" "same_reports r r1"
      using rec reading by auto
    have "xs = []" if "prefix xs (d # ds)" "length (log_bytes off xs) \<le> m" for xs
      using that False by (cases xs) auto
    then show ?thesis using 1 by (intro exI [of _ "[]"]) (auto simp: all)
  qed
qed

end

section \<open>Properties\<close>

abbreviation posix_dest :: "posix \<Rightarrow> PosixWritableFile WritableFile" where
  "posix_dest os \<equiv> dest_file (PosixWritableFile_Append os) (PosixWritableFile_Flush os)"

abbreviation posix_src :: "posix \<Rightarrow> PosixSequentialFile SequentialFile" where
  "posix_src os \<equiv> src_file (PosixSequentialFile_Read os) (PosixSequentialFile_Skip os)"

lemma stands_init:
  "calm os \<Longrightarrow> k_pos k = 0 \<Longrightarrow>
    posix_in.stands os kBlockSize (k_bytes k) (Reader_init reporter checksum 0) \<lparr>ps_filename = name, ps_kernel = k\<rparr>"
  unfolding posix_in.stands_def by (simp add: in_block_def Reader_init_def posix_unread_def)

text \<open>The writer's first block starts at offset 0, which the reader sees as the end of an empty one.\<close>

lemma record_bytes_first: "record_bytes kBlockSize b d = record_bytes 0 b d" "record_end kBlockSize d = record_end 0 d"
proof -
  have "start kBlockSize = start 0" "pad kBlockSize = pad 0" by (simp_all add: start_def pad_def block_consts)
  then have "frag_len kBlockSize d = frag_len 0 d" by (simp add: frag_len_def)
  then show "record_bytes kBlockSize b d = record_bytes 0 b d" "record_end kBlockSize d = record_end 0 d"
    using \<open>start kBlockSize = start 0\<close> \<open>pad kBlockSize = pad 0\<close>
    by (simp_all add: record_bytes.simps [of kBlockSize] record_bytes.simps [of 0] record_end.simps [of kBlockSize] record_end.simps [of 0] Let_def)
qed

lemma log_bytes_first: "log_bytes kBlockSize ds = log_bytes 0 ds"
  by (cases ds) (simp_all add: record_bytes_first)

text \<open>
  C21. Records added to a fresh log are read back in order. If the file was cut off anywhere (the
  process died, or the device lost the end), the reader still returns a prefix of the records, which
  has at least the records \<open>xs\<close> whose \<^verbatim>\<open>AddRecord\<close> had completed within the first \<open>m\<close> bytes, and it reports no
  corruption, whatever interruptions the kernel answers the calls of both with.
\<close>

theorem log_survives_truncation:
  assumes "add_all (posix_dest os) addr_of (xs @ ys) (Writer_init addr_of) (PosixWritableFile_init name fd empty_kernel) = Some (OK, w, f)"
    and "add_all (posix_dest os) addr_of xs (Writer_init addr_of) (PosixWritableFile_init name fd empty_kernel) = Some (OK, w1, f1)"
    and "length (posix_contents f1) \<le> m" "k_bytes k = take m (posix_contents f)" "k_pos k = 0" "calm os'"
  shows "\<exists>recs r g. read_all (posix_src os') addr_of' number [] (Reader_init reporter checksum 0) \<lparr>ps_filename = name, ps_kernel = k\<rparr>
       = Some (recs, r, g) \<and> prefix xs recs \<and> prefix recs (xs @ ys) \<and> rd_reports r = []"
proof -
  have contents: "posix_contents f' = log_bytes kBlockSize ds"
    if "add_all (posix_dest os) addr_of ds (Writer_init addr_of) (PosixWritableFile_init name fd empty_kernel) = Some (OK, w', f')" for ds w' f'
    using posix_out.add_all_OK [OF that]
    by (simp add: Writer_init_def PosixWritableFile_init_def posix_contents_def empty_kernel_def log_bytes_first)
  have "posix_in.stands os' kBlockSize (take m (log_bytes kBlockSize (xs @ ys))) (Reader_init reporter checksum 0) \<lparr>ps_filename = name, ps_kernel = k\<rparr>"
    using stands_init [OF assms(6,5)] assms(4) contents [OF assms(1)] by simp
  moreover have "plain_reader (Reader_init reporter checksum 0)" by (simp add: plain_reader_def Reader_init_def)
  ultimately obtain recs r g where r: "read_all (posix_src os') addr_of' number [] (Reader_init reporter checksum 0) \<lparr>ps_filename = name, ps_kernel = k\<rparr>
      = Some (recs, r, g)" "same_reports (Reader_init reporter checksum 0) r" "prefix recs (xs @ ys)"
      "\<And>zs. prefix zs (xs @ ys) \<Longrightarrow> length (log_bytes kBlockSize zs) \<le> m \<Longrightarrow> prefix zs recs"
    using posix_in.read_all_log [of os' kBlockSize m "xs @ ys" "Reader_init reporter checksum 0" _ _ addr_of' number "[]"] by force
  have "prefix xs recs" using r(4) [of xs] assms(3) contents [OF assms(2)] by simp
  then show ?thesis using r by (auto simp: same_reports_def Reader_init_def)
qed

theorem log_survives_truncation_witness:
  "\<exists>w1 f1 w f recs r g.
     add_all (posix_dest stutter) (\<lambda>_. 0) [[1, 2, 3]] (Writer_init (\<lambda>_. 0)) (PosixWritableFile_init ''log'' 3 empty_kernel) = Some (OK, w1, f1)
   \<and> add_all (posix_dest stutter) (\<lambda>_. 0) ([[1, 2, 3]] @ [[4]]) (Writer_init (\<lambda>_. 0)) (PosixWritableFile_init ''log'' 3 empty_kernel) = Some (OK, w, f)
   \<and> read_all (posix_src stutter) (\<lambda>_. 0) (\<lambda>_. ''n'') [] (Reader_init True True 0)
       \<lparr>ps_filename = ''log'', ps_kernel = empty_kernel\<lparr>k_bytes := take (length (posix_contents f1)) (posix_contents f)\<rparr>\<rparr> = Some (recs, r, g)
   \<and> prefix [[1, 2, 3]] recs \<and> prefix recs ([[1, 2, 3]] @ [[4]]) \<and> rd_reports r = []"
proof -
  let ?w = "Writer_init (\<lambda>_. 0)" and ?f = "PosixWritableFile_init ''log'' 3 empty_kernel"
  obtain w1 f1 where 1: "add_all (posix_dest stutter) (\<lambda>_. 0) [[1, 2, 3]] ?w ?f = Some (OK, w1, f1)"
    using posix_reliable.add_all_succeeds [OF calm_stutter] by blast
  obtain w f where 2: "add_all (posix_dest stutter) (\<lambda>_. 0) ([[1, 2, 3]] @ [[4]]) ?w ?f = Some (OK, w, f)"
    using posix_reliable.add_all_succeeds [OF calm_stutter] by blast
  have k: "k_bytes (empty_kernel\<lparr>k_bytes := take (length (posix_contents f1)) (posix_contents f)\<rparr>) = take (length (posix_contents f1)) (posix_contents f)"
    "k_pos (empty_kernel\<lparr>k_bytes := take (length (posix_contents f1)) (posix_contents f)\<rparr>) = 0"
    by (simp_all add: empty_kernel_def)
  show ?thesis
    using 1 2 log_survives_truncation [OF 2 1 order_refl k calm_stutter, of "\<lambda>_. 0" "\<lambda>_. ''n''" True True] by blast
qed

text \<open>
  C22. On a kernel that interrupts calls but does not fail them, writing any list of records succeeds,
  and reading the whole file back gives exactly that list and no report.
\<close>

theorem log_roundtrip:
  assumes "calm os"
  shows "\<exists>w f. add_all (posix_dest os) addr_of recs (Writer_init addr_of) (PosixWritableFile_init name fd empty_kernel) = Some (OK, w, f)
    \<and> (\<exists>r g. read_all (posix_src os) addr_of' number [] (Reader_init reporter checksum 0)
          \<lparr>ps_filename = name, ps_kernel = empty_kernel\<lparr>k_bytes := posix_contents f\<rparr>\<rparr> = Some (recs, r, g) \<and> rd_reports r = [])"
proof -
  obtain w f where f: "add_all (posix_dest os) addr_of recs (Writer_init addr_of) (PosixWritableFile_init name fd empty_kernel) = Some (OK, w, f)"
    using posix_reliable.add_all_succeeds [OF assms] by blast
  let ?k = "empty_kernel\<lparr>k_bytes := posix_contents f\<rparr>"
  have contents: "posix_contents f = log_bytes kBlockSize recs"
    using posix_out.add_all_OK [OF f] by (simp add: Writer_init_def PosixWritableFile_init_def posix_contents_def empty_kernel_def log_bytes_first)
  have "posix_in.stands os kBlockSize (take (length (posix_contents f)) (log_bytes kBlockSize recs)) (Reader_init reporter checksum 0) \<lparr>ps_filename = name, ps_kernel = ?k\<rparr>"
    using stands_init [OF assms, of ?k] contents by (simp add: empty_kernel_def)
  moreover have "plain_reader (Reader_init reporter checksum 0)" by (simp add: plain_reader_def Reader_init_def)
  ultimately obtain recs' r g where r: "read_all (posix_src os) addr_of' number [] (Reader_init reporter checksum 0) \<lparr>ps_filename = name, ps_kernel = ?k\<rparr>
      = Some (recs', r, g)" "same_reports (Reader_init reporter checksum 0) r" "prefix recs' recs"
      "prefix recs recs \<Longrightarrow> length (log_bytes kBlockSize recs) \<le> length (posix_contents f) \<Longrightarrow> prefix recs recs'"
    using posix_in.read_all_log [of os kBlockSize _ recs "Reader_init reporter checksum 0" _ _ addr_of' number "[]"] by force
  then have "recs' = recs" using contents by (simp add: prefix_order.eq_iff)
  then show ?thesis using f r by (auto simp: same_reports_def Reader_init_def)
qed

theorem log_roundtrip_witness:
  "\<exists>w f r g. add_all (posix_dest stutter) (\<lambda>_. 0) [[1, 2, 3], []] (Writer_init (\<lambda>_. 0)) (PosixWritableFile_init ''log'' 3 empty_kernel) = Some (OK, w, f)
    \<and> read_all (posix_src stutter) (\<lambda>_. 0) (\<lambda>_. ''n'') [] (Reader_init True True 0)
          \<lparr>ps_filename = ''log'', ps_kernel = empty_kernel\<lparr>k_bytes := posix_contents f\<rparr>\<rparr> = Some ([[1, 2, 3], []], r, g) \<and> rd_reports r = []"
  using log_roundtrip [OF calm_stutter, of "\<lambda>_. 0" "[[1, 2, 3], []]" "''log''" 3 "\<lambda>_. 0" "\<lambda>_. ''n''" True True] by blast

end
