(* ===== verification/Ldb_Log_Safe.thy ===== *)
theory Ldb_Log_Safe
  imports Ldb_Log_Props
begin

text \<open>
  The log reader on files that are not logs: whatever the bytes, it comes to an end, and with checksums
  on it only returns data that is stored in the file behind a matching checksum.
\<close>

definition stored :: "slice \<Rightarrow> byte list \<Rightarrow> bool" where
  "stored d bs \<longleftrightarrow> (\<exists>before t after. bs = before @ EncodeFixed32 (crc32c_Mask (crc32c_ref 0 (t # d)))
     @ [word_of_nat (length d mod 256), word_of_nat (length d div 256), t] @ d @ after)"

lemma stored_suffix: "stored d bs \<Longrightarrow> stored d (xs @ bs)"
  unfolding stored_def by (metis append.assoc)

lemma stored_prefix: "stored d bs \<Longrightarrow> stored d (bs @ ys)"
  unfolding stored_def by (metis append.assoc)

definition assembled :: "slice \<Rightarrow> byte list \<Rightarrow> bool" where
  "assembled d bs \<longleftrightarrow> (\<exists>ds. d = concat ds \<and> (\<forall>x\<in>set ds. stored x bs))"

lemma assembled_Nil [simp]: "assembled [] bs"
  unfolding assembled_def by (rule exI [of _ "[]"]) simp

lemma assembled_stored: "stored d bs \<Longrightarrow> assembled d bs"
  unfolding assembled_def by (rule exI [of _ "[d]"]) simp

lemma assembled_append: "assembled c bs \<Longrightarrow> assembled d bs \<Longrightarrow> assembled (c @ d) bs"
  unfolding assembled_def by (metis (no_types, opaque_lifting) Un_iff concat_append set_append)

section \<open>Headers\<close>

lemma log_header_length:
  "unat (ucast a OR push_bit 8 (ucast b) :: u32) = unat a + 256 * unat b" for a b :: byte
proof -
  have "(ucast a OR push_bit 8 (ucast b) :: u32) = ucast a + push_bit 8 (ucast b)"
    by (rule disjunctive_add [symmetric]) (auto simp: bit_simps dest: bit_imp_le_length)
  also have "\<dots> = word_of_nat (unat a + 256 * unat b)" by (simp add: push_bit_eq_mult)
  finally show ?thesis
    using unat_lt2p [of a] unat_lt2p [of b] by (simp only: unat_of_nat) (simp add: take_bit_eq_mod)
qed

lemma split_header:
  assumes "7 \<le> length h"
  shows "h = take 4 h @ [h ! 4, h ! 5, h ! 6] @ drop 7 h"
proof -
  have "h = take 4 h @ drop 4 h" by simp
  also have "drop 4 h = h ! 4 # h ! 5 # h ! 6 # drop 7 h"
    using assms by (simp add: Cons_nth_drop_Suc [symmetric] numeral_eq_Suc)
  finally show ?thesis by simp
qed

lemma EncodeFixed32_Decode: "4 \<le> length h \<Longrightarrow> EncodeFixed32 (DecodeFixed32 h) = take 4 h"
proof -
  assume h: "4 \<le> length h"
  have "le_val (take 4 h) < 256 ^ 4" using le_val_bound [of "take 4 h"] h by simp
  then have "unat (DecodeFixed32 h) = le_val (take 4 h)"
    by (simp add: DecodeFixed32_def unat_of_nat take_bit_eq_mod)
  then show ?thesis using le_bytes_le_val [of "take 4 h" 4] h by (simp add: EncodeFixed32_def)
qed

lemma parse_safe:
  assumes "kHeaderSize \<le> length (rd_buffer r)" "parse_physical addr_of frag r = (type, frag', r')"
  shows "(\<exists>n\<ge>kHeaderSize. rd_buffer r' = drop n (rd_buffer r)) \<and> rd_checksum r' = rd_checksum r
    \<and> (type \<noteq> kBadRecord \<and> type \<noteq> kEof \<and> rd_checksum r \<longrightarrow> stored frag' (rd_buffer r))"
proof -
  define len where "len = unat (ucast (rd_buffer r ! 4) OR push_bit 8 (ucast (rd_buffer r ! 5)) :: u32)"
  let ?h = "rd_buffer r"
  define cut where "cut q \<longleftrightarrow> (\<exists>n\<ge>kHeaderSize. q = drop n ?h)" for q
  have cut: "cut []" "cut (drop (kHeaderSize + len) ?h)"
    using assms(1) unfolding cut_def by (intro exI [of _ "length ?h"]; simp) (intro exI [of _ "kHeaderSize + len"]; simp)
  have len: "len = unat (?h ! 4) + 256 * unat (?h ! 5)" unfolding len_def by (rule log_header_length)
  have lo: "word_of_nat (len mod 256) = ?h ! 4" "word_of_nat (len div 256) = ?h ! 5"
    using unat_lt2p [of "?h ! 4"] unfolding len by simp_all
  have ok: "stored (take len (drop kHeaderSize ?h)) ?h"
    if "kHeaderSize + len \<le> length ?h" "crc32c_Value a (take (1 + len) (drop 6 ?h)) = crc32c_Unmask (DecodeFixed32 ?h)" for a
  proof -
    let ?d = "take len (drop kHeaderSize ?h)"
    have l: "length ?d = len" using that(1) by simp
    have "take (1 + len) (drop 6 ?h) = ?h ! 6 # ?d"
      using that(1) by (simp add: block_consts Cons_nth_drop_Suc [symmetric])
    then have "crc32c_Mask (crc32c_ref 0 (?h ! 6 # ?d)) = DecodeFixed32 ?h"
      using that(2) by (simp add: crc32c_Value_def crc32c_Extend_eq crc32c_Mask_Unmask)
    then have "?h = [] @ EncodeFixed32 (crc32c_Mask (crc32c_ref 0 (?h ! 6 # ?d)))
        @ [word_of_nat (length ?d mod 256), word_of_nat (length ?d div 256), ?h ! 6] @ ?d @ drop len (drop 7 ?h)"
      using split_header [of ?h] that(1) EncodeFixed32_Decode [of ?h] unfolding l lo by (simp add: block_consts del: drop_drop)
    then show ?thesis unfolding stored_def by blast
  qed
  show ?thesis
    using assms(2) cut ok unfolding parse_physical_def Let_def len_def [symmetric] cut_def [symmetric]
    by (auto simp: ReportCorruption_def ReportDrop_def remove_prefix_def split: if_splits)
qed

section \<open>The loops\<close>

lemma report_keeps [simp]:
  "rd_buffer (ReportCorruption n m r) = rd_buffer r" "rd_checksum (ReportCorruption n m r) = rd_checksum r"
  by (simp_all add: ReportCorruption_def ReportDrop_def)

lemma resync_keeps:
  "resync_skips type r = (skip, r') \<Longrightarrow> rd_buffer r' = rd_buffer r \<and> rd_checksum r' = rd_checksum r \<and> (skip \<longrightarrow> type \<noteq> kEof)"
  by (auto simp: resync_skips_def kEof_def kMaxRecordType_def split: if_splits)

definition collected :: "bool \<Rightarrow> read_state \<Rightarrow> byte list \<Rightarrow> bool" where
  "collected c st bs \<longleftrightarrow> (c \<and> in_fragmented_record st \<longrightarrow> assembled (scratch st) bs)"

lemma read_switch_safe:
  assumes "c \<and> type \<noteq> kBadRecord \<and> type \<noteq> kEof \<longrightarrow> stored (fragment st) bs" "collected c st bs"
  shows "case read_switch number type offset st r of
      Inl (st', r') \<Rightarrow> type \<noteq> kEof \<and> collected c st' bs \<and> rd_buffer r' = rd_buffer r \<and> rd_checksum r' = rd_checksum r
    | Inr (ok, rec, r') \<Rightarrow> c \<and> ok \<longrightarrow> assembled rec bs"
proof -
  have 1: "c \<Longrightarrow> type \<noteq> kBadRecord \<Longrightarrow> type \<noteq> kEof \<Longrightarrow> assembled (fragment st) bs"
    using assms(1) by (simp add: assembled_stored)
  have 2: "c \<Longrightarrow> in_fragmented_record st \<Longrightarrow> assembled (scratch st) bs" using assms(2) by (simp add: collected_def)
  have 3: "c \<Longrightarrow> in_fragmented_record st \<Longrightarrow> type \<noteq> kBadRecord \<Longrightarrow> type \<noteq> kEof \<Longrightarrow> assembled (scratch st @ fragment st) bs"
    using 1 2 assembled_append by blast
  consider "type = 1" | "type = 2" | "type = 3" | "type = 4" | "type = 5" | "type = 6" | "type \<notin> {1, 2, 3, 4, 5, 6}" by blast
  then show ?thesis
    using 1 2 3
    by cases (simp_all add: read_switch_def Let_def collected_def kEof_def kBadRecord_def kMaxRecordType_def)
qed

context sequential_file
begin

definition todo :: "Reader \<Rightarrow> 'f \<Rightarrow> byte list" where
  "todo r f = rd_buffer r @ unread f"

definition phys_ok :: "Reader \<Rightarrow> 'f \<Rightarrow> (u32 \<times> slice \<times> Reader \<times> 'f) option \<Rightarrow> bool" where
  "phys_ok r f res \<longleftrightarrow> (\<exists>type frag r' f'. res = Some (type, frag, r', f') \<and> good f' \<and> rd_checksum r' = rd_checksum r
     \<and> (type = kEof \<or> length (todo r' f') < length (todo r f) \<and> suffix (todo r' f') (todo r f)
          \<and> (rd_checksum r \<and> type \<noteq> kBadRecord \<longrightarrow> stored frag (todo r f))))"

lemma phys_ok_buffered:
  assumes "good f" "kHeaderSize \<le> length (rd_buffer r) \<or> rd_eof r"
  shows "phys_ok r f (ReadPhysicalRecord (src_file read sk) addr_of frag r f)"
proof (cases "kHeaderSize \<le> length (rd_buffer r)")
  case True
  obtain type frag' r' where p: "parse_physical addr_of frag r = (type, frag', r')" by (metis surj_pair)
  obtain n where n: "n \<ge> kHeaderSize" "rd_buffer r' = drop n (rd_buffer r)" and c: "rd_checksum r' = rd_checksum r"
    and st: "type \<noteq> kBadRecord \<and> type \<noteq> kEof \<and> rd_checksum r \<longrightarrow> stored frag' (rd_buffer r)"
    using parse_safe [OF True p] by blast
  have "length (todo r' f) < length (todo r f)" using n True by (simp add: todo_def block_consts)
  moreover have "suffix (todo r' f) (todo r f)" unfolding todo_def n(2) by (simp add: suffix_drop)
  moreover have "ReadPhysicalRecord (src_file read sk) addr_of frag r f = Some (type, frag', r', f)"
    using True p by (subst ReadPhysicalRecord.simps) simp
  ultimately show ?thesis using c st assms(1) stored_prefix unfolding phys_ok_def todo_def by blast
next
  case False
  then show ?thesis using assms by (subst ReadPhysicalRecord.simps) (simp add: phys_ok_def)
qed

lemma phys_ok_later:
  assumes "phys_ok r1 f1 res" "todo r f = xs @ todo r1 f1" "rd_checksum r1 = rd_checksum r"
  shows "phys_ok r f res"
proof -
  obtain type frag r' f' where 1: "res = Some (type, frag, r', f')" "good f'" "rd_checksum r' = rd_checksum r1"
    and 2: "type = kEof \<or> length (todo r' f') < length (todo r1 f1) \<and> suffix (todo r' f') (todo r1 f1)
          \<and> (rd_checksum r1 \<and> type \<noteq> kBadRecord \<longrightarrow> stored frag (todo r1 f1))"
    using assms(1) unfolding phys_ok_def by blast
  have "length (todo r' f') < length (todo r1 f1) \<Longrightarrow> length (todo r' f') < length (todo r f)" using assms(2) by simp
  moreover have "suffix (todo r' f') (todo r1 f1) \<Longrightarrow> suffix (todo r' f') (todo r f)" unfolding assms(2) by (rule suffix_appendI)
  moreover have "stored frag (todo r1 f1) \<Longrightarrow> stored frag (todo r f)" unfolding assms(2) by (rule stored_suffix)
  ultimately show ?thesis using 1 2 assms(3) unfolding phys_ok_def by blast
qed

lemma phys_ok_read:
  assumes "good f"
  shows "phys_ok r f (ReadPhysicalRecord (src_file read sk) addr_of frag r f)"
proof (cases "kHeaderSize \<le> length (rd_buffer r) \<or> rd_eof r")
  case True
  then show ?thesis by (rule phys_ok_buffered [OF assms])
next
  case False
  obtain f1 where f1: "read kBlockSize [] f = Some (OK, take kBlockSize (unread f), f1)" "good f1" "unread f1 = drop kBlockSize (unread f)"
    using read_ok [OF assms] by blast
  let ?buf = "take kBlockSize (unread f)"
  define r0 where "r0 = r\<lparr>rd_buffer := ?buf, end_of_buffer_offset := end_of_buffer_offset r + word_of_nat (length ?buf)\<rparr>"
  define r1 where "r1 = (if length ?buf < kBlockSize then r0\<lparr>rd_eof := True\<rparr> else r0)"
  have "ReadPhysicalRecord (src_file read sk) addr_of frag r f = ReadPhysicalRecord (src_file read sk) addr_of frag r1 f1"
    using f1(1) False unfolding ReadPhysicalRecord.simps [of _ _ _ r] by (simp add: src_file_def r1_def r0_def Let_def del: length_take)
  moreover have "kHeaderSize \<le> length (rd_buffer r1) \<or> rd_eof r1" by (auto simp: r1_def r0_def block_consts)
  then have "phys_ok r1 f1 (ReadPhysicalRecord (src_file read sk) addr_of frag r1 f1)" by (rule phys_ok_buffered [OF f1(2)])
  moreover have "todo r1 f1 = unread f" "rd_checksum r1 = rd_checksum r" using f1(3) by (simp_all add: todo_def r1_def r0_def)
  then have "todo r f = rd_buffer r @ todo r1 f1" "rd_checksum r1 = rd_checksum r" by (simp_all add: todo_def)
  ultimately show ?thesis using phys_ok_later by metis
qed

lemma ReadRecord_loop_safe:
  assumes "good f" "suffix (todo r f) bs" "collected (rd_checksum r) st bs"
  shows "\<exists>ok rec r' f'. ReadRecord_loop (src_file read sk) addr_of number st r f = Some (ok, rec, r', f')
    \<and> (rd_checksum r \<and> ok \<longrightarrow> assembled rec bs)"
  using assms
proof (induction "length (todo r f)" arbitrary: r f st rule: less_induct)
  case less
  have "phys_ok r f (ReadPhysicalRecord (src_file read sk) addr_of (fragment st) r f)" by (rule phys_ok_read [OF less.prems(1)])
  then obtain type frag r1 f1 where 1: "ReadPhysicalRecord (src_file read sk) addr_of (fragment st) r f = Some (type, frag, r1, f1)"
      "good f1" "rd_checksum r1 = rd_checksum r"
    and dec: "type = kEof \<or> length (todo r1 f1) < length (todo r f) \<and> suffix (todo r1 f1) (todo r f)
          \<and> (rd_checksum r \<and> type \<noteq> kBadRecord \<longrightarrow> stored frag (todo r f))"
    unfolding phys_ok_def by blast
  obtain skip r2 where 2: "resync_skips type r1 = (skip, r2)" by (metis surj_pair)
  note k2 = resync_keeps [OF 2]
  define offset where "offset = end_of_buffer_offset r1 - buffer_size r1 - word_of_nat kHeaderSize - word_of_nat (length frag)"
  let ?st = "st\<lparr>fragment := frag\<rparr>"
  have step: "ReadRecord_loop (src_file read sk) addr_of number st r f =
      (if skip then ReadRecord_loop (src_file read sk) addr_of number ?st r2 f1
       else case read_switch number type offset ?st r2 of
              Inl (st, r) \<Rightarrow> ReadRecord_loop (src_file read sk) addr_of number st r f1
            | Inr (ok, record, r) \<Rightarrow> Some (ok, record, r, f1))"
    unfolding ReadRecord_loop.simps [of _ _ _ st] 1(1) by (simp add: 2 offset_def Let_def)
  have again: "\<exists>ok rec r'' f'. ReadRecord_loop (src_file read sk) addr_of number st' r' f1 = Some (ok, rec, r'', f')
      \<and> (rd_checksum r \<and> ok \<longrightarrow> assembled rec bs)"
    if "type \<noteq> kEof" "rd_buffer r' = rd_buffer r1" "rd_checksum r' = rd_checksum r" "collected (rd_checksum r) st' bs" for st' r'
  proof -
    have same: "todo r' f1 = todo r1 f1" using that(2) by (simp add: todo_def)
    then have "suffix (todo r' f1) bs" using dec that(1) less.prems(2) by (metis suffix_order.trans)
    then show ?thesis using less.hyps [of r' f1 st'] dec that 1(2) same by simp
  qed
  have c: "collected (rd_checksum r) ?st bs" using less.prems(3) by (simp add: collected_def)
  have "stored frag bs" if "rd_checksum r" "type \<noteq> kBadRecord" "type \<noteq> kEof"
    using dec that less.prems(2) stored_suffix by (auto simp: suffix_def)
  then have sw: "case read_switch number type offset ?st r2 of
      Inl (st', r') \<Rightarrow> type \<noteq> kEof \<and> collected (rd_checksum r) st' bs \<and> rd_buffer r' = rd_buffer r2 \<and> rd_checksum r' = rd_checksum r2
    | Inr (ok, rec, r') \<Rightarrow> rd_checksum r \<and> ok \<longrightarrow> assembled rec bs"
    by (intro read_switch_safe [OF _ c]) simp
  show ?case
  proof (cases skip)
    case True
    then show ?thesis unfolding step using again [of r2 ?st] k2 1(3) c by simp
  next
    case False
    show ?thesis
    proof (cases "read_switch number type offset ?st r2")
      case (Inl p)
      then show ?thesis unfolding step using False sw k2 1(3) again [of "snd p" "fst p"] by (auto split: prod.splits)
    next
      case (Inr q)
      then show ?thesis unfolding step using False sw by (auto split: prod.splits)
    qed
  qed
qed

end

section \<open>Property\<close>

lemma Skip_keeps:
  "SkipToInitialBlock (posix_src os) r f = (ok, r', f') \<Longrightarrow> rd_buffer r' = rd_buffer r \<and> rd_checksum r' = rd_checksum r
     \<and> k_bytes (ps_kernel f') = k_bytes (ps_kernel f)"
  by (auto simp: SkipToInitialBlock_def src_file_def ReportDrop_def PosixSequentialFile_Skip_def sys_lseek_cur_def Let_def
      split: if_splits prod.splits outcome.splits)

text \<open>
  C23. Whatever bytes a file holds, and from whatever offset it is read, \<^verbatim>\<open>ReadRecord\<close> returns; and with
  checksums on, a record it returns is the concatenation of fragments each of which is stored in the
  file behind a checksum of its type and data: damaged data is never handed out unless the checksum
  of the damaged data matches.
\<close>

theorem log_reader_safe:
  assumes "calm os"
  shows "\<exists>ok rec r g. ReadRecord (posix_src os) addr_of number old (Reader_init reporter checksum initial) \<lparr>ps_filename = name, ps_kernel = k\<rparr>
      = Some (ok, rec, r, g) \<and> (checksum \<and> ok \<longrightarrow> assembled rec (k_bytes k))"
proof -
  let ?r = "Reader_init reporter checksum initial" and ?f = "\<lparr>ps_filename = name, ps_kernel = k\<rparr>"
  obtain ok1 r1 f1 where 1: "(if last_record_offset ?r < initial_offset ?r then SkipToInitialBlock (posix_src os) ?r ?f else (True, ?r, ?f)) = (ok1, r1, f1)"
    by (metis surj_pair)
  then have keeps: "rd_buffer r1 = []" "rd_checksum r1 = checksum" "k_bytes (ps_kernel f1) = k_bytes k"
    using Skip_keeps [of os ?r ?f ok1 r1 f1] by (auto simp: Reader_init_def split: if_splits)
  then have "suffix (posix_in.todo r1 f1) (k_bytes k)" unfolding posix_in.todo_def by (simp add: posix_unread_def suffix_drop)
  then show ?thesis
    using posix_in.ReadRecord_loop_safe [OF assms, of r1 f1 "k_bytes k" _ "PosixSequentialFile_Skip os" addr_of number] keeps(2)
    unfolding ReadRecord_def 1 by (auto simp: collected_def)
qed

theorem log_reader_safe_witness:
  "\<exists>ok rec r g. ReadRecord (posix_src stutter) (\<lambda>_. 0) (\<lambda>_. ''n'') [] (Reader_init True True 0)
      \<lparr>ps_filename = ''log'', ps_kernel = empty_kernel\<lparr>k_bytes := [1, 2, 3, 4, 5, 6, 7, 8]\<rparr>\<rparr> = Some (ok, rec, r, g)
    \<and> (ok \<longrightarrow> assembled rec [1, 2, 3, 4, 5, 6, 7, 8])"
  using log_reader_safe [OF calm_stutter, of "\<lambda>_. 0" "\<lambda>_. ''n''" "[]" True True 0 "''log''" "empty_kernel\<lparr>k_bytes := [1, 2, 3, 4, 5, 6, 7, 8]\<rparr>"]
  by (simp add: empty_kernel_def)

end
