(* ===== verification/Ldb_Cache.thy ===== *)
theory Ldb_Cache
  imports Ldb_Bloom "HOL-Library.Monad_Syntax"
begin

text \<open>
  \<^verbatim>\<open>util/cache.cc\<close>: the least-recently-used cache, its hash table and its shards. Entries live at addresses of a heap, from
  which \<^verbatim>\<open>free\<close> removes them; an access to an address that is not there has no value (\<open>None\<close>). The
  chains of the hash table and the two circular lists, of entries in use and of entries not in use, are
  lists of addresses, the oldest first. \<^verbatim>\<open>malloc\<close> returns an address that was not used before, and calls
  of deleters are recorded. Every operation holds the lock of its shard from start to end.
\<close>

section \<open>Entries\<close>

record 'v LRUHandle =
  lh_value :: 'v
  lh_charge :: u64
  lh_key :: slice
  lh_in_cache :: bool
  lh_refs :: u32
  lh_hash :: u32

type_synonym 'v handles = "nat \<rightharpoonup> 'v LRUHandle"

section \<open>The hash table\<close>

record HandleTable =
  ht_length :: u32
  ht_elems :: u32
  ht_list :: "nat list list"

text \<open>The slot \<^verbatim>\<open>FindPointer\<close> returns, as its place in the chain; the trailing one is behind the last entry.\<close>

fun find_in_chain :: "'v handles \<Rightarrow> slice \<Rightarrow> u32 \<Rightarrow> nat list \<Rightarrow> nat option" where
  "find_in_chain heap key hash [] = Some 0"
| "find_in_chain heap key hash (a # as) =
     do {
       e \<leftarrow> heap a;
       if lh_hash e \<noteq> hash \<or> \<not> Slice_eq key (lh_key e) then map_option Suc (find_in_chain heap key hash as) else Some 0
     }"

definition bucket_of :: "u32 \<Rightarrow> u32 \<Rightarrow> nat" where
  "bucket_of len hash = unat (hash AND (len - 1))"

definition FindPointer :: "'v handles \<Rightarrow> HandleTable \<Rightarrow> slice \<Rightarrow> u32 \<Rightarrow> (nat \<times> nat) option" where
  "FindPointer heap t key hash =
     (let i = bucket_of (ht_length t) hash
      in if i < length (ht_list t) then map_option (Pair i) (find_in_chain heap key hash (ht_list t ! i)) else None)"

definition slot :: "HandleTable \<Rightarrow> nat \<times> nat \<Rightarrow> nat option" where
  "slot t p = (case p of (i, n) \<Rightarrow> if n < length (ht_list t ! i) then Some (ht_list t ! i ! n) else None)"

definition HandleTable_Lookup :: "'v handles \<Rightarrow> HandleTable \<Rightarrow> slice \<Rightarrow> u32 \<Rightarrow> nat option option" where
  "HandleTable_Lookup heap t key hash = map_option (slot t) (FindPointer heap t key hash)"

text \<open>The length doubles in 32 bits, so this does not end if it passes \<open>2 ^ 31\<close>.\<close>

partial_function (option) resize_length :: "u32 \<Rightarrow> u32 \<Rightarrow> u32 option" where
  "resize_length new_length elems = (if new_length < elems then resize_length (new_length * 2) elems else Some new_length)"

fun rehash :: "'v handles \<Rightarrow> u32 \<Rightarrow> nat list \<Rightarrow> nat list list \<Rightarrow> nat list list option" where
  "rehash heap new_length [] new_list = Some new_list"
| "rehash heap new_length (h # hs) new_list =
     do {
       e \<leftarrow> heap h;
       let i = bucket_of new_length (lh_hash e);
       rehash heap new_length hs (new_list[i := h # new_list ! i])
     }"

definition HandleTable_Resize :: "'v handles \<Rightarrow> HandleTable \<Rightarrow> HandleTable option" where
  "HandleTable_Resize heap t =
     do {
       new_length \<leftarrow> resize_length 4 (ht_elems t);
       new_list \<leftarrow> rehash heap new_length (concat (ht_list t)) (replicate (unat new_length) []);
       Some (t\<lparr>ht_list := new_list, ht_length := new_length\<rparr>)
     }"

definition HandleTable_init :: "HandleTable option" where
  "HandleTable_init = HandleTable_Resize (Map.empty :: unit handles) \<lparr>ht_length = 0, ht_elems = 0, ht_list = []\<rparr>"

definition HandleTable_Insert :: "'v handles \<Rightarrow> nat \<Rightarrow> HandleTable \<Rightarrow> (nat option \<times> HandleTable) option" where
  "HandleTable_Insert heap h t =
     do {
       e \<leftarrow> heap h;
       (i, n) \<leftarrow> FindPointer heap t (lh_key e) (lh_hash e);
       let chain = ht_list t ! i;
       case slot t (i, n) of
         Some old \<Rightarrow> Some (Some old, t\<lparr>ht_list := (ht_list t)[i := chain[n := h]]\<rparr>)
       | None \<Rightarrow> do {
           let t = t\<lparr>ht_list := (ht_list t)[i := chain @ [h]], ht_elems := ht_elems t + 1\<rparr>;
           t \<leftarrow> (if ht_elems t > ht_length t then HandleTable_Resize heap t else Some t);
           Some (None, t)
         }
     }"

definition HandleTable_Remove :: "'v handles \<Rightarrow> slice \<Rightarrow> u32 \<Rightarrow> HandleTable \<Rightarrow> (nat option \<times> HandleTable) option" where
  "HandleTable_Remove heap key hash t =
     do {
       (i, n) \<leftarrow> FindPointer heap t key hash;
       let chain = ht_list t ! i;
       Some (case slot t (i, n) of
               Some r \<Rightarrow> (Some r, t\<lparr>ht_list := (ht_list t)[i := take n chain @ drop (n + 1) chain], ht_elems := ht_elems t - 1\<rparr>)
             | None \<Rightarrow> (None, t))
     }"

section \<open>A shard\<close>

record 'v LRUCache =
  lc_capacity :: u64
  lc_usage :: u64
  lc_lru :: "nat list"
  lc_in_use :: "nat list"
  lc_table :: HandleTable
  lc_heap :: "'v handles"
  lc_fresh :: nat
  lc_deleted :: "(slice \<times> 'v) list"

definition LRUCache_init :: "u64 \<Rightarrow> 'v LRUCache option" where
  "LRUCache_init capacity =
     do {
       t \<leftarrow> HandleTable_init;
       Some \<lparr>lc_capacity = capacity, lc_usage = 0, lc_lru = [], lc_in_use = [], lc_table = t, lc_heap = Map.empty, lc_fresh = 0, lc_deleted = []\<rparr>
     }"

text \<open>\<^verbatim>\<open>LRU_Remove\<close> unlinks an entry from the list it is on; it must be on one.\<close>

definition LRU_Remove :: "nat \<Rightarrow> 'v LRUCache \<Rightarrow> 'v LRUCache option" where
  "LRU_Remove e c =
     (if e \<in> set (lc_lru c) \<or> e \<in> set (lc_in_use c)
      then Some (c\<lparr>lc_lru := remove1 e (lc_lru c), lc_in_use := remove1 e (lc_in_use c)\<rparr>) else None)"

definition LRU_Append_in_use :: "nat \<Rightarrow> 'v LRUCache \<Rightarrow> 'v LRUCache" where
  "LRU_Append_in_use e c = c\<lparr>lc_in_use := lc_in_use c @ [e]\<rparr>"

definition LRU_Append_lru :: "nat \<Rightarrow> 'v LRUCache \<Rightarrow> 'v LRUCache" where
  "LRU_Append_lru e c = c\<lparr>lc_lru := lc_lru c @ [e]\<rparr>"

definition set_handle :: "nat \<Rightarrow> 'v LRUHandle \<Rightarrow> 'v LRUCache \<Rightarrow> 'v LRUCache" where
  "set_handle a e c = c\<lparr>lc_heap := (lc_heap c)(a \<mapsto> e)\<rparr>"

definition LRU_Ref :: "nat \<Rightarrow> 'v LRUCache \<Rightarrow> 'v LRUCache option" where
  "LRU_Ref a c =
     do {
       e \<leftarrow> lc_heap c a;
       c \<leftarrow> (if lh_refs e = 1 \<and> lh_in_cache e then do { c \<leftarrow> LRU_Remove a c; Some (LRU_Append_in_use a c) } else Some c);
       Some (set_handle a (e\<lparr>lh_refs := lh_refs e + 1\<rparr>) c)
     }"

definition LRU_Unref :: "nat \<Rightarrow> 'v LRUCache \<Rightarrow> 'v LRUCache option" where
  "LRU_Unref a c =
     do {
       e \<leftarrow> lc_heap c a;
       let e = e\<lparr>lh_refs := lh_refs e - 1\<rparr>;
       let c = set_handle a e c;
       if lh_refs e = 0
       then Some (c\<lparr>lc_deleted := lc_deleted c @ [(lh_key e, lh_value e)], lc_heap := (lc_heap c)(a := None)\<rparr>)
       else if lh_in_cache e \<and> lh_refs e = 1
       then do { c \<leftarrow> LRU_Remove a c; Some (LRU_Append_lru a c) }
       else Some c
     }"

definition FinishErase :: "nat option \<Rightarrow> 'v LRUCache \<Rightarrow> 'v LRUCache option" where
  "FinishErase p c =
     (case p of
        None \<Rightarrow> Some c
      | Some a \<Rightarrow> do {
          c \<leftarrow> LRU_Remove a c;
          e \<leftarrow> lc_heap c a;
          LRU_Unref a (set_handle a (e\<lparr>lh_in_cache := False\<rparr>) (c\<lparr>lc_usage := lc_usage c - lh_charge e\<rparr>))
        })"

definition LRUCache_Lookup :: "slice \<Rightarrow> u32 \<Rightarrow> 'v LRUCache \<Rightarrow> (nat option \<times> 'v LRUCache) option" where
  "LRUCache_Lookup key hash c =
     do {
       p \<leftarrow> HandleTable_Lookup (lc_heap c) (lc_table c) key hash;
       case p of None \<Rightarrow> Some (None, c) | Some a \<Rightarrow> do { c \<leftarrow> LRU_Ref a c; Some (Some a, c) }
     }"

definition LRUCache_Release :: "nat \<Rightarrow> 'v LRUCache \<Rightarrow> 'v LRUCache option" where
  "LRUCache_Release = LRU_Unref"

definition LRUCache_Erase :: "slice \<Rightarrow> u32 \<Rightarrow> 'v LRUCache \<Rightarrow> 'v LRUCache option" where
  "LRUCache_Erase key hash c =
     do {
       (p, t) \<leftarrow> HandleTable_Remove (lc_heap c) key hash (lc_table c);
       FinishErase p (c\<lparr>lc_table := t\<rparr>)
     }"

text \<open>The body of the loops of \<^verbatim>\<open>Insert\<close> and \<^verbatim>\<open>Prune\<close>, on the oldest entry not in use.\<close>

definition evict :: "nat \<Rightarrow> 'v LRUCache \<Rightarrow> 'v LRUCache option" where
  "evict old c = do { e \<leftarrow> lc_heap c old; LRUCache_Erase (lh_key e) (lh_hash e) c }"

partial_function (option) shrink :: "'v LRUCache \<Rightarrow> 'v LRUCache option" where
  "shrink c =
     (case lc_lru c of
        old # _ \<Rightarrow> if lc_usage c > lc_capacity c then Option.bind (evict old c) shrink else Some c
      | [] \<Rightarrow> Some c)"

partial_function (option) LRUCache_Prune :: "'v LRUCache \<Rightarrow> 'v LRUCache option" where
  "LRUCache_Prune c = (case lc_lru c of e # _ \<Rightarrow> Option.bind (evict e c) LRUCache_Prune | [] \<Rightarrow> Some c)"

definition LRUCache_Insert :: "slice \<Rightarrow> u32 \<Rightarrow> 'v \<Rightarrow> u64 \<Rightarrow> 'v LRUCache \<Rightarrow> (nat \<times> 'v LRUCache) option" where
  "LRUCache_Insert key hash v charge c =
     (let a = lc_fresh c;
          e = \<lparr>lh_value = v, lh_charge = charge, lh_key = key, lh_in_cache = False, lh_refs = 1, lh_hash = hash\<rparr>;
          c = c\<lparr>lc_fresh := a + 1\<rparr>
      in do {
        c \<leftarrow> (if lc_capacity c > 0
              then do {
                let c = set_handle a (e\<lparr>lh_refs := 2, lh_in_cache := True\<rparr>) c;
                let c = (LRU_Append_in_use a c)\<lparr>lc_usage := lc_usage c + charge\<rparr>;
                (old, t) \<leftarrow> HandleTable_Insert (lc_heap c) a (lc_table c);
                FinishErase old (c\<lparr>lc_table := t\<rparr>)
              }
              else Some (set_handle a e c));
        c \<leftarrow> shrink c;
        Some (a, c)
      })"

definition LRUCache_TotalCharge :: "'v LRUCache \<Rightarrow> u64" where
  "LRUCache_TotalCharge c = lc_usage c"

section \<open>The sharded cache\<close>

definition kNumShardBits :: nat where
  "kNumShardBits = 4"

definition kNumShards :: nat where
  "kNumShards = 2 ^ kNumShardBits"

record 'v ShardedLRUCache =
  sc_shard :: "'v LRUCache list"
  sc_last_id :: u64

definition HashSlice :: "slice \<Rightarrow> u32" where
  "HashSlice s = Hash s 0"

definition Shard :: "u32 \<Rightarrow> nat" where
  "Shard hash = unat (drop_bit (32 - kNumShardBits) hash)"

text \<open>Addresses of different shards differ: the entry at \<open>a\<close> of shard \<open>s\<close> has the handle \<open>a * kNumShards + s\<close>.\<close>

definition ShardedLRUCache_init :: "u64 \<Rightarrow> 'v ShardedLRUCache option" where
  "ShardedLRUCache_init capacity =
     do {
       shard \<leftarrow> LRUCache_init ((capacity + word_of_nat (kNumShards - 1)) div word_of_nat kNumShards);
       Some \<lparr>sc_shard = replicate kNumShards shard, sc_last_id = 0\<rparr>
     }"

definition Cache_Insert :: "slice \<Rightarrow> 'v \<Rightarrow> u64 \<Rightarrow> 'v ShardedLRUCache \<Rightarrow> (nat \<times> 'v ShardedLRUCache) option" where
  "Cache_Insert key v charge c =
     (let hash = HashSlice key; s = Shard hash
      in do {
        (a, shard) \<leftarrow> LRUCache_Insert key hash v charge (sc_shard c ! s);
        Some (a * kNumShards + s, c\<lparr>sc_shard := (sc_shard c)[s := shard]\<rparr>)
      })"

text \<open>With \<^verbatim>\<open>Value\<close> of the handle that is returned.\<close>

definition Cache_Lookup :: "slice \<Rightarrow> 'v ShardedLRUCache \<Rightarrow> ((nat \<times> 'v) option \<times> 'v ShardedLRUCache) option" where
  "Cache_Lookup key c =
     (let hash = HashSlice key; s = Shard hash
      in do {
        (p, shard) \<leftarrow> LRUCache_Lookup key hash (sc_shard c ! s);
        let c = c\<lparr>sc_shard := (sc_shard c)[s := shard]\<rparr>;
        case p of
          None \<Rightarrow> Some (None, c)
        | Some a \<Rightarrow> do { e \<leftarrow> lc_heap shard a; Some (Some (a * kNumShards + s, lh_value e), c) }
      })"

definition Cache_Release :: "nat \<Rightarrow> 'v ShardedLRUCache \<Rightarrow> 'v ShardedLRUCache option" where
  "Cache_Release handle c =
     do {
       e \<leftarrow> lc_heap (sc_shard c ! (handle mod kNumShards)) (handle div kNumShards);
       let s = Shard (lh_hash e);
       shard \<leftarrow> LRUCache_Release (handle div kNumShards) (sc_shard c ! s);
       Some (c\<lparr>sc_shard := (sc_shard c)[s := shard]\<rparr>)
     }"

definition Cache_Erase :: "slice \<Rightarrow> 'v ShardedLRUCache \<Rightarrow> 'v ShardedLRUCache option" where
  "Cache_Erase key c =
     (let hash = HashSlice key; s = Shard hash
      in do { shard \<leftarrow> LRUCache_Erase key hash (sc_shard c ! s); Some (c\<lparr>sc_shard := (sc_shard c)[s := shard]\<rparr>) })"

definition Cache_NewId :: "'v ShardedLRUCache \<Rightarrow> u64 \<times> 'v ShardedLRUCache" where
  "Cache_NewId c = (sc_last_id c + 1, c\<lparr>sc_last_id := sc_last_id c + 1\<rparr>)"

fun Prune_shards :: "'v LRUCache list \<Rightarrow> 'v LRUCache list option" where
  "Prune_shards [] = Some []"
| "Prune_shards (s # ss) = do { s \<leftarrow> LRUCache_Prune s; ss \<leftarrow> Prune_shards ss; Some (s # ss) }"

definition Cache_Prune :: "'v ShardedLRUCache \<Rightarrow> 'v ShardedLRUCache option" where
  "Cache_Prune c = map_option (\<lambda>ss. c\<lparr>sc_shard := ss\<rparr>) (Prune_shards (sc_shard c))"

definition Cache_TotalCharge :: "'v ShardedLRUCache \<Rightarrow> u64" where
  "Cache_TotalCharge c = (\<Sum>s\<leftarrow>sc_shard c. LRUCache_TotalCharge s)"

end
