(* ===== verification/Ldb_Cache_Inv.thy ===== *)
theory Ldb_Cache_Inv
  imports Ldb_Cache "HOL-Library.Multiset"
begin

text \<open>
  The invariants of the cache: of its hash table, which is the set of the entries that are cached (\<open>ht_ok\<close>),
  and of a shard (\<open>lru_inv\<close>), and that the operations keep them.
\<close>

section \<open>The hash table\<close>

definition id_of :: "'v handles \<Rightarrow> nat \<Rightarrow> (slice \<times> u32) option" where
  "id_of heap a = map_option (\<lambda>e. (lh_key e, lh_hash e)) (heap a)"

definition ht_ok :: "'v handles \<Rightarrow> HandleTable \<Rightarrow> nat set \<Rightarrow> bool" where
  "ht_ok heap t S \<longleftrightarrow>
     finite S \<and> mset (concat (ht_list t)) = mset_set S \<and> ht_elems t = word_of_nat (card S) \<and> card S < 2 ^ 31
     \<and> length (ht_list t) = unat (ht_length t) \<and> 0 < ht_length t
     \<and> (\<forall>i<length (ht_list t). \<forall>a\<in>set (ht_list t ! i). \<exists>k h. id_of heap a = Some (k, h) \<and> bucket_of (ht_length t) h = i)
     \<and> inj_on (id_of heap) S"

lemma ht_ok_cong:
  assumes "ht_ok heap t S" "\<And>a. a \<in> S \<Longrightarrow> id_of heap' a = id_of heap a"
  shows "ht_ok heap' t S"
proof -
  have "set (concat (ht_list t)) = S" using assms(1) unfolding ht_ok_def by (metis finite_set_mset_mset_set set_mset_mset)
  then have "\<forall>i<length (ht_list t). \<forall>a\<in>set (ht_list t ! i). id_of heap' a = id_of heap a"
    using assms(2) by (metis UN_I nth_mem set_concat)
  moreover have "inj_on (id_of heap') S" using assms by (simp add: ht_ok_def inj_on_def)
  ultimately show ?thesis using assms(1) unfolding ht_ok_def by auto
qed

lemma Slice_eq_iff: "Slice_eq a b \<longleftrightarrow> a = b"
proof -
  have "length a = length b \<Longrightarrow> memcmp a b = 0 \<longleftrightarrow> a = b"
    by (induction a b rule: list_induct2) auto
  then show ?thesis by (auto simp: Slice_eq_def)
qed

lemma bucket_of_less: "0 < len \<Longrightarrow> bucket_of len hash < unat len"
proof -
  assume "0 < len"
  then have "0 < unat len" by (simp add: word_less_nat_alt)
  then have "len - 1 < len" by (simp add: word_less_nat_alt unat_sub word_le_nat_alt)
  moreover have "hash AND (len - 1) \<le> len - 1" by (rule word_and_le1)
  ultimately have "hash AND (len - 1) < len" by (rule le_less_trans [rotated])
  then show ?thesis by (simp add: bucket_of_def word_less_nat_alt)
qed

lemma find_in_chain_eq:
  assumes "\<forall>a\<in>set as. id_of heap a \<noteq> None"
  shows "find_in_chain heap key hash as = Some (length (takeWhile (\<lambda>a. id_of heap a \<noteq> Some (key, hash)) as))"
  using assms
proof (induction as)
  case (Cons a as)
  then obtain e where "heap a = Some e" by (auto simp: id_of_def)
  then show ?case using Cons by (simp add: id_of_def Slice_eq_iff)
qed simp

lemma ht_set: "ht_ok heap t S \<Longrightarrow> set (concat (ht_list t)) = S"
  unfolding ht_ok_def by (metis finite_set_mset_mset_set set_mset_mset)

lemma FindPointer_ok:
  fixes hash :: u32
  assumes "ht_ok heap t S"
  defines "i \<equiv> bucket_of (ht_length t) hash"
  shows "i < length (ht_list t)"
    "\<exists>n. FindPointer heap t key hash = Some (i, n) \<and>
      (case slot t (i, n) of
         Some a \<Rightarrow> a \<in> S \<and> id_of heap a = Some (key, hash) \<and> n < length (ht_list t ! i) \<and> ht_list t ! i ! n = a
       | None \<Rightarrow> (\<forall>a\<in>S. id_of heap a \<noteq> Some (key, hash)) \<and> n = length (ht_list t ! i))"
proof -
  show i: "i < length (ht_list t)" using assms(1) bucket_of_less [of "ht_length t" hash] by (simp add: ht_ok_def i_def)
  let ?chain = "ht_list t ! i" let ?n = "length (takeWhile (\<lambda>a. id_of heap a \<noteq> Some (key, hash)) ?chain)"
  have in_heap: "\<forall>a\<in>set ?chain. id_of heap a \<noteq> None" using assms(1) i unfolding ht_ok_def by fastforce
  have f: "FindPointer heap t key hash = Some (i, ?n)"
    using i find_in_chain_eq [OF in_heap, of key hash] by (simp add: FindPointer_def Let_def i_def)
  have sub: "set ?chain \<subseteq> S" using ht_set [OF assms(1)] nth_mem [OF i] by auto
  show "\<exists>n. FindPointer heap t key hash = Some (i, n) \<and>
      (case slot t (i, n) of
         Some a \<Rightarrow> a \<in> S \<and> id_of heap a = Some (key, hash) \<and> n < length ?chain \<and> ?chain ! n = a
       | None \<Rightarrow> (\<forall>a\<in>S. id_of heap a \<noteq> Some (key, hash)) \<and> n = length ?chain)"
  proof (cases "?n < length ?chain")
    case True
    then have "id_of heap (?chain ! ?n) = Some (key, hash)" using nth_length_takeWhile [OF True] by simp
    then show ?thesis using f True sub nth_mem [OF True] by (auto simp: slot_def)
  next
    case False
    have all: "id_of heap a \<noteq> Some (key, hash)" if "a \<in> set ?chain" for a
    proof -
      have all: "takeWhile (\<lambda>a. id_of heap a \<noteq> Some (key, hash)) ?chain = ?chain"
        using False by (subst takeWhile_eq_take) simp
      have "a \<in> set (takeWhile (\<lambda>a. id_of heap a \<noteq> Some (key, hash)) ?chain)" unfolding all by (rule that)
      then show ?thesis by (blast dest: set_takeWhileD)
    qed
    have "id_of heap a \<noteq> Some (key, hash)" if a: "a \<in> S" for a
    proof
      assume id: "id_of heap a = Some (key, hash)"
      obtain j where j: "j < length (ht_list t)" "a \<in> set (ht_list t ! j)"
        using a ht_set [OF assms(1)] by (metis UN_iff in_set_conv_nth set_concat)
      then have "bucket_of (ht_length t) hash = j" using assms(1) id unfolding ht_ok_def by fastforce
      then show False using all j(2) id by (simp add: i_def)
    qed
    moreover have "?n = length ?chain" using False length_takeWhile_le [of _ ?chain] by (metis le_neq_implies_less)
    ultimately show ?thesis using f by (auto simp: slot_def)
  qed
qed

lemma HandleTable_Lookup_ok:
  assumes "ht_ok heap t S"
  shows "\<exists>p. HandleTable_Lookup heap t key hash = Some p
    \<and> (case p of Some a \<Rightarrow> a \<in> S \<and> id_of heap a = Some (key, hash) | None \<Rightarrow> \<forall>a\<in>S. id_of heap a \<noteq> Some (key, hash))"
  using FindPointer_ok(2) [OF assms, of key hash] by (auto simp: HandleTable_Lookup_def split: option.splits)

lemma mset_concat_update:
  assumes "i < length xs"
  shows "mset (concat (xs[i := ys])) + mset (xs ! i) = mset (concat xs) + mset ys"
proof -
  have "mset (concat (take i xs @ ys # drop (Suc i) xs)) + mset (xs ! i) = mset (concat (take i xs @ xs ! i # drop (Suc i) xs)) + mset ys" by simp
  then show ?thesis using upd_conv_take_nth_drop [OF assms] id_take_nth_drop [OF assms] by simp
qed

definition buckets_ok :: "'v handles \<Rightarrow> u32 \<Rightarrow> nat list list \<Rightarrow> bool" where
  "buckets_ok heap len xs \<longleftrightarrow>
     length xs = unat len \<and> 0 < len \<and> (\<forall>i<length xs. \<forall>a\<in>set (xs ! i). \<exists>k h. id_of heap a = Some (k, h) \<and> bucket_of len h = i)"

lemma ht_ok_buckets:
  "ht_ok heap t S \<longleftrightarrow>
     finite S \<and> mset (concat (ht_list t)) = mset_set S \<and> ht_elems t = word_of_nat (card S) \<and> card S < 2 ^ 31
     \<and> buckets_ok heap (ht_length t) (ht_list t) \<and> inj_on (id_of heap) S"
  by (auto simp: ht_ok_def buckets_ok_def)

lemma buckets_ok_update:
  assumes "buckets_ok heap len xs" "\<And>a. a \<in> set ys \<Longrightarrow> a \<in> set (xs ! i) \<or> (\<exists>k h. id_of heap a = Some (k, h) \<and> bucket_of len h = i)"
  shows "buckets_ok heap len (xs[i := ys])"
  unfolding buckets_ok_def
proof (intro conjI allI impI ballI)
  show "length (xs[i := ys]) = unat len" "0 < len" using assms(1) by (simp_all add: buckets_ok_def)
  fix j a
  assume j: "j < length (xs[i := ys])" and a: "a \<in> set (xs[i := ys] ! j)"
  have old: "\<exists>k h. id_of heap a = Some (k, h) \<and> bucket_of len h = j" if "a \<in> set (xs ! j)"
    using assms(1) j that by (simp add: buckets_ok_def)
  show "\<exists>k h. id_of heap a = Some (k, h) \<and> bucket_of len h = j"
  proof (cases "j = i")
    case True
    then have "a \<in> set ys" using a j by simp
    then show ?thesis using assms(2) old True by blast
  next
    case False
    then show ?thesis using a old by simp
  qed
qed

lemma resize_length_ok:
  assumes "0 < n" "unat elems \<le> 2 ^ 31"
  shows "\<exists>m. resize_length n elems = Some m \<and> 0 < m"
  using assms(1)
proof (induction "2 ^ 32 - unat n" arbitrary: n rule: less_induct)
  case less
  show ?case
  proof (cases "n < elems")
    case True
    then have n: "unat n < 2 ^ 31" "0 < unat n" using assms(2) less.prems by (auto simp: word_less_nat_alt)
    then have m: "unat (n * 2) = unat n * 2" by (simp add: unat_word_ariths)
    have "2 ^ 32 - unat (n * 2) < 2 ^ 32 - unat n" using n m by simp
    moreover have "0 < n * 2" using n m by (simp add: word_less_nat_alt)
    ultimately show ?thesis using less.hyps True by (subst resize_length.simps) simp
  next
    case False
    then show ?thesis using less.prems by (subst resize_length.simps) simp
  qed
qed

lemma rehash_ok:
  assumes "\<forall>a\<in>set hs. id_of heap a \<noteq> None" "buckets_ok heap len xs"
  shows "\<exists>ys. rehash heap len hs xs = Some ys \<and> buckets_ok heap len ys \<and> mset (concat ys) = mset hs + mset (concat xs)"
  using assms
proof (induction hs arbitrary: xs)
  case (Cons h hs)
  then obtain e where e: "heap h = Some e" by (auto simp: id_of_def)
  let ?i = "bucket_of len (lh_hash e)" let ?xs = "xs[?i := h # xs ! ?i]"
  have i: "?i < length xs" using Cons.prems(2) bucket_of_less by (simp add: buckets_ok_def)
  have "buckets_ok heap len ?xs" by (rule buckets_ok_update [OF Cons.prems(2)]) (use e in \<open>auto simp: id_of_def\<close>)
  from Cons.IH [OF _ this] Cons.prems(1) obtain ys where
    "rehash heap len hs ?xs = Some ys" "buckets_ok heap len ys" "mset (concat ys) = mset hs + mset (concat ?xs)" by auto
  moreover have "mset (concat ?xs) = add_mset h (mset (concat xs))" using mset_concat_update [OF i, of "h # xs ! ?i"] by simp
  ultimately show ?case by (simp add: e Let_def)
qed simp

lemma HandleTable_Resize_ok:
  assumes "ht_ok heap t S"
  shows "\<exists>t'. HandleTable_Resize heap t = Some t' \<and> ht_ok heap t' S"
proof -
  have "card S < 2 ^ 31" "ht_elems t = word_of_nat (card S)" using assms by (simp_all add: ht_ok_def)
  then have "unat (ht_elems t) \<le> 2 ^ 31" by (simp add: unat_of_nat)
  then obtain m where m: "resize_length 4 (ht_elems t) = Some m" "0 < m" using resize_length_ok [of 4 "ht_elems t"] by auto
  have "\<forall>a\<in>set (concat (ht_list t)). id_of heap a \<noteq> None"
    using assms unfolding ht_ok_def by (metis (no_types, lifting) UN_E in_set_conv_nth option.distinct(1) set_concat)
  moreover have "buckets_ok heap m (replicate (unat m) [])" using m(2) by (simp add: buckets_ok_def)
  ultimately obtain ys where "rehash heap m (concat (ht_list t)) (replicate (unat m) []) = Some ys" "buckets_ok heap m ys"
      "mset (concat ys) = mset (concat (ht_list t)) + mset (concat (replicate (unat m) []))"
    using rehash_ok by blast
  moreover have "concat (replicate n []) = []" for n by (induction n) simp_all
  ultimately show ?thesis using m(1) assms by (auto simp: HandleTable_Resize_def ht_ok_buckets)
qed

lemma HandleTable_init_ok: "\<exists>t. HandleTable_init = Some t \<and> ht_ok heap t {}"
proof -
  have "resize_length 4 0 = Some 4" by (subst resize_length.simps) simp
  then show ?thesis by (simp add: HandleTable_init_def HandleTable_Resize_def ht_ok_def)
qed

lemma HandleTable_Remove_ok:
  assumes "ht_ok heap t S"
  shows "\<exists>p t'. HandleTable_Remove heap key hash t = Some (p, t')
    \<and> (case p of Some a \<Rightarrow> a \<in> S \<and> id_of heap a = Some (key, hash) \<and> ht_ok heap t' (S - {a})
       | None \<Rightarrow> t' = t \<and> (\<forall>a\<in>S. id_of heap a \<noteq> Some (key, hash)))"
proof -
  define i where "i = bucket_of (ht_length t) hash"
  note fp = FindPointer_ok [OF assms, where hash = hash, folded i_def]
  obtain n where n: "FindPointer heap t key hash = Some (i, n)" and
    c: "case slot t (i, n) of
         Some a \<Rightarrow> a \<in> S \<and> id_of heap a = Some (key, hash) \<and> n < length (ht_list t ! i) \<and> ht_list t ! i ! n = a
       | None \<Rightarrow> (\<forall>a\<in>S. id_of heap a \<noteq> Some (key, hash)) \<and> n = length (ht_list t ! i)"
    using fp(2) [of key] by blast
  show ?thesis
  proof (cases "slot t (i, n)")
    case (Some a)
    let ?chain = "ht_list t ! i" let ?new = "take n ?chain @ drop (n + 1) ?chain"
    let ?t = "t\<lparr>ht_list := (ht_list t)[i := ?new], ht_elems := ht_elems t - 1\<rparr>"
    have a: "a \<in> S" "id_of heap a = Some (key, hash)" "n < length ?chain" "?chain ! n = a" using c Some by simp_all
    have "mset ?chain = mset (take n ?chain @ ?chain ! n # drop (Suc n) ?chain)" using id_take_nth_drop [OF a(3)] by simp
    then have "mset ?chain = add_mset a (mset ?new)" using a(4) by simp
    then have "add_mset a (mset (concat ((ht_list t)[i := ?new]))) = mset (concat (ht_list t))"
      using mset_concat_update [OF fp(1), of ?new] by simp
    moreover have "mset_set S = add_mset a (mset_set (S - {a}))" using assms a(1) by (simp add: ht_ok_def mset_set.remove)
    ultimately have ms: "mset (concat ((ht_list t)[i := ?new])) = mset_set (S - {a})" using assms by (simp add: ht_ok_def)
    have sub: "set ?new \<subseteq> set ?chain" using set_take_subset [of n ?chain] set_drop_subset [of "n + 1" ?chain] by auto
    have "buckets_ok heap (ht_length t) ((ht_list t)[i := ?new])"
      by (rule buckets_ok_update) (use assms sub in \<open>auto simp: ht_ok_buckets\<close>)
    moreover have "0 < card S" using assms a(1) by (auto simp: ht_ok_def card_gt_0_iff)
    then have "word_of_nat (card S) - 1 = (word_of_nat (card (S - {a})) :: u32)" using assms a(1) by (simp add: ht_ok_def of_nat_diff)
    moreover have "card (S - {a}) < 2 ^ 31" using assms a(1) card_Diff1_le [of S a] by (auto simp: ht_ok_def)
    ultimately have "ht_ok heap ?t (S - {a})"
      using assms ms by (auto simp: ht_ok_buckets intro: inj_on_diff)
    then show ?thesis using n Some a by (simp add: HandleTable_Remove_def Let_def)
  next
    case None
    then show ?thesis using n c by (simp add: HandleTable_Remove_def Let_def)
  qed
qed

lemma HandleTable_Insert_ok:
  assumes "ht_ok heap t S" "h \<notin> S" "heap h = Some e" "card S + 1 < 2 ^ 31"
  shows "\<exists>p t'. HandleTable_Insert heap h t = Some (p, t')
    \<and> (case p of Some a \<Rightarrow> a \<in> S \<and> id_of heap a = id_of heap h \<and> ht_ok heap t' (insert h (S - {a}))
       | None \<Rightarrow> (\<forall>a\<in>S. id_of heap a \<noteq> id_of heap h) \<and> ht_ok heap t' (insert h S))"
proof -
  define i where "i = bucket_of (ht_length t) (lh_hash e)"
  note fp = FindPointer_ok [OF assms(1), where hash = "lh_hash e", folded i_def]
  have id: "id_of heap h = Some (lh_key e, lh_hash e)" using assms(3) by (simp add: id_of_def)
  obtain n where n: "FindPointer heap t (lh_key e) (lh_hash e) = Some (i, n)" and
    c: "case slot t (i, n) of
         Some a \<Rightarrow> a \<in> S \<and> id_of heap a = id_of heap h \<and> n < length (ht_list t ! i) \<and> ht_list t ! i ! n = a
       | None \<Rightarrow> (\<forall>a\<in>S. id_of heap a \<noteq> id_of heap h) \<and> n = length (ht_list t ! i)"
    using fp(2) [of "lh_key e"] unfolding id by blast
  let ?chain = "ht_list t ! i"
  have fin: "finite S" using assms(1) by (simp add: ht_ok_def)
  show ?thesis
  proof (cases "slot t (i, n)")
    case (Some a)
    let ?new = "?chain[n := h]" let ?t = "t\<lparr>ht_list := (ht_list t)[i := ?new]\<rparr>"
    have a: "a \<in> S" "id_of heap a = id_of heap h" "n < length ?chain" "?chain ! n = a" using c Some by simp_all
    have "mset ?chain = add_mset a (mset (take n ?chain @ drop (Suc n) ?chain))" using id_take_nth_drop [OF a(3)] a(4)
      by (metis mset.simps(2) mset_append union_mset_add_mset_right)
    moreover have "mset ?new = add_mset h (mset (take n ?chain @ drop (Suc n) ?chain))" using upd_conv_take_nth_drop [OF a(3), of h] by simp
    ultimately have "add_mset a (mset (concat ((ht_list t)[i := ?new]))) = add_mset h (mset (concat (ht_list t)))"
      using mset_concat_update [OF fp(1), of ?new] by simp
    moreover have "mset (concat (ht_list t)) = add_mset a (mset_set (S - {a}))" using assms(1) a(1) by (simp add: ht_ok_def mset_set.remove)
    ultimately have "mset (concat ((ht_list t)[i := ?new])) = add_mset h (mset_set (S - {a}))" by simp
    then have ms: "mset (concat ((ht_list t)[i := ?new])) = mset_set (insert h (S - {a}))" using fin assms(2) by simp
    have "buckets_ok heap (ht_length t) ((ht_list t)[i := ?new])"
      by (rule buckets_ok_update) (use assms(1) id set_update_subset_insert [of ?chain n h] in \<open>auto simp: ht_ok_buckets i_def\<close>)
    moreover have "card (insert h (S - {a})) = card S" using fin assms(2) card_Suc_Diff1 [OF fin a(1)] by (simp del: card_Diff_insert)
    moreover have "inj_on (id_of heap) (insert h (S - {a}))"
    proof -
      have inj: "inj_on (id_of heap) S" using assms(1) by (simp add: ht_ok_def)
      have "id_of heap h \<noteq> id_of heap b" if "b \<in> S - {a}" for b
        using inj_onD [OF inj, of a b] a(1,2) that by auto
      then have "id_of heap h \<notin> id_of heap ` (S - {a})" by blast
      then show ?thesis using inj_on_diff [OF inj, of "{a}"] by (auto simp: inj_on_insert)
    qed
    ultimately have "ht_ok heap ?t (insert h (S - {a}))" using assms(1) ms fin by (simp add: ht_ok_buckets)
    then show ?thesis using n Some a assms(3) by (simp add: HandleTable_Insert_def Let_def)
  next
    case None
    let ?t = "t\<lparr>ht_list := (ht_list t)[i := ?chain @ [h]], ht_elems := ht_elems t + 1\<rparr>"
    have "mset (concat ((ht_list t)[i := ?chain @ [h]])) = add_mset h (mset (concat (ht_list t)))"
      using mset_concat_update [OF fp(1), of "?chain @ [h]"] by simp
    then have "mset (concat ((ht_list t)[i := ?chain @ [h]])) = mset_set (insert h S)" using assms(1,2) by (simp add: ht_ok_def)
    moreover have "buckets_ok heap (ht_length t) ((ht_list t)[i := ?chain @ [h]])"
      by (rule buckets_ok_update) (use assms(1) id in \<open>auto simp: ht_ok_buckets i_def\<close>)
    moreover have "inj_on (id_of heap) (insert h S)" using assms(1) c None by (fastforce simp: ht_ok_def)
    ultimately have t: "ht_ok heap ?t (insert h S)" using assms(1,2,4) fin by (simp add: ht_ok_buckets add.commute)
    obtain t' where "(if ht_elems ?t > ht_length ?t then HandleTable_Resize heap ?t else Some ?t) = Some t'" "ht_ok heap t' (insert h S)"
      using HandleTable_Resize_ok [OF t] t by (cases "ht_elems ?t > ht_length ?t") auto
    then show ?thesis using n None c assms(3) by (auto simp: HandleTable_Insert_def Let_def)
  qed
qed

section \<open>The shard\<close>

text \<open>The entries the cache has a reference to, the references of clients, and what can be looked up.\<close>

definition cached :: "'v LRUCache \<Rightarrow> nat set" where
  "cached c = set (lc_lru c) \<union> set (lc_in_use c)"

definition client_refs :: "'v LRUCache \<Rightarrow> nat \<Rightarrow> nat" where
  "client_refs c a = (case lc_heap c a of None \<Rightarrow> 0 | Some e \<Rightarrow> unat (lh_refs e) - (if lh_in_cache e then 1 else 0))"

definition shard_holds :: "'v LRUCache \<Rightarrow> slice \<Rightarrow> 'v \<Rightarrow> bool" where
  "shard_holds c k v \<longleftrightarrow> (\<exists>a\<in>cached c. \<exists>e. lc_heap c a = Some e \<and> lh_key e = k \<and> lh_value e = v)"

definition charge_of :: "'v handles \<Rightarrow> nat \<Rightarrow> u64" where
  "charge_of heap a = (case heap a of None \<Rightarrow> 0 | Some e \<Rightarrow> lh_charge e)"

definition entry_ok :: "'v LRUCache \<Rightarrow> nat \<Rightarrow> 'v LRUHandle \<Rightarrow> bool" where
  "entry_ok c a e \<longleftrightarrow>
     a < lc_fresh c \<and> 0 < lh_refs e \<and> (lh_in_cache e \<longleftrightarrow> a \<in> cached c) \<and> (lh_in_cache e \<longrightarrow> (lh_refs e = 1 \<longleftrightarrow> a \<in> set (lc_lru c)))"

text \<open>\<open>T\<close> is what the hash table holds; between two operations, it is all that is cached.\<close>

definition lru_inv :: "'v LRUCache \<Rightarrow> nat set \<Rightarrow> bool" where
  "lru_inv c T \<longleftrightarrow>
     ht_ok (lc_heap c) (lc_table c) T \<and> T \<subseteq> cached c \<and> cached c \<subseteq> dom (lc_heap c) \<and> distinct (lc_lru c @ lc_in_use c)
     \<and> (\<forall>a e. lc_heap c a = Some e \<longrightarrow> entry_ok c a e) \<and> lc_usage c = (\<Sum>a\<in>cached c. charge_of (lc_heap c) a)"

definition keeps :: "'v LRUCache \<Rightarrow> 'v LRUCache \<Rightarrow> bool" where
  "keeps c c' \<longleftrightarrow>
     lc_capacity c' = lc_capacity c \<and> lc_fresh c' = lc_fresh c \<and> cached c' \<subseteq> cached c
     \<and> (\<forall>a e'. lc_heap c' a = Some e' \<longrightarrow>
          (\<exists>e. lc_heap c a = Some e \<and> lh_key e' = lh_key e \<and> lh_hash e' = lh_hash e \<and> lh_value e' = lh_value e))"

lemma keeps_refl: "keeps c c"
  by (simp add: keeps_def)

lemma keeps_trans:
  assumes "keeps c1 c2" "keeps c2 c3"
  shows "keeps c1 c3"
  unfolding keeps_def
proof (intro conjI allI impI)
  fix a e3
  assume "lc_heap c3 a = Some e3"
  then obtain e2 where e2: "lc_heap c2 a = Some e2" "lh_key e3 = lh_key e2" "lh_hash e3 = lh_hash e2" "lh_value e3 = lh_value e2"
    using assms(2) unfolding keeps_def by blast
  obtain e1 where "lc_heap c1 a = Some e1" "lh_key e2 = lh_key e1" "lh_hash e2 = lh_hash e1" "lh_value e2 = lh_value e1"
    using assms(1) e2(1) unfolding keeps_def by blast
  with e2 show "\<exists>e. lc_heap c1 a = Some e \<and> lh_key e3 = lh_key e \<and> lh_hash e3 = lh_hash e \<and> lh_value e3 = lh_value e" by simp
qed (use assms in \<open>auto simp: keeps_def\<close>)

lemma keeps_holds: "keeps c c' \<Longrightarrow> shard_holds c' k v \<Longrightarrow> shard_holds c k v"
  unfolding keeps_def shard_holds_def by (metis subsetD)

lemma word_minus_1: "0 < (w :: u32) \<Longrightarrow> unat (w - 1) = unat w - 1"
  by (simp add: unat_sub word_le_nat_alt word_less_nat_alt)

lemma LRU_Remove_cached:
  assumes "distinct (lc_lru c @ lc_in_use c)" "a \<in> cached c"
  shows "\<exists>c'. LRU_Remove a c = Some c' \<and> c' = c\<lparr>lc_lru := remove1 a (lc_lru c), lc_in_use := remove1 a (lc_in_use c)\<rparr>
    \<and> cached c' = cached c - {a} \<and> distinct (lc_lru c' @ lc_in_use c')"
  using assms by (auto simp: LRU_Remove_def cached_def distinct_remove1)

text \<open>A reference of a client is given up.\<close>

lemma LRU_Unref_ok:
  assumes inv: "lru_inv c T" and e: "lc_heap c a = Some e" and client: "lh_in_cache e \<Longrightarrow> 1 < lh_refs e"
  shows "\<exists>c'. LRU_Unref a c = Some c' \<and> lru_inv c' T \<and> keeps c c' \<and> cached c' = cached c
    \<and> client_refs c' = (client_refs c)(a := client_refs c a - 1)
    \<and> (\<not> lh_in_cache e \<longrightarrow> lc_lru c' = lc_lru c \<and> lc_in_use c' = lc_in_use c)"
proof -
  let ?e = "e\<lparr>lh_refs := lh_refs e - 1\<rparr>" let ?c = "set_handle a ?e c"
  have ok: "entry_ok c a e" using inv e by (simp add: lru_inv_def)
  then have pos: "0 < lh_refs e" by (simp add: entry_ok_def)
  have inv': "ht_ok (lc_heap c) (lc_table c) T" "T \<subseteq> cached c" "cached c \<subseteq> dom (lc_heap c)" "distinct (lc_lru c @ lc_in_use c)"
    "\<And>b d. lc_heap c b = Some d \<Longrightarrow> entry_ok c b d" "lc_usage c = (\<Sum>a\<in>cached c. charge_of (lc_heap c) a)"
    using inv by (simp_all add: lru_inv_def)
  consider (free) "lh_refs e = 1" | (idle) "lh_in_cache e" "lh_refs e = 2" | (used) "lh_refs e \<noteq> 1" "lh_in_cache e \<longrightarrow> lh_refs e \<noteq> 2" by blast
  then show ?thesis
  proof cases
    case free
    then have nc: "\<not> lh_in_cache e" "a \<notin> cached c" using client ok by (auto simp: entry_ok_def)
    let ?c' = "?c\<lparr>lc_deleted := lc_deleted c @ [(lh_key e, lh_value e)], lc_heap := (lc_heap c)(a := None)\<rparr>"
    have r: "LRU_Unref a c = Some ?c'" using e free by (simp add: LRU_Unref_def set_handle_def Let_def)
    have cc: "cached ?c' = cached c" by (simp add: cached_def set_handle_def)
    have sum: "(\<Sum>b\<in>cached c. charge_of ((lc_heap c)(a := None)) b) = (\<Sum>b\<in>cached c. charge_of (lc_heap c) b)"
      using nc(2) by (intro sum.cong) (auto simp: charge_of_def)
    have "ht_ok ((lc_heap c)(a := None)) (lc_table c) T"
      by (rule ht_ok_cong [OF inv'(1)]) (use inv'(2) nc(2) in \<open>auto simp: id_of_def\<close>)
    then have "lru_inv ?c' T"
      using inv' sum nc(2) unfolding lru_inv_def cc by (auto simp: set_handle_def entry_ok_def cached_def)
    moreover have "client_refs ?c' = (client_refs c)(a := client_refs c a - 1)"
      using e free nc(1) by (auto simp: client_refs_def set_handle_def)
    ultimately show ?thesis using r cc nc by (auto simp: keeps_def set_handle_def)
  next
    case idle
    then have a: "a \<in> cached c" "a \<notin> set (lc_lru c)" using ok by (auto simp: entry_ok_def)
    then have u: "a \<in> set (lc_in_use c)" by (simp add: cached_def)
    let ?c' = "?c\<lparr>lc_lru := lc_lru c @ [a], lc_in_use := remove1 a (lc_in_use c)\<rparr>"
    have "LRU_Unref a c = Some ?c'"
      using e idle u a(2) by (simp add: LRU_Unref_def set_handle_def LRU_Remove_def LRU_Append_lru_def Let_def remove1_idem)
    moreover have cc: "cached ?c' = cached c" using inv'(4) u by (auto simp: cached_def set_handle_def)
    moreover have "lru_inv ?c' T"
    proof -
      have "ht_ok (lc_heap ?c') (lc_table ?c') T"
        using ht_ok_cong [OF inv'(1), of "lc_heap ?c'"] e by (auto simp: id_of_def set_handle_def)
      moreover have "distinct (lc_lru ?c' @ lc_in_use ?c')" using inv'(4) a(2) u by (auto simp: distinct_remove1)
      moreover have "(\<Sum>b\<in>cached c. charge_of (lc_heap ?c') b) = (\<Sum>b\<in>cached c. charge_of (lc_heap c) b)"
        using e by (intro sum.cong) (auto simp: charge_of_def set_handle_def)
      moreover have "entry_ok ?c' b d" if "lc_heap ?c' b = Some d" for b d
        using that inv'(5) [of b] ok idle cc a(1) by (cases "b = a") (auto simp: entry_ok_def set_handle_def)
      ultimately show ?thesis using inv'(2,3,6) unfolding lru_inv_def cc by (auto simp: set_handle_def)
    qed
    moreover have "client_refs ?c' = (client_refs c)(a := client_refs c a - 1)"
      using e idle by (auto simp: client_refs_def set_handle_def)
    moreover have "keeps c ?c'" using cc e by (auto simp: keeps_def set_handle_def)
    ultimately show ?thesis using idle(1) by blast
  next
    case used
    have nz: "lh_refs e - 1 \<noteq> 0" "lh_in_cache e \<longrightarrow> lh_refs e - 1 \<noteq> 1" using used by (auto simp: diff_eq_eq)
    then have nz0: "0 < lh_refs e - 1" by (simp add: word_neq_0_conv [symmetric] del: word_neq_0_conv)
    have "\<not> (lh_in_cache ?e \<and> lh_refs ?e = 1)" "lh_refs ?e \<noteq> 0" using nz by simp_all
    then have r: "LRU_Unref a c = Some ?c" using e unfolding LRU_Unref_def by (simp only: bind.simps Let_def if_False)
    have cc: "cached ?c = cached c" by (simp add: cached_def set_handle_def)
    have "lru_inv ?c T"
    proof -
      have "ht_ok (lc_heap ?c) (lc_table ?c) T" using ht_ok_cong [OF inv'(1), of "lc_heap ?c"] e by (auto simp: id_of_def set_handle_def)
      moreover have "(\<Sum>b\<in>cached c. charge_of (lc_heap ?c) b) = (\<Sum>b\<in>cached c. charge_of (lc_heap c) b)"
        using e by (intro sum.cong) (auto simp: charge_of_def set_handle_def)
      moreover have "entry_ok ?c b d" if "lc_heap ?c b = Some d" for b d
        using that inv'(5) [of b] ok used nz(2) nz0 cc by (cases "b = a") (auto simp: entry_ok_def set_handle_def)
      ultimately show ?thesis using inv'(2,3,4,6) unfolding lru_inv_def cc by (auto simp: set_handle_def)
    qed
    moreover have "client_refs ?c = (client_refs c)(a := client_refs c a - 1)"
      using e word_minus_1 [OF pos] by (auto simp: client_refs_def set_handle_def)
    ultimately show ?thesis using r cc e by (auto simp: keeps_def set_handle_def)
  qed
qed

lemma FinishErase_ok:
  assumes inv: "lru_inv c (cached c - {a})" and a: "a \<in> cached c"
  shows "\<exists>c'. FinishErase (Some a) c = Some c' \<and> lru_inv c' (cached c') \<and> keeps c c' \<and> cached c' = cached c - {a}
    \<and> client_refs c' = client_refs c \<and> lc_lru c' = remove1 a (lc_lru c) \<and> lc_in_use c' = remove1 a (lc_in_use c)"
proof -
  have inv': "ht_ok (lc_heap c) (lc_table c) (cached c - {a})" "cached c \<subseteq> dom (lc_heap c)" "distinct (lc_lru c @ lc_in_use c)"
    "\<And>b d. lc_heap c b = Some d \<Longrightarrow> entry_ok c b d" "lc_usage c = (\<Sum>a\<in>cached c. charge_of (lc_heap c) a)"
    using inv by (simp_all add: lru_inv_def)
  obtain e where e: "lc_heap c a = Some e" using inv'(2) a by auto
  obtain c1 where c1: "LRU_Remove a c = Some c1" "c1 = c\<lparr>lc_lru := remove1 a (lc_lru c), lc_in_use := remove1 a (lc_in_use c)\<rparr>"
    "cached c1 = cached c - {a}" "distinct (lc_lru c1 @ lc_in_use c1)" using LRU_Remove_cached [OF inv'(3) a] by blast
  let ?c = "set_handle a (e\<lparr>lh_in_cache := False\<rparr>) (c1\<lparr>lc_usage := lc_usage c1 - lh_charge e\<rparr>)"
  have cc: "cached ?c = cached c - {a}" using c1(3) by (simp add: cached_def set_handle_def)
  have e1: "lc_heap c1 a = Some e" using e c1(2) by simp
  have fin: "finite (cached c)" by (simp add: cached_def)
  have "lru_inv ?c (cached c - {a})"
  proof -
    have "ht_ok (lc_heap ?c) (lc_table ?c) (cached c - {a})"
      using ht_ok_cong [OF inv'(1), of "lc_heap ?c"] e by (auto simp: id_of_def set_handle_def c1(2))
    moreover have "(\<Sum>b\<in>cached c - {a}. charge_of (lc_heap ?c) b) = (\<Sum>b\<in>cached c - {a}. charge_of (lc_heap c) b)"
      by (intro sum.cong) (auto simp: charge_of_def set_handle_def c1(2))
    moreover have "lc_usage c = lh_charge e + (\<Sum>b\<in>cached c - {a}. charge_of (lc_heap c) b)"
      using inv'(5) e sum.remove [OF fin a, of "charge_of (lc_heap c)"] by (simp add: charge_of_def)
    moreover have "entry_ok ?c b d" if "lc_heap ?c b = Some d" for b d
      using that inv'(4) [of b] inv'(4) [OF e] cc by (cases "b = a") (auto simp: entry_ok_def set_handle_def c1(2))
    moreover have "cached c - {a} \<subseteq> dom (lc_heap ?c)" using inv'(2) by (auto simp: set_handle_def c1(2))
    ultimately show ?thesis using c1(4) unfolding lru_inv_def cc by (auto simp: set_handle_def c1(2))
  qed
  moreover have "lc_heap ?c a = Some (e\<lparr>lh_in_cache := False\<rparr>)" by (simp add: set_handle_def)
  ultimately obtain c2 where c2: "LRU_Unref a ?c = Some c2" "lru_inv c2 (cached c - {a})" "keeps ?c c2" "cached c2 = cached ?c"
    "client_refs c2 = (client_refs ?c)(a := client_refs ?c a - 1)" "lc_lru c2 = lc_lru ?c" "lc_in_use c2 = lc_in_use ?c"
    using LRU_Unref_ok [of ?c "cached c - {a}" a "e\<lparr>lh_in_cache := False\<rparr>"] by auto
  have "keeps c ?c" using e cc by (auto simp: keeps_def set_handle_def c1(2))
  then have "keeps c c2" using c2(3) keeps_trans by blast
  moreover have "client_refs c2 = client_refs c"
    using c2(5) e inv'(4) [OF e] a by (auto simp: client_refs_def set_handle_def c1(2) entry_ok_def)
  moreover have "FinishErase (Some a) c = Some c2" using c1(1) e1 c2(1) by (simp add: FinishErase_def)
  ultimately show ?thesis using c2 cc by (simp add: set_handle_def c1(2))
qed

lemma LRUCache_Erase_ok:
  assumes inv: "lru_inv c (cached c)"
  shows "\<exists>c'. LRUCache_Erase key hash c = Some c' \<and> lru_inv c' (cached c') \<and> keeps c c' \<and> client_refs c' = client_refs c
    \<and> (\<forall>a\<in>cached c'. id_of (lc_heap c') a \<noteq> Some (key, hash))
    \<and> (\<forall>a\<in>cached c. id_of (lc_heap c) a = Some (key, hash) \<longrightarrow>
         cached c' = cached c - {a} \<and> lc_lru c' = remove1 a (lc_lru c) \<and> lc_in_use c' = remove1 a (lc_in_use c))"
proof -
  have ht: "ht_ok (lc_heap c) (lc_table c) (cached c)" using inv by (simp add: lru_inv_def)
  then have inj: "inj_on (id_of (lc_heap c)) (cached c)" by (simp add: ht_ok_def)
  obtain p t where r: "HandleTable_Remove (lc_heap c) key hash (lc_table c) = Some (p, t)"
    "case p of Some a \<Rightarrow> a \<in> cached c \<and> id_of (lc_heap c) a = Some (key, hash) \<and> ht_ok (lc_heap c) t (cached c - {a})
     | None \<Rightarrow> t = lc_table c \<and> (\<forall>a\<in>cached c. id_of (lc_heap c) a \<noteq> Some (key, hash))"
    using HandleTable_Remove_ok [OF ht] by blast
  show ?thesis
  proof (cases p)
    case None
    then show ?thesis using r inv by (auto simp: LRUCache_Erase_def FinishErase_def keeps_refl)
  next
    case (Some a)
    then have a: "a \<in> cached c" "id_of (lc_heap c) a = Some (key, hash)" "ht_ok (lc_heap c) t (cached c - {a})" using r(2) by simp_all
    let ?c = "c\<lparr>lc_table := t\<rparr>"
    have cc: "cached ?c = cached c" by (simp add: cached_def)
    have "lru_inv ?c (cached ?c - {a})" using inv a(3) unfolding lru_inv_def cc by (auto simp: entry_ok_def cached_def)
    from FinishErase_ok [OF this] a(1) cc obtain c' where c': "FinishErase (Some a) ?c = Some c'" "lru_inv c' (cached c')" "keeps ?c c'"
      "cached c' = cached c - {a}" "client_refs c' = client_refs ?c" "lc_lru c' = remove1 a (lc_lru c)" "lc_in_use c' = remove1 a (lc_in_use c)" by auto
    have k: "keeps c c'" using c'(3) cc by (simp add: keeps_def)
    have "id_of (lc_heap c') b \<noteq> Some (key, hash)" if "b \<in> cached c'" for b
    proof
      assume "id_of (lc_heap c') b = Some (key, hash)"
      then have "id_of (lc_heap c) b = Some (key, hash)" using k by (fastforce simp: id_of_def keeps_def)
      then show False using inj_onD [OF inj, of a b] a that c'(4) by auto
    qed
    moreover have "b = a" if "b \<in> cached c" "id_of (lc_heap c) b = Some (key, hash)" for b
      using inj_onD [OF inj, of a b] a that by simp
    moreover have "LRUCache_Erase key hash c = Some c'" using r(1) Some c'(1) by (simp add: LRUCache_Erase_def)
    moreover have "client_refs c' = client_refs c" using c'(5) by (simp add: client_refs_def fun_eq_iff)
    ultimately show ?thesis using c'(2,4,6,7) k by blast
  qed
qed

lemma evict_ok:
  assumes inv: "lru_inv c (cached c)" and lru: "lc_lru c = old # rest"
  shows "\<exists>c'. evict old c = Some c' \<and> lru_inv c' (cached c') \<and> keeps c c' \<and> client_refs c' = client_refs c \<and> lc_lru c' = rest
    \<and> lc_in_use c' = lc_in_use c"
proof -
  have old: "old \<in> cached c" "old \<notin> set (lc_in_use c)" using inv lru by (auto simp: cached_def lru_inv_def)
  then obtain e where e: "lc_heap c old = Some e" using inv by (auto simp: lru_inv_def)
  then have "id_of (lc_heap c) old = Some (lh_key e, lh_hash e)" by (simp add: id_of_def)
  with LRUCache_Erase_ok [OF inv, of "lh_key e" "lh_hash e"] obtain c' where
    "LRUCache_Erase (lh_key e) (lh_hash e) c = Some c'" "lru_inv c' (cached c')" "keeps c c'" "client_refs c' = client_refs c"
    "lc_lru c' = remove1 old (lc_lru c)" "lc_in_use c' = remove1 old (lc_in_use c)" using old(1) by blast
  then show ?thesis using e lru old(2) by (simp add: evict_def remove1_idem)
qed

lemma shrink_ok:
  assumes "lru_inv c (cached c)"
  shows "\<exists>c'. shrink c = Some c' \<and> lru_inv c' (cached c') \<and> keeps c c' \<and> client_refs c' = client_refs c
    \<and> (lc_usage c' \<le> lc_capacity c \<or> lc_lru c' = []) \<and> (\<exists>n. lc_lru c' = drop n (lc_lru c)) \<and> lc_in_use c' = lc_in_use c"
  using assms
proof (induction "lc_lru c" arbitrary: c)
  case Nil
  then show ?case by (subst shrink.simps) (simp add: keeps_refl)
next
  case (Cons old rest)
  note lru = Cons.hyps(2) [symmetric]
  show ?case
  proof (cases "lc_usage c > lc_capacity c")
    case True
    obtain c1 where c1: "evict old c = Some c1" "lru_inv c1 (cached c1)" "keeps c c1" "client_refs c1 = client_refs c" "lc_lru c1 = rest" "lc_in_use c1 = lc_in_use c"
      using evict_ok [OF Cons.prems lru] by blast
    obtain c2 n where c2: "shrink c1 = Some c2" "lru_inv c2 (cached c2)" "keeps c1 c2" "client_refs c2 = client_refs c1"
      "lc_usage c2 \<le> lc_capacity c1 \<or> lc_lru c2 = []" "lc_lru c2 = drop n (lc_lru c1)" "lc_in_use c2 = lc_in_use c1"
      using Cons.hyps(1) [OF c1(5) [symmetric] c1(2)] by blast
    have "shrink c = Some c2" using c1(1) c2(1) lru True by (subst shrink.simps) simp
    moreover have "lc_capacity c1 = lc_capacity c" using c1(3) by (simp add: keeps_def)
    moreover have "lc_lru c2 = drop (Suc n) (lc_lru c)" using c2(6) c1(5) lru by simp
    ultimately show ?thesis using c1 c2 keeps_trans [OF c1(3) c2(3)] by auto
  next
    case False
    then show ?thesis using Cons.prems lru by (subst shrink.simps) (auto simp: keeps_refl intro: exI [of _ 0])
  qed
qed

lemma LRUCache_Prune_ok:
  assumes "lru_inv c (cached c)"
  shows "\<exists>c'. LRUCache_Prune c = Some c' \<and> lru_inv c' (cached c') \<and> keeps c c' \<and> client_refs c' = client_refs c
    \<and> lc_lru c' = [] \<and> lc_in_use c' = lc_in_use c"
  using assms
proof (induction "lc_lru c" arbitrary: c)
  case Nil
  then show ?case by (subst LRUCache_Prune.simps) (simp add: keeps_refl)
next
  case (Cons old rest)
  note lru = Cons.hyps(2) [symmetric]
  obtain c1 where c1: "evict old c = Some c1" "lru_inv c1 (cached c1)" "keeps c c1" "client_refs c1 = client_refs c" "lc_lru c1 = rest" "lc_in_use c1 = lc_in_use c"
    using evict_ok [OF Cons.prems lru] by blast
  from Cons.hyps(1) [OF c1(5) [symmetric] c1(2)] c1 lru keeps_trans [OF c1(3)] show ?case
    by (subst LRUCache_Prune.simps) auto
qed

lemma LRU_Ref_ok:
  assumes inv: "lru_inv c (cached c)" and a: "a \<in> cached c" and room: "client_refs c a < 2 ^ 32 - 2"
  shows "\<exists>c'. LRU_Ref a c = Some c' \<and> lru_inv c' (cached c') \<and> keeps c c' \<and> cached c' = cached c
    \<and> client_refs c' = (client_refs c)(a := client_refs c a + 1)"
proof -
  have inv': "ht_ok (lc_heap c) (lc_table c) (cached c)" "cached c \<subseteq> dom (lc_heap c)" "distinct (lc_lru c @ lc_in_use c)"
    "\<And>b d. lc_heap c b = Some d \<Longrightarrow> entry_ok c b d" "lc_usage c = (\<Sum>a\<in>cached c. charge_of (lc_heap c) a)"
    using inv by (simp_all add: lru_inv_def)
  obtain e where e: "lc_heap c a = Some e" using inv'(2) a by auto
  have ok: "lh_in_cache e" "0 < lh_refs e" "a < lc_fresh c" "lh_refs e = 1 \<longleftrightarrow> a \<in> set (lc_lru c)" using inv'(4) [OF e] a by (auto simp: entry_ok_def)
  have pos: "0 < unat (lh_refs e)" using ok(2) by (simp add: word_less_nat_alt)
  have "unat (lh_refs e) \<le> 2 ^ 32 - 2" using room e ok(1) by (simp add: client_refs_def)
  then have r: "unat (lh_refs e + 1) = unat (lh_refs e) + 1" by (simp add: unat_word_ariths)
  then have big: "0 < lh_refs e + 1" "lh_refs e + 1 \<noteq> 1" using pos by (auto simp: word_less_nat_alt)
  define c1 where "c1 = (if lh_refs e = 1 then c\<lparr>lc_lru := remove1 a (lc_lru c), lc_in_use := lc_in_use c @ [a]\<rparr> else c)"
  let ?c = "set_handle a (e\<lparr>lh_refs := lh_refs e + 1\<rparr>) c1"
  have "a \<notin> set (lc_in_use c)" if "lh_refs e = 1" using inv'(3) ok(4) that by auto
  then have step: "LRU_Ref a c = Some ?c"
    using e ok(1,4) by (simp add: LRU_Ref_def c1_def LRU_Remove_def LRU_Append_in_use_def remove1_idem)
  have cc: "cached ?c = cached c" using ok(4) inv'(3) by (auto simp: cached_def set_handle_def c1_def)
  have fields: "lc_heap c1 = lc_heap c" "lc_table c1 = lc_table c" "lc_usage c1 = lc_usage c" "lc_fresh c1 = lc_fresh c" "lc_capacity c1 = lc_capacity c"
    by (simp_all add: c1_def)
  have lru: "set (lc_lru c1) = set (lc_lru c) - {a}" using inv'(3) ok(4) by (auto simp: c1_def)
  have "lru_inv ?c (cached c)"
  proof -
    have "ht_ok (lc_heap ?c) (lc_table ?c) (cached c)"
      using ht_ok_cong [OF inv'(1), of "lc_heap ?c"] e by (auto simp: id_of_def set_handle_def fields)
    moreover have "(\<Sum>b\<in>cached c. charge_of (lc_heap ?c) b) = (\<Sum>b\<in>cached c. charge_of (lc_heap c) b)"
      using e by (intro sum.cong) (auto simp: charge_of_def set_handle_def fields)
    moreover have "entry_ok ?c b d" if "lc_heap ?c b = Some d" for b d
    proof (cases "b = a")
      case True
      then have "d = e\<lparr>lh_refs := lh_refs e + 1\<rparr>" using that by (simp add: set_handle_def)
      then show ?thesis using True ok big lru a unfolding entry_ok_def cc by (simp add: set_handle_def fields)
    next
      case False
      then show ?thesis using that inv'(4) [of b d] lru unfolding entry_ok_def cc by (simp add: set_handle_def fields)
    qed
    moreover have "distinct (lc_lru ?c @ lc_in_use ?c)" using inv'(3) ok(4) by (auto simp: set_handle_def c1_def distinct_remove1)
    ultimately show ?thesis using inv'(2,5) unfolding lru_inv_def cc by (auto simp: set_handle_def fields)
  qed
  moreover have "client_refs ?c = (client_refs c)(a := client_refs c a + 1)"
    using e ok(1) r pos by (auto simp: client_refs_def set_handle_def fields)
  moreover have "keeps c ?c" using cc e by (auto simp: keeps_def set_handle_def fields)
  ultimately show ?thesis using step cc by auto
qed

lemma LRUCache_Lookup_ok:
  assumes inv: "lru_inv c (cached c)" and room: "\<And>a. client_refs c a < 2 ^ 32 - 2"
  shows "\<exists>p c'. LRUCache_Lookup key hash c = Some (p, c') \<and> lru_inv c' (cached c') \<and> keeps c c' \<and> cached c' = cached c
    \<and> (case p of
         None \<Rightarrow> c' = c \<and> (\<forall>a\<in>cached c. id_of (lc_heap c) a \<noteq> Some (key, hash))
       | Some a \<Rightarrow> a \<in> cached c \<and> id_of (lc_heap c) a = Some (key, hash) \<and> client_refs c' = (client_refs c)(a := client_refs c a + 1))"
proof -
  have ht: "ht_ok (lc_heap c) (lc_table c) (cached c)" using inv by (simp add: lru_inv_def)
  obtain p where p: "HandleTable_Lookup (lc_heap c) (lc_table c) key hash = Some p"
    "case p of Some a \<Rightarrow> a \<in> cached c \<and> id_of (lc_heap c) a = Some (key, hash) | None \<Rightarrow> \<forall>a\<in>cached c. id_of (lc_heap c) a \<noteq> Some (key, hash)"
    using HandleTable_Lookup_ok [OF ht] by blast
  show ?thesis
  proof (cases p)
    case None
    then show ?thesis using p inv by (auto simp: LRUCache_Lookup_def keeps_refl)
  next
    case (Some a)
    then have a: "a \<in> cached c" "id_of (lc_heap c) a = Some (key, hash)" using p(2) by simp_all
    from LRU_Ref_ok [OF inv a(1) room] obtain c' where "LRU_Ref a c = Some c'" "lru_inv c' (cached c')" "keeps c c'" "cached c' = cached c"
      "client_refs c' = (client_refs c)(a := client_refs c a + 1)" by blast
    then show ?thesis using p(1) Some a by (auto simp: LRUCache_Lookup_def)
  qed
qed

lemma LRUCache_Release_ok:
  assumes inv: "lru_inv c (cached c)" and client: "0 < client_refs c a"
  shows "\<exists>c'. LRUCache_Release a c = Some c' \<and> lru_inv c' (cached c') \<and> keeps c c' \<and> cached c' = cached c
    \<and> client_refs c' = (client_refs c)(a := client_refs c a - 1)"
proof -
  obtain e where e: "lc_heap c a = Some e" using client by (auto simp: client_refs_def split: option.splits)
  have "1 < lh_refs e" if "lh_in_cache e" using client e that by (simp add: client_refs_def word_less_nat_alt)
  from LRU_Unref_ok [OF inv e this] show ?thesis unfolding LRUCache_Release_def by auto
qed

definition new_handle :: "slice \<Rightarrow> u32 \<Rightarrow> 'v \<Rightarrow> u64 \<Rightarrow> bool \<Rightarrow> u32 \<Rightarrow> 'v LRUHandle" where
  "new_handle key hash v charge in_cache refs =
     \<lparr>lh_value = v, lh_charge = charge, lh_key = key, lh_in_cache = in_cache, lh_refs = refs, lh_hash = hash\<rparr>"

text \<open>The shard right after the new entry is linked in, before a duplicate and old entries are dropped.\<close>

definition with_new :: "slice \<Rightarrow> u32 \<Rightarrow> 'v \<Rightarrow> u64 \<Rightarrow> 'v LRUCache \<Rightarrow> 'v LRUCache" where
  "with_new key hash v charge c =
     (if lc_capacity c > 0
      then c\<lparr>lc_fresh := lc_fresh c + 1, lc_heap := (lc_heap c)(lc_fresh c \<mapsto> new_handle key hash v charge True 2),
             lc_in_use := lc_in_use c @ [lc_fresh c], lc_usage := lc_usage c + charge\<rparr>
      else c\<lparr>lc_fresh := lc_fresh c + 1, lc_heap := (lc_heap c)(lc_fresh c \<mapsto> new_handle key hash v charge False 1)\<rparr>)"

lemma LRUCache_Insert_ok:
  assumes inv: "lru_inv c (cached c)" and room: "card (cached c) + 1 < 2 ^ 31"
  shows "\<exists>c'. LRUCache_Insert key hash v charge c = Some (lc_fresh c, c') \<and> lru_inv c' (cached c') \<and> keeps (with_new key hash v charge c) c'
    \<and> client_refs c' = (client_refs c)(lc_fresh c := client_refs c (lc_fresh c) + 1)
    \<and> (lc_usage c' \<le> lc_capacity c \<or> lc_lru c' = []) \<and> (\<exists>n d. lc_lru c' = drop n (remove1 d (lc_lru c)))
    \<and> (0 < lc_capacity c \<longrightarrow> lc_fresh c \<in> cached c' \<and> lc_fresh c \<in> set (lc_in_use c'))"
proof -
  let ?a = "lc_fresh c" let ?n = "with_new key hash v charge c"
  have inv': "ht_ok (lc_heap c) (lc_table c) (cached c)" "cached c \<subseteq> dom (lc_heap c)" "distinct (lc_lru c @ lc_in_use c)"
    "\<And>b d. lc_heap c b = Some d \<Longrightarrow> entry_ok c b d" "lc_usage c = (\<Sum>a\<in>cached c. charge_of (lc_heap c) a)"
    using inv by (simp_all add: lru_inv_def)
  have fresh: "lc_heap c ?a = None" using inv'(4) [of ?a] by (cases "lc_heap c ?a") (auto simp: entry_ok_def)
  then have na: "?a \<notin> cached c" using inv'(2) by auto
  have cr: "client_refs ?n = (client_refs c)(?a := client_refs c ?a + 1)"
    using fresh by (auto simp: client_refs_def with_new_def new_handle_def)
  have ht: "ht_ok (lc_heap ?n) (lc_table c) (cached c)"
    by (rule ht_ok_cong [OF inv'(1)]) (use na in \<open>auto simp: id_of_def with_new_def\<close>)
  have sum: "(\<Sum>b\<in>cached c. charge_of (lc_heap ?n) b) = lc_usage c"
    unfolding inv'(5) using na by (intro sum.cong) (auto simp: charge_of_def with_new_def)
  obtain c1 where c1: "lru_inv c1 (cached c1)" "keeps ?n c1" "client_refs c1 = client_refs ?n" "\<exists>d. lc_lru c1 = remove1 d (lc_lru c)"
    "0 < lc_capacity c \<longrightarrow> ?a \<in> set (lc_in_use c1)" "LRUCache_Insert key hash v charge c = Option.bind (shrink c1) (\<lambda>c. Some (?a, c))"
  proof (cases "0 < lc_capacity c")
    case False
    have cc: "cached ?n = cached c" using False by (simp add: cached_def with_new_def)
    have "entry_ok ?n b d" if "lc_heap ?n b = Some d" for b d
      using that inv'(4) [of b d] False na cc by (cases "b = ?a") (auto simp: entry_ok_def with_new_def new_handle_def)
    then have "lru_inv ?n (cached ?n)"
      using ht sum inv'(2,3) False unfolding lru_inv_def cc by (auto simp: with_new_def)
    moreover have "\<exists>d. lc_lru ?n = remove1 d (lc_lru c)"
      using False na by (intro exI [of _ ?a]) (simp add: with_new_def cached_def remove1_idem)
    moreover have "LRUCache_Insert key hash v charge c = Option.bind (shrink ?n) (\<lambda>c. Some (?a, c))"
      using False by (simp add: LRUCache_Insert_def with_new_def new_handle_def set_handle_def Let_def)
    ultimately show thesis using that [OF _ keeps_refl] False by blast
  next
    case True
    let ?e = "new_handle key hash v charge True 2"
    have cc: "cached ?n = insert ?a (cached c)" using True by (auto simp: cached_def with_new_def)
    have fin: "finite (cached c)" by (simp add: cached_def)
    have ok: "entry_ok ?n b d" if "lc_heap ?n b = Some d" for b d
    proof (cases "b = ?a")
      case True
      then show ?thesis using that \<open>0 < lc_capacity c\<close> cc na by (auto simp: entry_ok_def with_new_def new_handle_def cached_def)
    next
      case False
      then have "lc_heap c b = Some d" using that by (auto simp: with_new_def split: if_splits)
      from inv'(4) [OF this] show ?thesis using False cc \<open>0 < lc_capacity c\<close> by (auto simp: entry_ok_def with_new_def)
    qed
    have usage: "lc_usage ?n = (\<Sum>b\<in>cached ?n. charge_of (lc_heap ?n) b)"
      using sum na fin True unfolding cc by (simp add: charge_of_def with_new_def new_handle_def)
    have dist: "distinct (lc_lru ?n @ lc_in_use ?n)" using inv'(3) na True by (auto simp: with_new_def cached_def)
    have dom: "cached ?n \<subseteq> dom (lc_heap ?n)" using inv'(2) cc True by (auto simp: with_new_def)
    have heap_a: "lc_heap ?n ?a = Some ?e" using True by (simp add: with_new_def)
    have with_table: "lru_inv (?n\<lparr>lc_table := t\<rparr>) T" if "ht_ok (lc_heap ?n) t T" "T \<subseteq> cached ?n" for t T
    proof -
      have "cached (?n\<lparr>lc_table := t\<rparr>) = cached ?n" by (simp add: cached_def)
      then show ?thesis using that ok usage dist dom unfolding lru_inv_def by (simp add: entry_ok_def)
    qed
    obtain p t where ins: "HandleTable_Insert (lc_heap ?n) ?a (lc_table c) = Some (p, t)"
      "case p of Some b \<Rightarrow> b \<in> cached c \<and> id_of (lc_heap ?n) b = id_of (lc_heap ?n) ?a \<and> ht_ok (lc_heap ?n) t (insert ?a (cached c - {b}))
       | None \<Rightarrow> (\<forall>b\<in>cached c. id_of (lc_heap ?n) b \<noteq> id_of (lc_heap ?n) ?a) \<and> ht_ok (lc_heap ?n) t (insert ?a (cached c))"
      using HandleTable_Insert_ok [OF ht na heap_a room] by blast
    have run: "LRUCache_Insert key hash v charge c = Option.bind (FinishErase p (?n\<lparr>lc_table := t\<rparr>)) (\<lambda>c. Option.bind (shrink c) (\<lambda>c. Some (?a, c)))"
      using True ins(1) by (simp add: LRUCache_Insert_def with_new_def new_handle_def set_handle_def LRU_Append_in_use_def Let_def)
    have kt: "keeps ?n (?n\<lparr>lc_table := t\<rparr>)" by (simp add: keeps_def cached_def)
    have crt: "client_refs (?n\<lparr>lc_table := t\<rparr>) = client_refs ?n" by (simp add: client_refs_def fun_eq_iff)
    have lt: "lc_lru ?n = lc_lru c" "?a \<in> set (lc_in_use ?n)" using True by (simp_all add: with_new_def)
    have ct: "cached (?n\<lparr>lc_table := t\<rparr>) = cached ?n" by (simp add: cached_def)
    show thesis
    proof (cases p)
      case None
      then have "lru_inv (?n\<lparr>lc_table := t\<rparr>) (cached (?n\<lparr>lc_table := t\<rparr>))" using with_table [of t "cached ?n"] ins(2) cc ct by simp
      moreover have "\<exists>d. lc_lru (?n\<lparr>lc_table := t\<rparr>) = remove1 d (lc_lru c)"
        using lt(1) na by (intro exI [of _ ?a]) (simp add: cached_def remove1_idem)
      ultimately show thesis using that [OF _ kt crt] run None lt(2) by (simp add: FinishErase_def)
    next
      case (Some b)
      then have b: "b \<in> cached c" "ht_ok (lc_heap ?n) t (insert ?a (cached c - {b}))" using ins(2) by simp_all
      have eq: "insert ?a (cached c - {b}) = cached (?n\<lparr>lc_table := t\<rparr>) - {b}" using cc ct b(1) na by auto
      have "lru_inv (?n\<lparr>lc_table := t\<rparr>) (cached (?n\<lparr>lc_table := t\<rparr>) - {b})"
        using with_table [of t "insert ?a (cached c - {b})"] b(2) cc eq by auto
      from FinishErase_ok [OF this] b(1) cc ct obtain c1 where c1: "FinishErase (Some b) (?n\<lparr>lc_table := t\<rparr>) = Some c1" "lru_inv c1 (cached c1)"
        "keeps (?n\<lparr>lc_table := t\<rparr>) c1" "client_refs c1 = client_refs (?n\<lparr>lc_table := t\<rparr>)"
        "lc_lru c1 = remove1 b (lc_lru c)" "lc_in_use c1 = remove1 b (lc_in_use ?n)" using lt(1) by auto
      have "?a \<in> set (lc_in_use c1)" using c1(6) lt(2) b(1) na by (metis in_set_remove1)
      then show thesis using that [OF c1(2) keeps_trans [OF kt c1(3)]] c1(1,4,5) crt run Some by auto
    qed
  qed
  obtain c2 n where c2: "shrink c1 = Some c2" "lru_inv c2 (cached c2)" "keeps c1 c2" "client_refs c2 = client_refs c1"
    "lc_usage c2 \<le> lc_capacity c1 \<or> lc_lru c2 = []" "lc_lru c2 = drop n (lc_lru c1)" "lc_in_use c2 = lc_in_use c1"
    using shrink_ok [OF c1(1)] by blast
  have "lc_capacity c1 = lc_capacity c" using c1(2) by (simp add: keeps_def with_new_def)
  moreover have "?a \<in> cached c2" if "0 < lc_capacity c" using c1(5) c2(7) that by (simp add: cached_def)
  moreover have "\<exists>n d. lc_lru c2 = drop n (remove1 d (lc_lru c))" using c1(4) c2(6) by metis
  moreover have "LRUCache_Insert key hash v charge c = Some (?a, c2)" using c1(6) c2(1) by simp
  ultimately show ?thesis using c1(3,5) c2(2,4,5,7) cr keeps_trans [OF c1(2) c2(3)] by (intro exI [of _ c2]) simp
qed

lemma LRUCache_init_ok: "\<exists>c :: 'v LRUCache. LRUCache_init cap = Some c \<and> lru_inv c (cached c) \<and> lc_capacity c = cap \<and> lc_heap c = Map.empty \<and> cached c = {}"
proof -
  obtain t where t: "HandleTable_init = Some t" "ht_ok (Map.empty :: 'v handles) t {}" using HandleTable_init_ok by blast
  let ?c = "\<lparr>lc_capacity = cap, lc_usage = 0, lc_lru = [], lc_in_use = [], lc_table = t, lc_heap = Map.empty, lc_fresh = 0, lc_deleted = []\<rparr> :: 'v LRUCache"
  have "LRUCache_init cap = Some ?c" unfolding LRUCache_init_def t(1) by simp
  moreover have "lru_inv ?c (cached ?c)" using t(2) by (simp add: lru_inv_def cached_def)
  ultimately show ?thesis by (intro exI [of _ ?c]) (simp add: cached_def)
qed

end
