(* ===== verification/Ldb_Cache_Props.thy ===== *)
theory Ldb_Cache_Props
  imports Ldb_Cache_Inv Ldb_Table_Props
begin

text \<open>
  The sharded cache keeps the contract of \<open>Ldb_Table_Read\<close>, so a table finds the same entries through it as
  without it; and what the cache does to its entries.
\<close>

section \<open>The invariant of all shards\<close>

definition sharded_inv :: "'v ShardedLRUCache \<Rightarrow> bool" where
  "sharded_inv c \<longleftrightarrow>
     length (sc_shard c) = kNumShards
     \<and> (\<forall>s<kNumShards. lru_inv (sc_shard c ! s) (cached (sc_shard c ! s))
          \<and> (\<forall>a e. lc_heap (sc_shard c ! s) a = Some e \<longrightarrow> lh_hash e = HashSlice (lh_key e) \<and> Shard (lh_hash e) = s))"

definition cache_refs :: "'v ShardedLRUCache \<Rightarrow> nat \<Rightarrow> nat" where
  "cache_refs c h = client_refs (sc_shard c ! (h mod kNumShards)) (h div kNumShards)"

definition cache_holds :: "'v ShardedLRUCache \<Rightarrow> slice \<Rightarrow> 'v \<Rightarrow> bool" where
  "cache_holds c k v \<longleftrightarrow> shard_holds (sc_shard c ! Shard (HashSlice k)) k v"

definition cache_room :: "'v ShardedLRUCache \<Rightarrow> bool" where
  "cache_room c \<longleftrightarrow> (\<forall>h. cache_refs c h < 2 ^ 32 - 2) \<and> (\<forall>s<kNumShards. card (cached (sc_shard c ! s)) + 1 < 2 ^ 31)"

lemma kNumShards_16: "kNumShards = 16"
  by (simp add: kNumShards_def kNumShardBits_def)

lemma Shard_less: "Shard h < kNumShards"
proof -
  have "unat h < 2 ^ 28 * 16" using unat_lt2p [of h] by simp
  then have "unat h div 2 ^ 28 < 16" by (rule less_mult_imp_div_less [OF order_less_le_trans]) simp
  then show ?thesis by (simp add: Shard_def kNumShardBits_def kNumShards_16 unat_drop_bit)
qed

lemma sharded_inv_update:
  assumes "sharded_inv c" "lru_inv shard (cached shard)" "s < kNumShards"
    "\<And>a e. lc_heap shard a = Some e \<Longrightarrow> lh_hash e = HashSlice (lh_key e) \<and> Shard (lh_hash e) = s"
  shows "sharded_inv (c\<lparr>sc_shard := (sc_shard c)[s := shard]\<rparr>)"
  unfolding sharded_inv_def
proof (intro conjI allI impI)
  show "length (sc_shard (c\<lparr>sc_shard := (sc_shard c)[s := shard]\<rparr>)) = kNumShards" using assms(1) by (simp add: sharded_inv_def)
  fix i
  assume "i < kNumShards"
  then have i: "i < length (sc_shard c)" using assms(1) by (simp add: sharded_inv_def)
  show "lru_inv (sc_shard (c\<lparr>sc_shard := (sc_shard c)[s := shard]\<rparr>) ! i) (cached (sc_shard (c\<lparr>sc_shard := (sc_shard c)[s := shard]\<rparr>) ! i))"
    using assms(1,2) i by (cases "i = s") (auto simp: sharded_inv_def)
  show "lh_hash e = HashSlice (lh_key e)" "Shard (lh_hash e) = i"
    if "lc_heap (sc_shard (c\<lparr>sc_shard := (sc_shard c)[s := shard]\<rparr>) ! i) a = Some e" for a e
    using that assms(1,4) i by (cases "i = s"; simp add: sharded_inv_def; blast)+
qed

lemma keeps_hashes:
  assumes "keeps c c'" "\<And>a e. lc_heap c a = Some e \<Longrightarrow> lh_hash e = HashSlice (lh_key e) \<and> Shard (lh_hash e) = s"
  shows "lc_heap c' a = Some e \<Longrightarrow> lh_hash e = HashSlice (lh_key e) \<and> Shard (lh_hash e) = s"
  using assms unfolding keeps_def by metis

lemma sharded_inv_shard:
  assumes "sharded_inv c" "s < kNumShards"
  shows "lru_inv (sc_shard c ! s) (cached (sc_shard c ! s))" "s < length (sc_shard c)"
    "lc_heap (sc_shard c ! s) a = Some e \<Longrightarrow> lh_hash e = HashSlice (lh_key e) \<and> Shard (lh_hash e) = s"
  using assms unfolding sharded_inv_def by (blast, simp, blast)

lemma cache_refs_update:
  assumes "s < length (sc_shard c)" "length (sc_shard c) = kNumShards"
    "client_refs shard = (client_refs (sc_shard c ! s))(a := n)"
  shows "cache_refs (c\<lparr>sc_shard := (sc_shard c)[s := shard]\<rparr>) = (cache_refs c)(a * kNumShards + s := n)"
proof
  fix h
  have s: "s < 16" using assms(1,2) by (simp add: kNumShards_16)
  show "cache_refs (c\<lparr>sc_shard := (sc_shard c)[s := shard]\<rparr>) h = ((cache_refs c)(a * kNumShards + s := n)) h"
  proof (cases "h mod 16 = s")
    case True
    have "h = a * 16 + s \<longleftrightarrow> h div 16 = a" using True by (metis add.commute div_mod_decomp mult.commute div_mult_self3 div_less add_0 s zero_neq_numeral)
    then show ?thesis using assms True by (simp add: cache_refs_def kNumShards_16)
  next
    case False
    then have "h \<noteq> a * 16 + s" using s by auto
    then show ?thesis using False assms by (simp add: cache_refs_def kNumShards_16)
  qed
qed

lemma cache_refs_same:
  assumes "s < length (sc_shard c)" "client_refs shard = client_refs (sc_shard c ! s)"
  shows "cache_refs (c\<lparr>sc_shard := (sc_shard c)[s := shard]\<rparr>) = cache_refs c"
  using assms by (auto simp: cache_refs_def fun_eq_iff nth_list_update)

section \<open>The operations\<close>

lemma Cache_Insert_ok:
  assumes "sharded_inv c" "cache_room c"
  shows "\<exists>h c'. Cache_Insert key v charge c = Some (h, c') \<and> sharded_inv c'
    \<and> (\<forall>k w. cache_holds c' k w \<longrightarrow> cache_holds c k w \<or> k = key \<and> w = v) \<and> cache_refs c' = (cache_refs c)(h := cache_refs c h + 1)"
proof -
  let ?s = "Shard (HashSlice key)" let ?shard = "sc_shard c ! Shard (HashSlice key)"
  note s = Shard_less [of "HashSlice key"]
  note sh = sharded_inv_shard [OF assms(1) s]
  have room: "card (cached ?shard) + 1 < 2 ^ 31" using assms(2) s by (simp add: cache_room_def)
  let ?a = "lc_fresh ?shard"
  obtain shard where i: "LRUCache_Insert key (HashSlice key) v charge ?shard = Some (?a, shard)" "lru_inv shard (cached shard)"
    "keeps (with_new key (HashSlice key) v charge ?shard) shard" "client_refs shard = (client_refs ?shard)(?a := client_refs ?shard ?a + 1)"
    using LRUCache_Insert_ok [OF sh(1) room] by blast
  let ?c = "c\<lparr>sc_shard := (sc_shard c)[?s := shard]\<rparr>"
  have hashes: "lh_hash e = HashSlice (lh_key e) \<and> Shard (lh_hash e) = ?s" if "lc_heap (with_new key (HashSlice key) v charge ?shard) a = Some e" for a e
    using that sh(3) [of a e] by (auto simp: with_new_def new_handle_def split: if_splits)
  have "sharded_inv ?c" by (rule sharded_inv_update [OF assms(1) i(2) s keeps_hashes [OF i(3) hashes]])
  moreover have "cache_holds c k w \<or> k = key \<and> w = v" if "cache_holds ?c k w" for k w
  proof (cases "Shard (HashSlice k) = ?s")
    case True
    then have "shard_holds shard k w" using that sh(2) by (simp add: cache_holds_def)
    then have "shard_holds (with_new key (HashSlice key) v charge ?shard) k w" by (rule keeps_holds [OF i(3)])
    then have "shard_holds ?shard k w \<or> k = key \<and> w = v"
      by (auto simp: shard_holds_def with_new_def new_handle_def cached_def split: if_splits)
    then show ?thesis using True by (simp add: cache_holds_def)
  next
    case False
    then show ?thesis using that by (simp add: cache_holds_def)
  qed
  moreover have "cache_refs ?c = (cache_refs c)(?a * kNumShards + ?s := client_refs ?shard ?a + 1)"
    by (rule cache_refs_update) (use sh(2) assms(1) i(4) in \<open>simp_all add: sharded_inv_def\<close>)
  moreover have "cache_refs c (?a * kNumShards + ?s) = client_refs ?shard ?a" using s by (simp add: cache_refs_def)
  moreover have "Cache_Insert key v charge c = Some (?a * kNumShards + ?s, ?c)" using i(1) by (simp add: Cache_Insert_def Let_def)
  ultimately show ?thesis by auto
qed

lemma Cache_Lookup_ok:
  assumes "sharded_inv c" "cache_room c"
  shows "\<exists>hit c'. Cache_Lookup key c = Some (hit, c') \<and> sharded_inv c' \<and> (\<forall>k v. cache_holds c' k v \<longrightarrow> cache_holds c k v)
    \<and> (case hit of None \<Rightarrow> c' = c | Some (h, v) \<Rightarrow> cache_holds c key v \<and> cache_refs c' = (cache_refs c)(h := cache_refs c h + 1))"
proof -
  let ?s = "Shard (HashSlice key)" let ?shard = "sc_shard c ! Shard (HashSlice key)"
  note s = Shard_less [of "HashSlice key"]
  note sh = sharded_inv_shard [OF assms(1) s]
  have "client_refs ?shard a = cache_refs c (a * kNumShards + ?s)" for a using s by (simp add: cache_refs_def)
  then have room: "client_refs ?shard a < 2 ^ 32 - 2" for a using assms(2) by (simp add: cache_room_def)
  obtain p shard where l: "LRUCache_Lookup key (HashSlice key) ?shard = Some (p, shard)" "lru_inv shard (cached shard)" "keeps ?shard shard"
    "cached shard = cached ?shard"
    "case p of None \<Rightarrow> shard = ?shard \<and> (\<forall>a\<in>cached ?shard. id_of (lc_heap ?shard) a \<noteq> Some (key, HashSlice key))
     | Some a \<Rightarrow> a \<in> cached ?shard \<and> id_of (lc_heap ?shard) a = Some (key, HashSlice key)
         \<and> client_refs shard = (client_refs ?shard)(a := client_refs ?shard a + 1)"
    using LRUCache_Lookup_ok [OF sh(1) room] by blast
  let ?c = "c\<lparr>sc_shard := (sc_shard c)[?s := shard]\<rparr>"
  have inv: "sharded_inv ?c" by (rule sharded_inv_update [OF assms(1) l(2) s keeps_hashes [OF l(3) sh(3)]])
  have holds: "cache_holds c k w" if "cache_holds ?c k w" for k w
    using that keeps_holds [OF l(3), of k w] sh(2) by (cases "Shard (HashSlice k) = ?s") (auto simp: cache_holds_def)
  show ?thesis
  proof (cases p)
    case None
    then have "?c = c" using l(5) sh(2) by simp
    then have "Cache_Lookup key c = Some (None, c)" using l(1) None by (simp add: Cache_Lookup_def Let_def)
    then show ?thesis using assms(1) by auto
  next
    case (Some a)
    then have a: "a \<in> cached ?shard" "id_of (lc_heap ?shard) a = Some (key, HashSlice key)"
      "client_refs shard = (client_refs ?shard)(a := client_refs ?shard a + 1)" using l(5) by simp_all
    obtain e' where e': "lc_heap shard a = Some e'" using a(1) l(2,4) by (auto simp: lru_inv_def)
    obtain e where e: "lc_heap ?shard a = Some e" "lh_value e' = lh_value e" using l(3) e' unfolding keeps_def by blast
    have hit: "cache_holds c key (lh_value e')" using a(1,2) e by (auto simp: cache_holds_def shard_holds_def id_of_def)
    have "cache_refs ?c = (cache_refs c)(a * kNumShards + ?s := client_refs ?shard a + 1)"
      by (rule cache_refs_update) (use sh(2) assms(1) a(3) in \<open>simp_all add: sharded_inv_def\<close>)
    moreover have "cache_refs c (a * kNumShards + ?s) = client_refs ?shard a" using s by (simp add: cache_refs_def)
    moreover have "Cache_Lookup key c = Some (Some (a * kNumShards + ?s, lh_value e'), ?c)" using l(1) Some e' by (simp add: Cache_Lookup_def Let_def)
    ultimately show ?thesis using inv holds hit by auto
  qed
qed

lemma Cache_Release_ok:
  assumes "sharded_inv c" "0 < cache_refs c h"
  shows "\<exists>c'. Cache_Release h c = Some c' \<and> sharded_inv c' \<and> (\<forall>k v. cache_holds c' k v \<longrightarrow> cache_holds c k v)
    \<and> cache_refs c' = (cache_refs c)(h := cache_refs c h - 1)"
proof -
  let ?s = "h mod kNumShards" and ?a = "h div kNumShards"
  have s: "?s < kNumShards" by (simp add: kNumShards_16)
  let ?shard = "sc_shard c ! ?s"
  note sh = sharded_inv_shard [OF assms(1) s]
  have cr: "0 < client_refs ?shard ?a" using assms(2) by (simp add: cache_refs_def)
  then obtain e where e: "lc_heap ?shard ?a = Some e" by (auto simp: client_refs_def split: option.splits)
  obtain shard where r: "LRUCache_Release ?a ?shard = Some shard" "lru_inv shard (cached shard)" "keeps ?shard shard" "cached shard = cached ?shard"
    "client_refs shard = (client_refs ?shard)(?a := client_refs ?shard ?a - 1)" using LRUCache_Release_ok [OF sh(1) cr] by blast
  let ?c = "c\<lparr>sc_shard := (sc_shard c)[?s := shard]\<rparr>"
  have "sharded_inv ?c" by (rule sharded_inv_update [OF assms(1) r(2) s keeps_hashes [OF r(3) sh(3)]])
  moreover have "cache_holds c k w" if "cache_holds ?c k w" for k w
    using that keeps_holds [OF r(3), of k w] sh(2) by (cases "Shard (HashSlice k) = ?s") (auto simp: cache_holds_def)
  moreover have "cache_refs ?c = (cache_refs c)(?a * kNumShards + ?s := client_refs ?shard ?a - 1)"
    by (rule cache_refs_update) (use sh(2) assms(1) r(5) in \<open>simp_all add: sharded_inv_def\<close>)
  moreover have "?a * kNumShards + ?s = h" by simp
  moreover have "Shard (lh_hash e) = ?s" using sh(3) [OF e] by blast
  with e r(1) have "Cache_Release h c = Some ?c" by (simp add: Cache_Release_def Let_def)
  ultimately show ?thesis by (auto simp: cache_refs_def)
qed

lemma Cache_Erase_ok:
  assumes "sharded_inv c"
  shows "\<exists>c'. Cache_Erase key c = Some c' \<and> sharded_inv c' \<and> (\<forall>k v. cache_holds c' k v \<longrightarrow> cache_holds c k v) \<and> cache_refs c' = cache_refs c
    \<and> (\<forall>v. \<not> cache_holds c' key v)"
proof -
  let ?s = "Shard (HashSlice key)" let ?shard = "sc_shard c ! Shard (HashSlice key)"
  note s = Shard_less [of "HashSlice key"]
  note sh = sharded_inv_shard [OF assms s]
  obtain shard where r: "LRUCache_Erase key (HashSlice key) ?shard = Some shard" "lru_inv shard (cached shard)" "keeps ?shard shard"
    "client_refs shard = client_refs ?shard" "\<forall>a\<in>cached shard. id_of (lc_heap shard) a \<noteq> Some (key, HashSlice key)"
    using LRUCache_Erase_ok [OF sh(1), of key "HashSlice key"] by blast
  let ?c = "c\<lparr>sc_shard := (sc_shard c)[?s := shard]\<rparr>"
  have inv: "sharded_inv ?c" by (rule sharded_inv_update [OF assms r(2) s keeps_hashes [OF r(3) sh(3)]])
  have "cache_holds c k w" if "cache_holds ?c k w" for k w
    using that keeps_holds [OF r(3), of k w] sh(2) by (cases "Shard (HashSlice k) = ?s") (auto simp: cache_holds_def)
  moreover have "\<not> cache_holds ?c key v" for v
  proof
    assume "cache_holds ?c key v"
    then obtain a e where a: "a \<in> cached shard" "lc_heap shard a = Some e" "lh_key e = key" using sh(2) by (auto simp: cache_holds_def shard_holds_def)
    have "lh_hash e = HashSlice (lh_key e)" using keeps_hashes [OF r(3) sh(3) a(2)] by simp
    then show False using r(5) a by (auto simp: id_of_def)
  qed
  ultimately show ?thesis using inv r(1) cache_refs_same [OF sh(2) r(4)] by (simp add: Cache_Erase_def Let_def)
qed

lemma Cache_init_ok:
  "\<exists>c :: 'v ShardedLRUCache. ShardedLRUCache_init cap = Some c \<and> sharded_inv c \<and> cache_room c \<and> (\<forall>k v. \<not> cache_holds c k v)"
proof -
  let ?cap = "(cap + word_of_nat (kNumShards - 1)) div word_of_nat kNumShards"
  obtain shard :: "'v LRUCache" where sh: "LRUCache_init ?cap = Some shard" "lru_inv shard (cached shard)" "lc_heap shard = Map.empty" "cached shard = {}"
    using LRUCache_init_ok by blast
  let ?c = "\<lparr>sc_shard = replicate kNumShards shard, sc_last_id = 0\<rparr>"
  have "ShardedLRUCache_init cap = Some ?c" unfolding ShardedLRUCache_init_def sh(1) by simp
  moreover have "sharded_inv ?c" using sh(2,3) by (simp add: sharded_inv_def)
  moreover have "cache_room ?c" using sh(3,4) by (simp add: cache_room_def cache_refs_def client_refs_def kNumShards_16)
  moreover have "\<not> cache_holds ?c k v" for k v using sh(4) Shard_less by (simp add: cache_holds_def shard_holds_def)
  ultimately show ?thesis by blast
qed

definition lru_cache :: "('v ShardedLRUCache, 'v) Cache" where
  "lru_cache = \<lparr>ca_Lookup = Cache_Lookup, ca_Insert = (\<lambda>key v charge. Cache_Insert key v (word_of_nat charge)), ca_Release = Cache_Release\<rparr>"

interpretation lru: cache lru_cache sharded_inv cache_room cache_holds cache_refs
  by unfold_locales (use Cache_Lookup_ok Cache_Insert_ok Cache_Release_ok in \<open>simp_all add: lru_cache_def\<close>)

interpretation cached_default_table: cached_table "InternalKey_Compare Bytewise_Compare"
    "InternalKey_FindShortestSeparator Bytewise_Compare Bytewise_FindShortestSeparator"
    "InternalKey_FindShortSuccessor Bytewise_Compare Bytewise_FindShortSuccessor" "internal_valid (\<lambda>_. True)" same_user_key
    "SanitizeOptions Options_init" lru_cache sharded_inv cache_room cache_holds cache_refs
  by (intro cached_table.intro default_table.table_config_axioms lru.cache_axioms)

section \<open>Properties\<close>

abbreviation posix_pread_file :: "posix \<Rightarrow> string \<Rightarrow> byte list \<Rightarrow> bool \<Rightarrow> nat \<Rightarrow> nat \<Rightarrow> RandomAccessFile" where
  "posix_pread_file os name bytes permanent fd n \<equiv>
     \<lparr>raf_Read = PosixRandomAccessFile_Read os name bytes permanent (\<lambda>_. Ret fd) (\<lambda>_. Ret n), raf_scratch = True\<rparr>"

lemma cache_holds_unique:
  assumes "sharded_inv c" "cache_holds c k v" "cache_holds c k w"
  shows "v = w"
proof -
  let ?s = "Shard (HashSlice k)"
  note sh = sharded_inv_shard [OF assms(1) Shard_less [of "HashSlice k"]]
  obtain a e b d where a: "a \<in> cached (sc_shard c ! ?s)" "lc_heap (sc_shard c ! ?s) a = Some e" "lh_key e = k" "lh_value e = v"
    and b: "b \<in> cached (sc_shard c ! ?s)" "lc_heap (sc_shard c ! ?s) b = Some d" "lh_key d = k" "lh_value d = w"
    using assms(2,3) by (auto simp: cache_holds_def shard_holds_def)
  have "id_of (lc_heap (sc_shard c ! ?s)) a = id_of (lc_heap (sc_shard c ! ?s)) b"
    using a b sh(3) [OF a(2)] sh(3) [OF b(2)] by (simp add: id_of_def)
  moreover have "inj_on (id_of (lc_heap (sc_shard c ! ?s))) (cached (sc_shard c ! ?s))" using sh(1) by (simp add: lru_inv_def ht_ok_def)
  ultimately have "a = b" using a(1) b(1) by (simp add: inj_on_def)
  then show ?thesis using a b by simp
qed







end
