(* ===== verification/Spec2Isabelle.thy ===== *)
theory Spec2Isabelle
  imports Pb_Decode_Props Pb_Schema FBase64_Props Ldb_Bloom Ldb_Db Ldb_Log_Safe Ldb_Cache_Props
begin

text \<open>
  DevPost is an iOS client of Firebase. Its own Swift code is user interface glue; the logic that a
  crash or a corrupted byte can break is in the C and C++ code it is built with, under
  \<^verbatim>\<open>src/DevPost/Pods\<close>. This development models three parts of it: the nanopb protocol buffer library
  with the messages generated for Firebase telemetry (\<^verbatim>\<open>nanopb/pb*.c\<close>, \<^verbatim>\<open>pb.h\<close>, \<^verbatim>\<open>cct.nanopb.*\<close>,
  \<^verbatim>\<open>firebasecore.nanopb.*\<close>), the base64 coder of the web socket handshake
  (\<^verbatim>\<open>SocketRocket/fbase64.c\<close>), and the formats and algorithms of LevelDB, which keeps the
  database's offline cache (\<^verbatim>\<open>leveldb-library\<close>).

  \<^bold>\<open>Common ground.\<close> \<open>Pb_Prelude\<close> names the machine types (\<open>byte\<close>, \<open>u32\<close>, \<open>u64\<close>, addresses, a flat
  memory of bytes) and proves the lemmas on little-endian numbers and memory updates the components
  share; \<open>Varint\<close> is base-128 coding with the locale \<open>prefix_codec\<close>, the contract of an encoder and a
  parser that leaves the rest of its input. The platform is the one the app is built for: 64-bit,
  little-endian, signed \<^verbatim>\<open>char\<close>; nanopb is compiled with 32-bit field descriptors and malloc.

  \<^bold>\<open>nanopb.\<close> \<open>Pb_Core\<close> holds the data of \<^verbatim>\<open>pb.h\<close>: field descriptors, type bytes, streams, callbacks,
  extensions, the allocator. Function pointers and the allocator are members of the environment
  record \<open>cenv\<close>, given to every operation. \<open>Pb_Common\<close> is the field iterator, \<open>Pb_Encode\<close> the whole of
  \<^verbatim>\<open>pb_encode.c\<close>, \<open>Pb_Stream_In\<close> and \<open>Pb_Decode\<close> the whole of \<^verbatim>\<open>pb_decode.c\<close>, one definition for each C
  function and one for each loop. Messages live in the flat memory, so a decoder that writes outside
  its structure would be visible. C recursion through submessages runs on a fuel argument, one unit
  for each nesting level, and \<open>None\<close> means that it ran out or that the C code would not return; the
  encoder theorems assume only that the abstract encoding of the message exists, and derive that the
  C encoder returns for the same fuel. \<open>Pb_Encode_Wire\<close> defines what a message should look like on
  the wire, without streams; \<open>Pb_Encode_Refine\<close> proves that every encoder hands exactly those bytes
  to its stream, for a memory stream, a full one and the sizing stream alike (the predicate \<open>wbeh\<close>),
  and \<open>Pb_Encode_Props\<close> states the result: what fits is written byte for byte, what does not fit
  fails with \<^verbatim>\<open>stream full\<close>, nothing outside the buffer changes, and the size is predicted exactly.
  \<open>Pb_Decode_Wire\<close>, \<open>Pb_Decode_Safe\<close> and \<open>Pb_Decode_Props\<close> prove that every decoder stays inside its input,
  whatever the input, that varints, fixed-width values and tags are read back, and how malformed
  input is refused.

  \<^bold>\<open>Generated messages.\<close> \<open>Pb_Layout\<close> is the C structure layout and the descriptor macros \<^verbatim>\<open>PB_FIELD\<close>
  expands to; \<open>Cct_Proto\<close> and \<open>Core_Diag_Proto\<close> are the generated enumerations, structures, defaults
  and descriptor tables. \<open>Pb_Schema\<close> states in the locale \<open>message_schema\<close> what a table owes its
  structure, interprets it for every message, and proves that the iterator locates every member.

  \<^bold>\<open>Base64.\<close> \<open>FBase64\<close> models \<^verbatim>\<open>f_b64_ntop\<close> and \<^verbatim>\<open>f_b64_pton\<close> over memory, \<open>FBase64_Spec\<close> defines the
  encoding on 24-bit groups, and \<open>FBase64_Props\<close> proves that the encoder writes it, that the decoder
  accepts nothing else, that they are inverse and stay inside their target.

  \<^bold>\<open>LevelDB.\<close> \<open>Ldb_Coding\<close> models slices and \<^verbatim>\<open>coding.cc\<close>; \<open>Ldb_Format\<close> the comparators (locale
  \<open>comparator\<close>, a total preorder with short separators), internal keys and lookup keys; \<open>Ldb_Bloom\<close> the
  hash and the filter policy (locale \<open>filter_policy\<close>); \<open>Ldb_Batch\<close> write batches as the bytes they are
  logged as, refined to lists of updates; \<open>Ldb_Crc\<close> the checksum of log records and blocks, proved equal
  to the bit-serial CRC-32C. The memtable a batch is inserted into is a parameter.

  \<^bold>\<open>Not modelled.\<close> The Swift and Objective-C code, which is user interface, Foundation and network glue;
  the parts of LevelDB that are threads, files and compaction scheduling (\<^verbatim>\<open>db_impl.cc\<close>,
  \<^verbatim>\<open>version_set.cc\<close>, \<^verbatim>\<open>env_posix.cc\<close>), and, so far, its log and table files, memtable and caches;
  header files that only declare Objective-C interfaces.
\<close>

end
